(* ===== verification/Prelude.thy ===== *)
theory Prelude
  imports Main "HOL-Library.Word"
begin

unbundle bit_operations_syntax

text \<open>
  Shared ground of the development: the C integer types of
  \<^verbatim>\<open>Application/Users/CanFestival/stm32/applicfg.h\<close> as machine words, little-endian
  encodings of 16- and 32-bit values, flat byte memory with typed reads and
  writes, a checked array store, and the generic list lemmas the component
  theories use. The collections \<open>byte_simps\<close> and \<open>inv_intros\<close> gather the
  rewrite rules of the byte level and the preservation lemmas of the operations.
\<close>

named_theorems byte_simps \<open>encodings and memory reads and writes\<close>
named_theorems inv_intros \<open>every operation keeps the node invariant\<close>

section \<open>Machine integers\<close>

type_synonym UNS8 = "8 word"
type_synonym UNS16 = "16 word"
type_synonym UNS32 = "32 word"
type_synonym TIMEVAL = UNS32

text \<open>
  \<open>TIMER_HANDLE\<close> is \<open>INTEGER16\<close> in the source. Handles are modelled as integers;
  the node invariant keeps every stored handle between \<open>-1\<close> and \<open>7\<close>, so the
  16-bit range is never left.
\<close>

type_synonym TIMER_HANDLE = int

text \<open>Truth values of C: a test of a word for being non-zero, and the value of a comparison.\<close>

definition c_true :: "'a::len word \<Rightarrow> bool" where
  "c_true w \<longleftrightarrow> w \<noteq> 0"

definition c_bool :: "bool \<Rightarrow> UNS8" where
  "c_bool b = (if b then 1 else 0)"

lemma c_true_c_bool [simp]: "c_true (c_bool b) = b"
  by (simp add: c_true_def c_bool_def)

section \<open>Little-endian encodings\<close>

definition le16 :: "UNS8 \<Rightarrow> UNS8 \<Rightarrow> UNS16" where
  "le16 b0 b1 = ucast b0 OR push_bit 8 (ucast b1)"

definition le32 :: "UNS8 \<Rightarrow> UNS8 \<Rightarrow> UNS8 \<Rightarrow> UNS8 \<Rightarrow> UNS32" where
  "le32 b0 b1 b2 b3 =
     ucast b0 OR push_bit 8 (ucast b1) OR push_bit 16 (ucast b2) OR push_bit 24 (ucast b3)"

definition bytes16 :: "UNS16 \<Rightarrow> UNS8 list" where
  "bytes16 v = [ucast v, ucast (drop_bit 8 v)]"

definition bytes32 :: "UNS32 \<Rightarrow> UNS8 list" where
  "bytes32 v = [ucast v, ucast (drop_bit 8 v), ucast (drop_bit 16 v), ucast (drop_bit 24 v)]"

lemma length_bytes16 [simp]: "length (bytes16 v) = 2"
  by (simp add: bytes16_def)

lemma length_bytes32 [simp]: "length (bytes32 v) = 4"
  by (simp add: bytes32_def)

lemma le16_bytes16 [simp, byte_simps]:
  "le16 (ucast v) (ucast (drop_bit 8 v)) = v"
proof (rule bit_word_eqI)
  fix n
  assume "n < LENGTH(16)"
  then show "bit (le16 (ucast v) (ucast (drop_bit 8 v))) n = bit v n"
    by (cases "n < 8") (auto simp: le16_def bit_simps)
qed

lemma le32_bytes32 [simp, byte_simps]:
  "le32 (ucast v) (ucast (drop_bit 8 v)) (ucast (drop_bit 16 v)) (ucast (drop_bit 24 v)) = v"
proof (rule bit_word_eqI)
  fix n
  assume "n < LENGTH(32)"
  then consider "n < 8" | "8 \<le> n" "n < 16" | "16 \<le> n" "n < 24" | "24 \<le> n" "n < 32"
    by fastforce
  then show "bit (le32 (ucast v) (ucast (drop_bit 8 v)) (ucast (drop_bit 16 v)) (ucast (drop_bit 24 v))) n
      = bit v n"
    by cases (auto simp: le32_def bit_simps)
qed

section \<open>Flat byte memory\<close>

text \<open>
  The C variables that the object dictionary points to live in one flat byte
  memory. A pointer is an address; \<open>NULL\<close> is address 0. Two dictionary entries
  that point to overlapping variables alias here exactly as they do in C.
\<close>

type_synonym addr = nat
type_synonym memory = "addr \<Rightarrow> UNS8"

definition rd8 :: "memory \<Rightarrow> addr \<Rightarrow> UNS8" where
  "rd8 m a = m a"

definition rd16 :: "memory \<Rightarrow> addr \<Rightarrow> UNS16" where
  "rd16 m a = le16 (m a) (m (a + 1))"

definition rd32 :: "memory \<Rightarrow> addr \<Rightarrow> UNS32" where
  "rd32 m a = le32 (m a) (m (a + 1)) (m (a + 2)) (m (a + 3))"

definition rd_bytes :: "memory \<Rightarrow> addr \<Rightarrow> nat \<Rightarrow> UNS8 list" where
  "rd_bytes m a n = map (\<lambda>i. m (a + i)) [0..<n]"

fun wr_bytes :: "memory \<Rightarrow> addr \<Rightarrow> UNS8 list \<Rightarrow> memory" where
  "wr_bytes m a [] = m"
| "wr_bytes m a (b # bs) = wr_bytes (m(a := b)) (a + 1) bs"

definition wr16 :: "memory \<Rightarrow> addr \<Rightarrow> UNS16 \<Rightarrow> memory" where
  "wr16 m a v = wr_bytes m a (bytes16 v)"

definition wr32 :: "memory \<Rightarrow> addr \<Rightarrow> UNS32 \<Rightarrow> memory" where
  "wr32 m a v = wr_bytes m a (bytes32 v)"

lemma length_rd_bytes [simp]: "length (rd_bytes m a n) = n"
  by (simp add: rd_bytes_def)

lemma nth_rd_bytes [simp]: "i < n \<Longrightarrow> rd_bytes m a n ! i = m (a + i)"
  by (simp add: rd_bytes_def)

lemma wr_bytes_outside [simp]: "x < a \<or> a + length bs \<le> x \<Longrightarrow> wr_bytes m a bs x = m x"
  by (induction m a bs rule: wr_bytes.induct) auto

lemma wr_bytes_inside: "i < length bs \<Longrightarrow> wr_bytes m a bs (a + i) = bs ! i"
proof (induction m a bs arbitrary: i rule: wr_bytes.induct)
  case (2 m a b bs)
  show ?case
  proof (cases i)
    case 0
    then show ?thesis by simp
  next
    case (Suc j)
    with 2 have "wr_bytes (m(a := b)) (a + 1) bs ((a + 1) + j) = bs ! j"
      by (intro "2.IH") simp
    with Suc show ?thesis by simp
  qed
qed simp

lemma wr_bytes_at:
  "wr_bytes m a bs x = (if a \<le> x \<and> x < a + length bs then bs ! (x - a) else m x)"
  using wr_bytes_inside [of "x - a" bs m a] wr_bytes_outside [of x a bs m] by auto

lemma rd_wr_bytes [simp, byte_simps]: "rd_bytes (wr_bytes m a bs) a (length bs) = bs"
  by (rule nth_equalityI) (simp_all add: wr_bytes_inside)

lemma rd_bytes_prefix:
  "n \<le> length bs \<Longrightarrow> rd_bytes (wr_bytes m a bs) a n = take n bs"
  by (rule nth_equalityI) (simp_all add: wr_bytes_inside)

lemma rd_bytes_disjoint [byte_simps]:
  "b + n \<le> a \<or> a + length bs \<le> b \<Longrightarrow> rd_bytes (wr_bytes m a bs) b n = rd_bytes m b n"
  by (rule nth_equalityI) auto

lemma rd16_wr16 [simp, byte_simps]: "rd16 (wr16 m a v) a = v"
  by (simp add: rd16_def wr16_def wr_bytes_at bytes16_def)

lemma rd32_wr32 [simp, byte_simps]: "rd32 (wr32 m a v) a = v"
  by (simp add: rd32_def wr32_def wr_bytes_at bytes32_def nth_Cons')

lemma rd32_rd_bytes:
  "rd_bytes m a 4 = bs \<Longrightarrow> rd32 m a = le32 (bs ! 0) (bs ! 1) (bs ! 2) (bs ! 3)"
  by (auto simp: rd32_def)

section \<open>Lists\<close>

text \<open>Arrays of the source are lists of fixed length; a store keeps the length.\<close>

lemma set_list_update_replicate [simp]:
  "set (replicate n x) \<subseteq> {x}"
  by (simp add: set_replicate_conv_if)

lemma list_all_update:
  "list_all P xs \<Longrightarrow> P y \<Longrightarrow> list_all P (xs[i := y])"
  by (auto simp: list_all_iff dest!: set_update_subset_insert [THEN subsetD])

lemma take_Suc_snoc: "i < length xs \<Longrightarrow> take (Suc i) xs = take i xs @ [xs ! i]"
  by (rule take_Suc_conv_app_nth)

text \<open>Overwriting a run of cells of a list, as a \<open>for\<close> loop over consecutive indices does.\<close>

fun put_list :: "'a list \<Rightarrow> nat \<Rightarrow> 'a list \<Rightarrow> 'a list" where
  "put_list xs i [] = xs"
| "put_list xs i (y # ys) = put_list (xs[i := y]) (Suc i) ys"

lemma length_put_list [simp]: "length (put_list xs i ys) = length xs"
  by (induction xs i ys rule: put_list.induct) auto

lemma nth_put_list:
  "k < length xs \<Longrightarrow>
   put_list xs i ys ! k = (if i \<le> k \<and> k < i + length ys then ys ! (k - i) else xs ! k)"
proof (induction xs i ys rule: put_list.induct)
  case (2 xs i y ys)
  then show ?case
    by (auto simp: nth_Cons' Suc_diff_le nth_list_update intro!: arg_cong [of _ _ "nth ys"])
qed auto

lemma put_list_append: "put_list (put_list m i xs) (i + length xs) ys = put_list m i (xs @ ys)"
  by (induction m i xs rule: put_list.induct) simp_all

lemma put_list_eq:
  "i + length ys \<le> length xs \<Longrightarrow>
   put_list xs i ys = take i xs @ ys @ drop (i + length ys) xs"
  by (rule nth_equalityI) (auto simp: nth_put_list nth_append)

text \<open>The index at which a search loop over an array stops; the length when it finds nothing.\<close>

fun find_pos :: "('a \<Rightarrow> bool) \<Rightarrow> 'a list \<Rightarrow> nat" where
  "find_pos P [] = 0"
| "find_pos P (x # xs) = (if P x then 0 else Suc (find_pos P xs))"

lemma find_pos_le: "find_pos P xs \<le> length xs"
  by (induction xs) auto

lemma find_pos_hit: "find_pos P xs < length xs \<Longrightarrow> P (xs ! find_pos P xs)"
  by (induction xs) auto

lemma find_pos_before: "i < find_pos P xs \<Longrightarrow> \<not> P (xs ! i)"
proof (induction xs arbitrary: i)
  case (Cons x xs)
  then show ?case by (cases i) (auto split: if_splits)
qed simp

lemma find_pos_none: "find_pos P xs = length xs \<longleftrightarrow> (\<forall>x \<in> set xs. \<not> P x)"
  by (induction xs) auto

lemma find_pos_lt: "find_pos P xs \<noteq> length xs \<longleftrightarrow> find_pos P xs < length xs"
  using find_pos_le [of P xs] by auto

lemma find_pos_ex: "i < length xs \<Longrightarrow> P (xs ! i) \<Longrightarrow> find_pos P xs < length xs"
  unfolding find_pos_lt [symmetric] find_pos_none by auto

lemma find_pos_first:
  "i < length xs \<Longrightarrow> P (xs ! i) \<Longrightarrow> \<forall>j < i. \<not> P (xs ! j) \<Longrightarrow> find_pos P xs = i"
  by (metis find_pos_before find_pos_hit find_pos_none linorder_neqE_nat nth_mem find_pos_le le_neq_implies_less)

text \<open>A 32-bit write and reads of other words.\<close>

lemma rd32_wr32_other [byte_simps]: "b + 4 \<le> a \<or> a + 4 \<le> b \<Longrightarrow> rd32 (wr32 m a v) b = rd32 m b"
  by (auto simp: rd32_def wr32_def wr_bytes_at bytes32_def)

lemma wr32_byte_other [byte_simps]: "b < a \<or> a + 4 \<le> b \<Longrightarrow> wr32 m a v b = m b"
  by (auto simp: wr32_def wr_bytes_at)

lemma rd32_upd_other [byte_simps]: "a + 4 \<le> x \<or> x < a \<Longrightarrow> rd32 (m(x := v)) a = rd32 m a"
  by (auto simp: rd32_def)

lemma unat_ucast_16_32: "unat (ucast (e :: UNS16) :: UNS32) = unat e"
proof -
  have "unat e < 2 ^ 16" using unsigned_less [of e] by simp
  then show ?thesis by (simp add: unsigned_ucast_eq take_bit_nat_eq_self)
qed

end
