(* ===== verification/Malloc.thy ===== *)
theory Malloc
  imports Prelude
begin

text \<open>
  The block allocator of \<^verbatim>\<open>Application/Users/Main/src/malloc.c\<close>, in the
  configuration of \<^verbatim>\<open>malloc.h\<close> (\<open>USE_NEW_MALLOC_MOD\<close> is 0, so the second half
  of the file is the code that is compiled). Three banks of RAM are managed by a
  table of 16-bit cells each: a free block has the cell 0, and every block of an
  allocation of \<open>n\<close> blocks has the cell \<open>n\<close>. The theory shows that the table
  stays a sequence of free cells and complete runs, that the search is first fit
  from the top and complete, that release undoes allocation, that two live
  allocations never share a block, and that reallocation carries the old bytes over.
\<close>

section \<open>State and constants\<close>

definition SRAMBANK :: nat where
  "SRAMBANK = 3"

definition memtblsize :: "nat list" where
  "memtblsize = [30 * 1024 div 32, 200 * 1024 div 32, 60 * 1024 div 32]"

definition memblksize :: "UNS32 list" where
  "memblksize = [32, 32, 32]"

definition memsize :: "UNS32 list" where
  "memsize = [30 * 1024, 200 * 1024, 60 * 1024]"

text \<open>
  \<open>membase\<close> holds the addresses of the three pools. The linker chooses the first;
  the other two are fixed by an attribute of the array, as the initialiser below says.
  \<open>ram\<close> is the byte memory that the pools are part of.
\<close>

record mallco_dev =
  membase :: "UNS32 list"
  memmap :: "UNS16 list list"
  memrdy :: "UNS8 list"
  ram :: "UNS32 \<Rightarrow> UNS8"

definition mallco_dev_init :: "UNS32 \<Rightarrow> (UNS32 \<Rightarrow> UNS8) \<Rightarrow> mallco_dev" where
  "mallco_dev_init mem1base r =
     \<lparr> membase = [mem1base, 0x68000000, 0x10000000],
       memmap = map (\<lambda>n. replicate n 0) memtblsize,
       memrdy = [0, 0, 0],
       ram = r \<rparr>"

section \<open>Operations\<close>

text \<open>The byte loops; the count is a \<open>uint32_t\<close> that is counted down to 0.\<close>

fun mymemcpy_loop :: "nat \<Rightarrow> UNS32 \<Rightarrow> UNS32 \<Rightarrow> (UNS32 \<Rightarrow> UNS8) \<Rightarrow> (UNS32 \<Rightarrow> UNS8)" where
  "mymemcpy_loop 0 xdes xsrc r = r"
| "mymemcpy_loop (Suc n) xdes xsrc r = mymemcpy_loop n (xdes + 1) (xsrc + 1) (r(xdes := r xsrc))"

definition mymemcpy :: "UNS32 \<Rightarrow> UNS32 \<Rightarrow> UNS32 \<Rightarrow> mallco_dev \<Rightarrow> mallco_dev" where
  "mymemcpy des src n s = s\<lparr>ram := mymemcpy_loop (unat n) des src (ram s)\<rparr>"

fun mymemset_loop :: "nat \<Rightarrow> UNS32 \<Rightarrow> UNS8 \<Rightarrow> (UNS32 \<Rightarrow> UNS8) \<Rightarrow> (UNS32 \<Rightarrow> UNS8)" where
  "mymemset_loop 0 xs c r = r"
| "mymemset_loop (Suc n) xs c r = mymemset_loop n (xs + 1) c (r(xs := c))"

definition mymemset :: "UNS32 \<Rightarrow> UNS8 \<Rightarrow> UNS32 \<Rightarrow> mallco_dev \<Rightarrow> mallco_dev" where
  "mymemset p c count s = s\<lparr>ram := mymemset_loop (unat count) p c (ram s)\<rparr>"

text \<open>
  The state table is kept as a list of cells: clearing its \<open>memtblsize * 2\<close> bytes
  makes every cell 0.
\<close>

definition my_mem_init :: "nat \<Rightarrow> mallco_dev \<Rightarrow> mallco_dev" where
  "my_mem_init memx s =
     (let s1 = s\<lparr>memmap := (memmap s)[memx := replicate (memtblsize ! memx) 0]\<rparr>;
          s2 = mymemset (membase s1 ! memx) 0 (memsize ! memx) s1
      in s2\<lparr>memrdy := (memrdy s2)[memx := 1]\<rparr>)"

fun count_used :: "UNS16 list \<Rightarrow> nat" where
  "count_used [] = 0"
| "count_used (c # cs) = (if c_true c then 1 else 0) + count_used cs"

definition my_mem_perused :: "nat \<Rightarrow> mallco_dev \<Rightarrow> UNS8" where
  "my_mem_perused memx s =
     ucast ((of_nat (count_used (take (memtblsize ! memx) (memmap s ! memx))) * 100 :: UNS32)
            div of_nat (memtblsize ! memx))"

text \<open>
  The search of \<open>my_mem_malloc\<close>: \<open>offset\<close> runs down from the last cell to 0 and
  \<open>cmemb\<close> counts the free cells seen since the last used one. The first argument is
  \<open>offset + 1\<close>; the result is the offset at which the count reached \<open>nmemb\<close>.
\<close>

fun find_run :: "UNS16 list \<Rightarrow> nat \<Rightarrow> nat \<Rightarrow> nat \<Rightarrow> nat option" where
  "find_run tbl nmemb 0 cmemb = None"
| "find_run tbl nmemb (Suc offset) cmemb =
     (let cmemb' = (if tbl ! offset = 0 then cmemb + 1 else 0)
      in if cmemb' = nmemb then Some offset else find_run tbl nmemb offset cmemb')"

definition blocks_needed :: "nat \<Rightarrow> UNS32 \<Rightarrow> UNS32" where
  "blocks_needed memx sz =
     (let n = sz div (memblksize ! memx)
      in if sz mod (memblksize ! memx) \<noteq> 0 then n + 1 else n)"

definition my_mem_malloc :: "nat \<Rightarrow> UNS32 \<Rightarrow> mallco_dev \<Rightarrow> UNS32 \<times> mallco_dev" where
  "my_mem_malloc memx sz s =
     (let s1 = (if c_true (memrdy s ! memx) then s else my_mem_init memx s)
      in if sz = 0 then (0xFFFFFFFF, s1)
         else let nmemb = blocks_needed memx sz;
                  tbl = memmap s1 ! memx
              in case find_run tbl (unat nmemb) (memtblsize ! memx) 0 of
                   None \<Rightarrow> (0xFFFFFFFF, s1)
                 | Some offset \<Rightarrow>
                     (of_nat offset * (memblksize ! memx),
                      s1\<lparr>memmap := (memmap s1)[memx :=
                            put_list tbl offset (replicate (unat nmemb) (ucast nmemb))]\<rparr>))"

definition my_mem_free :: "nat \<Rightarrow> UNS32 \<Rightarrow> mallco_dev \<Rightarrow> UNS8 \<times> mallco_dev" where
  "my_mem_free memx offset s =
     (if \<not> c_true (memrdy s ! memx) then (1, my_mem_init memx s)
      else if offset < memsize ! memx then
        (let index = unat (offset div (memblksize ! memx));
             tbl = memmap s ! memx;
             nmemb = unat (tbl ! index)
         in (0, s\<lparr>memmap := (memmap s)[memx := put_list tbl index (replicate nmemb 0)]\<rparr>))
      else (2, s))"

definition myfree :: "nat \<Rightarrow> UNS32 \<Rightarrow> mallco_dev \<Rightarrow> mallco_dev" where
  "myfree memx ptr s =
     (if ptr = 0 then s else snd (my_mem_free memx (ptr - membase s ! memx) s))"

definition mymalloc :: "nat \<Rightarrow> UNS32 \<Rightarrow> mallco_dev \<Rightarrow> UNS32 \<times> mallco_dev" where
  "mymalloc memx sz s =
     (let (offset, s1) = my_mem_malloc memx sz s
      in if offset = 0xFFFFFFFF then (0, s1) else (membase s1 ! memx + offset, s1))"

definition myrealloc :: "nat \<Rightarrow> UNS32 \<Rightarrow> UNS32 \<Rightarrow> mallco_dev \<Rightarrow> UNS32 \<times> mallco_dev" where
  "myrealloc memx ptr sz s =
     (let (offset, s1) = my_mem_malloc memx sz s
      in if offset = 0xFFFFFFFF then (0, s1)
         else let s2 = mymemcpy (membase s1 ! memx + offset) ptr sz s1;
                  s3 = myfree memx ptr s2
              in (membase s3 ! memx + offset, s3))"

section \<open>The table invariant\<close>

text \<open>
  A well-formed table is a sequence of free cells and of complete runs, a run of
  an allocation of \<open>n\<close> blocks being \<open>n\<close> cells that all hold \<open>n\<close>.
\<close>

fun runs :: "UNS16 list \<Rightarrow> bool" where
  "runs [] = True"
| "runs (c # cs) =
     (if c = 0 then runs cs
      else unat c \<le> length (c # cs) \<and> (\<forall>x \<in> set (take (unat c) (c # cs)). x = c)
           \<and> runs (drop (unat c - 1) cs))"

text \<open>Cell \<open>i\<close> is the first cell of an allocation.\<close>

fun block_start :: "UNS16 list \<Rightarrow> nat \<Rightarrow> bool" where
  "block_start [] i = False"
| "block_start (c # cs) i =
     (if c = 0 then (case i of 0 \<Rightarrow> False | Suc j \<Rightarrow> block_start cs j)
      else i = 0 \<or> (unat c \<le> i \<and> block_start (drop (unat c - 1) cs) (i - unat c)))"

definition bank_ok :: "nat \<Rightarrow> mallco_dev \<Rightarrow> bool" where
  "bank_ok memx s \<longleftrightarrow> memx < SRAMBANK \<and> length (membase s) = SRAMBANK \<and>
     length (memmap s) = SRAMBANK \<and> length (memrdy s) = SRAMBANK \<and>
     length (memmap s ! memx) = memtblsize ! memx \<and>
     (c_true (memrdy s ! memx) \<longrightarrow> runs (memmap s ! memx))"

lemma runs_replicate_0 [simp]: "runs (replicate n 0)"
  by (induction n) simp_all

lemma runs_append: "runs xs \<Longrightarrow> runs ys \<Longrightarrow> runs (xs @ ys)"
proof (induction xs rule: runs.induct)
  case (2 c cs)
  show ?case
  proof (cases "c = 0")
    case False
    with 2 have len: "unat c \<le> Suc (length cs)" by simp
    then have "take (unat c) (c # cs @ ys) = take (unat c) (c # cs)"
      by (simp add: take_Cons')
    with 2 False len show ?thesis by simp
  qed (use 2 in simp)
qed simp

lemma runs_full:
  assumes "unat c = n" "0 < n"
  shows "runs (replicate n c)"
proof -
  from assms have "c \<noteq> 0" by auto
  moreover have "replicate n c = c # replicate (n - 1) c"
    using assms by (cases n) auto
  ultimately show ?thesis using assms by simp
qed

lemma runs_split_zero: "runs (xs @ 0 # ys) \<Longrightarrow> runs xs \<and> runs ys"
proof (induction xs rule: runs.induct)
  case 1
  then show ?case by simp
next
  case (2 c cs)
  show ?case
  proof (cases "c = 0")
    case True
    with 2 show ?thesis by simp
  next
    case False
    then have pos: "0 < unat c" by (simp add: unat_gt_0)
    from "2.prems" False have all: "\<forall>x \<in> set (take (unat c) (c # cs @ 0 # ys)). x = c"
      and rest: "runs (drop (unat c - 1) (cs @ 0 # ys))"
      by simp_all
    have len: "unat c \<le> length (c # cs)"
    proof (rule ccontr)
      assume "\<not> ?thesis"
      then have "0 \<in> set (take (unat c) (c # cs @ 0 # ys))"
        by (auto simp: take_Cons' in_set_conv_nth nth_append intro!: exI [of _ "length cs"])
      with all False show False by auto
    qed
    with rest have "runs (drop (unat c - 1) cs @ 0 # ys)" by simp
    with "2.IH"(2) [OF False] have "runs (drop (unat c - 1) cs) \<and> runs ys" by blast
    with all len False show ?thesis by (auto simp: take_Cons')
  qed
qed

text \<open>The cells of an allocation, found from its first cell.\<close>

lemma block_start_split:
  assumes "runs tbl" "block_start tbl i"
  shows "\<exists>xs c ys. tbl = xs @ replicate (unat c) c @ ys \<and> length xs = i \<and> c \<noteq> 0 \<and> runs xs \<and> runs ys"
  using assms
proof (induction tbl i rule: block_start.induct)
  case (2 c cs i)
  show ?case
  proof (cases "c = 0")
    case True
    with "2.prems" obtain j where i: "i = Suc j" and "runs cs" "block_start cs j"
      by (auto split: nat.splits)
    with "2.IH"(1) [OF True i] obtain xs d ys where
      "cs = xs @ replicate (unat d) d @ ys" "length xs = j" "d \<noteq> 0" "runs xs" "runs ys"
      by blast
    with True i show ?thesis
      by (intro exI [of _ "c # xs"] exI [of _ d] exI [of _ ys]) simp
  next
    case False
    then have pos: "0 < unat c" by (simp add: unat_gt_0)
    let ?rest = "drop (unat c - 1) cs"
    have split: "c # cs = replicate (unat c) c @ ?rest"
    proof -
      have "take (unat c) (c # cs) = replicate (unat c) c"
        using "2.prems"(1) False by (intro replicate_eqI) auto
      then have "c # cs = replicate (unat c) c @ drop (unat c) (c # cs)"
        by (metis append_take_drop_id)
      with pos show ?thesis by (simp add: drop_Cons')
    qed
    have rest: "runs ?rest" using "2.prems"(1) False by simp
    show ?thesis
    proof (cases "i = 0")
      case True
      with split rest False show ?thesis
        by (intro exI [of _ "[]"] exI [of _ c] exI [of _ ?rest]) simp
    next
      case nz: False
      with "2.prems"(2) False have le: "unat c \<le> i" and bs: "block_start ?rest (i - unat c)"
        by simp_all
      from "2.IH"(2) [OF False rest bs] obtain xs d ys where
        "?rest = xs @ replicate (unat d) d @ ys" "length xs = i - unat c" "d \<noteq> 0" "runs xs" "runs ys"
        by blast
      moreover have "runs (replicate (unat c) c)" using pos by (simp add: runs_full)
      ultimately show ?thesis using split le
        by (intro exI [of _ "replicate (unat c) c @ xs"] exI [of _ d] exI [of _ ys])
          (simp add: runs_append)
    qed
  qed
qed simp

lemma block_start_append: "runs xs \<Longrightarrow> block_start (xs @ ys) (length xs + i) = block_start ys i"
proof (induction xs rule: runs.induct)
  case (2 c cs)
  show ?case
  proof (cases "c = 0")
    case True
    with 2 show ?thesis by simp
  next
    case False
    then have "0 < unat c" by (simp add: unat_gt_0)
    let ?r = "drop (unat c - 1) cs"
    have le: "unat c \<le> Suc (length cs)" using "2.prems" False by simp
    have idx: "Suc (length cs + i) - unat c = length ?r + i"
      using le \<open>0 < unat c\<close> by simp
    have "block_start ((c # cs) @ ys) (length (c # cs) + i)
        = block_start (drop (unat c - 1) (cs @ ys)) (Suc (length cs + i) - unat c)"
      using False le by simp
    also have "\<dots> = block_start (?r @ ys) (length ?r + i)"
      using le by (simp only: idx) simp
    also have "\<dots> = block_start ys i"
      using 2 False by simp
    finally show ?thesis .
  qed
qed simp

lemma block_start_replicate: "c \<noteq> 0 \<Longrightarrow> 0 < n \<Longrightarrow> block_start (replicate n c @ ys) 0"
  by (cases n) auto

section \<open>The search\<close>

definition free_run :: "UNS16 list \<Rightarrow> nat \<Rightarrow> nat \<Rightarrow> bool" where
  "free_run tbl n i \<longleftrightarrow> i + n \<le> length tbl \<and> (\<forall>j < n. tbl ! (i + j) = 0)"

lemma free_run_split:
  assumes "free_run tbl n i"
  shows "tbl = take i tbl @ replicate n 0 @ drop (i + n) tbl"
proof -
  have "take n (drop i tbl) = replicate n 0"
    using assms by (intro nth_equalityI) (auto simp: free_run_def)
  then have "drop i tbl = replicate n 0 @ drop n (drop i tbl)"
    by (metis append_take_drop_id)
  then show ?thesis
    by (metis append_take_drop_id drop_drop add.commute)
qed

text \<open>
  The loop invariant of the search: \<open>cmemb\<close> is the length of the free stretch that
  starts at the current cell, and no long enough run starts at or above it.
\<close>

lemma find_run_inv:
  assumes "0 < n" "c < n" "k + c \<le> length tbl" "\<forall>j < c. tbl ! (k + j) = 0"
    "k + c = length tbl \<or> tbl ! (k + c) \<noteq> 0" "\<forall>i \<ge> k. \<not> free_run tbl n i"
  shows "case find_run tbl n k c of
           Some i \<Rightarrow> i < k \<and> free_run tbl n i \<and> (\<forall>j > i. \<not> free_run tbl n j)
         | None \<Rightarrow> \<forall>i. \<not> free_run tbl n i"
  using assms
proof (induction k arbitrary: c)
  case 0
  then show ?case by simp
next
  case (Suc k)
  show ?case
  proof (cases "tbl ! k = 0")
    case False
    have "\<not> free_run tbl n k"
      using False Suc.prems(1) by (auto simp: free_run_def)
    then have "\<forall>i \<ge> k. \<not> free_run tbl n i"
      using Suc.prems(6) by (metis le_antisym not_less_eq_eq)
    with Suc.IH [of 0] Suc.prems False show ?thesis
      by (auto simp: Let_def split: option.splits)
  next
    case True
    then have free: "\<forall>j < Suc c. tbl ! (k + j) = 0"
      using Suc.prems(4) by (auto simp: less_Suc_eq_0_disj)
    show ?thesis
    proof (cases "Suc c = n")
      case fin: True
      with free Suc.prems(3) have "free_run tbl n k" by (simp add: free_run_def)
      with fin True Suc.prems(6) show ?thesis by (simp add: Suc_le_eq)
    next
      case more: False
      have "\<not> free_run tbl n k"
      proof
        assume fr: "free_run tbl n k"
        with more Suc.prems(2) have "Suc c < n" by simp
        with fr have "tbl ! (k + Suc c) = 0" "k + Suc c < length tbl"
          by (auto simp: free_run_def)
        with Suc.prems(5) show False by simp
      qed
      then have "\<forall>i \<ge> k. \<not> free_run tbl n i"
        using Suc.prems(6) by (metis le_antisym not_less_eq_eq)
      with Suc.IH [of "Suc c"] Suc.prems free more True show ?thesis
        by (auto simp: Let_def split: option.splits)
    qed
  qed
qed

lemma find_run_Some:
  assumes "0 < n" "find_run tbl n (length tbl) 0 = Some i"
  shows "free_run tbl n i" and "\<forall>j > i. \<not> free_run tbl n j"
  using find_run_inv [of n 0 "length tbl" tbl] assms by (auto simp: free_run_def)

lemma find_run_None:
  assumes "0 < n"
  shows "find_run tbl n (length tbl) 0 = None \<longleftrightarrow> (\<forall>i. \<not> free_run tbl n i)"
  using find_run_inv [of n 0 "length tbl" tbl] assms find_run_Some [of n tbl]
  by (auto simp: free_run_def split: option.splits)

section \<open>Block arithmetic\<close>

lemma bank_consts:
  assumes "memx < SRAMBANK"
  shows "memblksize ! memx = 32" and "memtblsize ! memx \<le> 6400"
    and "unat (memsize ! memx) = 32 * (memtblsize ! memx)"
  using assms
  by (auto simp: SRAMBANK_def memblksize_def memtblsize_def memsize_def less_Suc_eq numeral_3_eq_3)

lemma blocks_needed_bounds:
  assumes "memx < SRAMBANK" "sz \<noteq> 0"
  defines "n \<equiv> unat (blocks_needed memx sz)"
  shows "0 < n" and "unat sz \<le> 32 * n" and "32 * (n - 1) < unat sz"
proof -
  have sz: "0 < unat sz" using assms(2) by (simp add: unat_gt_0)
  have lt: "unat sz < 2 ^ 32" using unsigned_less [of sz] by simp
  have q: "unat (sz div 32) = unat sz div 32" and r: "unat (sz mod 32) = unat sz mod 32"
    by (simp_all add: unat_div unat_mod)
  have n: "n = (if unat sz mod 32 \<noteq> 0 then unat sz div 32 + 1 else unat sz div 32)"
  proof (cases "sz mod 32 = 0")
    case True
    with r have "unat sz mod 32 = 0" by simp
    with True q show ?thesis
      using assms(1) by (simp add: n_def blocks_needed_def Let_def bank_consts)
  next
    case False
    then have nz: "unat sz mod 32 \<noteq> 0" using r by (metis unat_eq_0)
    have "unat (sz div 32 + 1) = unat sz div 32 + 1"
      using q lt by (simp add: unat_word_ariths)
    with False nz show ?thesis
      using assms(1) by (simp add: n_def blocks_needed_def Let_def bank_consts)
  qed
  have "unat sz = 32 * (unat sz div 32) + unat sz mod 32" by simp
  then show "0 < n" "unat sz \<le> 32 * n" "32 * (n - 1) < unat sz"
    using n sz by (simp_all split: if_splits, linarith+)
qed

lemma offset_word:
  assumes "i < memtblsize ! memx" "memx < SRAMBANK"
  shows "unat (of_nat i * (32 :: UNS32)) = 32 * i" and "of_nat i * (32 :: UNS32) \<noteq> 0xFFFFFFFF"
proof -
  have i: "i < 6400" using assms bank_consts(2) [of memx] by simp
  show u: "unat (of_nat i * (32 :: UNS32)) = 32 * i"
    using i by (simp add: unat_word_ariths unsigned_of_nat take_bit_nat_eq_self)
  show "of_nat i * (32 :: UNS32) \<noteq> 0xFFFFFFFF"
  proof
    assume "of_nat i * (32 :: UNS32) = 0xFFFFFFFF"
    then have "unat (of_nat i * (32 :: UNS32)) = unat (0xFFFFFFFF :: UNS32)" by simp
    with u i show False by simp
  qed
qed

section \<open>Allocation and release on a bank\<close>

definition ready :: "nat \<Rightarrow> mallco_dev \<Rightarrow> bool" where
  "ready memx s \<longleftrightarrow> bank_ok memx s \<and> c_true (memrdy s ! memx)"

lemma my_mem_init_ready:
  "bank_ok memx s \<Longrightarrow> ready memx (my_mem_init memx s)"
  by (auto simp: ready_def bank_ok_def my_mem_init_def mymemset_def Let_def c_true_def)

lemma my_mem_malloc_cases:
  assumes "ready memx s" "sz \<noteq> 0"
  obtains (fail) "my_mem_malloc memx sz s = (0xFFFFFFFF, s)"
      "\<forall>i. \<not> free_run (memmap s ! memx) (unat (blocks_needed memx sz)) i"
  | (found) i where
      "free_run (memmap s ! memx) (unat (blocks_needed memx sz)) i"
      "\<forall>j > i. \<not> free_run (memmap s ! memx) (unat (blocks_needed memx sz)) j"
      "i < memtblsize ! memx"
      "my_mem_malloc memx sz s =
         (of_nat i * 32,
          s\<lparr>memmap := (memmap s)[memx :=
              take i (memmap s ! memx)
              @ replicate (unat (blocks_needed memx sz)) (ucast (blocks_needed memx sz))
              @ drop (i + unat (blocks_needed memx sz)) (memmap s ! memx)]\<rparr>)"
proof -
  let ?n = "unat (blocks_needed memx sz)" and ?tbl = "memmap s ! memx"
  have memx: "memx < SRAMBANK" and len: "length ?tbl = memtblsize ! memx"
    and rdy: "c_true (memrdy s ! memx)"
    using assms(1) by (auto simp: ready_def bank_ok_def)
  have n: "0 < ?n" using blocks_needed_bounds(1) memx assms(2) by blast
  show ?thesis
  proof (cases "find_run ?tbl ?n (memtblsize ! memx) 0")
    case None
    then have "\<forall>i. \<not> free_run ?tbl ?n i"
      using find_run_None [OF n, of ?tbl] len by simp
    with None rdy assms(2) show ?thesis
      by (intro fail) (simp_all add: my_mem_malloc_def Let_def)
  next
    case (Some i)
    then have fr: "free_run ?tbl ?n i" "\<forall>j > i. \<not> free_run ?tbl ?n j"
      using find_run_Some [OF n, of ?tbl i] len by simp_all
    then have lt: "i < memtblsize ! memx" using n len by (simp add: free_run_def)
    have "put_list ?tbl i (replicate ?n (ucast (blocks_needed memx sz)))
        = take i ?tbl @ replicate ?n (ucast (blocks_needed memx sz)) @ drop (i + ?n) ?tbl"
      using fr(1) by (subst put_list_eq) (simp_all add: free_run_def)
    with Some fr lt rdy assms(2) bank_consts(1) [OF memx] show ?thesis
      by (intro found) (simp_all add: my_mem_malloc_def Let_def)
  qed
qed

lemma unat_cell:
  assumes "free_run tbl (unat n) i" "length tbl \<le> 6400"
  shows "unat (ucast (n :: UNS32) :: UNS16) = unat n"
  using assms by (simp add: free_run_def unsigned_ucast_eq take_bit_nat_eq_self)

lemma runs_free_sides:
  assumes "runs (xs @ replicate n 0 @ ys)" "0 < n"
  shows "runs xs" and "runs ys"
proof -
  obtain m where n: "n = Suc m" using assms(2) by (cases n) auto
  have *: "runs (xs @ 0 # (replicate m 0 @ ys))" using assms(1) n by simp
  then show "runs xs" using runs_split_zero by blast
  have "runs (replicate m 0 @ ys)" using * runs_split_zero by blast
  then show "runs ys" by (induction m) simp_all
qed

lemma block_start_append_left:
  "runs xs \<Longrightarrow> j < length xs \<Longrightarrow> block_start (xs @ ys) j = block_start xs j"
proof (induction xs j rule: block_start.induct)
  case (2 c cs i)
  show ?case
  proof (cases "c = 0")
    case True
    with 2 show ?thesis by (cases i) auto
  next
    case False
    then have pos: "0 < unat c" by (simp add: unat_gt_0)
    have "unat c \<le> i \<Longrightarrow>
        block_start (drop (unat c - 1) cs @ ys) (i - unat c) = block_start (drop (unat c - 1) cs) (i - unat c)"
      using 2 False pos by simp
    with "2.prems" False show ?thesis by auto
  qed
qed simp

lemma block_start_zeros:
  "block_start (replicate n 0 @ ys) k \<longleftrightarrow> n \<le> k \<and> block_start ys (k - n)"
  by (induction n arbitrary: k) (auto split: nat.splits)

lemma block_start_run:
  assumes "unat c = n" "0 < n"
  shows "block_start (replicate n c @ ys) k \<longleftrightarrow> k = 0 \<or> (n \<le> k \<and> block_start ys (k - n))"
proof -
  have "c \<noteq> 0" using assms by auto
  moreover have "replicate n c @ ys = c # replicate (n - 1) c @ ys"
    using assms by (cases n) auto
  ultimately show ?thesis using assms by auto
qed

text \<open>The abstract view of a table: each live allocation, by first cell, with its number of blocks.\<close>

definition live_tbl :: "UNS16 list \<Rightarrow> nat \<Rightarrow> nat option" where
  "live_tbl tbl i = (if block_start tbl i then Some (unat (tbl ! i)) else None)"

lemma live_tbl_fill:
  assumes "runs xs" "runs ys" "unat c = n" "0 < n"
  shows "live_tbl (xs @ replicate n c @ ys) = (live_tbl (xs @ replicate n 0 @ ys))(length xs \<mapsto> n)"
proof
  fix j
  have bs: "block_start (xs @ zs) j =
      (if j < length xs then block_start xs j else block_start zs (j - length xs))" for zs
    using block_start_append_left [OF assms(1), of j zs] block_start_append [OF assms(1), of zs "j - length xs"]
    by (cases "j < length xs") simp_all
  show "live_tbl (xs @ replicate n c @ ys) j
      = ((live_tbl (xs @ replicate n 0 @ ys))(length xs \<mapsto> n)) j"
    using assms(3,4)
    by (auto simp: live_tbl_def bs block_start_zeros block_start_run nth_append)
qed

section \<open>The allocator interface\<close>

text \<open>
  What a client of an allocator relies on: a view of the live allocations as a map
  from start cells to lengths, fresh and disjoint results, and a release that
  removes exactly its own allocation.
\<close>

locale interval_heap =
  fixes inv :: "'s \<Rightarrow> bool"
    and live :: "'s \<Rightarrow> nat \<Rightarrow> nat option"
    and alloc :: "'b \<Rightarrow> 's \<Rightarrow> (nat \<times> 's) option"
    and release :: "nat \<Rightarrow> 's \<Rightarrow> 's"
    and need :: "'b \<Rightarrow> nat"
  assumes alloc_inv: "inv s \<Longrightarrow> alloc b s = Some (i, s') \<Longrightarrow> inv s'"
    and alloc_live: "inv s \<Longrightarrow> alloc b s = Some (i, s') \<Longrightarrow> live s' = (live s)(i \<mapsto> need b)"
    and alloc_fresh: "inv s \<Longrightarrow> alloc b s = Some (i, s') \<Longrightarrow> live s i = None"
    and alloc_disjoint: "inv s \<Longrightarrow> alloc b s = Some (i, s') \<Longrightarrow> live s j = Some m \<Longrightarrow>
        {j..<j + m} \<inter> {i..<i + need b} = {}"
    and release_inv: "inv s \<Longrightarrow> live s i = Some m \<Longrightarrow> inv (release i s)"
    and release_live: "inv s \<Longrightarrow> live s i = Some m \<Longrightarrow> live (release i s) = (live s)(i := None)"
begin

lemma alloc_release:
  assumes "inv s" "alloc b s = Some (i, s')"
  shows "live (release i s') = live s"
  using release_live [OF alloc_inv [OF assms], of i "need b"] alloc_live [OF assms] alloc_fresh [OF assms]
  by (auto simp: fun_eq_iff)

lemma alloc_keeps_live:
  assumes "inv s" "alloc b s = Some (i, s')" "live s j = Some m"
  shows "live s' j = Some m" and "j \<noteq> i"
  using alloc_live [OF assms(1,2)] alloc_fresh [OF assms(1,2)] assms(3) by auto

lemma allocs_disjoint:
  assumes "inv s" "alloc b s = Some (i, s')" "alloc b' s' = Some (i', s'')"
  shows "{i..<i + need b} \<inter> {i'..<i' + need b'} = {}"
proof -
  have "live s' i = Some (need b)" using alloc_live [OF assms(1,2)] by simp
  then show ?thesis using alloc_disjoint [OF alloc_inv [OF assms(1,2)] assms(3)] by blast
qed

end

text \<open>The operations of the source behind that interface, cell numbers for byte offsets.\<close>

definition bank_live :: "nat \<Rightarrow> mallco_dev \<Rightarrow> nat \<Rightarrow> nat option" where
  "bank_live memx s = live_tbl (memmap s ! memx)"

definition bank_alloc :: "nat \<Rightarrow> UNS32 \<Rightarrow> mallco_dev \<Rightarrow> (nat \<times> mallco_dev) option" where
  "bank_alloc memx sz s =
     (let (off, s') = my_mem_malloc memx sz s
      in if off = 0xFFFFFFFF then None else Some (unat off div 32, s'))"

definition bank_release :: "nat \<Rightarrow> nat \<Rightarrow> mallco_dev \<Rightarrow> mallco_dev" where
  "bank_release memx i s = snd (my_mem_free memx (of_nat (32 * i)) s)"

lemma bank_alloc_Some:
  assumes "ready memx s" "bank_alloc memx sz s = Some (i, s')"
  defines "n \<equiv> unat (blocks_needed memx sz)"
  obtains xs c ys where "memmap s ! memx = xs @ replicate n 0 @ ys" "length xs = i"
    "s' = s\<lparr>memmap := (memmap s)[memx := xs @ replicate n c @ ys]\<rparr>"
    "runs xs" "runs ys" "0 < n" "unat c = n" "i < memtblsize ! memx"
    "fst (my_mem_malloc memx sz s) = of_nat (32 * i)"
    "\<forall>j > i. \<not> free_run (memmap s ! memx) n j"
proof -
  have memx: "memx < SRAMBANK" and len: "length (memmap s ! memx) = memtblsize ! memx"
    and r: "runs (memmap s ! memx)"
    using assms(1) by (auto simp: ready_def bank_ok_def)
  have "sz \<noteq> 0"
    using assms(1,2) by (auto simp: bank_alloc_def my_mem_malloc_def ready_def)
  with assms(1) show ?thesis
  proof (cases rule: my_mem_malloc_cases)
    case fail
    with assms(2) show ?thesis by (simp add: bank_alloc_def)
  next
    case (found k)
    have k: "unat (of_nat k * (32 :: UNS32)) = 32 * k" "of_nat k * (32 :: UNS32) \<noteq> 0xFFFFFFFF"
      using offset_word [OF found(3) memx] by auto
    with found(4) assms(2) have [simp]: "k = i"
      and s': "s' = s\<lparr>memmap := (memmap s)[memx := take i (memmap s ! memx)
          @ replicate n (ucast (blocks_needed memx sz)) @ drop (i + n) (memmap s ! memx)]\<rparr>"
      by (auto simp: bank_alloc_def n_def)
    have cell: "unat (ucast (blocks_needed memx sz) :: UNS16) = n"
      using unat_cell [OF found(1)] len bank_consts(2) [OF memx] by (simp add: n_def)
    have n: "0 < n" using blocks_needed_bounds(1) [OF memx \<open>sz \<noteq> 0\<close>] by (simp add: n_def)
    have split: "memmap s ! memx = take i (memmap s ! memx) @ replicate n 0 @ drop (i + n) (memmap s ! memx)"
      using free_run_split found(1) by (simp add: n_def)
    have "runs (take i (memmap s ! memx))" "runs (drop (i + n) (memmap s ! memx))"
      using runs_free_sides [of "take i (memmap s ! memx)" n "drop (i + n) (memmap s ! memx)"] split r n
      by simp_all
    moreover have "length (take i (memmap s ! memx)) = i" using found(3) len by simp
    moreover have "fst (my_mem_malloc memx sz s) = of_nat (32 * i)"
      using found(4) by (simp add: mult.commute)
    ultimately show ?thesis
      using that [OF split _ s' _ _ n cell] found(2,3) by (simp add: n_def)
  qed
qed

lemma bank_release_split:
  assumes "ready memx s" "bank_live memx s i = Some m"
  obtains xs c ys where "memmap s ! memx = xs @ replicate m c @ ys" "length xs = i" "unat c = m" "0 < m"
    "bank_release memx i s = s\<lparr>memmap := (memmap s)[memx := xs @ replicate m 0 @ ys]\<rparr>"
    "runs xs" "runs ys" "fst (my_mem_free memx (of_nat (32 * i)) s) = 0"
proof -
  let ?tbl = "memmap s ! memx"
  have memx: "memx < SRAMBANK" and len: "length ?tbl = memtblsize ! memx"
    and r: "runs ?tbl" and rdy: "c_true (memrdy s ! memx)"
    using assms(1) by (auto simp: ready_def bank_ok_def)
  have bs: "block_start ?tbl i" and m: "m = unat (?tbl ! i)"
    using assms(2) by (auto simp: bank_live_def live_tbl_def split: if_splits)
  obtain xs c ys where sp: "?tbl = xs @ replicate (unat c) c @ ys" "length xs = i" "c \<noteq> 0" "runs xs" "runs ys"
    using block_start_split [OF r bs] by blast
  have c: "0 < unat c" using sp(3) by (simp add: unat_gt_0)
  then have "?tbl ! i = c" using sp(1,2) by (simp add: nth_append)
  with m have mc: "m = unat c" by simp
  have i: "i < memtblsize ! memx" using len sp(1,2) c by (metis length_append length_replicate
        less_add_same_cancel1 trans_less_add1 add.assoc)
  have off: "unat (of_nat (32 * i) :: UNS32) = 32 * i"
    using offset_word(1) [OF i memx] by (simp add: mult.commute)
  then have lt: "(of_nat (32 * i) :: UNS32) < memsize ! memx"
    using i bank_consts(3) [OF memx] by (simp add: word_less_nat_alt)
  have ix: "unat (of_nat (32 * i) div (32 :: UNS32)) = i"
    using off by (simp add: unat_div)
  have "put_list ?tbl i (replicate m 0) = xs @ replicate m 0 @ ys"
    using sp(1,2) mc by (subst put_list_eq) simp_all
  then have "my_mem_free memx (of_nat (32 * i)) s
      = (0, s\<lparr>memmap := (memmap s)[memx := xs @ replicate m 0 @ ys]\<rparr>)"
    using rdy lt ix \<open>?tbl ! i = c\<close> mc bank_consts(1) [OF memx]
    by (simp add: my_mem_free_def Let_def del: of_nat_mult)
  with sp mc c show ?thesis using that by (simp add: bank_release_def)
qed

lemma ready_update:
  assumes "ready memx s" "runs tbl" "length tbl = length (memmap s ! memx)"
  shows "ready memx (s\<lparr>memmap := (memmap s)[memx := tbl]\<rparr>)"
  using assms by (auto simp: ready_def bank_ok_def)

lemma bank_live_update:
  "ready memx s \<Longrightarrow> bank_live memx (s\<lparr>memmap := (memmap s)[memx := tbl]\<rparr>) = live_tbl tbl"
  by (auto simp: ready_def bank_ok_def bank_live_def)

lemma live_tbl_cells:
  assumes "runs tbl" "live_tbl tbl j = Some m" "k < m"
  shows "j + k < length tbl" and "tbl ! (j + k) \<noteq> 0"
proof -
  have bs: "block_start tbl j" and m: "m = unat (tbl ! j)"
    using assms(2) by (auto simp: live_tbl_def split: if_splits)
  obtain xs c ys where sp: "tbl = xs @ replicate (unat c) c @ ys" "length xs = j" "c \<noteq> 0"
    using block_start_split [OF assms(1) bs] by blast
  then have "0 < unat c" by (simp add: unat_gt_0)
  with sp m have "m = unat c" by (simp add: nth_append)
  with sp assms(3) show "j + k < length tbl" "tbl ! (j + k) \<noteq> 0"
    by (auto simp: nth_append)
qed

interpretation bank: interval_heap "ready memx" "bank_live memx" "bank_alloc memx" "bank_release memx"
  "\<lambda>sz. unat (blocks_needed memx sz)" for memx
proof unfold_locales
  fix s sz i s' j m
  assume rd: "ready memx s" and al: "bank_alloc memx sz s = Some (i, s')"
  let ?n = "unat (blocks_needed memx sz)"
  obtain xs c ys where tbl: "memmap s ! memx = xs @ replicate ?n 0 @ ys" and i: "length xs = i"
    and s': "s' = s\<lparr>memmap := (memmap s)[memx := xs @ replicate ?n c @ ys]\<rparr>"
    and r: "runs xs" "runs ys" and n: "0 < ?n" and c: "unat c = ?n"
    using bank_alloc_Some [OF rd al] by metis
  have run: "runs (replicate ?n c)" using runs_full [OF c n] .
  show "ready memx s'"
    unfolding s' using rd tbl by (intro ready_update) (simp_all add: runs_append r run)
  show "bank_live memx s' = (bank_live memx s)(i \<mapsto> ?n)"
    unfolding s' bank_live_update [OF rd] using live_tbl_fill [OF r c n] i tbl
    by (simp add: bank_live_def)
  have "\<not> block_start (memmap s ! memx) i"
    unfolding tbl using block_start_append [OF r(1), of "replicate ?n 0 @ ys" 0] i n
    by (simp add: block_start_zeros)
  then show "bank_live memx s i = None" by (simp add: bank_live_def live_tbl_def)
  show "{j..<j + m} \<inter> {i..<i + ?n} = {}" if "bank_live memx s j = Some m"
  proof (rule ccontr)
    assume "\<not> ?thesis"
    then obtain x where x: "j \<le> x" "x < j + m" "i \<le> x" "x < i + ?n"
      by (metis IntE atLeastLessThan_iff equals0I)
    have "(memmap s ! memx) ! (j + (x - j)) \<noteq> 0"
      using rd that x by (intro live_tbl_cells(2)) (auto simp: ready_def bank_ok_def bank_live_def)
    moreover have "(memmap s ! memx) ! x = 0"
      unfolding tbl using x i by (auto simp: nth_append)
    ultimately show False using x by simp
  qed
next
  fix s i m
  assume rd: "ready memx s" and lv: "bank_live memx s i = Some m"
  obtain xs c ys where tbl: "memmap s ! memx = xs @ replicate m c @ ys" and i: "length xs = i"
    and c: "unat c = m" "0 < m" and r: "runs xs" "runs ys"
    and s': "bank_release memx i s = s\<lparr>memmap := (memmap s)[memx := xs @ replicate m 0 @ ys]\<rparr>"
    using bank_release_split [OF rd lv] by metis
  show "ready memx (bank_release memx i s)"
    unfolding s' using rd tbl by (intro ready_update) (simp_all add: runs_append r)
  have "\<not> block_start (xs @ replicate m 0 @ ys) i"
    using block_start_append [OF r(1), of "replicate m 0 @ ys" 0] i c(2) by (simp add: block_start_zeros)
  then have "live_tbl (xs @ replicate m 0 @ ys) i = None" by (simp add: live_tbl_def)
  then show "bank_live memx (bank_release memx i s) = (bank_live memx s)(i := None)"
    unfolding s' bank_live_update [OF rd] using live_tbl_fill [OF r c] i tbl
    by (auto simp: bank_live_def fun_eq_iff)
qed

section \<open>Properties of the allocator\<close>

lemma bank_alloc_iff:
  "my_mem_malloc memx sz s = (off, s') \<Longrightarrow> off \<noteq> 0xFFFFFFFF \<Longrightarrow>
   bank_alloc memx sz s = Some (unat off div 32, s')"
  by (simp add: bank_alloc_def)

lemma malloc_offset:
  assumes "ready memx s" "my_mem_malloc memx sz s = (off, s')" "off \<noteq> 0xFFFFFFFF"
  shows "off = of_nat (32 * (unat off div 32))" and "unat off = 32 * (unat off div 32)"
    and "unat off div 32 < memtblsize ! memx"
proof -
  have memx: "memx < SRAMBANK" using assms(1) by (simp add: ready_def bank_ok_def)
  have al: "bank_alloc memx sz s = Some (unat off div 32, s')"
    using assms(2,3) by (rule bank_alloc_iff)
  show *: "off = of_nat (32 * (unat off div 32))" "unat off div 32 < memtblsize ! memx"
    using bank_alloc_Some [OF assms(1) al] assms(2) by auto
  show "unat off = 32 * (unat off div 32)"
    using offset_word(1) [OF *(2) memx] *(1) by (metis mult.commute of_nat_mult of_nat_numeral)
qed

text \<open>C16: a successful \<open>my_mem_malloc\<close> on an initialised bank adds exactly one live
  allocation to the bank, large enough for the request and with less than one block of
  slack; its blocks are disjoint from the blocks of every allocation that was live.\<close>

theorem malloc_adds_one_live:
  assumes "ready memx s" "my_mem_malloc memx sz s = (off, s')" "off \<noteq> 0xFFFFFFFF" "sz \<noteq> 0"
  defines "i \<equiv> unat off div 32" and "n \<equiv> unat (blocks_needed memx sz)"
  shows "ready memx s' \<and> bank_live memx s' = (bank_live memx s)(i \<mapsto> n) \<and> unat off = 32 * i
    \<and> 32 * (n - 1) < unat sz \<and> unat sz \<le> 32 * n
    \<and> (\<forall>j m. bank_live memx s j = Some m \<longrightarrow> {j..<j + m} \<inter> {i..<i + n} = {})"
proof -
  have memx: "memx < SRAMBANK" using assms(1) by (simp add: ready_def bank_ok_def)
  have al: "bank_alloc memx sz s = Some (i, s')"
    unfolding i_def using assms(2,3) by (rule bank_alloc_iff)
  have "{j..<j + m} \<inter> {i..<i + n} = {}" if "bank_live memx s j = Some m" for j m
    using bank.alloc_disjoint [OF assms(1) al that] by (simp add: n_def)
  then show ?thesis
    using bank.alloc_inv [OF assms(1) al] bank.alloc_live [OF assms(1) al]
      malloc_offset(2) [OF assms(1-3)] blocks_needed_bounds(2,3) [OF memx assms(4)]
    by (simp add: n_def i_def)
qed

text \<open>C17: the search is complete and takes the highest fit. A request fails exactly when no run of
  enough free blocks exists, and then changes nothing; otherwise the result is the
  highest start of such a run.\<close>

theorem malloc_highest_fit:
  assumes "ready memx s" "sz \<noteq> 0"
  defines "n \<equiv> unat (blocks_needed memx sz)" and "tbl \<equiv> memmap s ! memx"
  shows "my_mem_malloc memx sz s = (0xFFFFFFFF, s) \<and> (\<forall>i. \<not> free_run tbl n i)
       \<or> (\<exists>i. fst (my_mem_malloc memx sz s) = of_nat (32 * i) \<and> fst (my_mem_malloc memx sz s) \<noteq> 0xFFFFFFFF
             \<and> free_run tbl n i \<and> (\<forall>j > i. \<not> free_run tbl n j))"
  using assms(1,2)
proof (cases rule: my_mem_malloc_cases)
  case fail
  then show ?thesis by (simp add: n_def tbl_def)
next
  case (found i)
  have "memx < SRAMBANK" using assms(1) by (simp add: ready_def bank_ok_def)
  from offset_word(2) [OF found(3) this] found show ?thesis
    unfolding n_def tbl_def by (intro disjI2 exI [of _ i]) (simp add: mult.commute)
qed

text \<open>Releasing what was just allocated gives the allocator back its state, cell for cell.\<close>

theorem malloc_free_roundtrip:
  assumes "ready memx s" "my_mem_malloc memx sz s = (off, s')" "off \<noteq> 0xFFFFFFFF"
  shows "my_mem_free memx off s' = (0, s)"
proof -
  let ?n = "unat (blocks_needed memx sz)" and ?i = "unat off div 32"
  have memx: "memx < length (memmap s)"
    using assms(1) by (simp add: ready_def bank_ok_def SRAMBANK_def)
  have al: "bank_alloc memx sz s = Some (?i, s')"
    using assms(2,3) by (rule bank_alloc_iff)
  have lv: "bank_live memx s' ?i = Some ?n" using bank.alloc_live [OF assms(1) al] by simp
  have off: "off = of_nat (32 * ?i)" using malloc_offset(1) [OF assms] .
  obtain xs c ys where 1: "memmap s ! memx = xs @ replicate ?n 0 @ ys" "length xs = ?i"
      "s' = s\<lparr>memmap := (memmap s)[memx := xs @ replicate ?n c @ ys]\<rparr>" "unat c = ?n"
    using bank_alloc_Some [OF assms(1) al] by metis
  obtain xs' c' ys' where 2: "memmap s' ! memx = xs' @ replicate ?n c' @ ys'" "length xs' = ?i"
      "bank_release memx ?i s' = s'\<lparr>memmap := (memmap s')[memx := xs' @ replicate ?n 0 @ ys']\<rparr>"
      "fst (my_mem_free memx (of_nat (32 * ?i)) s') = 0"
    using bank_release_split [OF bank.alloc_inv [OF assms(1) al] lv] by metis
  have "xs' = xs \<and> ys' = ys"
    using 2(1,2) 1(2,3) memx by simp
  then have "bank_release memx ?i s' = s"
    using 1 2(3) memx by (metis (no_types) list_update_id list_update_overwrite
        mallco_dev.select_convs(2) mallco_dev.surjective mallco_dev.update_convs(2))
  with 2(4) off show ?thesis by (metis bank_release_def prod.collapse)
qed

text \<open>The byte copy: cells of the source that the copy does not overwrite arrive unchanged.\<close>

lemma mymemcpy_outside:
  "(\<forall>j < n. x \<noteq> des + of_nat j) \<Longrightarrow> mymemcpy_loop n des src r x = r x"
proof (induction n arbitrary: des src r)
  case (Suc n)
  have "x \<noteq> (des + 1) + of_nat j" if "j < n" for j
    using Suc.prems [rule_format, of "Suc j"] that by (simp add: algebra_simps)
  moreover have "x \<noteq> des" using Suc.prems [rule_format, of 0] by simp
  ultimately show ?case using Suc.IH by simp
qed simp

lemma of_nat_word32_neq:
  "i < 2 ^ 32 \<Longrightarrow> j < 2 ^ 32 \<Longrightarrow> i \<noteq> j \<Longrightarrow> (of_nat i :: UNS32) \<noteq> of_nat j"
  by (simp add: word_of_nat_eq_iff take_bit_nat_eq_self)

lemma mymemcpy_byte:
  assumes "k < n" "n \<le> 2 ^ 32" "\<forall>j < n. src + of_nat k \<noteq> des + of_nat j"
  shows "mymemcpy_loop n des src r (des + of_nat k) = r (src + of_nat k)"
  using assms
proof (induction n arbitrary: k des src r)
  case (Suc n)
  show ?case
  proof (cases k)
    case 0
    have "des \<noteq> (des + 1) + of_nat j" if "j < n" for j
      using of_nat_word32_neq [of "Suc j" 0] that Suc.prems(2) by (simp add: algebra_simps)
    then show ?thesis using 0 by (simp add: mymemcpy_outside)
  next
    case k: (Suc l)
    have "src + 1 + of_nat l \<noteq> des + 1 + of_nat j" if "j < n" for j
      using Suc.prems(3) [rule_format, of "Suc j"] that k by (simp add: algebra_simps)
    moreover have "src + of_nat k \<noteq> des" using Suc.prems(3) [rule_format, of 0] by simp
    ultimately show ?thesis
      using Suc.IH [of l "src + 1" "des + 1" "r(des := r src)"] Suc.prems(1,2) k
      by (simp add: algebra_simps fun_upd_def)
  qed
qed simp

lemma in_pool_neq:
  assumes "x < 2 ^ 32" "y < 2 ^ 32" "x \<noteq> y"
  shows "(b :: UNS32) + of_nat x \<noteq> b + of_nat y"
  using of_nat_word32_neq [OF assms] by simp

lemma bank_alloc_frame:
  assumes "ready memx s" "bank_alloc memx sz s = Some (i, s')"
  shows "membase s' = membase s" and "ram s' = ram s"
    and "i + unat (blocks_needed memx sz) \<le> memtblsize ! memx"
proof -
  obtain xs c ys where tbl: "memmap s ! memx = xs @ replicate (unat (blocks_needed memx sz)) 0 @ ys"
      and i: "length xs = i"
      and s': "s' = s\<lparr>memmap := (memmap s)[memx := xs @ replicate (unat (blocks_needed memx sz)) c @ ys]\<rparr>"
    using bank_alloc_Some [OF assms] by metis
  show "membase s' = membase s" "ram s' = ram s" by (simp_all add: s')
  have "length (memmap s ! memx) = memtblsize ! memx"
    using assms(1) by (simp add: ready_def bank_ok_def)
  then show "i + unat (blocks_needed memx sz) \<le> memtblsize ! memx"
    unfolding tbl using i by simp
qed

lemma bank_release_frame:
  assumes "ready memx s" "bank_live memx s i = Some m"
  shows "membase (bank_release memx i s) = membase s" and "ram (bank_release memx i s) = ram s"
proof -
  obtain xs ys where "bank_release memx i s = s\<lparr>memmap := (memmap s)[memx := xs @ replicate m 0 @ ys]\<rparr>"
    using bank_release_split [OF assms] by metis
  then show "membase (bank_release memx i s) = membase s" "ram (bank_release memx i s) = ram s"
    by simp_all
qed

lemma live_block_addresses_differ:
  assumes rd: "ready memx s" and lv: "bank_live memx s j = Some m"
    and al: "bank_alloc memx sz s = Some (i, s')" and sz: "sz \<noteq> 0"
    and k: "k < 32 * m" and l: "l < unat sz"
  shows "(b :: UNS32) + of_nat (32 * j) + of_nat k \<noteq> b + of_nat (32 * i) + of_nat l"
proof -
  let ?n = "unat (blocks_needed memx sz)"
  have memx: "memx < SRAMBANK" using rd by (simp add: ready_def bank_ok_def)
  have tl: "memtblsize ! memx \<le> 6400" using bank_consts(2) [OF memx] .
  have jl: "j + k div 32 < memtblsize ! memx"
    using live_tbl_cells(1) [of "memmap s ! memx" j m "k div 32"] lv k rd
    by (auto simp: ready_def bank_ok_def bank_live_def)
  have szn: "unat sz \<le> 32 * ?n" using blocks_needed_bounds(2) [OF memx sz] .
  have "j + k div 32 \<in> {j..<j + m}" "i + l div 32 \<in> {i..<i + ?n}"
    using k l szn by auto
  with bank.alloc_disjoint [OF rd al lv] have "j + k div 32 \<noteq> i + l div 32"
    by (metis IntI emptyE)
  then have "32 * j + k \<noteq> 32 * i + l"
    by (metis add.commute div_mult_self2 mult.commute zero_neq_numeral)
  moreover have "32 * j + k < 2 ^ 32" "32 * i + l < 2 ^ 32"
    using jl tl bank_alloc_frame(3) [OF rd al] l szn by auto
  ultimately show ?thesis
    using in_pool_neq [of "32 * j + k" "32 * i + l" b] by (simp add: add.assoc)
qed

lemma myrealloc_unfold:
  assumes "ready memx s" "bank_alloc memx sz s = Some (i, s1)" "bank_live memx s j = Some m"
    "ptr = membase s ! memx + of_nat (32 * j)" "ptr \<noteq> 0"
  defines "s2 \<equiv> mymemcpy (membase s ! memx + of_nat (32 * i)) ptr sz s1"
  shows "myrealloc memx ptr sz s = (membase s ! memx + of_nat (32 * i), bank_release memx j s2)"
    and "ready memx s2" and "bank_live memx s2 = (bank_live memx s)(i \<mapsto> unat (blocks_needed memx sz))"
    and "ram s2 = mymemcpy_loop (unat sz) (membase s ! memx + of_nat (32 * i)) ptr (ram s)"
proof -
  obtain off where ma: "my_mem_malloc memx sz s = (off, s1)" and offn: "off \<noteq> 0xFFFFFFFF"
      and i: "i = unat off div 32"
    using assms(2) by (auto simp: bank_alloc_def split: prod.splits if_splits)
  have off: "off = of_nat (32 * i)" using malloc_offset(1) [OF assms(1) ma offn] i by simp
  note fr = bank_alloc_frame [OF assms(1,2)]
  have s2: "membase s2 = membase s" "memmap s2 = memmap s1" "memrdy s2 = memrdy s1"
    by (simp_all add: s2_def mymemcpy_def fr)
  show rd2: "ready memx s2"
    using bank.alloc_inv [OF assms(1,2)] s2 fr(1) by (simp add: ready_def bank_ok_def)
  show live2: "bank_live memx s2 = (bank_live memx s)(i \<mapsto> unat (blocks_needed memx sz))"
    using bank.alloc_live [OF assms(1,2)] s2(2) by (simp add: bank_live_def)
  show "ram s2 = mymemcpy_loop (unat sz) (membase s ! memx + of_nat (32 * i)) ptr (ram s)"
    by (simp add: s2_def mymemcpy_def fr)
  have "bank_live memx s2 j = Some m"
    using live2 bank.alloc_keeps_live(2) [OF assms(1,2,3)] assms(3) by simp
  then have "membase (bank_release memx j s2) = membase s"
    using bank_release_frame(1) [OF rd2] s2(1) by metis
  moreover have "myfree memx ptr s2 = bank_release memx j s2"
    using assms(4,5) s2(1) by (simp add: myfree_def bank_release_def)
  ultimately show "myrealloc memx ptr sz s = (membase s ! memx + of_nat (32 * i), bank_release memx j s2)"
    using ma offn fr(1) off by (simp add: myrealloc_def Let_def s2_def del: of_nat_mult)
qed

text \<open>\<open>myrealloc\<close> of a live allocation, when it succeeds, returns a block that holds
  the bytes of the old one (as many as both have), has released the old allocation and
  made the new one live.\<close>

theorem realloc_moves:
  assumes rd: "ready memx s" and lv: "bank_live memx s j = Some m"
    and ptr: "ptr = membase s ! memx + of_nat (32 * j)" "ptr \<noteq> 0"
    and ok: "fst (my_mem_malloc memx sz s) \<noteq> 0xFFFFFFFF" "sz \<noteq> 0"
    and re: "myrealloc memx ptr sz s = (p', s')"
  shows "ready memx s'
    \<and> (\<exists>i. p' = membase s ! memx + of_nat (32 * i) \<and> i \<noteq> j
         \<and> bank_live memx s' = (bank_live memx s)(i \<mapsto> unat (blocks_needed memx sz), j := None))
    \<and> (\<forall>k < min (unat sz) (32 * m). ram s' (p' + of_nat k) = ram s (ptr + of_nat k))"
proof -
  obtain i s1 where al: "bank_alloc memx sz s = Some (i, s1)"
    using ok(1) bank_alloc_iff [of memx sz s] by (metis prod.collapse)
  note un = myrealloc_unfold [OF rd al lv ptr]
  let ?s2 = "mymemcpy (membase s ! memx + of_nat (32 * i)) ptr sz s1"
  have p': "p' = membase s ! memx + of_nat (32 * i)" and s': "s' = bank_release memx j ?s2"
    using un(1) re by simp_all
  have ij: "j \<noteq> i" using bank.alloc_keeps_live(2) [OF rd al lv] .
  then have lv2: "bank_live memx ?s2 j = Some m" using un(3) lv by simp
  have "ram s' (p' + of_nat k) = ram s (ptr + of_nat k)" if k: "k < unat sz" "k < 32 * m" for k
  proof -
    have "ram s' = mymemcpy_loop (unat sz) p' ptr (ram s)"
      using s' bank_release_frame(2) [OF un(2) lv2] un(4) p' by simp
    moreover have "\<forall>l < unat sz. ptr + of_nat k \<noteq> p' + of_nat l"
      using live_block_addresses_differ [OF rd lv al ok(2) k(2)] ptr(1) p' by simp
    moreover have "unat sz < 2 ^ 32" using unsigned_less [of sz] by simp
    ultimately show ?thesis
      using mymemcpy_byte [of k "unat sz" ptr p' "ram s"] k(1) by simp
  qed
  then show ?thesis
    using bank.release_inv [OF un(2) lv2] bank.release_live [OF un(2) lv2] un(3) s' p' ij by auto
qed

text \<open>The usage figure.\<close>

lemma count_used_bounds: "count_used xs \<le> length xs" "count_used xs = length xs \<longleftrightarrow> 0 \<notin> set xs"
proof -
  show le: "count_used xs \<le> length xs" for xs by (induction xs) auto
  show "count_used xs = length xs \<longleftrightarrow> 0 \<notin> set xs"
  proof (induction xs)
    case (Cons c cs)
    with le [of cs] show ?case by (auto simp: c_true_def)
  qed simp
qed

lemma perused_value:
  assumes "bank_ok memx s"
  shows "unat (my_mem_perused memx s) = 100 * count_used (memmap s ! memx) div memtblsize ! memx"
proof -
  let ?u = "count_used (memmap s ! memx)" and ?t = "memtblsize ! memx"
  have len: "length (memmap s ! memx) = ?t" and m: "memx < SRAMBANK"
    using assms by (auto simp: bank_ok_def)
  have u: "?u \<le> ?t" using count_used_bounds(1) [of "memmap s ! memx"] len by simp
  have t: "?t \<le> 6400" using bank_consts(2) [OF m] .
  have "unat (of_nat ?u * 100 :: UNS32) = 100 * ?u" "unat (of_nat ?t :: UNS32) = ?t"
    using u t by (simp_all add: unat_word_ariths unsigned_of_nat take_bit_nat_eq_self)
  then have "unat ((of_nat ?u * 100 :: UNS32) div of_nat ?t) = 100 * ?u div ?t"
    by (simp only: unat_div)
  moreover have "100 * ?u div ?t \<le> 100"
    using u by (metis div_le_mono div_mult_self_is_m le0 mult_le_mono2 nat_less_le zero_le div_by_0)
  ultimately show ?thesis
    by (simp add: my_mem_perused_def len unsigned_ucast_eq take_bit_nat_eq_self)
qed

text \<open>The usage that \<open>my_mem_perused\<close> reports is the percentage of used blocks rounded
  down: it is at most 100, and it is 100 exactly when the bank has no free block.\<close>

theorem perused_percent:
  assumes "bank_ok memx s"
  shows "unat (my_mem_perused memx s) = 100 * count_used (memmap s ! memx) div memtblsize ! memx
    \<and> my_mem_perused memx s \<le> 100
    \<and> (my_mem_perused memx s = 100 \<longleftrightarrow> (\<forall>i < memtblsize ! memx. memmap s ! memx ! i \<noteq> 0))"
proof -
  let ?u = "count_used (memmap s ! memx)" and ?t = "memtblsize ! memx"
  have len: "length (memmap s ! memx) = ?t" and m: "memx < SRAMBANK"
    using assms by (auto simp: bank_ok_def)
  have pos: "0 < ?t"
    using m by (auto simp: SRAMBANK_def memtblsize_def less_Suc_eq numeral_3_eq_3)
  have u: "?u \<le> ?t" "?u = ?t \<longleftrightarrow> 0 \<notin> set (memmap s ! memx)"
    using count_used_bounds [of "memmap s ! memx"] len by simp_all
  note v = perused_value [OF assms]
  have le: "100 * ?u div ?t \<le> 100"
    using u(1) pos by (metis div_le_mono mult_le_mono2 nonzero_mult_div_cancel_right not_less_zero)
  have "100 * ?u div ?t = 100 \<longleftrightarrow> ?u = ?t"
  proof
    assume "100 * ?u div ?t = 100"
    then have "100 * ?t \<le> 100 * ?u" by (metis div_times_less_eq_dividend)
    with u(1) show "?u = ?t" by simp
  qed (use pos in simp)
  moreover have "my_mem_perused memx s = 100 \<longleftrightarrow> unat (my_mem_perused memx s) = 100"
    by (simp add: word_unat_eq_iff)
  moreover have "0 \<notin> set (memmap s ! memx) \<longleftrightarrow> (\<forall>i < ?t. memmap s ! memx ! i \<noteq> 0)"
    using len by (auto simp: in_set_conv_nth)
  ultimately show ?thesis using v le u(2) by (simp add: word_le_nat_alt)
qed

section \<open>The properties on the freshly initialised internal bank\<close>

definition fresh_heap :: mallco_dev where
  "fresh_heap = my_mem_init 0 (mallco_dev_init 0x20000000 (\<lambda>_. 0))"

lemma fresh_heap_ready: "ready 0 fresh_heap"
  unfolding fresh_heap_def
  by (rule my_mem_init_ready)
    (simp add: bank_ok_def mallco_dev_init_def SRAMBANK_def memtblsize_def c_true_def)

lemma fresh_heap_state:
  "memmap fresh_heap ! 0 = replicate 960 0" "membase fresh_heap ! 0 = 0x20000000"
  "memrdy fresh_heap ! 0 = 1" "length (memmap fresh_heap) = 3"
  by (simp_all add: fresh_heap_def my_mem_init_def mymemset_def mallco_dev_init_def memtblsize_def)

lemma find_run_fresh: "find_run (replicate (Suc (Suc k)) 0) 2 (Suc (Suc k)) 0 = Some k"
  by (simp del: replicate_Suc)

lemma find_run_below:
  "c \<noteq> 0 \<Longrightarrow> find_run (replicate (Suc (Suc (Suc k))) 0 @ [c, c]) 3 (Suc (Suc (Suc (Suc (Suc k))))) 0 = Some k"
  by (simp add: nth_append del: replicate_Suc)

definition heap_64 :: mallco_dev where
  "heap_64 = fresh_heap\<lparr>memmap := (memmap fresh_heap)[0 := replicate 958 0 @ [2, 2]]\<rparr>"

lemma malloc_64: "my_mem_malloc 0 64 fresh_heap = (958 * 32, heap_64)"
proof -
  have "find_run (replicate 960 0) 2 960 0 = Some 958"
    using find_run_fresh [of 958] by simp
  moreover have "put_list (replicate 960 (0 :: UNS16)) 958 (replicate 2 2) = replicate 958 0 @ [2, 2]"
    by (subst put_list_eq) (simp_all add: numeral_2_eq_2)
  ultimately show ?thesis
    by (simp add: my_mem_malloc_def fresh_heap_state blocks_needed_def memblksize_def memtblsize_def
        c_true_def heap_64_def Let_def)
qed

theorem malloc_adds_one_live_witness:
  "ready 0 heap_64 \<and> bank_live 0 heap_64 = (bank_live 0 fresh_heap)(958 \<mapsto> 2)"
  using malloc_adds_one_live [OF fresh_heap_ready malloc_64]
  by (simp add: blocks_needed_def memblksize_def)

theorem malloc_highest_fit_witness:
  "(\<exists>i. fst (my_mem_malloc 0 64 fresh_heap) = of_nat (32 * i) \<and> free_run (memmap fresh_heap ! 0) 2 i
       \<and> (\<forall>j > i. \<not> free_run (memmap fresh_heap ! 0) 2 j))"
  using malloc_highest_fit [OF fresh_heap_ready, of 64] malloc_64
  by (auto simp: blocks_needed_def memblksize_def)

theorem malloc_free_roundtrip_witness: "my_mem_free 0 (958 * 32) heap_64 = (0, fresh_heap)"
  by (rule malloc_free_roundtrip [OF fresh_heap_ready malloc_64]) simp

lemma heap_64_facts:
  shows "ready 0 heap_64" and "bank_live 0 heap_64 958 = Some 2" and "membase heap_64 ! 0 = 0x20000000"
    and "fst (my_mem_malloc 0 96 heap_64) = 955 * 32"
proof -
  have al: "bank_alloc 0 64 fresh_heap = Some (958, heap_64)"
    using bank_alloc_iff [OF malloc_64] by simp
  show "ready 0 heap_64" using bank.alloc_inv [OF fresh_heap_ready al] .
  show "bank_live 0 heap_64 958 = Some 2"
    using bank.alloc_live [OF fresh_heap_ready al] by (simp add: blocks_needed_def memblksize_def)
  show "membase heap_64 ! 0 = 0x20000000" by (simp add: heap_64_def fresh_heap_state)
  have "find_run (replicate 958 0 @ [2, 2]) 3 960 0 = Some 955"
    using find_run_below [of 2 955] by simp
  then show "fst (my_mem_malloc 0 96 heap_64) = 955 * 32"
    by (simp add: my_mem_malloc_def heap_64_def fresh_heap_state blocks_needed_def memblksize_def
        memtblsize_def c_true_def Let_def del: replicate_Suc)
qed

theorem realloc_moves_witness:
  "\<exists>p' s'. myrealloc 0 (0x20000000 + 958 * 32) 96 heap_64 = (p', s') \<and> ready 0 s'
     \<and> (\<forall>k < 64. ram s' (p' + of_nat k) = ram heap_64 (0x20000000 + 958 * 32 + of_nat k))"
proof -
  obtain p' s' where re: "myrealloc 0 (0x20000000 + 958 * 32) 96 heap_64 = (p', s')"
    by (metis surj_pair)
  show ?thesis
    using realloc_moves [OF heap_64_facts(1,2) _ _ _ _ re] heap_64_facts(3,4) re by auto
qed

theorem perused_percent_witness:
  "my_mem_perused 0 fresh_heap \<le> 100 \<and> my_mem_perused 0 fresh_heap \<noteq> 100"
proof -
  have "bank_ok 0 fresh_heap" using fresh_heap_ready by (simp add: ready_def)
  from perused_percent [OF this] fresh_heap_state(1) show ?thesis
    by (auto simp: memtblsize_def dest: spec [of _ 0])
qed

end
