(* ===== verification/CanDefs.thy ===== *)
theory CanDefs
  imports Prelude
begin

text \<open>
  Data of the CANopen stack in \<^verbatim>\<open>Application/Users/CanFestival\<close>: the constants of
  \<^verbatim>\<open>inc/def.h\<close>, \<^verbatim>\<open>inc/objdictdef.h\<close>, \<^verbatim>\<open>inc/timers.h\<close>, \<^verbatim>\<open>inc/pdo.h\<close> and
  \<^verbatim>\<open>stm32/config.h\<close>, the structures of \<^verbatim>\<open>inc/canOpen.h\<close>, \<^verbatim>\<open>inc/sdo.h\<close>, \<^verbatim>\<open>inc/pdo.h\<close>,
  \<^verbatim>\<open>inc/emcy.h\<close>, \<^verbatim>\<open>inc/states.h\<close> and the node structure \<open>CO_Data\<close> of \<^verbatim>\<open>inc/data.h\<close>.

  The part of \<open>CO_Data\<close> that never changes after initialisation (the dictionary, the
  quick indices, the addresses of the dictionary variables) is the record \<open>od_config\<close>;
  everything else is a field of \<open>CO_Data\<close>. Callback pointers are values of the
  datatypes \<open>timer_cb\<close>, \<open>od_cb\<close> and \<open>sdo_cb\<close>, one constructor for each function whose
  address the stack takes. The three globals of \<^verbatim>\<open>src/timers.c\<close> are fields too.

  Two fields have no counterpart in the source. \<open>trace\<close> lists the calls that leave the
  stack, oldest first: frames given to \<open>canSend\<close>, values given to \<open>setTimer\<close> and calls
  of the application hooks, whose default bodies are empty. \<open>fault\<close> is set when an
  array of the node is indexed outside its bounds, which is undefined in C.
\<close>

section \<open>Constants\<close>

abbreviation (input) OD_SUCCESSFUL :: UNS32 where "OD_SUCCESSFUL \<equiv> 0x00000000"
abbreviation (input) OD_READ_NOT_ALLOWED :: UNS32 where "OD_READ_NOT_ALLOWED \<equiv> 0x06010001"
abbreviation (input) OD_WRITE_NOT_ALLOWED :: UNS32 where "OD_WRITE_NOT_ALLOWED \<equiv> 0x06010002"
abbreviation (input) OD_NO_SUCH_OBJECT :: UNS32 where "OD_NO_SUCH_OBJECT \<equiv> 0x06020000"
abbreviation (input) OD_LENGTH_DATA_INVALID :: UNS32 where "OD_LENGTH_DATA_INVALID \<equiv> 0x06070010"
abbreviation (input) OD_NO_SUCH_SUBINDEX :: UNS32 where "OD_NO_SUCH_SUBINDEX \<equiv> 0x06090011"
abbreviation (input) OD_VALUE_RANGE_EXCEEDED :: UNS32 where "OD_VALUE_RANGE_EXCEEDED \<equiv> 0x06090030"
abbreviation (input) SDOABT_TOGGLE_NOT_ALTERNED :: UNS32 where "SDOABT_TOGGLE_NOT_ALTERNED \<equiv> 0x05030000"
abbreviation (input) SDOABT_TIMED_OUT :: UNS32 where "SDOABT_TIMED_OUT \<equiv> 0x05040000"
abbreviation (input) SDOABT_OUT_OF_MEMORY :: UNS32 where "SDOABT_OUT_OF_MEMORY \<equiv> 0x05040005"
abbreviation (input) SDOABT_GENERAL_ERROR :: UNS32 where "SDOABT_GENERAL_ERROR \<equiv> 0x08000000"
abbreviation (input) SDOABT_LOCAL_CTRL_ERROR :: UNS32 where "SDOABT_LOCAL_CTRL_ERROR \<equiv> 0x08000021"

abbreviation (input) REQUEST :: UNS8 where "REQUEST \<equiv> 1"
abbreviation (input) NOT_A_REQUEST :: UNS8 where "NOT_A_REQUEST \<equiv> 0"

abbreviation (input) SDO_RESET :: UNS8 where "SDO_RESET \<equiv> 0x0"
abbreviation (input) SDO_FINISHED :: UNS8 where "SDO_FINISHED \<equiv> 0x1"
abbreviation (input) SDO_ABORTED_RCV :: UNS8 where "SDO_ABORTED_RCV \<equiv> 0x80"
abbreviation (input) SDO_ABORTED_INTERNAL :: UNS8 where "SDO_ABORTED_INTERNAL \<equiv> 0x85"
abbreviation (input) SDO_DOWNLOAD_IN_PROGRESS :: UNS8 where "SDO_DOWNLOAD_IN_PROGRESS \<equiv> 0x2"
abbreviation (input) SDO_UPLOAD_IN_PROGRESS :: UNS8 where "SDO_UPLOAD_IN_PROGRESS \<equiv> 0x3"
abbreviation (input) SDO_BLOCK_DOWNLOAD_IN_PROGRESS :: UNS8 where "SDO_BLOCK_DOWNLOAD_IN_PROGRESS \<equiv> 0x4"
abbreviation (input) SDO_BLOCK_UPLOAD_IN_PROGRESS :: UNS8 where "SDO_BLOCK_UPLOAD_IN_PROGRESS \<equiv> 0x5"
abbreviation (input) SDO_PROVIDED_BUFFER_TOO_SMALL :: UNS8 where "SDO_PROVIDED_BUFFER_TOO_SMALL \<equiv> 0x8A"
abbreviation (input) SDO_SERVER :: UNS8 where "SDO_SERVER \<equiv> 0x1"
abbreviation (input) SDO_CLIENT :: UNS8 where "SDO_CLIENT \<equiv> 0x2"
abbreviation (input) SDO_UNKNOWN :: UNS8 where "SDO_UNKNOWN \<equiv> 0x3"

abbreviation (input) Initialisation :: UNS8 where "Initialisation \<equiv> 0x00"
abbreviation (input) Disconnected :: UNS8 where "Disconnected \<equiv> 0x01"
abbreviation (input) Stopped :: UNS8 where "Stopped \<equiv> 0x04"
abbreviation (input) Operational :: UNS8 where "Operational \<equiv> 0x05"
abbreviation (input) Pre_operational :: UNS8 where "Pre_operational \<equiv> 0x7F"
abbreviation (input) Unknown_state :: UNS8 where "Unknown_state \<equiv> 0x0F"

abbreviation (input) NMT_Start_Node :: UNS8 where "NMT_Start_Node \<equiv> 0x01"
abbreviation (input) NMT_Stop_Node :: UNS8 where "NMT_Stop_Node \<equiv> 0x02"
abbreviation (input) NMT_Enter_PreOperational :: UNS8 where "NMT_Enter_PreOperational \<equiv> 0x80"
abbreviation (input) NMT_Reset_Node :: UNS8 where "NMT_Reset_Node \<equiv> 0x81"
abbreviation (input) NMT_Reset_Comunication :: UNS8 where "NMT_Reset_Comunication \<equiv> 0x82"

abbreviation (input) visible_string :: UNS8 where "visible_string \<equiv> 0x09"

abbreviation (input) RW :: UNS8 where "RW \<equiv> 0x00"
abbreviation (input) WO :: UNS8 where "WO \<equiv> 0x01"
abbreviation (input) RO :: UNS8 where "RO \<equiv> 0x02"
abbreviation (input) TO_BE_SAVE :: UNS8 where "TO_BE_SAVE \<equiv> 0x04"

abbreviation (input) TIMER_FREE :: UNS8 where "TIMER_FREE \<equiv> 0"
abbreviation (input) TIMER_ARMED :: UNS8 where "TIMER_ARMED \<equiv> 1"
abbreviation (input) TIMER_TRIG :: UNS8 where "TIMER_TRIG \<equiv> 2"
abbreviation (input) TIMER_TRIG_PERIOD :: UNS8 where "TIMER_TRIG_PERIOD \<equiv> 3"
abbreviation (input) TIMER_NONE :: TIMER_HANDLE where "TIMER_NONE \<equiv> -1"
abbreviation (input) TIMEVAL_MAX :: TIMEVAL where "TIMEVAL_MAX \<equiv> 0xFFFF"
abbreviation (input) MAX_NB_TIMER :: nat where "MAX_NB_TIMER \<equiv> 8"

abbreviation (input) SDO_MAX_LENGTH_TRANSFER :: nat where "SDO_MAX_LENGTH_TRANSFER \<equiv> 32"
abbreviation (input) SDO_MAX_SIMULTANEOUS_TRANSFERS :: nat where "SDO_MAX_SIMULTANEOUS_TRANSFERS \<equiv> 1"
abbreviation (input) SDO_BLOCK_SIZE :: UNS8 where "SDO_BLOCK_SIZE \<equiv> 16"
abbreviation (input) SDO_TIMEOUT_MS :: UNS32 where "SDO_TIMEOUT_MS \<equiv> 3000"
abbreviation (input) NMT_MAX_NODE_ID :: nat where "NMT_MAX_NODE_ID \<equiv> 128"
abbreviation (input) EMCY_MAX_ERRORS :: nat where "EMCY_MAX_ERRORS \<equiv> 8"

abbreviation (input) PDO_INHIBITED :: UNS8 where "PDO_INHIBITED \<equiv> 0x01"
abbreviation (input) PDO_RTR_SYNC_READY :: UNS8 where "PDO_RTR_SYNC_READY \<equiv> 0x01"
abbreviation (input) TRANS_SYNC_ACYCLIC :: UNS8 where "TRANS_SYNC_ACYCLIC \<equiv> 0"
abbreviation (input) TRANS_SYNC_MIN :: UNS8 where "TRANS_SYNC_MIN \<equiv> 1"
abbreviation (input) TRANS_SYNC_MAX :: UNS8 where "TRANS_SYNC_MAX \<equiv> 240"
abbreviation (input) TRANS_RTR_SYNC :: UNS8 where "TRANS_RTR_SYNC \<equiv> 252"
abbreviation (input) TRANS_RTR :: UNS8 where "TRANS_RTR \<equiv> 253"
abbreviation (input) TRANS_EVENT_SPECIFIC :: UNS8 where "TRANS_EVENT_SPECIFIC \<equiv> 254"
abbreviation (input) TRANS_EVENT_PROFILE :: UNS8 where "TRANS_EVENT_PROFILE \<equiv> 255"

definition MS_TO_TIMEVAL :: "UNS32 \<Rightarrow> TIMEVAL" where
  "MS_TO_TIMEVAL ms = ms * 125"

definition US_TO_TIMEVAL :: "UNS32 \<Rightarrow> TIMEVAL" where
  "US_TO_TIMEVAL us = drop_bit 3 us"

section \<open>Structures\<close>

text \<open>
  A CAN message. \<open>mdata\<close> is the byte array; a message that a function fills only in
  part before sending it is built with the bytes it fills.
\<close>

record Message =
  cob_id :: UNS16
  rtr :: UNS8
  mlen :: UNS8
  mdata :: "UNS8 list"

definition Message_Initializer :: Message where
  "Message_Initializer = \<lparr>cob_id = 0, rtr = 0, mlen = 0, mdata = replicate 8 0\<rparr>"

definition GET_NODE_ID :: "Message \<Rightarrow> UNS8" where
  "GET_NODE_ID m = ucast (cob_id m AND 0x7F)"

datatype timer_cb =
    ConsumerHeartbeatAlarm_cb | ProducerHeartbeatAlarm_cb | GuardTimeAlarm_cb | SyncAlarm_cb
  | PDOEventTimerAlarm_cb | PDOInhibitTimerAlarm_cb | RxPDO_EventTimers_Handler_cb | SDOTimeoutAlarm_cb

datatype od_cb =
    OnNumberOfErrorsUpdate_cb | OnHeartbeatProducerUpdate_cb | OnNodeGuardUpdate_cb
  | OnCOB_ID_SyncUpdate_cb | TPDO_Communication_Parameter_Callback_cb

datatype sdo_cb = CheckSDOAndContinue_cb

record s_timer_entry =
  tstate :: UNS8
  tcallback :: "timer_cb option"
  tid :: UNS32
  tval :: TIMEVAL
  tinterval :: TIMEVAL

datatype rxStep_t = RXSTEP_INIT | RXSTEP_STARTED | RXSTEP_END

record s_transfer =
  CliServNbr :: UNS8
  whoami :: UNS8
  state :: UNS8
  ttoggle :: UNS8
  abortCode :: UNS32
  index :: UNS16
  subIndex :: UNS8
  count :: UNS32
  offset :: UNS32
  data :: "UNS8 list"
  peerCRCsupport :: UNS8
  blksize :: UNS8
  ackseq :: UNS8
  objsize :: UNS32
  lastblockoffset :: UNS8
  seqno :: UNS8
  endfield :: UNS8
  rxstep :: rxStep_t
  tmpData :: "UNS8 list"
  dataType :: UNS8
  timer :: TIMER_HANDLE
  Callback :: "sdo_cb option"

definition s_transfer_Initializer :: s_transfer where
  "s_transfer_Initializer =
     \<lparr> CliServNbr = 0, whoami = 0, state = SDO_RESET, ttoggle = 0, abortCode = 0, index = 0,
       subIndex = 0, count = 0, offset = 0, data = replicate SDO_MAX_LENGTH_TRANSFER 0,
       peerCRCsupport = 0, blksize = 0, ackseq = 0, objsize = 0, lastblockoffset = 0, seqno = 0,
       endfield = 0, rxstep = RXSTEP_INIT, tmpData = replicate 8 0, dataType = 0,
       timer = -1, Callback = None \<rparr>"

record s_PDO_status =
  transmit_type_parameter :: UNS8
  event_timer :: TIMER_HANDLE
  inhibit_timer :: TIMER_HANDLE
  last_message :: Message

definition s_PDO_status_Initializer :: s_PDO_status where
  "s_PDO_status_Initializer =
     \<lparr> transmit_type_parameter = 0, event_timer = TIMER_NONE, inhibit_timer = TIMER_NONE,
       last_message = Message_Initializer \<rparr>"

datatype e_errorState = Error_free | Error_occurred

record s_errors =
  errCode :: UNS16
  errRegMask :: UNS8
  active :: UNS8

record s_state_communication =
  csBoot_Up :: bool
  csSDO :: bool
  csEmergency :: bool
  csSYNC :: bool
  csLifeGuard :: bool
  csPDO :: bool
  csLSS :: bool

text \<open>The object dictionary: \<open>pObject\<close> is the address of the variable in \<open>mem\<close>.\<close>

record subindex =
  bAccessType :: UNS8
  bDataType :: UNS8
  ssize :: UNS32
  pObject :: addr

record indextable =
  pSubindex :: "subindex list"
  bSubCount :: UNS8
  oindex :: UNS16

record quick_index =
  SDO_SVR :: UNS16
  SDO_CLT :: UNS16
  PDO_RCV :: UNS16
  PDO_RCV_MAP :: UNS16
  PDO_TRS :: UNS16
  PDO_TRS_MAP :: UNS16

text \<open>
  \<open>scanIndexOD_f\<close> is the generated dictionary search: the position in \<open>objdict\<close> and
  whether the entry has a callback array. \<open>stack_junk\<close> stands for the bytes that an
  automatic \<open>Message\<close> holds before it is written.
\<close>

record od_config =
  objdict :: "indextable list"
  firstIndex :: quick_index
  lastIndex :: quick_index
  iam_a_slave :: UNS8
  valueRangeTest :: "UNS8 \<Rightarrow> UNS8 list \<Rightarrow> UNS32"
  scanIndexOD_f :: "UNS16 \<Rightarrow> (nat \<times> bool) option"
  bDeviceNodeId :: addr
  ConsumerHeartbeatCount :: addr
  ConsumerHeartbeatEntries :: addr
  ProducerHeartBeatTime :: addr
  GuardTime :: addr
  LifeTimeFactor :: addr
  COB_ID_Sync :: addr
  Sync_Cycle_Period :: addr
  error_history_size :: UNS8
  error_number :: addr
  error_first_element :: addr
  error_register :: addr
  error_cobid :: addr
  stack_junk :: "UNS8 list"

text \<open>What leaves the stack, in order.\<close>

datatype event =
    Send Message
  | Set_timer TIMEVAL
  | Call_heartbeatError UNS8
  | Call_nodeguardError UNS8
  | Call_post_SlaveBootup UNS8
  | Call_post_SlaveStateChange UNS8 UNS8
  | Call_post_emcy UNS8 UNS16 UNS8
  | Call_post_sync
  | Call_post_TPDO
  | Call_initialisation
  | Call_operational
  | Call_stopped
  | Call_storeODSubIndex UNS16 UNS8

record CO_Data =
  cfg :: od_config
  mem :: memory
  callbacks :: "od_cb option list list"
  timers :: "s_timer_entry list"
  total_sleep_time :: TIMEVAL
  last_timer_raw :: TIMER_HANDLE
  PDO_status :: "s_PDO_status list"
  RxPDO_EventTimers :: "TIMER_HANDLE list option"
  transfers :: "s_transfer list"
  nodeState :: UNS8
  CurrentCommunicationState :: s_state_communication
  ConsumerHeartBeatTimers :: "TIMER_HANDLE list"
  ProducerHeartBeatTimer :: TIMER_HANDLE
  NMTable :: "UNS8 list"
  GuardTimeTimer :: TIMER_HANDLE
  nodeGuardStatus :: "UNS8 list"
  syncTimer :: TIMER_HANDLE
  toggle :: UNS8
  dcf_odentry :: "nat option"
  dcf_cursor :: addr
  dcf_entries_count :: UNS32
  dcf_status :: UNS8
  dcf_size :: UNS32
  dcf_data :: addr
  error_state :: e_errorState
  error_data :: "s_errors list"
  trace :: "event list"
  fault :: bool

section \<open>Shared accessors\<close>

definition emit :: "event \<Rightarrow> CO_Data \<Rightarrow> CO_Data" where
  "emit e d = d\<lparr>trace := trace d @ [e]\<rparr>"

text \<open>An array access of the source is in bounds when the flag passed here holds.\<close>

definition chk :: "bool \<Rightarrow> CO_Data \<Rightarrow> CO_Data" where
  "chk ok d = (if ok then d else d\<lparr>fault := True\<rparr>)"

text \<open>
  The driver of \<^verbatim>\<open>src/canfestival.c\<close>: \<open>canSend\<close> returns 0, \<open>setTimer\<close> has an empty
  body, \<open>getElapsedTime\<close> returns 1. A frame carries the first \<open>mlen\<close> bytes.
\<close>

definition canSend :: "Message \<Rightarrow> CO_Data \<Rightarrow> UNS8 \<times> CO_Data" where
  "canSend m d = (0, emit (Send (m\<lparr>mdata := take (unat (mlen m)) (mdata m)\<rparr>)) d)"

definition setTimer :: "TIMEVAL \<Rightarrow> CO_Data \<Rightarrow> CO_Data" where
  "setTimer v d = emit (Set_timer v) d"

definition getElapsedTime :: TIMEVAL where
  "getElapsedTime = 1"

text \<open>The frames among the events.\<close>

definition sent :: "CO_Data \<Rightarrow> Message list" where
  "sent d = concat (map (\<lambda>e. case e of Send m \<Rightarrow> [m] | _ \<Rightarrow> []) (trace d))"

lemma sent_emit_Send [simp]: "sent (emit (Send m) d) = sent d @ [m]"
  by (simp add: sent_def emit_def)

lemma sent_emit_other: "(\<And>m. e \<noteq> Send m) \<Longrightarrow> sent (emit e d) = sent d"
  by (simp add: sent_def emit_def split: event.splits)

lemma sent_setTimer [simp]: "sent (setTimer v d) = sent d"
  by (simp add: setTimer_def sent_emit_other)

text \<open>Setting the trace or the fault flag leaves every other field alone.\<close>

lemma sent_fault [simp]: "sent (d\<lparr>fault := b\<rparr>) = sent d"
  by (simp add: sent_def)

lemma chk_True [simp]: "chk True d = d"
  by (simp add: chk_def)

end
