(* ===== verification/Timers.thy ===== *)
theory Timers
  imports CanDefs
begin

text \<open>
  The alarm table of \<^verbatim>\<open>CanFestival/src/timers.c\<close>: \<open>SetAlarm\<close>, \<open>DelAlarm\<close> and the two
  passes of \<open>TimeDispatch\<close>. The second pass runs callbacks that live in the other
  components, so it takes the function that runs a callback as an argument; the theory
  that closes the call graph supplies it.

  Shown here: the shape of the table is kept, \<open>SetAlarm\<close> succeeds exactly when a row is
  free and then adds one alarm and touches no other, renewing an alarm cannot fail, and
  the sleep time never runs past an armed alarm.
\<close>

section \<open>Operations\<close>

text \<open>The loop of \<open>SetAlarm\<close> runs over the rows up to \<open>last_timer_raw + 1\<close>.\<close>

fun SetAlarm_scan :: "nat list \<Rightarrow> CO_Data \<Rightarrow> nat option" where
  "SetAlarm_scan [] d = None"
| "SetAlarm_scan (r # rs) d =
     (if int r \<le> last_timer_raw d + 1 then
        (if tstate (timers d ! r) = TIMER_FREE then Some r else SetAlarm_scan rs d)
      else None)"

definition min_val :: "TIMEVAL \<Rightarrow> TIMEVAL \<Rightarrow> TIMEVAL" where
  "min_val a b = (if a < b then a else b)"

definition SetAlarm :: "UNS32 \<Rightarrow> timer_cb option \<Rightarrow> TIMEVAL \<Rightarrow> TIMEVAL \<Rightarrow> CO_Data \<Rightarrow> TIMER_HANDLE \<times> CO_Data" where
  "SetAlarm ident cb value period d =
     (case (if cb = None then None else SetAlarm_scan [0..<MAX_NB_TIMER] d) of
        None \<Rightarrow> (TIMER_NONE, d)
      | Some r \<Rightarrow>
          (let d1 = (if int r = last_timer_raw d + 1 then d\<lparr>last_timer_raw := last_timer_raw d + 1\<rparr> else d);
               elapsed_time = getElapsedTime;
               real_timer_value = min_val value TIMEVAL_MAX;
               d2 = (if total_sleep_time d1 > elapsed_time
                        \<and> total_sleep_time d1 - elapsed_time > real_timer_value
                     then setTimer real_timer_value
                            (d1\<lparr>total_sleep_time := elapsed_time + real_timer_value\<rparr>)
                     else d1)
           in (int r,
               d2\<lparr>timers := (timers d2)[r :=
                 \<lparr> tstate = TIMER_ARMED, tcallback = cb, tid = ident, tval = value + elapsed_time,
                   tinterval = period \<rparr>]\<rparr>)))"

definition DelAlarm :: "TIMER_HANDLE \<Rightarrow> CO_Data \<Rightarrow> TIMER_HANDLE \<times> CO_Data" where
  "DelAlarm handle d =
     (if handle \<noteq> TIMER_NONE then
        (let d1 = (if handle = last_timer_raw d then d\<lparr>last_timer_raw := last_timer_raw d - 1\<rparr> else d);
             h = nat handle
         in (TIMER_NONE,
             chk (0 \<le> handle \<and> h < MAX_NB_TIMER)
               (d1\<lparr>timers := (timers d1)[h := (timers d1 ! h)\<lparr>tstate := TIMER_FREE\<rparr>]\<rparr>)))
      else (TIMER_NONE, d))"

text \<open>One row in the first pass of \<open>TimeDispatch\<close>; the second component is \<open>next_wakeup\<close>.\<close>

definition tick_row :: "UNS32 \<Rightarrow> TIMEVAL \<Rightarrow> s_timer_entry \<Rightarrow> TIMEVAL \<Rightarrow> s_timer_entry \<times> TIMEVAL" where
  "tick_row overrun real_total_sleep_time row next_wakeup =
     (if tstate row AND TIMER_ARMED \<noteq> 0 then
        (if tval row \<le> real_total_sleep_time then
           (if tinterval row = 0 then (row\<lparr>tstate := TIMER_TRIG\<rparr>, next_wakeup)
            else let v = tinterval row - (overrun mod tinterval row)
                 in (row\<lparr>tval := v, tstate := TIMER_TRIG_PERIOD\<rparr>,
                     if v < next_wakeup then v else next_wakeup))
         else let v = tval row - real_total_sleep_time
              in (row\<lparr>tval := v\<rparr>, if v < next_wakeup then v else next_wakeup))
      else (row, next_wakeup))"

fun tick_rows :: "UNS32 \<Rightarrow> TIMEVAL \<Rightarrow> s_timer_entry list \<Rightarrow> TIMEVAL \<Rightarrow> s_timer_entry list \<times> TIMEVAL" where
  "tick_rows ov rt [] w = ([], w)"
| "tick_rows ov rt (r # rs) w =
     (let (r', w') = tick_row ov rt r w; (rs', w'') = tick_rows ov rt rs w' in (r' # rs', w''))"

definition TimeDispatch_first :: "CO_Data \<Rightarrow> CO_Data" where
  "TimeDispatch_first d =
     (let overrun = getElapsedTime;
          real_total_sleep_time = total_sleep_time d + overrun;
          n = nat (last_timer_raw d + 1);
          (rows, next_wakeup) = tick_rows overrun real_total_sleep_time (take n (timers d)) TIMEVAL_MAX
      in setTimer next_wakeup
           (d\<lparr>timers := rows @ drop n (timers d), total_sleep_time := next_wakeup\<rparr>))"

text \<open>
  The second pass. \<open>last_timer_raw\<close> is read again at every turn, because a callback may
  change it; the rows are visited in order and the table has \<open>MAX_NB_TIMER\<close> of them.
\<close>

definition trig_row :: "(timer_cb \<Rightarrow> UNS32 \<Rightarrow> CO_Data \<Rightarrow> CO_Data) \<Rightarrow> nat \<Rightarrow> CO_Data \<Rightarrow> CO_Data" where
  "trig_row run i d =
     (let row = timers d ! i
      in if tstate row AND TIMER_TRIG \<noteq> 0 then
           (let d1 = d\<lparr>timers := (timers d)[i := row\<lparr>tstate := tstate row AND NOT TIMER_TRIG\<rparr>]\<rparr>
            in case tcallback row of None \<Rightarrow> d1 | Some cb \<Rightarrow> run cb (tid row) d1)
         else d)"

fun trig_rows :: "(timer_cb \<Rightarrow> UNS32 \<Rightarrow> CO_Data \<Rightarrow> CO_Data) \<Rightarrow> nat list \<Rightarrow> CO_Data \<Rightarrow> CO_Data" where
  "trig_rows run [] d = d"
| "trig_rows run (i # is) d =
     (if int i \<le> last_timer_raw d then trig_rows run is (trig_row run i d) else d)"

definition TimeDispatch_with :: "(timer_cb \<Rightarrow> UNS32 \<Rightarrow> CO_Data \<Rightarrow> CO_Data) \<Rightarrow> CO_Data \<Rightarrow> CO_Data" where
  "TimeDispatch_with run d = trig_rows run [0..<MAX_NB_TIMER] (TimeDispatch_first d)"

section \<open>The table invariant\<close>

definition timers_ok :: "CO_Data \<Rightarrow> bool" where
  "timers_ok d \<longleftrightarrow> length (timers d) = MAX_NB_TIMER \<and> -1 \<le> last_timer_raw d \<and> last_timer_raw d \<le> 7
     \<and> (\<forall>i < MAX_NB_TIMER. last_timer_raw d < int i \<longrightarrow> tstate (timers d ! i) = TIMER_FREE)
     \<and> (\<forall>i < MAX_NB_TIMER. tstate (timers d ! i) \<le> TIMER_TRIG_PERIOD)"

definition handle_ok :: "TIMER_HANDLE \<Rightarrow> bool" where
  "handle_ok h \<longleftrightarrow> -1 \<le> h \<and> h < 8"

lemma SetAlarm_scan_Some:
  assumes "SetAlarm_scan rs d = Some r"
  shows "r \<in> set rs" and "tstate (timers d ! r) = TIMER_FREE" and "int r \<le> last_timer_raw d + 1"
  using assms by (induction rs) (auto split: if_splits)

lemma SetAlarm_scan_None:
  assumes "SetAlarm_scan rs d = None" "sorted rs" "r \<in> set rs" "int r \<le> last_timer_raw d + 1"
  shows "tstate (timers d ! r) \<noteq> TIMER_FREE"
  using assms by (induction rs) (auto split: if_splits)

text \<open>The scan fails exactly when all eight rows are taken.\<close>

lemma SetAlarm_scan_full:
  assumes "timers_ok d"
  shows "SetAlarm_scan [0..<MAX_NB_TIMER] d = None \<longleftrightarrow> (\<forall>i < MAX_NB_TIMER. tstate (timers d ! i) \<noteq> TIMER_FREE)"
proof
  assume none: "SetAlarm_scan [0..<MAX_NB_TIMER] d = None"
  have busy: "tstate (timers d ! i) \<noteq> TIMER_FREE" if "i < MAX_NB_TIMER" "int i \<le> last_timer_raw d + 1" for i
    using SetAlarm_scan_None [OF none _ _ that(2)] that(1) by simp
  have "last_timer_raw d = 7"
  proof (rule ccontr)
    assume "last_timer_raw d \<noteq> 7"
    with assms have "-1 \<le> last_timer_raw d" "last_timer_raw d < 7" by (auto simp: timers_ok_def)
    with assms busy [of "nat (last_timer_raw d + 1)"] show False
      by (auto simp: timers_ok_def)
  qed
  with busy show "\<forall>i < MAX_NB_TIMER. tstate (timers d ! i) \<noteq> TIMER_FREE" by auto
next
  assume "\<forall>i < MAX_NB_TIMER. tstate (timers d ! i) \<noteq> TIMER_FREE"
  with SetAlarm_scan_Some [of "[0..<MAX_NB_TIMER]" d] show "SetAlarm_scan [0..<MAX_NB_TIMER] d = None"
    by (cases "SetAlarm_scan [0..<MAX_NB_TIMER] d") auto
qed

lemma SetAlarm_cases:
  obtains (fail) "SetAlarm ident cb v p d = (TIMER_NONE, d)"
      "cb = None \<or> SetAlarm_scan [0..<MAX_NB_TIMER] d = None"
  | (stored) r d' where "SetAlarm ident cb v p d = (int r, d')" "cb \<noteq> None" "r < MAX_NB_TIMER"
      "tstate (timers d ! r) = TIMER_FREE" "int r \<le> last_timer_raw d + 1"
      "timers d' = (timers d)[r := \<lparr> tstate = TIMER_ARMED, tcallback = cb, tid = ident,
                                     tval = v + getElapsedTime, tinterval = p \<rparr>]"
      "last_timer_raw d' = max (last_timer_raw d) (int r)"
      "total_sleep_time d' = (if total_sleep_time d > getElapsedTime
           \<and> total_sleep_time d - getElapsedTime > min_val v TIMEVAL_MAX
         then getElapsedTime + min_val v TIMEVAL_MAX else total_sleep_time d)"
      "\<exists>tr. d' = d\<lparr>timers := timers d', last_timer_raw := last_timer_raw d',
                  total_sleep_time := total_sleep_time d', trace := tr\<rparr>" "sent d' = sent d"
proof (cases "if cb = None then None else SetAlarm_scan [0..<MAX_NB_TIMER] d")
  case None
  then show ?thesis by (intro fail) (auto simp: SetAlarm_def split: if_splits)
next
  case (Some r)
  then have cb: "cb \<noteq> None" and sc: "SetAlarm_scan [0..<MAX_NB_TIMER] d = Some r"
    by (auto split: if_splits)
  note r = SetAlarm_scan_Some [OF sc]
  obtain d' where d': "SetAlarm ident cb v p d = (int r, d')"
    using Some by (simp add: SetAlarm_def Let_def)
  show ?thesis
  proof (rule stored [OF d' cb])
    show "\<exists>tr. d' = d\<lparr>timers := timers d', last_timer_raw := last_timer_raw d',
                  total_sleep_time := total_sleep_time d', trace := tr\<rparr>"
      using d' Some by (intro exI [of _ "trace d'"]) (auto simp: SetAlarm_def Let_def setTimer_def emit_def)
    show "sent d' = sent d"
      using d' Some by (auto simp: SetAlarm_def Let_def setTimer_def emit_def sent_def)
  qed (use d' Some r in \<open>auto simp: SetAlarm_def Let_def setTimer_def emit_def\<close>)
qed

text \<open>Fields that the table operations leave alone.\<close>

lemma SetAlarm_frame [simp]:
  "cfg (snd (SetAlarm ident cb v p d)) = cfg d"
  "mem (snd (SetAlarm ident cb v p d)) = mem d"
  "callbacks (snd (SetAlarm ident cb v p d)) = callbacks d"
  "PDO_status (snd (SetAlarm ident cb v p d)) = PDO_status d"
  "RxPDO_EventTimers (snd (SetAlarm ident cb v p d)) = RxPDO_EventTimers d"
  "transfers (snd (SetAlarm ident cb v p d)) = transfers d"
  "nodeState (snd (SetAlarm ident cb v p d)) = nodeState d"
  "CurrentCommunicationState (snd (SetAlarm ident cb v p d)) = CurrentCommunicationState d"
  "ConsumerHeartBeatTimers (snd (SetAlarm ident cb v p d)) = ConsumerHeartBeatTimers d"
  "ProducerHeartBeatTimer (snd (SetAlarm ident cb v p d)) = ProducerHeartBeatTimer d"
  "NMTable (snd (SetAlarm ident cb v p d)) = NMTable d"
  "GuardTimeTimer (snd (SetAlarm ident cb v p d)) = GuardTimeTimer d"
  "nodeGuardStatus (snd (SetAlarm ident cb v p d)) = nodeGuardStatus d"
  "syncTimer (snd (SetAlarm ident cb v p d)) = syncTimer d"
  "toggle (snd (SetAlarm ident cb v p d)) = toggle d"
  "error_state (snd (SetAlarm ident cb v p d)) = error_state d"
  "error_data (snd (SetAlarm ident cb v p d)) = error_data d"
  "dcf_status (snd (SetAlarm ident cb v p d)) = dcf_status d"
  "fault (snd (SetAlarm ident cb v p d)) = fault d"
  "sent (snd (SetAlarm ident cb v p d)) = sent d"
  by (simp_all add: SetAlarm_def Let_def setTimer_def emit_def sent_def split: option.split)

lemma DelAlarm_frame [simp]:
  "fst (DelAlarm h d) = TIMER_NONE"
  "cfg (snd (DelAlarm h d)) = cfg d"
  "mem (snd (DelAlarm h d)) = mem d"
  "callbacks (snd (DelAlarm h d)) = callbacks d"
  "total_sleep_time (snd (DelAlarm h d)) = total_sleep_time d"
  "PDO_status (snd (DelAlarm h d)) = PDO_status d"
  "RxPDO_EventTimers (snd (DelAlarm h d)) = RxPDO_EventTimers d"
  "transfers (snd (DelAlarm h d)) = transfers d"
  "nodeState (snd (DelAlarm h d)) = nodeState d"
  "CurrentCommunicationState (snd (DelAlarm h d)) = CurrentCommunicationState d"
  "ConsumerHeartBeatTimers (snd (DelAlarm h d)) = ConsumerHeartBeatTimers d"
  "ProducerHeartBeatTimer (snd (DelAlarm h d)) = ProducerHeartBeatTimer d"
  "NMTable (snd (DelAlarm h d)) = NMTable d"
  "GuardTimeTimer (snd (DelAlarm h d)) = GuardTimeTimer d"
  "nodeGuardStatus (snd (DelAlarm h d)) = nodeGuardStatus d"
  "syncTimer (snd (DelAlarm h d)) = syncTimer d"
  "toggle (snd (DelAlarm h d)) = toggle d"
  "error_state (snd (DelAlarm h d)) = error_state d"
  "error_data (snd (DelAlarm h d)) = error_data d"
  "dcf_status (snd (DelAlarm h d)) = dcf_status d"
  "trace (snd (DelAlarm h d)) = trace d"
  "sent (snd (DelAlarm h d)) = sent d"
  by (simp_all add: DelAlarm_def Let_def chk_def sent_def)

lemma DelAlarm_fault [simp]: "handle_ok h \<Longrightarrow> fault (snd (DelAlarm h d)) = fault d"
  by (auto simp: DelAlarm_def Let_def chk_def handle_ok_def)

lemma SetAlarm_handle_ok [simp]: "handle_ok (fst (SetAlarm ident cb v p d))"
  by (cases rule: SetAlarm_cases [of ident cb v p d]) (auto simp: handle_ok_def)

lemma handle_ok_NONE [simp]: "handle_ok TIMER_NONE"
  by (simp add: handle_ok_def)

text \<open>\<open>timers_ok\<close> only reads two fields.\<close>

lemma timers_ok_cong:
  "timers d' = timers d \<Longrightarrow> last_timer_raw d' = last_timer_raw d \<Longrightarrow> timers_ok d' = timers_ok d"
  by (simp add: timers_ok_def)

lemma SetAlarm_timers_ok [simp]: "timers_ok d \<Longrightarrow> timers_ok (snd (SetAlarm ident cb v p d))"
  by (cases rule: SetAlarm_cases [of ident cb v p d]) (auto simp: timers_ok_def nth_list_update)

lemma DelAlarm_rows:
  shows "timers (snd (DelAlarm h d)) =
      (if h = TIMER_NONE then timers d
       else (timers d)[nat h := (timers d ! nat h)\<lparr>tstate := TIMER_FREE\<rparr>])"
    and "last_timer_raw (snd (DelAlarm h d)) =
      (if h \<noteq> TIMER_NONE \<and> h = last_timer_raw d then last_timer_raw d - 1 else last_timer_raw d)"
  by (auto simp: DelAlarm_def Let_def chk_def)

lemma DelAlarm_timers_ok [simp]:
  assumes "timers_ok d"
  shows "timers_ok (snd (DelAlarm h d))"
proof -
  have "tstate (timers d ! i) = TIMER_FREE"
    if "i < MAX_NB_TIMER" "last_timer_raw d - 1 < int i" "int i \<noteq> last_timer_raw d" for i
    using assms that by (auto simp: timers_ok_def)
  moreover have "tstate ((timers d)[nat h := (timers d ! nat h)\<lparr>tstate := TIMER_FREE\<rparr>] ! i)
      = (if i = nat h then TIMER_FREE else tstate (timers d ! i))" if "i < MAX_NB_TIMER" for i
    using assms that by (simp add: timers_ok_def nth_list_update)
  ultimately show ?thesis
    using assms unfolding timers_ok_def DelAlarm_rows by auto
qed

section \<open>The table as a partial map of alarms\<close>

type_synonym alarm = "timer_cb option \<times> UNS32 \<times> TIMEVAL \<times> TIMEVAL"

definition alarms :: "CO_Data \<Rightarrow> nat \<Rightarrow> alarm option" where
  "alarms d i =
     (if i < MAX_NB_TIMER \<and> tstate (timers d ! i) \<noteq> TIMER_FREE
      then Some (tcallback (timers d ! i), tid (timers d ! i), tval (timers d ! i), tinterval (timers d ! i))
      else None)"

definition set_alarm :: "alarm \<Rightarrow> CO_Data \<Rightarrow> TIMER_HANDLE \<times> CO_Data" where
  "set_alarm a d = (case a of (cb, ident, v, p) \<Rightarrow> SetAlarm ident cb v p d)"

definition del_alarm :: "TIMER_HANDLE \<Rightarrow> CO_Data \<Rightarrow> CO_Data" where
  "del_alarm h d = snd (DelAlarm h d)"

definition armed_as :: "alarm \<Rightarrow> alarm" where
  "armed_as a = (case a of (cb, ident, v, p) \<Rightarrow> (cb, ident, v + getElapsedTime, p))"

text \<open>
  What the components that own a timer rely on: at most \<open>cap\<close> alarms, a handle names one
  row, setting takes a free row or fails when there is none, deleting frees its own row.
\<close>

locale alarm_table =
  fixes inv :: "'s \<Rightarrow> bool"
    and rows :: "'s \<Rightarrow> nat \<Rightarrow> 'a option"
    and valid :: "'a \<Rightarrow> bool"
    and arm :: "'a \<Rightarrow> 'a"
    and set_row :: "'a \<Rightarrow> 's \<Rightarrow> int \<times> 's"
    and del_row :: "int \<Rightarrow> 's \<Rightarrow> 's"
    and cap :: nat
  assumes rows_cap: "inv s \<Longrightarrow> rows s i \<noteq> None \<Longrightarrow> i < cap"
    and set_inv: "inv s \<Longrightarrow> inv (snd (set_row a s))"
    and del_inv: "inv s \<Longrightarrow> -1 \<le> h \<Longrightarrow> h < int cap \<Longrightarrow> inv (del_row h s)"
    and set_fail: "inv s \<Longrightarrow> valid a \<Longrightarrow> fst (set_row a s) = -1 \<longleftrightarrow> (\<forall>i < cap. rows s i \<noteq> None)"
    and set_fail_same: "fst (set_row a s) = -1 \<Longrightarrow> snd (set_row a s) = s"
    and set_fresh: "inv s \<Longrightarrow> fst (set_row a s) \<noteq> -1 \<Longrightarrow>
        0 \<le> fst (set_row a s) \<and> fst (set_row a s) < int cap \<and> rows s (nat (fst (set_row a s))) = None"
    and set_rows: "inv s \<Longrightarrow> fst (set_row a s) \<noteq> -1 \<Longrightarrow>
        rows (snd (set_row a s)) = (rows s)(nat (fst (set_row a s)) \<mapsto> arm a)"
    and del_rows: "inv s \<Longrightarrow> 0 \<le> h \<Longrightarrow> h < int cap \<Longrightarrow> rows (del_row h s) = (rows s)(nat h := None)"
begin

text \<open>Deleting a row and setting it again cannot fail.\<close>

lemma renew_ok:
  assumes "inv s" "valid a" "0 \<le> h" "h < int cap"
  shows "fst (set_row a (del_row h s)) \<noteq> -1"
proof
  assume "fst (set_row a (del_row h s)) = -1"
  with set_fail [OF del_inv, of s h a] assms have "rows (del_row h s) (nat h) \<noteq> None" by simp
  with del_rows [OF assms(1,3,4)] show False by simp
qed

lemma set_keeps:
  assumes "inv s" "rows s i = Some b"
  shows "rows (snd (set_row a s)) i = Some b"
proof (cases "fst (set_row a s) = -1")
  case True
  with set_fail_same assms show ?thesis by simp
next
  case False
  with set_rows [OF assms(1) False] set_fresh [OF assms(1) False] assms(2) show ?thesis by auto
qed

lemma set_del:
  assumes "inv s" "fst (set_row a s) \<noteq> -1"
  shows "rows (del_row (fst (set_row a s)) (snd (set_row a s))) = rows s"
  using del_rows [OF set_inv [OF assms(1)], of "fst (set_row a s)" a] set_fresh [OF assms] set_rows [OF assms]
  by (auto simp: fun_eq_iff)

end

interpretation tbl: alarm_table timers_ok alarms "\<lambda>a. fst a \<noteq> None" armed_as set_alarm del_alarm MAX_NB_TIMER
proof unfold_locales
  show "i < MAX_NB_TIMER" if "timers_ok s" "alarms s i \<noteq> None" for s i
    using that by (auto simp: alarms_def split: if_splits)
  show "timers_ok (snd (set_alarm a s))" if "timers_ok s" for s a
    using that by (auto simp: set_alarm_def split: prod.splits)
  show "timers_ok (del_alarm h s)" if "timers_ok s" "-1 \<le> h" "h < int MAX_NB_TIMER" for s h
    using that unfolding del_alarm_def by (intro DelAlarm_timers_ok) (auto simp: handle_ok_def)
next
  fix s and a :: alarm
  assume ok: "timers_ok s" and v: "fst a \<noteq> None"
  obtain cb ident val per where a: "a = (cb, ident, val, per)" by (metis surj_pair)
  show "fst (set_alarm a s) = -1 \<longleftrightarrow> (\<forall>i < MAX_NB_TIMER. alarms s i \<noteq> None)"
    using SetAlarm_scan_full [OF ok] v a
    by (cases rule: SetAlarm_cases [of ident cb val per s])
      (auto simp: set_alarm_def alarms_def)
next
  fix s and a :: alarm
  obtain cb ident val per where a: "a = (cb, ident, val, per)" by (metis surj_pair)
  show "snd (set_alarm a s) = s" if "fst (set_alarm a s) = -1"
    using that a by (cases rule: SetAlarm_cases [of ident cb val per s]) (auto simp: set_alarm_def)
next
  fix s and a :: alarm
  assume ok: "timers_ok s" and ne: "fst (set_alarm a s) \<noteq> -1"
  obtain cb ident val per where a: "a = (cb, ident, val, per)" by (metis surj_pair)
  show "0 \<le> fst (set_alarm a s) \<and> fst (set_alarm a s) < int MAX_NB_TIMER
      \<and> alarms s (nat (fst (set_alarm a s))) = None"
    using ne a by (cases rule: SetAlarm_cases [of ident cb val per s]) (auto simp: set_alarm_def alarms_def)
  show "alarms (snd (set_alarm a s)) = (alarms s)(nat (fst (set_alarm a s)) \<mapsto> armed_as a)"
    using ne a ok
    by (cases rule: SetAlarm_cases [of ident cb val per s])
      (auto simp: set_alarm_def alarms_def armed_as_def timers_ok_def fun_eq_iff nth_list_update)
next
  fix s h
  assume ok: "timers_ok s" and h: "0 \<le> h" "h < int MAX_NB_TIMER"
  then have "timers (del_alarm h s) = (timers s)[nat h := (timers s ! nat h)\<lparr>tstate := TIMER_FREE\<rparr>]"
    by (simp add: del_alarm_def DelAlarm_rows)
  with ok h show "alarms (del_alarm h s) = (alarms s)(nat h := None)"
    by (auto simp: alarms_def timers_ok_def fun_eq_iff nth_list_update)
qed

section \<open>The first pass of \<open>TimeDispatch\<close>\<close>

lemma tick_row_wakeup:
  "snd (tick_row ov rt r w) \<le> w"
  "tstate r \<le> TIMER_ARMED \<Longrightarrow> tstate (fst (tick_row ov rt r w)) AND TIMER_ARMED \<noteq> 0 \<Longrightarrow>
     snd (tick_row ov rt r w) \<le> tval (fst (tick_row ov rt r w))"
  by (auto simp: tick_row_def Let_def)

lemma tick_row_state: "tstate r \<le> TIMER_TRIG_PERIOD \<Longrightarrow> tstate (fst (tick_row ov rt r w)) \<le> TIMER_TRIG_PERIOD"
  by (auto simp: tick_row_def Let_def)

lemma tick_rows_simps:
  "length (fst (tick_rows ov rt rs w)) = length rs"
  "snd (tick_rows ov rt rs w) \<le> w"
  "i < length rs \<Longrightarrow> \<exists>w'. fst (tick_rows ov rt rs w) ! i = fst (tick_row ov rt (rs ! i) w')
     \<and> snd (tick_rows ov rt rs w) \<le> snd (tick_row ov rt (rs ! i) w')"
proof (induction rs arbitrary: w i)
  case (Cons r rs)
  { case 1 show ?case using Cons.IH(1) by (simp add: split_beta Let_def) }
  { case 2 show ?case
      using Cons.IH(2) [of "snd (tick_row ov rt r w)"] tick_row_wakeup(1) [of ov rt r w]
      by (simp add: split_beta Let_def) }
  { case 3
    show ?case
    proof (cases i)
      case 0
      then show ?thesis
        using Cons.IH(2) [of "snd (tick_row ov rt r w)"] by (auto simp: split_beta Let_def)
    next
      case (Suc j)
      with 3 Cons.IH(3) [of j "snd (tick_row ov rt r w)"] show ?thesis
        by (auto simp: split_beta Let_def)
    qed }
qed simp_all

lemma tick_row_fst: "fst (tick_row ov rt r w) = fst (tick_row ov rt r w')"
  by (auto simp: tick_row_def Let_def)

lemma TimeDispatch_first_rows:
  assumes "timers_ok d" "i < MAX_NB_TIMER"
  defines "rt \<equiv> total_sleep_time d + getElapsedTime"
  shows "timers (TimeDispatch_first d) ! i =
      (if int i \<le> last_timer_raw d then fst (tick_row getElapsedTime rt (timers d ! i) TIMEVAL_MAX)
       else timers d ! i)"
    and "length (timers (TimeDispatch_first d)) = MAX_NB_TIMER"
    and "int i \<le> last_timer_raw d \<Longrightarrow> \<exists>w. total_sleep_time (TimeDispatch_first d) \<le> snd (tick_row getElapsedTime rt (timers d ! i) w)"
proof -
  define n where "n = nat (last_timer_raw d + 1)"
  define rows where "rows = take n (timers d)"
  have n: "n \<le> 8" "length (timers d) = 8" "int i \<le> last_timer_raw d \<longleftrightarrow> i < n"
    using assms(1) by (auto simp: timers_ok_def n_def)
  have len: "length rows = n" using n by (simp add: rows_def)
  have nth: "rows ! i = timers d ! i" if "i < n" using that by (simp add: rows_def)
  have t: "timers (TimeDispatch_first d) = fst (tick_rows getElapsedTime rt rows TIMEVAL_MAX) @ drop n (timers d)"
    and z: "total_sleep_time (TimeDispatch_first d) = snd (tick_rows getElapsedTime rt rows TIMEVAL_MAX)"
    by (simp_all add: TimeDispatch_first_def setTimer_def emit_def split_beta Let_def rt_def n_def rows_def)
  note tr = tick_rows_simps [where ov = getElapsedTime and rt = rt and rs = rows and w = TIMEVAL_MAX]
  show "length (timers (TimeDispatch_first d)) = MAX_NB_TIMER" using t tr(1) n len by simp
  show "timers (TimeDispatch_first d) ! i =
      (if int i \<le> last_timer_raw d then fst (tick_row getElapsedTime rt (timers d ! i) TIMEVAL_MAX)
       else timers d ! i)"
  proof (cases "i < n")
    case True
    from tr(3) [where i = i] True len nth obtain w' where
      "fst (tick_rows getElapsedTime rt rows TIMEVAL_MAX) ! i = fst (tick_row getElapsedTime rt (timers d ! i) w')"
      by auto
    with True t n(3) tr(1) len tick_row_fst show ?thesis by (metis nth_append)
  next
    case False
    with t n tr(1) len assms(2) show ?thesis by (simp add: nth_append)
  qed
  show "\<exists>w. total_sleep_time (TimeDispatch_first d) \<le> snd (tick_row getElapsedTime rt (timers d ! i) w)"
    if "int i \<le> last_timer_raw d"
    using tr(3) [where i = i] that n(3) len nth z by auto
qed

lemma TimeDispatch_first_frame [simp]:
  "last_timer_raw (TimeDispatch_first d) = last_timer_raw d"
  "cfg (TimeDispatch_first d) = cfg d" "mem (TimeDispatch_first d) = mem d"
  "callbacks (TimeDispatch_first d) = callbacks d"
  "PDO_status (TimeDispatch_first d) = PDO_status d"
  "RxPDO_EventTimers (TimeDispatch_first d) = RxPDO_EventTimers d"
  "transfers (TimeDispatch_first d) = transfers d"
  "nodeState (TimeDispatch_first d) = nodeState d"
  "CurrentCommunicationState (TimeDispatch_first d) = CurrentCommunicationState d"
  "ConsumerHeartBeatTimers (TimeDispatch_first d) = ConsumerHeartBeatTimers d"
  "ProducerHeartBeatTimer (TimeDispatch_first d) = ProducerHeartBeatTimer d"
  "NMTable (TimeDispatch_first d) = NMTable d"
  "GuardTimeTimer (TimeDispatch_first d) = GuardTimeTimer d"
  "nodeGuardStatus (TimeDispatch_first d) = nodeGuardStatus d"
  "syncTimer (TimeDispatch_first d) = syncTimer d"
  "error_data (TimeDispatch_first d) = error_data d"
  "error_state (TimeDispatch_first d) = error_state d"
  "fault (TimeDispatch_first d) = fault d" "sent (TimeDispatch_first d) = sent d"
  by (simp_all add: TimeDispatch_first_def setTimer_def emit_def split_beta Let_def sent_def)

lemma TimeDispatch_first_timers_ok [simp]: "timers_ok d \<Longrightarrow> timers_ok (TimeDispatch_first d)"
  using TimeDispatch_first_rows(1) [of d] TimeDispatch_first_rows(2) [of d 0]
  by (auto simp: timers_ok_def intro: tick_row_state)

section \<open>Properties\<close>

text \<open>C14: \<open>SetAlarm\<close> with a callback fails exactly when all eight rows are in use, and then
  changes nothing; otherwise it returns the handle of a row that was free, that row now
  holds the callback, its argument, the deadline counted from the last timer interrupt and the
  period, and every other alarm is as before.\<close>

theorem SetAlarm_correct:
  assumes "timers_ok d" "cb \<noteq> None" "SetAlarm ident cb v period d = (h, d')"
  shows "(h = TIMER_NONE \<longleftrightarrow> (\<forall>i < MAX_NB_TIMER. alarms d i \<noteq> None))
    \<and> (h = TIMER_NONE \<longrightarrow> d' = d)
    \<and> (h \<noteq> TIMER_NONE \<longrightarrow> 0 \<le> h \<and> h < 8 \<and> alarms d (nat h) = None \<and> timers_ok d'
        \<and> alarms d' = (alarms d)(nat h \<mapsto> (cb, ident, v + getElapsedTime, period)))"
proof -
  let ?a = "(cb, ident, v, period)"
  have *: "fst (set_alarm ?a d) = h" "snd (set_alarm ?a d) = d'"
    using assms(3) by (simp_all add: set_alarm_def)
  show ?thesis
    using tbl.set_fail [OF assms(1), of ?a] tbl.set_fail_same [of ?a d] tbl.set_fresh [OF assms(1), of ?a]
      tbl.set_rows [OF assms(1), of ?a] tbl.set_inv [OF assms(1), of ?a] assms(2) *
    by (simp add: armed_as_def)
qed

text \<open>Renewing an alarm, as the heartbeat consumer and the PDO timers do it
  (\<open>DelAlarm\<close> of the old handle, then \<open>SetAlarm\<close>), cannot fail: with any valid handle the
  second call finds a row.\<close>

theorem renew_alarm_succeeds:
  assumes "timers_ok d" "0 \<le> h" "h < 8" "cb \<noteq> None"
  shows "fst (SetAlarm ident cb v period (snd (DelAlarm h d))) \<noteq> TIMER_NONE"
  using tbl.renew_ok [OF assms(1), of "(cb, ident, v, period)" h] assms
  by (simp add: set_alarm_def del_alarm_def)

text \<open>The sleep bound: the programmed wake-up is not later than any armed alarm.\<close>

definition sleep_ok :: "CO_Data \<Rightarrow> bool" where
  "sleep_ok d \<longleftrightarrow> (\<forall>i < MAX_NB_TIMER. tstate (timers d ! i) AND TIMER_ARMED \<noteq> 0
      \<longrightarrow> total_sleep_time d \<le> tval (timers d ! i))"

lemma sleep_step_bound:
  fixes v e t m :: TIMEVAL
  assumes "e \<le> v + e"
  shows "(if t > e \<and> t - e > min_val v m then e + min_val v m else t) \<le> v + e"
proof -
  have sum: "unat (v + e) = unat v + unat e"
    using assms unat_plus_simple [of e v] by (simp add: add.commute)
  have m: "min_val v m \<le> v" by (simp add: min_val_def not_less)
  show ?thesis
  proof (cases "t > e \<and> t - e > min_val v m")
    case True
    have "unat (e + min_val v m) \<le> unat e + unat (min_val v m)"
      by (simp add: unat_word_ariths)
    then show ?thesis using True sum m by (simp add: word_le_nat_alt)
  next
    case False
    then consider "t \<le> e" | "e < t" "t - e \<le> v"
      using m by (cases "e < t") (auto simp: not_less)
    then show ?thesis
    proof cases
      case 1
      then have "\<not> e < t" by simp
      with 1 assms show ?thesis by (simp add: order_trans [of t e])
    next
      case 2
      then show ?thesis using False sum
        by (simp add: word_le_nat_alt word_less_nat_alt unat_sub)
    qed
  qed
qed

text \<open>C15: the programmed sleep never runs past an armed alarm. The first pass of
  \<open>TimeDispatch\<close> establishes this for any table in which no trigger is pending, and \<open>SetAlarm\<close> keeps it for every delay
  that does not overflow the 32-bit tick counter.\<close>

theorem sleep_not_past_alarm:
  assumes "timers_ok d"
  shows "((\<forall>i < MAX_NB_TIMER. tstate (timers d ! i) \<le> TIMER_ARMED) \<longrightarrow> sleep_ok (TimeDispatch_first d))
    \<and> (sleep_ok d \<and> getElapsedTime \<le> v + getElapsedTime
       \<longrightarrow> sleep_ok (snd (SetAlarm ident cb v period d)))"
proof (intro conjI impI)
  assume st: "\<forall>i < MAX_NB_TIMER. tstate (timers d ! i) \<le> TIMER_ARMED"
  show "sleep_ok (TimeDispatch_first d)"
    unfolding sleep_ok_def
  proof (intro allI impI)
    fix i
    assume i: "i < MAX_NB_TIMER" and armed: "tstate (timers (TimeDispatch_first d) ! i) AND TIMER_ARMED \<noteq> 0"
    note r = TimeDispatch_first_rows [OF assms i]
    have le: "int i \<le> last_timer_raw d"
      using armed r(1) assms i by (auto simp: timers_ok_def split: if_splits)
    from r(3) [OF le] obtain w where
      "total_sleep_time (TimeDispatch_first d)
         \<le> snd (tick_row getElapsedTime (total_sleep_time d + getElapsedTime) (timers d ! i) w)" by blast
    with tick_row_wakeup(2) [where r = "timers d ! i" and w = w] st i armed r(1) le tick_row_fst
    show "total_sleep_time (TimeDispatch_first d) \<le> tval (timers (TimeDispatch_first d) ! i)"
      by (metis (no_types, lifting) order_trans)
  qed
next
  assume *: "sleep_ok d \<and> getElapsedTime \<le> v + getElapsedTime"
  show "sleep_ok (snd (SetAlarm ident cb v period d))"
  proof (cases rule: SetAlarm_cases [of ident cb v period d])
    case fail
    with * show ?thesis by simp
  next
    case (stored r d')
    have "total_sleep_time d' \<le> v + getElapsedTime"
      unfolding stored(8) by (rule sleep_step_bound) (use * in simp)
    moreover have "total_sleep_time d' \<le> total_sleep_time d"
      unfolding stored(8) by (auto simp: word_le_nat_alt word_less_nat_alt unat_sub unat_word_ariths)
    ultimately show ?thesis
      using * stored(1,3,6) assms unfolding sleep_ok_def timers_ok_def
      by (auto simp: nth_list_update intro: order_trans)
  qed
qed

section \<open>The properties on an empty table\<close>

definition empty_row :: s_timer_entry where
  "empty_row = \<lparr>tstate = TIMER_FREE, tcallback = None, tid = 0, tval = 0, tinterval = 0\<rparr>"

text \<open>
  The three globals as \<^verbatim>\<open>timers.c\<close> initialises them, put into a node.
\<close>

definition timers_init :: "CO_Data \<Rightarrow> CO_Data" where
  "timers_init d = d\<lparr>timers := replicate MAX_NB_TIMER empty_row, total_sleep_time := TIMEVAL_MAX,
                     last_timer_raw := -1\<rparr>"

lemma timers_init_ok: "timers_ok (timers_init d)"
  by (simp add: timers_ok_def timers_init_def empty_row_def)

theorem SetAlarm_correct_witness:
  "\<forall>d. \<exists>h d'. SetAlarm 7 (Some SyncAlarm_cb) 100 50 (timers_init d) = (h, d') \<and> h \<noteq> TIMER_NONE
     \<and> alarms d' = (alarms (timers_init d))(nat h \<mapsto> (Some SyncAlarm_cb, 7, 101, 50))"
proof
  fix d
  obtain h d' where *: "SetAlarm 7 (Some SyncAlarm_cb) 100 50 (timers_init d) = (h, d')"
    by (metis surj_pair)
  have "alarms (timers_init d) 0 = None" by (simp add: alarms_def timers_init_def empty_row_def)
  with SetAlarm_correct [OF timers_init_ok _ *]
  show "\<exists>h d'. SetAlarm 7 (Some SyncAlarm_cb) 100 50 (timers_init d) = (h, d') \<and> h \<noteq> TIMER_NONE
     \<and> alarms d' = (alarms (timers_init d))(nat h \<mapsto> (Some SyncAlarm_cb, 7, 101, 50))"
    using * by (auto simp: getElapsedTime_def dest: spec [of _ 0])
qed

theorem renew_alarm_succeeds_witness:
  "\<forall>d. fst (SetAlarm 1 (Some SyncAlarm_cb) 9 0 (snd (DelAlarm 3 (timers_init d)))) \<noteq> TIMER_NONE"
  by (intro allI renew_alarm_succeeds timers_init_ok) simp_all

theorem sleep_not_past_alarm_witness:
  "\<forall>d. sleep_ok (TimeDispatch_first (timers_init d))
     \<and> sleep_ok (snd (SetAlarm 1 (Some SyncAlarm_cb) 9 0 (timers_init d)))"
proof
  fix d
  show "sleep_ok (TimeDispatch_first (timers_init d))
     \<and> sleep_ok (snd (SetAlarm 1 (Some SyncAlarm_cb) 9 0 (timers_init d)))"
    using sleep_not_past_alarm [OF timers_init_ok, of d 9 1 "Some SyncAlarm_cb" 0]
    by (simp add: sleep_ok_def timers_init_def empty_row_def getElapsedTime_def)
qed

end
