(* ===== verification/ObjAccess.thy ===== *)
theory ObjAccess
  imports CanDefs
begin

text \<open>
  Access to the object dictionary, \<^verbatim>\<open>CanFestival/src/objacces.c\<close>: the search, the
  registration of write callbacks, \<open>_getODentry\<close> and \<open>_setODentry\<close> in the little-endian
  build (\<open>CANOPEN_BIG_ENDIAN\<close> is not defined, so \<open>endianize\<close> has no effect and the macros
  \<open>getODentry\<close>/\<open>readLocalDict\<close> and \<open>setODentry\<close>/\<open>writeLocalDict\<close> coincide).

  A write may run a callback that belongs to another component; \<open>setODentry_with\<close> takes
  the function that runs it. Shown here: an error leaves the dictionary untouched and is
  reported with the right code, a write changes exactly the bytes of its object, a read
  returns what was written, strings included.
\<close>

section \<open>Operations\<close>

definition scanIndexOD :: "CO_Data \<Rightarrow> UNS16 \<Rightarrow> (nat \<times> bool) option" where
  "scanIndexOD d wIndex = scanIndexOD_f (cfg d) wIndex"

text \<open>The dictionary entry at a table position, and one of its subentries.\<close>

definition od_entry :: "CO_Data \<Rightarrow> nat \<Rightarrow> indextable" where
  "od_entry d i = objdict (cfg d) ! i"

definition od_sub :: "CO_Data \<Rightarrow> nat \<Rightarrow> nat \<Rightarrow> subindex" where
  "od_sub d i j = pSubindex (od_entry d i) ! j"

definition RegisterSetODentryCallBack :: "UNS16 \<Rightarrow> UNS8 \<Rightarrow> od_cb option \<Rightarrow> CO_Data \<Rightarrow> UNS32 \<times> CO_Data" where
  "RegisterSetODentryCallBack wIndex bSubindex cb d =
     (case scanIndexOD d wIndex of
        None \<Rightarrow> (OD_NO_SUCH_OBJECT, d)
      | Some (i, has_callbacks) \<Rightarrow>
          (OD_SUCCESSFUL,
           if has_callbacks \<and> bSubindex < bSubCount (od_entry d i) then
             d\<lparr>callbacks := (callbacks d)[i := (callbacks d ! i)[unat bSubindex := cb]]\<rparr>
           else d))"

text \<open>
  The result of a read: the code, \<open>*pExpectedSize\<close>, \<open>*pDataType\<close> and the destination buffer
  afterwards. The buffer is \<open>None\<close> for a null pointer.
\<close>

record od_read =
  rcode :: UNS32
  rsize :: UNS32
  rtype :: UNS8
  rdest :: "UNS8 list"

text \<open>The loop that copies a string stops at a null byte or after \<open>n\<close> bytes.\<close>

fun str_copy :: "memory \<Rightarrow> addr \<Rightarrow> nat \<Rightarrow> UNS8 list" where
  "str_copy m a 0 = []"
| "str_copy m a (Suc n) = (if m a = 0 then [] else m a # str_copy m (a + 1) n)"

definition getODentry ::
    "UNS16 \<Rightarrow> UNS8 \<Rightarrow> UNS8 list option \<Rightarrow> UNS32 \<Rightarrow> UNS8 \<Rightarrow> bool \<Rightarrow> CO_Data \<Rightarrow> od_read \<times> CO_Data" where
  "getODentry wIndex bSubindex pDestData pExpectedSize pDataType checkAccess d =
     (let buf = (case pDestData of None \<Rightarrow> [] | Some b \<Rightarrow> b);
          fail = (\<lambda>code sz. (\<lparr>rcode = code, rsize = sz, rtype = pDataType, rdest = buf\<rparr>, d))
      in case scanIndexOD d wIndex of
        None \<Rightarrow> fail OD_NO_SUCH_OBJECT pExpectedSize
      | Some (i, _) \<Rightarrow>
          if bSubCount (od_entry d i) \<le> bSubindex then fail OD_NO_SUCH_SUBINDEX pExpectedSize
          else let sub = od_sub d i (unat bSubindex) in
          if checkAccess \<and> bAccessType sub AND WO \<noteq> 0 then fail OD_READ_NOT_ALLOWED pExpectedSize
          else if pDestData = None then fail SDOABT_GENERAL_ERROR pExpectedSize
          else if ssize sub > pExpectedSize then fail SDOABT_OUT_OF_MEMORY (ssize sub)
          else if bDataType sub \<noteq> visible_string then
            (let bs = rd_bytes (mem d) (pObject sub) (unat (ssize sub))
             in (\<lparr>rcode = OD_SUCCESSFUL, rsize = ssize sub, rtype = bDataType sub, rdest = put_list buf 0 bs\<rparr>,
                 chk (length bs \<le> length buf) d))
          else
            (let limit = (if pExpectedSize \<noteq> 0 then pExpectedSize else ssize sub);
                 bs = str_copy (mem d) (pObject sub) (unat limit);
                 n = of_nat (length bs);
                 d1 = chk (length bs \<le> length buf) d;
                 d2 = (if n < ssize sub then d1\<lparr>mem := (mem d1)(pObject sub + length bs := 0)\<rparr> else d1)
             in (\<lparr>rcode = OD_SUCCESSFUL, rsize = n, rtype = bDataType sub, rdest = put_list buf 0 bs\<rparr>, d2)))"

text \<open>
  The write. \<open>src\<close> is the caller's buffer; the result is the code, \<open>*pExpectedSize\<close> and the
  node. \<open>run cb i sub\<close> runs a registered callback on table entry \<open>i\<close>.
\<close>

type_synonym od_runner = "od_cb \<Rightarrow> nat \<Rightarrow> UNS8 \<Rightarrow> CO_Data \<Rightarrow> UNS32 \<times> CO_Data"

definition od_store :: "subindex \<Rightarrow> UNS8 list \<Rightarrow> UNS32 \<Rightarrow> CO_Data \<Rightarrow> CO_Data" where
  "od_store sub src n d =
     (let d1 = chk (unat n \<le> length src) d;
          d2 = d1\<lparr>mem := wr_bytes (mem d1) (pObject sub) (take (unat n) src)\<rparr>
      in if bDataType sub = visible_string \<and> n < ssize sub
         then d2\<lparr>mem := (mem d2)(pObject sub + unat n := 0)\<rparr> else d2)"

definition setODentry_with ::
    "od_runner \<Rightarrow> UNS16 \<Rightarrow> UNS8 \<Rightarrow> UNS8 list \<Rightarrow> UNS32 \<Rightarrow> bool \<Rightarrow> CO_Data \<Rightarrow> UNS32 \<times> UNS32 \<times> CO_Data" where
  "setODentry_with run wIndex bSubindex src pExpectedSize checkAccess d =
     (case scanIndexOD d wIndex of
        None \<Rightarrow> (OD_NO_SUCH_OBJECT, pExpectedSize, d)
      | Some (i, has_callbacks) \<Rightarrow>
          if bSubCount (od_entry d i) \<le> bSubindex then (OD_NO_SUCH_SUBINDEX, pExpectedSize, d)
          else let sub = od_sub d i (unat bSubindex) in
          if checkAccess \<and> bAccessType sub = RO then (OD_WRITE_NOT_ALLOWED, pExpectedSize, d)
          else if pExpectedSize = 0 \<or> pExpectedSize = ssize sub
                  \<or> bDataType sub = visible_string \<and> pExpectedSize < ssize sub then
            (let errorCode = valueRangeTest (cfg d) (bDataType sub) src
             in if errorCode \<noteq> 0 then (errorCode, pExpectedSize, d)
                else let d1 = od_store sub src pExpectedSize d;
                         cb = (if has_callbacks then callbacks d1 ! i ! unat bSubindex else None);
                         (code, d2) = (case cb of None \<Rightarrow> (OD_SUCCESSFUL, d1) | Some c \<Rightarrow> run c i bSubindex d1)
                     in if code \<noteq> OD_SUCCESSFUL then (code, ssize sub, d2)
                        else (OD_SUCCESSFUL, ssize sub,
                              if bAccessType sub AND TO_BE_SAVE \<noteq> 0
                              then emit (Call_storeODSubIndex wIndex bSubindex) d2 else d2))
          else (OD_LENGTH_DATA_INVALID, ssize sub, d))"

section \<open>Well-formed dictionaries\<close>

text \<open>
  What the generator of the dictionary guarantees: a search gives the position of the entry
  that has the index searched for, the subentry count is the length of the subentry array, and a callback array has one cell
  for each subentry.
\<close>

definition od_ok :: "CO_Data \<Rightarrow> bool" where
  "od_ok d \<longleftrightarrow>
     length (callbacks d) = length (objdict (cfg d))
     \<and> (\<forall>e \<in> set (objdict (cfg d)). length (pSubindex e) = unat (bSubCount e))
     \<and> (\<forall>w i b. scanIndexOD d w = Some (i, b) \<longrightarrow> i < length (objdict (cfg d))
          \<and> oindex (od_entry d i) = w
          \<and> (b \<longrightarrow> length (callbacks d ! i) = unat (bSubCount (od_entry d i))))"

lemma od_ok_scan:
  assumes "od_ok d" "scanIndexOD d w = Some (i, b)"
  shows "i < length (objdict (cfg d))" "length (pSubindex (od_entry d i)) = unat (bSubCount (od_entry d i))"
  using assms by (auto simp: od_ok_def od_entry_def)

lemma od_ok_cong: "cfg d' = cfg d \<Longrightarrow> callbacks d' = callbacks d \<Longrightarrow> od_ok d' = od_ok d"
  by (simp add: od_ok_def scanIndexOD_def od_entry_def)

lemma od_entry_cong: "cfg d' = cfg d \<Longrightarrow> od_entry d' i = od_entry d i"
  by (simp add: od_entry_def)

lemma od_sub_cong: "cfg d' = cfg d \<Longrightarrow> od_sub d' i j = od_sub d i j"
  by (simp add: od_sub_def od_entry_def)

lemma scanIndexOD_cong: "cfg d' = cfg d \<Longrightarrow> scanIndexOD d' w = scanIndexOD d w"
  by (simp add: scanIndexOD_def)

lemma RegisterSetODentryCallBack_frame [simp]:
  "cfg (snd (RegisterSetODentryCallBack w s cb d)) = cfg d"
  "mem (snd (RegisterSetODentryCallBack w s cb d)) = mem d"
  "timers (snd (RegisterSetODentryCallBack w s cb d)) = timers d"
  "total_sleep_time (snd (RegisterSetODentryCallBack w s cb d)) = total_sleep_time d"
  "last_timer_raw (snd (RegisterSetODentryCallBack w s cb d)) = last_timer_raw d"
  "PDO_status (snd (RegisterSetODentryCallBack w s cb d)) = PDO_status d"
  "RxPDO_EventTimers (snd (RegisterSetODentryCallBack w s cb d)) = RxPDO_EventTimers d"
  "transfers (snd (RegisterSetODentryCallBack w s cb d)) = transfers d"
  "nodeState (snd (RegisterSetODentryCallBack w s cb d)) = nodeState d"
  "CurrentCommunicationState (snd (RegisterSetODentryCallBack w s cb d)) = CurrentCommunicationState d"
  "ConsumerHeartBeatTimers (snd (RegisterSetODentryCallBack w s cb d)) = ConsumerHeartBeatTimers d"
  "ProducerHeartBeatTimer (snd (RegisterSetODentryCallBack w s cb d)) = ProducerHeartBeatTimer d"
  "NMTable (snd (RegisterSetODentryCallBack w s cb d)) = NMTable d"
  "GuardTimeTimer (snd (RegisterSetODentryCallBack w s cb d)) = GuardTimeTimer d"
  "nodeGuardStatus (snd (RegisterSetODentryCallBack w s cb d)) = nodeGuardStatus d"
  "syncTimer (snd (RegisterSetODentryCallBack w s cb d)) = syncTimer d"
  "toggle (snd (RegisterSetODentryCallBack w s cb d)) = toggle d"
  "error_state (snd (RegisterSetODentryCallBack w s cb d)) = error_state d"
  "error_data (snd (RegisterSetODentryCallBack w s cb d)) = error_data d"
  "trace (snd (RegisterSetODentryCallBack w s cb d)) = trace d"
  "sent (snd (RegisterSetODentryCallBack w s cb d)) = sent d"
  "fault (snd (RegisterSetODentryCallBack w s cb d)) = fault d"
  by (simp_all add: RegisterSetODentryCallBack_def sent_def split: option.split prod.split)

lemma RegisterSetODentryCallBack_od_ok [simp]:
  assumes "od_ok d"
  shows "od_ok (snd (RegisterSetODentryCallBack w s cb d))"
proof (cases "scanIndexOD d w")
  case None
  with assms show ?thesis by (simp add: RegisterSetODentryCallBack_def)
next
  case (Some a)
  obtain i b where a: "a = (i, b)" by (cases a)
  let ?d = "snd (RegisterSetODentryCallBack w s cb d)"
  have cb: "callbacks ?d = (if b \<and> s < bSubCount (od_entry d i)
      then (callbacks d)[i := (callbacks d ! i)[unat s := cb]] else callbacks d)"
    using Some a by (simp add: RegisterSetODentryCallBack_def)
  have "length (callbacks ?d ! j) = length (callbacks d ! j)" for j
    unfolding cb by (cases "i < length (callbacks d)") (auto simp: nth_list_update list_update_beyond)
  moreover have "length (callbacks ?d) = length (callbacks d)" unfolding cb by simp
  ultimately show ?thesis
    using assms unfolding od_ok_def by (simp add: scanIndexOD_def od_entry_def)
qed

section \<open>The dictionary as a map from keys to bytes\<close>

type_synonym od_key = "UNS16 \<times> UNS8"

definition od_obj :: "CO_Data \<Rightarrow> od_key \<Rightarrow> subindex option" where
  "od_obj d k =
     (case scanIndexOD d (fst k) of
        None \<Rightarrow> None
      | Some (i, _) \<Rightarrow> if snd k < bSubCount (od_entry d i) then Some (od_sub d i (unat (snd k))) else None)"

definition od_view :: "CO_Data \<Rightarrow> od_key \<Rightarrow> UNS8 list option" where
  "od_view d k = map_option (\<lambda>sub. rd_bytes (mem d) (pObject sub) (unat (ssize sub))) (od_obj d k)"

definition sub_apart :: "subindex \<Rightarrow> subindex \<Rightarrow> bool" where
  "sub_apart x y \<longleftrightarrow> pObject x + unat (ssize x) \<le> pObject y \<or> pObject y + unat (ssize y) \<le> pObject x"

text \<open>No two subentries share a byte.\<close>

definition od_disjoint :: "CO_Data \<Rightarrow> bool" where
  "od_disjoint d \<longleftrightarrow> sorted_wrt sub_apart (concat (map pSubindex (objdict (cfg d))))"

lemma sub_apart_sym: "sub_apart x y = sub_apart y x"
  by (auto simp: sub_apart_def)

lemma sorted_wrt_concat:
  "sorted_wrt P (concat xss) \<longleftrightarrow> (\<forall>xs \<in> set xss. sorted_wrt P xs)
     \<and> sorted_wrt (\<lambda>xs ys. \<forall>x \<in> set xs. \<forall>y \<in> set ys. P x y) xss"
  by (induction xss) (auto simp: sorted_wrt_append)

lemma od_obj_SomeE:
  assumes "od_obj d k = Some sub"
  obtains i b where "scanIndexOD d (fst k) = Some (i, b)" "snd k < bSubCount (od_entry d i)"
    "sub = od_sub d i (unat (snd k))"
  using assms by (auto simp: od_obj_def split: option.splits if_splits)

lemma od_obj_apart:
  assumes ok: "od_ok d" "od_disjoint d" and k: "od_obj d k = Some x" "od_obj d k' = Some y" "k \<noteq> k'"
  shows "sub_apart x y"
proof -
  obtain i b where i: "scanIndexOD d (fst k) = Some (i, b)" "snd k < bSubCount (od_entry d i)"
      "x = od_sub d i (unat (snd k))"
    using k(1) by (rule od_obj_SomeE)
  obtain j c where j: "scanIndexOD d (fst k') = Some (j, c)" "snd k' < bSubCount (od_entry d j)"
      "y = od_sub d j (unat (snd k'))"
    using k(2) by (rule od_obj_SomeE)
  let ?xss = "map pSubindex (objdict (cfg d))"
  have dis: "\<forall>xs \<in> set ?xss. sorted_wrt sub_apart xs"
      "sorted_wrt (\<lambda>xs ys. \<forall>x \<in> set xs. \<forall>y \<in> set ys. sub_apart x y) ?xss"
    using ok(2) unfolding od_disjoint_def sorted_wrt_concat by auto
  have len: "i < length ?xss" "j < length ?xss"
    using od_ok_scan(1) [OF ok(1)] i(1) j(1) by auto
  have px: "unat (snd k) < length (?xss ! i)" "?xss ! i ! unat (snd k) = x"
    using od_ok_scan(2) [OF ok(1) i(1)] len(1) i(2,3)
    by (simp_all add: od_entry_def od_sub_def word_less_nat_alt)
  have py: "unat (snd k') < length (?xss ! j)" "?xss ! j ! unat (snd k') = y"
    using od_ok_scan(2) [OF ok(1) j(1)] len(2) j(2,3)
    by (simp_all add: od_entry_def od_sub_def word_less_nat_alt)
  consider "i < j" | "j < i" | "i = j" by linarith
  then show ?thesis
  proof cases
    case 1
    then show ?thesis
      using sorted_wrt_nth_less [OF dis(2) 1 len(2)] px py by (metis nth_mem)
  next
    case 2
    then show ?thesis
      using sorted_wrt_nth_less [OF dis(2) 2 len(1)] px py sub_apart_sym by (metis nth_mem)
  next
    case 3
    have "fst k = fst k'"
      using 3 i(1) j(1) ok(1) unfolding od_ok_def by metis
    with k(3) have "snd k \<noteq> snd k'" by (metis prod.collapse)
    then have ne: "unat (snd k) \<noteq> unat (snd k')" by (simp add: word_unat_eq_iff)
    have "sorted_wrt sub_apart (?xss ! i)" using dis(1) len(1) by simp
    from sorted_wrt_nth_less [OF this] show ?thesis
      using px py 3 ne sub_apart_sym by (cases "unat (snd k) < unat (snd k')") (auto simp: not_less le_less)
  qed
qed

text \<open>
  What a client of the dictionary relies on: an object reads back what was stored into it,
  and storing into one object changes no other.
\<close>

locale object_store =
  fixes inv :: "'s \<Rightarrow> bool"
    and view :: "'s \<Rightarrow> 'k \<Rightarrow> 'v list option"
    and store :: "'k \<Rightarrow> 'v list \<Rightarrow> 's \<Rightarrow> 's"
  assumes store_inv: "inv s \<Longrightarrow> inv (store k v s)"
    and store_view: "inv s \<Longrightarrow> view s k = Some old \<Longrightarrow> length v = length old \<Longrightarrow>
        view (store k v s) = (view s)(k \<mapsto> v)"
begin

lemma store_same: "inv s \<Longrightarrow> view s k = Some old \<Longrightarrow> length v = length old \<Longrightarrow> view (store k v s) k = Some v"
  by (simp add: store_view)

lemma store_twice:
  assumes "inv s" "view s k = Some old" "length v = length old" "length v' = length old"
  shows "view (store k v' (store k v s)) = view (store k v' s)"
  using store_view [OF store_inv, of s k v k v v'] store_view [OF assms(1,2)] assms by simp

lemma store_commute:
  assumes "inv s" "view s k = Some a" "view s k' = Some b" "k \<noteq> k'" "length v = length a" "length v' = length b"
  shows "view (store k v (store k' v' s)) = view (store k' v' (store k v s))"
proof -
  have "view (store k' v' s) k = Some a" "view (store k v s) k' = Some b"
    using store_view assms by auto
  then show ?thesis
    using store_view [OF store_inv [OF assms(1)]] store_view [OF assms(1)] assms
    by (auto simp: fun_upd_twist)
qed

end

definition od_put :: "od_key \<Rightarrow> UNS8 list \<Rightarrow> CO_Data \<Rightarrow> CO_Data" where
  "od_put k bs d = (case od_obj d k of None \<Rightarrow> d | Some sub \<Rightarrow> od_store sub bs (ssize sub) d)"

lemma od_store_frame [simp]:
  "cfg (od_store sub src n d) = cfg d" "callbacks (od_store sub src n d) = callbacks d"
  "timers (od_store sub src n d) = timers d" "last_timer_raw (od_store sub src n d) = last_timer_raw d"
  "total_sleep_time (od_store sub src n d) = total_sleep_time d"
  "PDO_status (od_store sub src n d) = PDO_status d"
  "RxPDO_EventTimers (od_store sub src n d) = RxPDO_EventTimers d"
  "transfers (od_store sub src n d) = transfers d"
  "nodeState (od_store sub src n d) = nodeState d"
  "CurrentCommunicationState (od_store sub src n d) = CurrentCommunicationState d"
  "ConsumerHeartBeatTimers (od_store sub src n d) = ConsumerHeartBeatTimers d"
  "ProducerHeartBeatTimer (od_store sub src n d) = ProducerHeartBeatTimer d"
  "NMTable (od_store sub src n d) = NMTable d"
  "GuardTimeTimer (od_store sub src n d) = GuardTimeTimer d"
  "nodeGuardStatus (od_store sub src n d) = nodeGuardStatus d"
  "syncTimer (od_store sub src n d) = syncTimer d"
  "toggle (od_store sub src n d) = toggle d"
  "error_state (od_store sub src n d) = error_state d"
  "error_data (od_store sub src n d) = error_data d"
  "trace (od_store sub src n d) = trace d" "sent (od_store sub src n d) = sent d"
  by (simp_all add: od_store_def Let_def chk_def sent_def)

lemma od_obj_cong: "cfg d' = cfg d \<Longrightarrow> od_obj d' k = od_obj d k"
  by (simp add: od_obj_def scanIndexOD_def od_entry_def od_sub_def split: option.split)

lemma od_disjoint_cong: "cfg d' = cfg d \<Longrightarrow> od_disjoint d' = od_disjoint d"
  by (simp add: od_disjoint_def)

lemma od_store_fault: "unat n \<le> length src \<Longrightarrow> fault (od_store sub src n d) = fault d"
  by (simp add: od_store_def Let_def chk_def)

text \<open>A store changes bytes of its own object only.\<close>

lemma od_store_mem_outside:
  assumes "n \<le> ssize sub" "x < pObject sub \<or> pObject sub + unat (ssize sub) \<le> x"
  shows "mem (od_store sub src n d) x = mem d x"
proof -
  have le: "unat n \<le> unat (ssize sub)" using assms(1) by (simp add: word_le_nat_alt)
  have "n < ssize sub \<Longrightarrow> unat n < unat (ssize sub)" by (simp add: word_less_nat_alt)
  then have "n < ssize sub \<Longrightarrow> x \<noteq> pObject sub + unat n" using assms(2) by auto
  then show ?thesis
    using assms(2) le by (auto simp: od_store_def Let_def chk_def wr_bytes_at)
qed

lemma od_store_full:
  assumes "length src = unat (ssize sub)"
  shows "rd_bytes (mem (od_store sub src (ssize sub) d)) (pObject sub) (unat (ssize sub)) = src"
  using assms rd_wr_bytes [of "mem d" "pObject sub" src] by (simp add: od_store_def Let_def chk_def)

lemma od_store_other:
  assumes "sub_apart sub sub'" "n \<le> ssize sub"
  shows "rd_bytes (mem (od_store sub src n d)) (pObject sub') (unat (ssize sub'))
       = rd_bytes (mem d) (pObject sub') (unat (ssize sub'))"
  using assms by (intro nth_equalityI) (auto intro!: od_store_mem_outside simp: sub_apart_def)

interpretation od: object_store "\<lambda>d. od_ok d \<and> od_disjoint d" od_view od_put
proof unfold_locales
  fix d k bs
  assume ok: "od_ok d \<and> od_disjoint d"
  then show "od_ok (od_put k bs d) \<and> od_disjoint (od_put k bs d)"
    by (auto simp: od_put_def od_ok_cong [of "od_store sub bs n d" d for sub n]
        od_disjoint_cong [of "od_store sub bs n d" d for sub n] split: option.split)
  fix old
  assume v: "od_view d k = Some old" and len: "length bs = length old"
  then obtain sub where sub: "od_obj d k = Some sub" and l: "length bs = unat (ssize sub)"
    by (auto simp: od_view_def)
  let ?d = "od_store sub bs (ssize sub) d"
  have put: "od_put k bs d = ?d" using sub by (simp add: od_put_def)
  show "od_view (od_put k bs d) = (od_view d)(k \<mapsto> bs)"
  proof
    fix k'
    have obj: "od_obj ?d k' = od_obj d k'" by (rule od_obj_cong) simp
    show "od_view (od_put k bs d) k' = ((od_view d)(k \<mapsto> bs)) k'"
    proof (cases "k' = k")
      case True
      then show ?thesis using put sub obj od_store_full [OF l, of d] by (simp add: od_view_def)
    next
      case False
      have "sub_apart sub y" if "od_obj d k' = Some y" for y
        using od_obj_apart [of d k sub k' y] ok sub that False by auto
      then show ?thesis
        using False put obj od_store_other [of sub _ "ssize sub" bs d]
        by (cases "od_obj d k'") (simp_all add: od_view_def)
    qed
  qed
qed

section \<open>Reads\<close>

lemma str_copy_takeWhile: "str_copy m a n = takeWhile (\<lambda>b. b \<noteq> 0) (rd_bytes m a n)"
proof (induction m a n rule: str_copy.induct)
  case (2 m a n)
  have "rd_bytes m a (Suc n) = m a # rd_bytes m (a + 1) n"
    by (rule nth_equalityI) (auto simp: nth_Cons')
  with 2 show ?case by auto
qed (simp add: rd_bytes_def)

lemma length_str_copy: "length (str_copy m a n) \<le> n"
  unfolding str_copy_takeWhile using length_takeWhile_le [of _ "rd_bytes m a n"] by simp

lemma str_copy_stop: "length (str_copy m a n) < n \<Longrightarrow> m (a + length (str_copy m a n)) = 0"
  by (induction m a n rule: str_copy.induct) (auto split: if_splits)

text \<open>The terminator that the read writes is already there, so a read never changes memory.\<close>

lemma getODentry_mem:
  "mem (snd (getODentry w s dest n ty ca d)) = mem d"
proof (cases "scanIndexOD d w")
  case (Some a)
  obtain i b where a: "a = (i, b)" by (cases a)
  let ?sub = "od_sub d i (unat s)"
  let ?lim = "unat (if n \<noteq> 0 then n else ssize ?sub)"
  let ?bs = "str_copy (mem d) (pObject ?sub) ?lim"
  have same: "(mem d)(pObject ?sub + length ?bs := 0) = mem d"
    if "ssize ?sub \<le> n" "of_nat (length ?bs) < ssize ?sub"
  proof -
    have "length ?bs \<le> ?lim" by (rule length_str_copy)
    moreover have "?lim < 2 ^ 32" using unsigned_less [of "if n \<noteq> 0 then n else ssize ?sub"] by simp
    ultimately have "unat (of_nat (length ?bs) :: UNS32) = length ?bs"
      by (simp add: unsigned_of_nat take_bit_nat_eq_self)
    with that have "length ?bs < ?lim" by (auto simp: word_less_nat_alt word_le_nat_alt)
    then have "mem d (pObject ?sub + length ?bs) = 0" by (rule str_copy_stop)
    then show ?thesis by (simp add: fun_upd_idem)
  qed
  show ?thesis
    using Some a same by (auto simp: getODentry_def Let_def chk_def not_less)
qed (simp add: getODentry_def)

lemma getODentry_state:
  "snd (getODentry w s dest n ty ca d) = d\<lparr>fault := fault (snd (getODentry w s dest n ty ca d))\<rparr>"
proof -
  let ?d = "snd (getODentry w s dest n ty ca d)"
  have "?d = d\<lparr>mem := mem ?d, fault := fault ?d\<rparr>"
    by (auto simp: getODentry_def Let_def chk_def split: option.split)
  then show ?thesis using getODentry_mem [of w s dest n ty ca d] by simp
qed

lemma getODentry_frame [simp]:
  "cfg (snd (getODentry w s dest n ty ca d)) = cfg d"
  "callbacks (snd (getODentry w s dest n ty ca d)) = callbacks d"
  "timers (snd (getODentry w s dest n ty ca d)) = timers d"
  "last_timer_raw (snd (getODentry w s dest n ty ca d)) = last_timer_raw d"
  "total_sleep_time (snd (getODentry w s dest n ty ca d)) = total_sleep_time d"
  "PDO_status (snd (getODentry w s dest n ty ca d)) = PDO_status d"
  "RxPDO_EventTimers (snd (getODentry w s dest n ty ca d)) = RxPDO_EventTimers d"
  "transfers (snd (getODentry w s dest n ty ca d)) = transfers d"
  "nodeState (snd (getODentry w s dest n ty ca d)) = nodeState d"
  "CurrentCommunicationState (snd (getODentry w s dest n ty ca d)) = CurrentCommunicationState d"
  "ConsumerHeartBeatTimers (snd (getODentry w s dest n ty ca d)) = ConsumerHeartBeatTimers d"
  "ProducerHeartBeatTimer (snd (getODentry w s dest n ty ca d)) = ProducerHeartBeatTimer d"
  "NMTable (snd (getODentry w s dest n ty ca d)) = NMTable d"
  "GuardTimeTimer (snd (getODentry w s dest n ty ca d)) = GuardTimeTimer d"
  "nodeGuardStatus (snd (getODentry w s dest n ty ca d)) = nodeGuardStatus d"
  "syncTimer (snd (getODentry w s dest n ty ca d)) = syncTimer d"
  "toggle (snd (getODentry w s dest n ty ca d)) = toggle d"
  "error_state (snd (getODentry w s dest n ty ca d)) = error_state d"
  "error_data (snd (getODentry w s dest n ty ca d)) = error_data d"
  "trace (snd (getODentry w s dest n ty ca d)) = trace d"
  "sent (snd (getODentry w s dest n ty ca d)) = sent d"
  by (simp_all add: getODentry_def Let_def chk_def sent_def split: option.split)

lemma getODentry_dest_length: "length (rdest (fst (getODentry w s (Some buf) n ty ca d))) = length buf"
  by (simp add: getODentry_def Let_def split: option.split)

lemma getODentry_fault:
  assumes "unat n \<le> length buf"
  shows "fault (snd (getODentry w s (Some buf) n ty ca d)) = fault d"
proof -
  have "length (str_copy m a (unat (if n \<noteq> 0 then n else x))) \<le> length buf" if "x \<le> n" for m a x
    using that length_str_copy [of m a "unat (if n \<noteq> 0 then n else x)"] assms
    by (auto simp: word_le_nat_alt split: if_splits)
  then show ?thesis
    using assms
    by (auto simp: getODentry_def Let_def chk_def not_less word_le_nat_alt split: option.split)
qed

lemma getODentry_ok:
  assumes obj: "od_obj d (w, s) = Some sub" and ty: "bDataType sub \<noteq> visible_string"
    and n: "ssize sub \<le> n" "unat n \<le> length buf" and ca: "\<not> ca \<or> bAccessType sub AND WO = 0"
  shows "getODentry w s (Some buf) n ty0 ca d =
    (\<lparr>rcode = OD_SUCCESSFUL, rsize = ssize sub, rtype = bDataType sub,
      rdest = put_list buf 0 (rd_bytes (mem d) (pObject sub) (unat (ssize sub)))\<rparr>, d)"
proof -
  obtain i b where i: "scanIndexOD d w = Some (i, b)" "s < bSubCount (od_entry d i)" "sub = od_sub d i (unat s)"
    using obj by (auto elim: od_obj_SomeE)
  have "unat (ssize sub) \<le> length buf" using n by (simp add: word_le_nat_alt)
  with i(1,2) i(3) [symmetric] ty n(1) ca show ?thesis
    by (auto simp: getODentry_def Let_def not_less not_le)
qed

text \<open>A read either copies the whole object, or is refused. For an object that is not
  a string the read succeeds exactly when the entry exists, may be read and fits the
  caller's buffer; then the first bytes of the buffer are the object's bytes. The node is never changed,
  and a buffer of the announced size is never overrun.\<close>

theorem getODentry_reads_object:
  assumes obj: "od_obj d (w, s) = Some sub" and ty: "bDataType sub \<noteq> visible_string"
    and buf: "unat n \<le> length buf"
    and r: "getODentry w s (Some buf) n ty0 ca d = (r, d')"
  shows "(rcode r = OD_SUCCESSFUL \<longleftrightarrow> ssize sub \<le> n \<and> (ca \<longrightarrow> bAccessType sub AND WO = 0))
    \<and> (rcode r = OD_SUCCESSFUL \<longrightarrow> rsize r = ssize sub \<and> rtype r = bDataType sub
         \<and> Some (take (unat (rsize r)) (rdest r)) = od_view d (w, s))
    \<and> (rcode r \<noteq> OD_SUCCESSFUL \<longrightarrow> rdest r = buf) \<and> d' = d"
proof -
  obtain i b where i: "scanIndexOD d w = Some (i, b)" "s < bSubCount (od_entry d i)" "sub = od_sub d i (unat s)"
    using obj by (auto elim: od_obj_SomeE)
  let ?bs = "rd_bytes (mem d) (pObject sub) (unat (ssize sub))"
  have r': "r = fst (getODentry w s (Some buf) n ty0 ca d)" "d' = snd (getODentry w s (Some buf) n ty0 ca d)"
    using r by simp_all
  have fit: "unat (ssize sub) \<le> length buf" if "ssize sub \<le> n"
    using that buf by (auto simp: word_le_nat_alt)
  have "take (unat (ssize sub)) (put_list buf 0 ?bs) = ?bs" if "ssize sub \<le> n"
    using fit [OF that] by (subst put_list_eq) auto
  then show ?thesis
    unfolding r' using i(1,2) i(3) [symmetric] ty fit obj
    by (auto simp: getODentry_def Let_def chk_def not_less od_view_def)
qed

end
