(* ===== verification/NodeInv.thy ===== *)
theory NodeInv
  imports Timers ObjAccess
begin

text \<open>
  The well-formedness of a node that every operation of the stack keeps: the timer
  table, the dictionary tables, the lengths of the fixed arrays, every stored timer
  handle and the SDO lines. Each component theory proves its operations keep it and adds
  the lemma to \<open>inv_intros\<close>.
\<close>

definition transfer_ok :: "s_transfer \<Rightarrow> bool" where
  "transfer_ok t \<longleftrightarrow> length (data t) = SDO_MAX_LENGTH_TRANSFER \<and> length (tmpData t) = 8
     \<and> handle_ok (timer t)"

definition pdo_ok :: "s_PDO_status \<Rightarrow> bool" where
  "pdo_ok p \<longleftrightarrow> handle_ok (event_timer p) \<and> handle_ok (inhibit_timer p) \<and> length (mdata (last_message p)) = 8"

text \<open>The number of transmit PDOs: table positions from the first to the last, none when the first is 0.\<close>

definition n_tpdo :: "od_config \<Rightarrow> nat" where
  "n_tpdo c = (if PDO_TRS (firstIndex c) = 0 then 0
     else unat (PDO_TRS (lastIndex c)) + 1 - unat (PDO_TRS (firstIndex c)))"

text \<open>
  The heartbeat consumer count is a variable that the dictionary may expose (1016h:0), so a PDO
  mapped to it can change it. That it does not exceed the timers reserved for it is a condition of
  its own, which the heartbeat properties ask for.
\<close>

definition hb_ok :: "CO_Data \<Rightarrow> bool" where
  "hb_ok d \<longleftrightarrow> unat (mem d (ConsumerHeartbeatCount (cfg d))) \<le> length (ConsumerHeartBeatTimers d)"

definition handles_ok :: "CO_Data \<Rightarrow> bool" where
  "handles_ok d \<longleftrightarrow> handle_ok (ProducerHeartBeatTimer d) \<and> handle_ok (GuardTimeTimer d)
     \<and> handle_ok (syncTimer d) \<and> list_all handle_ok (ConsumerHeartBeatTimers d)
     \<and> (\<forall>hs. RxPDO_EventTimers d = Some hs \<longrightarrow> list_all handle_ok hs)"

definition arrays_ok :: "CO_Data \<Rightarrow> bool" where
  "arrays_ok d \<longleftrightarrow> length (NMTable d) = NMT_MAX_NODE_ID \<and> length (nodeGuardStatus d) = NMT_MAX_NODE_ID
     \<and> length (error_data d) = EMCY_MAX_ERRORS
     \<and> length (transfers d) = SDO_MAX_SIMULTANEOUS_TRANSFERS \<and> list_all transfer_ok (transfers d)
     \<and> list_all pdo_ok (PDO_status d) \<and> n_tpdo (cfg d) \<le> length (PDO_status d)"

definition node_ok :: "CO_Data \<Rightarrow> bool" where
  "node_ok d \<longleftrightarrow> timers_ok d \<and> od_ok d \<and> handles_ok d \<and> arrays_ok d"

lemmas node_ok_defs = node_ok_def handles_ok_def arrays_ok_def

text \<open>Updates of fields that the invariant does not read.\<close>

lemma node_ok_upd [simp]:
  "node_ok (d\<lparr>total_sleep_time := x1\<rparr>) = node_ok d"
  "node_ok (d\<lparr>nodeState := x2\<rparr>) = node_ok d"
  "node_ok (d\<lparr>CurrentCommunicationState := x3\<rparr>) = node_ok d"
  "node_ok (d\<lparr>toggle := x4\<rparr>) = node_ok d"
  "node_ok (d\<lparr>dcf_odentry := x5\<rparr>) = node_ok d"
  "node_ok (d\<lparr>dcf_cursor := x6\<rparr>) = node_ok d"
  "node_ok (d\<lparr>dcf_entries_count := x7\<rparr>) = node_ok d"
  "node_ok (d\<lparr>dcf_status := x8\<rparr>) = node_ok d"
  "node_ok (d\<lparr>dcf_size := x9\<rparr>) = node_ok d"
  "node_ok (d\<lparr>dcf_data := x10\<rparr>) = node_ok d"
  "node_ok (d\<lparr>error_state := x11\<rparr>) = node_ok d"
  "node_ok (d\<lparr>trace := x12\<rparr>) = node_ok d"
  "node_ok (d\<lparr>fault := x13\<rparr>) = node_ok d"
  by (simp_all add: node_ok_defs timers_ok_def od_ok_def scanIndexOD_def od_entry_def)

lemma node_ok_emit [simp]: "node_ok (emit e d) = node_ok d"
  by (simp add: emit_def)

lemma node_ok_chk [simp]: "node_ok (chk b d) = node_ok d"
  by (simp add: chk_def)

lemma node_ok_canSend [simp]: "node_ok (snd (canSend m d)) = node_ok d"
  by (simp add: canSend_def)

lemma node_ok_setTimer [simp]: "node_ok (setTimer v d) = node_ok d"
  by (simp add: setTimer_def)

text \<open>Updates of one checked field.\<close>

lemma node_ok_handle_upd:
  assumes "node_ok d" "handle_ok h"
  shows "node_ok (d\<lparr>ProducerHeartBeatTimer := h\<rparr>)" "node_ok (d\<lparr>GuardTimeTimer := h\<rparr>)"
    "node_ok (d\<lparr>syncTimer := h\<rparr>)"
  using assms by (simp_all add: node_ok_defs timers_ok_def od_ok_def scanIndexOD_def od_entry_def)

lemma node_ok_consumer_upd:
  assumes "node_ok d" "handle_ok h"
  shows "node_ok (d\<lparr>ConsumerHeartBeatTimers := (ConsumerHeartBeatTimers d)[i := h]\<rparr>)"
  using assms
  by (simp add: node_ok_defs timers_ok_def od_ok_def scanIndexOD_def od_entry_def list_all_update)

lemma node_ok_rxtimers_upd:
  assumes "node_ok d" "handle_ok h" "RxPDO_EventTimers d = Some hs"
  shows "node_ok (d\<lparr>RxPDO_EventTimers := Some (hs[i := h])\<rparr>)"
  using assms
  by (simp add: node_ok_defs timers_ok_def od_ok_def scanIndexOD_def od_entry_def list_all_update)

lemma node_ok_nmt_upd:
  "node_ok d \<Longrightarrow> length xs = NMT_MAX_NODE_ID \<Longrightarrow> node_ok (d\<lparr>NMTable := xs\<rparr>)"
  "node_ok d \<Longrightarrow> length xs = NMT_MAX_NODE_ID \<Longrightarrow> node_ok (d\<lparr>nodeGuardStatus := xs\<rparr>)"
  by (simp_all add: node_ok_defs timers_ok_def od_ok_def scanIndexOD_def od_entry_def)

lemma node_ok_pdo_upd:
  assumes "node_ok d" "pdo_ok p"
  shows "node_ok (d\<lparr>PDO_status := (PDO_status d)[i := p]\<rparr>)"
  using assms
  by (simp add: node_ok_defs timers_ok_def od_ok_def scanIndexOD_def od_entry_def list_all_update)

lemma node_ok_transfer_upd:
  assumes "node_ok d" "transfer_ok t"
  shows "node_ok (d\<lparr>transfers := (transfers d)[i := t]\<rparr>)"
  using assms
  by (simp add: node_ok_defs timers_ok_def od_ok_def scanIndexOD_def od_entry_def list_all_update)

lemma node_ok_error_data_upd:
  "node_ok d \<Longrightarrow> length es = EMCY_MAX_ERRORS \<Longrightarrow> node_ok (d\<lparr>error_data := es\<rparr>)"
  by (simp add: node_ok_defs timers_ok_def od_ok_def scanIndexOD_def od_entry_def)

lemma node_ok_callbacks_upd:
  assumes ok: "node_ok d" and len: "length cbs = length (callbacks d ! k)"
  shows "node_ok (d\<lparr>callbacks := (callbacks d)[k := cbs]\<rparr>)"
proof -
  have "length ((callbacks d)[k := cbs] ! i) = length (callbacks d ! i)" for i
    using len by (cases "k < length (callbacks d)") (auto simp: nth_list_update list_update_beyond)
  then have "od_ok (d\<lparr>callbacks := (callbacks d)[k := cbs]\<rparr>)"
    using ok by (simp add: node_ok_def od_ok_def scanIndexOD_def od_entry_def)
  with ok show ?thesis by (simp add: node_ok_defs timers_ok_def)
qed

text \<open>The memory behind the dictionary is not constrained.\<close>

lemma node_ok_mem_upd [simp]: "node_ok (d\<lparr>mem := m\<rparr>) = node_ok d"
  by (simp add: node_ok_defs timers_ok_def od_ok_def scanIndexOD_def od_entry_def)

lemma od_store_node_ok [simp]: "node_ok (od_store sub src n d) = node_ok d"
  by (simp add: od_store_def Let_def)

text \<open>The timer and dictionary operations keep the invariant.\<close>

lemma SetAlarm_node_ok [simp, inv_intros]: "node_ok d \<Longrightarrow> node_ok (snd (SetAlarm i cb v p d))"
  unfolding node_ok_def handles_ok_def arrays_ok_def
  by (simp add: od_ok_cong [of "snd (SetAlarm i cb v p d)" d])

lemma DelAlarm_node_ok [simp, inv_intros]: "node_ok d \<Longrightarrow> node_ok (snd (DelAlarm h d))"
  unfolding node_ok_def handles_ok_def arrays_ok_def
  by (simp add: od_ok_cong [of "snd (DelAlarm h d)" d])

lemma Register_node_ok [simp, inv_intros]:
  "node_ok d \<Longrightarrow> node_ok (snd (RegisterSetODentryCallBack w s cb d))"
  unfolding node_ok_def handles_ok_def arrays_ok_def
  by (simp add: timers_ok_cong [of "snd (RegisterSetODentryCallBack w s cb d)" d])

lemma getODentry_node_ok [simp, inv_intros]:
  "node_ok d \<Longrightarrow> node_ok (snd (getODentry w s dest n ty ca d))"
  unfolding node_ok_def handles_ok_def arrays_ok_def
  by (simp add: timers_ok_cong [of "snd (getODentry w s dest n ty ca d)" d]
      od_ok_cong [of "snd (getODentry w s dest n ty ca d)" d] getODentry_mem)

text \<open>Loops over an index list keep what their body keeps.\<close>

lemma fold_keeps:
  "P d \<Longrightarrow> (\<And>x e. x \<in> set xs \<Longrightarrow> P e \<Longrightarrow> P (f x e)) \<Longrightarrow> P (fold f xs d)"
  by (induction xs arbitrary: d) auto

text \<open>Consequences of the invariant that the component proofs use.\<close>

lemma node_ok_handles:
  assumes "node_ok d"
  shows "handle_ok (ProducerHeartBeatTimer d)" "handle_ok (GuardTimeTimer d)" "handle_ok (syncTimer d)"
    "i < length (ConsumerHeartBeatTimers d) \<Longrightarrow> handle_ok (ConsumerHeartBeatTimers d ! i)"
    "i < length (PDO_status d) \<Longrightarrow> pdo_ok (PDO_status d ! i)"
    "i < length (transfers d) \<Longrightarrow> transfer_ok (transfers d ! i)"
  using assms by (auto simp: node_ok_defs list_all_length)

lemma hb_ok_consumer:
  "hb_ok d \<Longrightarrow> i < unat (mem d (ConsumerHeartbeatCount (cfg d))) \<Longrightarrow> i < length (ConsumerHeartBeatTimers d)"
  by (simp add: hb_ok_def)

lemma node_ok_lengths [simp]:
  assumes "node_ok d"
  shows "length (NMTable d) = NMT_MAX_NODE_ID" "length (nodeGuardStatus d) = NMT_MAX_NODE_ID"
    "length (error_data d) = EMCY_MAX_ERRORS" "length (transfers d) = SDO_MAX_SIMULTANEOUS_TRANSFERS"
    "length (timers d) = MAX_NB_TIMER"
  using assms by (simp_all add: node_ok_defs timers_ok_def)

lemma node_ok_n_tpdo: "node_ok d \<Longrightarrow> n_tpdo (cfg d) \<le> length (PDO_status d)"
  unfolding node_ok_def arrays_ok_def by blast

end
