(* ===== verification/NodeData.thy ===== *)
theory NodeData
  imports NodeInv
begin

text \<open>
  The initial value of a node, the macro \<open>CANOPEN_NODE_DATA_INITIALIZER\<close> of \<^verbatim>\<open>CanFestival/inc/data.h\<close>, over the tables that a
  generated dictionary provides, and the memory image behind those tables. Shown here: which
  tables make the initial node well formed.
\<close>

text \<open>Memory with the given bytes at the given addresses and 0 elsewhere.\<close>

definition place :: "addr \<Rightarrow> UNS8 list \<Rightarrow> (addr \<times> UNS8) list" where
  "place a bs = zip [a..<a + length bs] bs"

definition mem_of :: "(addr \<times> UNS8) list \<Rightarrow> memory" where
  "mem_of img a = (case map_of img a of None \<Rightarrow> 0 | Some b \<Rightarrow> b)"

definition sub :: "UNS8 \<Rightarrow> UNS8 \<Rightarrow> UNS32 \<Rightarrow> addr \<Rightarrow> subindex" where
  "sub access ty sz a = \<lparr>bAccessType = access, bDataType = ty, ssize = sz, pObject = a\<rparr>"

definition od_row :: "subindex list \<Rightarrow> UNS16 \<Rightarrow> indextable" where
  "od_row subs i = \<lparr>pSubindex = subs, bSubCount = of_nat (length subs), oindex = i\<rparr>"

text \<open>
  The number of times that \<open>REPEAT_NMT_MAX_NODE_ID_TIMES\<close> of \<^verbatim>\<open>stm32/config.h\<close> repeats its argument; the rest of the table is
  filled with 0 by the language.
\<close>

definition NMT_REPEATS :: nat where
  "NMT_REPEATS = 42"

definition ERROR_DATA_INITIALIZER :: s_errors where
  "ERROR_DATA_INITIALIZER = \<lparr>errCode = 0, errRegMask = 0, active = 0\<rparr>"

definition CANOPEN_NODE_DATA_INITIALIZER ::
    "od_config \<Rightarrow> memory \<Rightarrow> od_cb option list list \<Rightarrow> s_PDO_status list \<Rightarrow> TIMER_HANDLE list \<Rightarrow> CO_Data" where
  "CANOPEN_NODE_DATA_INITIALIZER c m cbs pdos hbs =
     \<lparr> cfg = c, mem = m, callbacks = cbs,
       timers = replicate MAX_NB_TIMER \<lparr>tstate = TIMER_FREE, tcallback = None, tid = 0, tval = 0, tinterval = 0\<rparr>,
       total_sleep_time = TIMEVAL_MAX, last_timer_raw = -1,
       PDO_status = pdos, RxPDO_EventTimers = None,
       transfers = replicate SDO_MAX_SIMULTANEOUS_TRANSFERS s_transfer_Initializer,
       nodeState = Unknown_state,
       CurrentCommunicationState = \<lparr>csBoot_Up = False, csSDO = False, csEmergency = False, csSYNC = False,
         csLifeGuard = False, csPDO = False, csLSS = False\<rparr>,
       ConsumerHeartBeatTimers = hbs, ProducerHeartBeatTimer = TIMER_NONE,
       NMTable = replicate NMT_REPEATS Unknown_state @ replicate (NMT_MAX_NODE_ID - NMT_REPEATS) 0,
       GuardTimeTimer = TIMER_NONE, nodeGuardStatus = replicate NMT_MAX_NODE_ID 0,
       syncTimer = TIMER_NONE, toggle = 0,
       dcf_odentry = None, dcf_cursor = 0, dcf_entries_count = 1, dcf_status = 0, dcf_size = 0, dcf_data = 0,
       error_state = Error_free, error_data = replicate EMCY_MAX_ERRORS ERROR_DATA_INITIALIZER,
       trace = [], fault = False \<rparr>"

section \<open>Well-formed tables\<close>

text \<open>Subentries at increasing addresses do not overlap.\<close>

definition sub_before :: "subindex \<Rightarrow> subindex \<Rightarrow> bool" where
  "sub_before x y \<longleftrightarrow> pObject x + unat (ssize x) \<le> pObject y"

lemma transp_sub_before: "transp sub_before"
  by (rule transpI) (simp add: sub_before_def)

lemma ascending_disjoint:
  assumes "successively sub_before (concat (map pSubindex (objdict (cfg d))))"
  shows "od_disjoint d"
proof -
  have "sorted_wrt sub_before (concat (map pSubindex (objdict (cfg d))))"
    using assms transp_sub_before by (simp add: successively_iff_sorted_wrt_strong transp_onI transpD)
  then show ?thesis
    unfolding od_disjoint_def by (rule sorted_wrt_mono_rel [rotated]) (simp add: sub_before_def sub_apart_def)
qed

lemma node_ok_initial:
  assumes "od_ok (CANOPEN_NODE_DATA_INITIALIZER c m cbs pdos hbs)" "list_all pdo_ok pdos" "n_tpdo c \<le> length pdos"
    "list_all handle_ok hbs"
  shows "node_ok (CANOPEN_NODE_DATA_INITIALIZER c m cbs pdos hbs)"
  using assms
  by (simp add: node_ok_def handles_ok_def arrays_ok_def CANOPEN_NODE_DATA_INITIALIZER_def timers_ok_def
      transfer_ok_def s_transfer_Initializer_def handle_ok_def NMT_REPEATS_def)

lemma pdo_ok_Initializer [simp]: "pdo_ok s_PDO_status_Initializer"
  by (simp add: pdo_ok_def s_PDO_status_Initializer_def handle_ok_def Message_Initializer_def)

lemma initial_fields [simp]:
  "cfg (CANOPEN_NODE_DATA_INITIALIZER c m cbs pdos hbs) = c" "mem (CANOPEN_NODE_DATA_INITIALIZER c m cbs pdos hbs) = m"
  "callbacks (CANOPEN_NODE_DATA_INITIALIZER c m cbs pdos hbs) = cbs"
  "PDO_status (CANOPEN_NODE_DATA_INITIALIZER c m cbs pdos hbs) = pdos"
  by (simp_all add: CANOPEN_NODE_DATA_INITIALIZER_def)

lemma od_ok_table:
  assumes "length (callbacks d) = length (objdict (cfg d))"
    and "list_all (\<lambda>e. length (pSubindex e) = unat (bSubCount e)) (objdict (cfg d))"
    and scan: "scanIndexOD_f (cfg d) = map_of (zip (map oindex (objdict (cfg d))) (zip [0..<length (objdict (cfg d))] hs))"
    and "length hs = length (objdict (cfg d))"
    and "list_all (\<lambda>(e, cb, h). h \<longrightarrow> length cb = unat (bSubCount e)) (zip (objdict (cfg d)) (zip (callbacks d) hs))"
  shows "od_ok d"
proof -
  have "i < length (objdict (cfg d)) \<and> oindex (od_entry d i) = w
      \<and> (b \<longrightarrow> length (callbacks d ! i) = unat (bSubCount (od_entry d i)))" if s: "scanIndexOD d w = Some (i, b)" for w i b
  proof -
    have "(w, (i, b)) \<in> set (zip (map oindex (objdict (cfg d))) (zip [0..<length (objdict (cfg d))] hs))"
      using s unfolding scanIndexOD_def scan by (rule map_of_SomeD)
    then obtain k where k: "k < length (objdict (cfg d))" "w = oindex (objdict (cfg d) ! k)" "i = k" "b = hs ! k"
      using assms(4) by (auto simp: set_zip)
    with assms(1,4,5) show ?thesis by (auto simp: od_entry_def list_all_length)
  qed
  with assms(1,2) show ?thesis by (auto simp: od_ok_def list_all_iff)
qed

end
