(* ===== verification/TestSlave.thy ===== *)
theory TestSlave
  imports NodeData
begin

text \<open>
  The generated dictionary \<^verbatim>\<open>CanFestival/drive/TestSlave.c\<close>: five transmit PDOs, two SDO servers, no SDO client. Every
  variable has an address of its own in ascending order of the dictionary, aligned to its size; the source leaves
  the placement to the linker. \<open>TestSlave_image\<close> holds the initial values. Shown here: the
  dictionary is well formed and its objects do not overlap.
\<close>

definition TestSlave_valueRangeTest :: "UNS8 \<Rightarrow> UNS8 list \<Rightarrow> UNS32" where
  "TestSlave_valueRangeTest typeValue v =
     (if typeValue = 0x9F then if v ! 0 \<noteq> 0 then OD_VALUE_RANGE_EXCEEDED else 0 else 0)"

definition TestSlave_Index1000 :: "subindex list" where
  "TestSlave_Index1000 =
     [ sub RO 0x07 4 16 ]"

definition TestSlave_Index1001 :: "subindex list" where
  "TestSlave_Index1001 =
     [ sub RO 0x05 1 20 ]"

definition TestSlave_Index1003 :: "subindex list" where
  "TestSlave_Index1003 =
     [ sub RW 0x9F 1 21,
       sub RO 0x07 4 24,
       sub RO 0x07 4 28,
       sub RO 0x07 4 32,
       sub RO 0x07 4 36,
       sub RO 0x07 4 40,
       sub RO 0x07 4 44,
       sub RO 0x07 4 48,
       sub RO 0x07 4 52 ]"

definition TestSlave_Index1005 :: "subindex list" where
  "TestSlave_Index1005 =
     [ sub RW 0x07 4 56 ]"

definition TestSlave_Index1006 :: "subindex list" where
  "TestSlave_Index1006 =
     [ sub RW 0x07 4 60 ]"

definition TestSlave_Index1010 :: "subindex list" where
  "TestSlave_Index1010 =
     [ sub RO 0x05 1 64,
       sub RW 0x07 4 68,
       sub RW 0x07 4 72,
       sub RW 0x07 4 76,
       sub RW 0x07 4 80 ]"

definition TestSlave_Index1011 :: "subindex list" where
  "TestSlave_Index1011 =
     [ sub RO 0x05 1 84,
       sub RW 0x07 4 88,
       sub RW 0x07 4 92,
       sub RW 0x07 4 96,
       sub RW 0x07 4 100 ]"

definition TestSlave_Index1014 :: "subindex list" where
  "TestSlave_Index1014 =
     [ sub RW 0x07 4 104 ]"

definition TestSlave_Index1017 :: "subindex list" where
  "TestSlave_Index1017 =
     [ sub RW 0x06 2 108 ]"

definition TestSlave_Index1018 :: "subindex list" where
  "TestSlave_Index1018 =
     [ sub RO 0x05 1 110,
       sub RO 0x07 4 112,
       sub RO 0x07 4 116,
       sub RO 0x07 4 120,
       sub RO 0x07 4 124 ]"

definition TestSlave_Index1200 :: "subindex list" where
  "TestSlave_Index1200 =
     [ sub RO 0x05 1 128,
       sub RO 0x07 4 132,
       sub RO 0x07 4 136 ]"

definition TestSlave_Index1201 :: "subindex list" where
  "TestSlave_Index1201 =
     [ sub RO 0x05 1 140,
       sub RO 0x07 4 144,
       sub RO 0x07 4 148,
       sub RO 0x05 1 152 ]"

definition TestSlave_Index1800 :: "subindex list" where
  "TestSlave_Index1800 =
     [ sub RO 0x05 1 153,
       sub RW 0x07 4 156,
       sub (RW OR TO_BE_SAVE) 0x05 1 160,
       sub (RW OR TO_BE_SAVE) 0x06 2 162,
       sub RW 0x05 1 164,
       sub RW 0x06 2 166 ]"

definition TestSlave_Index1801 :: "subindex list" where
  "TestSlave_Index1801 =
     [ sub RO 0x05 1 168,
       sub RW 0x07 4 172,
       sub RW 0x05 1 176,
       sub RW 0x06 2 178,
       sub RW 0x05 1 180,
       sub RW 0x06 2 182 ]"

definition TestSlave_Index1802 :: "subindex list" where
  "TestSlave_Index1802 =
     [ sub RO 0x05 1 184,
       sub RW 0x07 4 188,
       sub RW 0x05 1 192,
       sub RW 0x06 2 194,
       sub RW 0x05 1 196,
       sub RW 0x06 2 198 ]"

definition TestSlave_Index1803 :: "subindex list" where
  "TestSlave_Index1803 =
     [ sub RO 0x05 1 200,
       sub RW 0x07 4 204,
       sub RW 0x05 1 208,
       sub RW 0x06 2 210,
       sub RW 0x05 1 212,
       sub RW 0x06 2 214 ]"

definition TestSlave_Index1804 :: "subindex list" where
  "TestSlave_Index1804 =
     [ sub RO 0x05 1 216,
       sub RW 0x07 4 220,
       sub RW 0x05 1 224,
       sub RW 0x06 2 226,
       sub RW 0x05 1 228,
       sub RW 0x06 2 230 ]"

definition TestSlave_Index1A00 :: "subindex list" where
  "TestSlave_Index1A00 =
     [ sub RW 0x05 1 232,
       sub RW 0x07 4 236,
       sub RW 0x07 4 240,
       sub RW 0x07 4 244,
       sub RW 0x07 4 248,
       sub RW 0x07 4 252,
       sub RW 0x07 4 256,
       sub RW 0x07 4 260,
       sub RW 0x07 4 264,
       sub RW 0x07 4 268,
       sub RW 0x07 4 272 ]"

definition TestSlave_Index1A01 :: "subindex list" where
  "TestSlave_Index1A01 =
     [ sub RW 0x05 1 276,
       sub RW 0x07 4 280 ]"

definition TestSlave_Index1A02 :: "subindex list" where
  "TestSlave_Index1A02 =
     [ sub RW 0x05 1 284,
       sub RW 0x07 4 288 ]"

definition TestSlave_Index1A03 :: "subindex list" where
  "TestSlave_Index1A03 =
     [ sub RW 0x05 1 292,
       sub RW 0x07 4 296 ]"

definition TestSlave_Index1A04 :: "subindex list" where
  "TestSlave_Index1A04 =
     [ sub RW 0x05 1 300,
       sub RW 0x07 4 304 ]"

definition TestSlave_Index20F0 :: "subindex list" where
  "TestSlave_Index20F0 =
     [ sub RO 0x05 1 308,
       sub RW 0x06 2 310,
       sub RW 0x06 2 312,
       sub RW 0x06 2 314,
       sub RW 0x06 2 316,
       sub RW 0x06 2 318,
       sub RW 0x06 2 320,
       sub RW 0x06 2 322,
       sub RW 0x06 2 324,
       sub RW 0x06 2 326,
       sub RW 0x06 2 328,
       sub RW 0x06 2 330,
       sub RW 0x06 2 332,
       sub RW 0x06 2 334,
       sub RW 0x06 2 336,
       sub RW 0x06 2 338,
       sub RW 0x06 2 340,
       sub RW 0x06 2 342,
       sub RW 0x06 2 344,
       sub RW 0x06 2 346,
       sub RW 0x06 2 348,
       sub RW 0x06 2 350,
       sub RW 0x06 2 352,
       sub RW 0x06 2 354,
       sub RW 0x06 2 356 ]"

definition TestSlave_objdict :: "indextable list" where
  "TestSlave_objdict =
     [ od_row TestSlave_Index1000 0x1000,
       od_row TestSlave_Index1001 0x1001,
       od_row TestSlave_Index1003 0x1003,
       od_row TestSlave_Index1005 0x1005,
       od_row TestSlave_Index1006 0x1006,
       od_row TestSlave_Index1010 0x1010,
       od_row TestSlave_Index1011 0x1011,
       od_row TestSlave_Index1014 0x1014,
       od_row TestSlave_Index1017 0x1017,
       od_row TestSlave_Index1018 0x1018,
       od_row TestSlave_Index1200 0x1200,
       od_row TestSlave_Index1201 0x1201,
       od_row TestSlave_Index1800 0x1800,
       od_row TestSlave_Index1801 0x1801,
       od_row TestSlave_Index1802 0x1802,
       od_row TestSlave_Index1803 0x1803,
       od_row TestSlave_Index1804 0x1804,
       od_row TestSlave_Index1A00 0x1A00,
       od_row TestSlave_Index1A01 0x1A01,
       od_row TestSlave_Index1A02 0x1A02,
       od_row TestSlave_Index1A03 0x1A03,
       od_row TestSlave_Index1A04 0x1A04,
       od_row TestSlave_Index20F0 0x20F0 ]"

definition TestSlave_scanIndexOD :: "UNS16 \<Rightarrow> (nat \<times> bool) option" where
  "TestSlave_scanIndexOD = map_of
     [ (0x1000, 0, False),
       (0x1001, 1, False),
       (0x1003, 2, True),
       (0x1005, 3, True),
       (0x1006, 4, True),
       (0x1010, 5, True),
       (0x1011, 6, True),
       (0x1014, 7, False),
       (0x1017, 8, True),
       (0x1018, 9, False),
       (0x1200, 10, False),
       (0x1201, 11, False),
       (0x1800, 12, True),
       (0x1801, 13, True),
       (0x1802, 14, True),
       (0x1803, 15, True),
       (0x1804, 16, True),
       (0x1A00, 17, False),
       (0x1A01, 18, False),
       (0x1A02, 19, False),
       (0x1A03, 20, False),
       (0x1A04, 21, False),
       (0x20F0, 22, True) ]"

text \<open>One callback array per dictionary entry, empty where the source passes a null pointer.\<close>

definition TestSlave_callbacks :: "od_cb option list list" where
  "TestSlave_callbacks =
     [ [],
       [],
       replicate 9 None,
       replicate 1 None,
       replicate 1 None,
       replicate 5 None,
       replicate 5 None,
       [],
       replicate 1 None,
       [],
       [],
       [],
       replicate 6 None,
       replicate 6 None,
       replicate 6 None,
       replicate 6 None,
       replicate 6 None,
       [],
       [],
       [],
       [],
       [],
       replicate 25 None ]"

definition TestSlave_firstIndex :: quick_index where
  "TestSlave_firstIndex = \<lparr>SDO_SVR = 10, SDO_CLT = 0, PDO_RCV = 0, PDO_RCV_MAP = 0, PDO_TRS = 12, PDO_TRS_MAP = 17\<rparr>"

definition TestSlave_lastIndex :: quick_index where
  "TestSlave_lastIndex = \<lparr>SDO_SVR = 11, SDO_CLT = 0, PDO_RCV = 0, PDO_RCV_MAP = 0, PDO_TRS = 16, PDO_TRS_MAP = 21\<rparr>"

definition TestSlave_PDO_status :: "s_PDO_status list" where
  "TestSlave_PDO_status = replicate 5 s_PDO_status_Initializer"

text \<open>The initial values of the variables that do not start as 0.\<close>

definition TestSlave_image :: "(addr \<times> UNS8) list" where
  "TestSlave_image =
     concat [ place 16 (bytes32 0x12D),
       place 56 (bytes32 0x80),
       place 64 [0x4],
       place 84 [0x4],
       place 104 (bytes32 0x80),
       place 110 [0x4],
       place 112 (bytes32 0x12345678),
       place 116 (bytes32 0x90123456),
       place 120 (bytes32 0x78901234),
       place 124 (bytes32 0x56789012),
       place 128 [0x2],
       place 132 (bytes32 0x600),
       place 136 (bytes32 0x580),
       place 140 [0x3],
       place 153 [0x5],
       place 156 (bytes32 0x180),
       place 168 [0x5],
       place 172 (bytes32 0x280),
       place 184 [0x5],
       place 188 (bytes32 0x380),
       place 192 [0xFF],
       place 194 (bytes16 0x1388),
       place 198 (bytes16 0x3E8),
       place 200 [0x5],
       place 204 (bytes32 0x480),
       place 208 [0xFC],
       place 216 [0x5],
       place 220 (bytes32 0x401),
       place 224 [0xFD],
       place 232 [0xA],
       place 276 [0x1],
       place 284 [0x1],
       place 292 [0x1],
       place 300 [0x1],
       place 308 [0x18] ]"

definition TestSlave_config :: od_config where
  "TestSlave_config =
     \<lparr> objdict = TestSlave_objdict, firstIndex = TestSlave_firstIndex, lastIndex = TestSlave_lastIndex,
       iam_a_slave = 1, valueRangeTest = TestSlave_valueRangeTest, scanIndexOD_f = TestSlave_scanIndexOD,
       bDeviceNodeId = 358, ConsumerHeartbeatCount = 363, ConsumerHeartbeatEntries = 364,
       ProducerHeartBeatTime = 108, GuardTime = 360, LifeTimeFactor = 362,
       COB_ID_Sync = 56, Sync_Cycle_Period = 60,
       error_history_size = 8, error_number = 21, error_first_element = 24, error_register = 20,
       error_cobid = 104, stack_junk = replicate 8 0 \<rparr>"

definition TestSlave_Data :: CO_Data where
  "TestSlave_Data = CANOPEN_NODE_DATA_INITIALIZER TestSlave_config (mem_of TestSlave_image) TestSlave_callbacks TestSlave_PDO_status [0]"

section \<open>Well-formedness\<close>

lemmas TestSlave_defs = TestSlave_Index1000_def TestSlave_Index1001_def TestSlave_Index1003_def TestSlave_Index1005_def
  TestSlave_Index1006_def TestSlave_Index1010_def TestSlave_Index1011_def TestSlave_Index1014_def TestSlave_Index1017_def
  TestSlave_Index1018_def TestSlave_Index1200_def TestSlave_Index1201_def TestSlave_Index1800_def TestSlave_Index1801_def
  TestSlave_Index1802_def TestSlave_Index1803_def TestSlave_Index1804_def TestSlave_Index1A00_def TestSlave_Index1A01_def
  TestSlave_Index1A02_def TestSlave_Index1A03_def TestSlave_Index1A04_def TestSlave_Index20F0_def
  TestSlave_objdict_def sub_def od_row_def

lemma TestSlave_config_fields [simp]:
  "objdict TestSlave_config = TestSlave_objdict" "scanIndexOD_f TestSlave_config = TestSlave_scanIndexOD"
  "firstIndex TestSlave_config = TestSlave_firstIndex" "lastIndex TestSlave_config = TestSlave_lastIndex"
  by (simp_all add: TestSlave_config_def)

lemma TestSlave_od_ok: "od_ok TestSlave_Data"
proof (rule od_ok_table)
  let ?hs = "map (\<lambda>i. i \<in> {2, 3, 4, 5, 6, 8, 12, 13, 14, 15, 16, 22}) [0..<23]"
  show "length (callbacks TestSlave_Data) = length (objdict (cfg TestSlave_Data))"
    by (simp add: TestSlave_Data_def TestSlave_callbacks_def TestSlave_objdict_def)
  show "list_all (\<lambda>e. length (pSubindex e) = unat (bSubCount e)) (objdict (cfg TestSlave_Data))"
    by (simp add: TestSlave_Data_def TestSlave_defs)
  show "scanIndexOD_f (cfg TestSlave_Data) = map_of (zip (map oindex (objdict (cfg TestSlave_Data)))
      (zip [0..<length (objdict (cfg TestSlave_Data))] ?hs))"
    by (simp add: TestSlave_Data_def TestSlave_scanIndexOD_def TestSlave_objdict_def od_row_def upt_rec eval_nat_numeral)
  show "length ?hs = length (objdict (cfg TestSlave_Data))"
    by (simp add: TestSlave_Data_def TestSlave_objdict_def)
  show "list_all (\<lambda>(e, cb, h). h \<longrightarrow> length cb = unat (bSubCount e))
      (zip (objdict (cfg TestSlave_Data)) (zip (callbacks TestSlave_Data) ?hs))"
    by (simp add: TestSlave_Data_def TestSlave_callbacks_def TestSlave_defs upt_rec)
qed

lemma TestSlave_disjoint: "od_disjoint TestSlave_Data"
  by (rule ascending_disjoint) (simp add: TestSlave_Data_def TestSlave_defs sub_before_def)

lemma TestSlave_node_ok: "node_ok TestSlave_Data"
  unfolding TestSlave_Data_def
proof (rule node_ok_initial)
  show "od_ok (CANOPEN_NODE_DATA_INITIALIZER TestSlave_config (mem_of TestSlave_image) TestSlave_callbacks TestSlave_PDO_status [0])"
    using TestSlave_od_ok by (simp add: TestSlave_Data_def)
qed (simp_all add: TestSlave_PDO_status_def list_all_length n_tpdo_def TestSlave_firstIndex_def TestSlave_lastIndex_def handle_ok_def)

end
