(* ===== verification/TestMaster.thy ===== *)
theory TestMaster
  imports NodeData
begin

text \<open>
  The generated dictionary \<^verbatim>\<open>CanFestival/drive/TestMaster.c\<close>: four receive PDOs, an SDO client, a SYNC producer, a heartbeat consumer and a concise DCF for node 1. Every
  variable has an address of its own in ascending order of the dictionary, aligned to its size; the source leaves
  the placement to the linker. \<open>TestMaster_image\<close> holds the initial values. Shown here: the
  dictionary is well formed and its objects do not overlap.
\<close>

definition TestMaster_valueRangeTest :: "UNS8 \<Rightarrow> UNS8 list \<Rightarrow> UNS32" where
  "TestMaster_valueRangeTest typeValue v =
     (if typeValue = 0x9F then if v ! 0 \<noteq> 0 then OD_VALUE_RANGE_EXCEEDED else 0 else 0)"

definition TestMaster_Index1000 :: "subindex list" where
  "TestMaster_Index1000 =
     [ sub RO 0x07 4 16 ]"

definition TestMaster_Index1001 :: "subindex list" where
  "TestMaster_Index1001 =
     [ sub RO 0x05 1 20 ]"

definition TestMaster_Index1005 :: "subindex list" where
  "TestMaster_Index1005 =
     [ sub RW 0x07 4 24 ]"

definition TestMaster_Index1006 :: "subindex list" where
  "TestMaster_Index1006 =
     [ sub RW 0x07 4 28 ]"

definition TestMaster_Index1010 :: "subindex list" where
  "TestMaster_Index1010 =
     [ sub RO 0x05 1 32,
       sub RW 0x07 4 36,
       sub RW 0x07 4 40,
       sub RW 0x07 4 44,
       sub RW 0x07 4 48 ]"

definition TestMaster_Index1011 :: "subindex list" where
  "TestMaster_Index1011 =
     [ sub RO 0x05 1 52,
       sub RW 0x07 4 56,
       sub RW 0x07 4 60,
       sub RW 0x07 4 64,
       sub RW 0x07 4 68 ]"

definition TestMaster_Index1014 :: "subindex list" where
  "TestMaster_Index1014 =
     [ sub RW 0x07 4 72 ]"

definition TestMaster_Index1016 :: "subindex list" where
  "TestMaster_Index1016 =
     [ sub RO 0x05 1 76,
       sub RW 0x07 4 80 ]"

definition TestMaster_Index1018 :: "subindex list" where
  "TestMaster_Index1018 =
     [ sub RO 0x05 1 84,
       sub RO 0x07 4 88,
       sub RO 0x07 4 92,
       sub RO 0x07 4 96,
       sub RO 0x07 4 100 ]"

definition TestMaster_Index1280 :: "subindex list" where
  "TestMaster_Index1280 =
     [ sub RO 0x05 1 104,
       sub RW 0x07 4 108,
       sub RW 0x07 4 112,
       sub RW 0x05 1 116 ]"

definition TestMaster_Index1400 :: "subindex list" where
  "TestMaster_Index1400 =
     [ sub RO 0x05 1 117,
       sub RW 0x07 4 120,
       sub RW 0x05 1 124,
       sub RW 0x06 2 126,
       sub RW 0x05 1 128,
       sub RW 0x06 2 130 ]"

definition TestMaster_Index1401 :: "subindex list" where
  "TestMaster_Index1401 =
     [ sub RO 0x05 1 132,
       sub RW 0x07 4 136,
       sub RW 0x05 1 140,
       sub RW 0x06 2 142,
       sub RW 0x05 1 144,
       sub RW 0x06 2 146 ]"

definition TestMaster_Index1402 :: "subindex list" where
  "TestMaster_Index1402 =
     [ sub RO 0x05 1 148,
       sub RW 0x07 4 152,
       sub RW 0x05 1 156,
       sub RW 0x06 2 158,
       sub RW 0x05 1 160,
       sub RW 0x06 2 162 ]"

definition TestMaster_Index1403 :: "subindex list" where
  "TestMaster_Index1403 =
     [ sub RO 0x05 1 164,
       sub RW 0x07 4 168,
       sub RW 0x05 1 172,
       sub RW 0x06 2 174,
       sub RW 0x05 1 176,
       sub RW 0x06 2 178 ]"

definition TestMaster_Index1600 :: "subindex list" where
  "TestMaster_Index1600 =
     [ sub RW 0x05 1 180,
       sub RW 0x07 4 184,
       sub RW 0x07 4 188,
       sub RW 0x07 4 192,
       sub RW 0x07 4 196,
       sub RW 0x07 4 200,
       sub RW 0x07 4 204,
       sub RW 0x07 4 208,
       sub RW 0x07 4 212,
       sub RW 0x07 4 216,
       sub RW 0x07 4 220 ]"

definition TestMaster_Index1601 :: "subindex list" where
  "TestMaster_Index1601 =
     [ sub RW 0x05 1 224,
       sub RW 0x07 4 228 ]"

definition TestMaster_Index1602 :: "subindex list" where
  "TestMaster_Index1602 =
     [ sub RW 0x05 1 232,
       sub RW 0x07 4 236 ]"

definition TestMaster_Index1603 :: "subindex list" where
  "TestMaster_Index1603 =
     [ sub RW 0x05 1 240,
       sub RW 0x07 4 244 ]"

definition TestMaster_Index1F22 :: "subindex list" where
  "TestMaster_Index1F22 =
     [ sub RO 0x05 1 248,
       sub RW 0x0F 0 252,
       sub RW 0x0F 13 256 ]"

definition TestMaster_Index2000 :: "subindex list" where
  "TestMaster_Index2000 =
     [ sub RW 0x01 1 272 ]"

definition TestMaster_Index2001 :: "subindex list" where
  "TestMaster_Index2001 =
     [ sub RW 0x01 1 273 ]"

definition TestMaster_Index2002 :: "subindex list" where
  "TestMaster_Index2002 =
     [ sub RW 0x01 1 274 ]"

definition TestMaster_Index2003 :: "subindex list" where
  "TestMaster_Index2003 =
     [ sub RW 0x01 1 275 ]"

definition TestMaster_Index2004 :: "subindex list" where
  "TestMaster_Index2004 =
     [ sub RW 0x01 1 276 ]"

definition TestMaster_Index2005 :: "subindex list" where
  "TestMaster_Index2005 =
     [ sub RW 0x01 1 277 ]"

definition TestMaster_Index2006 :: "subindex list" where
  "TestMaster_Index2006 =
     [ sub RW 0x01 1 278 ]"

definition TestMaster_Index2007 :: "subindex list" where
  "TestMaster_Index2007 =
     [ sub RW 0x01 1 279 ]"

definition TestMaster_Index2008 :: "subindex list" where
  "TestMaster_Index2008 =
     [ sub RW 0x05 1 280 ]"

definition TestMaster_Index2009 :: "subindex list" where
  "TestMaster_Index2009 =
     [ sub RW 0x07 4 284 ]"

definition TestMaster_Index200A :: "subindex list" where
  "TestMaster_Index200A =
     [ sub RW 0x06 2 288 ]"

definition TestMaster_Index200B :: "subindex list" where
  "TestMaster_Index200B =
     [ sub RW 0x03 2 290 ]"

definition TestMaster_Index200C :: "subindex list" where
  "TestMaster_Index200C =
     [ sub RW 0x03 2 292 ]"

definition TestMaster_objdict :: "indextable list" where
  "TestMaster_objdict =
     [ od_row TestMaster_Index1000 0x1000,
       od_row TestMaster_Index1001 0x1001,
       od_row TestMaster_Index1005 0x1005,
       od_row TestMaster_Index1006 0x1006,
       od_row TestMaster_Index1010 0x1010,
       od_row TestMaster_Index1011 0x1011,
       od_row TestMaster_Index1014 0x1014,
       od_row TestMaster_Index1016 0x1016,
       od_row TestMaster_Index1018 0x1018,
       od_row TestMaster_Index1280 0x1280,
       od_row TestMaster_Index1400 0x1400,
       od_row TestMaster_Index1401 0x1401,
       od_row TestMaster_Index1402 0x1402,
       od_row TestMaster_Index1403 0x1403,
       od_row TestMaster_Index1600 0x1600,
       od_row TestMaster_Index1601 0x1601,
       od_row TestMaster_Index1602 0x1602,
       od_row TestMaster_Index1603 0x1603,
       od_row TestMaster_Index1F22 0x1F22,
       od_row TestMaster_Index2000 0x2000,
       od_row TestMaster_Index2001 0x2001,
       od_row TestMaster_Index2002 0x2002,
       od_row TestMaster_Index2003 0x2003,
       od_row TestMaster_Index2004 0x2004,
       od_row TestMaster_Index2005 0x2005,
       od_row TestMaster_Index2006 0x2006,
       od_row TestMaster_Index2007 0x2007,
       od_row TestMaster_Index2008 0x2008,
       od_row TestMaster_Index2009 0x2009,
       od_row TestMaster_Index200A 0x200A,
       od_row TestMaster_Index200B 0x200B,
       od_row TestMaster_Index200C 0x200C ]"

definition TestMaster_scanIndexOD :: "UNS16 \<Rightarrow> (nat \<times> bool) option" where
  "TestMaster_scanIndexOD = map_of
     [ (0x1000, 0, False),
       (0x1001, 1, False),
       (0x1005, 2, True),
       (0x1006, 3, True),
       (0x1010, 4, False),
       (0x1011, 5, False),
       (0x1014, 6, False),
       (0x1016, 7, False),
       (0x1018, 8, False),
       (0x1280, 9, False),
       (0x1400, 10, False),
       (0x1401, 11, False),
       (0x1402, 12, False),
       (0x1403, 13, False),
       (0x1600, 14, False),
       (0x1601, 15, False),
       (0x1602, 16, False),
       (0x1603, 17, False),
       (0x1F22, 18, False),
       (0x2000, 19, True),
       (0x2001, 20, False),
       (0x2002, 21, False),
       (0x2003, 22, False),
       (0x2004, 23, False),
       (0x2005, 24, False),
       (0x2006, 25, False),
       (0x2007, 26, False),
       (0x2008, 27, False),
       (0x2009, 28, False),
       (0x200A, 29, False),
       (0x200B, 30, False),
       (0x200C, 31, False) ]"

text \<open>One callback array per dictionary entry, empty where the source passes a null pointer.\<close>

definition TestMaster_callbacks :: "od_cb option list list" where
  "TestMaster_callbacks =
     [ [],
       [],
       replicate 1 None,
       replicate 1 None,
       [],
       [],
       [],
       [],
       [],
       [],
       [],
       [],
       [],
       [],
       [],
       [],
       [],
       [],
       [],
       replicate 1 None,
       [],
       [],
       [],
       [],
       [],
       [],
       [],
       [],
       [],
       [],
       [],
       [] ]"

definition TestMaster_firstIndex :: quick_index where
  "TestMaster_firstIndex = \<lparr>SDO_SVR = 0, SDO_CLT = 9, PDO_RCV = 10, PDO_RCV_MAP = 14, PDO_TRS = 0, PDO_TRS_MAP = 0\<rparr>"

definition TestMaster_lastIndex :: quick_index where
  "TestMaster_lastIndex = \<lparr>SDO_SVR = 0, SDO_CLT = 9, PDO_RCV = 13, PDO_RCV_MAP = 17, PDO_TRS = 0, PDO_TRS_MAP = 0\<rparr>"

definition TestMaster_PDO_status :: "s_PDO_status list" where
  "TestMaster_PDO_status = replicate 1 s_PDO_status_Initializer"

text \<open>The initial values of the variables that do not start as 0.\<close>

definition TestMaster_image :: "(addr \<times> UNS8) list" where
  "TestMaster_image =
     concat [ place 16 (bytes32 0x12D),
       place 24 (bytes32 0x40000080),
       place 28 (bytes32 0xC350),
       place 32 [0x4],
       place 52 [0x4],
       place 72 (bytes32 0x80),
       place 76 [0x1],
       place 80 (bytes32 0x205DC),
       place 84 [0x4],
       place 104 [0x3],
       place 108 (bytes32 0x602),
       place 112 (bytes32 0x582),
       place 116 [0x2],
       place 117 [0x5],
       place 120 (bytes32 0x200),
       place 124 [0x1],
       place 132 [0x5],
       place 136 (bytes32 0x300),
       place 148 [0x5],
       place 152 (bytes32 0x401),
       place 164 [0x5],
       place 168 (bytes32 0x482),
       place 180 [0xA],
       place 184 (bytes32 0x20000001),
       place 188 (bytes32 0x20010001),
       place 192 (bytes32 0x20020001),
       place 196 (bytes32 0x20030001),
       place 200 (bytes32 0x20040001),
       place 204 (bytes32 0x20050001),
       place 208 (bytes32 0x20060001),
       place 212 (bytes32 0x20070001),
       place 216 (bytes32 0x20080008),
       place 220 (bytes32 0x20090020),
       place 224 [0x1],
       place 228 (bytes32 0x200A0010),
       place 232 [0x1],
       place 236 (bytes32 0x200B0010),
       place 240 [0x1],
       place 244 (bytes32 0x200C0010),
       place 248 [0x2],
       place 312 [0x1, 0x0, 0x0, 0x0, 0x17, 0x10, 0x0, 0x2, 0x0, 0x0, 0x0, 0xE8, 0x3],
       place 252 [0x34, 0x1, 0x0, 0x0],
       place 256 [0x38, 0x1, 0x0, 0x0] ]"

definition TestMaster_config :: od_config where
  "TestMaster_config =
     \<lparr> objdict = TestMaster_objdict, firstIndex = TestMaster_firstIndex, lastIndex = TestMaster_lastIndex,
       iam_a_slave = 0, valueRangeTest = TestMaster_valueRangeTest, scanIndexOD_f = TestMaster_scanIndexOD,
       bDeviceNodeId = 294, ConsumerHeartbeatCount = 76, ConsumerHeartbeatEntries = 80,
       ProducerHeartBeatTime = 300, GuardTime = 296, LifeTimeFactor = 298,
       COB_ID_Sync = 24, Sync_Cycle_Period = 28,
       error_history_size = 1, error_number = 295, error_first_element = 304, error_register = 20,
       error_cobid = 72, stack_junk = replicate 8 0 \<rparr>"

definition TestMaster_Data :: CO_Data where
  "TestMaster_Data = CANOPEN_NODE_DATA_INITIALIZER TestMaster_config (mem_of TestMaster_image) TestMaster_callbacks TestMaster_PDO_status [TIMER_NONE]"

section \<open>Well-formedness\<close>

lemmas TestMaster_defs = TestMaster_Index1000_def TestMaster_Index1001_def TestMaster_Index1005_def TestMaster_Index1006_def TestMaster_Index1010_def
  TestMaster_Index1011_def TestMaster_Index1014_def TestMaster_Index1016_def TestMaster_Index1018_def TestMaster_Index1280_def
  TestMaster_Index1400_def TestMaster_Index1401_def TestMaster_Index1402_def TestMaster_Index1403_def TestMaster_Index1600_def
  TestMaster_Index1601_def TestMaster_Index1602_def TestMaster_Index1603_def TestMaster_Index1F22_def TestMaster_Index2000_def
  TestMaster_Index2001_def TestMaster_Index2002_def TestMaster_Index2003_def TestMaster_Index2004_def TestMaster_Index2005_def
  TestMaster_Index2006_def TestMaster_Index2007_def TestMaster_Index2008_def TestMaster_Index2009_def TestMaster_Index200A_def
  TestMaster_Index200B_def TestMaster_Index200C_def
  TestMaster_objdict_def sub_def od_row_def

lemma TestMaster_config_fields [simp]:
  "objdict TestMaster_config = TestMaster_objdict" "scanIndexOD_f TestMaster_config = TestMaster_scanIndexOD"
  "firstIndex TestMaster_config = TestMaster_firstIndex" "lastIndex TestMaster_config = TestMaster_lastIndex"
  by (simp_all add: TestMaster_config_def)

lemma TestMaster_od_ok: "od_ok TestMaster_Data"
proof (rule od_ok_table)
  let ?hs = "map (\<lambda>i. i \<in> {2, 3, 19}) [0..<32]"
  show "length (callbacks TestMaster_Data) = length (objdict (cfg TestMaster_Data))"
    by (simp add: TestMaster_Data_def TestMaster_callbacks_def TestMaster_objdict_def)
  show "list_all (\<lambda>e. length (pSubindex e) = unat (bSubCount e)) (objdict (cfg TestMaster_Data))"
    by (simp add: TestMaster_Data_def TestMaster_defs)
  show "scanIndexOD_f (cfg TestMaster_Data) = map_of (zip (map oindex (objdict (cfg TestMaster_Data)))
      (zip [0..<length (objdict (cfg TestMaster_Data))] ?hs))"
    by (simp add: TestMaster_Data_def TestMaster_scanIndexOD_def TestMaster_objdict_def od_row_def upt_rec eval_nat_numeral)
  show "length ?hs = length (objdict (cfg TestMaster_Data))"
    by (simp add: TestMaster_Data_def TestMaster_objdict_def)
  show "list_all (\<lambda>(e, cb, h). h \<longrightarrow> length cb = unat (bSubCount e))
      (zip (objdict (cfg TestMaster_Data)) (zip (callbacks TestMaster_Data) ?hs))"
    by (simp add: TestMaster_Data_def TestMaster_callbacks_def TestMaster_defs upt_rec)
qed

lemma TestMaster_disjoint: "od_disjoint TestMaster_Data"
  by (rule ascending_disjoint) (simp add: TestMaster_Data_def TestMaster_defs sub_before_def)

lemma TestMaster_node_ok: "node_ok TestMaster_Data"
  unfolding TestMaster_Data_def
proof (rule node_ok_initial)
  show "od_ok (CANOPEN_NODE_DATA_INITIALIZER TestMaster_config (mem_of TestMaster_image) TestMaster_callbacks TestMaster_PDO_status [TIMER_NONE])"
    using TestMaster_od_ok by (simp add: TestMaster_Data_def)
qed (simp_all add: TestMaster_PDO_status_def list_all_length n_tpdo_def TestMaster_firstIndex_def TestMaster_lastIndex_def handle_ok_def)

end
