(* ===== verification/Emcy.thy ===== *)
theory Emcy
  imports ObjAccess
begin

text \<open>
  The emergency object, \<^verbatim>\<open>CanFestival/src/emcy.c\<close>: the table of active errors, the error
  register (1001h), the error history (1003h) and the EMCY frame. Shown here: the
  register is always the union of the masks of the active errors and the error state
  says whether there is one, the history is a shift register of the accepted errors,
  a repeated error is not reported twice and a recovered error is no longer active.
\<close>

section \<open>Operations\<close>

text \<open>The loop that clears the history.\<close>

fun clear_history :: "nat \<Rightarrow> addr \<Rightarrow> memory \<Rightarrow> memory" where
  "clear_history 0 a m = m"
| "clear_history (Suc n) a m = clear_history n (a + 4) (wr32 m a 0)"

definition OnNumberOfErrorsUpdate :: "CO_Data \<Rightarrow> UNS32 \<times> CO_Data" where
  "OnNumberOfErrorsUpdate d =
     (0, if rd8 (mem d) (error_number (cfg d)) = 0
         then d\<lparr>mem := clear_history (unat (error_history_size (cfg d))) (error_first_element (cfg d)) (mem d)\<rparr>
         else d)"

definition emergencyInit :: "CO_Data \<Rightarrow> CO_Data" where
  "emergencyInit d =
     (let d1 = snd (RegisterSetODentryCallBack 0x1003 0x00 (Some OnNumberOfErrorsUpdate_cb) d)
      in d1\<lparr>mem := (mem d1)(error_number (cfg d1) := 0)\<rparr>)"

definition emergencyStop :: "CO_Data \<Rightarrow> CO_Data" where
  "emergencyStop d = d"

definition sendEMCY :: "UNS16 \<Rightarrow> UNS8 \<Rightarrow> UNS8 list option \<Rightarrow> UNS8 \<Rightarrow> CO_Data \<Rightarrow> UNS8 \<times> CO_Data" where
  "sendEMCY code errRegister Specific SpecificLength d =
     (let (bytes, n) = (case Specific of
            None \<Rightarrow> ([0, 0, 0, 0, 0], 5)
          | Some bs \<Rightarrow> (let n = (if SpecificLength > 5 then 5 else SpecificLength) in (take (unat n) bs, n)))
      in canSend \<lparr> cob_id = ucast (rd32 (mem d) (error_cobid (cfg d))), rtr = NOT_A_REQUEST, mlen = n + 3,
                   mdata = [ucast (code AND 0xFF), ucast (drop_bit 8 code AND 0xFF), errRegister] @ bytes \<rparr> d)"

definition error_mask :: "s_errors list \<Rightarrow> UNS8" where
  "error_mask es = foldl (\<lambda>r e. if active e = 1 then r OR errRegMask e else r) 0 es"

text \<open>The loop that moves every history entry one place up, from the last to the second.\<close>

fun shift_history :: "nat \<Rightarrow> addr \<Rightarrow> memory \<Rightarrow> memory" where
  "shift_history 0 a m = m"
| "shift_history (Suc i) a m = shift_history i a (wr32 m (a + 4 * Suc i) (rd32 m (a + 4 * i)))"

definition EMCY_setError :: "UNS16 \<Rightarrow> UNS8 \<Rightarrow> UNS16 \<Rightarrow> CO_Data \<Rightarrow> UNS8 \<times> CO_Data" where
  "EMCY_setError code regMask addInfo d =
     (let i = find_pos (\<lambda>e. errCode e = code) (error_data d)
      in if i \<noteq> length (error_data d) \<and> c_true (active (error_data d ! i)) then (0, d)
         else let k = (if i \<noteq> length (error_data d) then i else find_pos (\<lambda>e. active e = 0) (error_data d))
              in if k = length (error_data d) then (1, d)
         else let es = (error_data d)[k := \<lparr>errCode = code, errRegMask = regMask, active = 1\<rparr>];
                  hs = error_history_size (cfg d); first = error_first_element (cfg d);
                  num = error_number (cfg d);
                  m1 = (mem d)(error_register (cfg d) := error_mask es);
                  m2 = shift_history (unat (hs - 1)) first m1;
                  m3 = wr32 m2 first (ucast code OR push_bit 16 (ucast addInfo));
                  m4 = (if m3 num < hs then m3(num := m3 num + 1) else m3);
                  d1 = d\<lparr>error_data := es, error_state := Error_occurred, mem := m4\<rparr>
              in if csEmergency (CurrentCommunicationState d1)
                 then sendEMCY code (mem d1 (error_register (cfg d1))) None 0 d1
                 else (1, d1))"

definition EMCY_errorRecovered :: "UNS16 \<Rightarrow> CO_Data \<Rightarrow> CO_Data" where
  "EMCY_errorRecovered code d =
     (let i = find_pos (\<lambda>e. errCode e = code) (error_data d)
      in if i \<noteq> length (error_data d) \<and> active (error_data d ! i) = 1 then
           (let es = (error_data d)[i := (error_data d ! i)\<lparr>active := 0\<rparr>];
                d1 = d\<lparr>error_data := es\<rparr>;
                d2 = (if \<not> (\<exists>e \<in> set es. active e = 1)
                      then (let d' = d1\<lparr>error_state := Error_free\<rparr>
                            in if csEmergency (CurrentCommunicationState d')
                               then snd (sendEMCY 0x0000 0x00 None 0 d') else d')
                      else d1)
            in d2\<lparr>mem := (mem d2)(error_register (cfg d2) := error_mask es)\<rparr>)
         else d)"

definition proceedEMCY :: "Message \<Rightarrow> CO_Data \<Rightarrow> CO_Data" where
  "proceedEMCY m d =
     (if mlen m \<noteq> 8 then d
      else emit (Call_post_emcy (ucast (cob_id m AND 0x7F)) (le16 (mdata m ! 0) (mdata m ! 1)) (mdata m ! 2)) d)"

section \<open>Invariant\<close>

text \<open>
  The layout of the dictionary variables that the emergency object owns: they do not
  overlap, and the history has at least one element.
\<close>

definition emcy_layout :: "od_config \<Rightarrow> bool" where
  "emcy_layout c \<longleftrightarrow> 0 < error_history_size c \<and> error_register c \<noteq> error_number c
     \<and> (\<forall>a \<in> {error_register c, error_number c}.
          a < error_first_element c \<or> error_first_element c + 4 * unat (error_history_size c) \<le> a)"

text \<open>
  The register is the union of the active masks, the state says whether an error is
  active, and of several slots with one code only the first can be active.
\<close>

definition emcy_ok :: "CO_Data \<Rightarrow> bool" where
  "emcy_ok d \<longleftrightarrow> length (error_data d) = EMCY_MAX_ERRORS
     \<and> (\<forall>e \<in> set (error_data d). active e = 0 \<or> active e = 1)
     \<and> (\<forall>i < length (error_data d). \<forall>j < i. errCode (error_data d ! i) = errCode (error_data d ! j)
          \<longrightarrow> active (error_data d ! i) = 0)
     \<and> (error_state d = Error_occurred \<longleftrightarrow> (\<exists>e \<in> set (error_data d). active e = 1))
     \<and> mem d (error_register (cfg d)) = error_mask (error_data d)"

definition error_history :: "CO_Data \<Rightarrow> UNS32 list" where
  "error_history d = map (\<lambda>i. rd32 (mem d) (error_first_element (cfg d) + 4 * i))
     [0..<unat (error_history_size (cfg d))]"

lemma clear_history_outside:
  "x < a \<or> a + 4 * n \<le> x \<Longrightarrow> clear_history n a m x = m x"
  by (induction n a m rule: clear_history.induct) (auto simp: wr32_byte_other)

lemma clear_history_word: "i < n \<Longrightarrow> rd32 (clear_history n a m) (a + 4 * i) = 0"
proof (induction n a m arbitrary: i rule: clear_history.induct)
  case (2 n a m)
  show ?case
  proof (cases i)
    case 0
    have "rd32 (clear_history n (a + 4) (wr32 m a 0)) a = rd32 (wr32 m a 0) a"
      by (simp add: rd32_def clear_history_outside)
    with 0 show ?thesis by simp
  next
    case (Suc j)
    with "2.IH" [of j] "2.prems" show ?thesis by (simp add: add.assoc)
  qed
qed simp

lemma shift_history_outside:
  "x < a + 4 \<or> a + 4 * Suc n \<le> x \<Longrightarrow> shift_history n a m x = m x"
  by (induction n a m rule: shift_history.induct) (auto simp: wr32_byte_other)

lemma shift_history_word:
  "i \<le> n \<Longrightarrow> rd32 (shift_history n a m) (a + 4 * i) = rd32 m (a + 4 * (i - 1))"
proof (induction n a m arbitrary: i rule: shift_history.induct)
  case (2 n a m)
  show ?case
  proof (cases "i = Suc n")
    case True
    have "rd32 (shift_history n a (wr32 m (a + 4 * Suc n) (rd32 m (a + 4 * n)))) (a + 4 * Suc n)
        = rd32 (wr32 m (a + 4 * Suc n) (rd32 m (a + 4 * n))) (a + 4 * Suc n)"
      by (simp add: rd32_def shift_history_outside)
    with True show ?thesis by simp
  next
    case False
    with "2.prems" have le: "i \<le> n" by simp
    then have "a + 4 * (i - 1) + 4 \<le> a + 4 * Suc n" by (cases i) simp_all
    with "2.IH" [OF le] show ?thesis by (simp add: rd32_wr32_other del: One_nat_def)
  qed
qed simp

section \<open>Properties\<close>

lemma sendEMCY_frame [simp]:
  "fst (sendEMCY c r sp n d) = 0"
  "cfg (snd (sendEMCY c r sp n d)) = cfg d" "mem (snd (sendEMCY c r sp n d)) = mem d"
  "error_data (snd (sendEMCY c r sp n d)) = error_data d"
  "error_state (snd (sendEMCY c r sp n d)) = error_state d"
  by (simp_all add: sendEMCY_def canSend_def emit_def split_beta Let_def)

lemma sendEMCY_sent:
  "sent (snd (sendEMCY c r None n d)) = sent d @
     [\<lparr> cob_id = ucast (rd32 (mem d) (error_cobid (cfg d))), rtr = NOT_A_REQUEST, mlen = 8,
        mdata = [ucast (c AND 0xFF), ucast (drop_bit 8 c AND 0xFF), r, 0, 0, 0, 0, 0] \<rparr>]"
  by (simp add: sendEMCY_def canSend_def)

lemma sent_mem: "sent (d\<lparr>mem := m\<rparr>) = sent d"
  by (simp add: sent_def)

lemma sent_error_fields: "sent (d\<lparr>error_data := es\<rparr>) = sent d" "sent (d\<lparr>error_state := st\<rparr>) = sent d"
  by (simp_all add: sent_def)

text \<open>The slot that \<open>EMCY_setError\<close> chooses for an error that is not active yet.\<close>

definition emcy_slot :: "UNS16 \<Rightarrow> s_errors list \<Rightarrow> nat" where
  "emcy_slot code es = (let i = find_pos (\<lambda>e. errCode e = code) es
     in if i \<noteq> length es then i else find_pos (\<lambda>e. active e = 0) es)"

definition emcy_active :: "UNS16 \<Rightarrow> CO_Data \<Rightarrow> bool" where
  "emcy_active code d \<longleftrightarrow> (\<exists>e \<in> set (error_data d). errCode e = code \<and> active e = 1)"

lemma emcy_active_iff:
  assumes "emcy_ok d"
  shows "emcy_active code d \<longleftrightarrow>
     (let i = find_pos (\<lambda>e. errCode e = code) (error_data d)
      in i \<noteq> length (error_data d) \<and> c_true (active (error_data d ! i)))"
proof -
  let ?es = "error_data d" let ?i = "find_pos (\<lambda>e. errCode e = code) ?es"
  have a01: "active e = 0 \<or> active e = 1" if "e \<in> set ?es" for e
    using assms that by (auto simp: emcy_ok_def)
  show ?thesis
  proof
    assume "emcy_active code d"
    then obtain k where k: "k < length ?es" "errCode (?es ! k) = code" "active (?es ! k) = 1"
      by (auto simp: emcy_active_def in_set_conv_nth)
    then have i: "?i < length ?es"
      by (intro find_pos_ex)
    then have hit: "errCode (?es ! ?i) = code" using find_pos_hit by fastforce
    have "\<not> ?i < k" using assms k hit by (auto simp: emcy_ok_def)
    moreover have "\<not> k < ?i" using find_pos_before [of k _ ?es] k(2) by blast
    ultimately have "k = ?i" by simp
    with k i show "let i = ?i in i \<noteq> length ?es \<and> c_true (active (?es ! i))"
      by (simp add: c_true_def)
  next
    assume "let i = ?i in i \<noteq> length ?es \<and> c_true (active (?es ! i))"
    then have "?i < length ?es" "active (?es ! ?i) \<noteq> 0"
      using find_pos_le [of _ ?es] by (auto simp: Let_def c_true_def le_less)
    then show "emcy_active code d"
      using a01 [OF nth_mem, of ?i] find_pos_hit [of _ ?es]
      by (auto simp: emcy_active_def intro!: bexI [of _ "?es ! ?i"])
  qed
qed

text \<open>The memory after an accepted error.\<close>

definition emcy_store :: "UNS16 \<Rightarrow> UNS16 \<Rightarrow> UNS8 \<Rightarrow> od_config \<Rightarrow> memory \<Rightarrow> memory" where
  "emcy_store code addInfo reg c m =
     (let m3 = wr32 (shift_history (unat (error_history_size c - 1)) (error_first_element c)
                       (m(error_register c := reg)))
                 (error_first_element c) (ucast code OR push_bit 16 (ucast addInfo))
      in if m3 (error_number c) < error_history_size c
         then m3(error_number c := m3 (error_number c) + 1) else m3)"

lemma EMCY_setError_unfold:
  fixes code addInfo :: UNS16 and regMask :: UNS8
  assumes "emcy_ok d"
  defines "k \<equiv> emcy_slot code (error_data d)"
  defines "es \<equiv> (error_data d)[k := \<lparr>errCode = code, errRegMask = regMask, active = 1\<rparr>]"
  defines "d1 \<equiv> d\<lparr>error_data := es, error_state := Error_occurred,
                  mem := emcy_store code addInfo (error_mask es) (cfg d) (mem d)\<rparr>"
  shows "EMCY_setError code regMask addInfo d =
     (if emcy_active code d then (0, d) else if k = length (error_data d) then (1, d)
      else if csEmergency (CurrentCommunicationState d)
           then sendEMCY code (mem d1 (error_register (cfg d))) None 0 d1 else (1, d1))"
  unfolding EMCY_setError_def emcy_active_iff [OF assms(1)]
  by (simp add: Let_def emcy_slot_def k_def es_def d1_def emcy_store_def)

lemma hist_size: "0 < hs \<Longrightarrow> Suc (unat (hs - 1)) = unat (hs :: UNS8)"
  by (simp add: word_less_nat_alt unat_sub word_le_nat_alt)

lemma emcy_store_register:
  assumes "emcy_layout c"
  shows "emcy_store code info reg c m (error_register c) = reg"
proof -
  have hs: "Suc (unat (error_history_size c - 1)) = unat (error_history_size c)"
    using assms hist_size by (auto simp: emcy_layout_def)
  have r: "error_register c < error_first_element c
      \<or> error_first_element c + 4 * unat (error_history_size c) \<le> error_register c"
    and ne: "error_register c \<noteq> error_number c"
    using assms by (auto simp: emcy_layout_def)
  have "wr32 (shift_history (unat (error_history_size c - 1)) (error_first_element c) (m(error_register c := reg)))
      (error_first_element c) v (error_register c) = reg" for v
    using r hs by (auto simp: wr32_byte_other shift_history_outside)
  then show ?thesis using ne by (simp add: emcy_store_def Let_def)
qed

lemma emcy_slot_inactive:
  assumes "emcy_ok d" "\<not> emcy_active code d" "emcy_slot code (error_data d) < length (error_data d)"
  shows "active (error_data d ! emcy_slot code (error_data d)) = 0"
    and "\<forall>j < emcy_slot code (error_data d). errCode (error_data d ! j) \<noteq> code"
proof -
  let ?es = "error_data d" let ?i = "find_pos (\<lambda>e. errCode e = code) ?es"
  show "active (?es ! emcy_slot code ?es) = 0"
    using assms emcy_active_iff [OF assms(1)] find_pos_hit [of "\<lambda>e. active e = 0" ?es]
    by (auto simp: emcy_slot_def Let_def c_true_def split: if_splits)
  show "\<forall>j < emcy_slot code ?es. errCode (?es ! j) \<noteq> code"
  proof (cases "?i = length ?es")
    case True
    then have "\<forall>e \<in> set ?es. errCode e \<noteq> code" by (simp add: find_pos_none)
    with assms(3) show ?thesis by (auto simp: in_set_conv_nth) (metis order.strict_trans nth_mem)
  next
    case False
    then show ?thesis using find_pos_before [of _ "\<lambda>e. errCode e = code" ?es] by (auto simp: emcy_slot_def Let_def)
  qed
qed

lemma emcy_codes_after:
  assumes ok: "emcy_ok d" and na: "\<not> emcy_active code d"
    and k: "k = emcy_slot code (error_data d)" "k < length (error_data d)"
    and es: "es = (error_data d)[k := \<lparr>errCode = code, errRegMask = msk, active = 1\<rparr>]"
    and ij: "i < length es" "j < i" "errCode (es ! i) = errCode (es ! j)"
  shows "active (es ! i) = 0"
proof -
  let ?old = "error_data d"
  have uniq: "active (?old ! i) = 0" if "errCode (?old ! i) = errCode (?old ! j)"
    using ok ij that es by (auto simp: emcy_ok_def)
  consider "i = k" | "j = k" "i \<noteq> k" | "i \<noteq> k" "j \<noteq> k" by blast
  then show ?thesis
  proof cases
    case 1
    then have "errCode (?old ! j) = code" using ij es k(2) by simp
    with emcy_slot_inactive(2) [OF ok na] k ij 1 show ?thesis by auto
  next
    case 2
    then have c: "errCode (?old ! i) = code" using ij es k(2) by simp
    then have "active (?old ! i) \<noteq> 1"
      using na ij(1) es nth_mem [of i ?old] by (auto simp: emcy_active_def)
    then have "active (?old ! i) = 0"
      using ok ij(1) es nth_mem [of i ?old] by (auto simp: emcy_ok_def)
    with 2 es show ?thesis by simp
  next
    case 3
    with uniq ij es show ?thesis by simp
  qed
qed

lemma emcy_ok_set:
  assumes ok: "emcy_ok d" and lay: "emcy_layout (cfg d)"
  shows "emcy_ok (snd (EMCY_setError code msk info d))"
proof -
  define k where "k = emcy_slot code (error_data d)"
  define es where "es = (error_data d)[k := \<lparr>errCode = code, errRegMask = msk, active = 1\<rparr>]"
  define d1 where "d1 = d\<lparr>error_data := es, error_state := Error_occurred,
                  mem := emcy_store code info (error_mask es) (cfg d) (mem d)\<rparr>"
  note un = EMCY_setError_unfold [OF ok, of code msk info, folded k_def, folded es_def, folded d1_def]
  show ?thesis
  proof (cases "emcy_active code d \<or> k = length (error_data d)")
    case True
    with un ok show ?thesis by auto
  next
    case False
    have kl: "k < length (error_data d)"
      using False find_pos_lt [of _ "error_data d"] by (simp add: k_def emcy_slot_def Let_def split: if_splits)
    have "emcy_ok d1"
      unfolding emcy_ok_def
    proof (intro conjI)
      show "length (error_data d1) = EMCY_MAX_ERRORS" using ok by (simp add: d1_def es_def emcy_ok_def)
      show "\<forall>e \<in> set (error_data d1). active e = 0 \<or> active e = 1"
        using ok by (auto simp: d1_def es_def emcy_ok_def dest!: set_update_subset_insert [THEN subsetD])
      show "\<forall>i < length (error_data d1). \<forall>j < i. errCode (error_data d1 ! i) = errCode (error_data d1 ! j)
          \<longrightarrow> active (error_data d1 ! i) = 0"
        using emcy_codes_after [OF ok _ k_def kl es_def] False by (simp add: d1_def)
      have "\<lparr>errCode = code, errRegMask = msk, active = 1\<rparr> \<in> set es"
        using kl by (simp add: es_def set_update_memI)
      then show "(error_state d1 = Error_occurred) = (\<exists>e \<in> set (error_data d1). active e = 1)"
        by (auto simp: d1_def intro!: bexI [of _ "\<lparr>errCode = code, errRegMask = msk, active = 1\<rparr>"])
      show "mem d1 (error_register (cfg d1)) = error_mask (error_data d1)"
        using emcy_store_register [OF lay] by (simp add: d1_def)
    qed
    with un False show ?thesis by (auto simp: emcy_ok_def)
  qed
qed

text \<open>Recovery.\<close>

lemma EMCY_errorRecovered_unfold:
  fixes code :: UNS16
  assumes ok: "emcy_ok d" and act: "emcy_active code d"
  defines "i \<equiv> find_pos (\<lambda>e. errCode e = code) (error_data d)"
  defines "es \<equiv> (error_data d)[i := (error_data d ! i)\<lparr>active := 0\<rparr>]"
  shows "i < length (error_data d)" and "errCode (error_data d ! i) = code"
    and "error_data (EMCY_errorRecovered code d) = es"
    and "error_state (EMCY_errorRecovered code d) =
       (if \<exists>e \<in> set es. active e = 1 then error_state d else Error_free)"
    and "mem (EMCY_errorRecovered code d) = (mem d)(error_register (cfg d) := error_mask es)"
    and "cfg (EMCY_errorRecovered code d) = cfg d"
    and "sent (EMCY_errorRecovered code d) \<noteq> sent d \<longleftrightarrow>
       \<not> (\<exists>e \<in> set es. active e = 1) \<and> csEmergency (CurrentCommunicationState d)"
proof -
  have i: "i \<noteq> length (error_data d)" "c_true (active (error_data d ! i))"
    using act emcy_active_iff [OF ok] by (simp_all add: i_def Let_def)
  then show lt: "i < length (error_data d)" using find_pos_lt by (auto simp: i_def)
  then show "errCode (error_data d ! i) = code" using find_pos_hit [of _ "error_data d"] by (simp add: i_def)
  have "active (error_data d ! i) = 1"
    using ok nth_mem [OF lt] i(2) by (auto simp: emcy_ok_def c_true_def)
  with i(1) have un: "EMCY_errorRecovered code d =
      (let d1 = d\<lparr>error_data := es\<rparr>;
           d2 = (if \<not> (\<exists>e \<in> set es. active e = 1)
                 then (let d' = d1\<lparr>error_state := Error_free\<rparr>
                       in if csEmergency (CurrentCommunicationState d')
                          then snd (sendEMCY 0x0000 0x00 None 0 d') else d')
                 else d1)
       in d2\<lparr>mem := (mem d2)(error_register (cfg d2) := error_mask es)\<rparr>)"
    by (simp add: EMCY_errorRecovered_def i_def es_def Let_def)
  show "error_data (EMCY_errorRecovered code d) = es"
    "error_state (EMCY_errorRecovered code d) =
       (if \<exists>e \<in> set es. active e = 1 then error_state d else Error_free)"
    "mem (EMCY_errorRecovered code d) = (mem d)(error_register (cfg d) := error_mask es)"
    "cfg (EMCY_errorRecovered code d) = cfg d"
    "sent (EMCY_errorRecovered code d) \<noteq> sent d \<longleftrightarrow>
       \<not> (\<exists>e \<in> set es. active e = 1) \<and> csEmergency (CurrentCommunicationState d)"
    unfolding un by (simp_all add: Let_def sent_mem sent_error_fields sendEMCY_sent)
qed

lemma EMCY_errorRecovered_inactive:
  assumes "emcy_ok d" "\<not> emcy_active code d"
  shows "EMCY_errorRecovered code d = d"
proof -
  let ?i = "find_pos (\<lambda>e. errCode e = code) (error_data d)"
  have "\<not> (?i \<noteq> length (error_data d) \<and> active (error_data d ! ?i) = 1)"
  proof
    assume *: "?i \<noteq> length (error_data d) \<and> active (error_data d ! ?i) = 1"
    then have "emcy_active code d"
      unfolding emcy_active_iff [OF assms(1)] by (simp add: Let_def c_true_def)
    with assms(2) show False ..
  qed
  then show ?thesis unfolding EMCY_errorRecovered_def Let_def by (rule if_not_P)
qed

lemma emcy_ok_recovered:
  assumes ok: "emcy_ok d"
  shows "emcy_ok (EMCY_errorRecovered code d)"
proof (cases "emcy_active code d")
  case True
  let ?i = "find_pos (\<lambda>e. errCode e = code) (error_data d)"
  let ?es = "(error_data d)[?i := (error_data d ! ?i)\<lparr>active := 0\<rparr>]"
  note un = EMCY_errorRecovered_unfold [OF ok True]
  have in_es: "e \<in> set (error_data d) \<or> active e = 0" if "e \<in> set ?es" for e
    using that set_update_subset_insert [of "error_data d" ?i "(error_data d ! ?i)\<lparr>active := 0\<rparr>"] by auto
  show ?thesis
    unfolding emcy_ok_def un
  proof (intro conjI)
    show "length ?es = EMCY_MAX_ERRORS" using ok by (simp add: emcy_ok_def)
    show "\<forall>e \<in> set ?es. active e = 0 \<or> active e = 1" using ok in_es unfolding emcy_ok_def by blast
    show "\<forall>i < length ?es. \<forall>j < i. errCode (?es ! i) = errCode (?es ! j) \<longrightarrow> active (?es ! i) = 0"
    proof (intro allI impI)
      fix i j
      assume ij: "i < length ?es" "j < i" "errCode (?es ! i) = errCode (?es ! j)"
      then have "errCode (error_data d ! i) = errCode (error_data d ! j)"
        using un(1) by (auto simp: nth_list_update split: if_splits)
      with ok ij have "active (error_data d ! i) = 0" by (simp add: emcy_ok_def)
      with ij un(1) show "active (?es ! i) = 0" by (simp add: nth_list_update)
    qed
    have "error_state d = Error_occurred" if "\<exists>e \<in> set ?es. active e = 1"
    proof -
      from that in_es have "\<exists>e \<in> set (error_data d). active e = 1" by fastforce
      with ok show ?thesis by (simp add: emcy_ok_def)
    qed
    then show "((if \<exists>e \<in> set ?es. active e = 1 then error_state d else Error_free) = Error_occurred)
        = (\<exists>e \<in> set ?es. active e = 1)" by auto
  qed simp
qed (use EMCY_errorRecovered_inactive [OF ok] ok in simp)

text \<open>The error register (1001h) and the error state are exact: after any sequence of
  reported and recovered errors the register is the union of the masks of the errors that
  are active, and the state is \<open>Error_occurred\<close> exactly when there is one.\<close>

theorem emcy_register_exact:
  assumes "emcy_ok d" "emcy_layout (cfg d)"
  shows "emcy_ok (snd (EMCY_setError code msk info d)) \<and> emcy_ok (EMCY_errorRecovered code d)"
  using emcy_ok_set [OF assms] emcy_ok_recovered [OF assms(1)] by blast

lemma emcy_slot_full:
  assumes "emcy_ok d" "\<not> emcy_active code d"
  shows "emcy_slot code (error_data d) = length (error_data d) \<longleftrightarrow>
    (\<forall>e \<in> set (error_data d). errCode e \<noteq> code \<and> active e = 1)"
proof -
  have "active e \<noteq> 0 \<longleftrightarrow> active e = 1" if "e \<in> set (error_data d)" for e
    using assms(1) that by (auto simp: emcy_ok_def)
  then show ?thesis
    using find_pos_none [of "\<lambda>e. errCode e = code" "error_data d"]
      find_pos_none [of "\<lambda>e. active e = 0" "error_data d"]
    by (auto simp: emcy_slot_def Let_def)
qed

lemma emcy_store_history:
  assumes lay: "emcy_layout c" and i: "i < unat (error_history_size c)"
  shows "rd32 (emcy_store code info reg c m) (error_first_element c + 4 * i) =
     (if i = 0 then ucast code OR push_bit 16 (ucast info)
      else rd32 m (error_first_element c + 4 * (i - 1)))"
proof -
  let ?a = "error_first_element c" and ?hs = "unat (error_history_size c)"
  let ?m2 = "shift_history (unat (error_history_size c - 1)) ?a (m(error_register c := reg))"
  let ?v = "ucast code OR push_bit 16 (ucast info) :: UNS32"
  have hs: "Suc (unat (error_history_size c - 1)) = ?hs"
    using lay hist_size by (auto simp: emcy_layout_def)
  have far: "?a + 4 * j + 4 \<le> x \<or> x < ?a + 4 * j" if "x \<in> {error_register c, error_number c}" "j < ?hs" for j x
    using lay that by (auto simp: emcy_layout_def)
  have num: "rd32 (m'(error_number c := w)) (?a + 4 * i) = rd32 m' (?a + 4 * i)" for m' w
    using far [of "error_number c" i] i by (intro rd32_upd_other) auto
  have "rd32 (wr32 ?m2 ?a ?v) (?a + 4 * i) = (if i = 0 then ?v else rd32 ?m2 (?a + 4 * i))"
    by (auto simp: rd32_wr32_other)
  moreover have "rd32 ?m2 (?a + 4 * i) = rd32 m (?a + 4 * (i - 1))" if "i \<noteq> 0"
  proof -
    have "rd32 ?m2 (?a + 4 * i) = rd32 (m(error_register c := reg)) (?a + 4 * (i - 1))"
      using hs i by (intro shift_history_word) simp
    also have "\<dots> = rd32 m (?a + 4 * (i - 1))"
      using far [of "error_register c" "i - 1"] i by (intro rd32_upd_other) auto
    finally show ?thesis .
  qed
  moreover have "rd32 (emcy_store code info reg c m) (?a + 4 * i) = rd32 (wr32 ?m2 ?a ?v) (?a + 4 * i)"
    using num by (simp add: emcy_store_def Let_def)
  ultimately show ?thesis by simp
qed

text \<open>An accepted error enters the history (1003h) in front, the others move one place and the
  oldest is dropped, and one EMCY frame with the code and the new register leaves the
  node when the emergency service is on; an error that is already active, and an error for which no slot is left,
  changes nothing and sends nothing.\<close>

theorem EMCY_setError_reports:
  assumes ok: "emcy_ok d" "emcy_layout (cfg d)" and r: "EMCY_setError code msk info d = (res, d')"
  defines "full \<equiv> (\<forall>e \<in> set (error_data d). errCode e \<noteq> code \<and> active e = 1)"
  shows "if emcy_active code d \<or> full then d' = d \<and> res = (if emcy_active code d then 0 else 1)
    else emcy_active code d'
      \<and> error_history d' = (ucast code OR push_bit 16 (ucast info)) # butlast (error_history d)
      \<and> sent d' = sent d @ (if csEmergency (CurrentCommunicationState d) then
          [\<lparr> cob_id = ucast (rd32 (mem d') (error_cobid (cfg d))), rtr = NOT_A_REQUEST, mlen = 8,
             mdata = [ucast (code AND 0xFF), ucast (drop_bit 8 code AND 0xFF),
                      error_mask (error_data d'), 0, 0, 0, 0, 0] \<rparr>] else [])"
proof -
  define k where "k = emcy_slot code (error_data d)"
  define es where "es = (error_data d)[k := \<lparr>errCode = code, errRegMask = msk, active = 1\<rparr>]"
  define d1 where "d1 = d\<lparr>error_data := es, error_state := Error_occurred,
                  mem := emcy_store code info (error_mask es) (cfg d) (mem d)\<rparr>"
  note un = EMCY_setError_unfold [OF ok(1), of code msk info, folded k_def, folded es_def, folded d1_def]
  have kfull: "\<not> emcy_active code d \<Longrightarrow> k = length (error_data d) \<longleftrightarrow> full"
    using emcy_slot_full [OF ok(1)] by (simp add: k_def full_def)
  show ?thesis
  proof (cases "emcy_active code d \<or> full")
    case True
    with un kfull r show ?thesis by (auto split: if_splits)
  next
    case False
    then have kl: "k < length (error_data d)"
      using kfull find_pos_lt [of _ "error_data d"] by (simp add: k_def emcy_slot_def Let_def split: if_splits)
    have d': "d' = (if csEmergency (CurrentCommunicationState d)
        then snd (sendEMCY code (mem d1 (error_register (cfg d))) None 0 d1) else d1)"
      using arg_cong [OF r, of snd] un False kfull by (simp split: if_splits)
    have reg: "mem d1 (error_register (cfg d)) = error_mask es"
      using emcy_store_register [OF ok(2)] by (simp add: d1_def)
    have same: "error_data d' = es" "mem d' = mem d1" "cfg d' = cfg d" "cfg d1 = cfg d"
      by (simp_all add: d' d1_def)
    have "emcy_active code d'"
      unfolding emcy_active_def same es_def using kl
      by (auto intro!: bexI [of _ "\<lparr>errCode = code, errRegMask = msk, active = 1\<rparr>"] set_update_memI)
    moreover have "error_history d' = (ucast code OR push_bit 16 (ucast info)) # butlast (error_history d)"
    proof (rule nth_equalityI)
      have pos: "0 < unat (error_history_size (cfg d))"
        using ok(2) by (simp add: emcy_layout_def word_less_nat_alt)
      then show len: "length (error_history d') = length ((ucast code OR push_bit 16 (ucast info)) # butlast (error_history d))"
        by (simp add: error_history_def same)
      fix i
      assume "i < length (error_history d')"
      then have i: "i < unat (error_history_size (cfg d))" by (simp add: error_history_def same)
      then show "error_history d' ! i = ((ucast code OR push_bit 16 (ucast info)) # butlast (error_history d)) ! i"
        using emcy_store_history [OF ok(2) i, of code info "error_mask es" "mem d"]
        by (cases i) (simp_all add: error_history_def same d1_def nth_butlast)
    qed
    moreover have "sent d1 = sent d" by (simp add: d1_def sent_def)
    ultimately show ?thesis
      using False reg same d' by (auto simp: sendEMCY_sent)
  qed
qed

text \<open>An error that recovers is no longer active, the other errors keep their state, and the frame with the code
  "no error" is sent exactly when it was the last active one (and the service is on).\<close>

theorem EMCY_errorRecovered_clears:
  fixes code :: UNS16
  assumes ok: "emcy_ok d" "emcy_layout (cfg d)"
  defines "d' \<equiv> EMCY_errorRecovered code d"
  shows "\<not> emcy_active code d' \<and> (\<forall>c. c \<noteq> code \<longrightarrow> emcy_active c d' = emcy_active c d)
    \<and> (sent d' \<noteq> sent d \<longleftrightarrow> emcy_active code d \<and> error_state d' = Error_free
         \<and> csEmergency (CurrentCommunicationState d))"
proof (cases "emcy_active code d")
  case False
  then show ?thesis using EMCY_errorRecovered_inactive [OF ok(1)] by (simp add: d'_def)
next
  case True
  let ?i = "find_pos (\<lambda>e. errCode e = code) (error_data d)"
  let ?es = "(error_data d)[?i := (error_data d ! ?i)\<lparr>active := 0\<rparr>]"
  note un = EMCY_errorRecovered_unfold [OF ok(1) True, folded d'_def]
  have ok': "emcy_ok d'" unfolding d'_def by (rule emcy_ok_recovered [OF ok(1)])
  have "\<not> emcy_active code d'"
  proof -
    have "find_pos (\<lambda>e. errCode e = code) ?es = ?i"
      using un(1,2) find_pos_before [of _ "\<lambda>e. errCode e = code" "error_data d"]
      by (intro find_pos_first) (auto simp: nth_list_update)
    then show ?thesis
      using un(1) unfolding emcy_active_iff [OF ok'] un(3) by (simp add: Let_def c_true_def)
  qed
  moreover have "emcy_active c d' = emcy_active c d" if "c \<noteq> code" for c
  proof
    assume "emcy_active c d'"
    then show "emcy_active c d" using that
      by (auto simp: emcy_active_def un(3) dest!: set_update_subset_insert [THEN subsetD])
  next
    assume "emcy_active c d"
    then obtain j where "j < length (error_data d)" "errCode (error_data d ! j) = c" "active (error_data d ! j) = 1"
      by (auto simp: emcy_active_def in_set_conv_nth)
    moreover from this that un(2) have "j \<noteq> ?i" by metis
    ultimately show "emcy_active c d'"
      unfolding emcy_active_def un(3)
      by (intro bexI [of _ "?es ! j"]) (auto simp: in_set_conv_nth intro!: exI [of _ j])
  qed
  moreover have "error_state d' = Error_free \<longleftrightarrow> \<not> (\<exists>e \<in> set (error_data d'). active e = 1)"
    using ok' unfolding emcy_ok_def by (cases "error_state d'") auto
  then have "sent d' \<noteq> sent d \<longleftrightarrow> error_state d' = Error_free \<and> csEmergency (CurrentCommunicationState d)"
    using un(7) unfolding un(3) by blast
  ultimately show ?thesis using True by blast
qed

end
