(* ===== verification/LifeGuard.thy ===== *)
theory LifeGuard
  imports NodeInv
begin

text \<open>
  Network management frames and node supervision: \<^verbatim>\<open>CanFestival/src/nmtMaster.c\<close>, the boot-up
  frame of \<^verbatim>\<open>nmtSlave.c\<close>, and heartbeat and node guarding of \<^verbatim>\<open>lifegrd.c\<close>. Shown
  here: the operations keep the node invariant, the guarding answer alternates its toggle
  bit, a heartbeat frame re-arms the consumer's alarm for its producer only, and the
  alarm marks a silent producer as disconnected.
\<close>

section \<open>Frames of \<open>nmtMaster.c\<close> and \<open>nmtSlave.c\<close>\<close>

definition masterSendNMTstateChange :: "UNS8 \<Rightarrow> UNS8 \<Rightarrow> CO_Data \<Rightarrow> UNS8 \<times> CO_Data" where
  "masterSendNMTstateChange Node_ID cs d =
     canSend \<lparr>cob_id = 0x0000, rtr = NOT_A_REQUEST, mlen = 2, mdata = [cs, Node_ID]\<rparr> d"

definition masterSendNMTnodeguard :: "UNS8 \<Rightarrow> CO_Data \<Rightarrow> UNS8 \<times> CO_Data" where
  "masterSendNMTnodeguard nodeId d =
     canSend \<lparr>cob_id = ucast nodeId OR 0x700, rtr = REQUEST, mlen = 0, mdata = []\<rparr> d"

text \<open>A store into \<open>NMTable\<close>, which has 128 cells.\<close>

definition put_NMTable :: "UNS8 \<Rightarrow> UNS8 \<Rightarrow> CO_Data \<Rightarrow> CO_Data" where
  "put_NMTable nodeId st d =
     chk (unat nodeId < NMT_MAX_NODE_ID) (d\<lparr>NMTable := (NMTable d)[unat nodeId := st]\<rparr>)"

definition masterRequestNodeState :: "UNS8 \<Rightarrow> CO_Data \<Rightarrow> UNS8 \<times> CO_Data" where
  "masterRequestNodeState nodeId d =
     (let d1 = put_NMTable nodeId Unknown_state d;
          d2 = (if nodeId = 0 then d1\<lparr>NMTable := replicate NMT_MAX_NODE_ID Unknown_state\<rparr> else d1)
      in masterSendNMTnodeguard nodeId d2)"

definition slaveSendBootUp :: "CO_Data \<Rightarrow> UNS8 \<times> CO_Data" where
  "slaveSendBootUp d =
     canSend \<lparr>cob_id = 0x700 OR ucast (mem d (bDeviceNodeId (cfg d))), rtr = NOT_A_REQUEST, mlen = 1,
              mdata = [0x00]\<rparr> d"

section \<open>Heartbeat and node guarding\<close>

definition getNodeState :: "UNS8 \<Rightarrow> CO_Data \<Rightarrow> UNS8" where
  "getNodeState nodeId d = (if unat nodeId < NMT_MAX_NODE_ID then NMTable d ! unat nodeId else Unknown_state)"

definition consumer_entry :: "CO_Data \<Rightarrow> nat \<Rightarrow> UNS32" where
  "consumer_entry d i = rd32 (mem d) (ConsumerHeartbeatEntries (cfg d) + 4 * i)"

definition consumer_node :: "CO_Data \<Rightarrow> nat \<Rightarrow> UNS8" where
  "consumer_node d i = ucast (drop_bit 16 (consumer_entry d i AND 0x00FF0000))"

text \<open>A store into \<open>ConsumerHeartBeatTimers\<close>.\<close>

definition put_consumer_timer :: "nat \<Rightarrow> TIMER_HANDLE \<Rightarrow> CO_Data \<Rightarrow> CO_Data" where
  "put_consumer_timer i h d =
     chk (i < length (ConsumerHeartBeatTimers d))
       (d\<lparr>ConsumerHeartBeatTimers := (ConsumerHeartBeatTimers d)[i := h]\<rparr>)"

definition ConsumerHeartbeatAlarm :: "UNS32 \<Rightarrow> CO_Data \<Rightarrow> CO_Data" where
  "ConsumerHeartbeatAlarm ident d =
     (let nodeId = consumer_node d (unat ident);
          d1 = put_consumer_timer (unat ident) TIMER_NONE d;
          d2 = put_NMTable nodeId Disconnected d1
      in emit (Call_heartbeatError nodeId) d2)"

definition consumer_count :: "CO_Data \<Rightarrow> nat" where
  "consumer_count d = unat (mem d (ConsumerHeartbeatCount (cfg d)))"

definition renew_consumer :: "UNS8 \<Rightarrow> nat \<Rightarrow> CO_Data \<Rightarrow> CO_Data" where
  "renew_consumer nodeId i d =
     (if nodeId = consumer_node d i then
        (let time = consumer_entry d i AND 0x0000FFFF;
             d1 = snd (DelAlarm (ConsumerHeartBeatTimers d ! i) d);
             (h, d2) = SetAlarm (of_nat i) (Some ConsumerHeartbeatAlarm_cb) (MS_TO_TIMEVAL time) 0 d1
         in put_consumer_timer i h d2)
      else d)"

definition proceedNODE_GUARD :: "Message \<Rightarrow> CO_Data \<Rightarrow> CO_Data" where
  "proceedNODE_GUARD m d =
     (let nodeId = GET_NODE_ID m
      in if rtr m = 1 then
           (if nodeId = mem d (bDeviceNodeId (cfg d)) then
              (let t = c_true (toggle d);
                   st = (if t then nodeState d OR 0x80 else nodeState d);
                   d1 = d\<lparr>toggle := (if t then 0 else 1)\<rparr>
               in snd (canSend \<lparr>cob_id = ucast (mem d (bDeviceNodeId (cfg d))) + 0x700, rtr = 0, mlen = 1,
                                mdata = [st]\<rparr> d1))
            else d)
         else
           (let newNodeState = mdata m ! 0 AND 0x7F;
                d1 = d\<lparr>nodeGuardStatus := (nodeGuardStatus d)[unat nodeId := mem d (LifeTimeFactor (cfg d))]\<rparr>;
                d2 = (if NMTable d1 ! unat nodeId \<noteq> newNodeState
                      then put_NMTable nodeId newNodeState
                             (emit (Call_post_SlaveStateChange nodeId newNodeState) d1)
                      else d1);
                d3 = (if NMTable d2 ! unat nodeId = Initialisation
                      then emit (Call_post_SlaveBootup nodeId) d2 else d2)
            in if NMTable d3 ! unat nodeId \<noteq> Unknown_state
               then fold (renew_consumer nodeId) [0..<consumer_count d3] d3 else d3))"

definition ProducerHeartbeatAlarm :: "CO_Data \<Rightarrow> CO_Data" where
  "ProducerHeartbeatAlarm d =
     (if rd16 (mem d) (ProducerHeartBeatTime (cfg d)) \<noteq> 0 then
        snd (canSend \<lparr>cob_id = ucast (mem d (bDeviceNodeId (cfg d))) + 0x700, rtr = 0, mlen = 1,
                      mdata = [nodeState d]\<rparr> d)
      else let (h, d1) = DelAlarm (ProducerHeartBeatTimer d) d in d1\<lparr>ProducerHeartBeatTimer := h\<rparr>)"

definition guard_one :: "nat \<Rightarrow> CO_Data \<Rightarrow> CO_Data" where
  "guard_one i d =
     (if NMTable d ! i \<noteq> Unknown_state \<and> of_nat i \<noteq> mem d (bDeviceNodeId (cfg d)) then
        (let d1 = (if nodeGuardStatus d ! i = 0
                   then put_NMTable (of_nat i) Disconnected (emit (Call_nodeguardError (of_nat i)) d)
                   else d);
             d2 = d1\<lparr>nodeGuardStatus := (nodeGuardStatus d1)[i := nodeGuardStatus d1 ! i - 1]\<rparr>
         in snd (masterSendNMTnodeguard (of_nat i) d2))
      else d)"

definition GuardTimeAlarm :: "CO_Data \<Rightarrow> CO_Data" where
  "GuardTimeAlarm d =
     (if rd16 (mem d) (GuardTime (cfg d)) \<noteq> 0 then fold guard_one [0..<NMT_MAX_NODE_ID] d
      else let (h, d1) = DelAlarm (GuardTimeTimer d) d in d1\<lparr>GuardTimeTimer := h\<rparr>)"

definition init_consumer :: "nat \<Rightarrow> CO_Data \<Rightarrow> CO_Data" where
  "init_consumer i d =
     (let time = consumer_entry d i AND 0x0000FFFF
      in if time \<noteq> 0 then
           (let (h, d1) = SetAlarm (of_nat i) (Some ConsumerHeartbeatAlarm_cb) (MS_TO_TIMEVAL time) 0 d
            in put_consumer_timer i h d1)
         else d)"

definition heartbeatInit :: "CO_Data \<Rightarrow> CO_Data" where
  "heartbeatInit d =
     (let d1 = snd (RegisterSetODentryCallBack 0x1017 0x00 (Some OnHeartbeatProducerUpdate_cb) d);
          d2 = d1\<lparr>toggle := 0\<rparr>;
          d3 = fold init_consumer [0..<consumer_count d2] d2;
          pt = rd16 (mem d3) (ProducerHeartBeatTime (cfg d3))
      in if pt \<noteq> 0 then
           (let time = MS_TO_TIMEVAL (ucast pt);
                (h, d4) = SetAlarm 0 (Some ProducerHeartbeatAlarm_cb) time time d3
            in d4\<lparr>ProducerHeartBeatTimer := h\<rparr>)
         else d3)"

definition init_guard :: "nat \<Rightarrow> CO_Data \<Rightarrow> CO_Data" where
  "init_guard i d =
     (if NMTable d ! i \<noteq> Unknown_state \<and> of_nat i \<noteq> mem d (bDeviceNodeId (cfg d))
      then d\<lparr>nodeGuardStatus := (nodeGuardStatus d)[i := mem d (LifeTimeFactor (cfg d))]\<rparr> else d)"

definition nodeguardInit :: "CO_Data \<Rightarrow> CO_Data" where
  "nodeguardInit d =
     (let d1 = snd (RegisterSetODentryCallBack 0x100C 0x00 (Some OnNodeGuardUpdate_cb) d);
          d2 = snd (RegisterSetODentryCallBack 0x100D 0x00 (Some OnNodeGuardUpdate_cb) d1);
          gt = rd16 (mem d2) (GuardTime (cfg d2))
      in if gt \<noteq> 0 \<and> mem d2 (LifeTimeFactor (cfg d2)) \<noteq> 0 then
           (let time = MS_TO_TIMEVAL (ucast gt);
                (h, d3) = SetAlarm 0 (Some GuardTimeAlarm_cb) time time d2
            in fold init_guard [0..<NMT_MAX_NODE_ID] (d3\<lparr>GuardTimeTimer := h\<rparr>))
         else d2)"

definition stop_consumer :: "nat \<Rightarrow> CO_Data \<Rightarrow> CO_Data" where
  "stop_consumer i d =
     (let (h, d1) = DelAlarm (ConsumerHeartBeatTimers d ! i) d in put_consumer_timer i h d1)"

definition heartbeatStop :: "CO_Data \<Rightarrow> CO_Data" where
  "heartbeatStop d =
     (let d1 = fold stop_consumer [0..<consumer_count d] d;
          (h, d2) = DelAlarm (ProducerHeartBeatTimer d1) d1
      in d2\<lparr>ProducerHeartBeatTimer := h\<rparr>)"

definition nodeguardStop :: "CO_Data \<Rightarrow> CO_Data" where
  "nodeguardStop d = (let (h, d1) = DelAlarm (GuardTimeTimer d) d in d1\<lparr>GuardTimeTimer := h\<rparr>)"

definition lifeGuardInit :: "CO_Data \<Rightarrow> CO_Data" where
  "lifeGuardInit d = nodeguardInit (heartbeatInit d)"

definition lifeGuardStop :: "CO_Data \<Rightarrow> CO_Data" where
  "lifeGuardStop d = nodeguardStop (heartbeatStop d)"

definition OnNodeGuardUpdate :: "CO_Data \<Rightarrow> UNS32 \<times> CO_Data" where
  "OnNodeGuardUpdate d = (0, nodeguardInit (nodeguardStop d))"

definition OnHeartbeatProducerUpdate :: "CO_Data \<Rightarrow> UNS32 \<times> CO_Data" where
  "OnHeartbeatProducerUpdate d = (0, heartbeatInit (heartbeatStop d))"

section \<open>Invariant and frame\<close>

text \<open>
  The supervision operations leave the memory, the configuration and the parts of the node
  that belong to other services alone.
\<close>

definition guard_frame :: "CO_Data \<Rightarrow> CO_Data \<Rightarrow> bool" where
  "guard_frame d d' \<longleftrightarrow> mem d' = mem d \<and> cfg d' = cfg d \<and> PDO_status d' = PDO_status d
     \<and> transfers d' = transfers d \<and> CurrentCommunicationState d' = CurrentCommunicationState d
     \<and> nodeState d' = nodeState d \<and> error_data d' = error_data d \<and> error_state d' = error_state d
     \<and> syncTimer d' = syncTimer d \<and> RxPDO_EventTimers d' = RxPDO_EventTimers d"

lemma guard_frame_refl [simp]: "guard_frame d d"
  by (simp add: guard_frame_def)

lemma guard_frame_trans: "guard_frame d d' \<Longrightarrow> guard_frame d' d'' \<Longrightarrow> guard_frame d d''"
  by (simp add: guard_frame_def)

lemma fold_guard_frame:
  assumes "\<And>i e. guard_frame e (f i e)"
  shows "guard_frame d (fold f xs d)"
  using assms guard_frame_trans by (intro fold_keeps [where P = "guard_frame d"]) auto

lemmas guard_step_defs = put_consumer_timer_def put_NMTable_def chk_def emit_def canSend_def split_beta Let_def

lemma guard_steps_frame:
  "guard_frame d (renew_consumer n i d)" "guard_frame d (guard_one i d)" "guard_frame d (init_consumer i d)"
  "guard_frame d (init_guard i d)" "guard_frame d (stop_consumer i d)"
  by (simp_all add: guard_frame_def renew_consumer_def guard_one_def init_consumer_def init_guard_def
      stop_consumer_def masterSendNMTnodeguard_def guard_step_defs)

lemma guard_frame_simps:
  assumes "guard_frame d d'"
  shows "mem d' = mem d" "cfg d' = cfg d" "PDO_status d' = PDO_status d" "transfers d' = transfers d"
    "CurrentCommunicationState d' = CurrentCommunicationState d" "nodeState d' = nodeState d"
    "error_data d' = error_data d" "error_state d' = error_state d" "syncTimer d' = syncTimer d"
    "RxPDO_EventTimers d' = RxPDO_EventTimers d"
  using assms by (simp_all add: guard_frame_def)

lemma guard_loops_frame:
  "guard_frame d (fold (renew_consumer n) xs d)" "guard_frame d (fold guard_one xs d)"
  "guard_frame d (fold init_consumer xs d)" "guard_frame d (fold init_guard xs d)"
  "guard_frame d (fold stop_consumer xs d)"
  by (intro fold_guard_frame guard_steps_frame)+

lemmas guard_loops_simps [simp] = guard_loops_frame [THEN guard_frame_simps(1)]
  guard_loops_frame [THEN guard_frame_simps(2)] guard_loops_frame [THEN guard_frame_simps(3)]
  guard_loops_frame [THEN guard_frame_simps(4)] guard_loops_frame [THEN guard_frame_simps(5)]
  guard_loops_frame [THEN guard_frame_simps(6)] guard_loops_frame [THEN guard_frame_simps(7)]
  guard_loops_frame [THEN guard_frame_simps(8)] guard_loops_frame [THEN guard_frame_simps(9)]
  guard_loops_frame [THEN guard_frame_simps(10)]

lemma guard_ops_frame:
  "guard_frame d (heartbeatInit d)" "guard_frame d (nodeguardInit d)" "guard_frame d (heartbeatStop d)"
  "guard_frame d (nodeguardStop d)" "guard_frame d (ProducerHeartbeatAlarm d)" "guard_frame d (GuardTimeAlarm d)"
  "guard_frame d (ConsumerHeartbeatAlarm k d)" "guard_frame d (proceedNODE_GUARD m d)"
proof -
  show "guard_frame d (heartbeatInit d)"
    by (simp add: heartbeatInit_def guard_frame_def split_beta Let_def)
  show "guard_frame d (nodeguardInit d)"
    by (simp add: nodeguardInit_def guard_frame_def split_beta Let_def)
  show "guard_frame d (heartbeatStop d)"
    by (simp add: heartbeatStop_def guard_frame_def split_beta Let_def)
  show "guard_frame d (nodeguardStop d)"
    by (simp add: nodeguardStop_def guard_frame_def split_beta Let_def)
  show "guard_frame d (ProducerHeartbeatAlarm d)"
    by (simp add: ProducerHeartbeatAlarm_def guard_frame_def guard_step_defs)
  show "guard_frame d (GuardTimeAlarm d)"
    by (simp add: GuardTimeAlarm_def guard_frame_def split_beta Let_def)
  show "guard_frame d (ConsumerHeartbeatAlarm k d)"
    by (simp add: ConsumerHeartbeatAlarm_def guard_frame_def guard_step_defs)
  show "guard_frame d (proceedNODE_GUARD m d)"
    by (simp add: proceedNODE_GUARD_def guard_frame_def put_NMTable_def chk_def emit_def canSend_def Let_def)
qed

lemmas guard_ops_simps [simp] = guard_ops_frame [THEN guard_frame_simps(1)] guard_ops_frame [THEN guard_frame_simps(2)]
  guard_ops_frame [THEN guard_frame_simps(3)] guard_ops_frame [THEN guard_frame_simps(4)]
  guard_ops_frame [THEN guard_frame_simps(5)] guard_ops_frame [THEN guard_frame_simps(6)]
  guard_ops_frame [THEN guard_frame_simps(7)] guard_ops_frame [THEN guard_frame_simps(8)]
  guard_ops_frame [THEN guard_frame_simps(9)] guard_ops_frame [THEN guard_frame_simps(10)]

lemma put_NMTable_node_ok [simp, inv_intros]: "node_ok d \<Longrightarrow> node_ok (put_NMTable n s d)"
  by (simp add: put_NMTable_def node_ok_nmt_upd)

lemma put_consumer_timer_node_ok [simp, inv_intros]:
  "node_ok d \<Longrightarrow> handle_ok h \<Longrightarrow> node_ok (put_consumer_timer i h d)"
  by (simp add: put_consumer_timer_def node_ok_consumer_upd)

lemma nmt_frames_node_ok [simp]:
  "node_ok (snd (masterSendNMTstateChange n c d)) = node_ok d"
  "node_ok (snd (masterSendNMTnodeguard n d)) = node_ok d"
  "node_ok (snd (slaveSendBootUp d)) = node_ok d"
  by (simp_all add: masterSendNMTstateChange_def masterSendNMTnodeguard_def slaveSendBootUp_def)

lemma guardStatus_node_ok [simp]:
  "node_ok d \<Longrightarrow> node_ok (d\<lparr>nodeGuardStatus := (nodeGuardStatus d)[i := v]\<rparr>)"
  by (intro node_ok_nmt_upd) simp_all

lemma guard_steps_node_ok:
  assumes "node_ok d"
  shows "node_ok (renew_consumer nd i d)" "node_ok (init_consumer i d)" "node_ok (stop_consumer i d)"
    "node_ok (guard_one i d)" "node_ok (init_guard i d)"
  using assms
  by (simp_all add: renew_consumer_def init_consumer_def stop_consumer_def guard_one_def init_guard_def split_beta Let_def)

lemma guard_loops_node_ok:
  assumes "node_ok d"
  shows "node_ok (fold (renew_consumer nd) [0..<consumer_count d] d)"
    "node_ok (fold init_consumer [0..<consumer_count d] d)"
    "node_ok (fold stop_consumer [0..<consumer_count d] d)"
    "node_ok (fold guard_one xs d)" "node_ok (fold init_guard xs d)"
  by (rule fold_keeps [where P = node_ok, OF assms]; simp add: guard_steps_node_ok)+

lemma guard_ops_node_ok [simp, inv_intros]:
  assumes "node_ok d"
  shows "node_ok (heartbeatInit d)" "node_ok (nodeguardInit d)" "node_ok (heartbeatStop d)"
    "node_ok (nodeguardStop d)" "node_ok (ProducerHeartbeatAlarm d)" "node_ok (GuardTimeAlarm d)"
    "node_ok (ConsumerHeartbeatAlarm k d)" "node_ok (proceedNODE_GUARD m d)"
    "node_ok (snd (masterRequestNodeState n d))"
proof -
  show "node_ok (heartbeatInit d)"
    using assms guard_loops_node_ok(2)
    by (simp add: heartbeatInit_def split_beta Let_def node_ok_handle_upd)
  show "node_ok (nodeguardInit d)"
    using assms by (simp add: nodeguardInit_def split_beta Let_def node_ok_handle_upd guard_loops_node_ok(5))
  show "node_ok (heartbeatStop d)"
    using guard_loops_node_ok(3) [OF assms] node_ok_handles(1)
    by (simp add: heartbeatStop_def split_beta Let_def node_ok_handle_upd)
  show "node_ok (nodeguardStop d)"
    using assms node_ok_handles(2) by (simp add: nodeguardStop_def split_beta Let_def node_ok_handle_upd)
  show "node_ok (ProducerHeartbeatAlarm d)"
    using assms node_ok_handles(1) by (simp add: ProducerHeartbeatAlarm_def split_beta Let_def node_ok_handle_upd)
  show "node_ok (GuardTimeAlarm d)"
    using assms node_ok_handles(2)
    by (simp add: GuardTimeAlarm_def split_beta Let_def node_ok_handle_upd guard_loops_node_ok(4))
  show "node_ok (ConsumerHeartbeatAlarm k d)"
    using assms by (simp add: ConsumerHeartbeatAlarm_def Let_def)
  show "node_ok (proceedNODE_GUARD m d)"
    using assms by (simp add: proceedNODE_GUARD_def Let_def guard_loops_node_ok(1))
  show "node_ok (snd (masterRequestNodeState n d))"
    using assms by (simp add: masterRequestNodeState_def Let_def node_ok_nmt_upd)
qed

lemma lifeGuard_node_ok [simp, inv_intros]:
  "node_ok d \<Longrightarrow> node_ok (lifeGuardInit d)" "node_ok d \<Longrightarrow> node_ok (lifeGuardStop d)"
  "node_ok d \<Longrightarrow> node_ok (snd (OnNodeGuardUpdate d))" "node_ok d \<Longrightarrow> node_ok (snd (OnHeartbeatProducerUpdate d))"
  by (simp_all add: lifeGuardInit_def lifeGuardStop_def OnNodeGuardUpdate_def OnHeartbeatProducerUpdate_def)

section \<open>Properties\<close>

text \<open>Node guarding answers alternate the toggle bit. Two guarding requests in a row to
  this node are each answered with one frame on \<open>700h + node id\<close> that carries the NMT
  state in the low seven bits, and bit 7 of the two answers differs.\<close>

theorem guard_answers_alternate:
  assumes "rtr m = 1" "GET_NODE_ID m = mem d (bDeviceNodeId (cfg d))"
  shows "\<exists>a b. sent (proceedNODE_GUARD m (proceedNODE_GUARD m d)) = sent d @ [a, b]
    \<and> (\<forall>f \<in> {a, b}. cob_id f = ucast (mem d (bDeviceNodeId (cfg d))) + 0x700 \<and> rtr f = 0 \<and> mlen f = 1)
    \<and> {mdata a, mdata b} = {[nodeState d], [nodeState d OR 0x80]}"
proof -
  let ?f = "\<lambda>x. \<lparr>cob_id = ucast (mem d (bDeviceNodeId (cfg d))) + 0x700, rtr = 0, mlen = 1, mdata = [x]\<rparr>"
  let ?x = "\<lambda>t. if t then nodeState d OR 0x80 else nodeState d"
  have one: "proceedNODE_GUARD m e = emit (Send (?f (?x (c_true (toggle e)))))
      (e\<lparr>toggle := (if c_true (toggle e) then 0 else 1)\<rparr>)"
    if "mem e = mem d" "cfg e = cfg d" "nodeState e = nodeState d" for e
    using that assms by (simp add: proceedNODE_GUARD_def Let_def canSend_def)
  let ?d1 = "proceedNODE_GUARD m d"
  have d1: "?d1 = emit (Send (?f (?x (c_true (toggle d))))) (d\<lparr>toggle := (if c_true (toggle d) then 0 else 1)\<rparr>)"
    by (rule one) simp_all
  then have t: "c_true (toggle ?d1) = (\<not> c_true (toggle d))" by (simp add: emit_def c_true_def)
  have st: "sent (e\<lparr>toggle := b\<rparr>) = sent e" for e b by (simp add: sent_def)
  have "sent ?d1 = sent d @ [?f (?x (c_true (toggle d)))]" unfolding d1 by (simp add: st)
  moreover have "sent (proceedNODE_GUARD m ?d1) = sent ?d1 @ [?f (?x (c_true (toggle ?d1)))]"
    by (subst one) (simp_all add: st)
  ultimately have "sent (proceedNODE_GUARD m ?d1)
      = sent d @ [?f (?x (c_true (toggle d))), ?f (?x (\<not> c_true (toggle d)))]"
    by (simp add: t)
  then show ?thesis by (cases "c_true (toggle d)") (auto simp: insert_commute)
qed

lemma alarms_cong: "timers d' = timers d \<Longrightarrow> alarms d' = alarms d"
  by (simp add: alarms_def fun_eq_iff)

text \<open>Re-arming one consumer entry whose alarm is pending.\<close>

lemma renew_consumer_arms:
  assumes ok: "node_ok d" "hb_ok d" and i: "i < consumer_count d" "consumer_node d i = nd"
    and h: "0 \<le> ConsumerHeartBeatTimers d ! i"
  defines "d' \<equiv> renew_consumer nd i d"
  shows "\<exists>h'. ConsumerHeartBeatTimers d' ! i = h' \<and> 0 \<le> h' \<and> h' < 8
    \<and> alarms d' (nat h') = Some (Some ConsumerHeartbeatAlarm_cb, of_nat i,
        MS_TO_TIMEVAL (consumer_entry d i AND 0x0000FFFF) + getElapsedTime, 0)"
    and "NMTable d' = NMTable d" and "fault d' = fault d"
proof -
  have t: "timers_ok d" using ok(1) by (simp add: node_ok_def)
  have il: "i < length (ConsumerHeartBeatTimers d)"
    using i(1) hb_ok_consumer [OF ok(2)] by (simp add: consumer_count_def)
  let ?h = "ConsumerHeartBeatTimers d ! i"
  let ?v = "MS_TO_TIMEVAL (consumer_entry d i AND 0x0000FFFF)"
  let ?a = "(Some ConsumerHeartbeatAlarm_cb, of_nat i :: UNS32, ?v, 0 :: TIMEVAL)"
  have hok: "handle_ok ?h" "?h < 8" using node_ok_handles(4) [OF ok(1) il] by (auto simp: handle_ok_def)
  let ?d1 = "del_alarm ?h d"
  have t1: "timers_ok ?d1" using t hok by (simp add: del_alarm_def)
  have ne: "fst (set_alarm ?a ?d1) \<noteq> -1" using tbl.renew_ok [OF t, of ?a ?h] h hok(2) by simp
  have rows: "alarms (snd (set_alarm ?a ?d1)) (nat (fst (set_alarm ?a ?d1))) = Some (armed_as ?a)"
    using tbl.set_rows [OF t1 ne] by simp
  have d': "d' = put_consumer_timer i (fst (set_alarm ?a ?d1)) (snd (set_alarm ?a ?d1))"
    using i(2) by (simp add: d'_def renew_consumer_def del_alarm_def set_alarm_def split_beta Let_def)
  have len: "i < length (ConsumerHeartBeatTimers (snd (set_alarm ?a ?d1)))"
    using il by (simp add: set_alarm_def del_alarm_def)
  have "timers d' = timers (snd (set_alarm ?a ?d1))" by (simp add: d' put_consumer_timer_def chk_def)
  with rows have "alarms d' (nat (fst (set_alarm ?a ?d1))) = Some (armed_as ?a)"
    using alarms_cong by metis
  moreover have "ConsumerHeartBeatTimers d' ! i = fst (set_alarm ?a ?d1)"
    using len by (simp add: d' put_consumer_timer_def)
  ultimately show "\<exists>h'. ConsumerHeartBeatTimers d' ! i = h' \<and> 0 \<le> h' \<and> h' < 8
    \<and> alarms d' (nat h') = Some (Some ConsumerHeartbeatAlarm_cb, of_nat i, ?v + getElapsedTime, 0)"
    using tbl.set_fresh [OF t1 ne] by (simp add: armed_as_def)
  show "NMTable d' = NMTable d" "fault d' = fault d"
    using len hok(1) by (simp_all add: d' put_consumer_timer_def set_alarm_def del_alarm_def)
qed

lemma fold_renew_unique:
  assumes "i < n" "\<forall>j < n. j \<noteq> i \<longrightarrow> consumer_node d j \<noteq> nd"
  shows "fold (renew_consumer nd) [0..<n] d = renew_consumer nd i d"
proof -
  have same: "consumer_node (renew_consumer nd k e) j = consumer_node e j" for k e j
    using guard_frame_simps(1,2) [OF guard_steps_frame(1), of nd k e]
    by (simp add: consumer_node_def consumer_entry_def)
  have skip: "fold (renew_consumer nd) js e = e" if "\<forall>j \<in> set js. consumer_node e j \<noteq> nd" for js e
    using that by (induction js) (auto simp: renew_consumer_def)
  have "[0..<n] = [0..<i] @ i # [Suc i..<n]"
    using assms(1) by (metis less_imp_le_nat upt_add_eq_append upt_conv_Cons zero_le le_add_diff_inverse)
  then show ?thesis
    using skip [of "[0..<i]" d] skip [of "[Suc i..<n]" "renew_consumer nd i d"] assms same by simp
qed

text \<open>A heartbeat (or guarding answer) of a supervised producer records the state it
  carries and restarts the producer's timeout: after \<open>proceedNODE_GUARD\<close> the entry of the
  node table is the received state and no other entry changed, and the alarm of the
  consumer entry is armed again with the time configured in 1016h. Nothing is written outside the arrays.\<close>

theorem heartbeat_rearms_consumer:
  assumes ok: "node_ok d" "hb_ok d" and m: "rtr m \<noteq> 1" "mdata m ! 0 AND 0x7F \<noteq> Unknown_state"
    and i: "i < consumer_count d" "consumer_node d i = GET_NODE_ID m"
    and uniq: "\<forall>j < consumer_count d. j \<noteq> i \<longrightarrow> consumer_node d j \<noteq> GET_NODE_ID m"
    and h: "0 \<le> ConsumerHeartBeatTimers d ! i"
  defines "d' \<equiv> proceedNODE_GUARD m d"
  shows "NMTable d' = (NMTable d)[unat (GET_NODE_ID m) := mdata m ! 0 AND 0x7F]
    \<and> (\<exists>h'. ConsumerHeartBeatTimers d' ! i = h' \<and> 0 \<le> h' \<and> h' < 8
         \<and> alarms d' (nat h') = Some (Some ConsumerHeartbeatAlarm_cb, of_nat i,
             MS_TO_TIMEVAL (consumer_entry d i AND 0x0000FFFF) + getElapsedTime, 0))
    \<and> fault d' = fault d"
proof -
  let ?n = "GET_NODE_ID m" and ?st = "mdata m ! 0 AND 0x7F"
  have nlt: "unat ?n < 128"
  proof -
    have "unat (cob_id m AND 0x7F) < 128" using word_and_le1 [of "cob_id m" "0x7F"] by (simp add: word_le_nat_alt)
    then show ?thesis by (simp add: GET_NODE_ID_def unsigned_ucast_eq take_bit_nat_eq_self)
  qed
  define d1 where "d1 = d\<lparr>nodeGuardStatus := (nodeGuardStatus d)[unat ?n := mem d (LifeTimeFactor (cfg d))]\<rparr>"
  define d2 where "d2 = (if NMTable d1 ! unat ?n \<noteq> ?st
      then put_NMTable ?n ?st (emit (Call_post_SlaveStateChange ?n ?st) d1) else d1)"
  define d3 where "d3 = (if NMTable d2 ! unat ?n = Initialisation then emit (Call_post_SlaveBootup ?n) d2 else d2)"
  have ok3: "node_ok d3" using ok(1) by (simp add: d3_def d2_def d1_def)
  have tab: "NMTable d3 = (NMTable d)[unat ?n := ?st]"
    using list_update_id [of "NMTable d" "unat ?n"] nlt
    by (cases "NMTable d ! unat ?n = ?st")
      (simp_all add: d3_def d2_def d1_def put_NMTable_def emit_def)
  have same: "ConsumerHeartBeatTimers d3 = ConsumerHeartBeatTimers d" "mem d3 = mem d" "cfg d3 = cfg d"
    "fault d3 = fault d"
    using nlt by (auto simp: d3_def d2_def d1_def put_NMTable_def chk_def emit_def)
  then have hb3: "hb_ok d3" using ok(2) by (simp add: hb_ok_def)
  from same have cons: "consumer_node d3 = consumer_node d" "consumer_count d3 = consumer_count d"
    "consumer_entry d3 = consumer_entry d"
    by (simp_all add: consumer_node_def [abs_def] consumer_entry_def [abs_def] consumer_count_def)
  have "proceedNODE_GUARD m d = (if NMTable d3 ! unat ?n \<noteq> Unknown_state
      then fold (renew_consumer ?n) [0..<consumer_count d3] d3 else d3)"
    using m(1) unfolding proceedNODE_GUARD_def Let_def d3_def d2_def d1_def by (rule if_not_P)
  moreover have "NMTable d3 ! unat ?n = ?st" using tab nlt ok by simp
  ultimately have "d' = fold (renew_consumer ?n) [0..<consumer_count d3] d3"
    using m by (simp add: d'_def)
  also have "\<dots> = renew_consumer ?n i d3"
    using i uniq cons by (intro fold_renew_unique) simp_all
  finally show ?thesis
    using renew_consumer_arms [OF ok3 hb3, of i ?n] i h cons same tab by simp
qed

text \<open>When a heartbeat timeout expires, the producer is marked \<open>Disconnected\<close>, the
  application hook is called with its node id and the stored handle is dropped so that a late
  frame cannot delete a reused timer. The write stays inside the node table exactly
  when the node id configured in 1016h is below 128.\<close>

theorem consumer_alarm_disconnects:
  assumes ok: "node_ok d" "hb_ok d" and k: "unat k < consumer_count d"
  defines "nd \<equiv> consumer_node d (unat k)" and "d' \<equiv> ConsumerHeartbeatAlarm k d"
  shows "NMTable d' = (NMTable d)[unat nd := Disconnected]
    \<and> ConsumerHeartBeatTimers d' ! unat k = TIMER_NONE
    \<and> trace d' = trace d @ [Call_heartbeatError nd]
    \<and> (fault d' \<longleftrightarrow> fault d \<or> 128 \<le> nd)"
proof -
  have "unat k < length (ConsumerHeartBeatTimers d)"
    using k hb_ok_consumer [OF ok(2)] by (simp add: consumer_count_def)
  moreover have "128 \<le> nd \<longleftrightarrow> \<not> unat nd < 128" by (simp add: word_le_nat_alt not_less)
  ultimately show ?thesis using ok(1)
    by (simp add: d'_def nd_def [symmetric] ConsumerHeartbeatAlarm_def put_consumer_timer_def put_NMTable_def
        chk_def emit_def Let_def)
qed

text \<open>The guard counter of a silent node.\<close>

definition guard_errors :: "UNS8 \<Rightarrow> CO_Data \<Rightarrow> nat" where
  "guard_errors n d = length (filter (\<lambda>e. e = Call_nodeguardError n) (trace d))"

definition guarded :: "nat \<Rightarrow> CO_Data \<Rightarrow> bool" where
  "guarded i d \<longleftrightarrow> node_ok d \<and> i < NMT_MAX_NODE_ID \<and> NMTable d ! i \<noteq> Unknown_state
     \<and> of_nat i \<noteq> mem d (bDeviceNodeId (cfg d))"

lemma guard_one_step:
  assumes "guarded i d"
  shows "guarded i (guard_one i d)"
    and "nodeGuardStatus (guard_one i d) ! i = nodeGuardStatus d ! i - 1"
    and "guard_errors (of_nat i) (guard_one i d) =
         guard_errors (of_nat i) d + (if nodeGuardStatus d ! i = 0 then 1 else 0)"
proof -
  have i: "i < 128" "node_ok d" using assms by (simp_all add: guarded_def)
  have u: "unat (of_nat i :: UNS8) = i" using i by (simp add: unsigned_of_nat take_bit_nat_eq_self)
  have "NMTable (guard_one i d) ! i \<noteq> Unknown_state" "mem (guard_one i d) = mem d" "cfg (guard_one i d) = cfg d"
    using assms u guard_frame_simps(1,2) [OF guard_steps_frame(2)]
    by (auto simp: guarded_def guard_one_def masterSendNMTnodeguard_def guard_step_defs)
  then show "guarded i (guard_one i d)"
    using assms guard_steps_node_ok(4) [OF i(2)] by (simp add: guarded_def)
  show "nodeGuardStatus (guard_one i d) ! i = nodeGuardStatus d ! i - 1"
    using assms by (auto simp: guarded_def guard_one_def masterSendNMTnodeguard_def guard_step_defs)
  show "guard_errors (of_nat i) (guard_one i d) =
         guard_errors (of_nat i) d + (if nodeGuardStatus d ! i = 0 then 1 else 0)"
    using assms by (auto simp: guarded_def guard_one_def masterSendNMTnodeguard_def guard_step_defs guard_errors_def)
qed

lemma guard_count_down:
  assumes "guarded i d" "unat (nodeGuardStatus d ! i) = n"
  shows "guarded i ((guard_one i ^^ n) d) \<and> nodeGuardStatus ((guard_one i ^^ n) d) ! i = 0
    \<and> guard_errors (of_nat i) ((guard_one i ^^ n) d) = guard_errors (of_nat i) d"
  using assms
proof (induction n arbitrary: d)
  case 0
  then show ?case by (simp add: unat_eq_0)
next
  case (Suc n)
  note st = guard_one_step [OF Suc.prems(1)]
  have nz: "nodeGuardStatus d ! i \<noteq> 0" using Suc.prems(2) by auto
  then have "unat (nodeGuardStatus d ! i - 1) = n"
    using Suc.prems(2) by (simp add: unat_sub word_le_nat_alt)
  with Suc.IH [OF st(1)] st nz show ?case by (simp add: funpow_swap1 del: funpow.simps add: funpow_Suc_right)
qed

text \<open>The guard counter is an unsigned byte that is decremented without a floor: a node that
  stays silent is reported once, and not again for the next 255 guard periods, because
  the counter wraps from 0 to 255.\<close>

theorem silent_node_reported_once_in_256:
  assumes "guarded i d" "nodeGuardStatus d ! i = 0"
  shows "guard_errors (of_nat i) ((guard_one i ^^ 256) d) = guard_errors (of_nat i) d + 1
    \<and> nodeGuardStatus ((guard_one i ^^ 256) d) ! i = 0"
proof -
  note st = guard_one_step [OF assms(1)]
  have "unat (nodeGuardStatus (guard_one i d) ! i) = 255" using st(2) assms(2) by (simp add: unsigned_minus_1_eq_mask mask_eq_exp_minus_1)
  note down = guard_count_down [OF st(1) this]
  have "(guard_one i ^^ 256) d = (guard_one i ^^ 255) (guard_one i d)"
    using funpow_Suc_right [of 255 "guard_one i"] by simp
  with down st(3) assms(2) show ?thesis by simp
qed

end
