(* ===== verification/CopyBits.thy ===== *)
theory CopyBits
  imports Prelude
begin

text \<open>
  \<open>CopyBits\<close> of \<^verbatim>\<open>CanFestival/src/pdo.c\<close>, the routine that packs and unpacks the mapped
  variables of a PDO. It copies as many bits per turn as fit before the next byte
  boundary of source or destination. It is shown equal to the bit-by-bit
  specification: exactly the addressed bits of the destination receive the addressed
  bits of the source.

  The loop is given the number of bits as fuel; a turn copies at least one bit when both
  bit indices are below 8, so the fuel is never used up before the count is 0.
\<close>

section \<open>The routine\<close>

text \<open>
  \<open>Vect\<close>, the offset of the destination bit index over the source bit index, is positive
  exactly when the former is the larger; its absolute value is the shift.
\<close>

definition Aligned :: "UNS8 \<Rightarrow> UNS8 \<Rightarrow> UNS8 \<Rightarrow> UNS8" where
  "Aligned b SrcBitIndex DestBitIndex =
     (if DestBitIndex > SrcBitIndex then push_bit (unat DestBitIndex - unat SrcBitIndex) b
      else drop_bit (unat SrcBitIndex - unat DestBitIndex) b)"

definition BitsToCopy :: "UNS8 \<Rightarrow> UNS8 \<Rightarrow> UNS8 \<Rightarrow> UNS8" where
  "BitsToCopy NbBits SrcBitIndex DestBitIndex =
     (let BoudaryLimit = (if DestBitIndex > SrcBitIndex then 8 - DestBitIndex else 8 - SrcBitIndex)
      in if BoudaryLimit > NbBits then NbBits else BoudaryLimit)"

definition copy_mask :: "UNS8 \<Rightarrow> UNS8 \<Rightarrow> UNS8" where
  "copy_mask DestBitIndex n =
     push_bit (unat DestBitIndex + unat n) 0xFF OR drop_bit (8 - unat DestBitIndex) 0xFF"

text \<open>Byte positions are integers, because a big-endian cursor moves downwards.\<close>

fun CopyBits_loop :: "nat \<Rightarrow> UNS8 \<Rightarrow> UNS8 list \<Rightarrow> int \<Rightarrow> UNS8 \<Rightarrow> bool \<Rightarrow> UNS8 list \<Rightarrow> int \<Rightarrow> UNS8 \<Rightarrow> bool \<Rightarrow> UNS8 list" where
  "CopyBits_loop 0 NbBits src si sb SrcBigEndian dest di db DestBigEndian = dest"
| "CopyBits_loop (Suc fuel) NbBits src si sb SrcBigEndian dest di db DestBigEndian =
     (if NbBits > 0 then
        (let n = BitsToCopy NbBits sb db;
             msk = copy_mask db n;
             Filtered = Aligned (src ! nat si) sb db AND NOT msk;
             dest' = dest[nat di := dest ! nat di AND msk OR Filtered];
             (sb', si') = (if sb + n > 7 then (0, si + (if SrcBigEndian then -1 else 1)) else (sb + n, si));
             (db', di') = (if db + n > 7 then (0, di + (if DestBigEndian then -1 else 1)) else (db + n, di))
         in CopyBits_loop fuel (NbBits - n) src si' sb' SrcBigEndian dest' di' db' DestBigEndian)
      else dest)"

definition CopyBits :: "UNS8 \<Rightarrow> UNS8 list \<Rightarrow> nat \<Rightarrow> UNS8 \<Rightarrow> bool \<Rightarrow> UNS8 list \<Rightarrow> nat \<Rightarrow> UNS8 \<Rightarrow> bool \<Rightarrow> UNS8 list" where
  "CopyBits NbBits src si sb SrcBigEndian dest di db DestBigEndian =
     CopyBits_loop (unat NbBits) NbBits src (int si) sb SrcBigEndian dest (int di) db DestBigEndian"

section \<open>One turn\<close>

lemma bit_copy_mask:
  assumes "unat t < 8" "j < 8"
  shows "bit (copy_mask t n) j \<longleftrightarrow> j < unat t \<or> unat t + unat n \<le> j"
proof -
  have "(0xFF :: UNS8) = - 1" by simp
  then have "copy_mask t n = push_bit (unat t + unat n) (- 1) OR drop_bit (8 - unat t) (- 1)"
    by (simp only: copy_mask_def)
  with assms show ?thesis by (auto simp: bit_simps)
qed

lemma bit_Aligned:
  assumes "unat s < 8" "unat t < 8" "j < 8" "unat t \<le> j"
  shows "bit (Aligned b s t) j \<longleftrightarrow> bit b (j - unat t + unat s)"
  using assms
  by (cases "s < t")
    (auto simp: Aligned_def bit_simps word_less_nat_alt intro!: arg_cong [of _ _ "bit b"])

lemma BitsToCopy_value:
  assumes "unat s < 8" "unat t < 8"
  shows "unat (BitsToCopy n s t) = min (unat n) (8 - max (unat s) (unat t))"
proof -
  have "unat (8 - s) = 8 - unat s" "unat (8 - t) = 8 - unat t"
    using assms by (simp_all add: unat_sub word_le_nat_alt)
  then show ?thesis using assms
    by (auto simp: BitsToCopy_def Let_def word_less_nat_alt min_def max_def)
qed

lemma turn_byte:
  fixes s t n b old :: UNS8
  assumes "unat s < 8" "unat t < 8" "j < 8"
  defines "c \<equiv> unat (BitsToCopy n s t)"
  shows "bit (old AND copy_mask t (BitsToCopy n s t)
              OR Aligned b s t AND NOT (copy_mask t (BitsToCopy n s t))) j \<longleftrightarrow>
    (if unat t \<le> j \<and> j < unat t + c then bit b (j - unat t + unat s) else bit old j)"
  using assms by (auto simp: bit_simps bit_copy_mask bit_Aligned c_def)

section \<open>Bit strings\<close>

text \<open>Bit \<open>k\<close> of a byte array, least significant bit of byte 0 first.\<close>

definition lbit :: "UNS8 list \<Rightarrow> nat \<Rightarrow> bool" where
  "lbit xs k = bit (xs ! (k div 8)) (k mod 8)"

lemma lbit_eqI:
  assumes "length xs = length ys" "\<And>k. k < 8 * length xs \<Longrightarrow> lbit xs k = lbit ys k"
  shows "xs = ys"
proof (rule nth_equalityI [OF assms(1)])
  fix i
  assume i: "i < length xs"
  show "xs ! i = ys ! i"
  proof (rule bit_word_eqI)
    fix j
    assume "j < LENGTH(8)"
    then have "lbit xs (8 * i + j) = lbit ys (8 * i + j)" using i by (intro assms(2)) simp
    with \<open>j < LENGTH(8)\<close> show "bit (xs ! i) j = bit (ys ! i) j" by (simp add: lbit_def)
  qed
qed

lemma lbit_update:
  assumes "i < length xs"
  shows "lbit (xs[i := b]) k = (if k div 8 = i then bit b (k mod 8) else lbit xs k)"
  using assms by (simp add: lbit_def)

lemma length_CopyBits_loop [simp]:
  "length (CopyBits_loop f n src si sb sbe dest di db dbe) = length dest"
  by (induction f n src si sb sbe dest di db dbe rule: CopyBits_loop.induct)
    (simp_all add: Let_def split_beta)

lemma length_CopyBits [simp]: "length (CopyBits n src si sb sbe dest di db dbe) = length dest"
  by (simp add: CopyBits_def)

text \<open>Cursors: advancing a bit index by a number of bits that stays in the byte.\<close>

lemma cursor_step:
  fixes i :: nat and b n :: UNS8
  assumes "unat b < 8" "unat b + unat n \<le> 8"
  defines "r \<equiv> (if b + n > 7 then (0, int i + 1) else (b + n, int i))"
  shows "\<exists>i' b'. r = (b', int i') \<and> unat b' < 8 \<and> 8 * i' + unat b' = 8 * i + (unat b + unat n)"
proof -
  have s: "unat (b + n) = unat b + unat n" using assms by (simp add: unat_word_ariths)
  show ?thesis
  proof (cases "b + n > 7")
    case True
    then have "unat b + unat n = 8" using s assms(2) by (simp add: word_less_nat_alt)
    with True show ?thesis by (intro exI [of _ "Suc i"] exI [of _ 0]) (simp add: r_def)
  next
    case False
    with s show ?thesis by (intro exI [of _ i] exI [of _ "b + n"]) (simp add: r_def word_less_nat_alt)
  qed
qed

lemma CopyBits_loop_spec:
  assumes "unat sb < 8" "unat db < 8" "unat n \<le> fuel"
    "8 * si + unat sb + unat n \<le> 8 * length src" "8 * di + unat db + unat n \<le> 8 * length dest"
    "k < 8 * length dest"
  shows "lbit (CopyBits_loop fuel n src (int si) sb False dest (int di) db False) k \<longleftrightarrow>
    (if 8 * di + unat db \<le> k \<and> k < 8 * di + unat db + unat n
     then lbit src (8 * si + unat sb + (k - (8 * di + unat db))) else lbit dest k)"
  using assms
proof (induction fuel arbitrary: n si sb dest di db)
  case 0
  then show ?case by auto
next
  case (Suc fuel)
  show ?case
  proof (cases "n = 0")
    case True
    then show ?thesis by auto
  next
    case False
    let ?c = "BitsToCopy n sb db"
    have npos: "0 < unat n" using False by (simp add: unat_gt_0)
    have c: "unat ?c = min (unat n) (8 - max (unat sb) (unat db))"
      using BitsToCopy_value Suc.prems(1,2) by blast
    then have cpos: "0 < unat ?c" "unat ?c \<le> unat n" "unat sb + unat ?c \<le> 8" "unat db + unat ?c \<le> 8"
      using npos Suc.prems(1,2) by auto
    have rest: "unat (n - ?c) = unat n - unat ?c"
      using cpos(2) by (simp add: unat_sub word_le_nat_alt)
    obtain si' sb' where s': "(if sb + ?c > 7 then (0, int si + 1) else (sb + ?c, int si)) = (sb', int si')"
        "unat sb' < 8" "8 * si' + unat sb' = 8 * si + (unat sb + unat ?c)"
      using cursor_step [OF Suc.prems(1) cpos(3), of si] by blast
    obtain di' db' where d': "(if db + ?c > 7 then (0, int di + 1) else (db + ?c, int di)) = (db', int di')"
        "unat db' < 8" "8 * di' + unat db' = 8 * di + (unat db + unat ?c)"
      using cursor_step [OF Suc.prems(2) cpos(4), of di] by blast
    let ?byte = "dest ! di AND copy_mask db ?c OR Aligned (src ! si) sb db AND NOT (copy_mask db ?c)"
    let ?dest = "dest[di := ?byte]"
    have dil: "di < length dest" and sil: "si < length src"
      using Suc.prems npos by auto
    have un: "CopyBits_loop (Suc fuel) n src (int si) sb False dest (int di) db False =
        CopyBits_loop fuel (n - ?c) src (int si') sb' False ?dest (int di') db' False"
      using False s'(1) d'(1)
      by (cases "7 < sb + ?c"; cases "7 < db + ?c") (simp_all add: word_neq_0_conv [symmetric] Let_def)
    have IH: "lbit (CopyBits_loop fuel (n - ?c) src (int si') sb' False ?dest (int di') db' False) k \<longleftrightarrow>
       (if 8 * di' + unat db' \<le> k \<and> k < 8 * di' + unat db' + unat (n - ?c)
        then lbit src (8 * si' + unat sb' + (k - (8 * di' + unat db'))) else lbit ?dest k)"
      using Suc.prems s' d' rest cpos by (intro Suc.IH) auto
    have byte: "lbit ?dest k \<longleftrightarrow>
        (if 8 * di + unat db \<le> k \<and> k < 8 * di + unat db + unat ?c
         then lbit src (8 * si + unat sb + (k - (8 * di + unat db))) else lbit dest k)"
    proof (cases "k div 8 = di")
      case True
      then have k: "k = 8 * di + k mod 8" by (metis mult_div_mod_eq mult.commute)
      have j: "k mod 8 < 8" by simp
      have src_bit: "lbit src (8 * si + unat sb + (k - (8 * di + unat db)))
          = bit (src ! si) (k mod 8 - unat db + unat sb)"
        if "unat db \<le> k mod 8" "k mod 8 < unat db + unat ?c"
      proof -
        have e: "8 * si + unat sb + (k - (8 * di + unat db)) = 8 * si + (k mod 8 - unat db + unat sb)"
          using that k by linarith
        moreover have "k mod 8 - unat db + unat sb < 8" using that cpos by linarith
        ultimately show ?thesis unfolding e lbit_def by simp
      qed
      have rng: "8 * di + unat db \<le> k \<and> k < 8 * di + unat db + unat ?c
          \<longleftrightarrow> unat db \<le> k mod 8 \<and> k mod 8 < unat db + unat ?c"
        using k by linarith
      have old: "lbit dest k = bit (dest ! di) (k mod 8)" using True by (simp only: lbit_def)
      show ?thesis
        unfolding lbit_update [OF dil] if_P [OF True] turn_byte [OF Suc.prems(1,2) j] rng old
        by (rule if_cong) (auto simp: src_bit)
    next
      case no: False
      then have "\<not> (8 * di + unat db \<le> k \<and> k < 8 * di + unat db + unat ?c)"
        using cpos(4) by (auto intro!: notI dest!: div_nat_eqI [of 8 di k, rotated] simp: mult.commute)
      with no show ?thesis by (simp only: lbit_update [OF dil] if_False)
    qed
    show ?thesis
      unfolding un IH byte using s'(3) d'(3) rest cpos by (auto simp: add.assoc)
  qed
qed

section \<open>Properties\<close>

text \<open>C13: \<open>CopyBits\<close> is a bit-exact copy. For bit indices below 8 and ranges inside the
  arrays, bit \<open>j\<close> of the addressed range of the destination becomes bit \<open>j\<close> of the addressed range of the
  source, for all \<open>NbBits\<close> of them and whatever the alignment, and every other bit of the
  destination keeps its value.\<close>

theorem CopyBits_bit_exact:
  assumes "unat sb < 8" "unat db < 8"
    "8 * si + unat sb + unat n \<le> 8 * length src" "8 * di + unat db + unat n \<le> 8 * length dest"
  shows "length (CopyBits n src si sb False dest di db False) = length dest
    \<and> (\<forall>k < 8 * length dest. lbit (CopyBits n src si sb False dest di db False) k \<longleftrightarrow>
        (if 8 * di + unat db \<le> k \<and> k < 8 * di + unat db + unat n
         then lbit src (8 * si + unat sb + (k - (8 * di + unat db))) else lbit dest k))"
  using CopyBits_loop_spec [OF assms(1,2) order_refl assms(3,4)] by (simp add: CopyBits_def)

theorem CopyBits_bit_exact_witness:
  "length (CopyBits 12 [0xBC, 0x0A] 0 0 False [0xFF, 0, 0xFF] 0 3 False) = 3
   \<and> lbit (CopyBits 12 [0xBC, 0x0A] 0 0 False [0xFF, 0, 0xFF] 0 3 False) 5 = lbit [0xBC, 0x0A] 2"
proof -
  let ?r = "CopyBits 12 [0xBC, 0x0A] 0 0 False [0xFF, 0, 0xFF] 0 3 False"
  have "length ?r = 3 \<and> (\<forall>k < 24. lbit ?r k \<longleftrightarrow> (if 3 \<le> k \<and> k < 15
      then lbit [0xBC, 0x0A] (k - 3) else lbit [0xFF, 0, 0xFF] k))"
    using CopyBits_bit_exact [of 0 3 0 12 "[0xBC, 0x0A]" 0 "[0xFF, 0, 0xFF]"] by simp
  then show ?thesis by simp
qed

end
