(* ===== verification/Pdo.thy ===== *)
theory Pdo
  imports NodeInv CopyBits
begin

text \<open>
  Transmit PDOs, \<^verbatim>\<open>CanFestival/src/pdo.c\<close>: \<open>buildPDO\<close>, the event and inhibit timers, the
  scan of all TPDOs on a SYNC or an event, \<open>PDOInit\<close> and \<open>PDOStop\<close>. Reception is in the
  theory of \<open>proceedPDO\<close>, which needs the dictionary write. Shown here: the built frame holds the mapped
  objects bit by bit, a cyclic PDO leaves on every n-th SYNC, an event PDO leaves only on
  a change and not while it is inhibited, and the operations keep the node invariant.

  The loops over the TPDOs run over the table positions from \<open>firstIndex->PDO_TRS\<close> to
  \<open>lastIndex->PDO_TRS\<close>; \<open>pdoNum\<close> is the 8-bit number that the source counts along.
\<close>

section \<open>Building a PDO\<close>

text \<open>The dictionary variables of TPDO number \<open>n\<close>: communication parameters and mapping.\<close>

definition tpdo_com :: "CO_Data \<Rightarrow> UNS8 \<Rightarrow> nat" where
  "tpdo_com d n = unat (PDO_TRS (firstIndex (cfg d))) + unat n"

definition tpdo_map :: "CO_Data \<Rightarrow> UNS8 \<Rightarrow> nat" where
  "tpdo_map d n = unat (PDO_TRS_MAP (firstIndex (cfg d))) + unat n"

definition od_u32 :: "CO_Data \<Rightarrow> nat \<Rightarrow> nat \<Rightarrow> UNS32" where
  "od_u32 d i j = rd32 (mem d) (pObject (od_sub d i j))"

definition od_u16 :: "CO_Data \<Rightarrow> nat \<Rightarrow> nat \<Rightarrow> UNS16" where
  "od_u16 d i j = rd16 (mem d) (pObject (od_sub d i j))"

definition od_u8 :: "CO_Data \<Rightarrow> nat \<Rightarrow> nat \<Rightarrow> UNS8" where
  "od_u8 d i j = mem d (pObject (od_sub d i j))"

text \<open>A mapping parameter: index in the high 16 bits, subindex, size in bits in the low 8.\<close>

definition map_index :: "UNS32 \<Rightarrow> UNS16" where
  "map_index p = ucast (drop_bit 16 p)"

definition map_sub :: "UNS32 \<Rightarrow> UNS8" where
  "map_sub p = ucast (drop_bit 8 p AND 0x000000FF)"

definition map_size :: "UNS32 \<Rightarrow> UNS32" where
  "map_size p = p AND 0x000000FF"

definition ByteSize :: "UNS32 \<Rightarrow> UNS32" where
  "ByteSize sz = 1 + drop_bit 3 (sz - 1)"

text \<open>
  The \<open>do ... while\<close> over the mapping entries: \<open>n\<close> turns are left and \<open>j\<close> is \<open>prp_j\<close>. An
  entry beyond the subentry array is an access outside it.
\<close>

fun buildPDO_loop :: "nat \<Rightarrow> nat \<Rightarrow> nat \<Rightarrow> UNS32 \<Rightarrow> Message \<Rightarrow> CO_Data \<Rightarrow> UNS8 \<times> UNS32 \<times> Message \<times> CO_Data" where
  "buildPDO_loop 0 j mp off pdo d = (0, off, pdo, d)"
| "buildPDO_loop (Suc n) j mp off pdo d =
     (if \<not> j + 1 < length (pSubindex (od_entry d mp)) then (0xFF, off, pdo, chk False d)
      else let p = od_u32 d mp (j + 1); Size = map_size p
      in if Size \<noteq> 0 \<and> off + Size \<le> 64 then
           (let (r, d1) = getODentry (map_index p) (map_sub p) (Some (replicate 8 0)) (ByteSize Size) 0 False d
            in if rcode r \<noteq> OD_SUCCESSFUL then (0xFF, off, pdo, d1)
               else buildPDO_loop n (j + 1) mp (off + Size)
                      (pdo\<lparr>mdata := CopyBits (ucast Size) (rdest r) 0 0 False
                             (mdata pdo) (unat (drop_bit 3 off)) (ucast (off mod 8)) False\<rparr>) d1)
         else buildPDO_loop n (j + 1) mp off pdo d)"

definition buildPDO :: "UNS8 \<Rightarrow> Message \<Rightarrow> CO_Data \<Rightarrow> UNS8 \<times> Message \<times> CO_Data" where
  "buildPDO numPdo pdo d =
     (let mp = tpdo_map d numPdo;
          pdo1 = pdo\<lparr>cob_id := ucast (od_u32 d (tpdo_com d numPdo) 1 AND 0x7FF), rtr := NOT_A_REQUEST\<rparr>;
          (res, off, pdo2, d1) = buildPDO_loop (max 1 (unat (od_u8 d mp 0))) 0 mp 0 pdo1 d
      in if res \<noteq> 0 then (res, pdo2, d1)
         else (0, pdo2\<lparr>mlen := ucast (1 + drop_bit 3 (off - 1))\<rparr>, d1))"

section \<open>Sending\<close>

definition put_pdo :: "nat \<Rightarrow> s_PDO_status \<Rightarrow> CO_Data \<Rightarrow> CO_Data" where
  "put_pdo n p d = chk (n < length (PDO_status d)) (d\<lparr>PDO_status := (PDO_status d)[n := p]\<rparr>)"

definition sendPdo :: "nat \<Rightarrow> Message \<Rightarrow> CO_Data \<Rightarrow> CO_Data" where
  "sendPdo pdoNum pdo d =
     snd (canSend pdo (put_pdo pdoNum ((PDO_status d ! pdoNum)\<lparr>last_message := pdo\<rparr>) d))"

text \<open>Starting the two timers of a TPDO after a change was found.\<close>

definition start_event_timer :: "UNS8 \<Rightarrow> CO_Data \<Rightarrow> CO_Data" where
  "start_event_timer pdoNum d =
     (let dur = od_u16 d (tpdo_com d pdoNum) 5; n = unat pdoNum
      in if dur \<noteq> 0 then
           (let d1 = snd (DelAlarm (event_timer (PDO_status d ! n)) d);
                (h, d2) = SetAlarm (ucast pdoNum) (Some PDOEventTimerAlarm_cb) (MS_TO_TIMEVAL (ucast dur)) 0 d1
            in put_pdo n ((PDO_status d2 ! n)\<lparr>event_timer := h\<rparr>) d2)
         else d)"

definition start_inhibit_timer :: "UNS8 \<Rightarrow> CO_Data \<Rightarrow> CO_Data" where
  "start_inhibit_timer pdoNum d =
     (let dur = od_u16 d (tpdo_com d pdoNum) 3; n = unat pdoNum
      in if dur \<noteq> 0 then
           (let d1 = snd (DelAlarm (inhibit_timer (PDO_status d ! n)) d);
                (h, d2) = SetAlarm (ucast pdoNum) (Some PDOInhibitTimerAlarm_cb) (US_TO_TIMEVAL (ucast dur * 100)) 0 d1;
                p = PDO_status d2 ! n
            in put_pdo n (p\<lparr>inhibit_timer := h,
                            transmit_type_parameter := transmit_type_parameter p OR PDO_INHIBITED\<rparr>) d2)
         else d)"

definition sendOnePDOevent :: "UNS8 \<Rightarrow> CO_Data \<Rightarrow> UNS8 \<times> CO_Data" where
  "sendOnePDOevent pdoNum d =
     (let n = unat pdoNum
      in if \<not> csPDO (CurrentCommunicationState d)
            \<or> transmit_type_parameter (PDO_status d ! n) AND PDO_INHIBITED \<noteq> 0 then (0, d)
         else let (res, pdo, d1) = buildPDO pdoNum Message_Initializer d
         in if res \<noteq> 0 then (0, d1)
         else let last = last_message (PDO_status d1 ! n)
         in if cob_id last = cob_id pdo \<and> mlen last = mlen pdo \<and> mdata last = mdata pdo then (0, d1)
         else (1, sendPdo n pdo (start_inhibit_timer pdoNum (start_event_timer pdoNum d1))))"

definition PDOEventTimerAlarm :: "UNS32 \<Rightarrow> CO_Data \<Rightarrow> CO_Data" where
  "PDOEventTimerAlarm pdoNum d =
     (let n = unat pdoNum; p = PDO_status d ! n;
          d1 = put_pdo n (p\<lparr>event_timer := TIMER_NONE, last_message := (last_message p)\<lparr>cob_id := 0\<rparr>\<rparr>) d
      in snd (sendOnePDOevent (ucast pdoNum) d1))"

definition PDOInhibitTimerAlarm :: "UNS32 \<Rightarrow> CO_Data \<Rightarrow> CO_Data" where
  "PDOInhibitTimerAlarm pdoNum d =
     (let n = unat pdoNum; p = PDO_status d ! n;
          d1 = put_pdo n (p\<lparr>inhibit_timer := TIMER_NONE,
                 transmit_type_parameter := transmit_type_parameter p AND NOT PDO_INHIBITED\<rparr>) d
      in snd (sendOnePDOevent (ucast pdoNum) d1))"

definition RxPDO_EventTimers_Handler :: "CO_Data \<Rightarrow> CO_Data" where
  "RxPDO_EventTimers_Handler d = d"

text \<open>
  One TPDO in the scan of \<open>_sendPDOevent\<close>: states 3, 5 and 11 of the source's loop, of which
  3 decides, 5 sends the PDO that 3 built and 11 goes to the next.
\<close>

definition scan_tpdo :: "bool \<Rightarrow> nat \<Rightarrow> CO_Data \<Rightarrow> CO_Data" where
  "scan_tpdo isSyncEvent i d =
     (let com = unat (PDO_TRS (firstIndex (cfg d))) + i; pdoNum = of_nat i :: UNS8; n = unat pdoNum
      in if od_u32 d com 1 AND 0x80000000 \<noteq> 0 then d
         else let ty = od_u8 d com 2; p = PDO_status d ! n
         in if isSyncEvent \<and> ty \<ge> TRANS_SYNC_MIN \<and> ty \<le> TRANS_SYNC_MAX then
              (let t = transmit_type_parameter p + 1
               in if t = ty then
                    (let d1 = put_pdo n (p\<lparr>transmit_type_parameter := 0\<rparr>) d;
                         (res, pdo, d2) = buildPDO pdoNum Message_Initializer d1
                     in if res \<noteq> 0 then d2 else sendPdo n pdo d2)
                  else put_pdo n (p\<lparr>transmit_type_parameter := t\<rparr>) d)
            else if isSyncEvent \<and> ty = TRANS_RTR_SYNC then
              (let (res, pdo, d1) = buildPDO pdoNum (last_message p) d; q = PDO_status d1 ! n
               in put_pdo n (q\<lparr>last_message := pdo,
                    transmit_type_parameter :=
                      (if res \<noteq> 0 then transmit_type_parameter q AND NOT PDO_RTR_SYNC_READY
                       else transmit_type_parameter q OR PDO_RTR_SYNC_READY)\<rparr>) d1)
            else if isSyncEvent \<and> ty = TRANS_SYNC_ACYCLIC
                    \<or> \<not> isSyncEvent \<and> (ty = TRANS_EVENT_PROFILE \<or> ty = TRANS_EVENT_SPECIFIC)
                       \<and> transmit_type_parameter p AND PDO_INHIBITED = 0 then
              snd (sendOnePDOevent pdoNum d)
            else d)"

definition do_sendPDOevent :: "bool \<Rightarrow> CO_Data \<Rightarrow> UNS8 \<times> CO_Data" where
  "do_sendPDOevent isSyncEvent d =
     (0, if csPDO (CurrentCommunicationState d)
         then fold (scan_tpdo isSyncEvent) [0..<n_tpdo (cfg d)] d else d)"

definition sendPDOevent :: "CO_Data \<Rightarrow> UNS8 \<times> CO_Data" where
  "sendPDOevent d = do_sendPDOevent False d"

text \<open>Deleting both timers of a TPDO, as the parameter callback, the remote request and \<open>PDOStop\<close> do it.\<close>

definition zap_pdo_timers :: "nat \<Rightarrow> CO_Data \<Rightarrow> CO_Data" where
  "zap_pdo_timers n d =
     (let (h, d1) = DelAlarm (event_timer (PDO_status d ! n)) d;
          d2 = put_pdo n ((PDO_status d1 ! n)\<lparr>event_timer := h\<rparr>) d1;
          (h', d3) = DelAlarm (inhibit_timer (PDO_status d2 ! n)) d2
      in put_pdo n ((PDO_status d3 ! n)\<lparr>inhibit_timer := h'\<rparr>) d3)"

definition TPDO_Communication_Parameter_Callback :: "nat \<Rightarrow> UNS8 \<Rightarrow> CO_Data \<Rightarrow> UNS32 \<times> CO_Data" where
  "TPDO_Communication_Parameter_Callback OD_entry bSubindex d =
     (0, if csPDO (CurrentCommunicationState d) \<and> (bSubindex = 2 \<or> bSubindex = 3 \<or> bSubindex = 5) then
           (let numPdo = of_nat OD_entry - of_nat (unat (PDO_TRS (firstIndex (cfg d)))) :: UNS8;
                n = unat numPdo;
                d1 = zap_pdo_timers n d;
                d2 = put_pdo n ((PDO_status d1 ! n)\<lparr>transmit_type_parameter := 0\<rparr>) d1
            in PDOEventTimerAlarm (ucast numPdo) d2)
         else d)"

text \<open>Registering the callback of one TPDO; the cells 2, 3 and 5 are written without a check.\<close>

definition init_tpdo :: "nat \<Rightarrow> CO_Data \<Rightarrow> CO_Data" where
  "init_tpdo i d =
     (case scanIndexOD d (0x1800 + of_nat i) of
        Some (k, True) \<Rightarrow>
          (let cb = Some TPDO_Communication_Parameter_Callback_cb
           in chk (5 < length (callbacks d ! k))
                (d\<lparr>callbacks := (callbacks d)[k := (callbacks d ! k)[2 := cb, 3 := cb, 5 := cb]]\<rparr>))
      | _ \<Rightarrow> d)"

definition PDOInit :: "CO_Data \<Rightarrow> CO_Data" where
  "PDOInit d = snd (do_sendPDOevent False (fold init_tpdo [0..<n_tpdo (cfg d)] d))"

definition stop_tpdo :: "nat \<Rightarrow> CO_Data \<Rightarrow> CO_Data" where
  "stop_tpdo i d =
     (let n = unat (of_nat i :: UNS8);
          d1 = zap_pdo_timers n d;
          p = PDO_status d1 ! n
      in put_pdo n (p\<lparr>transmit_type_parameter := 0, last_message := (last_message p)\<lparr>cob_id := 0\<rparr>\<rparr>) d1)"

definition PDOStop :: "CO_Data \<Rightarrow> CO_Data" where
  "PDOStop d = fold stop_tpdo [0..<n_tpdo (cfg d)] d"

definition sendPDOrequest :: "UNS16 \<Rightarrow> CO_Data \<Rightarrow> UNS8 \<times> CO_Data" where
  "sendPDOrequest RPDOIndex d =
     (let off = PDO_RCV (firstIndex (cfg d))
      in if \<not> csPDO (CurrentCommunicationState d) then (0, d)
         else if off \<noteq> 0 \<and> RPDOIndex \<ge> 0x1400
                 \<and> off + (RPDOIndex - 0x1400) \<le> PDO_RCV (lastIndex (cfg d)) then
           canSend \<lparr>cob_id = od_u16 d (unat (off + (RPDOIndex - 0x1400))) 1, rtr = REQUEST, mlen = 0,
                    mdata = []\<rparr> d
         else (0xFF, d))"

section \<open>Invariant\<close>

lemma rtype_irrelevant: "od_entry (d\<lparr>fault := b\<rparr>) i = od_entry d i" "od_sub (d\<lparr>fault := b\<rparr>) i j = od_sub d i j"
  "od_u32 (d\<lparr>fault := b\<rparr>) i j = od_u32 d i j" "od_u16 (d\<lparr>fault := b\<rparr>) i j = od_u16 d i j"
  "od_u8 (d\<lparr>fault := b\<rparr>) i j = od_u8 d i j"
  by (simp_all add: od_entry_def od_sub_def od_u32_def od_u16_def od_u8_def)

text \<open>Building a frame changes nothing of the node but the fault flag, and keeps the frame's array.\<close>

lemma buildPDO_loop_state:
  "(case buildPDO_loop n j mp off pdo d of (res, off', pdo', d') \<Rightarrow>
      d' = d\<lparr>fault := fault d'\<rparr> \<and> length (mdata pdo') = length (mdata pdo)
      \<and> cob_id pdo' = cob_id pdo \<and> rtr pdo' = rtr pdo)"
proof (induction n j mp off pdo d rule: buildPDO_loop.induct)
  case (2 n j mp off pdo d)
  let ?p = "od_u32 d mp (j + 1)"
  let ?g = "getODentry (map_index ?p) (map_sub ?p) (Some (replicate 8 0)) (ByteSize (map_size ?p)) 0 False d"
  obtain r d1 where g: "?g = (r, d1)" by (cases ?g)
  have d1: "d1 = d\<lparr>fault := fault d1\<rparr>"
    using getODentry_state [of "map_index ?p" "map_sub ?p" "Some (replicate 8 0)" "ByteSize (map_size ?p)" 0 False d] g
    by simp
  show ?case
  proof (cases "j + 1 < length (pSubindex (od_entry d mp)) \<and> map_size ?p \<noteq> 0 \<and> off + map_size ?p \<le> 64
      \<and> rcode r = OD_SUCCESSFUL")
    case True
    then show ?thesis
      using "2.IH"(1) [OF _ refl refl _ g [symmetric] refl] g d1
      by (auto simp: Let_def split: prod.splits) (metis CO_Data.surjective CO_Data.update_convs(28))
  next
    case False
    then show ?thesis
      using "2.IH"(2) g d1 by (auto simp: Let_def chk_def split: prod.splits)
  qed
qed simp

lemma buildPDO_state:
  assumes "buildPDO n pdo d = (res, pdo', d')"
  shows "d' = d\<lparr>fault := fault d'\<rparr>" "length (mdata pdo') = length (mdata pdo)" "rtr pdo' = NOT_A_REQUEST"
    "cob_id pdo' = ucast (od_u32 d (tpdo_com d n) 1 AND 0x7FF)"
proof -
  let ?mp = "tpdo_map d n"
  let ?pdo = "pdo\<lparr>cob_id := ucast (od_u32 d (tpdo_com d n) 1 AND 0x7FF), rtr := NOT_A_REQUEST\<rparr>"
  obtain r off p2 d2 where l: "buildPDO_loop (max 1 (unat (od_u8 d ?mp 0))) 0 ?mp 0 ?pdo d = (r, off, p2, d2)"
    using prod_cases4 by blast
  note st = buildPDO_loop_state [where n = "max 1 (unat (od_u8 d ?mp 0))" and j = 0 and mp = ?mp and off = 0
      and pdo = ?pdo and d = d, unfolded l, simplified]
  have "d' = d2" "mdata pdo' = mdata p2" "rtr pdo' = rtr p2" "cob_id pdo' = cob_id p2"
    using assms l by (auto simp: buildPDO_def Let_def split: if_splits)
  with st show "d' = d\<lparr>fault := fault d'\<rparr>" "length (mdata pdo') = length (mdata pdo)" "rtr pdo' = NOT_A_REQUEST"
    "cob_id pdo' = ucast (od_u32 d (tpdo_com d n) 1 AND 0x7FF)" by simp_all
qed

text \<open>What the PDO operations leave alone.\<close>

definition pdo_frame :: "CO_Data \<Rightarrow> CO_Data \<Rightarrow> bool" where
  "pdo_frame d d' \<longleftrightarrow> mem d' = mem d \<and> cfg d' = cfg d \<and> transfers d' = transfers d
     \<and> CurrentCommunicationState d' = CurrentCommunicationState d \<and> nodeState d' = nodeState d
     \<and> error_data d' = error_data d \<and> error_state d' = error_state d \<and> syncTimer d' = syncTimer d
     \<and> NMTable d' = NMTable d \<and> nodeGuardStatus d' = nodeGuardStatus d
     \<and> ConsumerHeartBeatTimers d' = ConsumerHeartBeatTimers d \<and> ProducerHeartBeatTimer d' = ProducerHeartBeatTimer d
     \<and> GuardTimeTimer d' = GuardTimeTimer d \<and> RxPDO_EventTimers d' = RxPDO_EventTimers d
     \<and> length (PDO_status d') = length (PDO_status d)"

lemma sent_put_pdo [simp]: "sent (put_pdo k p d) = sent d"
  by (simp add: put_pdo_def chk_def sent_def)

lemma sent_start_timers [simp]:
  "sent (start_event_timer n d) = sent d" "sent (start_inhibit_timer n d) = sent d"
  by (simp_all add: start_event_timer_def start_inhibit_timer_def split_beta Let_def)

lemma pdo_frame_refl [simp]: "pdo_frame d d"
  by (simp add: pdo_frame_def)

lemma pdo_frame_trans: "pdo_frame d d' \<Longrightarrow> pdo_frame d' d'' \<Longrightarrow> pdo_frame d d''"
  by (simp add: pdo_frame_def)

lemma pdo_frame_fault [simp]: "pdo_frame d (d\<lparr>fault := b\<rparr>)"
  by (simp add: pdo_frame_def)

lemma pdo_frame_put [simp]: "pdo_frame d (put_pdo n p d)"
  by (simp add: pdo_frame_def put_pdo_def chk_def)

lemma pdo_frame_alarm [simp]:
  "pdo_frame d (snd (SetAlarm i cb v p d))" "pdo_frame d (snd (DelAlarm h d))"
  by (simp_all add: pdo_frame_def)

lemma pdo_frame_sendPdo [simp]: "pdo_frame d (sendPdo n pdo d)"
  by (simp add: pdo_frame_def sendPdo_def put_pdo_def chk_def canSend_def emit_def)

lemma pdo_frame_timers [simp]:
  "pdo_frame d (start_event_timer n d)" "pdo_frame d (start_inhibit_timer n d)"
  by (simp_all add: pdo_frame_def start_event_timer_def start_inhibit_timer_def put_pdo_def chk_def
      split_beta Let_def)

lemma pdo_frame_build: "buildPDO n pdo d = (res, pdo', d') \<Longrightarrow> pdo_frame d d'"
  using buildPDO_state(1) pdo_frame_fault by metis

lemma pdo_frame_sendOne [simp]: "pdo_frame d (snd (sendOnePDOevent n d))"
proof -
  obtain res pdo d1 where b: "buildPDO n Message_Initializer d = (res, pdo, d1)" by (metis prod_cases3)
  note f = pdo_frame_build [OF b]
  then have "pdo_frame d (sendPdo (unat n) pdo (start_inhibit_timer n (start_event_timer n d1)))"
    using pdo_frame_trans pdo_frame_sendPdo pdo_frame_timers by metis
  with b f show ?thesis by (simp add: sendOnePDOevent_def Let_def)
qed

lemma pdo_frame_alarms [simp]:
  "pdo_frame d (PDOEventTimerAlarm k d)" "pdo_frame d (PDOInhibitTimerAlarm k d)"
  unfolding PDOEventTimerAlarm_def PDOInhibitTimerAlarm_def Let_def
  by (rule pdo_frame_trans [OF pdo_frame_put pdo_frame_sendOne])+

lemma pdo_frame_scan [simp]: "pdo_frame d (scan_tpdo sy i d)"
proof -
  have sync: "pdo_frame d (case buildPDO k pdo (put_pdo n p d) of (res, q, d2) \<Rightarrow>
      if res \<noteq> 0 then d2 else sendPdo n q d2)" for k pdo n p
  proof -
    obtain res q d2 where b: "buildPDO k pdo (put_pdo n p d) = (res, q, d2)" by (metis prod_cases3)
    with pdo_frame_trans [OF pdo_frame_put pdo_frame_build [OF b]] show ?thesis
      using pdo_frame_trans pdo_frame_sendPdo by auto
  qed
  have rtr: "pdo_frame d (case buildPDO k pdo d of (res, q, d1) \<Rightarrow> put_pdo n (g res q d1) d1)" for k pdo n g
  proof -
    obtain res q d1 where b: "buildPDO k pdo d = (res, q, d1)" by (metis prod_cases3)
    with pdo_frame_trans [OF pdo_frame_build [OF b] pdo_frame_put] show ?thesis by simp
  qed
  show ?thesis
    unfolding scan_tpdo_def Let_def by (auto intro: sync rtr)
qed

lemma fold_pdo_frame:
  assumes "\<And>i e. pdo_frame e (f i e)"
  shows "pdo_frame d (fold f xs d)"
  using assms pdo_frame_trans by (intro fold_keeps [where P = "pdo_frame d"]) auto

lemma pdo_frame_zap: "pdo_frame e (zap_pdo_timers n e)"
  by (simp add: zap_pdo_timers_def pdo_frame_def put_pdo_def chk_def split_beta Let_def)

lemma pdo_frame_ops [simp]:
  "pdo_frame d (snd (do_sendPDOevent sy d))" "pdo_frame d (snd (sendPDOevent d))"
  "pdo_frame d (PDOInit d)" "pdo_frame d (PDOStop d)"
  "pdo_frame d (snd (TPDO_Communication_Parameter_Callback e s d))"
proof -
  show ev: "pdo_frame d (snd (do_sendPDOevent sy d))" for sy d
    by (simp add: do_sendPDOevent_def fold_pdo_frame)
  then show "pdo_frame d (snd (sendPDOevent d))" by (simp add: sendPDOevent_def)
  have "pdo_frame e (init_tpdo i e)" for i e
    by (simp add: init_tpdo_def pdo_frame_def chk_def Let_def split: option.split prod.split bool.split)
  then show "pdo_frame d (PDOInit d)"
    unfolding PDOInit_def by (intro pdo_frame_trans [OF fold_pdo_frame ev])
  note zap = pdo_frame_zap
  have "pdo_frame e (stop_tpdo i e)" for i e
    using zap unfolding stop_tpdo_def Let_def by (rule pdo_frame_trans [OF _ pdo_frame_put])
  then show "pdo_frame d (PDOStop d)" unfolding PDOStop_def by (rule fold_pdo_frame)
  have "pdo_frame d (PDOEventTimerAlarm k (put_pdo n p (zap_pdo_timers n d)))" for k n p
    using zap pdo_frame_trans pdo_frame_put pdo_frame_alarms(1) by metis
  then show "pdo_frame d (snd (TPDO_Communication_Parameter_Callback e s d))"
    by (simp add: TPDO_Communication_Parameter_Callback_def Let_def)
qed

lemmas pdo_frame_simps =
  pdo_frame_def [THEN iffD1, THEN conjunct1]
  pdo_frame_def [THEN iffD1, THEN conjunct2, THEN conjunct1]

text \<open>The invariant.\<close>

lemma node_ok_fault_eq: "d' = d\<lparr>fault := b\<rparr> \<Longrightarrow> node_ok d' = node_ok d"
  by simp

lemma put_pdo_node_ok [inv_intros]:
  "node_ok d \<Longrightarrow> (n < length (PDO_status d) \<Longrightarrow> pdo_ok p) \<Longrightarrow> node_ok (put_pdo n p d)"
  by (cases "n < length (PDO_status d)") (simp_all add: put_pdo_def node_ok_pdo_upd list_update_beyond)

lemma pdo_ok_upd [simp]:
  "pdo_ok (p\<lparr>transmit_type_parameter := t\<rparr>) = pdo_ok p"
  "pdo_ok p \<Longrightarrow> handle_ok h \<Longrightarrow> pdo_ok (p\<lparr>event_timer := h\<rparr>)"
  "pdo_ok p \<Longrightarrow> handle_ok h \<Longrightarrow> pdo_ok (p\<lparr>inhibit_timer := h\<rparr>)"
  "pdo_ok p \<Longrightarrow> length (mdata m) = 8 \<Longrightarrow> pdo_ok (p\<lparr>last_message := m\<rparr>)"
  "pdo_ok p \<Longrightarrow> length (mdata (last_message p)) = 8"
  by (simp_all add: pdo_ok_def)

lemma put_pdo_field_node_ok [simp]:
  assumes "node_ok d"
  shows "node_ok (put_pdo n ((PDO_status d ! n)\<lparr>transmit_type_parameter := t\<rparr>) d)"
    "handle_ok h \<Longrightarrow> node_ok (put_pdo n ((PDO_status d ! n)\<lparr>event_timer := h\<rparr>) d)"
    "handle_ok h \<Longrightarrow> node_ok (put_pdo n ((PDO_status d ! n)\<lparr>inhibit_timer := h\<rparr>) d)"
  using assms by (auto intro!: put_pdo_node_ok simp: node_ok_handles)

lemma zap_pdo_timers_node_ok [simp, inv_intros]:
  assumes "node_ok d"
  shows "node_ok (zap_pdo_timers n d)"
proof -
  let ?d2 = "put_pdo n ((PDO_status (snd (DelAlarm (event_timer (PDO_status d ! n)) d)) ! n)\<lparr>event_timer := TIMER_NONE\<rparr>)
      (snd (DelAlarm (event_timer (PDO_status d ! n)) d))"
  have ok2: "node_ok ?d2" using assms by (intro put_pdo_field_node_ok) simp_all
  have "node_ok (put_pdo n ((PDO_status (snd (DelAlarm h ?d2)) ! n)\<lparr>inhibit_timer := TIMER_NONE\<rparr>) (snd (DelAlarm h ?d2)))" for h
    using ok2 by (intro put_pdo_field_node_ok) simp_all
  then show ?thesis by (simp add: zap_pdo_timers_def split_beta Let_def)
qed

lemma pdo_timers_node_ok [simp, inv_intros]:
  "node_ok d \<Longrightarrow> node_ok (start_event_timer n d)" "node_ok d \<Longrightarrow> node_ok (start_inhibit_timer n d)"
  by (auto simp: start_event_timer_def start_inhibit_timer_def split_beta Let_def
      node_ok_handles intro!: put_pdo_node_ok)

lemma sendPdo_node_ok [inv_intros]: "node_ok d \<Longrightarrow> length (mdata pdo) = 8 \<Longrightarrow> node_ok (sendPdo n pdo d)"
  by (auto simp: sendPdo_def node_ok_handles intro!: put_pdo_node_ok)

lemma buildPDO_node_ok: "node_ok d \<Longrightarrow> buildPDO n pdo d = (res, pdo', d') \<Longrightarrow> node_ok d'"
  using buildPDO_state(1) node_ok_fault_eq by metis

lemma length_Message_Initializer [simp]: "length (mdata Message_Initializer) = 8"
  by (simp add: Message_Initializer_def)

lemma sendOnePDOevent_node_ok [simp, inv_intros]:
  assumes "node_ok d"
  shows "node_ok (snd (sendOnePDOevent n d))"
proof -
  obtain res pdo d1 where b: "buildPDO n Message_Initializer d = (res, pdo, d1)" by (metis prod_cases3)
  have "length (mdata pdo) = 8" "node_ok d1"
    using buildPDO_state(2) [OF b] buildPDO_node_ok [OF assms b] by simp_all
  then have "node_ok (sendPdo (unat n) pdo (start_inhibit_timer n (start_event_timer n d1)))"
    by (intro sendPdo_node_ok) simp_all
  with b assms \<open>node_ok d1\<close> show ?thesis by (simp add: sendOnePDOevent_def Let_def)
qed

lemma pdo_alarms_node_ok [simp, inv_intros]:
  assumes "node_ok d"
  shows "node_ok (PDOEventTimerAlarm k d)" "node_ok (PDOInhibitTimerAlarm k d)"
  using assms by (auto simp: PDOEventTimerAlarm_def PDOInhibitTimerAlarm_def Let_def node_ok_handles
      intro!: sendOnePDOevent_node_ok put_pdo_node_ok)

lemma scan_tpdo_node_ok [simp]:
  assumes ok: "node_ok d"
  shows "node_ok (scan_tpdo sy i d)"
proof -
  let ?n = "unat (of_nat i :: UNS8)"
  have p: "?n < length (PDO_status e) \<Longrightarrow> node_ok e \<Longrightarrow> pdo_ok (PDO_status e ! ?n)" for e
    by (simp add: node_ok_handles)
  have sync: "node_ok (case buildPDO k Message_Initializer (put_pdo ?n ((PDO_status d ! ?n)\<lparr>transmit_type_parameter := 0\<rparr>) d)
      of (res, q, d2) \<Rightarrow> if res \<noteq> 0 then d2 else sendPdo ?n q d2)" for k
  proof -
    let ?d1 = "put_pdo ?n ((PDO_status d ! ?n)\<lparr>transmit_type_parameter := 0\<rparr>) d"
    have ok1: "node_ok ?d1" using ok p by (intro put_pdo_node_ok) simp_all
    obtain res q d2 where b: "buildPDO k Message_Initializer ?d1 = (res, q, d2)" by (metis prod_cases3)
    with buildPDO_node_ok [OF ok1 b] buildPDO_state(2) [OF b] show ?thesis by (simp add: sendPdo_node_ok)
  qed
  have rtr: "node_ok (case buildPDO k (last_message (PDO_status d ! ?n)) d of (res, q, d1) \<Rightarrow>
      put_pdo ?n ((PDO_status d1 ! ?n)\<lparr>last_message := q, transmit_type_parameter := g res d1\<rparr>) d1)" for k g
  proof -
    obtain res q d1 where b: "buildPDO k (last_message (PDO_status d ! ?n)) d = (res, q, d1)" by (metis prod_cases3)
    have st: "PDO_status d1 = PDO_status d" using buildPDO_state(1) [OF b] by (metis CO_Data.select_convs(7) CO_Data.surjective CO_Data.update_convs(28))
    have "?n < length (PDO_status d1) \<Longrightarrow> length (mdata q) = 8"
      using buildPDO_state(2) [OF b] p [OF _ ok] st by simp
    then show ?thesis
      using buildPDO_node_ok [OF ok b] b p by (auto intro!: put_pdo_node_ok)
  qed
  have cnt: "node_ok (put_pdo ?n ((PDO_status d ! ?n)\<lparr>transmit_type_parameter := t\<rparr>) d)" for t
    using ok p by (intro put_pdo_node_ok) simp_all
  show ?thesis
    unfolding scan_tpdo_def Let_def using ok cnt sync rtr by (simp split: if_splits)
qed

lemma pdo_ops_node_ok [simp, inv_intros]:
  assumes ok: "node_ok d"
  shows "node_ok (snd (do_sendPDOevent sy d))" "node_ok (PDOInit d)" "node_ok (PDOStop d)"
    "node_ok (snd (TPDO_Communication_Parameter_Callback e s d))"
proof -
  have ev: "node_ok (snd (do_sendPDOevent sy d))" if "node_ok d" for sy d
    using that by (auto simp: do_sendPDOevent_def intro!: fold_keeps [where P = node_ok])
  show "node_ok (snd (do_sendPDOevent sy d))" by (rule ev [OF ok])
  have "node_ok (init_tpdo i e)" if "node_ok e" for i e
    using that
    by (auto simp: init_tpdo_def Let_def intro!: node_ok_callbacks_upd split: option.split prod.split bool.split)
  then show "node_ok (PDOInit d)"
    unfolding PDOInit_def by (intro ev fold_keeps [where P = node_ok] ok)
  have "node_ok (stop_tpdo i e)" if "node_ok e" for i e
    using that unfolding stop_tpdo_def Let_def by (intro put_pdo_node_ok) (simp_all add: node_ok_handles)
  then show "node_ok (PDOStop d)"
    unfolding PDOStop_def by (intro fold_keeps [where P = node_ok] ok)
  show "node_ok (snd (TPDO_Communication_Parameter_Callback e s d))"
    using ok by (auto simp: TPDO_Communication_Parameter_Callback_def Let_def node_ok_handles intro!: put_pdo_node_ok)
qed

section \<open>The contents of a built frame\<close>

text \<open>
  The layout that a list of mapping parameters prescribes: an entry of size 0, or one that
  does not fit the remaining bits of the frame, takes no place.
\<close>

fun pdo_layout :: "UNS32 list \<Rightarrow> nat \<Rightarrow> (nat \<times> UNS32) list" where
  "pdo_layout [] off = []"
| "pdo_layout (p # ps) off =
     (let s = unat (map_size p)
      in if s \<noteq> 0 \<and> off + s \<le> 64 then (off, p) # pdo_layout ps (off + s) else pdo_layout ps off)"

fun layout_end :: "UNS32 list \<Rightarrow> nat \<Rightarrow> nat" where
  "layout_end [] off = off"
| "layout_end (p # ps) off =
     (let s = unat (map_size p) in layout_end ps (if s \<noteq> 0 \<and> off + s \<le> 64 then off + s else off))"

definition mapped_bytes :: "CO_Data \<Rightarrow> UNS32 \<Rightarrow> UNS8 list" where
  "mapped_bytes d p = put_list (replicate 8 0) 0 (the (od_view d (map_index p, map_sub p)))"

definition mappable :: "CO_Data \<Rightarrow> UNS32 \<Rightarrow> bool" where
  "mappable d p \<longleftrightarrow> (\<exists>sub. od_obj d (map_index p, map_sub p) = Some sub
     \<and> bDataType sub \<noteq> visible_string \<and> ssize sub \<le> ByteSize (map_size p))"

text \<open>Bit \<open>k\<close> of a frame with a given layout over old contents.\<close>

definition layout_bit :: "CO_Data \<Rightarrow> (nat \<times> UNS32) list \<Rightarrow> UNS8 list \<Rightarrow> nat \<Rightarrow> bool" where
  "layout_bit d ly old k =
     (case find (\<lambda>(o1, p). o1 \<le> k \<and> k < o1 + unat (map_size p)) ly of
        None \<Rightarrow> lbit old k
      | Some (o1, p) \<Rightarrow> lbit (mapped_bytes d p) (k - o1))"

definition tpdo_params :: "CO_Data \<Rightarrow> nat \<Rightarrow> nat \<Rightarrow> nat \<Rightarrow> UNS32 list" where
  "tpdo_params d mp j n = map (\<lambda>i. od_u32 d mp (i + 1)) [j..<j + n]"

lemma layout_from: "(o1, p) \<in> set (pdo_layout ps off) \<Longrightarrow> off \<le> o1"
  by (induction ps off rule: pdo_layout.induct) (auto simp: Let_def split: if_splits)

lemma layout_end_ge: "off \<le> layout_end ps off"
proof (induction ps arbitrary: off)
  case (Cons p ps)
  from Cons.IH [of "off + unat (map_size p)"] Cons.IH [of off] show ?case by (auto simp: Let_def)
qed simp

lemma layout_end_le: "off \<le> 64 \<Longrightarrow> layout_end ps off \<le> 64"
  by (induction ps arbitrary: off) (auto simp: Let_def)

lemma map_size_le: "unat (map_size p) \<le> 255"
  using word_and_le1 [of p "0xFF"] by (simp add: map_size_def word_le_nat_alt)

lemma ByteSize_value: "s \<noteq> 0 \<Longrightarrow> unat s \<le> 64 \<Longrightarrow> unat (ByteSize s) = 1 + (unat s - 1) div 8"
proof -
  assume s: "s \<noteq> 0" "unat s \<le> 64"
  then have "unat (s - 1) = unat s - 1" by (simp add: unat_sub word_le_nat_alt unat_gt_0 Suc_le_eq)
  then have "unat (drop_bit 3 (s - 1)) = (unat s - 1) div 8"
    by (simp add: drop_bit_eq_div unat_div)
  with s show ?thesis by (simp add: ByteSize_def unat_word_ariths)
qed

lemma length_mapped_bytes [simp]: "length (mapped_bytes d p) = 8"
  by (simp add: mapped_bytes_def)

lemma getODentry_mapped:
  assumes "mappable d p" "map_size p \<noteq> 0" "unat (map_size p) \<le> 64"
  shows "\<exists>r. getODentry (map_index p) (map_sub p) (Some (replicate 8 0)) (ByteSize (map_size p)) 0 False d = (r, d)
    \<and> rcode r = OD_SUCCESSFUL \<and> rdest r = mapped_bytes d p"
proof -
  obtain sub where sub: "od_obj d (map_index p, map_sub p) = Some sub" "bDataType sub \<noteq> visible_string"
      "ssize sub \<le> ByteSize (map_size p)"
    using assms(1) by (auto simp: mappable_def)
  have "unat (ByteSize (map_size p)) \<le> 8"
    using ByteSize_value [OF assms(2,3)] assms(3) by simp
  with getODentry_ok [OF sub, of "replicate 8 0" False 0] sub show ?thesis
    by (simp add: mapped_bytes_def od_view_def)
qed

lemma pdo_copy_bits:
  assumes len: "length buf = 8" "length tmp = 8" and s: "unat Size \<le> 64" "unat off + unat Size \<le> 64" and k: "k < 64"
  shows "lbit (CopyBits (ucast (Size :: UNS32)) tmp 0 0 False buf (unat (drop_bit 3 (off :: UNS32))) (ucast (off mod 8)) False) k
    \<longleftrightarrow> (if unat off \<le> k \<and> k < unat off + unat Size then lbit tmp (k - unat off) else lbit buf k)"
proof -
  have n: "unat (ucast Size :: UNS8) = unat Size"
    using s(1) by (simp add: unsigned_ucast_eq take_bit_nat_eq_self)
  have o1: "unat (drop_bit 3 off) = unat off div 8"
    by (simp add: drop_bit_eq_div unat_div)
  have "unat (off mod 8) = unat off mod 8" by (simp add: unat_mod)
  then have o2: "unat (ucast (off mod 8) :: UNS8) = unat off mod 8"
    by (simp add: unsigned_ucast_eq take_bit_nat_eq_self)
  have o: "8 * (unat off div 8) + unat off mod 8 = unat off" by simp
  show ?thesis
    using CopyBits_loop_spec [of 0 "ucast (off mod 8)" "ucast Size" "unat (ucast Size :: UNS8)" 0 tmp "unat (drop_bit 3 off)" buf k]
      len s k n o1 o2 o
    by (simp add: CopyBits_def)
qed

lemma buildPDO_loop_spec:
  assumes "length (mdata pdo) = 8" "unat off \<le> 64" "j + n < length (pSubindex (od_entry d mp))"
    "\<forall>(o1, p) \<in> set (pdo_layout (tpdo_params d mp j n) (unat off)). mappable d p"
  shows "\<exists>off' pdo'. buildPDO_loop n j mp off pdo d = (0, off', pdo', d)
    \<and> unat off' = layout_end (tpdo_params d mp j n) (unat off) \<and> length (mdata pdo') = 8
    \<and> (\<forall>k < 64. lbit (mdata pdo') k = layout_bit d (pdo_layout (tpdo_params d mp j n) (unat off)) (mdata pdo) k)"
  using assms
proof (induction n arbitrary: j off pdo)
  case 0
  then show ?case by (simp add: tpdo_params_def layout_bit_def)
next
  case (Suc n)
  let ?p = "od_u32 d mp (j + 1)" let ?s = "map_size ?p"
  let ?ps = "tpdo_params d mp (j + 1) n"
  have ps: "tpdo_params d mp j (Suc n) = ?p # ?ps"
    by (simp add: tpdo_params_def upt_conv_Cons del: upt_Suc)
  have j: "j + 1 < length (pSubindex (od_entry d mp))" "(j + 1) + n < length (pSubindex (od_entry d mp))"
    using Suc.prems(3) by simp_all
  have sum: "unat (off + ?s) = unat off + unat ?s"
    using Suc.prems(2) map_size_le [of ?p] by (simp add: unat_word_ariths)
  have test: "(?s \<noteq> 0 \<and> off + ?s \<le> 64) \<longleftrightarrow> unat ?s \<noteq> 0 \<and> unat off + unat ?s \<le> 64"
    using sum by (auto simp: word_le_nat_alt unat_eq_0)
  show ?case
  proof (cases "unat ?s \<noteq> 0 \<and> unat off + unat ?s \<le> 64")
    case False
    then have ly: "pdo_layout (tpdo_params d mp j (Suc n)) (unat off) = pdo_layout ?ps (unat off)"
      "layout_end (tpdo_params d mp j (Suc n)) (unat off) = layout_end ?ps (unat off)"
      by (auto simp: ps Let_def)
    have step: "buildPDO_loop (Suc n) j mp off pdo d = buildPDO_loop n (j + 1) mp off pdo d"
      using False test j(1) by (auto simp: Let_def)
    show ?thesis
      unfolding step ly by (rule Suc.IH) (use Suc.prems ly j(2) in simp_all)
  next
    case True
    then have ly: "pdo_layout (tpdo_params d mp j (Suc n)) (unat off)
        = (unat off, ?p) # pdo_layout ?ps (unat off + unat ?s)"
      "layout_end (tpdo_params d mp j (Suc n)) (unat off) = layout_end ?ps (unat off + unat ?s)"
      by (auto simp: ps Let_def)
    have m: "mappable d ?p" using Suc.prems(4) ly(1) by simp
    obtain r where r: "getODentry (map_index ?p) (map_sub ?p) (Some (replicate 8 0)) (ByteSize ?s) 0 False d = (r, d)"
        "rcode r = OD_SUCCESSFUL" "rdest r = mapped_bytes d ?p"
      using getODentry_mapped [OF m] True test by auto
    let ?pdo = "pdo\<lparr>mdata := CopyBits (ucast ?s) (mapped_bytes d ?p) 0 0 False (mdata pdo)
        (unat (drop_bit 3 off)) (ucast (off mod 8)) False\<rparr>"
    have step: "buildPDO_loop (Suc n) j mp off pdo d = buildPDO_loop n (j + 1) mp (off + ?s) ?pdo d"
      using True test j(1) r by (simp add: Let_def)
    have "\<exists>off' pdo'. buildPDO_loop n (j + 1) mp (off + ?s) ?pdo d = (0, off', pdo', d)
      \<and> unat off' = layout_end ?ps (unat (off + ?s)) \<and> length (mdata pdo') = 8
      \<and> (\<forall>k < 64. lbit (mdata pdo') k = layout_bit d (pdo_layout ?ps (unat (off + ?s))) (mdata ?pdo) k)"
      by (rule Suc.IH) (use Suc.prems ly j(2) sum True in simp_all)
    then obtain off' pdo' where ih: "buildPDO_loop n (j + 1) mp (off + ?s) ?pdo d = (0, off', pdo', d)"
        "unat off' = layout_end ?ps (unat off + unat ?s)" "length (mdata pdo') = 8"
        "\<forall>k < 64. lbit (mdata pdo') k = layout_bit d (pdo_layout ?ps (unat off + unat ?s)) (mdata ?pdo) k"
      unfolding sum by blast
    have "layout_bit d (pdo_layout ?ps (unat off + unat ?s)) (mdata ?pdo) k
        = layout_bit d ((unat off, ?p) # pdo_layout ?ps (unat off + unat ?s)) (mdata pdo) k" if k: "k < 64" for k
    proof -
      have new: "lbit (mdata ?pdo) k = (if unat off \<le> k \<and> k < unat off + unat ?s
          then lbit (mapped_bytes d ?p) (k - unat off) else lbit (mdata pdo) k)"
        using pdo_copy_bits [OF Suc.prems(1) length_mapped_bytes _ _ k] True by simp
      have none: "find (\<lambda>(o1, p). o1 \<le> k \<and> k < o1 + unat (map_size p)) (pdo_layout ?ps (unat off + unat ?s)) = None"
        if "k < unat off + unat ?s"
        using that layout_from by (fastforce simp: find_None_iff)
      show ?thesis
        using none new by (auto simp: layout_bit_def split: option.split)
    qed
    with ih show ?thesis unfolding step ly by auto
  qed
qed

text \<open>The mapping of TPDO \<open>n\<close> is well formed: as many entries as announced exist, and the mapped objects can be read.\<close>

definition tpdo_mapping :: "CO_Data \<Rightarrow> UNS8 \<Rightarrow> UNS32 list" where
  "tpdo_mapping d n = tpdo_params d (tpdo_map d n) 0 (max 1 (unat (od_u8 d (tpdo_map d n) 0)))"

definition tpdo_ok :: "CO_Data \<Rightarrow> UNS8 \<Rightarrow> bool" where
  "tpdo_ok d n \<longleftrightarrow>
     max 1 (unat (od_u8 d (tpdo_map d n) 0)) < length (pSubindex (od_entry d (tpdo_map d n)))
     \<and> (\<forall>(o1, p) \<in> set (pdo_layout (tpdo_mapping d n) 0). mappable d p)"

lemma frame_length:
  assumes "unat off \<le> 64"
  shows "unat (ucast (1 + drop_bit 3 (off - 1 :: UNS32)) :: UNS8) = (unat off + 7) div 8"
proof (cases "off = 0")
  case True
  have "unat (ucast (1 + drop_bit 3 (0 - 1 :: UNS32)) :: UNS8) = 0" by code_simp
  with True show ?thesis by (simp only: unat_0)
next
  case False
  then have "unat (1 + drop_bit 3 (off - 1)) = 1 + (unat off - 1) div 8"
    using ByteSize_value [OF False assms] by (simp add: ByteSize_def)
  moreover have "0 < unat off" using False by (simp add: unat_gt_0)
  ultimately show ?thesis
    using assms by (simp add: unsigned_ucast_eq take_bit_nat_eq_self)
qed

lemma buildPDO_spec:
  assumes "tpdo_ok d n" "length (mdata pdo) = 8"
  shows "\<exists>pdo'. buildPDO n pdo d = (0, pdo', d) \<and> length (mdata pdo') = 8
    \<and> cob_id pdo' = ucast (od_u32 d (tpdo_com d n) 1 AND 0x7FF) \<and> rtr pdo' = NOT_A_REQUEST
    \<and> unat (mlen pdo') = (layout_end (tpdo_mapping d n) 0 + 7) div 8
    \<and> (\<forall>k < 64. lbit (mdata pdo') k = layout_bit d (pdo_layout (tpdo_mapping d n) 0) (mdata pdo) k)"
proof -
  let ?mp = "tpdo_map d n" let ?c = "max 1 (unat (od_u8 d ?mp 0))"
  let ?pdo = "pdo\<lparr>cob_id := ucast (od_u32 d (tpdo_com d n) 1 AND 0x7FF), rtr := NOT_A_REQUEST\<rparr>"
  obtain off p2 where l: "buildPDO_loop ?c 0 ?mp 0 ?pdo d = (0, off, p2, d)"
      "unat off = layout_end (tpdo_mapping d n) 0" "length (mdata p2) = 8"
      "\<forall>k < 64. lbit (mdata p2) k = layout_bit d (pdo_layout (tpdo_mapping d n) 0) (mdata pdo) k"
    using buildPDO_loop_spec [of ?pdo 0 0 ?c d ?mp] assms by (auto simp: tpdo_ok_def tpdo_mapping_def)
  have b: "buildPDO n pdo d = (0, p2\<lparr>mlen := ucast (1 + drop_bit 3 (off - 1))\<rparr>, d)"
    using l(1) by (simp add: buildPDO_def Let_def)
  have "unat off \<le> 64" using l(2) layout_end_le [of 0] by simp
  from frame_length [OF this] buildPDO_state(3,4) [OF b] l b show ?thesis by simp
qed

text \<open>C12: a transmit PDO carries its mapped objects. If the mapping of TPDO \<open>n\<close> is well formed,
  \<open>buildPDO\<close> succeeds without touching the node, and in the frame it builds the bits at the place of each mapped object
  are that object's bits, in mapping order and without gaps; the length is the number of
  bytes needed and the identifier is the configured COB-ID.\<close>

theorem buildPDO_carries_objects:
  assumes "tpdo_ok d n"
  shows "\<exists>pdo'. buildPDO n Message_Initializer d = (0, pdo', d)
    \<and> cob_id pdo' = ucast (od_u32 d (tpdo_com d n) 1 AND 0x7FF)
    \<and> unat (mlen pdo') = (layout_end (tpdo_mapping d n) 0 + 7) div 8
    \<and> (\<forall>k < 64. lbit (mdata pdo') k = layout_bit d (pdo_layout (tpdo_mapping d n) 0) (replicate 8 0) k)"
  using buildPDO_spec [OF assms length_Message_Initializer] by (auto simp: Message_Initializer_def)

section \<open>Event-driven transmission\<close>

text \<open>An inhibited TPDO, and any TPDO while the PDO service is off, is not sent on an event and nothing
  changes; otherwise a frame leaves only when it differs from the last one, and then it
  is exactly one frame, it is remembered as the last one, and the TPDO is inhibited
  when an inhibit time is configured.\<close>

theorem sendOnePDOevent_on_change:
  assumes ok: "node_ok d" "tpdo_ok d n" "unat n < length (PDO_status d)"
    and r: "sendOnePDOevent n d = (res, d')"
  defines "pdo \<equiv> fst (snd (buildPDO n Message_Initializer d))"
    and "off \<equiv> \<not> csPDO (CurrentCommunicationState d)
               \<or> transmit_type_parameter (PDO_status d ! unat n) AND PDO_INHIBITED \<noteq> 0"
    and "same \<equiv> cob_id (last_message (PDO_status d ! unat n)) = cob_id (fst (snd (buildPDO n Message_Initializer d)))
               \<and> mlen (last_message (PDO_status d ! unat n)) = mlen (fst (snd (buildPDO n Message_Initializer d)))
               \<and> mdata (last_message (PDO_status d ! unat n)) = mdata (fst (snd (buildPDO n Message_Initializer d)))"
  shows "if off \<or> same then res = 0 \<and> d' = d
    else res = 1 \<and> sent d' = sent d @ [pdo\<lparr>mdata := take (unat (mlen pdo)) (mdata pdo)\<rparr>]
      \<and> last_message (PDO_status d' ! unat n) = pdo
      \<and> (od_u16 d (tpdo_com d n) 3 \<noteq> 0
          \<longrightarrow> transmit_type_parameter (PDO_status d' ! unat n) AND PDO_INHIBITED \<noteq> 0)"
proof -
  let ?n = "unat n"
  obtain q where b: "buildPDO n Message_Initializer d = (0, q, d)"
    using buildPDO_spec [OF ok(2) length_Message_Initializer] by blast
  then have q: "pdo = q" by (simp add: pdo_def)
  show ?thesis
  proof (cases "off \<or> same")
    case True
    with r b show ?thesis by (auto simp: sendOnePDOevent_def off_def same_def Let_def split: if_splits)
  next
    case False
    let ?d2 = "start_inhibit_timer n (start_event_timer n d)"
    have d': "res = 1" "d' = sendPdo ?n q ?d2"
      using False r b by (auto simp: sendOnePDOevent_def off_def same_def Let_def split: if_splits)
    have fr: "pdo_frame d (start_event_timer n d)" "pdo_frame d ?d2"
      using pdo_frame_timers pdo_frame_trans by metis+
    have s: "sent ?d2 = sent d" by simp
    have len: "?n < length (PDO_status ?d2)" "?n < length (PDO_status (start_event_timer n d))"
      using ok(3) fr by (simp_all add: pdo_frame_def)
    have same_dur: "od_u16 (start_event_timer n d) (tpdo_com (start_event_timer n d) n) 3 = od_u16 d (tpdo_com d n) 3"
      using fr(1) by (simp add: od_u16_def od_sub_def od_entry_def tpdo_com_def pdo_frame_def)
    have inh: "transmit_type_parameter (PDO_status ?d2 ! ?n) AND PDO_INHIBITED \<noteq> 0"
      if "od_u16 d (tpdo_com d n) 3 \<noteq> 0"
    proof -
      have "bit (transmit_type_parameter (PDO_status ?d2 ! ?n)) 0"
        using that same_dur len(2)
        by (simp add: start_inhibit_timer_def Let_def split_beta put_pdo_def chk_def bit_or_iff)
      then show ?thesis by (simp add: and_one_eq bit_0 odd_iff_mod_2_eq_one)
    qed
    have "PDO_status d' ! ?n = (PDO_status ?d2 ! ?n)\<lparr>last_message := q\<rparr>"
      using len(1) by (simp add: d'(2) sendPdo_def canSend_def emit_def put_pdo_def)
    moreover have "sent d' = sent d @ [q\<lparr>mdata := take (unat (mlen q)) (mdata q)\<rparr>]"
      by (simp add: d'(2) sendPdo_def canSend_def)
    ultimately show ?thesis using False d'(1) inh q by auto
  qed
qed

section \<open>Cyclic transmission\<close>

lemma pdo_frame_reads:
  assumes "pdo_frame d d'"
  shows "od_u8 d' = od_u8 d" "od_u16 d' = od_u16 d" "od_u32 d' = od_u32 d" "od_entry d' = od_entry d"
    "tpdo_com d' = tpdo_com d" "tpdo_map d' = tpdo_map d" "od_obj d' = od_obj d" "od_view d' = od_view d"
    "tpdo_ok d' = tpdo_ok d" "cfg d' = cfg d"
proof -
  have m: "mem d' = mem d" and c: "cfg d' = cfg d" using assms by (simp_all add: pdo_frame_def)
  show *: "od_u8 d' = od_u8 d" "od_u16 d' = od_u16 d" "od_u32 d' = od_u32 d" "od_entry d' = od_entry d"
    "tpdo_com d' = tpdo_com d" "tpdo_map d' = tpdo_map d"
    using m c by (simp_all add: od_u8_def [abs_def] od_u16_def [abs_def] od_u32_def [abs_def] od_entry_def [abs_def]
        od_sub_def tpdo_com_def [abs_def] tpdo_map_def [abs_def])
  show o: "od_obj d' = od_obj d" using c od_obj_cong by (intro ext) blast
  show "od_view d' = od_view d" using m o by (simp add: od_view_def [abs_def])
  show "tpdo_ok d' = tpdo_ok d"
    by (simp add: tpdo_ok_def [abs_def] tpdo_mapping_def tpdo_params_def mappable_def [abs_def] * o)
  show "cfg d' = cfg d" by (rule c)
qed

text \<open>TPDO \<open>i\<close> is enabled, of cyclic type \<open>ty\<close>, has a good mapping and a status cell.\<close>

definition cyclic_tpdo :: "CO_Data \<Rightarrow> nat \<Rightarrow> UNS8 \<Rightarrow> bool" where
  "cyclic_tpdo d i ty \<longleftrightarrow> i < 256 \<and> i < length (PDO_status d) \<and> tpdo_ok d (of_nat i)
     \<and> od_u32 d (tpdo_com d (of_nat i)) 1 AND 0x80000000 = 0
     \<and> od_u8 d (tpdo_com d (of_nat i)) 2 = ty \<and> TRANS_SYNC_MIN \<le> ty \<and> ty \<le> TRANS_SYNC_MAX"

definition sync_count :: "CO_Data \<Rightarrow> nat \<Rightarrow> nat" where
  "sync_count d i = unat (transmit_type_parameter (PDO_status d ! i))"

lemma cyclic_tpdo_frame: "pdo_frame d d' \<Longrightarrow> cyclic_tpdo d' i ty = cyclic_tpdo d i ty"
proof -
  assume f: "pdo_frame d d'"
  then have "length (PDO_status d') = length (PDO_status d)" by (simp add: pdo_frame_def)
  then show ?thesis by (simp add: cyclic_tpdo_def pdo_frame_reads [OF f])
qed

lemma scan_cyclic_step:
  assumes c: "cyclic_tpdo d i ty" and t: "sync_count d i < unat ty"
  defines "d' \<equiv> scan_tpdo True i d"
  shows "sync_count d' i = (if sync_count d i + 1 = unat ty then 0 else sync_count d i + 1)"
    and "length (sent d') = length (sent d) + (if sync_count d i + 1 = unat ty then 1 else 0)"
proof -
  let ?p = "PDO_status d ! i"
  have u: "unat (of_nat i :: UNS8) = i"
    using c by (simp add: cyclic_tpdo_def unsigned_of_nat take_bit_nat_eq_self)
  have com: "tpdo_com d (of_nat i) = unat (PDO_TRS (firstIndex (cfg d))) + i" by (simp add: tpdo_com_def u)
  have il: "i < length (PDO_status d)" using c by (simp add: cyclic_tpdo_def)
  have ty: "ty \<le> 240" "1 \<le> ty" using c by (simp_all add: cyclic_tpdo_def)
  have inc: "unat (transmit_type_parameter ?p + 1) = sync_count d i + 1"
    using t ty(1) by (simp add: sync_count_def unat_word_ariths word_le_nat_alt)
  then have eq: "transmit_type_parameter ?p + 1 = ty \<longleftrightarrow> sync_count d i + 1 = unat ty"
    by (metis word_unat_eq_iff)
  let ?d1 = "put_pdo i (?p\<lparr>transmit_type_parameter := 0\<rparr>) d"
  obtain q where b: "buildPDO (of_nat i) Message_Initializer ?d1 = (0, q, ?d1)"
    using buildPDO_spec [OF _ length_Message_Initializer, of ?d1 "of_nat i"] c pdo_frame_reads(9) [OF pdo_frame_put]
    by (auto simp: cyclic_tpdo_def)
  have d': "d' = (if transmit_type_parameter ?p + 1 = ty then sendPdo i q ?d1
      else put_pdo i (?p\<lparr>transmit_type_parameter := transmit_type_parameter ?p + 1\<rparr>) d)"
    using c b ty by (simp add: d'_def scan_tpdo_def u com cyclic_tpdo_def Let_def)
  show "sync_count d' i = (if sync_count d i + 1 = unat ty then 0 else sync_count d i + 1)"
    using eq il inc by (auto simp: d' sync_count_def sendPdo_def canSend_def emit_def put_pdo_def)
  show "length (sent d') = length (sent d) + (if sync_count d i + 1 = unat ty then 1 else 0)"
    using eq by (auto simp: d' sendPdo_def canSend_def)
qed

text \<open>A TPDO of cyclic type \<open>n\<close> (1 to 240) is transmitted on every n-th SYNC. Starting with a
  cleared counter, after \<open>k\<close> SYNC events exactly \<open>k div n\<close> frames of it have been sent and
  the counter holds \<open>k mod n\<close>.\<close>

theorem cyclic_tpdo_every_nth_sync:
  assumes "cyclic_tpdo d i ty" "sync_count d i = 0"
  shows "length (sent ((scan_tpdo True i ^^ k) d)) = length (sent d) + k div unat ty
    \<and> sync_count ((scan_tpdo True i ^^ k) d) i = k mod unat ty"
proof (induction k)
  case 0
  then show ?case using assms(2) by simp
next
  case (Suc k)
  let ?e = "(scan_tpdo True i ^^ k) d"
  have "pdo_frame d ?e"
    by (induction k) (auto intro: pdo_frame_trans [OF _ pdo_frame_scan])
  then have c: "cyclic_tpdo ?e i ty" using assms(1) cyclic_tpdo_frame by blast
  have pos: "0 < unat ty" using assms(1) by (simp add: cyclic_tpdo_def word_le_nat_alt)
  have t: "sync_count ?e i < unat ty" using Suc pos by simp
  note st = scan_cyclic_step [OF c t]
  show ?case
    using st Suc.IH by (simp add: div_Suc mod_Suc)
qed

end
