(* ===== verification/Sync.thy ===== *)
theory Sync
  imports Pdo
begin

text \<open>
  The SYNC object, \<^verbatim>\<open>CanFestival/src/sync.c\<close>: producing SYNC frames from a periodic alarm and
  reacting to received ones. Shown here: the alarm exists exactly when the node is
  configured as producer with a non-zero period, and a SYNC reaches the PDOs only in the
  operational state.
\<close>

section \<open>Operations\<close>

definition sendSYNCMessage :: "CO_Data \<Rightarrow> UNS8 \<times> CO_Data" where
  "sendSYNCMessage d =
     canSend \<lparr>cob_id = ucast (rd32 (mem d) (COB_ID_Sync (cfg d))), rtr = NOT_A_REQUEST, mlen = 0, mdata = []\<rparr> d"

definition proceedSYNC :: "CO_Data \<Rightarrow> UNS8 \<times> CO_Data" where
  "proceedSYNC d =
     (let d1 = emit Call_post_sync d
      in if \<not> csPDO (CurrentCommunicationState d1) then (0, d1)
         else let (res, d2) = do_sendPDOevent True d1 in (res, emit Call_post_TPDO d2))"

definition sendSYNC :: "CO_Data \<Rightarrow> UNS8 \<times> CO_Data" where
  "sendSYNC d = (let (res, d1) = sendSYNCMessage d in (res, snd (proceedSYNC d1)))"

definition SyncAlarm :: "CO_Data \<Rightarrow> CO_Data" where
  "SyncAlarm d = snd (sendSYNC d)"

definition stopSYNC :: "CO_Data \<Rightarrow> CO_Data" where
  "stopSYNC d =
     (let d1 = snd (RegisterSetODentryCallBack 0x1005 0 None d);
          d2 = snd (RegisterSetODentryCallBack 0x1006 0 None d1);
          (h, d3) = DelAlarm (syncTimer d2) d2
      in d3\<lparr>syncTimer := h\<rparr>)"

definition startSYNC :: "CO_Data \<Rightarrow> CO_Data" where
  "startSYNC d =
     (let d0 = (if syncTimer d \<noteq> TIMER_NONE then stopSYNC d else d);
          d1 = snd (RegisterSetODentryCallBack 0x1005 0 (Some OnCOB_ID_SyncUpdate_cb) d0);
          d2 = snd (RegisterSetODentryCallBack 0x1006 0 (Some OnCOB_ID_SyncUpdate_cb) d1);
          period = rd32 (mem d2) (Sync_Cycle_Period (cfg d2))
      in if rd32 (mem d2) (COB_ID_Sync (cfg d2)) AND 0x40000000 \<noteq> 0 \<and> period \<noteq> 0 then
           (let (h, d3) = SetAlarm 0 (Some SyncAlarm_cb) (US_TO_TIMEVAL period) (US_TO_TIMEVAL period) d2
            in d3\<lparr>syncTimer := h\<rparr>)
         else d2)"

definition OnCOB_ID_SyncUpdate :: "CO_Data \<Rightarrow> UNS32 \<times> CO_Data" where
  "OnCOB_ID_SyncUpdate d = (0, startSYNC d)"

section \<open>Invariant and frame\<close>

lemma pdo_frame_emit [simp]: "pdo_frame d (emit e d)"
  by (simp add: pdo_frame_def emit_def)

lemma proceedSYNC_frame [simp]: "pdo_frame d (snd (proceedSYNC d))" "pdo_frame d (SyncAlarm d)"
proof -
  show *: "pdo_frame d (snd (proceedSYNC d))" for d
  proof -
    have "pdo_frame d (emit Call_post_TPDO (snd (do_sendPDOevent True (emit Call_post_sync d))))"
      using pdo_frame_trans pdo_frame_emit pdo_frame_ops(1) by metis
    then show ?thesis by (simp add: proceedSYNC_def Let_def split_beta)
  qed
  have "pdo_frame d (snd (sendSYNCMessage d))" by (simp add: sendSYNCMessage_def canSend_def)
  with * show "pdo_frame d (SyncAlarm d)"
    unfolding SyncAlarm_def sendSYNC_def by (auto simp: split_beta Let_def intro: pdo_frame_trans)
qed

lemma sync_node_ok [simp, inv_intros]:
  assumes "node_ok d"
  shows "node_ok (snd (proceedSYNC d))" "node_ok (SyncAlarm d)" "node_ok (stopSYNC d)" "node_ok (startSYNC d)"
    "node_ok (snd (OnCOB_ID_SyncUpdate d))"
proof -
  have pr: "node_ok (snd (proceedSYNC d))" if "node_ok d" for d
    using that by (simp add: proceedSYNC_def Let_def split_beta)
  show "node_ok (snd (proceedSYNC d))" by (rule pr [OF assms])
  show "node_ok (SyncAlarm d)"
    using assms by (simp add: SyncAlarm_def sendSYNC_def sendSYNCMessage_def split_beta Let_def pr)
  have st: "node_ok (stopSYNC d)" if "node_ok d" for d
    using that by (simp add: stopSYNC_def split_beta Let_def node_ok_handle_upd)
  show "node_ok (stopSYNC d)" by (rule st [OF assms])
  show start: "node_ok (startSYNC d)"
    using assms by (simp add: startSYNC_def split_beta Let_def node_ok_handle_upd st)
  show "node_ok (snd (OnCOB_ID_SyncUpdate d))" using start by (simp add: OnCOB_ID_SyncUpdate_def)
qed

lemma sync_ops_frame [simp]:
  "mem (stopSYNC d) = mem d" "cfg (stopSYNC d) = cfg d" "mem (startSYNC d) = mem d" "cfg (startSYNC d) = cfg d"
  "transfers (stopSYNC d) = transfers d" "transfers (startSYNC d) = transfers d"
  "CurrentCommunicationState (stopSYNC d) = CurrentCommunicationState d"
  "CurrentCommunicationState (startSYNC d) = CurrentCommunicationState d"
  "nodeState (stopSYNC d) = nodeState d" "nodeState (startSYNC d) = nodeState d"
  "sent (stopSYNC d) = sent d" "sent (startSYNC d) = sent d"
  "error_data (stopSYNC d) = error_data d" "error_data (startSYNC d) = error_data d"
  "error_state (stopSYNC d) = error_state d" "error_state (startSYNC d) = error_state d"
proof -
  have sy: "sent (e\<lparr>syncTimer := h\<rparr>) = sent e" for e h by (simp add: sent_def)
  show st: "mem (stopSYNC d) = mem d" "cfg (stopSYNC d) = cfg d" "transfers (stopSYNC d) = transfers d"
    "CurrentCommunicationState (stopSYNC d) = CurrentCommunicationState d" "nodeState (stopSYNC d) = nodeState d"
    "sent (stopSYNC d) = sent d" "error_data (stopSYNC d) = error_data d" "error_state (stopSYNC d) = error_state d"
    by (simp_all add: stopSYNC_def split_beta Let_def sy)
  show "mem (startSYNC d) = mem d" "cfg (startSYNC d) = cfg d" "transfers (startSYNC d) = transfers d"
    "CurrentCommunicationState (startSYNC d) = CurrentCommunicationState d" "nodeState (startSYNC d) = nodeState d"
    "sent (startSYNC d) = sent d" "error_data (startSYNC d) = error_data d" "error_state (startSYNC d) = error_state d"
    by (simp_all add: startSYNC_def split_beta Let_def st sy)
qed

section \<open>Properties\<close>

lemma alarms_sync_upd: "alarms (d\<lparr>syncTimer := h\<rparr>) = alarms d"
  by (simp add: alarms_def fun_eq_iff)

text \<open>\<open>startSYNC\<close> restarts the producer from the dictionary: when 1005h says that the node
  produces SYNC and the period in 1006h is not zero, a periodic SYNC alarm with that
  period is armed (unless the table is full, and a node that was already producing always finds a row); otherwise a running
  producer is stopped.\<close>

theorem startSYNC_follows_dictionary:
  assumes ok: "node_ok d"
  defines "d' \<equiv> startSYNC d" and "period \<equiv> rd32 (mem d) (Sync_Cycle_Period (cfg d))"
  defines "producer \<equiv> rd32 (mem d) (COB_ID_Sync (cfg d)) AND 0x40000000 \<noteq> 0
                     \<and> rd32 (mem d) (Sync_Cycle_Period (cfg d)) \<noteq> 0"
  shows "(\<not> producer \<longrightarrow> syncTimer d' = TIMER_NONE)
    \<and> (producer \<and> syncTimer d' \<noteq> TIMER_NONE \<longrightarrow> alarms d' (nat (syncTimer d')) =
         Some (Some SyncAlarm_cb, 0, US_TO_TIMEVAL period + getElapsedTime, US_TO_TIMEVAL period))
    \<and> (producer \<and> syncTimer d \<noteq> TIMER_NONE \<longrightarrow> syncTimer d' \<noteq> TIMER_NONE)"
proof -
  define d0 where "d0 = (if syncTimer d \<noteq> TIMER_NONE then stopSYNC d else d)"
  define d2 where "d2 = snd (RegisterSetODentryCallBack 0x1006 0 (Some OnCOB_ID_SyncUpdate_cb)
      (snd (RegisterSetODentryCallBack 0x1005 0 (Some OnCOB_ID_SyncUpdate_cb) d0)))"
  have ok2: "node_ok d2" using ok by (simp add: d2_def d0_def)
  then have t2: "timers_ok d2" by (simp add: node_ok_def)
  have same: "mem d2 = mem d" "cfg d2 = cfg d" by (simp_all add: d2_def d0_def)
  have none: "syncTimer d2 = TIMER_NONE" by (simp add: d2_def d0_def stopSYNC_def split_beta Let_def)
  let ?a = "(Some SyncAlarm_cb, 0 :: UNS32, US_TO_TIMEVAL period, US_TO_TIMEVAL period)"
  have d': "d' = (if producer then (snd (set_alarm ?a d2))\<lparr>syncTimer := fst (set_alarm ?a d2)\<rparr> else d2)"
    unfolding d'_def startSYNC_def Let_def d0_def [symmetric] d2_def [symmetric] split_beta
    unfolding same producer_def period_def by (simp add: set_alarm_def split_beta)
  have "alarms d' (nat (syncTimer d')) = Some (Some SyncAlarm_cb, 0, US_TO_TIMEVAL period + getElapsedTime, US_TO_TIMEVAL period)"
    if "producer" "syncTimer d' \<noteq> TIMER_NONE"
  proof -
    have "fst (set_alarm ?a d2) \<noteq> -1" using that d' by simp
    from tbl.set_rows [OF t2 this] that d' show ?thesis by (simp add: alarms_sync_upd armed_as_def)
  qed
  moreover have "syncTimer d' \<noteq> TIMER_NONE" if pr: "producer" and run: "syncTimer d \<noteq> TIMER_NONE"
  proof -
    let ?h = "syncTimer d"
    have h: "0 \<le> ?h" "?h < 8" using node_ok_handles(3) [OF ok] run by (auto simp: handle_ok_def)
    have "timers d2 = timers (del_alarm ?h d)"
      using run by (simp add: d2_def d0_def stopSYNC_def del_alarm_def split_beta Let_def DelAlarm_rows)
    then have "alarms d2 = alarms (del_alarm ?h d)" unfolding alarms_def fun_eq_iff by metis
    then have "alarms d2 (nat ?h) = None"
      using tbl.del_rows [of d ?h] ok h by (simp add: node_ok_def)
    then have "fst (set_alarm ?a d2) \<noteq> -1"
      using tbl.set_fail [OF t2, of ?a] h by (auto intro!: exI [of _ "nat ?h"])
    with pr d' show ?thesis by simp
  qed
  ultimately show ?thesis using none d' by auto
qed

end
