(* ===== verification/OdWrite.thy ===== *)
theory OdWrite
  imports Emcy LifeGuard Sync
begin

text \<open>
  Writing the object dictionary with the callbacks that the services register: the function
  pointers of \<open>(*Callback)[bSubindex](d, ptrTable, bSubindex)\<close> in \<^verbatim>\<open>src/objacces.c\<close> are resolved to
  the functions they name, which closes \<open>setODentry_with\<close> of the dictionary theory. Shown here: an
  accepted write is one update of the map from keys to bytes, a refused one changes nothing, a string
  reads back as written, and writing keeps the node invariant.
\<close>

definition run_od_cb :: od_runner where
  "run_od_cb cb OD_entry bSubindex d =
     (case cb of
        OnNumberOfErrorsUpdate_cb \<Rightarrow> OnNumberOfErrorsUpdate d
      | OnHeartbeatProducerUpdate_cb \<Rightarrow> OnHeartbeatProducerUpdate d
      | OnNodeGuardUpdate_cb \<Rightarrow> OnNodeGuardUpdate d
      | OnCOB_ID_SyncUpdate_cb \<Rightarrow> OnCOB_ID_SyncUpdate d
      | TPDO_Communication_Parameter_Callback_cb \<Rightarrow> TPDO_Communication_Parameter_Callback OD_entry bSubindex d)"

definition setODentry :: "UNS16 \<Rightarrow> UNS8 \<Rightarrow> UNS8 list \<Rightarrow> UNS32 \<Rightarrow> bool \<Rightarrow> CO_Data \<Rightarrow> UNS32 \<times> UNS32 \<times> CO_Data" where
  "setODentry = setODentry_with run_od_cb"

section \<open>What a callback may change\<close>

definition service_frame :: "CO_Data \<Rightarrow> CO_Data \<Rightarrow> bool" where
  "service_frame d d' \<longleftrightarrow> cfg d' = cfg d \<and> transfers d' = transfers d \<and> nodeState d' = nodeState d
     \<and> CurrentCommunicationState d' = CurrentCommunicationState d
     \<and> error_data d' = error_data d \<and> error_state d' = error_state d"

lemma service_frame_refl [simp]: "service_frame d d"
  by (simp add: service_frame_def)

lemma service_frame_trans: "service_frame d d' \<Longrightarrow> service_frame d' d'' \<Longrightarrow> service_frame d d''"
  by (simp add: service_frame_def)

lemma service_frame_guard: "guard_frame d d' \<Longrightarrow> service_frame d d'"
  by (simp add: service_frame_def guard_frame_def)

lemma service_frame_pdo: "pdo_frame d d' \<Longrightarrow> service_frame d d'"
  by (simp add: service_frame_def pdo_frame_def)

lemma service_frame_emit [simp]: "service_frame d (emit e d)"
  by (simp add: service_frame_def emit_def)

lemma service_frame_store [simp]: "service_frame d (od_store sub src n d)"
  by (simp add: service_frame_def)

lemma run_od_cb_frame [simp]: "service_frame d (snd (run_od_cb cb i s d))"
proof (cases cb)
  case OnNumberOfErrorsUpdate_cb
  then show ?thesis by (simp add: run_od_cb_def OnNumberOfErrorsUpdate_def service_frame_def)
next
  case OnHeartbeatProducerUpdate_cb
  then show ?thesis by (simp add: run_od_cb_def OnHeartbeatProducerUpdate_def service_frame_def)
next
  case OnNodeGuardUpdate_cb
  then show ?thesis by (simp add: run_od_cb_def OnNodeGuardUpdate_def service_frame_def)
next
  case OnCOB_ID_SyncUpdate_cb
  then show ?thesis by (simp add: run_od_cb_def OnCOB_ID_SyncUpdate_def service_frame_def)
next
  case TPDO_Communication_Parameter_Callback_cb
  then show ?thesis by (simp add: run_od_cb_def service_frame_pdo)
qed

lemma run_od_cb_mem:
  assumes "cb \<noteq> OnNumberOfErrorsUpdate_cb"
  shows "mem (snd (run_od_cb cb i s d)) = mem d"
  using assms
proof (cases cb)
  case TPDO_Communication_Parameter_Callback_cb
  then show ?thesis using pdo_frame_simps(1) [OF pdo_frame_ops(5)] by (simp add: run_od_cb_def)
qed (simp_all add: run_od_cb_def OnHeartbeatProducerUpdate_def OnNodeGuardUpdate_def OnCOB_ID_SyncUpdate_def)

lemma run_od_cb_code [simp]: "fst (run_od_cb cb i s d) = 0"
  by (cases cb) (simp_all add: run_od_cb_def OnNumberOfErrorsUpdate_def OnHeartbeatProducerUpdate_def
      OnNodeGuardUpdate_def OnCOB_ID_SyncUpdate_def TPDO_Communication_Parameter_Callback_def)

section \<open>The node invariant\<close>

lemma emcy_node_ok [simp, inv_intros]:
  assumes ok: "node_ok d"
  shows "node_ok (snd (OnNumberOfErrorsUpdate d))" "node_ok (emergencyInit d)" "node_ok (emergencyStop d)"
    "node_ok (proceedEMCY m d)"
  using ok by (simp_all add: OnNumberOfErrorsUpdate_def emergencyInit_def emergencyStop_def proceedEMCY_def Let_def)

lemma run_od_cb_node_ok [simp, inv_intros]: "node_ok d \<Longrightarrow> node_ok (snd (run_od_cb cb i s d))"
  by (cases cb) (simp_all add: run_od_cb_def)

section \<open>Accepted and refused writes\<close>

text \<open>When \<open>_setODentry\<close> stores: access, length and range checks pass.\<close>

definition od_accepts :: "CO_Data \<Rightarrow> subindex \<Rightarrow> UNS8 list \<Rightarrow> UNS32 \<Rightarrow> bool \<Rightarrow> bool" where
  "od_accepts d sub src n ca \<longleftrightarrow> \<not> (ca \<and> bAccessType sub = RO)
     \<and> (n = 0 \<or> n = ssize sub \<or> bDataType sub = visible_string \<and> n < ssize sub)
     \<and> valueRangeTest (cfg d) (bDataType sub) src = 0"

text \<open>The callback registered for a key.\<close>

definition od_hook :: "CO_Data \<Rightarrow> od_key \<Rightarrow> od_cb option" where
  "od_hook d k = (case scanIndexOD d (fst k) of
      Some (i, True) \<Rightarrow> callbacks d ! i ! unat (snd k) | _ \<Rightarrow> None)"

text \<open>What follows a store: the callback, then the request to save the object.\<close>

definition after_store :: "UNS16 \<Rightarrow> UNS8 \<Rightarrow> subindex \<Rightarrow> CO_Data \<Rightarrow> CO_Data" where
  "after_store w s sub d =
     (let d1 = (case od_hook d (w, s) of None \<Rightarrow> d
                | Some c \<Rightarrow> snd (run_od_cb c (fst (the (scanIndexOD d w))) s d))
      in if bAccessType sub AND TO_BE_SAVE \<noteq> 0 then emit (Call_storeODSubIndex w s) d1 else d1)"

lemma setODentry_accepted:
  assumes obj: "od_obj d (w, s) = Some sub" and acc: "od_accepts d sub src n ca"
  shows "setODentry w s src n ca d = (OD_SUCCESSFUL, ssize sub, after_store w s sub (od_store sub src n d))"
proof -
  obtain i b where i: "scanIndexOD d w = Some (i, b)" "s < bSubCount (od_entry d i)" "sub = od_sub d i (unat s)"
    using obj by (auto elim: od_obj_SomeE)
  let ?d1 = "od_store sub src n d"
  have "scanIndexOD ?d1 w = Some (i, b)" using i(1) scanIndexOD_cong [of ?d1 d] by simp
  then have hook: "od_hook ?d1 (w, s) = (if b then callbacks d ! i ! unat s else None)"
      "fst (the (scanIndexOD ?d1 w)) = i"
    by (auto simp: od_hook_def split: bool.split)
  from acc have a: "\<not> (ca \<and> bAccessType sub = RO)" "valueRangeTest (cfg d) (bDataType sub) src = 0"
      "n = 0 \<or> n = ssize sub \<or> bDataType sub = visible_string \<and> n < ssize sub"
    by (simp_all add: od_accepts_def)
  have "setODentry w s src n ca d =
      (let cb = (if b then callbacks ?d1 ! i ! unat s else None);
           (code, d2) = (case cb of None \<Rightarrow> (OD_SUCCESSFUL, ?d1) | Some c \<Rightarrow> run_od_cb c i s ?d1)
       in if code \<noteq> OD_SUCCESSFUL then (code, ssize sub, d2)
          else (OD_SUCCESSFUL, ssize sub,
             if bAccessType sub AND TO_BE_SAVE \<noteq> 0 then emit (Call_storeODSubIndex w s) d2 else d2))"
    unfolding setODentry_def setODentry_with_def i(1) option.case prod.case i(3) [symmetric] Let_def
      if_not_P [OF i(2) [unfolded not_le [symmetric]]] if_not_P [OF a(1)] if_P [OF a(3)] a(2)
    by (rule if_not_P) simp
  also have "\<dots> = (OD_SUCCESSFUL, ssize sub, after_store w s sub ?d1)"
    unfolding after_store_def hook by (simp add: Let_def split_beta split: option.split)
  finally show ?thesis .
qed

lemma setODentry_refused:
  assumes "od_obj d (w, s) = None \<or> (\<exists>sub. od_obj d (w, s) = Some sub \<and> \<not> od_accepts d sub src n ca)"
  shows "fst (setODentry w s src n ca d) \<noteq> OD_SUCCESSFUL \<and> snd (snd (setODentry w s src n ca d)) = d"
proof (cases "scanIndexOD d w")
  case None
  then show ?thesis by (simp add: setODentry_def setODentry_with_def)
next
  case (Some a)
  obtain i b where a: "a = (i, b)" by (cases a)
  show ?thesis
  proof (cases "bSubCount (od_entry d i) \<le> s")
    case True
    then show ?thesis using Some a by (simp add: setODentry_def setODentry_with_def)
  next
    case False
    then have "od_obj d (w, s) = Some (od_sub d i (unat s))" using Some a by (simp add: od_obj_def not_le)
    then have "\<not> od_accepts d (od_sub d i (unat s)) src n ca" using assms by simp
    then show ?thesis
      using False Some a unfolding od_accepts_def setODentry_def setODentry_with_def by (auto simp: Let_def)
  qed
qed

lemma after_store_frame [simp]: "service_frame d (after_store w s sub d)"
proof -
  have "service_frame d (case od_hook d (w, s) of None \<Rightarrow> d
      | Some c \<Rightarrow> snd (run_od_cb c (fst (the (scanIndexOD d w))) s d))"
    by (simp split: option.split)
  then show ?thesis
    unfolding after_store_def Let_def using service_frame_trans service_frame_emit by auto
qed

lemma after_store_mem:
  "od_hook d (w, s) \<noteq> Some OnNumberOfErrorsUpdate_cb \<Longrightarrow> mem (after_store w s sub d) = mem d"
  by (auto simp: after_store_def Let_def emit_def run_od_cb_mem split: option.split)

lemma od_hook_store: "od_hook (od_store sub src n d) k = od_hook d k"
  by (simp add: od_hook_def scanIndexOD_cong [of "od_store sub src n d" d] split: option.split prod.split bool.split)

lemma setODentry_frame [simp]: "service_frame d (snd (snd (setODentry w s src n ca d)))"
proof (cases "\<exists>sub. od_obj d (w, s) = Some sub \<and> od_accepts d sub src n ca")
  case True
  then obtain sub where "od_obj d (w, s) = Some sub" "od_accepts d sub src n ca" by blast
  then show ?thesis
    using service_frame_trans [OF service_frame_store after_store_frame] by (simp add: setODentry_accepted)
next
  case False
  then show ?thesis using setODentry_refused [of d w s src n ca] by (cases "od_obj d (w, s)") auto
qed

lemma setODentry_node_ok [simp, inv_intros]:
  assumes ok: "node_ok d"
  shows "node_ok (snd (snd (setODentry w s src n ca d)))"
proof (cases "\<exists>sub. od_obj d (w, s) = Some sub \<and> od_accepts d sub src n ca")
  case True
  then obtain sub where sub: "od_obj d (w, s) = Some sub" "od_accepts d sub src n ca" by blast
  have "node_ok (od_store sub src n d)" using ok by simp
  then have "node_ok (after_store w s sub (od_store sub src n d))"
    by (auto simp: after_store_def Let_def split: option.split)
  then show ?thesis using sub by (simp add: setODentry_accepted)
next
  case False
  then show ?thesis using ok setODentry_refused [of d w s src n ca] by (cases "od_obj d (w, s)") auto
qed

section \<open>Properties\<close>

lemma od_view_cong: "cfg d' = cfg d \<Longrightarrow> mem d' = mem d \<Longrightarrow> od_view d' = od_view d"
  by (rule ext) (simp add: od_view_def od_obj_cong [of d' d])

lemma od_store_take: "unat n \<le> length src \<Longrightarrow> od_store sub (take (unat n) src) n d = od_store sub src n d"
  by (simp add: od_store_def Let_def chk_def)

lemma setODentry_view:
  assumes ok: "od_ok d" "od_disjoint d" and obj: "od_obj d (w, s) = Some sub"
    and len: "unat (ssize sub) \<le> length src" and hook: "od_hook d (w, s) \<noteq> Some OnNumberOfErrorsUpdate_cb"
    and acc: "od_accepts d sub src (ssize sub) ca"
  shows "od_view (snd (snd (setODentry w s src (ssize sub) ca d)))
    = (od_view d)((w, s) \<mapsto> take (unat (ssize sub)) src)"
proof -
  let ?d1 = "od_store sub src (ssize sub) d"
  have res: "snd (snd (setODentry w s src (ssize sub) ca d)) = after_store w s sub ?d1"
    by (simp add: setODentry_accepted [OF obj acc])
  have "mem (after_store w s sub ?d1) = mem ?d1" by (rule after_store_mem) (simp add: od_hook_store hook)
  moreover have "cfg (after_store w s sub ?d1) = cfg ?d1"
    using after_store_frame [of ?d1 w s sub] unfolding service_frame_def by simp
  ultimately have "od_view (after_store w s sub ?d1) = od_view (od_put (w, s) (take (unat (ssize sub)) src) d)"
    using obj len by (simp add: od_view_cong od_put_def od_store_take)
  also have "\<dots> = (od_view d)((w, s) \<mapsto> take (unat (ssize sub)) src)"
    using ok obj len by (intro od.store_view) (auto simp: od_view_def)
  finally show ?thesis unfolding res .
qed

text \<open>C6: a write is atomic. Over a well-formed dictionary whose objects do not overlap, a write of
  the object's size (to an object other than the error counter 1003h:0, whose callback clears the
  history) either succeeds, and then the dictionary as a map from keys to bytes is updated at
  that key and nowhere else, or reports an error and leaves the node untouched. It succeeds exactly when
  the object may be written and the range test accepts the value.\<close>

theorem setODentry_updates_one_object:
  assumes ok: "od_ok d" "od_disjoint d" and obj: "od_obj d (w, s) = Some sub"
    and len: "length src = unat (ssize sub)" and hook: "od_hook d (w, s) \<noteq> Some OnNumberOfErrorsUpdate_cb"
    and r: "setODentry w s src (ssize sub) ca d = (code, n', d')"
  shows "(code = OD_SUCCESSFUL \<longleftrightarrow>
           \<not> (ca \<and> bAccessType sub = RO) \<and> valueRangeTest (cfg d) (bDataType sub) src = 0)
    \<and> (code = OD_SUCCESSFUL \<longrightarrow> od_view d' = (od_view d)((w, s) \<mapsto> src))
    \<and> (code \<noteq> OD_SUCCESSFUL \<longrightarrow> d' = d)"
proof (cases "od_accepts d sub src (ssize sub) ca")
  case True
  have "code = 0" using trans [OF r [symmetric] setODentry_accepted [OF obj True]] by simp
  with True setODentry_view [OF ok obj _ hook True] len r show ?thesis by (simp add: od_accepts_def)
next
  case False
  then have "code \<noteq> OD_SUCCESSFUL \<and> d' = d"
    using setODentry_refused [of d w s src "ssize sub" ca] obj r by simp
  with False show ?thesis by (auto simp: od_accepts_def)
qed

text \<open>A string reads back as written. A string without null bytes that fits its object is
  stored with a terminator when it is shorter than the object, and a read that announces
  the size of the object then returns exactly its characters.\<close>

theorem string_write_read:
  assumes obj: "od_obj d (w, s) = Some sub" and ty: "bDataType sub = visible_string"
    and acc: "od_accepts d sub src (of_nat (length src)) ca" and rd: "bAccessType sub AND WO = 0"
    and str: "src \<noteq> []" "0 \<notin> set src" "length src \<le> unat (ssize sub)"
    and hook: "od_hook d (w, s) \<noteq> Some OnNumberOfErrorsUpdate_cb"
    and w: "setODentry w s src (of_nat (length src)) ca d = (code, n', d')"
    and buf: "length buf = unat (ssize sub)"
    and r: "getODentry w s (Some buf) (ssize sub) ty0 ca' d' = (r, d'')"
  shows "code = OD_SUCCESSFUL \<and> rcode r = OD_SUCCESSFUL \<and> rsize r = of_nat (length src)
    \<and> take (length src) (rdest r) = src \<and> d'' = d'"
proof -
  let ?n = "of_nat (length src) :: UNS32" and ?d1 = "od_store sub src (of_nat (length src)) d" and ?a = "pObject sub"
  have n: "unat ?n = length src"
  proof -
    have "unat (ssize sub) < 2 ^ 32" using unsigned_less [of "ssize sub"] by simp
    with str(3) show ?thesis by (simp add: unsigned_of_nat take_bit_nat_eq_self)
  qed
  have res: "code = 0" "d' = after_store w s sub ?d1" 
    using trans [OF w [symmetric] setODentry_accepted [OF obj acc]] by simp_all
  have m: "mem d' = mem ?d1" unfolding res(2) by (rule after_store_mem) (simp add: od_hook_store hook)
  have c: "cfg d' = cfg d" using after_store_frame [of ?d1 w s sub] unfolding res(2) service_frame_def by simp
  have obj': "od_obj d' (w, s) = Some sub" using obj od_obj_cong [OF c] by simp
  have bytes: "mem d' (?a + i) = src ! i" if "i < length src" for i
    using that n ty unfolding m by (auto simp: od_store_def Let_def chk_def wr_bytes_at)
  have fin: "mem d' (?a + length src) = 0" if "length src < unat (ssize sub)"
    using that n ty unfolding m by (simp add: od_store_def Let_def word_less_nat_alt chk_def)
  have copy: "str_copy (mem d') ?a (unat (ssize sub)) = src"
  proof -
    have "rd_bytes (mem d') ?a (unat (ssize sub)) = src @ rd_bytes (mem d') (?a + length src) (unat (ssize sub) - length src)"
      using str(3) by (intro nth_equalityI) (auto simp: nth_append bytes)
    moreover have "takeWhile (\<lambda>b. b \<noteq> 0) (rd_bytes (mem d') (?a + length src) (unat (ssize sub) - length src)) = []"
      using fin by (cases "unat (ssize sub) - length src") (auto simp: rd_bytes_def upt_rec)
    ultimately show ?thesis
      using str(2) by (auto simp: str_copy_takeWhile takeWhile_append)
  qed
  obtain i b where i: "scanIndexOD d' w = Some (i, b)" "s < bSubCount (od_entry d' i)" "sub = od_sub d' i (unat s)"
    using obj' by (auto elim: od_obj_SomeE)
  have nz: "ssize sub \<noteq> 0" using str(1,3) by (cases "ssize sub = 0") auto
  let ?r = "getODentry w s (Some buf) (ssize sub) ty0 ca' d'"
  have "rcode (fst ?r) = 0 \<and> rsize (fst ?r) = ?n \<and> rdest (fst ?r) = put_list buf 0 src"
    using i(1,2) i(3) [symmetric] ty rd nz copy by (simp add: getODentry_def Let_def not_le)
  moreover have "snd ?r = d'"
    using getODentry_state [of w s "Some buf" "ssize sub" ty0 ca' d'] getODentry_fault [of "ssize sub" buf w s ty0 ca' d'] buf
    by simp
  moreover have "take (length src) (put_list buf 0 src) = src"
    using str(3) buf by (subst put_list_eq) auto
  ultimately show ?thesis using res(1) r by simp
qed

end
