(* ===== verification/PdoReceive.thy ===== *)
theory PdoReceive
  imports OdWrite
begin

text \<open>
  Reception of PDOs, \<open>proceedPDO\<close> of \<^verbatim>\<open>CanFestival/src/pdo.c\<close>: a data frame is unpacked into the
  mapped objects, a remote request is answered. Shown here: a received frame updates exactly
  the mapped objects with their slices of the frame, and what one node packs with
  \<open>buildPDO\<close> another one unpacks unchanged.
\<close>

section \<open>Operations\<close>

definition n_rpdo :: "od_config \<Rightarrow> nat" where
  "n_rpdo c = (if PDO_RCV (firstIndex c) = 0 then 0
     else unat (PDO_RCV (lastIndex c)) + 1 - unat (PDO_RCV (firstIndex c)))"

text \<open>The buffer \<open>tmp\<close> after the bits of one mapped object were copied out of the frame.\<close>

definition rx_tmp :: "Message \<Rightarrow> nat \<Rightarrow> UNS8 \<Rightarrow> UNS8 list" where
  "rx_tmp m off Size = CopyBits Size (mdata m) (off div 8) (of_nat (off mod 8)) False (replicate 8 0) 0 0 False"

text \<open>
  State 4 of the data branch: the loop over the mapping entries of table entry \<open>mp\<close>. The count is read again
  in every turn, because a write may change it. The result is 0xFF for the early returns.
\<close>

function rpdo_loop :: "nat \<Rightarrow> UNS8 \<Rightarrow> Message \<Rightarrow> nat \<Rightarrow> CO_Data \<Rightarrow> UNS8 \<times> CO_Data" where
  "rpdo_loop mp off m numMap d =
     (if \<not> numMap < unat (od_u8 d mp 0) then (0, d)
      else if \<not> numMap + 1 < length (pSubindex (od_entry d mp)) then (0xFF, chk False d)
      else if pObject (od_sub d mp (numMap + 1)) = 0 then (0xFF, d)
      else let p = od_u32 d mp (numMap + 1); Size = ucast (p AND 0x000000FF) :: UNS8
      in if Size \<noteq> 0 \<and> unat off + unat Size \<le> 8 * unat (mlen m) then
           (let d0 = chk (unat Size \<le> 64 \<and> unat off + unat Size \<le> 8 * length (mdata m)) d;
                (objDict, n, d1) = setODentry (map_index p) (map_sub p) (rx_tmp m (unat off) Size)
                                     (1 + drop_bit 3 (ucast (Size - 1))) False d0
            in if objDict \<noteq> OD_SUCCESSFUL then (0xFF, d1)
               else rpdo_loop mp (off + Size) m (numMap + 1) d1)
         else rpdo_loop mp off m (numMap + 1) d)"
  by pat_completeness auto
termination
proof (relation "measure (\<lambda>(mp, off, m, k, d). 256 - k)", goal_cases)
  case 1
  show ?case by simp
next
  case (2 mp off m k d)
  then show ?case using unsigned_less [of "od_u8 d mp 0", where ?'a = nat] by simp
next
  case (3 mp off m k d)
  then show ?case using unsigned_less [of "od_u8 d mp 0", where ?'a = nat] by simp
qed

text \<open>After the loop: the reception timer of the PDO, with the time that the source reads there.\<close>

definition restart_rx_timer :: "UNS8 \<Rightarrow> CO_Data \<Rightarrow> CO_Data" where
  "restart_rx_timer numPdo d =
     (case RxPDO_EventTimers d of
        None \<Rightarrow> d
      | Some hs \<Rightarrow>
          (let e = unat (PDO_RCV_MAP (firstIndex (cfg d))); n = unat numPdo;
               d0 = chk (5 < length (pSubindex (od_entry d e))) d;
               dur = od_u16 d0 e 5
           in if dur \<noteq> 0 then
                (let d1 = snd (DelAlarm (hs ! n) (chk (n < length hs) d0));
                     (h, d2) = SetAlarm (ucast numPdo) (Some RxPDO_EventTimers_Handler_cb) (MS_TO_TIMEVAL (ucast dur)) 0 d1
                 in d2\<lparr>RxPDO_EventTimers := Some (hs[n := h])\<rparr>)
              else d0))"

definition receive_rpdo :: "Message \<Rightarrow> CO_Data \<Rightarrow> UNS8 \<times> CO_Data" where
  "receive_rpdo m d =
     (let first = unat (PDO_RCV (firstIndex (cfg d))); n = n_rpdo (cfg d);
          i = find_pos (\<lambda>i. od_u16 d (first + i) 1 = cob_id m) [0..<n]
      in if i = n then (0, d)
         else let numPdo = of_nat i :: UNS8;
                  mp = unat (PDO_RCV_MAP (firstIndex (cfg d))) + unat numPdo;
                  (res, d1) = rpdo_loop mp 0 m 0 d
              in if res \<noteq> 0 then (res, d1) else (0, restart_rx_timer numPdo d1))"

text \<open>A remote request. The frame that state 5 builds starts from an automatic variable.\<close>

definition answer_rtr :: "Message \<Rightarrow> CO_Data \<Rightarrow> UNS8 \<times> CO_Data" where
  "answer_rtr m d =
     (let first = unat (PDO_TRS (firstIndex (cfg d))); c = n_tpdo (cfg d);
          i = find_pos (\<lambda>i. od_u16 d (first + i) 1 = cob_id m) [0..<c]
      in if i = c then (0, d)
         else let numPdo = of_nat i :: UNS8; n = unat numPdo; ty = od_u8 d (first + i) 2;
                  ready = transmit_type_parameter (PDO_status d ! n) AND PDO_RTR_SYNC_READY \<noteq> 0;
                  junk = \<lparr>cob_id = 0, rtr = 0, mlen = 0, mdata = stack_junk (cfg d)\<rparr>
         in if ty = TRANS_RTR_SYNC \<and> ready then
              (0, snd (canSend (last_message (PDO_status d ! n)) (chk (n < length (PDO_status d)) d)))
            else if ty = TRANS_RTR \<or> ty = TRANS_RTR_SYNC then
              (let (res, pdo, d1) = buildPDO numPdo junk d
               in if res \<noteq> 0 then (0xFF, d1) else (0, snd (canSend pdo d1)))
            else if ty = TRANS_EVENT_PROFILE \<or> ty = TRANS_EVENT_SPECIFIC then
              (let d1 = zap_pdo_timers n d; p = PDO_status d1 ! n;
                   d2 = put_pdo n (p\<lparr>transmit_type_parameter := transmit_type_parameter p AND NOT PDO_INHIBITED\<rparr>) d1
               in (0, PDOEventTimerAlarm (ucast numPdo) d2))
            else (0xFF, d))"

definition proceedPDO :: "Message \<Rightarrow> CO_Data \<Rightarrow> UNS8 \<times> CO_Data" where
  "proceedPDO m d =
     (if rtr m = NOT_A_REQUEST then receive_rpdo m d
      else if rtr m = REQUEST then answer_rtr m d
      else (0, d))"

declare rpdo_loop.simps [simp del]

section \<open>Invariant and frame\<close>

lemma service_frame_fault [simp]: "service_frame d (chk b d)"
  by (simp add: service_frame_def chk_def)

lemma rpdo_loop_keeps:
  assumes P: "\<And>b d. P d \<Longrightarrow> P (chk b d)" "\<And>w s src n d. P d \<Longrightarrow> P (snd (snd (setODentry w s src n False d)))"
  shows "P d \<Longrightarrow> P (snd (rpdo_loop mp off m k d))"
proof (induction "256 - k" arbitrary: off k d rule: less_induct)
  case less
  have step: "P (snd (rpdo_loop mp off' m (k + 1) d'))" if "k < unat (od_u8 d mp 0)" "P d'" for off' d'
    using that unsigned_less [of "od_u8 d mp 0", where ?'a = nat] by (intro less.hyps) simp_all
  show ?case
    by (subst rpdo_loop.simps) (use step P less.prems in \<open>simp add: Let_def split_beta\<close>)
qed

lemma rpdo_loop_node_ok: "node_ok d \<Longrightarrow> node_ok (snd (rpdo_loop mp off m k d))"
  by (rule rpdo_loop_keeps) simp_all

lemma rpdo_loop_frame: "service_frame d (snd (rpdo_loop mp off m k d))"
  by (rule rpdo_loop_keeps [where P = "service_frame d"])
    (auto intro: service_frame_trans [OF _ service_frame_fault] service_frame_trans [OF _ setODentry_frame])

lemma restart_rx_timer_node_ok: "node_ok d \<Longrightarrow> node_ok (restart_rx_timer n d)"
proof (cases "RxPDO_EventTimers d")
  case (Some hs)
  assume ok: "node_ok d"
  let ?d0 = "chk (5 < length (pSubindex (od_entry d (unat (PDO_RCV_MAP (firstIndex (cfg d))))))) d"
  let ?d1 = "snd (DelAlarm (hs ! unat n) (chk (unat n < length hs) ?d0))"
  have "RxPDO_EventTimers ?d0 = Some hs" using Some by (simp add: chk_def)
  then have hs: "RxPDO_EventTimers ?d1 = Some hs" by (simp add: chk_def)
  have "node_ok ?d1" using ok by simp
  then show ?thesis
    using ok Some hs unfolding restart_rx_timer_def
    by (auto simp: Let_def split_beta intro!: node_ok_rxtimers_upd)
qed (simp add: restart_rx_timer_def)

lemma restart_rx_timer_frame: "service_frame d (restart_rx_timer n d)"
  by (simp add: service_frame_def restart_rx_timer_def Let_def split_beta chk_def split: option.split)

lemma proceedPDO_node_ok [simp, inv_intros]:
  assumes ok: "node_ok d"
  shows "node_ok (snd (proceedPDO m d))"
proof -
  have rx: "node_ok (snd (receive_rpdo m d))"
    using ok by (simp add: receive_rpdo_def Let_def split_beta rpdo_loop_node_ok restart_rx_timer_node_ok)
  have build: "node_ok (snd (snd (buildPDO n pdo d)))" for n pdo
    using buildPDO_node_ok [OF ok] by (cases "buildPDO n pdo d") (auto dest: prod.exhaust)
  have zap: "node_ok (put_pdo n ((PDO_status (zap_pdo_timers n d) ! n)\<lparr>transmit_type_parameter := x\<rparr>) (zap_pdo_timers n d))" for n x
    using ok by (simp add: node_ok_handles put_pdo_node_ok)
  have "node_ok (snd (answer_rtr m d))"
    using ok build zap by (simp add: answer_rtr_def Let_def split_beta)
  with rx ok show ?thesis by (simp add: proceedPDO_def)
qed

lemma proceedPDO_frame [simp]: "service_frame d (snd (proceedPDO m d))"
proof -
  have "service_frame d (snd (receive_rpdo m d))"
    unfolding receive_rpdo_def Let_def split_beta
    using rpdo_loop_frame service_frame_trans [OF rpdo_loop_frame restart_rx_timer_frame] by simp
  moreover have "service_frame d (snd (answer_rtr m d))"
  proof -
    have b: "pdo_frame d (snd (snd (buildPDO n pdo d)))" for n pdo
      using pdo_frame_build by (cases "buildPDO n pdo d") (auto dest: prod.exhaust)
    have z: "pdo_frame d (PDOEventTimerAlarm k (put_pdo n p (zap_pdo_timers n d)))" for k n p
      using pdo_frame_zap pdo_frame_trans pdo_frame_put pdo_frame_alarms(1) by metis
    have c: "pdo_frame e (snd (canSend x e))" for x e by (simp add: canSend_def)
    have k: "pdo_frame d (chk q d)" for q by (simp add: chk_def)
    show ?thesis
      unfolding answer_rtr_def Let_def split_beta
      using b z pdo_frame_trans [OF b c] pdo_frame_trans [OF k c] by (auto intro!: service_frame_pdo)
  qed
  ultimately show ?thesis by (simp add: proceedPDO_def)
qed

section \<open>What a received frame writes\<close>

definition map_key :: "UNS32 \<Rightarrow> od_key" where
  "map_key p = (map_index p, map_sub p)"

text \<open>The layout of a mapping in a frame of \<open>lim\<close> bits.\<close>

fun rx_layout :: "nat \<Rightarrow> UNS32 list \<Rightarrow> nat \<Rightarrow> (nat \<times> UNS32) list" where
  "rx_layout lim [] off = []"
| "rx_layout lim (p # ps) off =
     (let s = unat (map_size p)
      in if s \<noteq> 0 \<and> off + s \<le> lim then (off, p) # rx_layout lim ps (off + s) else rx_layout lim ps off)"

text \<open>The bytes that the mapped object receives.\<close>

definition rx_bytes :: "Message \<Rightarrow> nat \<Rightarrow> UNS32 \<Rightarrow> UNS8 list" where
  "rx_bytes m off p = take (unat (ByteSize (map_size p))) (rx_tmp m off (ucast (map_size p)))"

definition rx_target :: "CO_Data \<Rightarrow> Message \<Rightarrow> nat \<Rightarrow> UNS32 \<Rightarrow> bool" where
  "rx_target d m off p \<longleftrightarrow> (\<exists>sub. od_obj d (map_key p) = Some sub \<and> ssize sub = ByteSize (map_size p)
     \<and> od_hook d (map_key p) = None
     \<and> valueRangeTest (cfg d) (bDataType sub) (rx_tmp m off (ucast (map_size p))) = 0)"

lemma length_rx_tmp [simp]: "length (rx_tmp m off Size) = 8"
  by (simp add: rx_tmp_def)

lemma rx_size:
  "(ucast (map_size p) :: UNS8) = ucast (p AND 0x000000FF)" "unat (ucast (map_size p) :: UNS8) = unat (map_size p)"
  using map_size_le [of p] by (simp_all add: map_size_def unsigned_ucast_eq take_bit_nat_eq_self)

lemma rx_ByteSize:
  assumes "map_size p \<noteq> 0"
  shows "1 + drop_bit 3 (ucast (ucast (map_size p) - 1 :: UNS8)) = ByteSize (map_size p)"
proof -
  let ?s = "map_size p" and ?t = "ucast (map_size p) :: UNS8"
  have pos: "0 < unat ?s" using assms by (simp add: unat_gt_0)
  then have t: "1 \<le> ?t" "1 \<le> ?s" using rx_size(2) [of p] by (simp_all add: word_le_nat_alt)
  have "unat (ucast (?t - 1) :: UNS32) = unat (?t - 1)"
    using unsigned_less [of "?t - 1", where ?'a = nat] by (simp add: unsigned_ucast_eq take_bit_nat_eq_self)
  also have "\<dots> = unat ?s - 1" using t(1) rx_size(2) [of p] by (simp add: unat_sub)
  also have "\<dots> = unat (?s - 1)" using t(2) by (simp add: unat_sub)
  finally have "ucast (?t - 1) = ?s - 1" by (simp add: word_unat_eq_iff)
  then show ?thesis by (simp add: ByteSize_def)
qed

lemma rx_write:
  assumes ok: "od_ok d" "od_disjoint d" and t: "rx_target d m off p" and s: "map_size p \<noteq> 0" "unat (map_size p) \<le> 64"
  shows "\<exists>n d1. setODentry (map_index p) (map_sub p) (rx_tmp m off (ucast (map_size p))) (ByteSize (map_size p)) False d = (0, n, d1)
    \<and> od_view d1 = (od_view d)(map_key p \<mapsto> rx_bytes m off p) \<and> cfg d1 = cfg d \<and> callbacks d1 = callbacks d"
proof -
  let ?src = "rx_tmp m off (ucast (map_size p))"
  obtain sub where sub: "od_obj d (map_index p, map_sub p) = Some sub" "ssize sub = ByteSize (map_size p)"
      "od_hook d (map_index p, map_sub p) = None" "valueRangeTest (cfg d) (bDataType sub) ?src = 0"
    using t by (auto simp: rx_target_def map_key_def)
  have len: "unat (ssize sub) \<le> length ?src" using ByteSize_value [OF s] s(2) sub(2) by simp
  have acc: "od_accepts d sub ?src (ssize sub) False" using sub(4) by (simp add: od_accepts_def)
  let ?d1 = "after_store (map_index p) (map_sub p) sub (od_store sub ?src (ssize sub) d)"
  have set: "setODentry (map_index p) (map_sub p) ?src (ssize sub) False d = (0, ssize sub, ?d1)"
    by (rule setODentry_accepted [OF sub(1) acc])
  have "od_view ?d1 = (od_view d)(map_key p \<mapsto> rx_bytes m off p)"
    using setODentry_view [OF ok sub(1) len _ acc] sub(2,3) set by (simp add: rx_bytes_def map_key_def)
  moreover have "callbacks ?d1 = callbacks d" "cfg ?d1 = cfg d"
    using sub(3) by (simp_all add: after_store_def od_hook_store Let_def emit_def)
  ultimately show ?thesis using set sub(2) by simp
qed

text \<open>
  The mapping entry itself: it is in the dictionary, has as many subentries as it announces, a one-byte count and
  four-byte parameters.
\<close>

definition map_idx :: "CO_Data \<Rightarrow> nat \<Rightarrow> UNS16" where
  "map_idx d mp = oindex (od_entry d mp)"

definition map_count :: "CO_Data \<Rightarrow> nat \<Rightarrow> nat" where
  "map_count d mp = unat (od_u8 d mp 0)"

definition rpdo_map_ok :: "CO_Data \<Rightarrow> nat \<Rightarrow> bool" where
  "rpdo_map_ok d mp \<longleftrightarrow> map_option fst (scanIndexOD d (map_idx d mp)) = Some mp
     \<and> map_count d mp < unat (bSubCount (od_entry d mp)) \<and> ssize (od_sub d mp 0) = 1
     \<and> (\<forall>j \<in> {1..map_count d mp}. ssize (od_sub d mp j) = 4 \<and> pObject (od_sub d mp j) \<noteq> 0)"

text \<open>The same configuration and the same bytes of the mapping entry.\<close>

definition same_mapping :: "CO_Data \<Rightarrow> CO_Data \<Rightarrow> nat \<Rightarrow> bool" where
  "same_mapping d0 d mp \<longleftrightarrow> cfg d = cfg d0 \<and> callbacks d = callbacks d0
     \<and> (\<forall>s. od_view d (map_idx d0 mp, s) = od_view d0 (map_idx d0 mp, s))"

lemma rd32_bytes: "rd_bytes m a 4 = rd_bytes m' a 4 \<Longrightarrow> rd32 m a = rd32 m' a"
  by (simp add: rd_bytes_def rd32_def upt_rec eval_nat_numeral)

lemma same_mapping_reads:
  assumes map: "rpdo_map_ok d0 mp" and same: "same_mapping d0 d mp"
  shows "od_u8 d mp 0 = od_u8 d0 mp 0" "j \<in> {1..map_count d0 mp} \<Longrightarrow> od_u32 d mp j = od_u32 d0 mp j"
proof -
  have c: "cfg d = cfg d0" using same by (simp add: same_mapping_def)
  have view: "od_view e (map_idx d0 mp, of_nat j) = Some (rd_bytes (mem e) (pObject (od_sub d0 mp j)) (unat (ssize (od_sub d0 mp j))))"
    if "j \<le> map_count d0 mp" "cfg e = cfg d0" for e j
  proof -
    have "unat (of_nat j :: UNS8) = j"
      using that(1) map unsigned_less [of "od_u8 d0 mp 0", where ?'a = nat]
      by (simp add: map_count_def unsigned_of_nat take_bit_nat_eq_self)
    moreover obtain b where "scanIndexOD d0 (map_idx d0 mp) = Some (mp, b)" using map by (auto simp: rpdo_map_ok_def)
    ultimately show ?thesis
      using that map
      by (simp add: od_view_def od_obj_def scanIndexOD_cong [of e d0] od_entry_cong [of e d0] od_sub_cong [of e d0]
          rpdo_map_ok_def word_less_nat_alt)
  qed
  have eq: "rd_bytes (mem d) (pObject (od_sub d0 mp j)) (unat (ssize (od_sub d0 mp j)))
      = rd_bytes (mem d0) (pObject (od_sub d0 mp j)) (unat (ssize (od_sub d0 mp j)))" if "j \<le> map_count d0 mp" for j
    using view [OF that c] view [OF that refl] same by (simp add: same_mapping_def)
  show "od_u8 d mp 0 = od_u8 d0 mp 0"
    using eq [of 0] map c by (simp add: rpdo_map_ok_def od_u8_def od_sub_cong [of d d0] rd_bytes_def)
  show "od_u32 d mp j = od_u32 d0 mp j" if "j \<in> {1..map_count d0 mp}"
    using eq [of j] map c that
    by (auto simp: rpdo_map_ok_def od_u32_def od_sub_cong [of d d0] intro!: rd32_bytes)
qed

lemma rx_target_cong:
  assumes "cfg d = cfg d0" "callbacks d = callbacks d0"
  shows "rx_target d m off p = rx_target d0 m off p"
proof -
  have "od_hook d (map_key p) = od_hook d0 (map_key p)"
    using assms by (simp add: od_hook_def scanIndexOD_cong [of d d0] split: option.split prod.split bool.split)
  with assms show ?thesis by (simp add: rx_target_def od_obj_cong [of d d0])
qed

lemma rpdo_loop_turn:
  assumes k: "k < unat (od_u8 d mp 0)" "k + 1 < length (pSubindex (od_entry d mp))" "pObject (od_sub d mp (k + 1)) \<noteq> 0"
    and m: "unat (mlen m) \<le> 8" "8 \<le> length (mdata m)"
  defines "p \<equiv> od_u32 d mp (k + 1)"
  shows "rpdo_loop mp off m k d =
    (if unat (map_size p) \<noteq> 0 \<and> unat off + unat (map_size p) \<le> 8 * unat (mlen m) then
       (let (c, n, d1) = setODentry (map_index p) (map_sub p) (rx_tmp m (unat off) (ucast (map_size p)))
              (ByteSize (map_size p)) False d
        in if c \<noteq> 0 then (0xFF, d1) else rpdo_loop mp (off + ucast (map_size p)) m (k + 1) d1)
     else rpdo_loop mp off m (k + 1) d)"
proof -
  let ?S = "ucast (map_size p) :: UNS8"
  have S: "?S \<noteq> 0 \<longleftrightarrow> unat (map_size p) \<noteq> 0" using rx_size(2) [of p] by (simp add: unat_eq_0 [symmetric] del: unat_eq_0)
  have "rpdo_loop mp off m k d =
      (if ?S \<noteq> 0 \<and> unat off + unat ?S \<le> 8 * unat (mlen m) then
         (let (c, n, d1) = setODentry (map_index p) (map_sub p) (rx_tmp m (unat off) ?S) (1 + drop_bit 3 (ucast (?S - 1))) False
                (chk (unat ?S \<le> 64 \<and> unat off + unat ?S \<le> 8 * length (mdata m)) d)
          in if c \<noteq> 0 then (0xFF, d1) else rpdo_loop mp (off + ?S) m (k + 1) d1)
       else rpdo_loop mp off m (k + 1) d)"
    using k by (subst rpdo_loop.simps) (simp add: Let_def p_def rx_size(1) split_beta)
  moreover have "unat ?S \<le> 64 \<and> unat off + unat ?S \<le> 8 * length (mdata m)" if "unat off + unat ?S \<le> 8 * unat (mlen m)"
    using that m by linarith
  moreover have "1 + drop_bit 3 (ucast (?S - 1)) = ByteSize (map_size p)" if "?S \<noteq> 0"
    using that S by (intro rx_ByteSize) auto
  ultimately show ?thesis using S rx_size(2) [of p] by simp
qed

lemma dom_rx_writes:
  "dom (map_of (map (\<lambda>(o1, p). (map_key p, rx_bytes m o1 p)) ly)) = set (map (map_key \<circ> snd) ly)"
  by (force simp: dom_map_of_conv_image_fst)

lemma rpdo_loop_spec:
  assumes m: "unat (mlen m) \<le> 8" "8 \<le> length (mdata m)" and map: "rpdo_map_ok d0 mp"
    and od0: "od_ok d0" "od_disjoint d0"
    and same: "same_mapping d0 d mp" and kn: "k + n = map_count d0 mp" and off: "unat off \<le> 64"
    and tgt: "\<forall>(o1, p) \<in> set (rx_layout (8 * unat (mlen m)) (tpdo_params d0 mp k n) (unat off)).
        rx_target d0 m o1 p \<and> map_index p \<noteq> map_idx d0 mp"
    and dist: "distinct (map (map_key \<circ> snd) (rx_layout (8 * unat (mlen m)) (tpdo_params d0 mp k n) (unat off)))"
  shows "\<exists>d'. rpdo_loop mp off m k d = (0, d') \<and> cfg d' = cfg d0 \<and> callbacks d' = callbacks d0
    \<and> od_view d' = od_view d ++ map_of (map (\<lambda>(o1, p). (map_key p, rx_bytes m o1 p))
         (rx_layout (8 * unat (mlen m)) (tpdo_params d0 mp k n) (unat off)))"
  using same kn off tgt dist
proof (induction n arbitrary: k off d)
  case 0
  then show ?case
    using same_mapping_reads(1) [OF map 0(1)]
    by (subst rpdo_loop.simps) (simp add: tpdo_params_def map_count_def same_mapping_def)
next
  case (Suc n)
  let ?lim = "8 * unat (mlen m)" and ?p = "od_u32 d0 mp (k + 1)" and ?ps = "tpdo_params d0 mp (k + 1) n"
  let ?s = "map_size ?p"
  have ps: "tpdo_params d0 mp k (Suc n) = ?p # ?ps"
    by (simp add: tpdo_params_def upt_conv_Cons del: upt_Suc)
  have cc: "cfg d = cfg d0" "callbacks d = callbacks d0" using Suc.prems(1) by (simp_all add: same_mapping_def)
  note rd = same_mapping_reads [OF map Suc.prems(1)]
  have p: "od_u32 d mp (k + 1) = ?p" using Suc.prems(2) by (intro rd(2)) simp
  have turn: "rpdo_loop mp off m k d =
      (if unat ?s \<noteq> 0 \<and> unat off + unat ?s \<le> ?lim then
         (let (c, n, d1) = setODentry (map_index ?p) (map_sub ?p) (rx_tmp m (unat off) (ucast ?s)) (ByteSize ?s) False d
          in if c \<noteq> 0 then (0xFF, d1) else rpdo_loop mp (off + ucast ?s) m (k + 1) d1)
       else rpdo_loop mp off m (k + 1) d)"
    unfolding p [symmetric]
  proof (rule rpdo_loop_turn)
    show "k < unat (od_u8 d mp 0)" using Suc.prems(2) rd(1) by (simp add: map_count_def)
    have "k + 1 < unat (bSubCount (od_entry d0 mp))" using map Suc.prems(2) by (simp add: rpdo_map_ok_def)
    moreover have "length (pSubindex (od_entry d0 mp)) = unat (bSubCount (od_entry d0 mp))"
      using map od0(1) by (auto simp: rpdo_map_ok_def intro: od_ok_scan(2))
    ultimately show "k + 1 < length (pSubindex (od_entry d mp))" by (simp add: od_entry_cong [OF cc(1)])
    show "pObject (od_sub d mp (k + 1)) \<noteq> 0"
      using map Suc.prems(2) by (simp add: rpdo_map_ok_def od_sub_cong [OF cc(1)])
  qed (use m in simp_all)
  show ?case
  proof (cases "unat ?s \<noteq> 0 \<and> unat off + unat ?s \<le> ?lim")
    case False
    then have ly: "rx_layout ?lim (tpdo_params d0 mp k (Suc n)) (unat off) = rx_layout ?lim ?ps (unat off)"
      by (auto simp: ps Let_def)
    have "\<exists>d'. rpdo_loop mp off m (k + 1) d = (0, d') \<and> cfg d' = cfg d0 \<and> callbacks d' = callbacks d0
      \<and> od_view d' = od_view d ++ map_of (map (\<lambda>(o1, p). (map_key p, rx_bytes m o1 p)) (rx_layout ?lim ?ps (unat off)))"
      using Suc.IH [OF Suc.prems(1), of "k + 1" off] Suc.prems(2-5) unfolding ly by simp
    with False show ?thesis unfolding turn ly by (simp add: if_not_P)
  next
    case True
    let ?off = "off + ucast ?s"
    have sum: "unat ?off = unat off + unat ?s"
      using True Suc.prems(3) rx_size(2) [of ?p] m(1) by (simp add: unat_word_ariths)
    have ly: "rx_layout ?lim (tpdo_params d0 mp k (Suc n)) (unat off) = (unat off, ?p) # rx_layout ?lim ?ps (unat ?off)"
      using True sum by (simp add: ps Let_def)
    have t: "rx_target d m (unat off) ?p" "map_index ?p \<noteq> map_idx d0 mp"
      using Suc.prems(4) unfolding ly rx_target_cong [OF cc] by simp_all
    have od: "od_ok d" "od_disjoint d" using od0 cc by (simp_all add: od_ok_cong [of d d0] od_disjoint_cong [of d d0])
    obtain nn d1 where w: "setODentry (map_index ?p) (map_sub ?p) (rx_tmp m (unat off) (ucast ?s)) (ByteSize ?s) False d = (0, nn, d1)"
        "od_view d1 = (od_view d)(map_key ?p \<mapsto> rx_bytes m (unat off) ?p)" "cfg d1 = cfg d" "callbacks d1 = callbacks d"
      using rx_write [OF od t(1)] True m(1) by (auto simp: unat_eq_0)
    have same1: "same_mapping d0 d1 mp"
      using Suc.prems(1) w(2-4) t(2) by (auto simp: same_mapping_def map_key_def)
    obtain d' where ih: "rpdo_loop mp ?off m (k + 1) d1 = (0, d')" "cfg d' = cfg d0" "callbacks d' = callbacks d0"
      "od_view d' = od_view d1 ++ map_of (map (\<lambda>(o1, p). (map_key p, rx_bytes m o1 p)) (rx_layout ?lim ?ps (unat ?off)))"
      using Suc.IH [OF same1, of "k + 1" ?off] Suc.prems(2,4,5) True sum m(1) unfolding ly by auto
    have fresh: "map_key ?p \<notin> dom (map_of (map (\<lambda>(o1, p). (map_key p, rx_bytes m o1 p)) (rx_layout ?lim ?ps (unat ?off))))"
      using Suc.prems(5) unfolding ly dom_rx_writes by simp
    have "od_view d' = od_view d ++ map_of (map (\<lambda>(o1, p). (map_key p, rx_bytes m o1 p)) ((unat off, ?p) # rx_layout ?lim ?ps (unat ?off)))"
      unfolding ih(4) w(2) using map_add_upd_left [OF fresh] by simp
    moreover have "rpdo_loop mp off m k d = (0, d')"
      unfolding turn if_P [OF True] using w(1) ih(1) by simp
    ultimately show ?thesis using ih(2,3) unfolding ly by blast
  qed
qed

section \<open>Properties\<close>

text \<open>The mapping table entry and the layout of receive PDO \<open>i\<close> for a frame.\<close>

definition rpdo_map :: "CO_Data \<Rightarrow> nat \<Rightarrow> nat" where
  "rpdo_map d i = unat (PDO_RCV_MAP (firstIndex (cfg d))) + i"

definition rpdo_mapping :: "CO_Data \<Rightarrow> nat \<Rightarrow> UNS32 list" where
  "rpdo_mapping d i = tpdo_params d (rpdo_map d i) 0 (map_count d (rpdo_map d i))"

definition rpdo_layout :: "CO_Data \<Rightarrow> nat \<Rightarrow> Message \<Rightarrow> (nat \<times> UNS32) list" where
  "rpdo_layout d i m = rx_layout (8 * unat (mlen m)) (rpdo_mapping d i) 0"

text \<open>PDO \<open>i\<close> is the first with the frame's identifier, its mapping is well formed and its objects can take the values.\<close>

definition rpdo_accepts :: "CO_Data \<Rightarrow> nat \<Rightarrow> Message \<Rightarrow> bool" where
  "rpdo_accepts d i m \<longleftrightarrow> i < n_rpdo (cfg d) \<and> i < 256
     \<and> (\<forall>j \<le> i. od_u16 d (unat (PDO_RCV (firstIndex (cfg d))) + j) 1 = cob_id m \<longleftrightarrow> j = i)
     \<and> rpdo_map_ok d (rpdo_map d i)
     \<and> (\<forall>(o1, p) \<in> set (rpdo_layout d i m). rx_target d m o1 p \<and> map_index p \<noteq> map_idx d (rpdo_map d i))
     \<and> distinct (map (map_key \<circ> snd) (rpdo_layout d i m))"

lemma restart_rx_timer_view: "od_view (restart_rx_timer n d) = od_view d"
  by (rule od_view_cong) (simp_all add: restart_rx_timer_def Let_def split_beta chk_def split: option.split)

lemma receive_rpdo_updates:
  assumes od: "od_ok d" "od_disjoint d" and m: "unat (mlen m) \<le> 8" "8 \<le> length (mdata m)"
    and acc: "rpdo_accepts d i m"
  shows "\<exists>d'. receive_rpdo m d = (0, d')
    \<and> od_view d' = od_view d ++ map_of (map (\<lambda>(o1, p). (map_key p, rx_bytes m o1 p)) (rpdo_layout d i m))"
proof -
  let ?f = "\<lambda>j. od_u16 d (unat (PDO_RCV (firstIndex (cfg d))) + j) 1 = cob_id m"
  let ?mp = "rpdo_map d i"
  have i: "i < n_rpdo (cfg d)" "i < 256" "\<forall>j \<le> i. ?f j \<longleftrightarrow> j = i" using acc by (auto simp: rpdo_accepts_def)
  have pos: "find_pos ?f [0..<n_rpdo (cfg d)] = i"
    using i by (intro find_pos_first) auto
  have num: "unat (of_nat i :: UNS8) = i" using i(2) by (simp add: unsigned_of_nat take_bit_nat_eq_self)
  obtain d1 where l: "rpdo_loop ?mp 0 m 0 d = (0, d1)"
      "od_view d1 = od_view d ++ map_of (map (\<lambda>(o1, p). (map_key p, rx_bytes m o1 p)) (rpdo_layout d i m))"
    using rpdo_loop_spec [OF m _ od, of ?mp d 0 "map_count d ?mp" 0] acc
    unfolding rpdo_accepts_def rpdo_layout_def rpdo_mapping_def by (auto simp: same_mapping_def)
  have "receive_rpdo m d = (0, restart_rx_timer (of_nat i) d1)"
    using i(1) pos l(1) num by (simp add: receive_rpdo_def Let_def rpdo_map_def)
  then show ?thesis using l(2) restart_rx_timer_view by auto
qed


lemma rx_layout_pdo:
  "layout_end ps off \<le> lim \<Longrightarrow> lim \<le> 64 \<Longrightarrow> rx_layout lim ps off = pdo_layout ps off"
proof (induction ps arbitrary: off)
  case (Cons p ps)
  let ?s = "unat (map_size p)"
  have "off + ?s \<le> 64 \<Longrightarrow> ?s \<noteq> 0 \<Longrightarrow> off + ?s \<le> lim"
    using Cons.prems layout_end_ge [of "off + ?s" ps] by (simp add: Let_def)
  with Cons show ?case by (auto simp: Let_def)
qed simp

lemma layout_find:
  assumes "(o1, p) \<in> set (pdo_layout ps off)" "o1 \<le> k" "k < o1 + unat (map_size p)"
  shows "find (\<lambda>(o1, p). o1 \<le> k \<and> k < o1 + unat (map_size p)) (pdo_layout ps off) = Some (o1, p)"
  using assms
proof (induction ps off rule: pdo_layout.induct)
  case (2 q ps off)
  show ?case
  proof (cases "unat (map_size q) \<noteq> 0 \<and> off + unat (map_size q) \<le> 64")
    case True
    show ?thesis
    proof (cases "(o1, p) = (off, q)")
      case False
      then have in2: "(o1, p) \<in> set (pdo_layout ps (off + unat (map_size q)))" using 2 True by (auto simp: Let_def)
      then have "off + unat (map_size q) \<le> o1" by (rule layout_from)
      with 2 True in2 show ?thesis by (simp add: Let_def)
    qed (use True 2 in \<open>simp add: Let_def\<close>)
  qed (use 2 in \<open>auto simp: Let_def\<close>)
qed simp

lemma layout_in_end:
  "(o1, p) \<in> set (pdo_layout ps off) \<Longrightarrow> o1 + unat (map_size p) \<le> layout_end ps off \<and> unat (map_size p) \<noteq> 0"
proof (induction ps off rule: pdo_layout.induct)
  case (2 q ps off)
  then show ?case
    using layout_end_ge [of "off + unat (map_size q)" ps] by (auto simp: Let_def split: if_splits)
qed simp

lemma lbit_rx_tmp:
  assumes "off + unat Size \<le> 8 * length (mdata m)" "j < unat Size" "unat Size \<le> 64"
  shows "lbit (rx_tmp m off Size) j = lbit (mdata m) (off + j)"
proof -
  have o: "unat (of_nat (off mod 8) :: UNS8) = off mod 8" by (simp add: unsigned_of_nat take_bit_nat_eq_self)
  have "lbit (rx_tmp m off Size) j = lbit (mdata m) (8 * (off div 8) + off mod 8 + j)"
    using CopyBits_loop_spec [of "of_nat (off mod 8)" 0 Size "unat Size" "off div 8" "mdata m" 0 "replicate 8 0" j]
      assms o by (simp add: rx_tmp_def CopyBits_def)
  then show ?thesis by simp
qed

lemma lbit_take: "k < 8 * n \<Longrightarrow> lbit (take n xs) k = lbit xs k"
  by (simp add: lbit_def)

text \<open>The slice of a frame at the place of a mapped object is that object, when both have whole bytes.\<close>

lemma rx_bytes_of_built:
  assumes ly: "(o1, p) \<in> set (pdo_layout ps 0)"
    and bits: "\<forall>k < 64. lbit bs k = layout_bit d (pdo_layout ps 0) old k"
    and m: "8 \<le> length (mdata m)" "unat (mlen m) \<le> 8" "layout_end ps 0 \<le> 8 * unat (mlen m)"
      "take (unat (mlen m)) (mdata m) = take (unat (mlen m)) bs"
    and whole: "8 dvd unat (map_size p)" "od_view d (map_key p) = Some v" "8 * length v = unat (map_size p)"
  shows "rx_bytes m o1 p = v"
proof (rule lbit_eqI)
  let ?s = "unat (map_size p)"
  have fit: "o1 + ?s \<le> 8 * unat (mlen m)" "?s \<noteq> 0" using layout_in_end [OF ly] m(3) by auto
  then have s64: "?s \<le> 64" using m(2) by simp
  have "unat (ByteSize (map_size p)) = 1 + (?s - 1) div 8"
    using ByteSize_value [of "map_size p"] fit(2) s64 by (auto simp: unat_eq_0)
  also have "\<dots> = ?s div 8" using whole(1) fit(2) by (auto elim!: dvdE)
  finally have bs: "unat (ByteSize (map_size p)) = ?s div 8" .
  then show len: "length (rx_bytes m o1 p) = length v" using whole(3) s64 by (simp add: rx_bytes_def)
  fix j
  assume "j < 8 * length (rx_bytes m o1 p)"
  then have j: "j < ?s" using len whole(3) by simp
  have "lbit (rx_bytes m o1 p) j = lbit (rx_tmp m o1 (ucast (map_size p))) j"
    unfolding rx_bytes_def bs using j whole(1) by (intro lbit_take) auto
  also have "\<dots> = lbit (mdata m) (o1 + j)"
    using j fit(1) m(1,2) s64 rx_size(2) [of p] by (intro lbit_rx_tmp) auto
  also have "\<dots> = lbit bs (o1 + j)"
    using lbit_take [of "o1 + j" "unat (mlen m)" "mdata m"] lbit_take [of "o1 + j" "unat (mlen m)" bs] m(4) j fit(1) by simp
  also have "\<dots> = lbit (mapped_bytes d p) j"
    using bits j fit(1) m(2) layout_find [OF ly, of "o1 + j"] by (simp add: layout_bit_def)
  also have "\<dots> = lbit v j"
    using whole(2,3) j s64 by (auto simp: mapped_bytes_def map_key_def lbit_def nth_put_list)
  finally show "lbit (rx_bytes m o1 p) j = lbit v j" .
qed

lemma rx_layout_sizes:
  "map map_size ps = map map_size qs \<Longrightarrow>
   list_all2 (\<lambda>(o1, p) (o2, q). o1 = o2 \<and> map_size p = map_size q) (rx_layout lim ps off) (rx_layout lim qs off)"
proof (induction ps arbitrary: qs off)
  case (Cons p ps)
  obtain q qs' where "qs = q # qs'" "map_size p = map_size q" "map map_size ps = map map_size qs'"
    using Cons.prems by (cases qs) auto
  with Cons.IH [of qs'] show ?case by (simp add: Let_def)
qed simp

text \<open>C8: PDO communication transports values. Node \<open>dT\<close> builds TPDO \<open>n\<close>; a node \<open>d\<close> whose receive PDO \<open>i\<close> has that
  identifier and maps objects of the same sizes receives the frame. Then every mapped object of \<open>d\<close> holds the value
  that the object of \<open>dT\<close> at the same place of its mapping has, when the mapped objects have whole bytes.\<close>

theorem pdo_transports_values:
  assumes od: "od_ok d" "od_disjoint d" and tx: "tpdo_ok dT n" "buildPDO n Message_Initializer dT = (0, pdo, dT')"
    and m: "cob_id m = cob_id pdo" "rtr m = rtr pdo" "mlen m = mlen pdo" "length (mdata m) = 8"
      "take (unat (mlen m)) (mdata m) = take (unat (mlen m)) (mdata pdo)"
    and rx: "rpdo_accepts d i m" "map map_size (rpdo_mapping d i) = map map_size (tpdo_mapping dT n)"
    and whole: "\<forall>(o1, q) \<in> set (pdo_layout (tpdo_mapping dT n) 0). 8 dvd unat (map_size q)
        \<and> (\<exists>v. od_view dT (map_key q) = Some v \<and> 8 * length v = unat (map_size q))"
  shows "\<exists>d'. proceedPDO m d = (0, d') \<and> length (rpdo_layout d i m) = length (pdo_layout (tpdo_mapping dT n) 0)
    \<and> (\<forall>k < length (rpdo_layout d i m). od_view d' (map_key (snd (rpdo_layout d i m ! k)))
         = od_view dT (map_key (snd (pdo_layout (tpdo_mapping dT n) 0 ! k))))"
proof -
  let ?qs = "tpdo_mapping dT n" and ?ly = "rpdo_layout d i m"
  have b: "rtr pdo = NOT_A_REQUEST" "unat (mlen pdo) = (layout_end ?qs 0 + 7) div 8"
      "\<forall>k < 64. lbit (mdata pdo) k = layout_bit dT (pdo_layout ?qs 0) (mdata Message_Initializer) k"
    using buildPDO_spec [OF tx(1) length_Message_Initializer] tx(2) by auto
  have len: "layout_end ?qs 0 \<le> 8 * unat (mlen m)" "unat (mlen m) \<le> 8"
    using b(2) m(3) layout_end_le [of 0 ?qs] by simp_all
  have sim: "list_all2 (\<lambda>(o1, p) (o2, q). o1 = o2 \<and> map_size p = map_size q) ?ly (pdo_layout ?qs 0)"
    using rx_layout_sizes [OF rx(2), of "8 * unat (mlen m)" 0] len by (simp add: rpdo_layout_def rx_layout_pdo)
  obtain d' where d': "receive_rpdo m d = (0, d')"
      "od_view d' = od_view d ++ map_of (map (\<lambda>(o1, p). (map_key p, rx_bytes m o1 p)) ?ly)"
    using receive_rpdo_updates [OF od len(2) _ rx(1)] m(4) by auto
  have dist: "distinct (map (map_key \<circ> snd) ?ly)" using rx(1) unfolding rpdo_accepts_def by blast
  have "od_view d' (map_key (snd (?ly ! k))) = od_view dT (map_key (snd (pdo_layout ?qs 0 ! k)))" if k: "k < length ?ly" for k
  proof -
    obtain o1 p q where pq: "?ly ! k = (o1, p)" "pdo_layout ?qs 0 ! k = (o1, q)" "map_size p = map_size q"
      using list_all2_nthD [OF sim k] by (auto split: prod.splits)
    have in1: "(o1, p) \<in> set ?ly" using nth_mem [OF k] pq(1) by simp
    have in2: "(o1, q) \<in> set (pdo_layout ?qs 0)" using nth_mem [of k "pdo_layout ?qs 0"] pq(2) k list_all2_lengthD [OF sim] by simp
    obtain v where v: "8 dvd unat (map_size q)" "od_view dT (map_key q) = Some v" "8 * length v = unat (map_size q)"
      using bspec [OF whole in2] by auto
    have "map_of (map (\<lambda>(o1, p). (map_key p, rx_bytes m o1 p)) ?ly) (map_key p) = Some (rx_bytes m o1 p)"
      using in1 dist by (intro map_of_is_SomeI) (force simp: comp_def split_beta)+
    moreover have "rx_bytes m o1 p = rx_bytes m o1 q" using pq(3) by (simp add: rx_bytes_def)
    moreover have "rx_bytes m o1 q = v"
      using rx_bytes_of_built [OF in2 b(3) _ len(2,1) m(5) v] m(4) by simp
    ultimately show ?thesis unfolding d'(2) using v(2) pq by simp
  qed
  with d'(1) b(1) m(2) list_all2_lengthD [OF sim] show ?thesis by (auto simp: proceedPDO_def)
qed

end
