(* ===== verification/NodeExamples.thy ===== *)
theory NodeExamples
  imports TestSlave TestMaster PdoReceive
begin

text \<open>
  The general theorems at the two dictionaries of \<^verbatim>\<open>CanFestival/drive\<close>: every hypothesis of a property of
  the components is discharged at a concrete node, frame or object of \<open>TestSlave\<close> or \<open>TestMaster\<close>.
\<close>

section \<open>Reading the example nodes\<close>

lemmas slave_eval = TestSlave_Data_def TestSlave_scanIndexOD_def TestSlave_defs scanIndexOD_def od_obj_def od_entry_def od_sub_def

lemmas master_eval = TestMaster_Data_def TestMaster_scanIndexOD_def TestMaster_defs scanIndexOD_def od_obj_def od_entry_def od_sub_def

lemma slave_serial: "od_obj TestSlave_Data (0x1018, 4) = Some (sub RO 0x07 4 124)"
  by (simp add: slave_eval)

lemma slave_code: "od_obj TestSlave_Data (0x20F0, 2) = Some (sub RW 0x06 2 312)"
  by (simp add: slave_eval)

theorem getODentry_reads_object_witness:
  "\<exists>r. getODentry 0x1018 4 (Some (replicate 32 0)) 32 0 True TestSlave_Data = (r, TestSlave_Data) \<and> rcode r = OD_SUCCESSFUL
     \<and> Some (take 4 (rdest r)) = od_view TestSlave_Data (0x1018, 4)"
proof -
  obtain r d' where r: "getODentry 0x1018 4 (Some (replicate 32 0)) 32 0 True TestSlave_Data = (r, d')" by fastforce
  have "bDataType (sub RO 0x07 4 124) \<noteq> visible_string" "unat (32 :: UNS32) \<le> length (replicate 32 (0 :: UNS8))"
    by (simp_all add: sub_def)
  from getODentry_reads_object [OF slave_serial this r] r show ?thesis by (auto simp: sub_def)
qed

theorem setODentry_updates_one_object_witness:
  "\<exists>n d'. setODentry 0x20F0 2 [0x34, 0x12] 2 True TestSlave_Data = (OD_SUCCESSFUL, n, d')
     \<and> od_view d' = (od_view TestSlave_Data)((0x20F0, 2) \<mapsto> [0x34, 0x12])"
proof -
  obtain code n d' where r: "setODentry 0x20F0 2 [0x34, 0x12] (ssize (sub RW 0x06 2 312)) True TestSlave_Data = (code, n, d')"
    by (metis prod_cases3)
  have "od_hook TestSlave_Data (0x20F0, 2) \<noteq> Some OnNumberOfErrorsUpdate_cb"
    by (simp add: od_hook_def slave_eval TestSlave_callbacks_def)
  moreover have "length [0x34, 0x12 :: UNS8] = unat (ssize (sub RW 0x06 2 312))" by (simp add: sub_def)
  moreover have "valueRangeTest (cfg TestSlave_Data) (bDataType (sub RW 0x06 2 312)) [0x34, 0x12] = 0"
    by (simp add: TestSlave_Data_def TestSlave_config_def TestSlave_valueRangeTest_def sub_def)
  ultimately show ?thesis
    using setODentry_updates_one_object [OF TestSlave_od_ok TestSlave_disjoint slave_code _ _ r] r by (auto simp: sub_def)
qed

text \<open>A node with a device name: one entry, the eight-character string 1008h.\<close>

definition named_node :: CO_Data where
  "named_node = TestSlave_Data\<lparr>callbacks := [[]], cfg := TestSlave_config\<lparr>objdict := [od_row [sub RW visible_string 8 400] 0x1008],
     scanIndexOD_f := (\<lambda>i. if i = 0x1008 then Some (0, False) else None)\<rparr>\<rparr>"

lemma name_object: "od_obj named_node (0x1008, 0) = Some (sub RW visible_string 8 400)"
  by (simp add: named_node_def od_obj_def scanIndexOD_def od_entry_def od_sub_def od_row_def)

theorem string_write_read_witness:
  "\<exists>n d' r. setODentry 0x1008 0 [0x41, 0x42, 0x43] 3 True named_node = (OD_SUCCESSFUL, n, d')
     \<and> getODentry 0x1008 0 (Some (replicate 8 0)) 8 0 True d' = (r, d') \<and> rsize r = 3 \<and> take 3 (rdest r) = [0x41, 0x42, 0x43]"
proof -
  let ?src = "[0x41, 0x42, 0x43 :: UNS8]" and ?sub = "sub RW visible_string 8 400"
  obtain code n d' where w: "setODentry 0x1008 0 ?src (of_nat (length ?src)) True named_node = (code, n, d')" by (metis prod_cases3)
  obtain r d'' where r: "getODentry 0x1008 0 (Some (replicate 8 0)) (ssize ?sub) 0 True d' = (r, d'')" by fastforce
  have "od_hook named_node (0x1008, 0) \<noteq> Some OnNumberOfErrorsUpdate_cb"
    by (simp add: od_hook_def named_node_def scanIndexOD_def)
  moreover have "od_accepts named_node ?sub ?src (of_nat (length ?src)) True"
    by (simp add: od_accepts_def sub_def named_node_def TestSlave_config_def TestSlave_valueRangeTest_def)
  moreover have "bDataType ?sub = visible_string" "bAccessType ?sub AND WO = 0" "?src \<noteq> []" "0 \<notin> set ?src"
    "length ?src \<le> unat (ssize ?sub)" "length (replicate 8 (0 :: UNS8)) = unat (ssize ?sub)"
    by (simp_all add: sub_def)
  ultimately have "code = OD_SUCCESSFUL \<and> rcode r = OD_SUCCESSFUL \<and> rsize r = of_nat (length ?src)
      \<and> take (length ?src) (rdest r) = ?src \<and> d'' = d'"
    using string_write_read [OF name_object _ _ _ _ _ _ _ w _ r] by blast
  with w r show ?thesis by (simp add: sub_def numeral_3_eq_3)
qed

section \<open>Emergency\<close>

lemma slave_emcy: "emcy_ok TestSlave_Data" "emcy_layout (cfg TestSlave_Data)"
proof -
  have "mem TestSlave_Data 20 = 0"
    by (simp add: TestSlave_Data_def mem_of_def TestSlave_image_def place_def upt_rec bytes32_def bytes16_def)
  moreover have "error_mask (replicate 8 ERROR_DATA_INITIALIZER) = 0"
    by (simp add: error_mask_def ERROR_DATA_INITIALIZER_def eval_nat_numeral)
  ultimately show "emcy_ok TestSlave_Data"
    unfolding emcy_ok_def
    by (simp add: TestSlave_Data_def CANOPEN_NODE_DATA_INITIALIZER_def TestSlave_config_def ERROR_DATA_INITIALIZER_def)
  show "emcy_layout (cfg TestSlave_Data)"
    by (simp add: emcy_layout_def TestSlave_Data_def TestSlave_config_def)
qed

lemma slave_errors: "error_data TestSlave_Data = replicate 8 ERROR_DATA_INITIALIZER"
  by (simp add: TestSlave_Data_def CANOPEN_NODE_DATA_INITIALIZER_def)

theorem emcy_register_exact_witness: "emcy_ok (snd (EMCY_setError 0x4200 0x08 7 TestSlave_Data))"
  using emcy_register_exact [OF slave_emcy] by blast

theorem EMCY_setError_reports_witness:
  "emcy_active 0x4200 (snd (EMCY_setError 0x4200 0x08 7 TestSlave_Data))"
proof -
  obtain res d' where r: "EMCY_setError 0x4200 0x08 7 TestSlave_Data = (res, d')" by fastforce
  have "\<not> emcy_active 0x4200 TestSlave_Data"
    "\<not> (\<forall>e \<in> set (error_data TestSlave_Data). errCode e \<noteq> 0x4200 \<and> active e = 1)"
    by (simp_all add: emcy_active_def slave_errors ERROR_DATA_INITIALIZER_def)
  with EMCY_setError_reports [OF slave_emcy r] r show ?thesis by simp
qed

theorem EMCY_errorRecovered_clears_witness:
  "\<not> emcy_active 0x4200 (EMCY_errorRecovered 0x4200 TestSlave_Data)"
  using EMCY_errorRecovered_clears [OF slave_emcy, of "0x4200"] by blast

section \<open>Supervision\<close>

lemmas image_eval = mem_of_def place_def upt_rec bytes32_def bytes16_def le32_def

lemma slave_node_id: "mem TestSlave_Data (bDeviceNodeId (cfg TestSlave_Data)) = 0"
  by (simp add: TestSlave_Data_def TestSlave_config_def TestSlave_image_def image_eval)

text \<open>A guarding request to node 0.\<close>

definition guard_request :: Message where
  "guard_request = \<lparr>cob_id = 0x700, rtr = 1, mlen = 0, mdata = replicate 8 0\<rparr>"

theorem guard_answers_alternate_witness:
  "\<exists>a b. sent (proceedNODE_GUARD guard_request (proceedNODE_GUARD guard_request TestSlave_Data)) = sent TestSlave_Data @ [a, b]
    \<and> {mdata a, mdata b} = {[nodeState TestSlave_Data], [nodeState TestSlave_Data OR 0x80]}"
proof -
  have "rtr guard_request = 1" "GET_NODE_ID guard_request = mem TestSlave_Data (bDeviceNodeId (cfg TestSlave_Data))"
    by (simp_all add: guard_request_def GET_NODE_ID_def slave_node_id)
  from guard_answers_alternate [OF this] show ?thesis by blast
qed

text \<open>The master supervises node 2: its heartbeat timer is row 0 of the table.\<close>

definition master_hb :: CO_Data where
  "master_hb = TestMaster_Data\<lparr>ConsumerHeartBeatTimers := (ConsumerHeartBeatTimers TestMaster_Data)[0 := 0]\<rparr>"

definition heartbeat_frame :: Message where
  "heartbeat_frame = \<lparr>cob_id = 0x702, rtr = 0, mlen = 1, mdata = [5, 0, 0, 0, 0, 0, 0, 0]\<rparr>"

lemma master_hb_ok: "node_ok master_hb" "hb_ok master_hb"
proof -
  show "node_ok master_hb"
    unfolding master_hb_def by (rule node_ok_consumer_upd [OF TestMaster_node_ok]) (simp add: handle_ok_def)
  show "hb_ok master_hb"
    by (simp add: hb_ok_def master_hb_def TestMaster_Data_def TestMaster_config_def TestMaster_image_def
        CANOPEN_NODE_DATA_INITIALIZER_def image_eval)
qed

lemma master_hb_reads:
  "consumer_count master_hb = 1" "consumer_node master_hb 0 = 2" "GET_NODE_ID heartbeat_frame = 2"
  "0 \<le> ConsumerHeartBeatTimers master_hb ! 0" "consumer_entry master_hb 0 = 0x205DC"
  by (simp_all add: consumer_count_def consumer_node_def consumer_entry_def master_hb_def TestMaster_Data_def
      TestMaster_config_def TestMaster_image_def CANOPEN_NODE_DATA_INITIALIZER_def image_eval rd32_def
      GET_NODE_ID_def heartbeat_frame_def)

theorem heartbeat_rearms_consumer_witness:
  "NMTable (proceedNODE_GUARD heartbeat_frame master_hb) = (NMTable master_hb)[2 := 5]
   \<and> fault (proceedNODE_GUARD heartbeat_frame master_hb) = fault master_hb"
proof -
  have v: "mdata heartbeat_frame ! 0 AND 0x7F = 5" by (simp add: heartbeat_frame_def)
  have "rtr heartbeat_frame \<noteq> 1" "mdata heartbeat_frame ! 0 AND 0x7F \<noteq> Unknown_state"
    by (simp_all add: heartbeat_frame_def)
  from heartbeat_rearms_consumer [OF master_hb_ok this, of 0] show ?thesis
    by (simp add: master_hb_reads v)
qed

theorem consumer_alarm_disconnects_witness:
  "NMTable (ConsumerHeartbeatAlarm 0 master_hb) = (NMTable master_hb)[2 := Disconnected]
   \<and> fault (ConsumerHeartbeatAlarm 0 master_hb) = fault master_hb"
  using consumer_alarm_disconnects [OF master_hb_ok, of 0] by (simp add: master_hb_reads)

theorem silent_node_reported_once_in_256_witness:
  "guard_errors 50 ((guard_one 50 ^^ 256) TestMaster_Data) = guard_errors 50 TestMaster_Data + 1"
proof -
  have "guarded 50 TestMaster_Data" "nodeGuardStatus TestMaster_Data ! 50 = 0"
    by (simp_all add: guarded_def TestMaster_node_ok)
      (simp_all add: TestMaster_Data_def CANOPEN_NODE_DATA_INITIALIZER_def NMT_REPEATS_def nth_append TestMaster_config_def TestMaster_image_def image_eval)
  from silent_node_reported_once_in_256 [OF this] show ?thesis by simp
qed

section \<open>SYNC\<close>

theorem startSYNC_follows_dictionary_witness:
  "syncTimer (startSYNC TestSlave_Data) = TIMER_NONE"
proof -
  have "rd32 (mem TestSlave_Data) (Sync_Cycle_Period (cfg TestSlave_Data)) = 0"
    by (simp add: TestSlave_Data_def TestSlave_config_def TestSlave_image_def image_eval rd32_def)
  with startSYNC_follows_dictionary [OF TestSlave_node_ok] show ?thesis by simp
qed

section \<open>Process data\<close>

text \<open>
  The slave with the first transmit PDO configured as a host would do it: identifier 300h, cyclic
  type 3, one mapped object, the 16-bit 20F0h:2. Its value is 1234h.
\<close>

definition slave_pdo :: CO_Data where
  "slave_pdo = TestSlave_Data\<lparr>mem := mem_of (concat [place 160 [3], place 232 [1], place 156 (bytes32 0x300), place 236 (bytes32 0x20F00210),
     place 312 (bytes16 0x1234), TestSlave_image])\<rparr>"

lemma slave_pdo_ok: "node_ok slave_pdo"
  by (simp add: slave_pdo_def TestSlave_node_ok)

lemma slave_pdo_mem: "mem slave_pdo = mem_of (concat [place 160 [3], place 232 [1], place 156 (bytes32 0x300), place 236 (bytes32 0x20F00210),
    place 312 (bytes16 0x1234), TestSlave_image])"
  by (simp add: slave_pdo_def)

lemma slave_pdo_config: "cfg slave_pdo = TestSlave_config" "PDO_status slave_pdo = replicate 5 s_PDO_status_Initializer"
  by (simp_all add: slave_pdo_def TestSlave_Data_def TestSlave_PDO_status_def)

lemma slave_pdo_tables: "tpdo_com slave_pdo 0 = 12" "tpdo_map slave_pdo 0 = 17"
  by (simp_all add: tpdo_com_def tpdo_map_def slave_pdo_config TestSlave_firstIndex_def)

lemma slave_pdo_rows:
  "od_entry slave_pdo 17 = od_row TestSlave_Index1A00 0x1A00" "od_entry slave_pdo 12 = od_row TestSlave_Index1800 0x1800"
  by (simp_all add: od_entry_def slave_pdo_config TestSlave_objdict_def)

lemma slave_pdo_subs:
  "pObject (od_sub slave_pdo 12 (Suc 0)) = 156" "pObject (od_sub slave_pdo 12 2) = 160" "pObject (od_sub slave_pdo 17 0) = 232"
  "pObject (od_sub slave_pdo 17 (Suc 0)) = 236"
  by (simp_all add: od_sub_def slave_pdo_rows od_row_def TestSlave_Index1800_def TestSlave_Index1A00_def sub_def)

lemma slave_pdo_params:
  "od_u32 slave_pdo 12 (Suc 0) = 0x300" "od_u8 slave_pdo 12 2 = 3" "od_u8 slave_pdo 17 0 = 1"
  "od_u32 slave_pdo 17 (Suc 0) = 0x20F00210"
proof -
  show "od_u8 slave_pdo 12 2 = 3" "od_u8 slave_pdo 17 0 = 1"
    by (simp_all add: od_u8_def slave_pdo_subs) (simp_all add: slave_pdo_mem TestSlave_image_def image_eval)
  show "od_u32 slave_pdo 12 (Suc 0) = 0x300"
    by (simp add: od_u32_def slave_pdo_subs rd32_def) (simp add: slave_pdo_mem image_eval)
  show "od_u32 slave_pdo 17 (Suc 0) = 0x20F00210"
    by (simp add: od_u32_def slave_pdo_subs rd32_def) (simp add: slave_pdo_mem image_eval)
qed

lemma slave_pdo_mapping: "tpdo_mapping slave_pdo 0 = [0x20F00210]"
  by (simp add: tpdo_mapping_def tpdo_params_def slave_pdo_tables slave_pdo_params)

lemma slave_pdo_layout: "pdo_layout (tpdo_mapping slave_pdo 0) 0 = [(0, 0x20F00210)]" "layout_end (tpdo_mapping slave_pdo 0) 0 = 16"
  by (simp_all add: slave_pdo_mapping map_size_def)

lemma slave_pdo_object: "od_obj slave_pdo (0x20F0, 2) = Some (sub RW 0x06 2 312)"
  by (simp add: slave_pdo_def slave_eval)

lemma slave_pdo_mappable: "mappable slave_pdo 0x20F00210"
  by (simp add: mappable_def map_index_def map_sub_def map_size_def ByteSize_def slave_pdo_object sub_def)

lemma slave_tpdo_ok: "tpdo_ok slave_pdo 0"
  by (simp add: tpdo_ok_def slave_pdo_layout slave_pdo_mappable)
    (simp add: slave_pdo_tables slave_pdo_params slave_pdo_rows od_row_def TestSlave_Index1A00_def)

theorem buildPDO_carries_objects_witness:
  "\<exists>pdo'. buildPDO 0 Message_Initializer slave_pdo = (0, pdo', slave_pdo) \<and> cob_id pdo' = 0x300 \<and> unat (mlen pdo') = 2"
  using buildPDO_carries_objects [OF slave_tpdo_ok] by (auto simp: slave_pdo_tables slave_pdo_params slave_pdo_layout)

theorem sendOnePDOevent_on_change_witness:
  "sendOnePDOevent 0 slave_pdo = (0, slave_pdo)"
proof -
  obtain res d' where r: "sendOnePDOevent 0 slave_pdo = (res, d')" by fastforce
  have "unat (0 :: UNS8) < length (PDO_status slave_pdo)" by (simp add: slave_pdo_config)
  moreover have "\<not> csPDO (CurrentCommunicationState slave_pdo)"
    by (simp add: slave_pdo_def TestSlave_Data_def CANOPEN_NODE_DATA_INITIALIZER_def)
  ultimately show ?thesis using sendOnePDOevent_on_change [OF slave_pdo_ok slave_tpdo_ok _ r] r by simp
qed

theorem cyclic_tpdo_every_nth_sync_witness:
  "length (sent ((scan_tpdo True 0 ^^ 7) slave_pdo)) = length (sent slave_pdo) + 2"
proof -
  have "cyclic_tpdo slave_pdo 0 3"
    by (simp add: cyclic_tpdo_def slave_tpdo_ok slave_pdo_config slave_pdo_tables slave_pdo_params)
  moreover have "sync_count slave_pdo 0 = 0"
    by (simp add: sync_count_def slave_pdo_config s_PDO_status_Initializer_def)
  ultimately show ?thesis using cyclic_tpdo_every_nth_sync [of slave_pdo 0 3 7] by simp
qed

text \<open>The master receives a frame with the same identifier in its second receive PDO, which maps 200Ah.\<close>

definition pdo_frame_in :: Message where
  "pdo_frame_in = \<lparr>cob_id = 0x300, rtr = 0, mlen = 2, mdata = [0x34, 0x12, 0, 0, 0, 0, 0, 0]\<rparr>"

lemma master_mem: "mem TestMaster_Data = mem_of TestMaster_image"
  by (simp add: TestMaster_Data_def)

lemma master_rows:
  "od_entry TestMaster_Data 10 = od_row TestMaster_Index1400 0x1400" "od_entry TestMaster_Data 11 = od_row TestMaster_Index1401 0x1401"
  "od_entry TestMaster_Data 15 = od_row TestMaster_Index1601 0x1601"
  by (simp_all add: od_entry_def TestMaster_Data_def TestMaster_objdict_def)

lemma master_subs:
  "pObject (od_sub TestMaster_Data 10 (Suc 0)) = 120" "pObject (od_sub TestMaster_Data 11 (Suc 0)) = 136"
  "pObject (od_sub TestMaster_Data 15 0) = 224" "pObject (od_sub TestMaster_Data 15 (Suc 0)) = 228"
  "ssize (od_sub TestMaster_Data 15 0) = 1" "ssize (od_sub TestMaster_Data 15 (Suc 0)) = 4" 
  by (simp_all add: od_sub_def master_rows od_row_def TestMaster_Index1400_def TestMaster_Index1401_def TestMaster_Index1601_def sub_def)

lemma master_rpdo_params:
  "od_u16 TestMaster_Data 10 (Suc 0) = 0x200" "od_u16 TestMaster_Data 11 (Suc 0) = 0x300"
  "od_u8 TestMaster_Data 15 0 = 1" "od_u32 TestMaster_Data 15 (Suc 0) = 0x200A0010"
  by (simp_all add: od_u8_def od_u16_def od_u32_def master_subs rd32_def rd16_def)
    (simp_all add: master_mem TestMaster_image_def image_eval le16_def)

lemma master_rpdo_map: "rpdo_map TestMaster_Data (Suc 0) = 15" "n_rpdo (cfg TestMaster_Data) = 4"
  "PDO_RCV (firstIndex (cfg TestMaster_Data)) = 10"
  by (simp_all add: rpdo_map_def n_rpdo_def TestMaster_Data_def TestMaster_firstIndex_def TestMaster_lastIndex_def)

lemma master_rpdo_mapping: "rpdo_mapping TestMaster_Data (Suc 0) = [0x200A0010]"
  by (simp add: rpdo_mapping_def tpdo_params_def map_count_def master_rpdo_map master_rpdo_params)

lemma master_rpdo_layout: "mlen m = 2 \<Longrightarrow> rpdo_layout TestMaster_Data (Suc 0) m = [(0, 0x200A0010)]"
  by (simp add: rpdo_layout_def master_rpdo_mapping map_size_def)

lemma master_rpdo_map_ok: "rpdo_map_ok TestMaster_Data 15" "map_idx TestMaster_Data 15 = 0x1601"
proof -
  have scan: "scanIndexOD TestMaster_Data 0x1601 = Some (15, False)"
    by (simp add: scanIndexOD_def TestMaster_Data_def TestMaster_scanIndexOD_def)
  show idx: "map_idx TestMaster_Data 15 = 0x1601" by (simp add: map_idx_def master_rows od_row_def)
  show "rpdo_map_ok TestMaster_Data 15"
    by (simp add: rpdo_map_ok_def map_count_def master_rpdo_params master_subs idx scan)
      (simp add: master_rows od_row_def TestMaster_Index1601_def)
qed

lemma master_rx_target: "rx_target TestMaster_Data m 0 0x200A0010"
  by (simp add: rx_target_def map_key_def map_index_def map_sub_def map_size_def ByteSize_def od_hook_def master_eval)
    (simp add: TestMaster_config_def TestMaster_valueRangeTest_def)

lemma master_accepts:
  assumes "cob_id m = 0x300" "mlen m = 2"
  shows "rpdo_accepts TestMaster_Data (Suc 0) m"
proof -
  have "od_u16 TestMaster_Data (10 + j) (Suc 0) = 0x300 \<longleftrightarrow> j = Suc 0" if "j \<le> Suc 0" for j
    using that by (cases j) (auto simp: master_rpdo_params)
  then show ?thesis
    using assms by (simp add: rpdo_accepts_def master_rpdo_map master_rpdo_map_ok master_rpdo_layout master_rx_target)
      (simp add: map_index_def)
qed

lemma pdo_frame_in_fields:
  "rtr pdo_frame_in = NOT_A_REQUEST" "unat (mlen pdo_frame_in) \<le> 8" "8 \<le> length (mdata pdo_frame_in)"
  "cob_id pdo_frame_in = 0x300" "mlen pdo_frame_in = 2"
  by (simp_all add: pdo_frame_in_def)


lemma slave_pdo_value: "od_view slave_pdo (0x20F0, 2) = Some [0x34, 0x12]"
  by (simp add: od_view_def slave_pdo_object sub_def rd_bytes_def slave_pdo_mem image_eval)

theorem pdo_transports_values_witness:
  "\<exists>pdo d'. buildPDO 0 Message_Initializer slave_pdo = (0, pdo, slave_pdo) \<and> proceedPDO pdo TestMaster_Data = (0, d')
     \<and> od_view d' (0x200A, 0) = Some [0x34, 0x12]"
proof -
  obtain pdo where b: "buildPDO 0 Message_Initializer slave_pdo = (0, pdo, slave_pdo)" and c: "cob_id pdo = 0x300" "unat (mlen pdo) = 2"
    "length (mdata pdo) = 8"
    using buildPDO_spec [OF slave_tpdo_ok length_Message_Initializer]
    by (auto simp: slave_pdo_tables slave_pdo_params slave_pdo_layout)
  have len: "mlen pdo = 2" using c(2) by (simp add: word_unat_eq_iff)
  have whole: "\<forall>(o1, q) \<in> set (pdo_layout (tpdo_mapping slave_pdo 0) 0). 8 dvd unat (map_size q)
        \<and> (\<exists>v. od_view slave_pdo (map_key q) = Some v \<and> 8 * length v = unat (map_size q))"
    by (simp add: slave_pdo_layout slave_pdo_value map_key_def map_index_def map_sub_def map_size_def)
  have sizes: "map map_size (rpdo_mapping TestMaster_Data (Suc 0)) = map map_size (tpdo_mapping slave_pdo 0)"
    by (simp add: master_rpdo_mapping slave_pdo_mapping map_size_def)
  from pdo_transports_values [OF TestMaster_od_ok TestMaster_disjoint slave_tpdo_ok b refl refl refl c(3) refl
      master_accepts [OF c(1) len] sizes whole] b
  show ?thesis
    by (simp add: slave_pdo_layout slave_pdo_value master_rpdo_layout len map_key_def map_index_def map_sub_def)
qed

end
