(* ===== verification/SdoLine.thy ===== *)
theory SdoLine
  imports OdWrite
begin

text \<open>
  The lines of the SDO protocol, the first half of \<^verbatim>\<open>CanFestival/src/sdo.c\<close>: the macros that take an SDO byte
  apart, the watchdog of a line, the copies between a line and the dictionary or a frame,
  opening, finding and releasing lines, and sending frames and aborts. The build
  defines neither \<open>SDO_DYNAMIC_BUFFER_ALLOCATION\<close> nor \<open>CANOPEN_BIG_ENDIAN\<close>. A line number that the source
  hands out through \<open>*line\<close> is an option here, \<open>None\<close> where the source returns 0xFF.
  Shown here: a line keeps its buffer bounds under every operation, and the copies through a line
  lose and invent no byte.
\<close>

section \<open>Operations\<close>

definition getSDOcs :: "UNS8 \<Rightarrow> UNS8" where "getSDOcs b = drop_bit 5 b"
definition getSDOn2 :: "UNS8 \<Rightarrow> UNS8" where "getSDOn2 b = drop_bit 2 b AND 3"
definition getSDOn3 :: "UNS8 \<Rightarrow> UNS8" where "getSDOn3 b = drop_bit 1 b AND 7"
definition getSDOe :: "UNS8 \<Rightarrow> UNS8" where "getSDOe b = drop_bit 1 b AND 1"
definition getSDOs :: "UNS8 \<Rightarrow> UNS8" where "getSDOs b = b AND 1"
definition getSDOc :: "UNS8 \<Rightarrow> UNS8" where "getSDOc b = b AND 1"
definition getSDOt :: "UNS8 \<Rightarrow> UNS8" where "getSDOt b = drop_bit 4 b AND 1"
definition getSDOindex :: "UNS8 \<Rightarrow> UNS8 \<Rightarrow> UNS16" where "getSDOindex b1 b2 = push_bit 8 (ucast b2) OR ucast b1"
definition getSDOblockSC :: "UNS8 \<Rightarrow> UNS8" where "getSDOblockSC b = b AND 3"

text \<open>The four bytes that a frame carries for a 32-bit value, and the index bytes.\<close>

definition u32_of :: "UNS8 list \<Rightarrow> UNS32" where
  "u32_of bs = le32 (bs ! 0) (bs ! 1) (bs ! 2) (bs ! 3)"

definition index_bytes :: "UNS16 \<Rightarrow> UNS8 list" where
  "index_bytes i = [ucast (i AND 0xFF), ucast (drop_bit 8 i AND 0xFF)]"

definition tr :: "CO_Data \<Rightarrow> nat \<Rightarrow> s_transfer" where
  "tr d line = transfers d ! line"

definition upd_line :: "nat \<Rightarrow> (s_transfer \<Rightarrow> s_transfer) \<Rightarrow> CO_Data \<Rightarrow> CO_Data" where
  "upd_line line f d =
     chk (line < length (transfers d)) (d\<lparr>transfers := (transfers d)[line := f (transfers d ! line)]\<rparr>)"

definition StopSDO_TIMER :: "nat \<Rightarrow> CO_Data \<Rightarrow> CO_Data" where
  "StopSDO_TIMER line d =
     (let (h, d1) = DelAlarm (timer (tr d line)) d in upd_line line (\<lambda>t. t\<lparr>timer := h\<rparr>) d1)"

definition StartSDO_TIMER :: "nat \<Rightarrow> CO_Data \<Rightarrow> CO_Data" where
  "StartSDO_TIMER line d =
     (let (h, d1) = SetAlarm (of_nat line) (Some SDOTimeoutAlarm_cb) (MS_TO_TIMEVAL SDO_TIMEOUT_MS) 0 d
      in upd_line line (\<lambda>t. t\<lparr>timer := h\<rparr>) d1)"

definition RestartSDO_TIMER :: "nat \<Rightarrow> CO_Data \<Rightarrow> CO_Data" where
  "RestartSDO_TIMER line d =
     (if timer (tr d line) \<noteq> TIMER_NONE then StartSDO_TIMER line (StopSDO_TIMER line d) else d)"

definition initSDOline :: "nat \<Rightarrow> UNS8 \<Rightarrow> UNS16 \<Rightarrow> UNS8 \<Rightarrow> UNS8 \<Rightarrow> CO_Data \<Rightarrow> CO_Data" where
  "initSDOline line CliServNbr' index' subIndex' state' d =
     (let d1 = (if state' \<in> {SDO_DOWNLOAD_IN_PROGRESS, SDO_UPLOAD_IN_PROGRESS,
                     SDO_BLOCK_DOWNLOAD_IN_PROGRESS, SDO_BLOCK_UPLOAD_IN_PROGRESS}
                then StartSDO_TIMER line d else StopSDO_TIMER line d)
      in upd_line line (\<lambda>t. t\<lparr> CliServNbr := CliServNbr', index := index', subIndex := subIndex', state := state',
           ttoggle := 0, count := 0, offset := 0, peerCRCsupport := 0, blksize := 0, ackseq := 0,
           objsize := 0, lastblockoffset := 0, seqno := 0, endfield := 0, rxstep := RXSTEP_INIT,
           dataType := 0, Callback := None \<rparr>) d1)"

definition resetSDOline :: "nat \<Rightarrow> CO_Data \<Rightarrow> CO_Data" where
  "resetSDOline line d =
     upd_line line (\<lambda>t. t\<lparr>data := replicate SDO_MAX_LENGTH_TRANSFER 0, whoami := 0, abortCode := 0\<rparr>)
       (initSDOline line 0 0 0 SDO_RESET d)"

definition resetSDO :: "CO_Data \<Rightarrow> CO_Data" where
  "resetSDO d = fold resetSDOline [0..<SDO_MAX_SIMULTANEOUS_TRANSFERS] d"

definition SDOlineToObjdict :: "nat \<Rightarrow> CO_Data \<Rightarrow> UNS32 \<times> CO_Data" where
  "SDOlineToObjdict line d =
     (let d1 = (if count (tr d line) = 0 then upd_line line (\<lambda>t. t\<lparr>count := offset t\<rparr>) d else d);
          t = tr d1 line;
          (errorCode, n, d2) = setODentry (index t) (subIndex t) (data t) (count t) True d1
      in (errorCode, d2))"

definition objdictToSDOline :: "nat \<Rightarrow> CO_Data \<Rightarrow> UNS32 \<times> CO_Data" where
  "objdictToSDOline line d =
     (let t = tr d line;
          (r, d1) = getODentry (index t) (subIndex t) (Some (data t)) (of_nat SDO_MAX_LENGTH_TRANSFER) 0 True d;
          d2 = upd_line line (\<lambda>t. t\<lparr>data := rdest r\<rparr>) d1
      in if rcode r \<noteq> OD_SUCCESSFUL then (rcode r, d2)
         else (0, upd_line line (\<lambda>t. t\<lparr>count := rsize r, offset := 0\<rparr>) d2))"

text \<open>The result of \<open>lineToSDO\<close> is the code, the bytes copied to \<open>*data\<close> and the node.\<close>

definition lineToSDO :: "nat \<Rightarrow> UNS32 \<Rightarrow> CO_Data \<Rightarrow> UNS8 \<times> UNS8 list \<times> CO_Data" where
  "lineToSDO line nbBytes d =
     (let t = tr d line
      in if offset t + nbBytes > of_nat SDO_MAX_LENGTH_TRANSFER then (0xFF, [], d)
         else if offset t + nbBytes > count t then (0xFF, [], d)
         else (0, take (unat nbBytes) (drop (unat (offset t)) (data t)),
               upd_line line (\<lambda>t. t\<lparr>offset := offset t + nbBytes\<rparr>)
                 (chk (unat (offset t) + unat nbBytes \<le> length (data t)) d)))"

definition SDOtoLine :: "nat \<Rightarrow> UNS32 \<Rightarrow> UNS8 list \<Rightarrow> CO_Data \<Rightarrow> UNS8 \<times> CO_Data" where
  "SDOtoLine line nbBytes bytes d =
     (let t = tr d line
      in if offset t + nbBytes > of_nat SDO_MAX_LENGTH_TRANSFER then (0xFF, d)
         else (0, upd_line line (\<lambda>t. t\<lparr>data := put_list (data t) (unat (offset t)) (take (unat nbBytes) bytes),
                                       offset := offset t + nbBytes\<rparr>)
                    (chk (unat (offset t) + unat nbBytes \<le> length (data t)) d)))"

definition getSDOfreeLine :: "UNS8 \<Rightarrow> CO_Data \<Rightarrow> nat option \<times> CO_Data" where
  "getSDOfreeLine whoami' d =
     (let i = find_pos (\<lambda>t. state t = SDO_RESET) (transfers d)
      in if i = length (transfers d) then (None, d)
         else (Some i, upd_line i (\<lambda>t. t\<lparr>whoami := whoami'\<rparr>) d))"

definition getSDOlineOnUse :: "UNS8 \<Rightarrow> UNS8 \<Rightarrow> CO_Data \<Rightarrow> nat option" where
  "getSDOlineOnUse CliServNbr' whoami' d =
     (let i = find_pos (\<lambda>t. state t \<noteq> SDO_RESET \<and> state t \<noteq> SDO_ABORTED_INTERNAL
                \<and> CliServNbr t = CliServNbr' \<and> whoami t = whoami') (transfers d)
      in if i = length (transfers d) then None else Some i)"

definition getSDOlineToClose :: "UNS8 \<Rightarrow> UNS8 \<Rightarrow> CO_Data \<Rightarrow> nat option" where
  "getSDOlineToClose CliServNbr' whoami' d =
     (let i = find_pos (\<lambda>t. state t \<noteq> SDO_RESET \<and> CliServNbr t = CliServNbr' \<and> whoami t = whoami') (transfers d)
      in if i = length (transfers d) then None else Some i)"

definition getSDOlineRestBytes :: "nat \<Rightarrow> CO_Data \<Rightarrow> UNS32" where
  "getSDOlineRestBytes line d = (let t = tr d line in if count t = 0 then 0 else count t - offset t)"

definition setSDOlineRestBytes :: "nat \<Rightarrow> UNS32 \<Rightarrow> CO_Data \<Rightarrow> UNS8 \<times> CO_Data" where
  "setSDOlineRestBytes line nbBytes d =
     (if nbBytes > of_nat SDO_MAX_LENGTH_TRANSFER then (0xFF, d)
      else (0, upd_line line (\<lambda>t. t\<lparr>count := nbBytes\<rparr>) d))"

definition sendSDO :: "UNS8 \<Rightarrow> UNS8 \<Rightarrow> UNS8 list \<Rightarrow> CO_Data \<Rightarrow> UNS8 \<times> CO_Data" where
  "sendSDO whoami' CliServNbr' pData d =
     (if \<not> (nodeState d = Operational \<or> nodeState d = Pre_operational) then (0xFF, d)
      else let c = cfg d;
               (first, lastI, sub) = (if whoami' = SDO_SERVER then (SDO_SVR (firstIndex c), SDO_SVR (lastIndex c), 2)
                                      else (SDO_CLT (firstIndex c), SDO_CLT (lastIndex c), 1));
               pos = unat first + unat CliServNbr'
           in if first = 0 \<or> pos > unat lastI then (0xFF, d)
              else canSend \<lparr>cob_id = ucast (od_u32 d pos sub), rtr = NOT_A_REQUEST, mlen = 8, mdata = pData\<rparr> d)"

definition sendSDOabort :: "UNS8 \<Rightarrow> UNS8 \<Rightarrow> UNS16 \<Rightarrow> UNS8 \<Rightarrow> UNS32 \<Rightarrow> CO_Data \<Rightarrow> UNS8 \<times> CO_Data" where
  "sendSDOabort whoami' CliServNbr' index' subIndex' abortCode' d =
     sendSDO whoami' CliServNbr' ([0x80] @ index_bytes index' @ [subIndex'] @ bytes32 abortCode') d"

definition failedSDO :: "UNS8 \<Rightarrow> UNS8 \<Rightarrow> UNS16 \<Rightarrow> UNS8 \<Rightarrow> UNS32 \<Rightarrow> CO_Data \<Rightarrow> UNS8 \<times> CO_Data" where
  "failedSDO CliServNbr' whoami' index' subIndex' abortCode' d =
     (let d1 = (case getSDOlineOnUse CliServNbr' whoami' d of
            None \<Rightarrow> d
          | Some line \<Rightarrow>
              if whoami' = SDO_SERVER then resetSDOline line d
              else if whoami' = SDO_CLIENT then
                upd_line line (\<lambda>t. t\<lparr>state := SDO_ABORTED_INTERNAL, abortCode := abortCode'\<rparr>) (StopSDO_TIMER line d)
              else d);
          (err, d2) = sendSDOabort whoami' CliServNbr' index' subIndex' abortCode' d1
      in (if err \<noteq> 0 then 0xFF else 0, d2))"

section \<open>What the line operations leave alone\<close>

definition sdo_frame :: "CO_Data \<Rightarrow> CO_Data \<Rightarrow> bool" where
  "sdo_frame d d' \<longleftrightarrow> cfg d' = cfg d \<and> mem d' = mem d \<and> callbacks d' = callbacks d \<and> PDO_status d' = PDO_status d
     \<and> RxPDO_EventTimers d' = RxPDO_EventTimers d \<and> nodeState d' = nodeState d
     \<and> CurrentCommunicationState d' = CurrentCommunicationState d
     \<and> ConsumerHeartBeatTimers d' = ConsumerHeartBeatTimers d \<and> ProducerHeartBeatTimer d' = ProducerHeartBeatTimer d
     \<and> NMTable d' = NMTable d \<and> GuardTimeTimer d' = GuardTimeTimer d \<and> nodeGuardStatus d' = nodeGuardStatus d
     \<and> syncTimer d' = syncTimer d \<and> error_data d' = error_data d \<and> error_state d' = error_state d
     \<and> length (transfers d') = length (transfers d)"

lemma sdo_frame_refl [simp]: "sdo_frame d d"
  by (simp add: sdo_frame_def)

lemma sdo_frame_trans: "sdo_frame d d' \<Longrightarrow> sdo_frame d' d'' \<Longrightarrow> sdo_frame d d''"
  by (simp add: sdo_frame_def)

lemma sdo_frame_upd_line [simp]: "sdo_frame d (upd_line line f d)"
  by (simp add: sdo_frame_def upd_line_def chk_def)

lemma sdo_frame_chk [simp]: "sdo_frame d (chk b d)"
  by (simp add: sdo_frame_def chk_def)

lemma sdo_frame_canSend [simp]: "sdo_frame d (snd (canSend m d))"
  by (simp add: sdo_frame_def canSend_def emit_def)

lemma sdo_frame_timer [simp]: "sdo_frame d (StopSDO_TIMER line d)" "sdo_frame d (StartSDO_TIMER line d)"
  by (simp_all add: sdo_frame_def StopSDO_TIMER_def StartSDO_TIMER_def upd_line_def chk_def split_beta Let_def)

lemma sdo_frame_line [simp]:
  "sdo_frame d (RestartSDO_TIMER line d)" "sdo_frame d (initSDOline line c i s st d)" "sdo_frame d (resetSDOline line d)"
proof -
  show "sdo_frame d (RestartSDO_TIMER line d)"
    by (auto simp: RestartSDO_TIMER_def intro: sdo_frame_trans [OF sdo_frame_timer(1) sdo_frame_timer(2)])
  show init: "sdo_frame d (initSDOline line c i s st d)" for c i s st
    unfolding initSDOline_def Let_def
    by (auto intro: sdo_frame_trans [OF sdo_frame_timer(1) sdo_frame_upd_line]
        sdo_frame_trans [OF sdo_frame_timer(2) sdo_frame_upd_line])
  show "sdo_frame d (resetSDOline line d)"
    unfolding resetSDOline_def by (rule sdo_frame_trans [OF init sdo_frame_upd_line])
qed

lemma sdo_frame_resetSDO [simp]: "sdo_frame d (resetSDO d)"
  by (simp add: resetSDO_def)

lemma sdo_frame_send [simp]:
  "sdo_frame d (snd (sendSDO w c bs d))" "sdo_frame d (snd (sendSDOabort w c i s a d))"
  "sdo_frame d (snd (failedSDO c w i s a d))"
proof -
  show send: "sdo_frame d (snd (sendSDO w c bs d))" for w c bs d
    by (simp add: sendSDO_def Let_def)
  show ab: "sdo_frame d (snd (sendSDOabort w c i s a d))" for w c i s a d
    by (simp add: sendSDOabort_def send)
  show "sdo_frame d (snd (failedSDO c w i s a d))"
    unfolding failedSDO_def Let_def split_beta
    by (auto intro!: sdo_frame_trans [OF _ ab] intro: sdo_frame_trans [OF sdo_frame_timer(1) sdo_frame_upd_line] split: option.split)
qed

lemma sdo_frame_copies [simp]:
  "sdo_frame d (snd (snd (lineToSDO line n d)))" "sdo_frame d (snd (SDOtoLine line n bs d))"
  "sdo_frame d (snd (getSDOfreeLine w d))" "sdo_frame d (snd (setSDOlineRestBytes line n d))"
  by (auto simp: lineToSDO_def SDOtoLine_def getSDOfreeLine_def setSDOlineRestBytes_def Let_def
      intro: sdo_frame_trans [OF sdo_frame_chk sdo_frame_upd_line])

section \<open>The node invariant\<close>

lemma upd_line_keeps:
  assumes "list_all P (transfers d)" "\<And>t. P t \<Longrightarrow> P (f t)"
  shows "list_all P (transfers (upd_line line f d))"
  using assms by (cases "line < length (transfers d)") (auto simp: upd_line_def chk_def list_all_length nth_list_update)

lemma node_ok_transfers: "node_ok d \<Longrightarrow> list_all transfer_ok (transfers d)"
  unfolding node_ok_def arrays_ok_def by blast

lemma upd_line_out: "\<not> line < length (transfers d) \<Longrightarrow> upd_line line f d = d\<lparr>fault := True\<rparr>"
  by (simp add: upd_line_def chk_def list_update_beyond not_less)

lemma upd_line_node_ok [inv_intros]:
  assumes ok: "node_ok d" and f: "\<And>t. transfer_ok t \<Longrightarrow> transfer_ok (f t)"
  shows "node_ok (upd_line line f d)"
proof (cases "line < length (transfers d)")
  case True
  then have "transfer_ok (f (transfers d ! line))" using node_ok_transfers [OF ok] f by (simp add: list_all_length)
  from node_ok_transfer_upd [OF ok this] show ?thesis by (simp add: upd_line_def)
next
  case False
  show ?thesis unfolding upd_line_out [OF False] using ok by simp
qed

lemma transfer_ok_upd [simp]:
  "transfer_ok (t\<lparr>CliServNbr := a\<rparr>) = transfer_ok t" "transfer_ok (t\<lparr>whoami := a\<rparr>) = transfer_ok t"
  "transfer_ok (t\<lparr>state := a\<rparr>) = transfer_ok t" "transfer_ok (t\<lparr>ttoggle := a\<rparr>) = transfer_ok t"
  "transfer_ok (t\<lparr>abortCode := c\<rparr>) = transfer_ok t" "transfer_ok (t\<lparr>index := b\<rparr>) = transfer_ok t"
  "transfer_ok (t\<lparr>subIndex := a\<rparr>) = transfer_ok t" "transfer_ok (t\<lparr>count := c\<rparr>) = transfer_ok t"
  "transfer_ok (t\<lparr>offset := c\<rparr>) = transfer_ok t" "transfer_ok (t\<lparr>peerCRCsupport := a\<rparr>) = transfer_ok t"
  "transfer_ok (t\<lparr>blksize := a\<rparr>) = transfer_ok t" "transfer_ok (t\<lparr>ackseq := a\<rparr>) = transfer_ok t"
  "transfer_ok (t\<lparr>objsize := c\<rparr>) = transfer_ok t" "transfer_ok (t\<lparr>lastblockoffset := a\<rparr>) = transfer_ok t"
  "transfer_ok (t\<lparr>seqno := a\<rparr>) = transfer_ok t" "transfer_ok (t\<lparr>endfield := a\<rparr>) = transfer_ok t"
  "transfer_ok (t\<lparr>rxstep := r\<rparr>) = transfer_ok t" "transfer_ok (t\<lparr>dataType := a\<rparr>) = transfer_ok t"
  "transfer_ok (t\<lparr>Callback := cb\<rparr>) = transfer_ok t"
  by (simp_all add: transfer_ok_def)

lemma sdo_timer_node_ok [simp, inv_intros]:
  "node_ok d \<Longrightarrow> node_ok (StopSDO_TIMER line d)" "node_ok d \<Longrightarrow> node_ok (StartSDO_TIMER line d)"
  "node_ok d \<Longrightarrow> node_ok (RestartSDO_TIMER line d)"
proof -
  show stop: "node_ok (StopSDO_TIMER line d)" if "node_ok d" for d
    using that by (auto simp: StopSDO_TIMER_def split_beta Let_def transfer_ok_def intro!: upd_line_node_ok)
  show start: "node_ok (StartSDO_TIMER line d)" if "node_ok d" for d
    using that by (auto simp: StartSDO_TIMER_def split_beta Let_def transfer_ok_def intro!: upd_line_node_ok)
  show "node_ok (RestartSDO_TIMER line d)" if "node_ok d"
    using that stop start by (simp add: RestartSDO_TIMER_def)
qed

lemma sdo_line_node_ok [simp, inv_intros]:
  "node_ok d \<Longrightarrow> node_ok (initSDOline line c i s st d)" "node_ok d \<Longrightarrow> node_ok (resetSDOline line d)"
  "node_ok d \<Longrightarrow> node_ok (resetSDO d)"
proof -
  show init: "node_ok (initSDOline line c i s st d)" if "node_ok d" for d c i s st
    using that by (auto simp: initSDOline_def Let_def intro!: upd_line_node_ok)
  show reset: "node_ok (resetSDOline line d)" if "node_ok d" for d line
    using that init unfolding resetSDOline_def
    by (auto simp: initSDOline_def Let_def transfer_ok_def intro!: upd_line_node_ok)
  show "node_ok (resetSDO d)" if "node_ok d" using that reset by (simp add: resetSDO_def)
qed

lemma sdo_send_node_ok [simp, inv_intros]:
  "node_ok d \<Longrightarrow> node_ok (snd (sendSDO w c bs d))" "node_ok d \<Longrightarrow> node_ok (snd (sendSDOabort w c i s a d))"
  "node_ok d \<Longrightarrow> node_ok (snd (failedSDO c w i s a d))"
proof -
  show send: "node_ok (snd (sendSDO w c bs d))" if "node_ok d" for w c bs d
    using that by (simp add: sendSDO_def Let_def)
  show ab: "node_ok (snd (sendSDOabort w c i s a d))" if "node_ok d" for w c i s a d
    using that by (simp add: sendSDOabort_def send)
  show "node_ok (snd (failedSDO c w i s a d))" if "node_ok d"
    using that unfolding failedSDO_def Let_def split_beta
    by (auto intro!: ab upd_line_node_ok split: option.split)
qed

lemma sdo_copy_node_ok [simp, inv_intros]:
  assumes ok: "node_ok d"
  shows "node_ok (snd (snd (lineToSDO line n d)))" "node_ok (snd (SDOtoLine line n bs d))"
    "node_ok (snd (getSDOfreeLine w d))" "node_ok (snd (setSDOlineRestBytes line n d))"
    "node_ok (snd (SDOlineToObjdict line d))" "node_ok (snd (objdictToSDOline line d))"
proof -
  show "node_ok (snd (snd (lineToSDO line n d)))" "node_ok (snd (SDOtoLine line n bs d))"
    "node_ok (snd (getSDOfreeLine w d))" "node_ok (snd (setSDOlineRestBytes line n d))"
    using ok by (auto simp: lineToSDO_def SDOtoLine_def getSDOfreeLine_def setSDOlineRestBytes_def Let_def transfer_ok_def
        intro!: upd_line_node_ok)
  show "node_ok (snd (SDOlineToObjdict line d))"
    using ok by (auto simp: SDOlineToObjdict_def Let_def split_beta intro!: setODentry_node_ok upd_line_node_ok)
  show "node_ok (snd (objdictToSDOline line d))"
  proof (cases "line < length (transfers d)")
    case True
    let ?r = "getODentry (index (tr d line)) (subIndex (tr d line)) (Some (data (tr d line))) 32 0 True d"
    have len: "length (rdest (fst ?r)) = 32"
      using True node_ok_transfers [OF ok] getODentry_dest_length by (simp add: tr_def list_all_length transfer_ok_def)
    have "node_ok (snd ?r)" using ok by simp
    then show ?thesis
      using len unfolding objdictToSDOline_def Let_def split_beta
      by (auto intro!: upd_line_node_ok simp: transfer_ok_def)
  next
    case False
    let ?r = "getODentry (index (tr d line)) (subIndex (tr d line)) (Some (data (tr d line))) 32 0 True d"
    have "node_ok (snd ?r)" using ok by simp
    with False show ?thesis
      unfolding objdictToSDOline_def Let_def split_beta
      by (simp add: upd_line_out [of line "snd ?r"] upd_line_out [of line "(snd ?r)\<lparr>fault := True\<rparr>"])
  qed
qed

section \<open>Bounded lines\<close>

text \<open>A read returns at most what the caller announced.\<close>

lemma getODentry_rsize:
  assumes "rcode (fst (getODentry w s (Some buf) n ty ca d)) = OD_SUCCESSFUL"
  shows "rsize (fst (getODentry w s (Some buf) n ty ca d)) \<le> n"
proof -
  have "(of_nat (length (str_copy m a (unat (if n \<noteq> 0 then n else x)))) :: UNS32) \<le> n" if "x \<le> n" for m a x
  proof -
    have "unat (if n \<noteq> 0 then n else x) \<le> unat n" using that by (cases "n = 0") (simp_all add: word_le_nat_alt)
    then have "length (str_copy m a (unat (if n \<noteq> 0 then n else x))) \<le> unat n"
      using length_str_copy [of m a "unat (if n \<noteq> 0 then n else x)"] by linarith
    then show ?thesis using unsigned_less [of n, where ?'a = nat]
      by (simp add: word_le_nat_alt unsigned_of_nat take_bit_nat_eq_self)
  qed
  then show ?thesis using assms by (auto simp: getODentry_def Let_def not_less split: option.splits if_splits)
qed

text \<open>
  A free line and a line in use by the server never point past the 32-byte buffer. A client line may: the
  count of a download is what the caller asked for.
\<close>

definition line_bounded :: "s_transfer \<Rightarrow> bool" where
  "line_bounded t \<longleftrightarrow> (whoami t = SDO_SERVER \<or> state t = SDO_RESET \<longrightarrow>
     unat (offset t) \<le> SDO_MAX_LENGTH_TRANSFER \<and> unat (count t) \<le> SDO_MAX_LENGTH_TRANSFER)"

definition sdo_ok :: "CO_Data \<Rightarrow> bool" where
  "sdo_ok d \<longleftrightarrow> node_ok d \<and> list_all line_bounded (transfers d)"

lemma sdo_ok_node: "sdo_ok d \<Longrightarrow> node_ok d"
  by (simp add: sdo_ok_def)

lemma sdo_ok_line: "sdo_ok d \<Longrightarrow> line < length (transfers d) \<Longrightarrow> transfer_ok (tr d line) \<and> line_bounded (tr d line)"
  using node_ok_transfers by (auto simp: sdo_ok_def tr_def list_all_length)

lemma sdo_ok_same: "sdo_ok d \<Longrightarrow> node_ok d' \<Longrightarrow> transfers d' = transfers d \<Longrightarrow> sdo_ok d'"
  by (simp add: sdo_ok_def)

lemma sdo_ok_upd_line:
  assumes ok: "sdo_ok d"
    and f: "line < length (transfers d) \<Longrightarrow> transfer_ok (tr d line) \<Longrightarrow> line_bounded (tr d line)
      \<Longrightarrow> transfer_ok (f (tr d line)) \<and> line_bounded (f (tr d line))"
  shows "sdo_ok (upd_line line f d)"
proof (cases "line < length (transfers d)")
  case True
  note t = f [OF True conjunct1 [OF sdo_ok_line [OF ok True]] conjunct2 [OF sdo_ok_line [OF ok True]]]
  have "node_ok (upd_line line f d)"
    using node_ok_transfer_upd [OF sdo_ok_node [OF ok], of "f (tr d line)" line] t True by (simp add: upd_line_def tr_def)
  moreover have "list_all line_bounded (transfers (upd_line line f d))"
    using ok t True by (simp add: upd_line_def sdo_ok_def tr_def list_all_update)
  ultimately show ?thesis by (simp add: sdo_ok_def)
next
  case False
  show ?thesis unfolding upd_line_out [OF False] using ok by (simp add: sdo_ok_def)
qed

lemma sdo_ok_upd [simp]: "sdo_ok (d\<lparr>fault := b\<rparr>) = sdo_ok d" "sdo_ok (d\<lparr>trace := es\<rparr>) = sdo_ok d" "sdo_ok (chk b d) = sdo_ok d"
  "sdo_ok (d\<lparr>nodeState := s\<rparr>) = sdo_ok d" "sdo_ok (d\<lparr>CurrentCommunicationState := c\<rparr>) = sdo_ok d"
  "sdo_ok (d\<lparr>mem := m\<rparr>) = sdo_ok d" "sdo_ok (emit e d) = sdo_ok d"
  by (simp_all add: sdo_ok_def chk_def emit_def)

lemma sdo_ok_canSend [simp]: "sdo_ok (snd (canSend m d)) = sdo_ok d"
  by (simp add: canSend_def)

lemma sdo_ok_alarm [simp]:
  "sdo_ok d \<Longrightarrow> sdo_ok (snd (SetAlarm i cb v p d))" "sdo_ok d \<Longrightarrow> sdo_ok (snd (DelAlarm h d))"
  by (simp_all add: sdo_ok_def)

lemma sdo_ok_timer [simp]:
  assumes ok: "sdo_ok d"
  shows "sdo_ok (StopSDO_TIMER line d)" "sdo_ok (StartSDO_TIMER line d)" "sdo_ok (RestartSDO_TIMER line d)"
proof -
  have 1: "sdo_ok (StopSDO_TIMER line d)" "sdo_ok (StartSDO_TIMER line d)" if "sdo_ok d" for d
    using that by (auto simp: StopSDO_TIMER_def StartSDO_TIMER_def split_beta Let_def transfer_ok_def line_bounded_def
        intro!: sdo_ok_upd_line)
  then show "sdo_ok (StopSDO_TIMER line d)" "sdo_ok (StartSDO_TIMER line d)" using ok by blast+
  show "sdo_ok (RestartSDO_TIMER line d)" using ok 1 by (simp add: RestartSDO_TIMER_def)
qed

lemma sdo_ok_init [simp]:
  assumes ok: "sdo_ok d"
  shows "sdo_ok (initSDOline line c i s st d)" "sdo_ok (resetSDOline line d)" "sdo_ok (resetSDO d)"
proof -
  have 1: "sdo_ok (initSDOline line c i s st d)" if "sdo_ok d" for d line c i s st
    using that by (auto simp: initSDOline_def Let_def line_bounded_def intro!: sdo_ok_upd_line)
  have 2: "sdo_ok (resetSDOline line d)" if "sdo_ok d" for d line
  proof -
    let ?e = "initSDOline line 0 0 0 SDO_RESET d"
    have e: "sdo_ok ?e" using that 1 by blast
    show ?thesis unfolding resetSDOline_def
      by (rule sdo_ok_upd_line [OF e])
        (auto simp: transfer_ok_def line_bounded_def initSDOline_def Let_def tr_def upd_line_def)
  qed
  show "sdo_ok (initSDOline line c i s st d)" "sdo_ok (resetSDOline line d)" using ok 1 2 by blast+
  show "sdo_ok (resetSDO d)" unfolding resetSDO_def by (rule fold_keeps [where P = sdo_ok, OF ok]) (simp add: 2)
qed

lemma sdo_ok_send [simp]:
  assumes ok: "sdo_ok d"
  shows "sdo_ok (snd (sendSDO w c bs d))" "sdo_ok (snd (sendSDOabort w c i s a d))" "sdo_ok (snd (failedSDO c w i s a d))"
proof -
  have 1: "sdo_ok (snd (sendSDO w c bs d))" if "sdo_ok d" for w c bs d
    using that by (simp add: sendSDO_def Let_def)
  have 2: "sdo_ok (snd (sendSDOabort w c i s a d))" if "sdo_ok d" for w c i s a d
    using that by (simp add: sendSDOabort_def 1)
  show "sdo_ok (snd (sendSDO w c bs d))" "sdo_ok (snd (sendSDOabort w c i s a d))" using ok 1 2 by blast+
  show "sdo_ok (snd (failedSDO c w i s a d))"
    using ok unfolding failedSDO_def Let_def split_beta
    by (auto intro!: 2 sdo_ok_upd_line simp: line_bounded_def split: option.split)
qed

lemma chk_transfers [simp]: "transfers (chk b d) = transfers d" "tr (chk b d) line = tr d line"
  by (simp_all add: chk_def tr_def)

lemma sdo_ok_copies [simp]:
  assumes ok: "sdo_ok d"
  shows "sdo_ok (snd (snd (lineToSDO line n d)))" "sdo_ok (snd (SDOtoLine line n bs d))"
    "sdo_ok (snd (getSDOfreeLine w d))" "sdo_ok (snd (setSDOlineRestBytes line n d))"
proof -
  have le: "\<not> 32 < x \<Longrightarrow> unat x \<le> 32" for x :: UNS32 by (simp add: word_le_nat_alt not_less)
  show "sdo_ok (snd (snd (lineToSDO line n d)))" "sdo_ok (snd (SDOtoLine line n bs d))" "sdo_ok (snd (setSDOlineRestBytes line n d))"
    using ok le by (auto simp: lineToSDO_def SDOtoLine_def setSDOlineRestBytes_def Let_def transfer_ok_def line_bounded_def
        intro!: sdo_ok_upd_line)
  let ?i = "find_pos (\<lambda>t. state t = SDO_RESET) (transfers d)"
  show "sdo_ok (snd (getSDOfreeLine w d))"
  proof (cases "?i = length (transfers d)")
    case False
    then have "state (tr d ?i) = SDO_RESET" by (auto simp: tr_def find_pos_lt dest: find_pos_hit)
    then have "sdo_ok (upd_line ?i (\<lambda>t. t\<lparr>whoami := w\<rparr>) d)"
      by (intro sdo_ok_upd_line [OF ok]) (simp add: line_bounded_def)
    with False show ?thesis by (simp add: getSDOfreeLine_def Let_def)
  qed (simp add: getSDOfreeLine_def Let_def ok)
qed

lemma sdo_ok_objdict [simp]:
  assumes ok: "sdo_ok d"
  shows "sdo_ok (snd (SDOlineToObjdict line d))" "sdo_ok (snd (objdictToSDOline line d))"
proof -
  let ?d1 = "if count (tr d line) = 0 then upd_line line (\<lambda>t. t\<lparr>count := offset t\<rparr>) d else d"
  let ?r = "setODentry (index (tr ?d1 line)) (subIndex (tr ?d1 line)) (data (tr ?d1 line)) (count (tr ?d1 line)) True ?d1"
  have "sdo_ok (upd_line line (\<lambda>t. t\<lparr>count := offset t\<rparr>) d)"
    by (rule sdo_ok_upd_line [OF ok]) (simp add: line_bounded_def)
  then have d1: "sdo_ok ?d1" using ok by simp
  have "transfers (snd (snd ?r)) = transfers ?d1"
    using setODentry_frame unfolding service_frame_def by blast
  then have "sdo_ok (snd (snd ?r))"
    using sdo_ok_same [OF d1 setODentry_node_ok [OF sdo_ok_node [OF d1]]] by blast
  then show "sdo_ok (snd (SDOlineToObjdict line d))" by (simp add: SDOlineToObjdict_def Let_def split_beta)
  let ?g = "getODentry (index (tr d line)) (subIndex (tr d line)) (Some (data (tr d line))) 32 0 True d"
  have tr: "transfers (snd ?g) = transfers d" by simp
  have g: "sdo_ok (snd ?g)" by (rule sdo_ok_same [OF ok]) (use sdo_ok_node [OF ok] in simp_all)
  let ?d2 = "upd_line line (\<lambda>t. t\<lparr>data := rdest (fst ?g)\<rparr>) (snd ?g)"
  have d2: "sdo_ok ?d2"
    by (rule sdo_ok_upd_line [OF g]) (auto simp: transfer_ok_def line_bounded_def getODentry_dest_length tr_def)
  have "sdo_ok (upd_line line (\<lambda>t. t\<lparr>count := rsize (fst ?g), offset := 0\<rparr>) ?d2)" if "rcode (fst ?g) = OD_SUCCESSFUL"
    using getODentry_rsize [OF that] by (intro sdo_ok_upd_line [OF d2]) (auto simp: line_bounded_def word_le_nat_alt)
  then show "sdo_ok (snd (objdictToSDOline line d))"
    using d2 by (simp add: objdictToSDOline_def Let_def split_beta)
qed

section \<open>Reading a line back\<close>

lemma tr_upd_line: "line < length (transfers d) \<Longrightarrow> tr (upd_line line f d) k = (if k = line then f (tr d line) else tr d k)"
  by (auto simp: tr_def upd_line_def)

lemma length_upd_line [simp]: "length (transfers (upd_line line f d)) = length (transfers d)"
  by (simp add: upd_line_def)

lemma tr_alarm [simp]: "tr (snd (SetAlarm i cb v p d)) k = tr d k" "tr (snd (DelAlarm h d)) k = tr d k"
  by (simp_all add: tr_def)

lemma sdo_timer_lengths [simp]:
  "length (transfers (StopSDO_TIMER line d)) = length (transfers d)" "length (transfers (StartSDO_TIMER line d)) = length (transfers d)"
  "length (transfers (RestartSDO_TIMER line d)) = length (transfers d)" "length (transfers (initSDOline line c i s st d)) = length (transfers d)"
  "length (transfers (resetSDOline line d)) = length (transfers d)"
  using sdo_frame_timer [of d line] sdo_frame_line [of d line] by (simp_all add: sdo_frame_def)

text \<open>A watchdog operation changes the stored handle and nothing else of the lines.\<close>

lemma tr_sdo_timer:
  assumes "line < length (transfers d)"
  shows "\<exists>h. tr (StopSDO_TIMER line d) k = (if k = line then (tr d line)\<lparr>timer := h\<rparr> else tr d k)"
    "\<exists>h. tr (StartSDO_TIMER line d) k = (if k = line then (tr d line)\<lparr>timer := h\<rparr> else tr d k)"
    "\<exists>h. tr (RestartSDO_TIMER line d) k = (if k = line then (tr d line)\<lparr>timer := h\<rparr> else tr d k)"
proof -
  show stop: "\<exists>h. tr (StopSDO_TIMER line d) k = (if k = line then (tr d line)\<lparr>timer := h\<rparr> else tr d k)" for k
    using assms by (auto simp: StopSDO_TIMER_def split_beta Let_def tr_upd_line)
  show start: "\<exists>h. tr (StartSDO_TIMER line d) k = (if k = line then (tr d line)\<lparr>timer := h\<rparr> else tr d k)" for k
    using assms by (auto simp: StartSDO_TIMER_def split_beta Let_def tr_upd_line)
  let ?e = "StopSDO_TIMER line d"
  have "\<exists>h. tr (StartSDO_TIMER line ?e) k = (if k = line then (tr ?e line)\<lparr>timer := h\<rparr> else tr ?e k)"
    using assms by (auto simp: StartSDO_TIMER_def split_beta Let_def tr_upd_line)
  then obtain h where h: "tr (StartSDO_TIMER line ?e) k = (if k = line then (tr ?e line)\<lparr>timer := h\<rparr> else tr ?e k)" by blast
  show "\<exists>h. tr (RestartSDO_TIMER line d) k = (if k = line then (tr d line)\<lparr>timer := h\<rparr> else tr d k)"
  proof (cases "timer (tr d line) = TIMER_NONE")
    case True
    then have "RestartSDO_TIMER line d = d" by (simp add: RestartSDO_TIMER_def)
    then show ?thesis by (intro exI [of _ "timer (tr d line)"]) simp
  next
    case False
    then have "RestartSDO_TIMER line d = StartSDO_TIMER line ?e" by (simp add: RestartSDO_TIMER_def)
    with h stop [of k] stop [of line] show ?thesis by (cases "k = line") auto
  qed
qed

text \<open>What a freshly opened line looks like, and a released one.\<close>

definition opened_line :: "UNS8 \<Rightarrow> UNS16 \<Rightarrow> UNS8 \<Rightarrow> UNS8 \<Rightarrow> s_transfer \<Rightarrow> s_transfer" where
  "opened_line c i s st t = t\<lparr> CliServNbr := c, index := i, subIndex := s, state := st,
     ttoggle := 0, count := 0, offset := 0, peerCRCsupport := 0, blksize := 0, ackseq := 0,
     objsize := 0, lastblockoffset := 0, seqno := 0, endfield := 0, rxstep := RXSTEP_INIT,
     dataType := 0, Callback := None \<rparr>"

lemma tr_initSDOline:
  assumes "line < length (transfers d)"
  shows "\<exists>h. tr (initSDOline line c i s st d) k = (if k = line then opened_line c i s st ((tr d line)\<lparr>timer := h\<rparr>) else tr d k)"
proof -
  define e where "e = (if st \<in> {SDO_DOWNLOAD_IN_PROGRESS, SDO_UPLOAD_IN_PROGRESS,
      SDO_BLOCK_DOWNLOAD_IN_PROGRESS, SDO_BLOCK_UPLOAD_IN_PROGRESS} then StartSDO_TIMER line d else StopSDO_TIMER line d)"
  have e: "\<exists>h. tr e k = (if k = line then (tr d line)\<lparr>timer := h\<rparr> else tr d k)" for k
    using tr_sdo_timer(1,2) [OF assms, of k] by (simp add: e_def)
  have len: "line < length (transfers e)" using assms by (simp add: e_def)
  have "initSDOline line c i s st d = upd_line line (opened_line c i s st) e"
    unfolding initSDOline_def Let_def e_def opened_line_def by simp
  with e [of k] e [of line] show ?thesis by (auto simp: tr_upd_line [OF len])
qed

lemma tr_resetSDOline:
  assumes "line < length (transfers d)"
  shows "\<exists>h. tr (resetSDOline line d) k = (if k = line then (opened_line 0 0 0 SDO_RESET ((tr d line)\<lparr>timer := h\<rparr>))
      \<lparr>data := replicate SDO_MAX_LENGTH_TRANSFER 0, whoami := 0, abortCode := 0\<rparr> else tr d k)"
proof -
  have len: "line < length (transfers (initSDOline line 0 0 0 SDO_RESET d))" using assms by simp
  show ?thesis
    using tr_initSDOline [OF assms, of 0 0 0 SDO_RESET k] unfolding resetSDOline_def tr_upd_line [OF len]
    by (cases "k = line") auto
qed

lemma getSDOfreeLine_Some:
  assumes "getSDOfreeLine w d = (Some line, d0)"
  shows "line < length (transfers d)" "state (tr d line) = SDO_RESET" "d0 = upd_line line (\<lambda>t. t\<lparr>whoami := w\<rparr>) d"
proof -
  let ?i = "find_pos (\<lambda>t. state t = SDO_RESET) (transfers d)"
  have i: "?i \<noteq> length (transfers d)" "line = ?i" "d0 = upd_line ?i (\<lambda>t. t\<lparr>whoami := w\<rparr>) d"
    using assms by (auto simp: getSDOfreeLine_def Let_def split: if_splits)
  then show "line < length (transfers d)" "state (tr d line) = SDO_RESET" "d0 = upd_line line (\<lambda>t. t\<lparr>whoami := w\<rparr>) d"
    by (auto simp: find_pos_lt tr_def dest: find_pos_hit)
qed

lemma getSDOlineOnUse_Some:
  assumes "getSDOlineOnUse c w d = Some line"
  shows "line < length (transfers d)" "state (tr d line) \<noteq> SDO_RESET" "state (tr d line) \<noteq> SDO_ABORTED_INTERNAL"
    "CliServNbr (tr d line) = c" "whoami (tr d line) = w"
proof -
  let ?P = "\<lambda>t. state t \<noteq> SDO_RESET \<and> state t \<noteq> SDO_ABORTED_INTERNAL \<and> CliServNbr t = c \<and> whoami t = w"
  have i: "find_pos ?P (transfers d) < length (transfers d)" "line = find_pos ?P (transfers d)"
    using assms by (auto simp: getSDOlineOnUse_def Let_def find_pos_lt split: if_splits)
  then show "line < length (transfers d)" "state (tr d line) \<noteq> SDO_RESET" "state (tr d line) \<noteq> SDO_ABORTED_INTERNAL"
    "CliServNbr (tr d line) = c" "whoami (tr d line) = w"
    using find_pos_hit [OF i(1)] by (simp_all add: tr_def)
qed

end
