(* ===== verification/SdoClient.thy ===== *)
theory SdoClient
  imports SdoLine
begin

text \<open>
  The client interface of \<^verbatim>\<open>CanFestival/src/sdo.c\<close>: finding the client entry of a server
  node, starting a download (\<open>_writeNetworkDict\<close>) or an upload (\<open>_readNetworkDict\<close>), the variants that take a free
  client entry over, fetching the result and closing a transfer. The buffer that the caller passes is a list of
  bytes. \<open>endianize\<close> has an effect only on big-endian targets.
  Shown here: every operation keeps the node invariant.
\<close>

section \<open>Operations\<close>

fun client_scan :: "UNS8 \<Rightarrow> nat list \<Rightarrow> UNS8 \<Rightarrow> CO_Data \<Rightarrow> UNS8" where
  "client_scan nodeId [] CliNbr d = 0xFE"
| "client_scan nodeId (off # offs) CliNbr d =
     (if bSubCount (od_entry d off) \<le> 3 then 0xFF
      else if od_u8 d off 3 = nodeId then CliNbr
      else client_scan nodeId offs (CliNbr + 1) d)"

definition client_entries :: "CO_Data \<Rightarrow> nat list" where
  "client_entries d = [unat (SDO_CLT (firstIndex (cfg d)))..<unat (SDO_CLT (lastIndex (cfg d))) + 1]"

definition GetSDOClientFromNodeId :: "UNS8 \<Rightarrow> CO_Data \<Rightarrow> UNS8" where
  "GetSDOClientFromNodeId nodeId d =
     (if SDO_CLT (firstIndex (cfg d)) = 0 then 0xFF else client_scan nodeId (client_entries d) 0 d)"

definition closeSDOtransfer :: "UNS8 \<Rightarrow> UNS8 \<Rightarrow> CO_Data \<Rightarrow> UNS8 \<times> CO_Data" where
  "closeSDOtransfer nodeId whoami' d =
     (let CliNbr = GetSDOClientFromNodeId nodeId d
      in if CliNbr \<ge> 0xFE then (SDO_ABORTED_INTERNAL, d)
         else case getSDOlineToClose CliNbr whoami' d of
             None \<Rightarrow> (0xFF, d)
           | Some line \<Rightarrow> (0, resetSDOline line d))"

text \<open>The first bytes of the request and what it carries: four bytes of data, or the size.\<close>

definition download_request :: "UNS16 \<Rightarrow> UNS8 \<Rightarrow> UNS32 \<Rightarrow> UNS8 list \<Rightarrow> bool \<Rightarrow> UNS8 list" where
  "download_request index' subIndex' count' bytes useBlockMode =
     (if useBlockMode then [0xC2] @ index_bytes index' @ [subIndex'] @ bytes32 count'
      else if count' \<le> 4 then [0x20 OR push_bit 2 (ucast (4 - count')) OR 3] @ index_bytes index' @ [subIndex'] @ take 4 bytes
      else [0x21] @ index_bytes index' @ [subIndex'] @ bytes32 count')"

definition open_download ::
    "nat \<Rightarrow> UNS8 \<Rightarrow> UNS16 \<Rightarrow> UNS8 \<Rightarrow> UNS32 \<Rightarrow> UNS8 \<Rightarrow> UNS8 list \<Rightarrow> sdo_cb option \<Rightarrow> bool \<Rightarrow> CO_Data \<Rightarrow> CO_Data" where
  "open_download line CliNbr index' subIndex' count' dataType' bytes cb useBlockMode d =
     (let d1 = (if useBlockMode
                then upd_line line (\<lambda>t. t\<lparr>objsize := count'\<rparr>)
                       (initSDOline line CliNbr index' subIndex' SDO_BLOCK_DOWNLOAD_IN_PROGRESS d)
                else initSDOline line CliNbr index' subIndex' SDO_DOWNLOAD_IN_PROGRESS d);
          d2 = upd_line line (\<lambda>t. t\<lparr>count := count', dataType := dataType',
                   data := put_list (data t) 0 (take (unat count') bytes)\<rparr>)
                 (chk (unat count' \<le> SDO_MAX_LENGTH_TRANSFER \<and> unat count' \<le> length bytes) d1);
          d3 = (if \<not> useBlockMode \<and> count' \<le> 4 then upd_line line (\<lambda>t. t\<lparr>offset := count'\<rparr>) d2 else d2)
      in upd_line line (\<lambda>t. t\<lparr>Callback := cb\<rparr>) d3)"

definition do_writeNetworkDict ::
    "UNS8 \<Rightarrow> UNS16 \<Rightarrow> UNS8 \<Rightarrow> UNS32 \<Rightarrow> UNS8 \<Rightarrow> UNS8 list \<Rightarrow> sdo_cb option \<Rightarrow> bool \<Rightarrow> bool \<Rightarrow> CO_Data \<Rightarrow> UNS8 \<times> CO_Data" where
  "do_writeNetworkDict nodeId index' subIndex' count' dataType' bytes cb endianize useBlockMode d =
     (let CliNbr = GetSDOClientFromNodeId nodeId d
      in if CliNbr \<ge> 0xFE then (CliNbr, d)
         else if getSDOlineOnUse CliNbr SDO_CLIENT d \<noteq> None then (0xFF, d)
         else case getSDOfreeLine SDO_CLIENT d of
             (None, d0) \<Rightarrow> (0xFF, d0)
           | (Some line, d0) \<Rightarrow>
               (let d1 = open_download line CliNbr index' subIndex' count' dataType' bytes cb useBlockMode d0;
                    (err, d2) = sendSDO SDO_CLIENT CliNbr
                                  (download_request index' subIndex' count' (data (tr d1 line)) useBlockMode) d1
                in if err \<noteq> 0 then (0xFF, resetSDOline line d2) else (0, d2)))"

definition writeNetworkDict ::
    "UNS8 \<Rightarrow> UNS16 \<Rightarrow> UNS8 \<Rightarrow> UNS32 \<Rightarrow> UNS8 \<Rightarrow> UNS8 list \<Rightarrow> bool \<Rightarrow> CO_Data \<Rightarrow> UNS8 \<times> CO_Data" where
  "writeNetworkDict nodeId index' subIndex' count' dataType' bytes useBlockMode d =
     do_writeNetworkDict nodeId index' subIndex' count' dataType' bytes None True useBlockMode d"

definition writeNetworkDictCallBack ::
    "UNS8 \<Rightarrow> UNS16 \<Rightarrow> UNS8 \<Rightarrow> UNS32 \<Rightarrow> UNS8 \<Rightarrow> UNS8 list \<Rightarrow> sdo_cb option \<Rightarrow> bool \<Rightarrow> CO_Data \<Rightarrow> UNS8 \<times> CO_Data" where
  "writeNetworkDictCallBack nodeId index' subIndex' count' dataType' bytes cb useBlockMode d =
     do_writeNetworkDict nodeId index' subIndex' count' dataType' bytes cb True useBlockMode d"

text \<open>The first client entry without a server node; an entry that is too short ends the search.\<close>

fun free_client :: "nat list \<Rightarrow> CO_Data \<Rightarrow> nat option" where
  "free_client [] d = None"
| "free_client (off # offs) d =
     (if bSubCount (od_entry d off) \<le> 3 then None
      else if od_u8 d off 3 = 0 then Some off else free_client offs d)"

definition assign_client :: "UNS8 \<Rightarrow> nat \<Rightarrow> CO_Data \<Rightarrow> CO_Data" where
  "assign_client nodeId off d =
     d\<lparr>mem := (wr32 (wr32 (mem d) (pObject (od_sub d off 1)) (0x600 + ucast nodeId))
                  (pObject (od_sub d off 2)) (0x580 + ucast nodeId))(pObject (od_sub d off 3) := nodeId)\<rparr>"

text \<open>Both automatic variants: try, take a free client entry over when there is none for the node, try again.\<close>

definition with_client :: "UNS8 \<Rightarrow> (CO_Data \<Rightarrow> UNS8 \<times> CO_Data) \<Rightarrow> CO_Data \<Rightarrow> UNS8 \<times> CO_Data" where
  "with_client nodeId request d =
     (let (ret, d1) = request d
      in if ret = 0xFE then
           (if SDO_CLT (firstIndex (cfg d1)) = 0 then (0xFF, d1)
            else case free_client (client_entries d1) d1 of
                None \<Rightarrow> (0xFF, d1)
              | Some off \<Rightarrow> request (assign_client nodeId off d1))
         else if ret = 0 then (0, d1) else (0xFF, d1))"

definition writeNetworkDictCallBackAI ::
    "UNS8 \<Rightarrow> UNS16 \<Rightarrow> UNS8 \<Rightarrow> UNS32 \<Rightarrow> UNS8 \<Rightarrow> UNS8 list \<Rightarrow> sdo_cb option \<Rightarrow> bool \<Rightarrow> bool \<Rightarrow> CO_Data \<Rightarrow> UNS8 \<times> CO_Data" where
  "writeNetworkDictCallBackAI nodeId index' subIndex' count' dataType' bytes cb endianize useBlockMode d =
     with_client nodeId
       (do_writeNetworkDict nodeId index' subIndex' count' dataType' bytes cb endianize useBlockMode) d"

definition do_readNetworkDict ::
    "UNS8 \<Rightarrow> UNS16 \<Rightarrow> UNS8 \<Rightarrow> UNS8 \<Rightarrow> sdo_cb option \<Rightarrow> bool \<Rightarrow> CO_Data \<Rightarrow> UNS8 \<times> CO_Data" where
  "do_readNetworkDict nodeId index' subIndex' dataType' cb useBlockMode d =
     (let CliNbr = GetSDOClientFromNodeId nodeId d
      in if CliNbr \<ge> 0xFE then (CliNbr, d)
         else if getSDOlineOnUse CliNbr SDO_CLIENT d \<noteq> None then (0xFF, d)
         else case getSDOfreeLine SDO_CLIENT d of
             (None, d0) \<Rightarrow> (0xFF, d0)
           | (Some line, d0) \<Rightarrow>
               (let d1 = initSDOline line CliNbr index' subIndex'
                           (if useBlockMode then SDO_BLOCK_UPLOAD_IN_PROGRESS else SDO_UPLOAD_IN_PROGRESS) d0;
                    d2 = upd_line line (\<lambda>t. t\<lparr>dataType := dataType', Callback := cb\<rparr>) d1;
                    (err, d3) = sendSDO SDO_CLIENT CliNbr
                      (if useBlockMode then [0xA0] @ index_bytes index' @ [subIndex', SDO_BLOCK_SIZE, 0, 0, 0]
                       else [0x40] @ index_bytes index' @ [subIndex', 0, 0, 0, 0]) d2
                in if err \<noteq> 0 then (0xFF, resetSDOline line d3) else (0, d3)))"

definition readNetworkDict :: "UNS8 \<Rightarrow> UNS16 \<Rightarrow> UNS8 \<Rightarrow> UNS8 \<Rightarrow> bool \<Rightarrow> CO_Data \<Rightarrow> UNS8 \<times> CO_Data" where
  "readNetworkDict nodeId index' subIndex' dataType' useBlockMode d =
     do_readNetworkDict nodeId index' subIndex' dataType' None useBlockMode d"

definition readNetworkDictCallback ::
    "UNS8 \<Rightarrow> UNS16 \<Rightarrow> UNS8 \<Rightarrow> UNS8 \<Rightarrow> sdo_cb option \<Rightarrow> bool \<Rightarrow> CO_Data \<Rightarrow> UNS8 \<times> CO_Data" where
  "readNetworkDictCallback nodeId index' subIndex' dataType' cb useBlockMode d =
     do_readNetworkDict nodeId index' subIndex' dataType' cb useBlockMode d"

definition readNetworkDictCallbackAI ::
    "UNS8 \<Rightarrow> UNS16 \<Rightarrow> UNS8 \<Rightarrow> UNS8 \<Rightarrow> sdo_cb option \<Rightarrow> bool \<Rightarrow> CO_Data \<Rightarrow> UNS8 \<times> CO_Data" where
  "readNetworkDictCallbackAI nodeId index' subIndex' dataType' cb useBlockMode d =
     with_client nodeId (do_readNetworkDict nodeId index' subIndex' dataType' cb useBlockMode) d"

text \<open>
  The result of a read: the status, the bytes copied to \<open>*data\<close> (none unless the transfer has finished and fits), the
  new \<open>*size\<close>, the abort code and the node.
\<close>

record read_result =
  rr_status :: UNS8
  rr_data :: "UNS8 list"
  rr_size :: UNS32
  rr_abort :: UNS32

definition getReadResultNetworkDict :: "UNS8 \<Rightarrow> UNS32 \<Rightarrow> CO_Data \<Rightarrow> read_result \<times> CO_Data" where
  "getReadResultNetworkDict nodeId sz d =
     (let CliNbr = GetSDOClientFromNodeId nodeId d;
          none = \<lparr>rr_status = SDO_ABORTED_INTERNAL, rr_data = [], rr_size = 0, rr_abort = 0\<rparr>
      in if CliNbr \<ge> 0xFE then (none, d)
         else case getSDOlineOnUse CliNbr SDO_CLIENT d of
             None \<Rightarrow> (none, d)
           | Some line \<Rightarrow>
               (let t = tr d line
                in if state t \<noteq> SDO_FINISHED then
                     (if state t = SDO_ABORTED_RCV \<or> state t = SDO_ABORTED_INTERNAL
                      then (\<lparr>rr_status = state t, rr_data = [], rr_size = 0, rr_abort = abortCode t\<rparr>, d)
                      else (\<lparr>rr_status = state t, rr_data = [], rr_size = sz, rr_abort = 0\<rparr>, d))
                   else let d1 = (if count t = 0 then upd_line line (\<lambda>t. t\<lparr>count := offset t\<rparr>) d else d);
                            n = count (tr d1 line)
                        in if sz < n
                           then (\<lparr>rr_status = SDO_PROVIDED_BUFFER_TOO_SMALL, rr_data = [], rr_size = 0, rr_abort = 0\<rparr>, d1)
                           else (\<lparr>rr_status = SDO_FINISHED, rr_data = take (unat n) (data (tr d1 line)), rr_size = n, rr_abort = 0\<rparr>,
                                 resetSDOline line (chk (unat n \<le> SDO_MAX_LENGTH_TRANSFER) d1))))"

definition getWriteResultNetworkDict :: "UNS8 \<Rightarrow> CO_Data \<Rightarrow> UNS8 \<times> UNS32 \<times> CO_Data" where
  "getWriteResultNetworkDict nodeId d =
     (let CliNbr = GetSDOClientFromNodeId nodeId d
      in if CliNbr \<ge> 0xFE then (SDO_ABORTED_INTERNAL, 0, d)
         else case getSDOlineOnUse CliNbr SDO_CLIENT d of
             None \<Rightarrow> (SDO_ABORTED_INTERNAL, 0, d)
           | Some line \<Rightarrow>
               (let t = tr d line
                in if state t \<noteq> SDO_FINISHED then (state t, abortCode t, d)
                   else (SDO_FINISHED, abortCode t, resetSDOline line d)))"

section \<open>The node invariant\<close>

text \<open>Opening a client line: any update that keeps the owner and the state keeps the bounds.\<close>

lemma sdo_ok_open:
  fixes c s st :: UNS8 and i :: UNS16
  assumes ok: "sdo_ok d" and free: "getSDOfreeLine w d = (Some line, d0)"
  defines "e \<equiv> initSDOline line c i s st d0"
  shows "sdo_ok e" "line < length (transfers e)" "whoami (tr e line) = w" "state (tr e line) = st"
proof -
  note f = getSDOfreeLine_Some [OF free]
  have d0: "sdo_ok d0" using sdo_ok_copies(3) [OF ok, of w] free by simp
  have l: "line < length (transfers d0)" using f by simp
  show "sdo_ok e" unfolding e_def by (rule sdo_ok_init(1) [OF d0])
  show "line < length (transfers e)" using l by (simp add: e_def)
  obtain h where "tr e line = opened_line c i s st ((tr d0 line)\<lparr>timer := h\<rparr>)"
    using tr_initSDOline [OF l, of c i s st line] by (auto simp: e_def)
  then show "whoami (tr e line) = w" "state (tr e line) = st" using f by (simp_all add: opened_line_def tr_upd_line)
qed

definition client_line :: "nat \<Rightarrow> CO_Data \<Rightarrow> bool" where
  "client_line line d \<longleftrightarrow> sdo_ok d \<and> line < length (transfers d) \<and> whoami (tr d line) = SDO_CLIENT \<and> state (tr d line) \<noteq> SDO_RESET"

lemma client_line_ok: "client_line line d \<Longrightarrow> sdo_ok d"
  by (simp add: client_line_def)

lemma client_line_chk [simp]: "client_line line (chk b d) = client_line line d"
  by (simp add: client_line_def)

lemma client_line_upd:
  assumes d: "client_line line d"
    and f: "\<And>t. transfer_ok t \<Longrightarrow> transfer_ok (f t)" "\<And>t. whoami (f t) = whoami t" "\<And>t. state (f t) = state t"
  shows "client_line line (upd_line line f d)"
proof -
  have "sdo_ok (upd_line line f d)"
    by (rule sdo_ok_upd_line [OF client_line_ok [OF d]]) (use d f in \<open>simp add: client_line_def line_bounded_def\<close>)
  then show ?thesis using d f by (simp add: client_line_def tr_upd_line)
qed

lemma open_download_ok:
  assumes "client_line line (initSDOline line c i s SDO_BLOCK_DOWNLOAD_IN_PROGRESS d)"
    "client_line line (initSDOline line c i s SDO_DOWNLOAD_IN_PROGRESS d)"
  shows "client_line line (open_download line c i s n ty bs cb blk d)"
  using assms unfolding open_download_def Let_def
  by (auto simp: transfer_ok_def intro!: client_line_upd)

lemma do_writeNetworkDict_sdo_ok [simp]:
  assumes ok: "sdo_ok d"
  shows "sdo_ok (snd (do_writeNetworkDict n i s c ty bs cb en blk d))"
proof -
  obtain o0 d0 where fr: "getSDOfreeLine SDO_CLIENT d = (o0, d0)" by fastforce
  have d0: "sdo_ok d0" using sdo_ok_copies(3) [OF ok, of SDO_CLIENT] fr by simp
  show ?thesis
  proof (cases o0)
    case None
    with fr ok d0 show ?thesis by (simp add: do_writeNetworkDict_def Let_def)
  next
    case (Some line)
    have "client_line line (initSDOline line cl i s st d0)" if "st \<noteq> SDO_RESET" for cl st
      using sdo_ok_open [OF ok fr [unfolded Some]] that by (simp add: client_line_def)
    then have "sdo_ok (open_download line cl i s c ty bs cb blk d0)" for cl
      by (intro client_line_ok [of line] open_download_ok) simp_all
    with ok fr Some show ?thesis by (simp add: do_writeNetworkDict_def Let_def split_beta)
  qed
qed

lemma do_readNetworkDict_sdo_ok [simp]:
  assumes ok: "sdo_ok d"
  shows "sdo_ok (snd (do_readNetworkDict n i s ty cb blk d))"
proof -
  obtain o0 d0 where fr: "getSDOfreeLine SDO_CLIENT d = (o0, d0)" by fastforce
  have d0: "sdo_ok d0" using sdo_ok_copies(3) [OF ok, of SDO_CLIENT] fr by simp
  show ?thesis
  proof (cases o0)
    case None
    with fr ok d0 show ?thesis by (simp add: do_readNetworkDict_def Let_def)
  next
    case (Some line)
    let ?d1 = "initSDOline line (GetSDOClientFromNodeId n d) i s
      (if blk then SDO_BLOCK_UPLOAD_IN_PROGRESS else SDO_UPLOAD_IN_PROGRESS) d0"
    have "sdo_ok (upd_line line (\<lambda>t. t\<lparr>dataType := ty, Callback := cb\<rparr>) ?d1)"
      by (rule sdo_ok_upd_line) (auto simp: d0 line_bounded_def)
    then show ?thesis using ok fr Some by (simp add: do_readNetworkDict_def Let_def split_beta)
  qed
qed

lemma with_client_sdo_ok:
  assumes ok: "sdo_ok d" and r: "\<And>e. sdo_ok e \<Longrightarrow> sdo_ok (snd (request e))"
  shows "sdo_ok (snd (with_client n request d))"
  using r [OF ok] r [of "assign_client n off (snd (request d))" for off]
  by (auto simp: with_client_def Let_def split_beta assign_client_def split: option.split)

lemma client_sdo_ok [simp]:
  assumes ok: "sdo_ok d"
  shows "sdo_ok (snd (writeNetworkDictCallBackAI n i s c ty bs cb en blk d))"
    "sdo_ok (snd (readNetworkDictCallbackAI n i s ty cb blk d))"
    "sdo_ok (snd (writeNetworkDict n i s c ty bs blk d))" "sdo_ok (snd (writeNetworkDictCallBack n i s c ty bs cb blk d))"
    "sdo_ok (snd (readNetworkDict n i s ty blk d))" "sdo_ok (snd (readNetworkDictCallback n i s ty cb blk d))"
  using ok by (simp_all add: writeNetworkDictCallBackAI_def readNetworkDictCallbackAI_def with_client_sdo_ok
      writeNetworkDict_def writeNetworkDictCallBack_def readNetworkDict_def readNetworkDictCallback_def)

lemma client_results_sdo_ok [simp]:
  assumes ok: "sdo_ok d"
  shows "sdo_ok (snd (closeSDOtransfer n w d))" "sdo_ok (snd (getReadResultNetworkDict n sz d))"
    "sdo_ok (snd (snd (getWriteResultNetworkDict n d)))"
proof -
  have u: "sdo_ok (upd_line line (\<lambda>t. t\<lparr>count := offset t\<rparr>) d)" for line
    by (rule sdo_ok_upd_line [OF ok]) (simp add: line_bounded_def)
  show "sdo_ok (snd (closeSDOtransfer n w d))" using ok by (simp add: closeSDOtransfer_def Let_def split: option.split)
  show "sdo_ok (snd (getReadResultNetworkDict n sz d))"
    using ok u by (simp add: getReadResultNetworkDict_def Let_def split: option.split)
  show "sdo_ok (snd (snd (getWriteResultNetworkDict n d)))"
    using ok by (simp add: getWriteResultNetworkDict_def Let_def split: option.split)
qed

end
