(* ===== verification/States.thy ===== *)
theory States
  imports SdoLine
begin

text \<open>
  The NMT state machine, \<^verbatim>\<open>CanFestival/src/states.c\<close> and \<^verbatim>\<open>src/nmtSlave.c\<close>: switching the communication services on and off with the
  state of the node, setting the node id and with it the default identifiers, and the
  commands that an NMT master sends. Shown here: the node invariant is kept, a state change leaves
  exactly the services of the new state running, and the slave follows the state diagram of the
  CiA 301 standard.
\<close>

section \<open>Operations\<close>

definition getState :: "CO_Data \<Rightarrow> UNS8" where
  "getState d = nodeState d"

text \<open>The macro \<open>StartOrStop\<close>: \<open>get\<close> and \<open>put\<close> stand for the member of the communication state.\<close>

definition StartOrStop ::
    "bool \<Rightarrow> (s_state_communication \<Rightarrow> bool) \<Rightarrow> (bool \<Rightarrow> s_state_communication \<Rightarrow> s_state_communication)
     \<Rightarrow> (CO_Data \<Rightarrow> CO_Data) \<Rightarrow> (CO_Data \<Rightarrow> CO_Data) \<Rightarrow> CO_Data \<Rightarrow> CO_Data" where
  "StartOrStop wanted get put FuncStart FuncStop d =
     (let cur = CurrentCommunicationState d
      in if wanted \<and> \<not> get cur then FuncStart (d\<lparr>CurrentCommunicationState := put True cur\<rparr>)
         else if \<not> wanted \<and> get cur then FuncStop (d\<lparr>CurrentCommunicationState := put False cur\<rparr>)
         else d)"

definition switchCommunicationState :: "s_state_communication \<Rightarrow> CO_Data \<Rightarrow> CO_Data" where
  "switchCommunicationState new d =
     (let d1 = StartOrStop (csSDO new) csSDO (\<lambda>b c. c\<lparr>csSDO := b\<rparr>) (\<lambda>d. d) resetSDO d;
          d2 = StartOrStop (csSYNC new) csSYNC (\<lambda>b c. c\<lparr>csSYNC := b\<rparr>) startSYNC stopSYNC d1;
          d3 = StartOrStop (csLifeGuard new) csLifeGuard (\<lambda>b c. c\<lparr>csLifeGuard := b\<rparr>) lifeGuardInit lifeGuardStop d2;
          d4 = StartOrStop (csEmergency new) csEmergency (\<lambda>b c. c\<lparr>csEmergency := b\<rparr>) emergencyInit emergencyStop d3;
          d5 = StartOrStop (csPDO new) csPDO (\<lambda>b c. c\<lparr>csPDO := b\<rparr>) PDOInit PDOStop d4
      in StartOrStop (csBoot_Up new) csBoot_Up (\<lambda>b c. c\<lparr>csBoot_Up := b\<rparr>) (\<lambda>d. d) (\<lambda>d. snd (slaveSendBootUp d)) d5)"

text \<open>The services that each state of \<open>setState\<close> asks for.\<close>

definition comm :: "bool \<Rightarrow> bool \<Rightarrow> bool \<Rightarrow> bool \<Rightarrow> bool \<Rightarrow> bool \<Rightarrow> bool \<Rightarrow> s_state_communication" where
  "comm boot sdo emcy sync guard pdo lss =
     \<lparr>csBoot_Up = boot, csSDO = sdo, csEmergency = emcy, csSYNC = sync, csLifeGuard = guard, csPDO = pdo, csLSS = lss\<rparr>"

definition initialisation :: "CO_Data \<Rightarrow> CO_Data" where
  "initialisation d = emit Call_initialisation d"

definition preOperational :: "CO_Data \<Rightarrow> CO_Data" where
  "preOperational d = (if iam_a_slave (cfg d) = 0 then snd (masterSendNMTstateChange 0 NMT_Reset_Node d) else d)"

definition enter_PreOperational :: "CO_Data \<Rightarrow> CO_Data" where
  "enter_PreOperational d =
     preOperational (switchCommunicationState (comm False True True True True False True) (d\<lparr>nodeState := Pre_operational\<rparr>))"

definition setState :: "UNS8 \<Rightarrow> CO_Data \<Rightarrow> UNS8 \<times> CO_Data" where
  "setState newState d =
     (if newState = nodeState d then (nodeState d, d)
      else if newState = Initialisation then
        (let d1 = switchCommunicationState (comm True False False False False False False) (d\<lparr>nodeState := Initialisation\<rparr>);
             d2 = enter_PreOperational (initialisation d1)
         in (nodeState d2, d2))
      else if newState = Pre_operational then (let d1 = enter_PreOperational d in (nodeState d1, d1))
      else if newState = Operational then
        (if nodeState d = Initialisation then (0xFF, d)
         else let d1 = emit Call_operational (switchCommunicationState (comm False True True True True True False)
                         (d\<lparr>nodeState := Operational\<rparr>))
              in (nodeState d1, d1))
      else if newState = Stopped then
        (if nodeState d = Initialisation then (0xFF, d)
         else let d1 = emit Call_stopped (switchCommunicationState (comm False False False False True False True)
                         (d\<lparr>nodeState := Stopped\<rparr>))
              in (nodeState d1, d1))
      else (0xFF, d))"

definition getNodeId :: "CO_Data \<Rightarrow> UNS8" where
  "getNodeId d = mem d (bDeviceNodeId (cfg d))"

text \<open>An identifier object follows the node id while it has its default value, or when the node id was 0xFF.\<close>

definition follow_id :: "nat \<Rightarrow> nat \<Rightarrow> UNS32 \<Rightarrow> UNS8 \<Rightarrow> CO_Data \<Rightarrow> CO_Data" where
  "follow_id pos k base nodeId d =
     (if od_u32 d pos k = base + ucast (getNodeId d) \<or> getNodeId d = 0xFF
      then d\<lparr>mem := wr32 (mem d) (pObject (od_sub d pos k)) (base + ucast nodeId)\<rparr> else d)"

definition follow_ids :: "UNS16 \<Rightarrow> UNS16 \<Rightarrow> UNS32 list \<Rightarrow> UNS8 \<Rightarrow> CO_Data \<Rightarrow> CO_Data" where
  "follow_ids first lastI bases nodeId d =
     (if first = 0 then d
      else fold (\<lambda>(pos, base). follow_id pos 1 base nodeId) (zip [unat first..<unat lastI + 1] bases) d)"

definition setNodeId :: "UNS8 \<Rightarrow> CO_Data \<Rightarrow> CO_Data" where
  "setNodeId nodeId d =
     (if \<not> (0 < nodeId \<and> nodeId \<le> 127) then d
      else let c = cfg d;
               svr = SDO_SVR (firstIndex c);
               d1 = (if svr \<noteq> 0 then follow_id (unat svr) 2 0x580 nodeId (follow_id (unat svr) 1 0x600 nodeId d) else d);
               d2 = follow_ids (PDO_RCV (firstIndex c)) (PDO_RCV (lastIndex c)) [0x200, 0x300, 0x400, 0x500] nodeId d1;
               d3 = follow_ids (PDO_TRS (firstIndex c)) (PDO_TRS (lastIndex c)) [0x180, 0x280, 0x380, 0x480] nodeId d2;
               d4 = (if rd32 (mem d3) (error_cobid c) = ucast (getNodeId d3) + 0x80 \<or> getNodeId d3 = 0xFF
                     then d3\<lparr>mem := wr32 (mem d3) (error_cobid c) (ucast nodeId + 0x80)\<rparr> else d3)
           in d4\<lparr>mem := (mem d4)(bDeviceNodeId c := nodeId)\<rparr>)"

text \<open>The reset callbacks of the slave are null pointers in the initialiser.\<close>

definition proceedNMTstateChange :: "Message \<Rightarrow> CO_Data \<Rightarrow> CO_Data" where
  "proceedNMTstateChange m d =
     (if nodeState d \<in> {Pre_operational, Operational, Stopped}
         \<and> (mdata m ! 1 = 0 \<or> mdata m ! 1 = getNodeId d) then
        (let cs = mdata m ! 0
         in if cs = NMT_Start_Node then
              (if nodeState d = Pre_operational \<or> nodeState d = Stopped then snd (setState Operational d) else d)
            else if cs = NMT_Stop_Node then
              (if nodeState d = Pre_operational \<or> nodeState d = Operational then snd (setState Stopped d) else d)
            else if cs = NMT_Enter_PreOperational then
              (if nodeState d = Operational \<or> nodeState d = Stopped then snd (setState Pre_operational d) else d)
            else if cs = NMT_Reset_Node then snd (setState Initialisation d)
            else if cs = NMT_Reset_Comunication then
              (let currentNodeId = getNodeId d;
                   d1 = d\<lparr>mem := (mem d)(bDeviceNodeId (cfg d) := 0xFF)\<rparr>
               in snd (setState Initialisation (setNodeId currentNodeId d1)))
            else d)
      else d)"

section \<open>The node invariant\<close>

lemma StartOrStop_keeps:
  assumes "P d" "\<And>e c. P e \<Longrightarrow> P (e\<lparr>CurrentCommunicationState := c\<rparr>)" "\<And>e. P e \<Longrightarrow> P (start e)" "\<And>e. P e \<Longrightarrow> P (stop e)"
  shows "P (StartOrStop w g p start stop d)"
  using assms by (simp add: StartOrStop_def Let_def)

text \<open>What is kept by every service function is kept by the switch.\<close>

lemma switch_keeps:
  assumes d: "P d" and c: "\<And>e c. P e \<Longrightarrow> P (e\<lparr>CurrentCommunicationState := c\<rparr>)"
    and s: "\<And>e. P e \<Longrightarrow> P (resetSDO e)" "\<And>e. P e \<Longrightarrow> P (startSYNC e)" "\<And>e. P e \<Longrightarrow> P (stopSYNC e)"
      "\<And>e. P e \<Longrightarrow> P (lifeGuardInit e)" "\<And>e. P e \<Longrightarrow> P (lifeGuardStop e)" "\<And>e. P e \<Longrightarrow> P (emergencyInit e)"
      "\<And>e. P e \<Longrightarrow> P (emergencyStop e)" "\<And>e. P e \<Longrightarrow> P (PDOInit e)" "\<And>e. P e \<Longrightarrow> P (PDOStop e)"
      "\<And>e. P e \<Longrightarrow> P (snd (slaveSendBootUp e))"
  shows "P (switchCommunicationState new d)"
  unfolding switchCommunicationState_def Let_def by (intro StartOrStop_keeps [where P = P] d c s)

lemma service_frames:
  "service_frame e (startSYNC e)" "service_frame e (stopSYNC e)" "service_frame e (lifeGuardInit e)"
  "service_frame e (lifeGuardStop e)" "service_frame e (emergencyInit e)" "service_frame e (emergencyStop e)"
  "service_frame e (PDOInit e)" "service_frame e (PDOStop e)" "service_frame e (snd (slaveSendBootUp e))"
proof -
  show "service_frame e (PDOInit e)" "service_frame e (PDOStop e)" by (simp_all add: service_frame_pdo)
  show "service_frame e (emergencyInit e)" "service_frame e (emergencyStop e)"
    by (simp_all add: service_frame_def emergencyInit_def emergencyStop_def Let_def split_beta)
qed (simp_all add: service_frame_def lifeGuardInit_def lifeGuardStop_def slaveSendBootUp_def canSend_def emit_def)

lemma switch_sdo_ok:
  assumes "sdo_ok d"
  shows "sdo_ok (switchCommunicationState new d)"
proof (rule switch_keeps [where P = sdo_ok, OF assms])
  have f: "sdo_ok e'" if "sdo_ok e" "node_ok e'" "service_frame e e'" for e e'
    using sdo_ok_same [OF that(1,2)] that(3) by (simp add: service_frame_def)
  show "sdo_ok (startSYNC e)" "sdo_ok (stopSYNC e)" "sdo_ok (lifeGuardInit e)" "sdo_ok (lifeGuardStop e)"
    "sdo_ok (emergencyInit e)" "sdo_ok (emergencyStop e)" "sdo_ok (PDOInit e)" "sdo_ok (PDOStop e)"
    "sdo_ok (snd (slaveSendBootUp e))" if "sdo_ok e" for e
    using sdo_ok_node [OF that] by (auto intro!: f [OF that] service_frames simp: slaveSendBootUp_def)
qed simp_all

text \<open>Setting the node id writes memory and nothing else, so it keeps what does not depend on the memory.\<close>

lemma setNodeId_keeps:
  assumes d: "P d" and m: "\<And>e m. P e \<Longrightarrow> P (e\<lparr>mem := m\<rparr>)"
  shows "P (setNodeId n d)"
proof -
  have if_keeps: "P x \<Longrightarrow> P y \<Longrightarrow> P (if b then x else y)" for b x y by simp
  have follow: "P (follow_id pos k b n e)" if "P e" for pos k b e using that m by (simp add: follow_id_def)
  have ids: "P (follow_ids first lastI bs n e)" if "P e" for first lastI bs e
    unfolding follow_ids_def using follow that by (auto intro: fold_keeps [where P = P])
  show ?thesis unfolding setNodeId_def Let_def by (intro if_keeps m ids follow d)
qed

lemma states_sdo_ok [simp]:
  assumes ok: "sdo_ok d"
  shows "sdo_ok (snd (setState s d))" "sdo_ok (setNodeId n d)" "sdo_ok (proceedNMTstateChange m d)"
proof -
  have pre: "sdo_ok (enter_PreOperational e)" if "sdo_ok e" for e
    using that by (simp add: enter_PreOperational_def preOperational_def switch_sdo_ok masterSendNMTstateChange_def)
  have set: "sdo_ok (snd (setState s d))" if "sdo_ok d" for s d
    using that pre by (simp add: setState_def Let_def switch_sdo_ok initialisation_def)
  have node: "sdo_ok (setNodeId n d)" if "sdo_ok d" for n d
    by (rule setNodeId_keeps [where P = sdo_ok, OF that]) simp
  show "sdo_ok (snd (setState s d))" "sdo_ok (setNodeId n d)" using ok set node by simp_all
  show "sdo_ok (proceedNMTstateChange m d)"
    using ok set node by (simp add: proceedNMTstateChange_def Let_def)
qed

section \<open>The services of a state\<close>

lemma StartOrStop_comm:
  assumes "\<And>e. CurrentCommunicationState (start e) = CurrentCommunicationState e"
    "\<And>e. CurrentCommunicationState (stop e) = CurrentCommunicationState e" "\<And>c. put (get c) c = c"
  shows "CurrentCommunicationState (StartOrStop w get put start stop d) = put w (CurrentCommunicationState d)"
  using assms(1,2) assms(3) [of "CurrentCommunicationState d"]
  by (cases w; cases "get (CurrentCommunicationState d)") (simp_all add: StartOrStop_def Let_def)

lemma service_comm [simp]:
  "CurrentCommunicationState (resetSDO d) = CurrentCommunicationState d" "nodeState (resetSDO d) = nodeState d"
  "CurrentCommunicationState (lifeGuardInit d) = CurrentCommunicationState d" "nodeState (lifeGuardInit d) = nodeState d"
  "CurrentCommunicationState (lifeGuardStop d) = CurrentCommunicationState d" "nodeState (lifeGuardStop d) = nodeState d"
  "CurrentCommunicationState (emergencyInit d) = CurrentCommunicationState d" "nodeState (emergencyInit d) = nodeState d"
  "CurrentCommunicationState (emergencyStop d) = CurrentCommunicationState d" "nodeState (emergencyStop d) = nodeState d"
  "CurrentCommunicationState (PDOInit d) = CurrentCommunicationState d" "nodeState (PDOInit d) = nodeState d"
  "CurrentCommunicationState (PDOStop d) = CurrentCommunicationState d" "nodeState (PDOStop d) = nodeState d"
  "CurrentCommunicationState (snd (slaveSendBootUp d)) = CurrentCommunicationState d"
  "nodeState (snd (slaveSendBootUp d)) = nodeState d"
  using sdo_frame_resetSDO [of d] service_frames [of d] by (simp_all add: service_frame_def sdo_frame_def)

lemma switch_comm [simp]:
  "CurrentCommunicationState (switchCommunicationState new d) = new\<lparr>csLSS := csLSS (CurrentCommunicationState d)\<rparr>"
  unfolding switchCommunicationState_def Let_def
  by (simp add: StartOrStop_comm)

lemma switch_state [simp]: "nodeState (switchCommunicationState new d) = nodeState d"
  by (rule switch_keeps [where P = "\<lambda>e. nodeState e = nodeState d"]) simp_all

lemma switch_cfg [simp]: "cfg (switchCommunicationState new d) = cfg d"
proof (rule switch_keeps [where P = "\<lambda>e. cfg e = cfg d"])
  show "cfg (resetSDO e) = cfg d" if "cfg e = cfg d" for e using sdo_frame_resetSDO [of e] that by (simp add: sdo_frame_def)
qed (use service_frames in \<open>auto simp: service_frame_def\<close>)

text \<open>
  CiA 301: which communication objects a node serves in which state. The NMT object itself is always served,
  and the layer setting services are not compiled in.
\<close>

definition services :: "UNS8 \<Rightarrow> s_state_communication" where
  "services s = comm False (s \<in> {Pre_operational, Operational}) (s \<in> {Pre_operational, Operational})
     (s \<in> {Pre_operational, Operational}) (s \<in> {Pre_operational, Operational, Stopped}) (s = Operational) False"

definition comm_ok :: "CO_Data \<Rightarrow> bool" where
  "comm_ok d \<longleftrightarrow> \<not> csLSS (CurrentCommunicationState d)
     \<and> (nodeState d \<in> {Pre_operational, Operational, Stopped} \<longrightarrow> CurrentCommunicationState d = services (nodeState d))"

lemma preOperational_comm [simp]:
  "CurrentCommunicationState (preOperational d) = CurrentCommunicationState d" "nodeState (preOperational d) = nodeState d"
  by (simp_all add: preOperational_def masterSendNMTstateChange_def canSend_def emit_def)

lemma enter_PreOperational_comm:
  "nodeState (enter_PreOperational d) = Pre_operational"
  "\<not> csLSS (CurrentCommunicationState d) \<Longrightarrow> CurrentCommunicationState (enter_PreOperational d) = services Pre_operational"
  by (simp_all add: enter_PreOperational_def services_def comm_def)

lemma setState_enters:
  assumes "\<not> csLSS (CurrentCommunicationState d)" "nodeState d \<noteq> s"
  shows "s \<in> {Initialisation, Pre_operational} \<Longrightarrow> nodeState (snd (setState s d)) = Pre_operational
      \<and> CurrentCommunicationState (snd (setState s d)) = services Pre_operational"
    "s \<in> {Operational, Stopped} \<Longrightarrow> nodeState d \<noteq> Initialisation \<Longrightarrow> nodeState (snd (setState s d)) = s
      \<and> CurrentCommunicationState (snd (setState s d)) = services s"
  using assms
  by (auto simp: setState_def Let_def enter_PreOperational_comm initialisation_def emit_def services_def comm_def)

lemma setState_comm_ok:
  assumes "comm_ok d" "nodeState d \<noteq> Initialisation"
  shows "comm_ok (snd (setState s d))"
proof (cases "s = nodeState d \<or> s \<notin> {Initialisation, Pre_operational, Operational, Stopped}")
  case True
  then have "snd (setState s d) = d" by (auto simp: setState_def)
  with assms show ?thesis by simp
next
  case False
  with assms setState_enters [of d s] show ?thesis by (auto simp: comm_ok_def services_def comm_def)
qed

section \<open>The state diagram of the slave\<close>

text \<open>CiA 301, the transitions between the states that a node stays in; a reset ends in Pre-operational.\<close>

datatype nmt_state = S_PreOperational | S_Operational | S_Stopped
datatype nmt_command = C_Start | C_Stop | C_EnterPreOperational | C_ResetNode | C_ResetCommunication

inductive nmt_step :: "nmt_state \<Rightarrow> nmt_command \<Rightarrow> nmt_state \<Rightarrow> bool" where
  start: "nmt_step s C_Start S_Operational"
| stop: "nmt_step s C_Stop S_Stopped"
| enter_preop: "nmt_step s C_EnterPreOperational S_PreOperational"
| reset_node: "nmt_step s C_ResetNode S_PreOperational"
| reset_comm: "nmt_step s C_ResetCommunication S_PreOperational"

inductive_simps nmt_step_simps [simp]:
  "nmt_step s C_Start s'" "nmt_step s C_Stop s'" "nmt_step s C_EnterPreOperational s'" "nmt_step s C_ResetNode s'"
  "nmt_step s C_ResetCommunication s'"

fun state_byte :: "nmt_state \<Rightarrow> UNS8" where
  "state_byte S_PreOperational = Pre_operational"
| "state_byte S_Operational = Operational"
| "state_byte S_Stopped = Stopped"

fun command_byte :: "nmt_command \<Rightarrow> UNS8" where
  "command_byte C_Start = NMT_Start_Node"
| "command_byte C_Stop = NMT_Stop_Node"
| "command_byte C_EnterPreOperational = NMT_Enter_PreOperational"
| "command_byte C_ResetNode = NMT_Reset_Node"
| "command_byte C_ResetCommunication = NMT_Reset_Comunication"

lemma state_byte_range: "state_byte s \<in> {Pre_operational, Operational, Stopped}" "state_byte s \<noteq> Initialisation"
  by (cases s; simp)+

text \<open>A node that represents abstract state \<open>s\<close>: its state byte and exactly the services of that state.\<close>

definition in_state :: "nmt_state \<Rightarrow> CO_Data \<Rightarrow> bool" where
  "in_state s d \<longleftrightarrow> nodeState d = state_byte s \<and> CurrentCommunicationState d = services (state_byte s)"

lemma in_state_lss: "in_state s d \<Longrightarrow> \<not> csLSS (CurrentCommunicationState d)"
  by (simp add: in_state_def services_def comm_def)

lemma in_state_setState:
  assumes d: "in_state s d"
  shows "in_state s' (snd (setState (state_byte s') d))" "in_state S_PreOperational (snd (setState Initialisation d))"
proof -
  have n: "nodeState d = state_byte s" "nodeState d \<noteq> Initialisation" using d state_byte_range(2) by (simp_all add: in_state_def)
  show "in_state s' (snd (setState (state_byte s') d))"
  proof (cases "state_byte s' = nodeState d")
    case True
    with n d show ?thesis by (simp add: setState_def in_state_def)
  next
    case False
    then show ?thesis using setState_enters [OF in_state_lss [OF d], of "state_byte s'"] n by (cases s') (auto simp: in_state_def)
  qed
  show "in_state S_PreOperational (snd (setState Initialisation d))"
    using setState_enters(1) [OF in_state_lss [OF d], of Initialisation] n(2) by (simp add: in_state_def)
qed

lemma in_state_setNodeId: "in_state s d \<Longrightarrow> in_state s (setNodeId n d)"
  by (rule setNodeId_keeps [where P = "in_state s"]) (simp_all add: in_state_def)

text \<open>C9: the NMT slave implements the state diagram of CiA 301. An NMT frame that carries a command and
  the node's id (or 0, for all nodes) takes a node in a state of the diagram to the state that the diagram prescribes for
  the command, and the communication services that run afterwards are exactly those of that state. A
  frame for another node and an unknown command change nothing.\<close>

theorem nmt_slave_refines:
  assumes d: "in_state s d"
  shows "((mdata m ! 1 = 0 \<or> mdata m ! 1 = getNodeId d) \<and> mdata m ! 0 = command_byte c
        \<longrightarrow> (\<exists>s'. nmt_step s c s' \<and> in_state s' (proceedNMTstateChange m d)))
    \<and> (\<not> (mdata m ! 1 = 0 \<or> mdata m ! 1 = getNodeId d) \<or> mdata m ! 0 \<notin> range command_byte
        \<longrightarrow> proceedNMTstateChange m d = d)"
proof -
  have n: "nodeState d = state_byte s" using d by (simp add: in_state_def)
  note set = in_state_setState [OF d]
  let ?e = "d\<lparr>mem := (mem d)(bDeviceNodeId (cfg d) := 0xFF)\<rparr>"
  have "in_state s ?e" using d by (simp add: in_state_def)
  then have reset: "in_state S_PreOperational (snd (setState Initialisation (setNodeId i ?e)))" for i
    by (intro in_state_setState(2)) (rule in_state_setNodeId)
  have "(mdata m ! 1 = 0 \<or> mdata m ! 1 = getNodeId d) \<and> mdata m ! 0 = command_byte c
      \<longrightarrow> (\<exists>s'. nmt_step s c s' \<and> in_state s' (proceedNMTstateChange m d))"
  proof (intro impI, elim conjE)
    assume a: "mdata m ! 1 = 0 \<or> mdata m ! 1 = getNodeId d" "mdata m ! 0 = command_byte c"
    have "proceedNMTstateChange m d = (case c of
        C_Start \<Rightarrow> if s = S_Operational then d else snd (setState (state_byte S_Operational) d)
      | C_Stop \<Rightarrow> if s = S_Stopped then d else snd (setState (state_byte S_Stopped) d)
      | C_EnterPreOperational \<Rightarrow> if s = S_PreOperational then d else snd (setState (state_byte S_PreOperational) d)
      | C_ResetNode \<Rightarrow> snd (setState Initialisation d)
      | C_ResetCommunication \<Rightarrow> snd (setState Initialisation (setNodeId (getNodeId d) ?e)))"
      using a n by (cases c; cases s) (auto simp: proceedNMTstateChange_def Let_def)
    then show "\<exists>s'. nmt_step s c s' \<and> in_state s' (proceedNMTstateChange m d)"
      using set(1) [of S_Operational] set(1) [of S_Stopped] set(1) [of S_PreOperational] set(2) reset d by (cases c) auto
  qed
  moreover have "\<not> (mdata m ! 1 = 0 \<or> mdata m ! 1 = getNodeId d) \<or> mdata m ! 0 \<notin> range command_byte
      \<longrightarrow> proceedNMTstateChange m d = d"
  proof -
    have "x \<in> range command_byte" if "x \<in> {1, 2, 0x80, 0x81, 0x82}" for x
      using that rangeI [of command_byte C_Start] rangeI [of command_byte C_Stop] rangeI [of command_byte C_EnterPreOperational]
        rangeI [of command_byte C_ResetNode] rangeI [of command_byte C_ResetCommunication] by auto
    then show ?thesis by (auto simp: proceedNMTstateChange_def Let_def)
  qed
  ultimately show ?thesis by blast
qed

section \<open>Boot-up\<close>

text \<open>Stopping the services and starting those of Pre-operational sends nothing.\<close>

definition quiet :: "(CO_Data \<Rightarrow> CO_Data) \<Rightarrow> bool" where
  "quiet f \<longleftrightarrow> (\<forall>e. sent (f e) = sent e \<and> cfg (f e) = cfg e \<and> (\<forall>a. a \<noteq> error_number (cfg e) \<longrightarrow> mem (f e) a = mem e a))"

lemma quiet_fold: "(\<And>x. quiet (f x)) \<Longrightarrow> quiet (fold f xs)"
  by (induction xs) (auto simp: quiet_def)

lemma sent_upd [simp]:
  "sent (d\<lparr>toggle := a\<rparr>) = sent d" "sent (d\<lparr>ProducerHeartBeatTimer := h\<rparr>) = sent d" "sent (d\<lparr>GuardTimeTimer := h\<rparr>) = sent d"
  "sent (d\<lparr>nodeGuardStatus := g\<rparr>) = sent d" "sent (d\<lparr>mem := m\<rparr>) = sent d" "sent (d\<lparr>transfers := ts\<rparr>) = sent d"
  "sent (d\<lparr>CurrentCommunicationState := c\<rparr>) = sent d" "sent (d\<lparr>nodeState := s\<rparr>) = sent d"
  "sent (d\<lparr>ConsumerHeartBeatTimers := hs\<rparr>) = sent d" "sent (chk b d) = sent d"
  by (simp_all add: sent_def chk_def)

lemma quiet_services:
  "quiet resetSDO" "quiet startSYNC" "quiet stopSYNC" "quiet lifeGuardInit" "quiet lifeGuardStop" "quiet emergencyInit"
  "quiet emergencyStop" "quiet PDOStop"
proof -
  have "sent (upd_line l f e) = sent e" for l f e by (simp add: upd_line_def)
  then have "sent (resetSDOline l e) = sent e" for l e
    by (simp add: resetSDOline_def initSDOline_def StartSDO_TIMER_def StopSDO_TIMER_def split_beta Let_def)
  then have "quiet (resetSDOline l)" for l using sdo_frame_line(3) by (simp add: quiet_def sdo_frame_def)
  from quiet_fold [of resetSDOline "[0..<SDO_MAX_SIMULTANEOUS_TRANSFERS]", OF this] show "quiet resetSDO"
    unfolding quiet_def resetSDO_def .
  show "quiet startSYNC" "quiet stopSYNC" by (simp_all add: quiet_def)
  have "quiet (init_consumer i)" "quiet (init_guard i)" "quiet (stop_consumer i)" for i
    using guard_steps_frame
    by (simp_all add: quiet_def guard_frame_def)
      (simp_all add: init_consumer_def init_guard_def stop_consumer_def put_consumer_timer_def split_beta Let_def)
  then have "quiet (fold init_consumer xs)" "quiet (fold init_guard xs)" "quiet (fold stop_consumer xs)" for xs
    by (simp_all add: quiet_fold)
  then have "sent (heartbeatInit e) = sent e" "sent (nodeguardInit e) = sent e" "sent (heartbeatStop e) = sent e"
    "sent (nodeguardStop e) = sent e" for e
    by (simp_all add: quiet_def heartbeatInit_def nodeguardInit_def heartbeatStop_def nodeguardStop_def split_beta Let_def)
  then show "quiet lifeGuardInit" "quiet lifeGuardStop" by (simp_all add: quiet_def lifeGuardInit_def lifeGuardStop_def)
  show "quiet emergencyInit" "quiet emergencyStop" by (simp_all add: quiet_def emergencyInit_def emergencyStop_def Let_def)
  have "sent (stop_tpdo i e) = sent e" for i e by (simp add: stop_tpdo_def zap_pdo_timers_def split_beta Let_def)
  then have "sent (fold stop_tpdo xs e) = sent e" for xs e by (induction xs arbitrary: e) simp_all
  then show "quiet PDOStop" using pdo_frame_ops by (simp add: quiet_def PDOStop_def pdo_frame_def)
qed

lemma StartOrStop_quiet:
  assumes "w \<Longrightarrow> quiet start" "\<not> w \<Longrightarrow> quiet stop"
  shows "quiet (StartOrStop w get put start stop)"
  using assms by (auto simp: quiet_def StartOrStop_def Let_def)

lemma quiet_comp: "quiet f \<Longrightarrow> quiet g \<Longrightarrow> quiet (\<lambda>d. f (g d))"
  by (simp add: quiet_def)

definition bootup_frame :: "CO_Data \<Rightarrow> Message" where
  "bootup_frame d = \<lparr>cob_id = 0x700 OR ucast (getNodeId d), rtr = NOT_A_REQUEST, mlen = 1, mdata = [0x00]\<rparr>"

lemma switch_sent:
  assumes no_pdo: "\<not> csPDO new" and a: "bDeviceNodeId (cfg d) \<noteq> error_number (cfg d)"
  shows "sent (switchCommunicationState new d) =
      sent d @ (if \<not> csBoot_Up new \<and> csBoot_Up (CurrentCommunicationState d) then [bootup_frame d] else [])"
    "getNodeId (switchCommunicationState new d) = getNodeId d"
proof -
  define five where "five = (\<lambda>d. StartOrStop (csPDO new) csPDO (\<lambda>b c. c\<lparr>csPDO := b\<rparr>) PDOInit PDOStop
    (StartOrStop (csEmergency new) csEmergency (\<lambda>b c. c\<lparr>csEmergency := b\<rparr>) emergencyInit emergencyStop
    (StartOrStop (csLifeGuard new) csLifeGuard (\<lambda>b c. c\<lparr>csLifeGuard := b\<rparr>) lifeGuardInit lifeGuardStop
    (StartOrStop (csSYNC new) csSYNC (\<lambda>b c. c\<lparr>csSYNC := b\<rparr>) startSYNC stopSYNC
    (StartOrStop (csSDO new) csSDO (\<lambda>b c. c\<lparr>csSDO := b\<rparr>) (\<lambda>d. d) resetSDO d)))))"
  have "quiet (\<lambda>d :: CO_Data. d)" by (simp add: quiet_def)
  note qs = StartOrStop_quiet [OF this quiet_services(1)] StartOrStop_quiet [OF quiet_services(2,3)]
    StartOrStop_quiet [OF quiet_services(4,5)] StartOrStop_quiet [OF quiet_services(6,7)]
  have "quiet (StartOrStop (csPDO new) csPDO (\<lambda>b c. c\<lparr>csPDO := b\<rparr>) PDOInit PDOStop)"
    using no_pdo by (intro StartOrStop_quiet) (simp_all add: quiet_services)
  then have q: "quiet five" unfolding five_def
    by (rule quiet_comp [OF _ quiet_comp [OF qs(4) quiet_comp [OF qs(3) quiet_comp [OF qs(2) qs(1)]]]])
  have boot: "csBoot_Up (CurrentCommunicationState (five d)) = csBoot_Up (CurrentCommunicationState d)"
    by (simp add: five_def StartOrStop_comm)
  have same: "sent (five d) = sent d" "getNodeId (five d) = getNodeId d" "cfg (five d) = cfg d"
    using q a by (simp_all add: quiet_def getNodeId_def)
  have sw: "switchCommunicationState new d =
      StartOrStop (csBoot_Up new) csBoot_Up (\<lambda>b c. c\<lparr>csBoot_Up := b\<rparr>) (\<lambda>d. d) (\<lambda>d. snd (slaveSendBootUp d)) (five d)"
    by (simp add: switchCommunicationState_def five_def Let_def)
  show "sent (switchCommunicationState new d) =
      sent d @ (if \<not> csBoot_Up new \<and> csBoot_Up (CurrentCommunicationState d) then [bootup_frame d] else [])"
    using boot same unfolding sw
    by (auto simp: StartOrStop_def Let_def slaveSendBootUp_def canSend_def bootup_frame_def getNodeId_def)
  show "getNodeId (switchCommunicationState new d) = getNodeId d"
    using same unfolding sw
    by (auto simp: StartOrStop_def Let_def slaveSendBootUp_def canSend_def emit_def getNodeId_def)
qed

text \<open>A reset of a slave announces itself. Leaving a running state for Initialisation sends exactly
  one frame, the boot-up message on \<open>700h + node id\<close> with the data byte 0, and ends in Pre-operational.\<close>

theorem reset_sends_bootup:
  assumes s: "in_state s d" and slave: "iam_a_slave (cfg d) \<noteq> 0" and a: "bDeviceNodeId (cfg d) \<noteq> error_number (cfg d)"
  shows "sent (snd (setState Initialisation d)) = sent d @ [bootup_frame d]
    \<and> in_state S_PreOperational (snd (setState Initialisation d))"
proof -
  let ?new = "comm True False False False False False False"
  define d1 where "d1 = switchCommunicationState ?new (d\<lparr>nodeState := Initialisation\<rparr>)"
  have "getNodeId (d\<lparr>nodeState := Initialisation\<rparr>) = getNodeId d" by (simp add: getNodeId_def)
  then have d1: "sent d1 = sent d" "getNodeId d1 = getNodeId d" "cfg d1 = cfg d" "csBoot_Up (CurrentCommunicationState d1)"
    using switch_sent [of ?new "d\<lparr>nodeState := Initialisation\<rparr>"] a by (simp_all add: d1_def comm_def)
  let ?e = "(initialisation d1)\<lparr>nodeState := Pre_operational\<rparr>"
  have e: "sent ?e = sent d" "bootup_frame ?e = bootup_frame d" "cfg ?e = cfg d" "csBoot_Up (CurrentCommunicationState ?e)"
    using d1 by (simp_all add: initialisation_def sent_emit_other bootup_frame_def getNodeId_def) (simp_all add: emit_def)
  have "sent (switchCommunicationState (comm False True True True True False True) ?e) = sent d @ [bootup_frame d]"
    using switch_sent(1) [of "comm False True True True True False True" ?e] e a by (simp add: comm_def)
  then have "sent (enter_PreOperational (initialisation d1)) = sent d @ [bootup_frame d]"
    using e(3) slave by (simp add: enter_PreOperational_def preOperational_def)
  moreover have "Initialisation \<noteq> nodeState d" using s state_byte_range(2) by (metis in_state_def)
  ultimately show ?thesis
    using in_state_setState(2) [OF s] by (simp add: setState_def Let_def d1_def)
qed

end
