(* ===== verification/Dcf.thy ===== *)
theory Dcf
  imports SdoClient States
begin

text \<open>
  The concise device configuration of \<^verbatim>\<open>CanFestival/src/dcf.c\<close>: a master that finds a booted slave reads the
  objects listed in entry 1F22h back over SDO, rewrites all of them when one differs, starts the
  node and looks for the next one. \<open>DCF_SAVE_NODE\<close> is not defined in this build. The entry 1F22h holds
  pointers to byte strings; an address is a natural number and does not wrap. Shown here: the node invariant
  is kept, the walk over a configuration visits exactly the entries it was built
  from, and what a successful check means for the nodes still waiting.
\<close>

section \<open>Operations\<close>

abbreviation (input) DCF_STATUS_INIT :: UNS8 where "DCF_STATUS_INIT \<equiv> 0"
abbreviation (input) DCF_STATUS_READ_CHECK :: UNS8 where "DCF_STATUS_READ_CHECK \<equiv> 1"
abbreviation (input) DCF_STATUS_WRITE :: UNS8 where "DCF_STATUS_WRITE \<equiv> 2"
abbreviation (input) DCF_STATUS_SAVED :: UNS8 where "DCF_STATUS_SAVED \<equiv> 3"

record dcf_entry_t =
  Index :: UNS16
  Subindex :: UNS8
  Size :: UNS32
  Data :: addr

definition start_node :: "UNS8 \<Rightarrow> CO_Data \<Rightarrow> CO_Data" where
  "start_node nodeId d = put_NMTable nodeId Operational (snd (masterSendNMTstateChange nodeId NMT_Start_Node d))"

text \<open>The start of the byte string of a node: the pointer stored in the subentry.\<close>

definition dcf_table :: "nat \<Rightarrow> UNS8 \<Rightarrow> CO_Data \<Rightarrow> addr" where
  "dcf_table i nodeId d = unat (rd32 (mem d) (pObject (od_sub d i (unat nodeId))))"

definition init_consise_dcf :: "UNS8 \<Rightarrow> CO_Data \<Rightarrow> UNS8 \<times> CO_Data" where
  "init_consise_dcf nodeId d =
     (let e = map_option fst (scanIndexOD d 0x1F22); d1 = d\<lparr>dcf_odentry := e\<rparr>
      in case e of
          None \<Rightarrow> (0, d1)
        | Some i \<Rightarrow>
            if nodeId > bSubCount (od_entry d1 i) then (0, d1)
            else let d2 = chk (unat nodeId < length (pSubindex (od_entry d1 i))) d1
                 in if ssize (od_sub d2 i (unat nodeId)) = 0 then (0, d2)
                    else (1, d2\<lparr>dcf_cursor := dcf_table i nodeId d2 + 4, dcf_entries_count := 0, dcf_status := DCF_STATUS_INIT\<rparr>))"

definition get_next_DCF_data :: "UNS8 \<Rightarrow> CO_Data \<Rightarrow> dcf_entry_t option \<times> CO_Data" where
  "get_next_DCF_data nodeId d =
     (case dcf_odentry d of
        None \<Rightarrow> (None, d)
      | Some i \<Rightarrow>
          if nodeId > bSubCount (od_entry d i) then (None, d)
          else let d1 = chk (unat nodeId < length (pSubindex (od_entry d i))) d;
                   szData = ssize (od_sub d1 i (unat nodeId));
                   dcf = dcf_table i nodeId d1;
                   nb_entries = rd32 (mem d1) dcf;
                   cur = dcf_cursor d1
               in if cur + 7 < dcf + unat szData \<and> dcf_entries_count d1 < nb_entries
                  then let entry = \<lparr>Index = rd16 (mem d1) cur, Subindex = mem d1 (cur + 2), Size = rd32 (mem d1) (cur + 3), Data = cur + 7\<rparr>
                       in (Some entry, d1\<lparr>dcf_data := Data entry, dcf_size := Size entry,
                             dcf_cursor := cur + 7 + unat (Size entry), dcf_entries_count := dcf_entries_count d1 + 1\<rparr>)
                  else (None, d1))"

text \<open>Both requests ignore the result of the transfer they start; the count of a write is cast to a byte.\<close>

definition write_consise_dcf_next_entry :: "UNS8 \<Rightarrow> CO_Data \<Rightarrow> UNS8 \<times> CO_Data" where
  "write_consise_dcf_next_entry nodeId d =
     (case get_next_DCF_data nodeId d of
        (None, d1) \<Rightarrow> (0, d1)
      | (Some e, d1) \<Rightarrow>
          (let n = ucast (ucast (Size e) :: UNS8) :: UNS32
           in (1, snd (writeNetworkDictCallBackAI nodeId (Index e) (Subindex e) n 0 (rd_bytes (mem d1) (Data e) (unat n))
                    (Some CheckSDOAndContinue_cb) False False d1))))"

definition read_consise_dcf_next_entry :: "UNS8 \<Rightarrow> CO_Data \<Rightarrow> UNS8 \<times> CO_Data" where
  "read_consise_dcf_next_entry nodeId d =
     (case get_next_DCF_data nodeId d of
        (None, d1) \<Rightarrow> (0, d1)
      | (Some e, d1) \<Rightarrow>
          (1, snd (readNetworkDictCallbackAI nodeId (Index e) (Subindex e) 0 (Some CheckSDOAndContinue_cb) False d1)))"

definition check_and_start_node :: "UNS8 \<Rightarrow> CO_Data \<Rightarrow> UNS8 \<times> CO_Data" where
  "check_and_start_node nodeId d =
     (if dcf_status d \<noteq> DCF_STATUS_INIT then (0, d)
      else let (r1, d1) = init_consise_dcf nodeId d
           in if r1 = 0 then (1, start_node nodeId d1)
              else let (r2, d2) = read_consise_dcf_next_entry nodeId d1
                   in if r2 = 0 then (1, start_node nodeId d2)
                      else (2, d2\<lparr>dcf_status := DCF_STATUS_READ_CHECK\<rparr>))"

fun seek_nodes :: "nat list \<Rightarrow> CO_Data \<Rightarrow> CO_Data" where
  "seek_nodes [] d = snd (setState Operational d)"
| "seek_nodes (node # nodes) d =
     (if NMTable d ! node \<noteq> Initialisation then seek_nodes nodes d
      else let (r, d1) = check_and_start_node (of_nat node) d
           in if r = 2 then d1 else seek_nodes nodes d1)"

definition start_and_seek_node :: "UNS8 \<Rightarrow> CO_Data \<Rightarrow> CO_Data" where
  "start_and_seek_node nodeId d = seek_nodes [0..<NMT_MAX_NODE_ID] (start_node nodeId d)"

definition SaveNode :: "UNS8 \<Rightarrow> CO_Data \<Rightarrow> CO_Data" where
  "SaveNode nodeId d =
     snd (writeNetworkDictCallBackAI nodeId 0x1010 1 4 0 (bytes32 0x65766173) (Some CheckSDOAndContinue_cb) False False d)"

definition dcferror :: "UNS8 \<Rightarrow> CO_Data \<Rightarrow> CO_Data" where
  "dcferror nodeId d = put_NMTable nodeId Unknown_state d"

definition CheckSDOAndContinue :: "UNS8 \<Rightarrow> CO_Data \<Rightarrow> CO_Data" where
  "CheckSDOAndContinue nodeId d =
     (if dcf_status d = DCF_STATUS_READ_CHECK then
        (let (r, d1) = getReadResultNetworkDict nodeId 4 d
         in if rr_status r \<noteq> SDO_FINISHED then dcferror nodeId d1
            else if rr_size r = dcf_size d1 \<and> rr_data r = rd_bytes (mem d1) (dcf_data d1) (unat (rr_size r)) then
              (let (r2, d2) = read_consise_dcf_next_entry nodeId d1
               in if r2 = 0 then start_and_seek_node nodeId d2 else d2)
            else
              (let (r2, d2) = init_consise_dcf nodeId d1
               in if r2 = 0 then dcferror nodeId d2
                  else let (r3, d3) = write_consise_dcf_next_entry nodeId d2
                       in if r3 = 0 then dcferror nodeId d3 else d3\<lparr>dcf_status := DCF_STATUS_WRITE\<rparr>))
      else if dcf_status d = DCF_STATUS_WRITE then
        (let (st, abort, d1) = getWriteResultNetworkDict nodeId d
         in if st \<noteq> SDO_FINISHED then dcferror nodeId d1
            else let (r, d2) = write_consise_dcf_next_entry nodeId d1
                 in if r = 0 then start_and_seek_node nodeId (d2\<lparr>dcf_status := DCF_STATUS_INIT\<rparr>) else d2)
      else if dcf_status d = DCF_STATUS_SAVED then
        (let (st, abort, d1) = getWriteResultNetworkDict nodeId d
         in if st \<noteq> SDO_FINISHED then dcferror nodeId d1
            else put_NMTable nodeId Unknown_state
                   ((snd (masterSendNMTstateChange nodeId NMT_Reset_Node d1))\<lparr>dcf_status := DCF_STATUS_INIT\<rparr>))
      else d)"

definition run_sdo_cb :: "sdo_cb option \<Rightarrow> UNS8 \<Rightarrow> CO_Data \<Rightarrow> CO_Data" where
  "run_sdo_cb cb nodeId d = (case cb of None \<Rightarrow> d | Some CheckSDOAndContinue_cb \<Rightarrow> CheckSDOAndContinue nodeId d)"

section \<open>The node invariant\<close>

lemma sdo_ok_dcf [simp]:
  "sdo_ok (d\<lparr>dcf_odentry := a\<rparr>) = sdo_ok d" "sdo_ok (d\<lparr>dcf_cursor := b\<rparr>) = sdo_ok d" "sdo_ok (d\<lparr>dcf_status := s\<rparr>) = sdo_ok d"
  "sdo_ok (d\<lparr>dcf_entries_count := c\<rparr>) = sdo_ok d" "sdo_ok (d\<lparr>dcf_size := n\<rparr>) = sdo_ok d" "sdo_ok (d\<lparr>dcf_data := b\<rparr>) = sdo_ok d"
  by (simp_all add: sdo_ok_def)

lemma sdo_ok_put_NMTable [simp]: "sdo_ok d \<Longrightarrow> sdo_ok (put_NMTable n s d)"
proof -
  assume ok: "sdo_ok d"
  have "transfers (put_NMTable n s d) = transfers d" by (simp add: put_NMTable_def)
  then show ?thesis using sdo_ok_same [OF ok put_NMTable_node_ok [OF sdo_ok_node [OF ok]]] by blast
qed

lemma dcf_steps_sdo_ok [simp]:
  assumes ok: "sdo_ok d"
  shows "sdo_ok (start_node n d)" "sdo_ok (snd (init_consise_dcf n d))" "sdo_ok (snd (get_next_DCF_data n d))"
    "sdo_ok (snd (write_consise_dcf_next_entry n d))" "sdo_ok (snd (read_consise_dcf_next_entry n d))"
    "sdo_ok (dcferror n d)" "sdo_ok (SaveNode n d)"
proof -
  show "sdo_ok (start_node n d)" using ok by (simp add: start_node_def masterSendNMTstateChange_def)
  show "sdo_ok (snd (init_consise_dcf n d))" using ok by (simp add: init_consise_dcf_def Let_def split: option.split)
  show next': "sdo_ok (snd (get_next_DCF_data n d))" using ok by (simp add: get_next_DCF_data_def Let_def split: option.split)
  show "sdo_ok (snd (write_consise_dcf_next_entry n d))" "sdo_ok (snd (read_consise_dcf_next_entry n d))"
    using next' by (auto simp: write_consise_dcf_next_entry_def read_consise_dcf_next_entry_def Let_def
        split: prod.split option.split)
  show "sdo_ok (dcferror n d)" "sdo_ok (SaveNode n d)" using ok by (simp_all add: dcferror_def SaveNode_def)
qed

lemma check_and_start_node_sdo_ok [simp]: "sdo_ok d \<Longrightarrow> sdo_ok (snd (check_and_start_node n d))"
  by (simp add: check_and_start_node_def Let_def split_beta)

lemma seek_nodes_sdo_ok [simp]: "sdo_ok d \<Longrightarrow> sdo_ok (seek_nodes ns d)"
  by (induction ns arbitrary: d) (simp_all add: Let_def split_beta)

lemma CheckSDOAndContinue_sdo_ok [simp]: "sdo_ok d \<Longrightarrow> sdo_ok (CheckSDOAndContinue n d)"
  by (simp add: CheckSDOAndContinue_def start_and_seek_node_def Let_def split_beta masterSendNMTstateChange_def)

lemma run_sdo_cb_sdo_ok [simp]: "sdo_ok d \<Longrightarrow> sdo_ok (run_sdo_cb cb n d)"
  by (simp add: run_sdo_cb_def split: option.split sdo_cb.split)

section \<open>The walk over a configuration\<close>

text \<open>The concise format: the number of entries, then index, subindex, length and bytes of each.\<close>

type_synonym dcf_item = "UNS16 \<times> UNS8 \<times> UNS8 list"

fun dcf_item_bytes :: "dcf_item \<Rightarrow> UNS8 list" where
  "dcf_item_bytes (i, s, bs) = bytes16 i @ [s] @ bytes32 (of_nat (length bs)) @ bs"

definition dcf_bytes :: "dcf_item list \<Rightarrow> UNS8 list" where
  "dcf_bytes es = bytes32 (of_nat (length es)) @ concat (map dcf_item_bytes es)"

text \<open>The entries that repeated calls of \<open>get_next_DCF_data\<close> deliver, at most \<open>k\<close> of them.\<close>

fun dcf_walk :: "nat \<Rightarrow> UNS8 \<Rightarrow> CO_Data \<Rightarrow> dcf_item list" where
  "dcf_walk 0 n d = []"
| "dcf_walk (Suc k) n d =
     (case get_next_DCF_data n d of
        (None, d') \<Rightarrow> []
      | (Some e, d') \<Rightarrow> (Index e, Subindex e, rd_bytes (mem d') (Data e) (unat (Size e))) # dcf_walk k n d')"

lemma rd_bytes_split: "rd_bytes m a (length xs + length ys) = xs @ ys \<longleftrightarrow> rd_bytes m a (length xs) = xs \<and> rd_bytes m (a + length xs) (length ys) = ys"
proof -
  have "rd_bytes m a (length xs + length ys) = rd_bytes m a (length xs) @ rd_bytes m (a + length xs) (length ys)"
    by (rule nth_equalityI) (auto simp: nth_append add.assoc)
  then show ?thesis by simp
qed

lemma rd16_rd_bytes: "rd_bytes m a 2 = bytes16 v \<Longrightarrow> rd16 m a = v"
proof -
  assume r: "rd_bytes m a 2 = bytes16 v"
  have "m a = bytes16 v ! 0" "m (a + 1) = bytes16 v ! 1" unfolding r [symmetric] by simp_all
  then show ?thesis by (simp add: rd16_def bytes16_def)
qed

lemma rd32_rd_bytes32: "rd_bytes m a 4 = bytes32 v \<Longrightarrow> rd32 m a = v"
proof -
  assume r: "rd_bytes m a 4 = bytes32 v"
  have "m a = bytes32 v ! 0" "m (a + 1) = bytes32 v ! 1" "m (a + 2) = bytes32 v ! 2" "m (a + 3) = bytes32 v ! 3"
    unfolding r [symmetric] by simp_all
  then show ?thesis by (simp add: rd32_def bytes32_def)
qed

lemma rd_item:
  assumes "rd_bytes m c (length (dcf_item_bytes (ix, sx, bs))) = dcf_item_bytes (ix, sx, bs)"
  shows "rd16 m c = ix" "m (c + 2) = sx" "rd32 m (c + 3) = of_nat (length bs)" "rd_bytes m (c + 7) (length bs) = bs"
proof -
  let ?l = "bytes32 (of_nat (length bs))"
  have "rd_bytes m c (length (bytes16 ix) + length ([sx] @ ?l @ bs)) = bytes16 ix @ [sx] @ ?l @ bs" using assms by simp
  note 0 = iffD1 [OF rd_bytes_split this]
  then have 1: "rd_bytes m c 2 = bytes16 ix" "rd_bytes m (c + 2) (length [sx] + length (?l @ bs)) = [sx] @ ?l @ bs" by simp_all
  from iffD1 [OF rd_bytes_split 1(2)]
  have 2: "rd_bytes m (c + 2) 1 = [sx]" "rd_bytes m (c + 3) (length ?l + length bs) = ?l @ bs" by (simp_all add: numeral_3_eq_3)
  from iffD1 [OF rd_bytes_split 2(2)] have 3: "rd_bytes m (c + 3) 4 = ?l" "rd_bytes m (c + 7) (length bs) = bs"
    by (simp_all add: add.assoc)
  show "m (c + 2) = sx" using 2(1) by (simp add: rd_bytes_def)
  show "rd16 m c = ix" by (rule rd16_rd_bytes [OF 1(1)])
  show "rd32 m (c + 3) = of_nat (length bs)" by (rule rd32_rd_bytes32 [OF 3(1)])
  show "rd_bytes m (c + 7) (length bs) = bs" by (rule 3(2))
qed

text \<open>The configuration of node \<open>n\<close> is subentry \<open>n\<close> of table entry \<open>i\<close>, its bytes start at \<open>T\<close> and end before \<open>E\<close>.\<close>

definition dcf_at :: "nat \<Rightarrow> UNS8 \<Rightarrow> addr \<Rightarrow> addr \<Rightarrow> CO_Data \<Rightarrow> bool" where
  "dcf_at i n T E d \<longleftrightarrow> n \<le> bSubCount (od_entry d i) \<and> unat n < length (pSubindex (od_entry d i))
     \<and> dcf_table i n d = T \<and> E = T + unat (ssize (od_sub d i (unat n)))"

lemma dcf_at_upd [simp]:
  "dcf_at i n T E (d\<lparr>dcf_data := a\<rparr>) = dcf_at i n T E d" "dcf_at i n T E (d\<lparr>dcf_size := z\<rparr>) = dcf_at i n T E d"
  "dcf_at i n T E (d\<lparr>dcf_cursor := a\<rparr>) = dcf_at i n T E d" "dcf_at i n T E (d\<lparr>dcf_entries_count := z\<rparr>) = dcf_at i n T E d"
  "dcf_at i n T E (d\<lparr>dcf_odentry := e\<rparr>) = dcf_at i n T E d" "dcf_at i n T E (d\<lparr>dcf_status := b\<rparr>) = dcf_at i n T E d"
  by (simp_all add: dcf_at_def dcf_table_def od_entry_def od_sub_def)

lemma get_next_at:
  assumes "dcf_at i n T E d" "dcf_odentry d = Some i"
  shows "get_next_DCF_data n d =
    (if dcf_cursor d + 7 < E \<and> dcf_entries_count d < rd32 (mem d) T
     then (Some \<lparr>Index = rd16 (mem d) (dcf_cursor d), Subindex = mem d (dcf_cursor d + 2), Size = rd32 (mem d) (dcf_cursor d + 3),
             Data = dcf_cursor d + 7\<rparr>,
           d\<lparr>dcf_data := dcf_cursor d + 7, dcf_size := rd32 (mem d) (dcf_cursor d + 3),
             dcf_cursor := dcf_cursor d + 7 + unat (rd32 (mem d) (dcf_cursor d + 3)), dcf_entries_count := dcf_entries_count d + 1\<rparr>)
     else (None, d))"
proof -
  have "\<not> bSubCount (od_entry d i) < n" using assms(1) by (simp add: dcf_at_def leD)
  with assms show ?thesis by (simp add: get_next_DCF_data_def dcf_at_def Let_def)
qed

lemma dcf_walk_from:
  assumes "dcf_at i n T E d" "dcf_odentry d = Some i"
    "rd_bytes (mem d) (dcf_cursor d) (length (concat (map dcf_item_bytes es))) = concat (map dcf_item_bytes es)"
    "E = dcf_cursor d + length (concat (map dcf_item_bytes es))"
    "unat (dcf_entries_count d) + length es = unat (rd32 (mem d) T)"
    "\<forall>(ix, sx, bs) \<in> set es. bs \<noteq> [] \<and> length bs < 2 ^ 32"
  shows "dcf_walk (Suc (length es)) n d = es"
  using assms
proof (induction es arbitrary: d)
  case Nil
  then show ?case by (simp add: get_next_at)
next
  case (Cons e es)
  obtain ix sx bs where e: "e = (ix, sx, bs)" by (cases e)
  let ?c = "dcf_cursor d" and ?rest = "concat (map dcf_item_bytes es)" and ?n = "unat (rd32 (mem d) (dcf_cursor d + 3))"
  have item: "rd_bytes (mem d) ?c (length (dcf_item_bytes e)) = dcf_item_bytes e"
      "rd_bytes (mem d) (?c + length (dcf_item_bytes e)) (length ?rest) = ?rest"
    using Cons.prems(3) rd_bytes_split [of "mem d" ?c "dcf_item_bytes e" ?rest] by simp_all
  note r = rd_item [OF item(1) [unfolded e]]
  have bs: "bs \<noteq> []" "length bs < 2 ^ 32" using Cons.prems(6) by (simp_all add: e)
  then have n: "?n = length bs" unfolding r(3) by (simp add: unsigned_of_nat take_bit_nat_eq_self)
  have room: "?c + 7 < E" using Cons.prems(4) bs(1) by (simp add: e)
  have lt: "dcf_entries_count d < rd32 (mem d) T" using Cons.prems(5) by (simp add: word_less_nat_alt)
  have "dcf_entries_count d + 1 = of_nat (unat (dcf_entries_count d) + 1)" by simp
  then have suc: "unat (dcf_entries_count d + 1) = unat (dcf_entries_count d) + 1"
    using unsigned_less [of "rd32 (mem d) T", where ?'a = nat] Cons.prems(5)
    by (simp only: unsigned_of_nat) (simp add: take_bit_nat_eq_self)
  let ?d' = "d\<lparr>dcf_data := ?c + 7, dcf_size := rd32 (mem d) (?c + 3), dcf_cursor := ?c + 7 + ?n, dcf_entries_count := dcf_entries_count d + 1\<rparr>"
  have cur: "?c + 7 + ?n = ?c + length (dcf_item_bytes e)" using n by (simp add: e)
  have "dcf_walk (Suc (length es)) n ?d' = es"
    by (rule Cons.IH) (use Cons.prems item cur suc in \<open>simp_all add: add.assoc\<close>)
  then show ?case using get_next_at [OF Cons.prems(1,2)] room lt r n by (simp add: e)
qed

text \<open>C33: walking a concise configuration decodes it. If entry 1F22h has for node \<open>n\<close> the encoding of a list of
  items with data, then \<open>init_consise_dcf\<close> succeeds and the calls of \<open>get_next_DCF_data\<close> deliver exactly
  these items in order and then nothing more.\<close>

theorem dcf_walk_decodes:
  assumes scan: "scanIndexOD d 0x1F22 = Some (i, h)" and at: "dcf_at i n T (T + length (dcf_bytes es)) d"
    and bytes: "rd_bytes (mem d) T (length (dcf_bytes es)) = dcf_bytes es" and len: "length es < 2 ^ 32"
    and items: "\<forall>(ix, sx, bs) \<in> set es. bs \<noteq> [] \<and> length bs < 2 ^ 32"
  shows "fst (init_consise_dcf n d) = 1 \<and> dcf_walk (Suc (length es)) n (snd (init_consise_dcf n d)) = es"
proof -
  let ?d = "d\<lparr>dcf_odentry := Some i, dcf_cursor := T + 4, dcf_entries_count := 0, dcf_status := DCF_STATUS_INIT\<rparr>"
  have "ssize (od_sub d i (unat n)) \<noteq> 0" using at by (auto simp: dcf_at_def dcf_bytes_def)
  moreover have "\<not> bSubCount (od_entry d i) < n" using at by (simp add: dcf_at_def leD)
  ultimately have init: "init_consise_dcf n d = (1, ?d)"
    using scan at by (simp add: init_consise_dcf_def dcf_at_def Let_def dcf_table_def od_entry_def od_sub_def)
  let ?c = "concat (map dcf_item_bytes es)"
  have "rd_bytes (mem d) T (length (bytes32 (of_nat (length es))) + length ?c) = bytes32 (of_nat (length es)) @ ?c"
    using bytes by (simp add: dcf_bytes_def)
  from iffD1 [OF rd_bytes_split this]
  have r: "rd_bytes (mem d) T 4 = bytes32 (of_nat (length es))" "rd_bytes (mem d) (T + 4) (length ?c) = ?c" by simp_all
  have "unat (rd32 (mem d) T) = length es"
    unfolding rd32_rd_bytes32 [OF r(1)] using len by (simp add: unsigned_of_nat take_bit_nat_eq_self)
  then have "dcf_walk (Suc (length es)) n ?d = es"
    by (intro dcf_walk_from [where i = i and T = T and E = "T + length (dcf_bytes es)"]) (use at r items in \<open>simp_all add: dcf_bytes_def\<close>)
  with init show ?thesis by simp
qed

section \<open>What an ending transfer leaves behind\<close>

text \<open>A search that starts while a check is in progress visits no node.\<close>

lemma seek_nodes_busy: "dcf_status d \<noteq> DCF_STATUS_INIT \<Longrightarrow> seek_nodes ns d = snd (setState Operational d)"
  by (induction ns) (simp_all add: check_and_start_node_def)

text \<open>A slave whose configuration was found correct ends the search. When the last object of a slave matches,
  the master starts that slave and goes to Operational at once, without looking at the other slaves that
  wait in the state Initialisation, because the status of the check is not reset; a rewritten configuration does
  reset it.\<close>

theorem correct_slave_ends_search:
  assumes st: "dcf_status d = DCF_STATUS_READ_CHECK" and r: "getReadResultNetworkDict n 4 d = (r, d1)" "rr_status r = SDO_FINISHED"
    and same: "rr_size r = dcf_size d1" "rr_data r = rd_bytes (mem d1) (dcf_data d1) (unat (rr_size r))"
    and last': "get_next_DCF_data n d1 = (None, d2)"
  shows "CheckSDOAndContinue n d = snd (setState Operational (start_node n d2))"
proof -
  have upd: "dcf_status (upd_line l f e) = dcf_status e" for l f e by (simp add: upd_line_def chk_def)
  have reset: "dcf_status (resetSDOline l e) = dcf_status e" for l e
    by (simp add: resetSDOline_def initSDOline_def Let_def upd StartSDO_TIMER_def StopSDO_TIMER_def split_beta)
  have "dcf_status (snd (getReadResultNetworkDict n 4 d)) = dcf_status d"
    by (simp add: getReadResultNetworkDict_def Let_def upd reset chk_def split: option.split)
  then have "dcf_status d1 = DCF_STATUS_READ_CHECK" using r st by simp
  moreover have "dcf_status (snd (get_next_DCF_data n d1)) = dcf_status d1"
    by (simp add: get_next_DCF_data_def Let_def chk_def split: option.split)
  ultimately have "dcf_status (start_node n d2) \<noteq> DCF_STATUS_INIT"
    using last' by (simp add: start_node_def put_NMTable_def chk_def masterSendNMTstateChange_def canSend_def emit_def)
  then show ?thesis
    using st r same last' by (simp add: CheckSDOAndContinue_def read_consise_dcf_next_entry_def start_and_seek_node_def seek_nodes_busy)
qed

text \<open>C37: a configuration transfer that the slave aborts keeps its line. After the callback has marked the
  slave as unknown, the line still carries the aborted transfer, and every new transfer to that
  slave is refused: the build has one line, and nothing but a reset of the SDO service frees it.\<close>

theorem aborted_dcf_blocks_slave:
  assumes c: "GetSDOClientFromNodeId n d < 0xFE" and line: "getSDOlineOnUse (GetSDOClientFromNodeId n d) SDO_CLIENT d = Some line"
    and ab: "state (tr d line) = SDO_ABORTED_RCV" and st: "dcf_status d \<in> {DCF_STATUS_READ_CHECK, DCF_STATUS_WRITE}"
  shows "NMTable (CheckSDOAndContinue n d) = (NMTable d)[unat n := Unknown_state]
    \<and> fst (do_readNetworkDict n i s ty cb blk (CheckSDOAndContinue n d)) = 0xFF
    \<and> fst (do_writeNetworkDict n i s sz ty bs cb en blk (CheckSDOAndContinue n d)) = 0xFF"
proof -
  have nc: "\<not> 0xFE \<le> GetSDOClientFromNodeId n d" using c by (simp add: not_le)
  have e: "CheckSDOAndContinue n d = dcferror n d"
    using st nc line ab by (auto simp: CheckSDOAndContinue_def getReadResultNetworkDict_def getWriteResultNetworkDict_def Let_def)
  have "client_scan n ns k (dcferror n d) = client_scan n ns k d" for ns k
    by (induction ns arbitrary: k) (simp_all add: dcferror_def put_NMTable_def chk_def od_entry_def od_u8_def od_sub_def)
  moreover have "cfg (dcferror n d) = cfg d" by (simp add: dcferror_def put_NMTable_def chk_def)
  ultimately have "GetSDOClientFromNodeId n (dcferror n d) = GetSDOClientFromNodeId n d"
    by (simp add: GetSDOClientFromNodeId_def client_entries_def)
  moreover have "getSDOlineOnUse k w (dcferror n d) = getSDOlineOnUse k w d" for k w
    by (simp add: getSDOlineOnUse_def dcferror_def put_NMTable_def)
  moreover have "NMTable (dcferror n d) = (NMTable d)[unat n := Unknown_state]" by (simp add: dcferror_def put_NMTable_def chk_def)
  ultimately show ?thesis using e nc line by (simp add: do_readNetworkDict_def do_writeNetworkDict_def Let_def)
qed

end
