(* ===== verification/SdoProtocol.thy ===== *)
theory SdoProtocol
  imports Dcf
begin

text \<open>
  The SDO protocol machine, \<open>proceedSDO\<close> and the timeout of \<^verbatim>\<open>CanFestival/src/sdo.c\<close>: finding out whether a frame
  addresses a server or a client entry of this node, and the reaction to each command specifier on both sides, for
  expedited, segmented and block transfers. One definition per case of the switch and side; what several cases
  write out alike is a helper. A line that the search did not find is \<open>None\<close>; where the source goes on with the
  uninitialised number, the fault flag is set. The loop that sends a block is fuelled, and
  \<open>None\<close> is the fuel running out.
  Shown here: every frame keeps the lines within their buffers, and the loop ends.
\<close>

section \<open>Operations\<close>

abbreviation (input) SDO_BCS_INITIATE_UPLOAD_REQUEST :: UNS8 where "SDO_BCS_INITIATE_UPLOAD_REQUEST \<equiv> 0"
abbreviation (input) SDO_BCS_END_UPLOAD_REQUEST :: UNS8 where "SDO_BCS_END_UPLOAD_REQUEST \<equiv> 1"
abbreviation (input) SDO_BCS_UPLOAD_RESPONSE :: UNS8 where "SDO_BCS_UPLOAD_RESPONSE \<equiv> 2"
abbreviation (input) SDO_BSS_INITIATE_UPLOAD_RESPONSE :: UNS8 where "SDO_BSS_INITIATE_UPLOAD_RESPONSE \<equiv> 0"
abbreviation (input) SDO_BSS_END_UPLOAD_RESPONSE :: UNS8 where "SDO_BSS_END_UPLOAD_RESPONSE \<equiv> 1"
abbreviation (input) SDO_BCS_INITIATE_DOWNLOAD_REQUEST :: UNS8 where "SDO_BCS_INITIATE_DOWNLOAD_REQUEST \<equiv> 0"
abbreviation (input) SDO_BCS_END_DOWNLOAD_REQUEST :: UNS8 where "SDO_BCS_END_DOWNLOAD_REQUEST \<equiv> 1"
abbreviation (input) SDO_BSS_INITIATE_DOWNLOAD_RESPONSE :: UNS8 where "SDO_BSS_INITIATE_DOWNLOAD_RESPONSE \<equiv> 0"
abbreviation (input) SDO_BSS_END_DOWNLOAD_RESPONSE :: UNS8 where "SDO_BSS_END_DOWNLOAD_RESPONSE \<equiv> 1"
abbreviation (input) SDO_BSS_DOWNLOAD_RESPONSE :: UNS8 where "SDO_BSS_DOWNLOAD_RESPONSE \<equiv> 2"

definition SDOTimeoutAlarm :: "UNS32 \<Rightarrow> CO_Data \<Rightarrow> CO_Data" where
  "SDOTimeoutAlarm id' d =
     (let line = unat id'; t = tr d line; first = SDO_CLT (firstIndex (cfg d)); pos = unat first + unat (CliServNbr t)
      in if first = 0 \<or> pos > unat (SDO_CLT (lastIndex (cfg d))) then d
         else let nodeId = ucast (od_u32 d pos 3);
                  d1 = upd_line line (\<lambda>t. t\<lparr>timer := TIMER_NONE, state := SDO_ABORTED_INTERNAL\<rparr>) d;
                  d2 = snd (sendSDOabort (whoami t) (CliServNbr t) (index t) (subIndex t) SDOABT_TIMED_OUT d1);
                  d3 = upd_line line (\<lambda>t. t\<lparr>abortCode := SDOABT_TIMED_OUT\<rparr>) d2;
                  d4 = run_sdo_cb (Callback (tr d3 line)) nodeId d3
              in if abortCode (tr d4 line) = SDOABT_TIMED_OUT then resetSDOline line d4 else d4)"

text \<open>To whom a frame is addressed: no one here, a server entry, or a client entry with the id of its server.\<close>

datatype sdo_role = SDO_malformed | SDO_not_for_us | SDO_for_server UNS8 | SDO_for_client UNS8 UNS8

fun server_scan :: "UNS16 \<Rightarrow> nat list \<Rightarrow> UNS8 \<Rightarrow> CO_Data \<Rightarrow> sdo_role" where
  "server_scan cob [] j d = SDO_not_for_us"
| "server_scan cob (off # offs) j d =
     (if bSubCount (od_entry d off) \<le> 1 then SDO_malformed
      else if od_u32 d off 1 = ucast cob then SDO_for_server j
      else server_scan cob offs (j + 1) d)"

fun client_cob_scan :: "UNS16 \<Rightarrow> nat list \<Rightarrow> UNS8 \<Rightarrow> CO_Data \<Rightarrow> sdo_role" where
  "client_cob_scan cob [] j d = SDO_not_for_us"
| "client_cob_scan cob (off # offs) j d =
     (if bSubCount (od_entry d off) \<le> 3 then SDO_malformed
      else if od_u32 d off 2 = ucast cob then SDO_for_client j (od_u8 d off 3)
      else client_cob_scan cob offs (j + 1) d)"

definition server_entries :: "CO_Data \<Rightarrow> nat list" where
  "server_entries d = [unat (SDO_SVR (firstIndex (cfg d)))..<unat (SDO_SVR (lastIndex (cfg d))) + 1]"

definition sdo_role_of :: "UNS16 \<Rightarrow> CO_Data \<Rightarrow> sdo_role" where
  "sdo_role_of cob d =
     (let r = (if SDO_SVR (firstIndex (cfg d)) = 0 then SDO_not_for_us else server_scan cob (server_entries d) 0 d)
      in if r \<noteq> SDO_not_for_us then r
         else if SDO_CLT (firstIndex (cfg d)) = 0 then SDO_not_for_us
         else client_cob_scan cob (client_entries d) 0 d)"

definition sdo_fail :: "UNS8 \<Rightarrow> UNS8 \<Rightarrow> UNS16 \<Rightarrow> UNS8 \<Rightarrow> UNS32 \<Rightarrow> CO_Data \<Rightarrow> UNS8 \<times> CO_Data" where
  "sdo_fail c w i s abort d = (0xFF, snd (failedSDO c w i s abort d))"

text \<open>The opening of the cases that need a transfer in a given state.\<close>

definition on_line :: "UNS8 \<Rightarrow> UNS8 \<Rightarrow> nat option \<Rightarrow> UNS8 \<Rightarrow> (nat \<Rightarrow> CO_Data \<Rightarrow> UNS8 \<times> CO_Data) \<Rightarrow> CO_Data \<Rightarrow> UNS8 \<times> CO_Data" where
  "on_line c w l st k d =
     (case l of
        None \<Rightarrow> sdo_fail c w 0 0 SDOABT_LOCAL_CTRL_ERROR d
      | Some line \<Rightarrow> if state (tr d line) \<noteq> st then sdo_fail c w 0 0 SDOABT_LOCAL_CTRL_ERROR d else k line d)"

definition on_toggle :: "UNS8 \<Rightarrow> UNS8 \<Rightarrow> nat \<Rightarrow> UNS8 \<Rightarrow> (CO_Data \<Rightarrow> UNS8 \<times> CO_Data) \<Rightarrow> CO_Data \<Rightarrow> UNS8 \<times> CO_Data" where
  "on_toggle c w line b0 k d =
     (if ttoggle (tr d line) \<noteq> getSDOt b0
      then sdo_fail c w (index (tr d line)) (subIndex (tr d line)) SDOABT_TOGGLE_NOT_ALTERNED d
      else k d)"

definition flip_toggle :: "nat \<Rightarrow> CO_Data \<Rightarrow> CO_Data" where
  "flip_toggle line d = upd_line line (\<lambda>t. t\<lparr>ttoggle := (if ttoggle t = 0 then 1 else 0)\<rparr>) d"

text \<open>The opening of the cases in which a server starts a transfer.\<close>

definition open_server ::
    "UNS8 \<Rightarrow> nat option \<Rightarrow> UNS16 \<Rightarrow> UNS8 \<Rightarrow> UNS8 \<Rightarrow> (nat \<Rightarrow> CO_Data \<Rightarrow> UNS8 \<times> CO_Data) \<Rightarrow> CO_Data \<Rightarrow> UNS8 \<times> CO_Data" where
  "open_server c l i s st k d =
     (if l \<noteq> None then sdo_fail c SDO_SERVER i s SDOABT_LOCAL_CTRL_ERROR d
      else case getSDOfreeLine SDO_SERVER d of
          (None, d0) \<Rightarrow> sdo_fail c SDO_SERVER i s SDOABT_LOCAL_CTRL_ERROR d0
        | (Some line, d0) \<Rightarrow> k line (initSDOline line c i s st d0))"

text \<open>How a client transfer ends: the watchdog stops, the line is marked and the callback runs.\<close>

definition end_client :: "nat \<Rightarrow> (s_transfer \<Rightarrow> s_transfer) \<Rightarrow> UNS8 \<Rightarrow> CO_Data \<Rightarrow> UNS8 \<times> CO_Data" where
  "end_client line mark nodeId d =
     (let d1 = upd_line line mark (StopSDO_TIMER line d)
      in (0, run_sdo_cb (Callback (tr d1 line)) nodeId d1))"

definition reply :: "UNS8 \<Rightarrow> UNS8 \<Rightarrow> UNS8 list \<Rightarrow> CO_Data \<Rightarrow> UNS8 \<times> CO_Data" where
  "reply w c bytes d = (0, snd (sendSDO w c (bytes @ replicate (8 - length bytes) 0) d))"

text \<open>The next segment of a line: command byte and data.\<close>

definition next_segment :: "nat \<Rightarrow> UNS32 \<Rightarrow> CO_Data \<Rightarrow> UNS8 \<times> UNS8 list \<times> CO_Data" where
  "next_segment line nbBytes d =
     (let t = ttoggle (tr d line)
      in if nbBytes > 7 then (let (err, bs, d1) = lineToSDO line 7 d in (err, push_bit 4 t # bs, d1))
         else (let (err, bs, d1) = lineToSDO line nbBytes d
               in (err, (push_bit 4 t OR push_bit 1 (ucast (7 - nbBytes)) OR 1) # bs, d1)))"

section \<open>Segmented and expedited transfers\<close>

definition download_segment_server :: "UNS8 \<Rightarrow> nat option \<Rightarrow> Message \<Rightarrow> CO_Data \<Rightarrow> UNS8 \<times> CO_Data" where
  "download_segment_server c l m =
     on_line c SDO_SERVER l SDO_DOWNLOAD_IN_PROGRESS (\<lambda>line d0.
       let d1 = RestartSDO_TIMER line d0; b0 = mdata m ! 0; i = index (tr d1 line); s = subIndex (tr d1 line)
       in on_toggle c SDO_SERVER line b0 (\<lambda>d1.
            let (err, d2) = SDOtoLine line (7 - ucast (getSDOn3 b0)) (drop 1 (mdata m)) d1
            in if err \<noteq> 0 then sdo_fail c SDO_SERVER i s SDOABT_GENERAL_ERROR d2
               else let d3 = flip_toggle line (snd (reply SDO_SERVER c [0x20 OR push_bit 4 (ttoggle (tr d2 line))] d2))
                    in if getSDOc b0 = 0 then (0, d3)
                       else let (errorCode, d4) = SDOlineToObjdict line d3
                            in if errorCode \<noteq> 0 then sdo_fail c SDO_SERVER i s errorCode d4
                               else (0, resetSDOline line d4)) d1)"

definition upload_segment_client :: "UNS8 \<Rightarrow> UNS8 \<Rightarrow> nat option \<Rightarrow> Message \<Rightarrow> CO_Data \<Rightarrow> UNS8 \<times> CO_Data" where
  "upload_segment_client c nodeId l m =
     on_line c SDO_CLIENT l SDO_UPLOAD_IN_PROGRESS (\<lambda>line d0.
       let d1 = RestartSDO_TIMER line d0; b0 = mdata m ! 0; i = index (tr d1 line); s = subIndex (tr d1 line)
       in on_toggle c SDO_CLIENT line b0 (\<lambda>d1.
            let (err, d2) = SDOtoLine line (7 - ucast (getSDOn3 b0)) (drop 1 (mdata m)) d1
            in if err \<noteq> 0 then sdo_fail c SDO_CLIENT i s SDOABT_GENERAL_ERROR d2
               else let d3 = flip_toggle line d2
                    in if getSDOc b0 \<noteq> 0 then end_client line (\<lambda>t. t\<lparr>state := SDO_FINISHED\<rparr>) nodeId d3
                       else reply SDO_CLIENT c [0x60 OR push_bit 4 (ttoggle (tr d3 line))] d3) d1)"

definition initiate_download_server :: "UNS8 \<Rightarrow> nat option \<Rightarrow> Message \<Rightarrow> CO_Data \<Rightarrow> UNS8 \<times> CO_Data" where
  "initiate_download_server c l m =
     (let b0 = mdata m ! 0; i = getSDOindex (mdata m ! 1) (mdata m ! 2); s = mdata m ! 3;
          respond = reply SDO_SERVER c ([0x60] @ index_bytes i @ [s])
      in open_server c l i s SDO_DOWNLOAD_IN_PROGRESS (\<lambda>line d1.
           if getSDOe b0 \<noteq> 0 then
             (let nbBytes = 4 - ucast (getSDOn2 b0);
                  (err, d2) = SDOtoLine line nbBytes (drop 4 (mdata m)) (upd_line line (\<lambda>t. t\<lparr>count := nbBytes\<rparr>) d1)
              in if err \<noteq> 0 then sdo_fail c SDO_SERVER i s SDOABT_GENERAL_ERROR d2
                 else let (errorCode, d3) = SDOlineToObjdict line d2
                      in if errorCode \<noteq> 0 then sdo_fail c SDO_SERVER i s errorCode d3
                         else respond (resetSDOline line d3))
           else if getSDOs b0 \<noteq> 0 then
             (let (err, d2) = setSDOlineRestBytes line (u32_of (drop 4 (mdata m))) d1
              in if err \<noteq> 0 then sdo_fail c SDO_SERVER i s SDOABT_GENERAL_ERROR d2 else respond d2)
           else respond d1))"

definition download_segment_client :: "UNS8 \<Rightarrow> UNS8 \<Rightarrow> nat option \<Rightarrow> Message \<Rightarrow> CO_Data \<Rightarrow> UNS8 \<times> CO_Data" where
  "download_segment_client c nodeId l m =
     on_line c SDO_CLIENT l SDO_DOWNLOAD_IN_PROGRESS (\<lambda>line d0.
       let d1 = RestartSDO_TIMER line d0; b0 = mdata m ! 0; i = index (tr d1 line); s = subIndex (tr d1 line)
       in on_toggle c SDO_CLIENT line b0 (\<lambda>d1.
            let nbBytes = getSDOlineRestBytes line d1
            in if nbBytes = 0 then end_client line (\<lambda>t. t\<lparr>state := SDO_FINISHED\<rparr>) nodeId d1
               else let (err, bytes, d2) = next_segment line nbBytes (flip_toggle line d1)
                    in if err \<noteq> 0 then sdo_fail c SDO_CLIENT i s SDOABT_GENERAL_ERROR d2
                       else reply SDO_CLIENT c bytes d2) d1)"

definition initiate_upload_server :: "UNS8 \<Rightarrow> nat option \<Rightarrow> Message \<Rightarrow> CO_Data \<Rightarrow> UNS8 \<times> CO_Data" where
  "initiate_upload_server c l m =
     (let i = getSDOindex (mdata m ! 1) (mdata m ! 2); s = mdata m ! 3
      in open_server c l i s SDO_UPLOAD_IN_PROGRESS (\<lambda>line d1.
           let (errorCode, d2) = objdictToSDOline line d1
           in if errorCode \<noteq> 0 then sdo_fail c SDO_SERVER i s errorCode d2
              else let nbBytes = getSDOlineRestBytes line d2
                   in if nbBytes > 4 then reply SDO_SERVER c ([0x41] @ index_bytes i @ [s] @ bytes32 nbBytes) d2
                      else let (err, bs, d3) = lineToSDO line nbBytes d2
                           in if err \<noteq> 0 then sdo_fail c SDO_SERVER i s SDOABT_GENERAL_ERROR d3
                              else (0, resetSDOline line (snd (reply SDO_SERVER c
                                     ([0x40 OR push_bit 2 (ucast (4 - nbBytes)) OR 3] @ index_bytes i @ [s] @ bs) d3)))))"

definition initiate_upload_client :: "UNS8 \<Rightarrow> UNS8 \<Rightarrow> nat option \<Rightarrow> Message \<Rightarrow> CO_Data \<Rightarrow> UNS8 \<times> CO_Data" where
  "initiate_upload_client c nodeId l m =
     on_line c SDO_CLIENT l SDO_UPLOAD_IN_PROGRESS (\<lambda>line d0.
       let d1 = RestartSDO_TIMER line d0; b0 = mdata m ! 0; i = index (tr d1 line); s = subIndex (tr d1 line)
       in if getSDOe b0 \<noteq> 0 then
            (let nbBytes = 4 - ucast (getSDOn2 b0);
                 (err, d2) = SDOtoLine line nbBytes (drop 4 (mdata m)) d1
             in if err \<noteq> 0 then sdo_fail c SDO_CLIENT i s SDOABT_GENERAL_ERROR d2
                else end_client line (\<lambda>t. t\<lparr>count := nbBytes, state := SDO_FINISHED\<rparr>) nodeId d2)
          else if getSDOs b0 \<noteq> 0 then
            (let (err, d2) = setSDOlineRestBytes line (u32_of (drop 4 (mdata m))) d1
             in if err \<noteq> 0 then sdo_fail c SDO_CLIENT i s SDOABT_GENERAL_ERROR d2
                else reply SDO_CLIENT c [0x60] d2)
          else reply SDO_CLIENT c [0x60] d1)"

definition upload_segment_server :: "UNS8 \<Rightarrow> nat option \<Rightarrow> Message \<Rightarrow> CO_Data \<Rightarrow> UNS8 \<times> CO_Data" where
  "upload_segment_server c l m =
     on_line c SDO_SERVER l SDO_UPLOAD_IN_PROGRESS (\<lambda>line d0.
       let d1 = RestartSDO_TIMER line d0; i = index (tr d1 line); s = subIndex (tr d1 line)
       in on_toggle c SDO_SERVER line (mdata m ! 0) (\<lambda>d1.
            let nbBytes = getSDOlineRestBytes line d1; (err, bytes, d2) = next_segment line nbBytes d1
            in if err \<noteq> 0 then sdo_fail c SDO_SERVER i s SDOABT_GENERAL_ERROR d2
               else if nbBytes > 7 then reply SDO_SERVER c bytes (flip_toggle line d2)
               else (0, resetSDOline line (snd (reply SDO_SERVER c bytes d2)))) d1)"

definition initiate_download_client :: "UNS8 \<Rightarrow> UNS8 \<Rightarrow> nat option \<Rightarrow> Message \<Rightarrow> CO_Data \<Rightarrow> UNS8 \<times> CO_Data" where
  "initiate_download_client c nodeId l m =
     on_line c SDO_CLIENT l SDO_DOWNLOAD_IN_PROGRESS (\<lambda>line d0.
       let d1 = RestartSDO_TIMER line d0; i = index (tr d1 line); s = subIndex (tr d1 line);
           nbBytes = getSDOlineRestBytes line d1
       in if nbBytes = 0 then end_client line (\<lambda>t. t\<lparr>state := SDO_FINISHED\<rparr>) nodeId d1
          else let (err, bytes, d2) = next_segment line nbBytes d1
               in if err \<noteq> 0 then sdo_fail c SDO_CLIENT i s SDOABT_GENERAL_ERROR d2
                  else reply SDO_CLIENT c bytes d2)"

definition abort_received :: "UNS8 \<Rightarrow> UNS8 \<Rightarrow> nat option \<Rightarrow> Message \<Rightarrow> CO_Data \<Rightarrow> UNS8 \<times> CO_Data" where
  "abort_received w nodeId l m d =
     (let code = u32_of (drop 4 (mdata m))
      in case l of
          None \<Rightarrow> (0, d)
        | Some line \<Rightarrow>
            if w = SDO_SERVER then (0, resetSDOline line d)
            else end_client line (\<lambda>t. t\<lparr>state := SDO_ABORTED_RCV, abortCode := code\<rparr>) nodeId d)"

section \<open>Block transfers\<close>

text \<open>
  The loop over the segments of a block. \<open>at\<close> is what the source has in \<open>index\<close> and \<open>subIndex\<close>, \<open>None\<close> on the path on
  which the client never assigns them.
\<close>

fun block_loop :: "nat \<Rightarrow> UNS8 \<Rightarrow> UNS8 \<Rightarrow> (UNS16 \<times> UNS8) option \<Rightarrow> nat \<Rightarrow> UNS8 \<Rightarrow> CO_Data \<Rightarrow> (UNS8 \<times> CO_Data) option" where
  "block_loop 0 c w at line SeqNo d = None"
| "block_loop (Suc fuel) c w at line SeqNo d =
     (if \<not> SeqNo \<le> blksize (tr d line) then Some (0, d)
      else let d1 = upd_line line (\<lambda>t. t\<lparr>seqno := SeqNo\<rparr>) d;
               nbBytes = getSDOlineRestBytes line d1;
               more = nbBytes > 7;
               (err, bs, d2) = lineToSDO line (if more then 7 else nbBytes) d1
           in if err \<noteq> 0 then
                Some (case at of
                    Some (i, s) \<Rightarrow> sdo_fail c w i s SDOABT_GENERAL_ERROR d2
                  | None \<Rightarrow> sdo_fail c w 0 0 SDOABT_GENERAL_ERROR (chk False d2))
              else if more then block_loop fuel c w at line (SeqNo + 1) (snd (reply w c (SeqNo # bs) d2))
              else Some (0, upd_line line (\<lambda>t. t\<lparr>endfield := ucast (7 - nbBytes)\<rparr>)
                              (snd (reply w c ((0x80 OR SeqNo) # bs) d2))))"

text \<open>Six rounds are enough: a line holds 32 bytes and every round but the last sends seven.\<close>

definition block_fuel :: nat where "block_fuel = 6"

definition send_block :: "UNS8 \<Rightarrow> UNS8 \<Rightarrow> (UNS16 \<times> UNS8) option \<Rightarrow> nat \<Rightarrow> CO_Data \<Rightarrow> UNS8 \<times> CO_Data" where
  "send_block c w at line d =
     (let d1 = upd_line line (\<lambda>t. t\<lparr>lastblockoffset := ucast (offset t)\<rparr>) d
      in case block_loop block_fuel c w at line 1 d1 of Some r \<Rightarrow> r | None \<Rightarrow> (0, chk False d1))"

text \<open>
  The acknowledgement of a block, the same on both sides: all sent and confirmed, so the end is announced;
  or the line goes back to the first unconfirmed byte, and a count that lies beyond the data is refused.
\<close>

definition block_acknowledged ::
    "UNS8 \<Rightarrow> UNS8 \<Rightarrow> (UNS16 \<times> UNS8) option \<Rightarrow> nat \<Rightarrow> Message \<Rightarrow> CO_Data \<Rightarrow> UNS8 \<times> CO_Data" where
  "block_acknowledged c w at line m d =
     (let d1 = upd_line line (\<lambda>t. t\<lparr>blksize := mdata m ! 2\<rparr>) d;
          AckSeq = mdata m ! 1 AND 0x7F
      in if getSDOlineRestBytes line d1 = 0 \<and> AckSeq = seqno (tr d1 line)
         then reply w c [0xC1 OR push_bit 2 (endfield (tr d1 line))] d1
         else let d2 = upd_line line (\<lambda>t. t\<lparr>offset := ucast (lastblockoffset t) + 7 * ucast AckSeq\<rparr>) d1
              in if offset (tr d2 line) > count (tr d2 line)
                 then sdo_fail c w 0 0 SDOABT_LOCAL_CTRL_ERROR d2
                 else send_block c w at line d2)"

definition block_upload_server :: "UNS8 \<Rightarrow> nat option \<Rightarrow> Message \<Rightarrow> CO_Data \<Rightarrow> UNS8 \<times> CO_Data" where
  "block_upload_server c l m =
     (let b0 = mdata m ! 0; SubCommand = getSDOblockSC b0;
          i = getSDOindex (mdata m ! 1) (mdata m ! 2); s = mdata m ! 3
      in if SubCommand = SDO_BCS_INITIATE_UPLOAD_REQUEST then
           open_server c l i s SDO_BLOCK_UPLOAD_IN_PROGRESS (\<lambda>line d1.
             let (errorCode, d2) = objdictToSDOline line
                   (upd_line line (\<lambda>t. t\<lparr>peerCRCsupport := drop_bit 2 b0 AND 1, blksize := mdata m ! 4\<rparr>) d1)
             in if errorCode \<noteq> 0 then sdo_fail c SDO_SERVER i s errorCode d2
                else let nbBytes = getSDOlineRestBytes line d2
                     in reply SDO_SERVER c ([0xC2] @ index_bytes i @ [s] @ bytes32 nbBytes)
                          (upd_line line (\<lambda>t. t\<lparr>objsize := nbBytes\<rparr>) d2))
         else if SubCommand = SDO_BCS_END_UPLOAD_REQUEST then
           on_line c SDO_SERVER l SDO_BLOCK_UPLOAD_IN_PROGRESS (\<lambda>line d1. (0, resetSDOline line d1))
         else
           on_line c SDO_SERVER l SDO_BLOCK_UPLOAD_IN_PROGRESS (\<lambda>line d0.
             let d1 = RestartSDO_TIMER line d0; at = Some (index (tr d1 line), subIndex (tr d1 line))
             in if SubCommand = SDO_BCS_UPLOAD_RESPONSE then block_acknowledged c SDO_SERVER at line m d1
                else send_block c SDO_SERVER at line d1))"

definition block_download_client :: "UNS8 \<Rightarrow> UNS8 \<Rightarrow> nat option \<Rightarrow> Message \<Rightarrow> CO_Data \<Rightarrow> UNS8 \<times> CO_Data" where
  "block_download_client c nodeId l m d =
     (let b0 = mdata m ! 0; SubCommand = getSDOblockSC b0
      in if SubCommand = SDO_BSS_INITIATE_DOWNLOAD_RESPONSE \<or> SubCommand = SDO_BSS_DOWNLOAD_RESPONSE then
           on_line c SDO_CLIENT l SDO_BLOCK_DOWNLOAD_IN_PROGRESS (\<lambda>line d0.
             let d1 = RestartSDO_TIMER line d0
             in if SubCommand = SDO_BSS_INITIATE_DOWNLOAD_RESPONSE
                then send_block c SDO_CLIENT (Some (index (tr d1 line), subIndex (tr d1 line))) line
                       (upd_line line (\<lambda>t. t\<lparr>peerCRCsupport := drop_bit 2 b0 AND 1, blksize := mdata m ! 4\<rparr>) d1)
                else block_acknowledged c SDO_CLIENT None line m d1) d
         else if SubCommand = SDO_BSS_END_DOWNLOAD_RESPONSE then
           (case l of
              None \<Rightarrow> (0, chk False d)
            | Some line \<Rightarrow> end_client line (\<lambda>t. t\<lparr>state := SDO_FINISHED\<rparr>) nodeId d)
         else sdo_fail c SDO_CLIENT 0 0 SDOABT_LOCAL_CTRL_ERROR d)"

text \<open>A data segment of a block, the same on both sides: it is stored when it is the next one; the last of the block is answered.\<close>

definition block_answer :: "UNS8 \<Rightarrow> UNS8 \<Rightarrow> nat \<Rightarrow> CO_Data \<Rightarrow> UNS8 \<times> CO_Data" where
  "block_answer c w line d =
     (0, upd_line line (\<lambda>t. t\<lparr>seqno := 0\<rparr>) (snd (reply w c [0xA2, seqno (tr d line), SDO_BLOCK_SIZE] d)))"

definition block_segment :: "UNS8 \<Rightarrow> UNS8 \<Rightarrow> nat \<Rightarrow> Message \<Rightarrow> CO_Data \<Rightarrow> UNS8 \<times> CO_Data" where
  "block_segment c w line m d =
     (let b0 = mdata m ! 0; SeqNo = b0 AND 0x7F; expected = (unat SeqNo = unat (seqno (tr d line)) + 1)
      in if b0 AND 0x80 \<noteq> 0 then
           block_answer c w line
             (if expected then upd_line line (\<lambda>t. t\<lparr>rxstep := RXSTEP_END, seqno := SeqNo, tmpData := take 8 (mdata m)\<rparr>) d else d)
         else let (err, d1) = (if expected then SDOtoLine line 7 (drop 1 (mdata m)) (upd_line line (\<lambda>t. t\<lparr>seqno := SeqNo\<rparr>) d) else (0, d))
              in if err \<noteq> 0 then sdo_fail c w (index (tr d1 line)) (subIndex (tr d1 line)) SDOABT_GENERAL_ERROR d1
                 else if SeqNo = SDO_BLOCK_SIZE then block_answer c w line d1 else (0, d1))"

text \<open>The end of a block transfer, the same on both sides up to the check of the size.\<close>

definition block_end ::
    "UNS8 \<Rightarrow> UNS8 \<Rightarrow> nat \<Rightarrow> Message \<Rightarrow> (CO_Data \<Rightarrow> UNS8 \<times> CO_Data) \<Rightarrow> CO_Data \<Rightarrow> UNS8 \<times> CO_Data" where
  "block_end c w line m k d =
     (let NbBytesNoData = drop_bit 2 (mdata m ! 0) AND 7;
          (err, d1) = SDOtoLine line (7 - ucast NbBytesNoData) (drop 1 (tmpData (tr d line))) d; t = tr d1 line
      in if err \<noteq> 0 then sdo_fail c w (index t) (subIndex t) SDOABT_GENERAL_ERROR d1
         else if objsize t \<noteq> 0 \<and> objsize t \<noteq> offset t then sdo_fail c w (index t) (subIndex t) SDOABT_LOCAL_CTRL_ERROR d1
         else k (snd (reply w c [0xA1] d1)))"

definition block_download_server :: "UNS8 \<Rightarrow> nat option \<Rightarrow> Message \<Rightarrow> CO_Data \<Rightarrow> UNS8 \<times> CO_Data" where
  "block_download_server c l m d =
     (let b0 = mdata m ! 0; i = getSDOindex (mdata m ! 1) (mdata m ! 2); s = mdata m ! 3
      in case l of
          None \<Rightarrow>
            if b0 AND 1 \<noteq> SDO_BCS_INITIATE_DOWNLOAD_REQUEST then sdo_fail c SDO_SERVER 0 0 SDOABT_LOCAL_CTRL_ERROR d
            else open_server c None i s SDO_BLOCK_DOWNLOAD_IN_PROGRESS (\<lambda>line d1.
              let d2 = upd_line line (\<lambda>t. t\<lparr>rxstep := RXSTEP_STARTED, peerCRCsupport := drop_bit 2 b0 AND 1\<rparr>) d1;
                  d3 = (if b0 AND 2 \<noteq> 0 then upd_line line (\<lambda>t. t\<lparr>objsize := u32_of (drop 4 (mdata m))\<rparr>) d2 else d2)
              in reply SDO_SERVER c ([0xA0] @ index_bytes i @ [s, SDO_BLOCK_SIZE]) d3) d
        | Some line \<Rightarrow>
            (case rxstep (tr d line) of
               RXSTEP_INIT \<Rightarrow> (0, d)
             | RXSTEP_STARTED \<Rightarrow> block_segment c SDO_SERVER line m (RestartSDO_TIMER line d)
             | RXSTEP_END \<Rightarrow>
                 if b0 AND 1 \<noteq> SDO_BCS_END_DOWNLOAD_REQUEST then sdo_fail c SDO_SERVER 0 0 SDOABT_LOCAL_CTRL_ERROR d
                 else block_end c SDO_SERVER line m (\<lambda>d1.
                   let (errorCode, d2) = SDOlineToObjdict line d1
                   in if errorCode \<noteq> 0 then sdo_fail c SDO_SERVER (index (tr d2 line)) (subIndex (tr d2 line)) errorCode d2
                      else (0, resetSDOline line d2)) (RestartSDO_TIMER line d)))"

definition block_upload_client :: "UNS8 \<Rightarrow> UNS8 \<Rightarrow> nat option \<Rightarrow> Message \<Rightarrow> CO_Data \<Rightarrow> UNS8 \<times> CO_Data" where
  "block_upload_client c nodeId l m d =
     (let b0 = mdata m ! 0
      in case l of
          None \<Rightarrow> sdo_fail c SDO_CLIENT 0 0 SDOABT_LOCAL_CTRL_ERROR d
        | Some line \<Rightarrow>
            (let d1 = RestartSDO_TIMER line d
             in case rxstep (tr d1 line) of
               RXSTEP_INIT \<Rightarrow>
                 if b0 AND 1 = SDO_BSS_INITIATE_UPLOAD_RESPONSE then
                   (let d2 = upd_line line (\<lambda>t. t\<lparr>rxstep := RXSTEP_STARTED, peerCRCsupport := drop_bit 2 b0 AND 1\<rparr>) d1;
                        d3 = (if b0 AND 2 \<noteq> 0 then upd_line line (\<lambda>t. t\<lparr>objsize := u32_of (drop 4 (mdata m))\<rparr>) d2 else d2)
                    in reply SDO_CLIENT c [0xA3] d3)
                 else (0, d1)
             | RXSTEP_STARTED \<Rightarrow> block_segment c SDO_CLIENT line m d1
             | RXSTEP_END \<Rightarrow>
                 if b0 AND 1 \<noteq> SDO_BSS_END_UPLOAD_RESPONSE then sdo_fail c SDO_CLIENT 0 0 SDOABT_LOCAL_CTRL_ERROR d1
                 else block_end c SDO_CLIENT line m (end_client line (\<lambda>t. t\<lparr>state := SDO_FINISHED\<rparr>) nodeId) d1))"

section \<open>The dispatch on the command specifier\<close>

text \<open>Data segments of a block carry no command specifier.\<close>

definition command_specifier :: "UNS8 \<Rightarrow> nat option \<Rightarrow> Message \<Rightarrow> CO_Data \<Rightarrow> UNS8" where
  "command_specifier w l m d =
     (let b0 = mdata m ! 0
      in case l of
          Some line \<Rightarrow>
            if w = SDO_SERVER \<and> state (tr d line) = SDO_BLOCK_DOWNLOAD_IN_PROGRESS
               \<or> w = SDO_CLIENT \<and> state (tr d line) = SDO_BLOCK_UPLOAD_IN_PROGRESS
            then (if b0 = 0x80 then 4 else 6) else getSDOcs b0
        | None \<Rightarrow> getSDOcs b0)"

definition serve :: "UNS8 \<Rightarrow> Message \<Rightarrow> CO_Data \<Rightarrow> UNS8 \<times> CO_Data" where
  "serve c m d =
     (let l = getSDOlineOnUse c SDO_SERVER d; cs = command_specifier SDO_SERVER l m d
      in if cs = 0 then download_segment_server c l m d
         else if cs = 1 then initiate_download_server c l m d
         else if cs = 2 then initiate_upload_server c l m d
         else if cs = 3 then upload_segment_server c l m d
         else if cs = 4 then abort_received SDO_SERVER 0 l m d
         else if cs = 5 then block_upload_server c l m d
         else if cs = 6 then block_download_server c l m d
         else (0xFF, d))"

definition follow :: "UNS8 \<Rightarrow> UNS8 \<Rightarrow> Message \<Rightarrow> CO_Data \<Rightarrow> UNS8 \<times> CO_Data" where
  "follow c nodeId m d =
     (let l = getSDOlineOnUse c SDO_CLIENT d; cs = command_specifier SDO_CLIENT l m d
      in if cs = 0 then upload_segment_client c nodeId l m d
         else if cs = 1 then download_segment_client c nodeId l m d
         else if cs = 2 then initiate_upload_client c nodeId l m d
         else if cs = 3 then initiate_download_client c nodeId l m d
         else if cs = 4 then abort_received SDO_CLIENT nodeId l m d
         else if cs = 5 then block_download_client c nodeId l m d
         else if cs = 6 then block_upload_client c nodeId l m d
         else (0xFF, d))"

definition proceedSDO :: "Message \<Rightarrow> CO_Data \<Rightarrow> UNS8 \<times> CO_Data" where
  "proceedSDO m d =
     (case sdo_role_of (cob_id m) d of
        SDO_malformed \<Rightarrow> (0xFF, d)
      | SDO_not_for_us \<Rightarrow> (0xFF, d)
      | SDO_for_server c \<Rightarrow>
          if mlen m \<noteq> 8 then sdo_fail c SDO_SERVER 0 0 SDOABT_GENERAL_ERROR d else serve c m d
      | SDO_for_client c nodeId \<Rightarrow>
          if mlen m \<noteq> 8 then sdo_fail c SDO_CLIENT 0 0 SDOABT_GENERAL_ERROR d else follow c nodeId m d)"

section \<open>The node invariant\<close>

lemma sdo_fail_ok [simp]: "sdo_ok d \<Longrightarrow> sdo_ok (snd (sdo_fail c w i s a d))"
  by (simp add: sdo_fail_def)

lemma reply_ok [simp]: "sdo_ok d \<Longrightarrow> sdo_ok (snd (reply w c bs d))"
  by (simp add: reply_def)

text \<open>An update that leaves owner, state and extent of a line alone keeps the invariant.\<close>

lemma sdo_ok_same_extent:
  assumes "sdo_ok d" "\<And>t. transfer_ok t \<Longrightarrow> transfer_ok (f t)" "\<And>t. whoami (f t) = whoami t"
    "\<And>t. state (f t) = SDO_RESET \<Longrightarrow> state t = SDO_RESET" "\<And>t. offset (f t) = offset t" "\<And>t. count (f t) = count t"
  shows "sdo_ok (upd_line line f d)"
proof (rule sdo_ok_upd_line [OF assms(1)])
  assume "transfer_ok (tr d line)" "line_bounded (tr d line)"
  with assms(2-6) show "transfer_ok (f (tr d line)) \<and> line_bounded (f (tr d line))"
    unfolding line_bounded_def by metis
qed

lemma flip_toggle_ok [simp]: "sdo_ok d \<Longrightarrow> sdo_ok (flip_toggle line d)"
  unfolding flip_toggle_def by (rule sdo_ok_same_extent) simp_all

lemma end_client_ok:
  assumes ok: "sdo_ok d" and mark: "\<And>t. transfer_ok t \<Longrightarrow> transfer_ok (mark t)" "\<And>t. line_bounded t \<Longrightarrow> line_bounded (mark t)"
  shows "sdo_ok (snd (end_client line mark nodeId d))"
proof -
  have "sdo_ok (upd_line line mark (StopSDO_TIMER line d))" by (rule sdo_ok_upd_line) (simp_all add: ok mark)
  then show ?thesis by (simp add: end_client_def Let_def)
qed

lemma next_segment_ok [simp]: "sdo_ok d \<Longrightarrow> sdo_ok (snd (snd (next_segment line n d)))"
  using sdo_ok_copies(1) [of d line n] sdo_ok_copies(1) [of d line 7] by (simp add: next_segment_def Let_def split_beta)

lemma on_line_ok:
  assumes "sdo_ok d" "\<And>line. l = Some line \<Longrightarrow> state (tr d line) = st \<Longrightarrow> sdo_ok (snd (k line d))"
  shows "sdo_ok (snd (on_line c w l st k d))"
  using assms by (simp add: on_line_def split: option.split)

lemma on_toggle_ok: "sdo_ok d \<Longrightarrow> sdo_ok (snd (k d)) \<Longrightarrow> sdo_ok (snd (on_toggle c w line b k d))"
  by (simp add: on_toggle_def)

lemma open_server_ok:
  assumes ok: "sdo_ok d" and k: "\<And>line d1. sdo_ok d1 \<Longrightarrow> sdo_ok (snd (k line d1))"
  shows "sdo_ok (snd (open_server c l i s st k d))"
proof (cases "getSDOfreeLine SDO_SERVER d")
  case (Pair free d0)
  have "sdo_ok d0" using sdo_ok_copies(3) [OF ok, of SDO_SERVER] Pair by simp
  then show ?thesis using k ok Pair by (simp add: open_server_def split: option.split)
qed

lemmas sdo_case_ok = on_line_ok on_toggle_ok open_server_ok end_client_ok

lemma segments_ok [simp]:
  assumes ok: "sdo_ok d"
  shows "sdo_ok (snd (download_segment_server c l m d))" "sdo_ok (snd (upload_segment_client c n l m d))"
    "sdo_ok (snd (download_segment_client c n l m d))" "sdo_ok (snd (upload_segment_server c l m d))"
    "sdo_ok (snd (initiate_download_client c n l m d))"
proof -
  show "sdo_ok (snd (download_segment_server c l m d))"
    using ok unfolding download_segment_server_def
    by (intro on_line_ok) (auto simp: Let_def split_beta intro!: on_toggle_ok)
  show "sdo_ok (snd (upload_segment_client c n l m d))"
    using ok unfolding upload_segment_client_def
    by (intro on_line_ok) (auto simp: Let_def split_beta line_bounded_def intro!: on_toggle_ok end_client_ok)
  show "sdo_ok (snd (download_segment_client c n l m d))"
    using ok unfolding download_segment_client_def
    by (intro on_line_ok) (auto simp: Let_def split_beta line_bounded_def intro!: on_toggle_ok end_client_ok)
  show "sdo_ok (snd (upload_segment_server c l m d))"
    using ok unfolding upload_segment_server_def
    by (intro on_line_ok) (auto simp: Let_def split_beta intro!: on_toggle_ok)
  show "sdo_ok (snd (initiate_download_client c n l m d))"
    using ok unfolding initiate_download_client_def
    by (intro on_line_ok) (auto simp: Let_def split_beta line_bounded_def intro!: end_client_ok)
qed

lemma unat_ucast32 [simp]: "unat (ucast (x :: UNS8) :: UNS32) = unat x"
  using unsigned_less [of x, where ?'a = nat] by (simp add: unsigned_ucast_eq take_bit_nat_eq_self)

lemma getSDOn_bounds: "unat (getSDOn2 b) \<le> 3" "unat (getSDOn3 b) \<le> 7"
  using word_and_le1 [of "drop_bit 2 b" 3] word_and_le1 [of "drop_bit 1 b" 7]
  by (simp_all add: getSDOn2_def getSDOn3_def word_le_nat_alt)

lemma nb_bytes:
  "unat (4 - ucast (getSDOn2 b) :: UNS32) = 4 - unat (getSDOn2 b)" "unat (7 - ucast (getSDOn3 b) :: UNS32) = 7 - unat (getSDOn3 b)"
  using getSDOn_bounds [of b] by (simp_all add: unat_sub word_le_nat_alt)

lemma initiates_ok [simp]:
  assumes ok: "sdo_ok d"
  shows "sdo_ok (snd (initiate_download_server c l m d))" "sdo_ok (snd (initiate_upload_server c l m d))"
    "sdo_ok (snd (initiate_upload_client c n l m d))" "sdo_ok (snd (abort_received w n l m d))"
proof -
  let ?n = "4 - ucast (getSDOn2 (mdata m ! 0)) :: UNS32"
  have n: "unat ?n \<le> 32" by (simp add: nb_bytes)
  have upd: "sdo_ok (upd_line line (\<lambda>t. t\<lparr>count := ?n\<rparr>) d1)" if "sdo_ok d1" for line d1
    by (rule sdo_ok_upd_line [OF that]) (use n in \<open>simp add: line_bounded_def\<close>)
  show "sdo_ok (snd (initiate_download_server c l m d))"
    unfolding initiate_download_server_def Let_def
    by (rule open_server_ok [OF ok]) (simp add: Let_def split_beta upd)
  show "sdo_ok (snd (initiate_upload_server c l m d))"
    unfolding initiate_upload_server_def Let_def
    by (rule open_server_ok [OF ok]) (simp add: Let_def split_beta)
  show "sdo_ok (snd (initiate_upload_client c n l m d))"
    using ok n unfolding initiate_upload_client_def
    by (intro on_line_ok) (auto simp: Let_def split_beta line_bounded_def intro!: end_client_ok)
  show "sdo_ok (snd (abort_received w n l m d))"
    using ok by (auto simp: abort_received_def Let_def line_bounded_def intro!: end_client_ok split: option.split)
qed

text \<open>A released line is in order whatever it held before.\<close>

lemma resetSDOline_ok:
  assumes ok: "node_ok d" and rest: "\<And>k. k < length (transfers d) \<Longrightarrow> k \<noteq> line \<Longrightarrow> line_bounded (tr d k)"
  shows "sdo_ok (resetSDOline line d)"
proof (cases "line < length (transfers d)")
  case True
  have "line_bounded (tr (resetSDOline line d) k)" if "k < length (transfers d)" for k
    using tr_resetSDOline [OF True, of k] rest [OF that] by (cases "k = line") (auto simp: opened_line_def line_bounded_def)
  then show ?thesis using ok by (simp add: sdo_ok_def list_all_length tr_def [symmetric])
next
  case False
  then have "sdo_ok d" using ok rest by (auto simp: sdo_ok_def list_all_length tr_def [symmetric])
  then show ?thesis by simp
qed

text \<open>
  Moving the offset of a server line anywhere is harmless when the transfer is aborted at once: the line that
  the abort releases is the same one.
\<close>

lemma getSDOlineOnUse_upd:
  assumes "\<And>t. state (f t) = state t" "\<And>t. CliServNbr (f t) = CliServNbr t" "\<And>t. whoami (f t) = whoami t"
  shows "getSDOlineOnUse c w (upd_line line f d) = getSDOlineOnUse c w d"
proof -
  have "find_pos P (xs[k := f (xs ! k)]) = find_pos P xs" if "\<And>t. P (f t) = P t" for P xs k
    using that by (induction xs arbitrary: k) (auto split: nat.split)
  then show ?thesis using assms by (simp add: getSDOlineOnUse_def upd_line_def Let_def)
qed

lemma failedSDO_server_ok:
  assumes ok: "sdo_ok d" and line: "getSDOlineOnUse c SDO_SERVER d = Some line"
    and f: "\<And>t. state (f t) = state t" "\<And>t. CliServNbr (f t) = CliServNbr t" "\<And>t. whoami (f t) = whoami t"
    "\<And>t. transfer_ok t \<Longrightarrow> transfer_ok (f t)"
  shows "sdo_ok (snd (failedSDO c SDO_SERVER i s a (upd_line line f d)))"
proof -
  let ?e = "upd_line line f d"
  have "getSDOlineOnUse c SDO_SERVER ?e = Some line" using getSDOlineOnUse_upd [of f, OF f(1-3)] line by simp
  moreover have "sdo_ok (resetSDOline line ?e)"
  proof (rule resetSDOline_ok)
    show "node_ok ?e" using sdo_ok_node [OF ok] f(4) by (rule upd_line_node_ok)
    show "line_bounded (tr ?e k)" if "k < length (transfers ?e)" "k \<noteq> line" for k
      using that sdo_ok_line [OF ok, of k] tr_upd_line [OF getSDOlineOnUse_Some(1) [OF line], of f k] by simp
  qed
  ultimately show ?thesis by (simp add: failedSDO_def Let_def split_beta)
qed

lemma find_pos_map: "find_pos P (map g xs) = find_pos (\<lambda>x. P (g x)) xs"
  by (induction xs) simp_all

lemma getSDOlineOnUse_cong:
  assumes "length (transfers e) = length (transfers d)"
    "\<And>k. k < length (transfers d) \<Longrightarrow> state (tr e k) = state (tr d k) \<and> CliServNbr (tr e k) = CliServNbr (tr d k) \<and> whoami (tr e k) = whoami (tr d k)"
  shows "getSDOlineOnUse c w e = getSDOlineOnUse c w d"
proof -
  let ?g = "\<lambda>t. (state t, CliServNbr t, whoami t)"
    and ?P = "\<lambda>(st, n, o'). st \<noteq> SDO_RESET \<and> st \<noteq> SDO_ABORTED_INTERNAL \<and> n = c \<and> o' = w"
  have "map ?g (transfers e) = map ?g (transfers d)"
    by (rule nth_equalityI) (use assms in \<open>simp_all add: tr_def\<close>)
  then have "find_pos ?P (map ?g (transfers e)) = find_pos ?P (map ?g (transfers d))" by simp
  then show ?thesis by (simp add: getSDOlineOnUse_def find_pos_map assms(1))
qed

lemma getSDOlineOnUse_Restart [simp]:
  assumes "line < length (transfers d)"
  shows "getSDOlineOnUse c w (RestartSDO_TIMER line d) = getSDOlineOnUse c w d"
proof (rule getSDOlineOnUse_cong)
  fix k show "state (tr (RestartSDO_TIMER line d) k) = state (tr d k) \<and> CliServNbr (tr (RestartSDO_TIMER line d) k) = CliServNbr (tr d k)
      \<and> whoami (tr (RestartSDO_TIMER line d) k) = whoami (tr d k)"
    using tr_sdo_timer(3) [OF assms, of k] by (auto split: if_splits)
qed simp

lemma block_loop_ok: "sdo_ok d \<Longrightarrow> block_loop fuel c w at line SeqNo d = Some r \<Longrightarrow> sdo_ok (snd r)"
proof (induction fuel arbitrary: SeqNo d)
  case (Suc fuel)
  let ?d1 = "upd_line line (\<lambda>t. t\<lparr>seqno := SeqNo\<rparr>) d"
  let ?n = "if getSDOlineRestBytes line ?d1 > 7 then 7 else getSDOlineRestBytes line ?d1"
  have "sdo_ok ?d1" using Suc.prems(1) by (rule sdo_ok_same_extent) simp_all
  then have d2: "sdo_ok (snd (snd (lineToSDO line ?n ?d1)))" by simp
  have "sdo_ok (upd_line line (\<lambda>t. t\<lparr>endfield := e\<rparr>) d')" if "sdo_ok d'" for e d'
    using that by (rule sdo_ok_same_extent) simp_all
  then show ?case
    using Suc.prems d2 Suc.IH [OF reply_ok [OF d2]]
    by (auto simp: Let_def split_beta split: if_splits option.splits)
qed simp

lemma send_block_ok [simp]: "sdo_ok d \<Longrightarrow> sdo_ok (snd (send_block c w at line d))"
proof -
  assume ok: "sdo_ok d"
  have "sdo_ok (upd_line line (\<lambda>t. t\<lparr>lastblockoffset := ucast (offset t)\<rparr>) d)"
    using ok by (rule sdo_ok_same_extent) simp_all
  then show ?thesis using block_loop_ok by (simp add: send_block_def Let_def split: option.split)
qed

lemma block_acknowledged_ok:
  assumes ok: "sdo_ok d" and line: "getSDOlineOnUse c w d = Some line" and w: "w = SDO_SERVER \<or> w = SDO_CLIENT"
  shows "sdo_ok (snd (block_acknowledged c w at line m d))"
proof -
  define d1 where "d1 = upd_line line (\<lambda>t. t\<lparr>blksize := mdata m ! 2\<rparr>) d"
  define f where "f = (\<lambda>t :: s_transfer. t\<lparr>offset := ucast (lastblockoffset t) + 7 * ucast (mdata m ! 1 AND 0x7F)\<rparr>)"
  have d1: "sdo_ok d1" unfolding d1_def using ok by (rule sdo_ok_same_extent) simp_all
  have line1: "getSDOlineOnUse c w d1 = Some line" unfolding d1_def using line by (simp add: getSDOlineOnUse_upd)
  note l = getSDOlineOnUse_Some [OF line1]
  have tr2: "tr (upd_line line f d1) line = f (tr d1 line)" by (simp add: tr_upd_line [OF l(1)])
  have moved: "sdo_ok (upd_line line f d1)" if "w = SDO_CLIENT \<or> offset (f (tr d1 line)) \<le> count (tr d1 line)"
  proof (rule sdo_ok_upd_line [OF d1])
    assume "transfer_ok (tr d1 line)" "line_bounded (tr d1 line)"
    then show "transfer_ok (f (tr d1 line)) \<and> line_bounded (f (tr d1 line))"
      using that l(2,5) by (auto simp: f_def line_bounded_def word_le_nat_alt)
  qed
  have "sdo_ok (snd (sdo_fail c w 0 0 a (upd_line line f d1)))" for a
  proof (cases "w = SDO_CLIENT")
    case False
    then have "getSDOlineOnUse c SDO_SERVER d1 = Some line" using w line1 by simp
    from failedSDO_server_ok [OF d1 this, of f] show ?thesis using False w by (simp add: sdo_fail_def f_def)
  qed (simp add: moved)
  moreover have "offset (f (tr d1 line)) \<le> count (tr d1 line)" if "\<not> count (tr (upd_line line f d1) line) < offset (tr (upd_line line f d1) line)"
    using that by (simp add: tr2) (simp add: f_def)
  ultimately show ?thesis
    using d1 moved unfolding block_acknowledged_def Let_def d1_def [symmetric] f_def [symmetric] by simp
qed

lemma block_senders_ok [simp]:
  assumes ok: "sdo_ok d"
  shows "sdo_ok (snd (block_upload_server c (getSDOlineOnUse c SDO_SERVER d) m d))"
    "sdo_ok (snd (block_download_client c n (getSDOlineOnUse c SDO_CLIENT d) m d))"
proof -
  have upd: "sdo_ok (upd_line line (\<lambda>t. t\<lparr>peerCRCsupport := a, blksize := b\<rparr>) e)" "sdo_ok (upd_line line (\<lambda>t. t\<lparr>objsize := x\<rparr>) e)"
    if "sdo_ok e" for line a b x e
    using that by (auto intro: sdo_ok_same_extent)
  have ack: "sdo_ok (snd (block_acknowledged c w at line m (RestartSDO_TIMER line d)))"
    if "getSDOlineOnUse c w d = Some line" "w = SDO_SERVER \<or> w = SDO_CLIENT" for w at line
    using that ok getSDOlineOnUse_Some(1) [OF that(1)] by (intro block_acknowledged_ok) simp_all
  show "sdo_ok (snd (block_upload_server c (getSDOlineOnUse c SDO_SERVER d) m d))"
    using ok ack unfolding block_upload_server_def Let_def
    by (auto simp: split_beta upd intro!: open_server_ok on_line_ok)
  show "sdo_ok (snd (block_download_client c n (getSDOlineOnUse c SDO_CLIENT d) m d))"
    using ok ack unfolding block_download_client_def Let_def
    by (auto simp: upd line_bounded_def intro!: on_line_ok end_client_ok split: option.split)
qed

lemma block_answer_ok [simp]: "sdo_ok d \<Longrightarrow> sdo_ok (snd (block_answer c w line d))"
  by (auto simp: block_answer_def intro!: sdo_ok_same_extent)

lemma block_segment_ok [simp]:
  assumes "sdo_ok d" "8 \<le> length (mdata m)"
  shows "sdo_ok (snd (block_segment c w line m d))"
proof -
  have "sdo_ok (upd_line line (\<lambda>t. t\<lparr>rxstep := RXSTEP_END, seqno := a, tmpData := take 8 (mdata m)\<rparr>) d)"
      "sdo_ok (upd_line line (\<lambda>t. t\<lparr>seqno := a\<rparr>) d)" for a
    using assms by (auto intro!: sdo_ok_same_extent simp: transfer_ok_def)
  then show ?thesis using assms(1) by (simp add: block_segment_def Let_def split_beta)
qed

lemma block_end_ok:
  assumes "sdo_ok d" "\<And>d1. sdo_ok d1 \<Longrightarrow> sdo_ok (snd (k d1))"
  shows "sdo_ok (snd (block_end c w line m k d))"
  using assms by (simp add: block_end_def Let_def split_beta)

lemma block_receivers_ok [simp]:
  assumes ok: "sdo_ok d" and m: "8 \<le> length (mdata m)"
  shows "sdo_ok (snd (block_download_server c l m d))" "sdo_ok (snd (block_upload_client c n l m d))"
proof -
  have upd: "sdo_ok (upd_line line (\<lambda>t. t\<lparr>rxstep := RXSTEP_STARTED, peerCRCsupport := a\<rparr>) e)" "sdo_ok (upd_line line (\<lambda>t. t\<lparr>objsize := x\<rparr>) e)"
    if "sdo_ok e" for line a x e
    using that by (auto intro: sdo_ok_same_extent)
  show "sdo_ok (snd (block_download_server c l m d))"
    using ok m by (auto simp: block_download_server_def Let_def split_beta upd intro!: open_server_ok block_end_ok
        split: option.split rxStep_t.split)
  show "sdo_ok (snd (block_upload_client c n l m d))"
    using ok m by (auto simp: block_upload_client_def Let_def upd line_bounded_def intro!: block_end_ok end_client_ok
        split: option.split rxStep_t.split)
qed

lemma serve_ok [simp]: "sdo_ok d \<Longrightarrow> 8 \<le> length (mdata m) \<Longrightarrow> sdo_ok (snd (serve c m d))"
  by (simp add: serve_def Let_def)

lemma follow_ok [simp]: "sdo_ok d \<Longrightarrow> 8 \<le> length (mdata m) \<Longrightarrow> sdo_ok (snd (follow c n m d))"
  by (simp add: follow_def Let_def)

lemma proceedSDO_ok: "sdo_ok d \<Longrightarrow> 8 \<le> length (mdata m) \<Longrightarrow> sdo_ok (snd (proceedSDO m d))"
  by (simp add: proceedSDO_def split: sdo_role.split)

lemma SDOTimeoutAlarm_ok [simp]: "sdo_ok d \<Longrightarrow> sdo_ok (SDOTimeoutAlarm i d)"
proof -
  have "sdo_ok (upd_line line (\<lambda>t. t\<lparr>timer := TIMER_NONE, state := SDO_ABORTED_INTERNAL\<rparr>) e)" "sdo_ok (upd_line line (\<lambda>t. t\<lparr>abortCode := x\<rparr>) e)"
    if "sdo_ok e" for line x e
    using that by (auto intro!: sdo_ok_same_extent simp: transfer_ok_def handle_ok_def)
  then show "sdo_ok d \<Longrightarrow> ?thesis" by (simp add: SDOTimeoutAlarm_def Let_def)
qed

end
