(* ===== verification/SdoTransfer.thy ===== *)
theory SdoTransfer
  imports SdoProtocol
begin

text \<open>
  What whole SDO transfers achieve, over \<open>proceedSDO\<close> of \<^verbatim>\<open>CanFestival/src/sdo.c\<close>: the loop that sends a block ends, a client that
  follows the protocol reads an object of the server byte for byte, a download writes the object or is
  aborted with the reason, and a protocol error costs the transfer but not the line.
\<close>

section \<open>The block loop\<close>

lemma block_loop_mono: "block_loop n c w at line s d = Some r \<Longrightarrow> block_loop (n + k) c w at line s d = Some r"
  by (induction n arbitrary: s d) (auto simp: Let_def split_beta split: if_splits)

lemma tr_frame [simp]: "tr (snd (reply w c bs d)) k = tr d k" "transfers (snd (reply w c bs d)) = transfers d"
  by (simp_all add: reply_def sendSDO_def canSend_def emit_def Let_def tr_def)

lemma lineToSDO_ok:
  assumes "fst (lineToSDO line n d) = 0"
  shows "offset (tr d line) + n \<le> 32" "offset (tr d line) + n \<le> count (tr d line)"
    "fst (snd (lineToSDO line n d)) = take (unat n) (drop (unat (offset (tr d line))) (data (tr d line)))"
    "snd (snd (lineToSDO line n d)) = upd_line line (\<lambda>t. t\<lparr>offset := offset (tr d line) + n\<rparr>)
       (chk (unat (offset (tr d line)) + unat n \<le> length (data (tr d line))) d)"
  using assms by (auto simp: lineToSDO_def Let_def upd_line_def tr_def not_less split: if_splits)

lemma block_loop_enough:
  assumes "line < length (transfers d)" "unat (offset (tr d line)) \<le> 32" "32 < unat (offset (tr d line)) + 7 * n"
  shows "block_loop n c w at line s d \<noteq> None"
  using assms
proof (induction n arbitrary: s d)
  case (Suc n)
  let ?d1 = "upd_line line (\<lambda>t. t\<lparr>seqno := s\<rparr>) d"
  have o1: "offset (tr ?d1 line) = offset (tr d line)" using Suc.prems(1) by (simp add: tr_upd_line)
  let ?r = "lineToSDO line 7 ?d1"
  have next': "block_loop n c w at line (s + 1) (snd (reply w c bs (snd (snd ?r)))) \<noteq> None" if e: "fst ?r = 0" for bs
  proof (rule Suc.IH)
    let ?e = "snd (snd ?r)"
    have tr: "offset (tr ?e line) = offset (tr d line) + 7" "line < length (transfers ?e)"
      using Suc.prems(1) o1 unfolding lineToSDO_ok(4) [OF e] by (simp_all add: tr_upd_line)
    have "unat (offset (tr d line) + 7) = unat (offset (tr d line)) + 7"
      using Suc.prems(2) by (simp add: unat_word_ariths)
    with tr lineToSDO_ok(1) [OF e] o1 Suc.prems(3)
    show "line < length (transfers (snd (reply w c bs ?e)))" "unat (offset (tr (snd (reply w c bs ?e)) line)) \<le> 32"
      "32 < unat (offset (tr (snd (reply w c bs ?e)) line)) + 7 * n"
      by (simp_all add: word_le_nat_alt)
  qed
  then show ?case by (auto simp: Let_def split_beta)
qed simp

text \<open>C32: the loop that sends a block ends. From any state of the line, also one whose offset lies
  outside the buffer, and for any block size the peer asks for, 255 included, where the counter of the
  loop would wrap around, the loop is left within six rounds, so the fuel of the model never runs
  out and more fuel gives the same result.\<close>

theorem block_loop_ends:
  assumes line: "line < length (transfers d)"
  shows "\<exists>r. \<forall>n \<ge> block_fuel. block_loop n c w at line s d = Some r"
proof -
  let ?d1 = "upd_line line (\<lambda>t. t\<lparr>seqno := s\<rparr>) d"
  let ?r = "lineToSDO line 7 ?d1"
  have "block_loop 5 c w at line (s + 1) (snd (reply w c bs (snd (snd ?r)))) \<noteq> None" if e: "fst ?r = 0" for bs
  proof (rule block_loop_enough)
    have "offset (tr (snd (snd ?r)) line) = offset (tr ?d1 line) + 7" "line < length (transfers (snd (snd ?r)))"
      using line unfolding lineToSDO_ok(4) [OF e] by (simp_all add: tr_upd_line)
    then show "line < length (transfers (snd (reply w c bs (snd (snd ?r)))))"
      "unat (offset (tr (snd (reply w c bs (snd (snd ?r)))) line)) \<le> 32"
      "32 < unat (offset (tr (snd (reply w c bs (snd (snd ?r)))) line)) + 7 * 5"
      using lineToSDO_ok(1) [OF e] by (simp_all add: word_le_nat_alt)
  qed
  then have "block_loop (Suc 5) c w at line s d \<noteq> None" unfolding block_loop.simps by (auto simp: Let_def split_beta)
  moreover have "Suc 5 = block_fuel" by (simp add: block_fuel_def)
  ultimately obtain r where "block_loop block_fuel c w at line s d = Some r" by auto
  then have "block_loop n c w at line s d = Some r" if "block_fuel \<le> n" for n
    using block_loop_mono [of block_fuel c w at line s d r "n - block_fuel"] that by simp
  then show ?thesis by blast
qed

section \<open>Sending from a server\<close>

lemma sent_upd_line [simp]: "sent (upd_line line f d) = sent d"
  by (simp add: upd_line_def chk_def sent_def)

lemma sent_chk [simp]: "sent (chk b d) = sent d"
  by (simp add: chk_def)

lemma sent_timer [simp]: "sent (StopSDO_TIMER line d) = sent d" "sent (StartSDO_TIMER line d) = sent d" "sent (RestartSDO_TIMER line d) = sent d"
proof -
  show "sent (StopSDO_TIMER line d) = sent d" "sent (StartSDO_TIMER line d) = sent d" for d
    by (simp_all add: StopSDO_TIMER_def StartSDO_TIMER_def Let_def split_beta)
  then show "sent (RestartSDO_TIMER line d) = sent d" by (simp add: RestartSDO_TIMER_def)
qed

lemma sent_line [simp]: "sent (initSDOline line c i s st d) = sent d" "sent (resetSDOline line d) = sent d"
  "sent (flip_toggle line d) = sent d" "sent (snd (getSDOfreeLine w d)) = sent d"
  by (simp_all add: initSDOline_def resetSDOline_def flip_toggle_def getSDOfreeLine_def Let_def)

lemma sent_copies [simp]: "sent (snd (SDOtoLine line n bs d)) = sent d" "sent (snd (snd (lineToSDO line n d))) = sent d"
  "sent (snd (setSDOlineRestBytes line n d)) = sent d" "sent (snd (objdictToSDOline line d)) = sent d"
  "sent (snd (snd (next_segment line n d))) = sent d"
proof -
  show "sent (snd (SDOtoLine line n bs d)) = sent d" "sent (snd (setSDOlineRestBytes line n d)) = sent d"
    "sent (snd (objdictToSDOline line d)) = sent d" 
    by (simp_all add: SDOtoLine_def setSDOlineRestBytes_def objdictToSDOline_def Let_def split_beta)
  show l: "sent (snd (snd (lineToSDO line n d))) = sent d" for n by (simp add: lineToSDO_def Let_def)
  show "sent (snd (snd (next_segment line n d))) = sent d" by (simp add: next_segment_def l Let_def split_beta)
qed

lemma sdo_frame_more [simp]: "sdo_frame d (flip_toggle line d)" "sdo_frame d (snd (reply w c bs d))"
  "sdo_frame d (snd (snd (next_segment line n d)))"
  using sdo_frame_copies(1) [of d line] by (simp_all add: flip_toggle_def reply_def next_segment_def Let_def split_beta)

text \<open>The identifier a server entry answers with, and a frame of eight bytes under it.\<close>

definition server_cob :: "UNS8 \<Rightarrow> CO_Data \<Rightarrow> UNS16" where
  "server_cob c d = ucast (od_u32 d (unat (SDO_SVR (firstIndex (cfg d))) + unat c) 2)"

definition sdo_msg :: "UNS16 \<Rightarrow> UNS8 list \<Rightarrow> Message" where
  "sdo_msg cob bs = \<lparr>cob_id = cob, rtr = 0, mlen = 8, mdata = bs @ replicate (8 - length bs) 0\<rparr>"

lemma server_scan_hit:
  "server_scan cob offs j d = SDO_for_server c \<Longrightarrow> \<exists>k < length offs. c = j + of_nat k \<and> od_u32 d (offs ! k) 1 = ucast cob"
proof (induction offs arbitrary: j)
  case (Cons off offs)
  show ?case
  proof (cases "od_u32 d off 1 = ucast cob \<and> \<not> bSubCount (od_entry d off) \<le> 1")
    case True
    then show ?thesis using Cons.prems by (intro exI [of _ 0]) auto
  next
    case False
    then have "server_scan cob offs (j + 1) d = SDO_for_server c" using Cons.prems by (auto split: if_splits)
    from Cons.IH [OF this] obtain k where "k < length offs" "c = j + 1 + of_nat k" "od_u32 d (offs ! k) 1 = ucast cob" by blast
    then show ?thesis by (intro exI [of _ "Suc k"]) simp
  qed
qed simp

lemma client_scan_no_server: "client_cob_scan cob offs j d \<noteq> SDO_for_server c"
  by (induction offs arbitrary: j) simp_all

lemma server_role:
  assumes "sdo_role_of cob d = SDO_for_server c"
  shows "SDO_SVR (firstIndex (cfg d)) \<noteq> 0"
    "unat (SDO_SVR (firstIndex (cfg d))) + unat c \<le> unat (SDO_SVR (lastIndex (cfg d)))"
proof -
  have s: "SDO_SVR (firstIndex (cfg d)) \<noteq> 0 \<and> server_scan cob (server_entries d) 0 d = SDO_for_server c"
    using assms client_scan_no_server by (auto simp: sdo_role_of_def Let_def split: if_splits)
  then show "SDO_SVR (firstIndex (cfg d)) \<noteq> 0" by blast
  obtain k where k: "k < length (server_entries d)" "c = of_nat k" using server_scan_hit s by fastforce
  have "unat c \<le> k" unfolding k(2) by (simp add: unsigned_of_nat)
  with k(1) show "unat (SDO_SVR (firstIndex (cfg d))) + unat c \<le> unat (SDO_SVR (lastIndex (cfg d)))"
    unfolding server_entries_def length_upt by linarith
qed

text \<open>A node that serves SDO under an identifier: the state allows it and a server entry has it.\<close>

definition serves :: "UNS16 \<Rightarrow> UNS8 \<Rightarrow> CO_Data \<Rightarrow> bool" where
  "serves cob c d \<longleftrightarrow> (nodeState d = Operational \<or> nodeState d = Pre_operational) \<and> sdo_role_of cob d = SDO_for_server c"

lemma role_cong:
  assumes "cfg e = cfg d" "mem e = mem d"
  shows "sdo_role_of cob e = sdo_role_of cob d" "server_cob c e = server_cob c d"
proof -
  have eq: "od_u32 e i j = od_u32 d i j" "od_u8 e i j = od_u8 d i j" "od_entry e i = od_entry d i" for i j
    by (simp_all add: od_u32_def od_u8_def od_sub_def od_entry_def assms)
  have "server_scan cob offs j e = server_scan cob offs j d" "client_cob_scan cob offs j e = client_cob_scan cob offs j d" for offs j
    by (induction offs arbitrary: j) (simp_all add: eq)
  then show "sdo_role_of cob e = sdo_role_of cob d"
    using assms by (simp add: sdo_role_of_def server_entries_def client_entries_def Let_def)
  show "server_cob c e = server_cob c d" using assms eq by (simp add: server_cob_def)
qed

lemma serves_frame: "sdo_frame d e \<Longrightarrow> serves cob c e = serves cob c d" "sdo_frame d e \<Longrightarrow> server_cob c e = server_cob c d"
  using role_cong [of e d] by (simp_all add: serves_def sdo_frame_def)

lemma sent_sendSDO:
  assumes "serves cob c d" "cfg e = cfg d" "nodeState e = nodeState d" "length bs = 8"
  shows "sent (snd (sendSDO SDO_SERVER c bs e)) = sent e @ [sdo_msg (server_cob c e) bs]"
  using assms server_role [of cob d c]
  by (auto simp: sendSDO_def Let_def serves_def canSend_def sdo_msg_def server_cob_def not_less)

lemma sent_reply_cfg:
  assumes "serves cob c d" "cfg e = cfg d" "nodeState e = nodeState d" "length bs \<le> 8"
  shows "sent (snd (reply SDO_SERVER c bs e)) = sent e @ [sdo_msg (server_cob c e) bs]"
  using sent_sendSDO [OF assms(1-3), of "bs @ replicate (8 - length bs) 0"] assms(4) by (simp add: reply_def sdo_msg_def)

lemma sent_reply:
  "serves cob c d \<Longrightarrow> length bs \<le> 8 \<Longrightarrow> sent (snd (reply SDO_SERVER c bs d)) = sent d @ [sdo_msg (server_cob c d) bs]"
  by (rule sent_reply_cfg) simp_all

section \<open>Reading an object\<close>

text \<open>A server line in the middle of a segmented upload, with the bytes that are still to go.\<close>

definition uploading :: "UNS8 \<Rightarrow> nat \<Rightarrow> UNS8 \<Rightarrow> UNS8 list \<Rightarrow> CO_Data \<Rightarrow> bool" where
  "uploading c line tg bs d \<longleftrightarrow> sdo_ok d \<and> getSDOlineOnUse c SDO_SERVER d = Some line
     \<and> state (tr d line) = SDO_UPLOAD_IN_PROGRESS \<and> ttoggle (tr d line) = tg \<and> (tg = 0 \<or> tg = 1)
     \<and> offset (tr d line) \<le> count (tr d line)
     \<and> bs = drop (unat (offset (tr d line))) (take (unat (count (tr d line))) (data (tr d line)))"

definition segment_request :: "UNS16 \<Rightarrow> UNS8 \<Rightarrow> Message" where
  "segment_request cob tg = sdo_msg cob [0x60 OR push_bit 4 tg]"

lemma uploading_line:
  assumes "uploading c line tg bs d"
  shows "line < length (transfers d)" "unat (count (tr d line)) \<le> 32" "length (data (tr d line)) = 32"
    "length bs = unat (count (tr d line)) - unat (offset (tr d line))"
    "getSDOlineRestBytes line d = count (tr d line) - offset (tr d line)"
    "unat (count (tr d line) - offset (tr d line)) = length bs"
proof -
  let ?t = "tr d line"
  have u: "sdo_ok d" "getSDOlineOnUse c SDO_SERVER d = Some line" "offset ?t \<le> count ?t"
      "bs = drop (unat (offset ?t)) (take (unat (count ?t)) (data ?t))"
    using assms by (simp_all add: uploading_def)
  note l = getSDOlineOnUse_Some [OF u(2)]
  have ok: "transfer_ok ?t" "line_bounded ?t" using sdo_ok_line [OF u(1) l(1)] by blast+
  show len: "line < length (transfers d)" "unat (count ?t) \<le> 32" "length (data ?t) = 32"
    using l(1,5) ok by (simp_all add: line_bounded_def transfer_ok_def)
  then show bs: "length bs = unat (count ?t) - unat (offset ?t)" by (simp add: u(4))
  show "getSDOlineRestBytes line d = count ?t - offset ?t" using u(3) by (auto simp: getSDOlineRestBytes_def Let_def)
  show "unat (count ?t - offset ?t) = length bs" using u(3) bs by (simp add: unat_sub)
qed

lemma upload_segment_proceeds:
  assumes "serves cob c d" "uploading c line tg bs d"
  shows "proceedSDO (segment_request cob tg) d = upload_segment_server c (Some line) (segment_request cob tg) d"
  using assms
  by (auto simp: proceedSDO_def serves_def serve_def uploading_def segment_request_def sdo_msg_def command_specifier_def Let_def
      getSDOcs_def)

lemma uploading_Restart:
  assumes u: "uploading c line tg bs d"
  shows "uploading c line tg bs (RestartSDO_TIMER line d)"
proof -
  obtain h where "tr (RestartSDO_TIMER line d) line = (tr d line)\<lparr>timer := h\<rparr>"
    using tr_sdo_timer(3) [OF uploading_line(1) [OF u], of line] by auto
  then show ?thesis using u uploading_line(1) [OF u] by (simp add: uploading_def)
qed

lemma next_segment_uploading:
  assumes u: "uploading c line tg bs d"
  shows "next_segment line (getSDOlineRestBytes line d) d =
    (0, (if 7 < length bs then push_bit 4 tg else push_bit 4 tg OR push_bit 1 (of_nat (7 - length bs)) OR 1) # take 7 bs,
     upd_line line (\<lambda>t. t\<lparr>offset := offset (tr d line) + of_nat (min 7 (length bs))\<rparr>) d)"
proof -
  let ?t = "tr d line" and ?n = "count (tr d line) - offset (tr d line)" and ?k = "min 7 (length bs)"
  note l = uploading_line [OF u]
  have t: "ttoggle ?t = tg" "bs = drop (unat (offset ?t)) (take (unat (count ?t)) (data ?t))" "offset ?t \<le> count ?t"
    using u by (simp_all add: uploading_def)
  have le: "unat (offset ?t) \<le> unat (count ?t)" using t(3) by (simp add: word_le_nat_alt)
  have n: "?n = of_nat (length bs)" using l(6) by (metis of_nat_unat ucast_id)
  have more: "(7 < ?n) = (7 < length bs)" using l(6) by (simp add: word_less_nat_alt)
  have take': "take k (drop (unat (offset ?t)) (data ?t)) = take k bs" if "k \<le> length bs" for k
    using that l(2-4) le by (simp add: t(2) drop_take take_take min_absorb1)
  have copy: "lineToSDO line (of_nat k) d = (0, take k bs, upd_line line (\<lambda>t. t\<lparr>offset := offset ?t + of_nat k\<rparr>) d)"
    if k: "k \<le> length bs" for k
  proof -
    have "k \<le> 32" using k l(2,4) by simp
    then have uk: "unat (of_nat k :: UNS32) = k" by (simp add: unsigned_of_nat take_bit_nat_eq_self)
    have sum: "unat (offset ?t + of_nat k) = unat (offset ?t) + k"
      using k l(2,4) le uk by (simp add: unat_word_ariths)
    then have "\<not> 32 < offset ?t + of_nat k" "\<not> count ?t < offset ?t + of_nat k"
      using k l(2,4) le by (simp_all add: word_less_nat_alt)
    moreover have "unat (offset ?t) + k \<le> length (data ?t)" using k l(2-4) le by simp
    ultimately show ?thesis
      using uk take' [OF k] by (simp add: lineToSDO_def Let_def upd_line_def tr_def)
  qed
  have last': "ucast (7 - ?n) = (of_nat (7 - length bs) :: UNS8)" if "\<not> 7 < length bs"
  proof -
    have "unat (7 - ?n) = 7 - length bs" using that more l(6) by (simp add: unat_sub not_less)
    then show ?thesis by (metis of_nat_unat)
  qed
  show ?thesis
    using copy [of 7] copy [of "length bs"] more last' l(5) t(1)
    by (auto simp: next_segment_def Let_def n [symmetric] min_def)
qed

lemma upload_segment_step:
  assumes serves: "serves cob c d" and u: "uploading c line tg bs d"
  defines "d' \<equiv> snd (proceedSDO (segment_request cob tg) d)"
  shows "length bs > 7 \<Longrightarrow> uploading c line (1 - tg) (drop 7 bs) d'
      \<and> sent d' = sent d @ [sdo_msg (server_cob c d) (push_bit 4 tg # take 7 bs)]"
    "length bs \<le> 7 \<Longrightarrow> state (tr d' line) = SDO_RESET
      \<and> sent d' = sent d @ [sdo_msg (server_cob c d) ((push_bit 4 tg OR push_bit 1 (of_nat (7 - length bs)) OR 1) # bs)]"
    "sdo_frame d d'"
proof -
  let ?e = "RestartSDO_TIMER line d"
  define d2 where "d2 = upd_line line (\<lambda>t. t\<lparr>offset := offset (tr ?e line) + of_nat (min 7 (length bs))\<rparr>) ?e"
  define b0 where "b0 = (if 7 < length bs then push_bit 4 tg else push_bit 4 tg OR push_bit 1 (of_nat (7 - length bs)) OR 1 :: UNS8)"
  note ue = uploading_Restart [OF u]
  note l = uploading_line [OF ue]
  have st: "state (tr d line) = SDO_UPLOAD_IN_PROGRESS" "ttoggle (tr ?e line) = tg" "tg = 0 \<or> tg = 1"
    using u ue by (simp_all add: uploading_def)
  then have tog: "getSDOt (mdata (segment_request cob tg) ! 0) = tg"
    by (auto simp: segment_request_def sdo_msg_def getSDOt_def)
  have more: "(7 < getSDOlineRestBytes line ?e) = (7 < length bs)" using l(5,6) by (simp add: word_less_nat_alt)
  have res: "d' = (if 7 < length bs then snd (reply SDO_SERVER c (b0 # take 7 bs) (flip_toggle line d2))
      else resetSDOline line (snd (reply SDO_SERVER c (b0 # take 7 bs) d2)))"
    unfolding d'_def upload_segment_proceeds [OF serves u] upload_segment_server_def on_line_def option.case Let_def
      on_toggle_def tog st(1,2) next_segment_uploading [OF ue] more b0_def d2_def by simp
  have fr2: "sdo_frame d d2" unfolding d2_def by (rule sdo_frame_trans [OF sdo_frame_line(1) sdo_frame_upd_line])
  have frf: "sdo_frame d (flip_toggle line d2)" by (rule sdo_frame_trans [OF fr2 sdo_frame_more(1)])
  have sent2: "sent (snd (reply SDO_SERVER c (b0 # take 7 bs) d2)) = sent d @ [sdo_msg (server_cob c d) (b0 # take 7 bs)]"
    using sent_reply [of cob c d2 "b0 # take 7 bs"] serves serves_frame [OF fr2] by (simp add: d2_def)
  have sentf: "sent (snd (reply SDO_SERVER c (b0 # take 7 bs) (flip_toggle line d2))) = sent d @ [sdo_msg (server_cob c d) (b0 # take 7 bs)]"
    using sent_reply [of cob c "flip_toggle line d2" "b0 # take 7 bs"] serves serves_frame [OF frf] by (simp add: d2_def)
  show "sdo_frame d d'"
    unfolding res by (auto intro: sdo_frame_trans [OF frf sdo_frame_more(2)] sdo_frame_trans [OF sdo_frame_trans [OF fr2 sdo_frame_more(2)] sdo_frame_line(3)])
  show "state (tr d' line) = SDO_RESET
      \<and> sent d' = sent d @ [sdo_msg (server_cob c d) ((push_bit 4 tg OR push_bit 1 (of_nat (7 - length bs)) OR 1) # bs)]"
    if "length bs \<le> 7"
  proof -
    have "\<exists>h. tr (resetSDOline line (snd (reply SDO_SERVER c (b0 # take 7 bs) d2))) line
        = (opened_line 0 0 0 SDO_RESET ((tr d2 line)\<lparr>timer := h\<rparr>))\<lparr>data := replicate 32 0, whoami := 0, abortCode := 0\<rparr>"
      using tr_resetSDOline [of line "snd (reply SDO_SERVER c (b0 # take 7 bs) d2)" line] l(1) by (simp add: d2_def)
    then show ?thesis using that sent2 unfolding res by (auto simp: b0_def opened_line_def)
  qed
  show "uploading c line (1 - tg) (drop 7 bs) d' \<and> sent d' = sent d @ [sdo_msg (server_cob c d) (push_bit 4 tg # take 7 bs)]"
    if len: "7 < length bs"
  proof -
    let ?t = "tr ?e line"
    have tr: "tr d' line = ?t\<lparr>offset := offset ?t + 7, ttoggle := (if tg = 0 then 1 else 0)\<rparr>"
      using len l(1) st(2) unfolding res d2_def flip_toggle_def by (simp add: tr_upd_line)
    have "unat (offset ?t + 7) = unat (offset ?t) + 7" using len l(2,4) by (simp add: unat_word_ariths)
    moreover have "sdo_ok d'" unfolding d'_def using u by (intro proceedSDO_ok) (simp_all add: uploading_def segment_request_def sdo_msg_def)
    moreover have "getSDOlineOnUse c SDO_SERVER d' = getSDOlineOnUse c SDO_SERVER ?e"
    proof (rule getSDOlineOnUse_cong)
      have *: "tr d' k = (if k = line then tr d' line else tr ?e k)" for k
        using len l(1) unfolding res d2_def flip_toggle_def by (simp add: tr_upd_line)
      show "state (tr d' k) = state (tr ?e k) \<and> CliServNbr (tr d' k) = CliServNbr (tr ?e k) \<and> whoami (tr d' k) = whoami (tr ?e k)" for k
        using * [of k] tr by (cases "k = line") simp_all
    qed (simp add: res len d2_def flip_toggle_def)
    ultimately have "uploading c line (1 - tg) (drop 7 bs) d'"
      using ue len l(2-4) st(3) by (auto simp: uploading_def tr word_le_nat_alt add.commute)
    then show ?thesis using len sentf unfolding res by (simp add: b0_def)
  qed
qed

lemma getSDOindex_bytes [simp]: "getSDOindex (ucast (i AND 0xFF)) (ucast (drop_bit 8 i AND 0xFF)) = i"
proof (rule bit_eqI)
  fix n assume n: "possible_bit TYPE(16 word) n"
  have m: "(0xFF :: UNS16) = mask 8" by (simp add: mask_eq_exp_minus_1)
  from n show "bit (getSDOindex (ucast (i AND 0xFF)) (ucast (drop_bit 8 i AND 0xFF))) n = bit i n"
    unfolding getSDOindex_def m by (auto simp: bit_simps)
qed

lemma getSDOlineOnUse_opened:
  assumes none: "getSDOlineOnUse c w d = None" and line: "line < length (transfers d)" and len: "length (transfers e) = length (transfers d)"
    and others: "\<And>k. k \<noteq> line \<Longrightarrow> tr e k = tr d k"
    and t: "state (tr e line) \<noteq> SDO_RESET" "state (tr e line) \<noteq> SDO_ABORTED_INTERNAL" "CliServNbr (tr e line) = c" "whoami (tr e line) = w"
  shows "getSDOlineOnUse c w e = Some line"
proof -
  let ?P = "\<lambda>t. state t \<noteq> SDO_RESET \<and> state t \<noteq> SDO_ABORTED_INTERNAL \<and> CliServNbr t = c \<and> whoami t = w"
  have "\<not> ?P (transfers d ! k)" if "k < length (transfers d)" for k
    using none that nth_mem [OF that] by (auto simp: getSDOlineOnUse_def Let_def find_pos_none split: if_splits)
  then have "find_pos ?P (transfers e) = line"
    using line len t others by (intro find_pos_first) (auto simp: tr_def)
  then show ?thesis using line len by (simp add: getSDOlineOnUse_def)
qed

text \<open>A server line freshly opened for a transfer.\<close>

definition opened :: "UNS8 \<Rightarrow> UNS16 \<Rightarrow> UNS8 \<Rightarrow> UNS8 \<Rightarrow> nat \<Rightarrow> CO_Data \<Rightarrow> CO_Data \<Rightarrow> bool" where
  "opened c i s st line d e \<longleftrightarrow> sdo_ok e \<and> sdo_frame d e \<and> sent e = sent d \<and> line < length (transfers d)
     \<and> (\<forall>k. k \<noteq> line \<longrightarrow> tr e k = tr d k)
     \<and> (\<exists>h. tr e line = opened_line c i s st ((tr d line)\<lparr>whoami := SDO_SERVER, timer := h\<rparr>))"

lemma open_server_opens:
  assumes ok: "sdo_ok d" and free: "fst (getSDOfreeLine SDO_SERVER d) = Some line"
  shows "\<exists>e. opened c i s st line d e \<and> open_server c None i s st k d = k line e"
proof -
  obtain d0 where d0: "getSDOfreeLine SDO_SERVER d = (Some line, d0)" using free by (metis prod.collapse)
  note f = getSDOfreeLine_Some [OF d0]
  have l0: "line < length (transfers d0)" using f by simp
  let ?e = "initSDOline line c i s st d0"
  have tr0: "tr d0 k = (if k = line then (tr d line)\<lparr>whoami := SDO_SERVER\<rparr> else tr d k)" for k
    using f by (simp add: tr_upd_line)
  have "sdo_frame d ?e" using sdo_frame_trans [OF sdo_frame_upd_line sdo_frame_line(2)] f(3) by blast
  moreover have "sdo_ok ?e" using sdo_ok_copies(3) [OF ok, of SDO_SERVER] d0 by simp
  moreover have "tr ?e k = tr d k" if "k \<noteq> line" for k using tr_initSDOline [OF l0, of c i s st k] tr0 that by simp
  moreover have "\<exists>h. tr ?e line = opened_line c i s st ((tr d line)\<lparr>whoami := SDO_SERVER, timer := h\<rparr>)"
    using tr_initSDOline [OF l0, of c i s st line] tr0 [of line] by simp
  moreover have "sent ?e = sent d" using f(3) by simp
  ultimately have "opened c i s st line d ?e" using f(1) by (simp add: opened_def)
  moreover have "open_server c None i s st k d = k line ?e" by (simp add: open_server_def d0)
  ultimately show ?thesis by blast
qed

definition upload_request :: "UNS16 \<Rightarrow> UNS16 \<Rightarrow> UNS8 \<Rightarrow> Message" where
  "upload_request cob i s = sdo_msg cob ([0x40] @ index_bytes i @ [s])"

lemma objdictToSDOline_reads:
  assumes o: "opened c i s st line d e" and obj: "od_obj d (i, s) = Some sub" "bDataType sub \<noteq> visible_string"
    "bAccessType sub AND WO = 0" "ssize sub \<le> 32"
  obtains e' where "objdictToSDOline line e = (0, e')" "sdo_ok e'" "sdo_frame d e'" "sent e' = sent d"
    "\<forall>k. k \<noteq> line \<longrightarrow> tr e' k = tr d k"
    "\<exists>h. tr e' line = (opened_line c i s st ((tr d line)\<lparr>whoami := SDO_SERVER, timer := h\<rparr>))
       \<lparr>data := put_list (data (tr d line)) 0 (rd_bytes (mem d) (pObject sub) (unat (ssize sub))), count := ssize sub, offset := 0\<rparr>"
proof -
  obtain h where fr: "sdo_frame d e" and ok: "sdo_ok e" and line: "line < length (transfers e)"
    and t: "tr e line = opened_line c i s st ((tr d line)\<lparr>whoami := SDO_SERVER, timer := h\<rparr>)"
    using o by (auto simp: opened_def sdo_frame_def)
  let ?bs = "rd_bytes (mem d) (pObject sub) (unat (ssize sub))"
  have cm: "cfg e = cfg d" "mem e = mem d" using fr by (simp_all add: sdo_frame_def)
  have len: "length (data (tr e line)) = 32" using sdo_ok_line [OF ok line] by (simp add: transfer_ok_def)
  have e: "od_obj e (i, s) = Some sub" using obj(1) od_obj_cong [OF cm(1)] by simp
  have "getODentry i s (Some (data (tr e line))) 32 0 True e =
      (\<lparr>rcode = OD_SUCCESSFUL, rsize = ssize sub, rtype = bDataType sub, rdest = put_list (data (tr e line)) 0 ?bs\<rparr>, e)"
    using getODentry_ok [OF e obj(2,4)] obj(3) len cm(2) by simp
  then have res: "objdictToSDOline line e = (0, upd_line line (\<lambda>t. t\<lparr>count := ssize sub, offset := 0\<rparr>)
      (upd_line line (\<lambda>u. u\<lparr>data := put_list (data (tr e line)) 0 ?bs\<rparr>) e))"
    using t by (simp add: objdictToSDOline_def Let_def opened_line_def)
  show thesis
  proof (rule that [OF res])
    show "sdo_ok (upd_line line (\<lambda>t. t\<lparr>count := ssize sub, offset := 0\<rparr>) (upd_line line (\<lambda>u. u\<lparr>data := put_list (data (tr e line)) 0 ?bs\<rparr>) e))"
      using sdo_ok_objdict(2) [OF ok, of line] unfolding res by simp
  qed (use o t line sdo_frame_trans [OF fr sdo_frame_trans [OF sdo_frame_upd_line sdo_frame_upd_line]] in
      \<open>auto simp: opened_def tr_upd_line opened_line_def\<close>)
qed

lemma upload_request_proceeds:
  assumes "serves cob c d" "getSDOlineOnUse c SDO_SERVER d = None"
  shows "proceedSDO (upload_request cob i s) d = initiate_upload_server c None (upload_request cob i s) d"
  using assms by (simp add: proceedSDO_def serves_def serve_def upload_request_def sdo_msg_def command_specifier_def Let_def getSDOcs_def)

lemma upload_request_fields:
  "getSDOindex (mdata (upload_request cob i s) ! 1) (mdata (upload_request cob i s) ! 2) = i" "mdata (upload_request cob i s) ! 3 = s"
  by (simp_all add: upload_request_def sdo_msg_def index_bytes_def)

lemma upload_starts:
  assumes ok: "sdo_ok d" and serves: "serves cob c d" and idle: "getSDOlineOnUse c SDO_SERVER d = None"
    and free: "fst (getSDOfreeLine SDO_SERVER d) = Some line"
    and obj: "od_obj d (i, s) = Some sub" "bDataType sub \<noteq> visible_string" "bAccessType sub AND WO = 0" "ssize sub \<le> 32"
  defines "bs \<equiv> rd_bytes (mem d) (pObject sub) (unat (ssize sub))"
  obtains e where "uploading c line 0 bs e" "count (tr e line) = ssize sub" "sdo_frame d e" "sent e = sent d"
    "proceedSDO (upload_request cob i s) d =
      (if ssize sub > 4 then reply SDO_SERVER c ([0x41] @ index_bytes i @ [s] @ bytes32 (ssize sub)) e
       else (0, resetSDOline line (snd (reply SDO_SERVER c ([0x40 OR push_bit 2 (ucast (4 - ssize sub)) OR 3] @ index_bytes i @ [s] @ bs)
              (snd (snd (lineToSDO line (ssize sub) e)))))))"
proof -
  let ?m = "upload_request cob i s"
  let ?k = "\<lambda>line d1. let (errorCode, d2) = objdictToSDOline line d1
           in if errorCode \<noteq> 0 then sdo_fail c SDO_SERVER i s errorCode d2
              else let nbBytes = getSDOlineRestBytes line d2
                   in if nbBytes > 4 then reply SDO_SERVER c ([0x41] @ index_bytes i @ [s] @ bytes32 nbBytes) d2
                      else let (err, bs, d3) = lineToSDO line nbBytes d2
                           in if err \<noteq> 0 then sdo_fail c SDO_SERVER i s SDOABT_GENERAL_ERROR d3
                              else (0, resetSDOline line (snd (reply SDO_SERVER c
                                     ([0x40 OR push_bit 2 (ucast (4 - nbBytes)) OR 3] @ index_bytes i @ [s] @ bs) d3)))"
  obtain e0 where o: "opened c i s SDO_UPLOAD_IN_PROGRESS line d e0"
    and p: "open_server c None i s SDO_UPLOAD_IN_PROGRESS ?k d = ?k line e0"
    using open_server_opens [OF ok free] by blast
  obtain e where e: "objdictToSDOline line e0 = (0, e)" "sdo_ok e" "sdo_frame d e" "sent e = sent d"
    and others: "\<forall>k. k \<noteq> line \<longrightarrow> tr e k = tr d k"
    and t: "\<exists>h. tr e line = (opened_line c i s SDO_UPLOAD_IN_PROGRESS ((tr d line)\<lparr>whoami := SDO_SERVER, timer := h\<rparr>))
       \<lparr>data := put_list (data (tr d line)) 0 bs, count := ssize sub, offset := 0\<rparr>"
    using objdictToSDOline_reads [OF o obj] unfolding bs_def by metis
  have line: "line < length (transfers d)" using o by (simp add: opened_def)
  have len: "length (data (tr d line)) = 32" using sdo_ok_line [OF ok line] by (simp add: transfer_ok_def)
  have lbs: "length bs = unat (ssize sub)" "unat (ssize sub) \<le> 32" using obj(4) by (simp_all add: bs_def word_le_nat_alt)
  have le: "length (transfers e) = length (transfers d)" using e(3) by (simp add: sdo_frame_def)
  have "getSDOlineOnUse c SDO_SERVER e = Some line"
    by (rule getSDOlineOnUse_opened [OF idle line le]) (use others t in \<open>auto simp: opened_line_def\<close>)
  moreover have "take (unat (ssize sub)) (put_list (data (tr d line)) 0 bs) = bs"
    using lbs len by (subst put_list_eq) simp_all
  ultimately have u: "uploading c line 0 bs e" using t e(2) by (auto simp: uploading_def opened_line_def)
  have n: "getSDOlineRestBytes line e = ssize sub" "count (tr e line) = ssize sub" "offset (tr e line) = 0"
    using uploading_line(5) [OF u] t by (auto simp: opened_line_def)
  have copy: "fst (lineToSDO line (ssize sub) e) = 0" "fst (snd (lineToSDO line (ssize sub) e)) = bs"
    using n u lbs obj(4) by (auto simp: lineToSDO_def Let_def uploading_def)
  have res: "proceedSDO ?m d = ?k line e0"
    unfolding upload_request_proceeds [OF serves idle] initiate_upload_server_def upload_request_fields Let_def
    using p [unfolded Let_def] by simp
  show thesis
    by (rule that [OF u n(2) e(3,4)]) (use res copy in \<open>simp add: e(1) n(1) Let_def split_beta\<close>)
qed

text \<open>The client's side of a segmented upload: ask for \<open>n\<close> segments with alternating toggle, and take the data out of the answers.\<close>

fun request_segments :: "nat \<Rightarrow> UNS16 \<Rightarrow> UNS8 \<Rightarrow> CO_Data \<Rightarrow> CO_Data" where
  "request_segments 0 cob tg d = d"
| "request_segments (Suc n) cob tg d = request_segments n cob (1 - tg) (snd (proceedSDO (segment_request cob tg) d))"

definition seg_payload :: "Message \<Rightarrow> UNS8 list" where
  "seg_payload m = take (7 - unat (getSDOn3 (mdata m ! 0))) (drop 1 (mdata m))"

definition exp_payload :: "Message \<Rightarrow> UNS8 list" where
  "exp_payload m = take (4 - unat (getSDOn2 (mdata m ! 0))) (drop 4 (mdata m))"

lemma nat_le_7: "k \<le> 7 \<Longrightarrow> k \<in> {0, 1, 2, 3, 4, 5, 6, 7 :: nat}"
  by auto

lemma seg_payload_sdo_msg:
  assumes "tg = 0 \<or> tg = 1"
  shows "length bs = 7 \<Longrightarrow> seg_payload (sdo_msg cob (push_bit 4 tg # bs)) = bs"
    "length bs \<le> 7 \<Longrightarrow> seg_payload (sdo_msg cob ((push_bit 4 tg OR push_bit 1 (of_nat (7 - length bs)) OR 1) # bs)) = bs"
proof -
  show "seg_payload (sdo_msg cob (push_bit 4 tg # bs)) = bs" if "length bs = 7"
    using assms that by (auto simp: seg_payload_def sdo_msg_def getSDOn3_def)
  show "seg_payload (sdo_msg cob ((push_bit 4 tg OR push_bit 1 (of_nat (7 - length bs)) OR 1) # bs)) = bs" if "length bs \<le> 7"
  proof -
    have "unat (getSDOn3 (push_bit 4 tg OR push_bit 1 (of_nat k) OR 1)) = k" if "k \<le> 7" for k
      using nat_le_7 [OF that] assms by (auto simp: getSDOn3_def)
    from this [of "7 - length bs"] show ?thesis using that by (simp add: seg_payload_def sdo_msg_def del: of_nat_diff)
  qed
qed

lemma exp_payload_sdo_msg:
  assumes "length bs = unat n" "0 < n" "n \<le> (4 :: UNS32)"
  shows "exp_payload (sdo_msg cob ([0x40 OR push_bit 2 (ucast (4 - n)) OR 3] @ index_bytes i @ [s] @ bs)) = bs"
proof -
  have "unat n \<in> {1, 2, 3, 4}" using assms(2,3) by (auto simp: word_less_nat_alt word_le_nat_alt)
  then have "n = of_nat 1 \<or> n = of_nat 2 \<or> n = of_nat 3 \<or> n = of_nat 4" by (auto simp: word_unat_eq_iff)
  then show ?thesis using assms(1) by (auto simp: exp_payload_def sdo_msg_def index_bytes_def getSDOn2_def)
qed

lemma segments_delivered:
  assumes "serves cob c d" "uploading c line tg bs d"
  shows "\<exists>ms. sent (request_segments (Suc ((length bs - 1) div 7)) cob tg d) = sent d @ ms \<and> concat (map seg_payload ms) = bs
    \<and> state (tr (request_segments (Suc ((length bs - 1) div 7)) cob tg d) line) = SDO_RESET
    \<and> sdo_frame d (request_segments (Suc ((length bs - 1) div 7)) cob tg d)"
  using assms
proof (induction "length bs" arbitrary: bs tg d rule: less_induct)
  case less
  let ?d1 = "snd (proceedSDO (segment_request cob tg) d)"
  note step = upload_segment_step [OF less.prems]
  have tg: "tg = 0 \<or> tg = 1" using less.prems(2) by (simp add: uploading_def)
  show ?case
  proof (cases "length bs \<le> 7")
    case True
    then have "(length bs - 1) div 7 = 0" by simp
    then show ?thesis using step(2) [OF True] step(3) seg_payload_sdo_msg(2) [OF tg True] by simp
  next
    case False
    then have n: "(length bs - 1) div 7 = Suc ((length (drop 7 bs) - 1) div 7)" by (simp add: div_if)
    have s1: "uploading c line (1 - tg) (drop 7 bs) ?d1" "sent ?d1 = sent d @ [sdo_msg (server_cob c d) (push_bit 4 tg # take 7 bs)]"
      using step(1) False by simp_all
    have "serves cob c ?d1" using serves_frame(1) [OF step(3)] less.prems(1) by simp
    moreover have "length (drop 7 bs) < length bs" using False by simp
    ultimately obtain ms where
      "sent (request_segments (Suc ((length (drop 7 bs) - 1) div 7)) cob (1 - tg) ?d1) = sent ?d1 @ ms"
      "concat (map seg_payload ms) = drop 7 bs"
      "state (tr (request_segments (Suc ((length (drop 7 bs) - 1) div 7)) cob (1 - tg) ?d1) line) = SDO_RESET"
      "sdo_frame ?d1 (request_segments (Suc ((length (drop 7 bs) - 1) div 7)) cob (1 - tg) ?d1)"
      using less.hyps [OF _ _ s1(1)] by blast
    then show ?thesis
      unfolding n request_segments.simps(2) [of "Suc _"]
      using s1(2) seg_payload_sdo_msg(1) [OF tg, of "take 7 bs"] False step(3) sdo_frame_trans
      by (intro exI [of _ "sdo_msg (server_cob c d) (push_bit 4 tg # take 7 bs) # ms"]) (auto simp del: request_segments.simps)
  qed
qed

text \<open>C3: a client that follows the protocol reads the object. A server that has a free line
  answers the request for an object of one to four bytes with one expedited frame, and for a
  longer object (up to the 32 bytes of a line) with its size and, on one request for
  every seven bytes with alternating toggle, the segments; the data taken out of the answers are
  exactly the bytes of the object, the dictionary is unchanged and the line is free again.\<close>

theorem sdo_upload_delivers_object:
  assumes ok: "sdo_ok d" and serves: "serves cob c d" and idle: "getSDOlineOnUse c SDO_SERVER d = None"
    and free: "fst (getSDOfreeLine SDO_SERVER d) = Some line"
    and obj: "od_obj d (i, s) = Some sub" "bDataType sub \<noteq> visible_string" "bAccessType sub AND WO = 0" "ssize sub \<le> 32" "0 < ssize sub"
  defines "d1 \<equiv> snd (proceedSDO (upload_request cob i s) d)"
  defines "d' \<equiv> (if ssize sub \<le> 4 then d1 else request_segments (Suc ((unat (ssize sub) - 1) div 7)) cob 0 d1)"
  shows "\<exists>m ms. sent d' = sent d @ m # ms \<and> cob_id m = server_cob c d
    \<and> od_view d (i, s) = Some (if ssize sub \<le> 4 then exp_payload m else concat (map seg_payload ms))
    \<and> od_view d' = od_view d \<and> state (tr d' line) = SDO_RESET"
proof -
  define bs where "bs = rd_bytes (mem d) (pObject sub) (unat (ssize sub))"
  have view: "od_view d (i, s) = Some bs" using obj(1) by (simp add: od_view_def bs_def)
  obtain e where e: "uploading c line 0 bs e" "count (tr e line) = ssize sub" "sdo_frame d e" "sent e = sent d"
    "proceedSDO (upload_request cob i s) d =
      (if ssize sub > 4 then reply SDO_SERVER c ([0x41] @ index_bytes i @ [s] @ bytes32 (ssize sub)) e
       else (0, resetSDOline line (snd (reply SDO_SERVER c ([0x40 OR push_bit 2 (ucast (4 - ssize sub)) OR 3] @ index_bytes i @ [s] @ bs)
              (snd (snd (lineToSDO line (ssize sub) e)))))))"
    using upload_starts [OF ok serves idle free obj(1-4)] unfolding bs_def by blast
  note l = uploading_line [OF e(1)]
  have same: "od_view x = od_view d" if "sdo_frame d x" for x
    using that by (intro od_view_cong) (simp_all add: sdo_frame_def)
  show ?thesis
  proof (cases "ssize sub \<le> 4")
    case True
    let ?bytes = "[0x40 OR push_bit 2 (ucast (4 - ssize sub)) OR 3] @ index_bytes i @ [s] @ bs"
    let ?e2 = "snd (snd (lineToSDO line (ssize sub) e))"
    have d1: "d1 = resetSDOline line (snd (reply SDO_SERVER c ?bytes ?e2))" using True e(5) by (simp add: d1_def)
    have fr: "sdo_frame d ?e2" using sdo_frame_trans [OF e(3) sdo_frame_copies(1)] .
    have bl: "length bs = unat (ssize sub)" "length bs \<le> 4" using True by (simp_all add: bs_def word_le_nat_alt)
    have "sent d1 = sent d @ [sdo_msg (server_cob c d) ?bytes]"
      unfolding d1 using sent_reply [of cob c ?e2 ?bytes] serves serves_frame [OF fr] bl e(4) by (simp add: index_bytes_def)
    moreover have "exp_payload (sdo_msg (server_cob c d) ?bytes) = bs" using bl obj(5) True by (intro exp_payload_sdo_msg) simp_all
    moreover have "sdo_frame d d1" unfolding d1 using fr sdo_frame_trans sdo_frame_more(2) sdo_frame_line(3) by blast
    moreover have "state (tr d1 line) = SDO_RESET"
      using tr_resetSDOline [of line "snd (reply SDO_SERVER c ?bytes ?e2)" line] l(1)
        sdo_frame_copies(1) [of e line "ssize sub"] unfolding d1 by (auto simp: opened_line_def sdo_frame_def)
    ultimately show ?thesis using True view same [of d1] by (simp add: d'_def sdo_msg_def)
  next
    case False
    have d1: "d1 = snd (reply SDO_SERVER c ([0x41] @ index_bytes i @ [s] @ bytes32 (ssize sub)) e)"
      using False e(5) by (simp add: d1_def not_le)
    have u: "uploading c line 0 bs d1"
      using e(1) reply_ok [of e] by (simp add: d1 uploading_def getSDOlineOnUse_def)
    have fr: "sdo_frame d d1" unfolding d1 by (rule sdo_frame_trans [OF e(3) sdo_frame_more(2)])
    have n: "unat (ssize sub) = length bs" by (simp add: bs_def)
    have d': "d' = request_segments (Suc ((length bs - 1) div 7)) cob 0 d1" using False by (simp add: d'_def n)
    have "serves cob c d1" using serves serves_frame(1) [OF fr] by simp
    from segments_delivered [OF this u] obtain ms where ms: "sent d' = sent d1 @ ms" "concat (map seg_payload ms) = bs"
      "state (tr d' line) = SDO_RESET" "sdo_frame d1 d'"
      unfolding d' by blast
    have "sent d1 = sent d @ [sdo_msg (server_cob c d) ([0x41] @ index_bytes i @ [s] @ bytes32 (ssize sub))]"
      unfolding d1 using sent_reply [of cob c e] serves serves_frame [OF e(3)] e(4) by (simp add: index_bytes_def)
    then show ?thesis using False view ms same [of d'] sdo_frame_trans [OF fr ms(4)] by (simp add: sdo_msg_def)
  qed
qed

section \<open>Writing an object\<close>

lemma SDOtoLine_opened:
  assumes o: "opened c i s st line d e" and n: "unat n \<le> 32" "unat n \<le> length bytes"
  obtains e' where "SDOtoLine line n bytes (upd_line line (\<lambda>t. t\<lparr>count := n\<rparr>) e) = (0, e')" "sdo_ok e'" "sdo_frame d e'" "sent e' = sent d"
    "\<forall>k. k \<noteq> line \<longrightarrow> tr e' k = tr d k"
    "\<exists>h. tr e' line = (opened_line c i s st ((tr d line)\<lparr>whoami := SDO_SERVER, timer := h\<rparr>))
       \<lparr>data := put_list (data (tr d line)) 0 (take (unat n) bytes), count := n, offset := n\<rparr>"
proof -
  obtain h where fr: "sdo_frame d e" and ok: "sdo_ok e" and line: "line < length (transfers e)"
    and t: "tr e line = opened_line c i s st ((tr d line)\<lparr>whoami := SDO_SERVER, timer := h\<rparr>)"
    using o by (auto simp: opened_def sdo_frame_def)
  have len: "length (data (tr d line)) = 32" using sdo_ok_line [OF ok line] t by (simp add: transfer_ok_def opened_line_def)
  let ?e1 = "upd_line line (\<lambda>t. t\<lparr>count := n\<rparr>) e"
  have ok1: "sdo_ok ?e1" by (rule sdo_ok_upd_line [OF ok]) (use n in \<open>simp add: line_bounded_def\<close>)
  have t1: "tr ?e1 line = (tr e line)\<lparr>count := n\<rparr>" using line by (simp add: tr_upd_line)
  have "\<not> 32 < n" using n(1) by (simp add: word_less_nat_alt)
  then have res: "SDOtoLine line n bytes ?e1 = (0, upd_line line (\<lambda>u. u\<lparr>data := put_list (data u) (unat (offset u)) (take (unat n) bytes),
      offset := offset u + n\<rparr>) ?e1)"
    using t1 t len n line by (simp add: SDOtoLine_def Let_def opened_line_def upd_line_def tr_def chk_def)
  let ?e2 = "upd_line line (\<lambda>u. u\<lparr>data := put_list (data u) (unat (offset u)) (take (unat n) bytes), offset := offset u + n\<rparr>) ?e1"
  have t2: "tr ?e2 k = (if k = line then (tr ?e1 line)\<lparr>data := put_list (data (tr ?e1 line)) (unat (offset (tr ?e1 line))) (take (unat n) bytes),
      offset := offset (tr ?e1 line) + n\<rparr> else tr e k)" for k
    using line by (simp add: tr_upd_line)
  show thesis
  proof (rule that [OF res])
    show "sdo_ok ?e2" using sdo_ok_copies(2) [OF ok1, of line n bytes] unfolding res by simp
    show "sdo_frame d ?e2" using sdo_frame_trans [OF fr sdo_frame_trans [OF sdo_frame_upd_line sdo_frame_upd_line]] .
    show "sent ?e2 = sent d" "\<forall>k. k \<noteq> line \<longrightarrow> tr ?e2 k = tr d k" using o unfolding t2 by (simp_all add: opened_def)
    show "\<exists>h. tr ?e2 line = (opened_line c i s st ((tr d line)\<lparr>whoami := SDO_SERVER, timer := h\<rparr>))
       \<lparr>data := put_list (data (tr d line)) 0 (take (unat n) bytes), count := n, offset := n\<rparr>"
      unfolding t2 t1 t by (intro exI [of _ h]) (simp add: opened_line_def)
  qed
qed

text \<open>The frame that starts an expedited download of \<open>n\<close> bytes, as \<open>_writeNetworkDict\<close> builds it.\<close>

definition expedited_download :: "UNS16 \<Rightarrow> UNS16 \<Rightarrow> UNS8 \<Rightarrow> UNS32 \<Rightarrow> UNS8 list \<Rightarrow> Message" where
  "expedited_download cob i s n bytes = sdo_msg cob (download_request i s n bytes False)"

lemma expedited_fields:
  fixes cob i :: UNS16 and s :: UNS8
  assumes n: "0 < n" "n \<le> 4" and b: "4 \<le> length bytes"
  defines "m \<equiv> expedited_download cob i s n bytes"
  shows "getSDOcs (mdata m ! 0) = 1" "getSDOe (mdata m ! 0) \<noteq> 0" "4 - ucast (getSDOn2 (mdata m ! 0)) = n"
    "getSDOindex (mdata m ! 1) (mdata m ! 2) = i" "mdata m ! 3 = s" "drop 4 (mdata m) = take 4 bytes" "mlen m = 8" "cob_id m = cob"
proof -
  have m: "mdata m = [0x20 OR push_bit 2 (ucast (4 - n)) OR 3] @ index_bytes i @ [s] @ take 4 bytes" "mlen m = 8" "cob_id m = cob"
    using n(2) b by (simp_all add: m_def expedited_download_def sdo_msg_def download_request_def index_bytes_def)
  have "unat n \<in> {1, 2, 3, 4}" using n by (auto simp: word_less_nat_alt word_le_nat_alt)
  then have "n = 1 \<or> n = 2 \<or> n = 3 \<or> n = 4" by (auto simp: word_unat_eq_iff)
  then show "getSDOcs (mdata m ! 0) = 1" "getSDOe (mdata m ! 0) \<noteq> 0" "4 - ucast (getSDOn2 (mdata m ! 0)) = n"
    by (auto simp: m getSDOcs_def getSDOe_def getSDOn2_def)
  show "getSDOindex (mdata m ! 1) (mdata m ! 2) = i" "mdata m ! 3 = s" "drop 4 (mdata m) = take 4 bytes" "mlen m = 8" "cob_id m = cob"
    using m b by (simp_all add: index_bytes_def)
qed

lemma od_accepts_cong: "cfg e = cfg d \<Longrightarrow> od_accepts e sub src n ca = od_accepts d sub src n ca"
  by (simp add: od_accepts_def)

lemma od_hook_cong: "cfg e = cfg d \<Longrightarrow> callbacks e = callbacks d \<Longrightarrow> od_hook e k = od_hook d k"
  by (simp only: od_hook_def scanIndexOD_def)

lemma setODentry_code_cong:
  assumes "cfg e = cfg d" "od_obj d (w, s) = None \<or> (\<exists>sub. od_obj d (w, s) = Some sub \<and> \<not> od_accepts d sub src n ca)"
  shows "fst (setODentry w s src n ca e) = fst (setODentry w s src n ca d)"
proof -
  have eq: "scanIndexOD e w = scanIndexOD d w" "od_entry e i = od_entry d i" "od_sub e i j = od_sub d i j" for i j
    using scanIndexOD_cong od_entry_cong od_sub_cong assms(1) by blast+
  show ?thesis
  proof (cases "scanIndexOD d w")
    case (Some a)
    obtain i b where a: "a = (i, b)" by (cases a)
    have "\<not> od_accepts d (od_sub d i (unat s)) src n ca" if "\<not> bSubCount (od_entry d i) \<le> s"
      using assms(2) Some a that by (simp add: od_obj_def not_le)
    then show ?thesis
      unfolding setODentry_def setODentry_with_def eq Some a assms(1) od_accepts_def by (auto simp: Let_def)
  qed (simp add: setODentry_def setODentry_with_def eq)
qed

text \<open>The dictionary write at the end of a download, on a server line that holds \<open>src\<close>.\<close>

lemma SDOlineToObjdict_writes:
  assumes ok: "sdo_ok e" "od_disjoint e" and line: "line < length (transfers e)"
    and t: "index (tr e line) = i" "subIndex (tr e line) = s" "data (tr e line) = src" "count (tr e line) = n" "n \<noteq> 0"
    and hook: "od_hook e (i, s) \<noteq> Some OnNumberOfErrorsUpdate_cb" and len: "unat n \<le> length src"
  shows "\<And>sub. od_obj e (i, s) = Some sub \<Longrightarrow> n = ssize sub \<Longrightarrow> od_accepts e sub src n True \<Longrightarrow>
      \<exists>e'. SDOlineToObjdict line e = (OD_SUCCESSFUL, e') \<and> od_view e' = (od_view e)((i, s) \<mapsto> take (unat n) src) \<and> service_frame e e' \<and> sdo_ok e'"
    "od_obj e (i, s) = None \<or> (\<exists>sub. od_obj e (i, s) = Some sub \<and> \<not> od_accepts e sub src n True) \<Longrightarrow>
      SDOlineToObjdict line e = (fst (setODentry i s src n True e), e) \<and> fst (setODentry i s src n True e) \<noteq> OD_SUCCESSFUL"
proof -
  have res: "SDOlineToObjdict line e = (fst (setODentry i s src n True e), snd (snd (setODentry i s src n True e)))"
    using t by (simp add: SDOlineToObjdict_def Let_def split_beta)
  show "\<exists>e'. SDOlineToObjdict line e = (OD_SUCCESSFUL, e') \<and> od_view e' = (od_view e)((i, s) \<mapsto> take (unat n) src) \<and> service_frame e e' \<and> sdo_ok e'"
    if obj: "od_obj e (i, s) = Some sub" and n: "n = ssize sub" and acc: "od_accepts e sub src n True" for sub
  proof (intro exI conjI)
    have acc': "od_accepts e sub src (ssize sub) True" using acc n by simp
    have od: "od_ok e" using sdo_ok_node [OF ok(1)] by (simp add: node_ok_def)
    show "SDOlineToObjdict line e = (OD_SUCCESSFUL, snd (snd (setODentry i s src n True e)))"
      unfolding res using setODentry_accepted [OF obj acc] by simp
    show "od_view (snd (snd (setODentry i s src n True e))) = (od_view e)((i, s) \<mapsto> take (unat n) src)"
      unfolding n by (rule setODentry_view [OF od ok(2) obj _ hook acc']) (use len n in simp)
    show "sdo_ok (snd (snd (setODentry i s src n True e)))" using sdo_ok_objdict(1) [OF ok(1), of line] unfolding res by simp
  qed simp
  show "SDOlineToObjdict line e = (fst (setODentry i s src n True e), e) \<and> fst (setODentry i s src n True e) \<noteq> OD_SUCCESSFUL"
    if "od_obj e (i, s) = None \<or> (\<exists>sub. od_obj e (i, s) = Some sub \<and> \<not> od_accepts e sub src n True)"
    unfolding res using setODentry_refused [OF that] by simp
qed

lemma sent_failed_server:
  assumes serves: "serves cob c d" "cfg e = cfg d" "nodeState e = nodeState d" and line: "getSDOlineOnUse c SDO_SERVER e = Some line"
  shows "sent (snd (sdo_fail c SDO_SERVER i s a e)) = sent e @ [sdo_msg (server_cob c e) ([0x80] @ index_bytes i @ [s] @ bytes32 a)]"
    "state (tr (snd (sdo_fail c SDO_SERVER i s a e)) line) = SDO_RESET"
    "sdo_frame e (snd (sdo_fail c SDO_SERVER i s a e))"
proof -
  let ?e = "resetSDOline line e" and ?bs = "[0x80] @ index_bytes i @ [s] @ bytes32 a"
  have fr: "sdo_frame e ?e" by simp
  have r: "snd (sdo_fail c SDO_SERVER i s a e) = snd (sendSDO SDO_SERVER c ?bs ?e)"
    using line by (simp add: sdo_fail_def failedSDO_def sendSDOabort_def Let_def split_beta)
  have "cfg ?e = cfg d" "nodeState ?e = nodeState d" using serves fr by (simp_all add: sdo_frame_def)
  from sent_sendSDO [OF serves(1) this, of ?bs] 
  show "sent (snd (sdo_fail c SDO_SERVER i s a e)) = sent e @ [sdo_msg (server_cob c e) ?bs]"
    unfolding r using serves_frame(2) [OF fr] by (simp add: index_bytes_def)
  have "tr (snd (sendSDO SDO_SERVER c ?bs ?e)) line = tr ?e line" by (simp add: sendSDO_def canSend_def emit_def Let_def tr_def)
  then show "state (tr (snd (sdo_fail c SDO_SERVER i s a e)) line) = SDO_RESET"
    unfolding r using tr_resetSDOline [OF getSDOlineOnUse_Some(1) [OF line], of line] by (auto simp: opened_line_def)
  show "sdo_frame e (snd (sdo_fail c SDO_SERVER i s a e))" unfolding r using sdo_frame_trans [OF fr sdo_frame_send(1)] .
qed

lemma expedited_download_proceeds:
  assumes serves: "serves cob c d" and idle: "getSDOlineOnUse c SDO_SERVER d = None" and ok: "sdo_ok d"
    and free: "fst (getSDOfreeLine SDO_SERVER d) = Some line" and n: "0 < n" "n \<le> 4" and b: "4 \<le> length bytes"
  obtains e where "proceedSDO (expedited_download cob i s n bytes) d =
      (let (errorCode, d3) = SDOlineToObjdict line e
       in if errorCode \<noteq> 0 then sdo_fail c SDO_SERVER i s errorCode d3
          else reply SDO_SERVER c ([0x60] @ index_bytes i @ [s]) (resetSDOline line d3))"
    "sdo_ok e" "sdo_frame d e" "sent e = sent d" "getSDOlineOnUse c SDO_SERVER e = Some line" "line < length (transfers e)"
    "index (tr e line) = i" "subIndex (tr e line) = s" "data (tr e line) = put_list (data (tr d line)) 0 (take (unat n) bytes)" "count (tr e line) = n"
proof -
  let ?m = "expedited_download cob i s n bytes"
  note f = expedited_fields [OF n b, of cob i s]
  let ?respond = "reply SDO_SERVER c ([0x60] @ index_bytes i @ [s])"
  let ?k = "\<lambda>line d1. let (err, d2) = SDOtoLine line n (take 4 bytes) (upd_line line (\<lambda>t. t\<lparr>count := n\<rparr>) d1)
      in if err \<noteq> 0 then sdo_fail c SDO_SERVER i s SDOABT_GENERAL_ERROR d2
         else let (errorCode, d3) = SDOlineToObjdict line d2
              in if errorCode \<noteq> 0 then sdo_fail c SDO_SERVER i s errorCode d3 else ?respond (resetSDOline line d3)"
  obtain e0 where o: "opened c i s SDO_DOWNLOAD_IN_PROGRESS line d e0"
    and p: "open_server c None i s SDO_DOWNLOAD_IN_PROGRESS ?k d = ?k line e0"
    using open_server_opens [OF ok free] by blast
  have n4: "unat n \<le> 4" using n(2) by (simp add: word_le_nat_alt)
  have nn: "unat n \<le> 32" "unat n \<le> length (take 4 bytes)" using n4 b by simp_all
  obtain e where e: "SDOtoLine line n (take 4 bytes) (upd_line line (\<lambda>t. t\<lparr>count := n\<rparr>) e0) = (0, e)" "sdo_ok e" "sdo_frame d e" "sent e = sent d"
    and others: "\<forall>k. k \<noteq> line \<longrightarrow> tr e k = tr d k"
    and t: "\<exists>h. tr e line = (opened_line c i s SDO_DOWNLOAD_IN_PROGRESS ((tr d line)\<lparr>whoami := SDO_SERVER, timer := h\<rparr>))
       \<lparr>data := put_list (data (tr d line)) 0 (take (unat n) (take 4 bytes)), count := n, offset := n\<rparr>"
    using SDOtoLine_opened [OF o nn] by metis
  have line: "line < length (transfers d)" "length (transfers e) = length (transfers d)"
    using o e(3) by (simp_all add: opened_def sdo_frame_def)
  have use': "getSDOlineOnUse c SDO_SERVER e = Some line"
    by (rule getSDOlineOnUse_opened [OF idle line]) (use others t in \<open>auto simp: opened_line_def\<close>)
  have "proceedSDO ?m d = initiate_download_server c None ?m d"
    using serves idle f(1,7,8) by (simp add: proceedSDO_def serves_def serve_def command_specifier_def Let_def)
  also have "\<dots> = open_server c None i s SDO_DOWNLOAD_IN_PROGRESS ?k d"
    unfolding initiate_download_server_def f(3-6) Let_def if_P [OF f(2)] ..
  also have "\<dots> = (let (errorCode, d3) = SDOlineToObjdict line e
       in if errorCode \<noteq> 0 then sdo_fail c SDO_SERVER i s errorCode d3 else ?respond (resetSDOline line d3))"
    unfolding p e(1) by (simp add: Let_def)
  finally show thesis
    by (rule that [OF _ e(2-4) use']) (use t n4 line in \<open>auto simp: opened_line_def min_def\<close>)
qed

text \<open>The node on which the dictionary is written: everything but the line is as before.\<close>

lemma expedited_writes:
  assumes ok: "sdo_ok d" "od_disjoint d" and serves: "serves cob c d" and idle: "getSDOlineOnUse c SDO_SERVER d = None"
    and free: "fst (getSDOfreeLine SDO_SERVER d) = Some line" and n: "0 < n" "n \<le> 4" and b: "4 \<le> length bytes"
    and hook: "od_hook d (i, s) \<noteq> Some OnNumberOfErrorsUpdate_cb"
  defines "src \<equiv> put_list (data (tr d line)) 0 (take (unat n) bytes)"
  defines "r \<equiv> proceedSDO (expedited_download cob i s n bytes) d"
  obtains e where "r = (let (errorCode, d3) = SDOlineToObjdict line e
       in if errorCode \<noteq> 0 then sdo_fail c SDO_SERVER i s errorCode d3
          else reply SDO_SERVER c ([0x60] @ index_bytes i @ [s]) (resetSDOline line d3))"
    "sdo_frame d e" "sent e = sent d" "getSDOlineOnUse c SDO_SERVER e = Some line" "line < length (transfers e)"
    "\<And>sub. od_obj d (i, s) = Some sub \<Longrightarrow> n = ssize sub \<Longrightarrow> od_accepts d sub src n True \<Longrightarrow>
      \<exists>e'. SDOlineToObjdict line e = (OD_SUCCESSFUL, e') \<and> od_view e' = (od_view d)((i, s) \<mapsto> take (unat n) bytes) \<and> service_frame e e'"
    "od_obj d (i, s) = None \<or> (\<exists>sub. od_obj d (i, s) = Some sub \<and> \<not> od_accepts d sub src n True) \<Longrightarrow>
      SDOlineToObjdict line e = (fst (setODentry i s src n True d), e) \<and> fst (setODentry i s src n True d) \<noteq> OD_SUCCESSFUL"
proof -
  obtain e where res: "r = (let (errorCode, d3) = SDOlineToObjdict line e
       in if errorCode \<noteq> 0 then sdo_fail c SDO_SERVER i s errorCode d3
          else reply SDO_SERVER c ([0x60] @ index_bytes i @ [s]) (resetSDOline line d3))"
    and e: "sdo_ok e" "sdo_frame d e" "sent e = sent d" "getSDOlineOnUse c SDO_SERVER e = Some line" "line < length (transfers e)"
    and t: "index (tr e line) = i" "subIndex (tr e line) = s" "data (tr e line) = src" "count (tr e line) = n"
    by (rule expedited_download_proceeds [OF serves idle ok(1) free n b, where i = i and s = s, folded r_def src_def]) (rule that)
  have cm: "cfg e = cfg d" "mem e = mem d" "callbacks e = callbacks d" using e(2) by (simp_all add: sdo_frame_def)
  have same: "od_obj e k = od_obj d k" "od_hook e k = od_hook d k" "od_disjoint e = od_disjoint d" "od_view e = od_view d" for k
    using od_obj_cong [OF cm(1)] od_view_cong [OF cm(1,2)] od_hook_cong [OF cm(1,3)] od_disjoint_cong [OF cm(1)] by simp_all
  have len: "length src = 32" "unat n \<le> 4" "n \<noteq> 0"
    using sdo_ok_line [OF e(1,5)] t(3) n by (simp_all add: transfer_ok_def word_le_nat_alt)
  have src: "take (unat n) src = take (unat n) bytes"
    using len b unfolding src_def by (subst put_list_eq) simp_all
  have fit: "unat n \<le> length src" using len by simp
  note w = SDOlineToObjdict_writes [OF e(1) _ e(5) t len(3) _ fit, unfolded same od_accepts_cong [OF cm(1)], OF ok(2) hook, unfolded src]
  show thesis
  proof (rule that [OF res e(2-5)])
    show "\<exists>e'. SDOlineToObjdict line e = (OD_SUCCESSFUL, e') \<and> od_view e' = (od_view d)((i, s) \<mapsto> take (unat n) bytes) \<and> service_frame e e'"
      if "od_obj d (i, s) = Some sub" "n = ssize sub" "od_accepts d sub src n True" for sub using w(1) [OF that] by blast
    show "SDOlineToObjdict line e = (fst (setODentry i s src n True d), e) \<and> fst (setODentry i s src n True d) \<noteq> OD_SUCCESSFUL"
      if "od_obj d (i, s) = None \<or> (\<exists>sub. od_obj d (i, s) = Some sub \<and> \<not> od_accepts d sub src n True)"
      using w(2) [OF that] setODentry_code_cong [OF cm(1) that] by simp
  qed
qed

lemma expedited_accepted:
  assumes ok: "sdo_ok d" "od_disjoint d" and serves: "serves cob c d" and idle: "getSDOlineOnUse c SDO_SERVER d = None"
    and free: "fst (getSDOfreeLine SDO_SERVER d) = Some line" and n: "0 < n" "n \<le> 4" and b: "4 \<le> length bytes"
    and hook: "od_hook d (i, s) \<noteq> Some OnNumberOfErrorsUpdate_cb"
    and acc: "od_obj d (i, s) = Some sub" "n = ssize sub" "od_accepts d sub (put_list (data (tr d line)) 0 (take (unat n) bytes)) n True"
  defines "r \<equiv> proceedSDO (expedited_download cob i s n bytes) d"
  shows "fst r = 0" "od_view (snd r) = (od_view d)((i, s) \<mapsto> take (unat n) bytes)" "state (tr (snd r) line) = SDO_RESET"
    "last (sent (snd r)) = sdo_msg (server_cob c (snd r)) ([0x60] @ index_bytes i @ [s])"
proof -
  let ?bytes = "[0x60] @ index_bytes i @ [s]"
  obtain e e' where res: "r = (let (errorCode, d3) = SDOlineToObjdict line e
       in if errorCode \<noteq> 0 then sdo_fail c SDO_SERVER i s errorCode d3 else reply SDO_SERVER c ?bytes (resetSDOline line d3))"
    and e: "sdo_frame d e" "line < length (transfers e)"
    and e': "SDOlineToObjdict line e = (OD_SUCCESSFUL, e')" "od_view e' = (od_view d)((i, s) \<mapsto> take (unat n) bytes)" "service_frame e e'"
    by (rule expedited_writes [OF ok serves idle free n b hook, folded r_def]) (use acc that in blast)
  let ?e2 = "resetSDOline line e'"
  have fr: "sdo_frame e' ?e2" by simp
  have c2: "cfg ?e2 = cfg d" "nodeState ?e2 = nodeState d" "transfers e' = transfers e"
    using e'(3) fr e(1) by (simp_all add: service_frame_def sdo_frame_def)
  have r2: "r = reply SDO_SERVER c ?bytes ?e2" unfolding res e'(1) by simp
  then show "fst r = 0" by (simp add: reply_def)
  have "sdo_frame e' (snd r)" unfolding r2 by (rule sdo_frame_trans [OF fr sdo_frame_more(2)])
  then have "od_view (snd r) = od_view e'" by (intro od_view_cong) (simp_all add: sdo_frame_def)
  then show "od_view (snd r) = (od_view d)((i, s) \<mapsto> take (unat n) bytes)" using e'(2) by simp
  show "last (sent (snd r)) = sdo_msg (server_cob c (snd r)) ?bytes"
    using sent_reply_cfg [OF serves c2(1,2), of ?bytes] serves_frame(2) [OF sdo_frame_more(2)] unfolding r2 by (simp add: index_bytes_def)
  show "state (tr (snd r) line) = SDO_RESET"
    using tr_resetSDOline [of line e' line] e(2) c2(3) unfolding r2 by (auto simp: opened_line_def)
qed

text \<open>C4: an expedited download writes the object or tells why not. A server with a free line that
  receives one to four bytes for an object stores them, with the rest of the dictionary unchanged, and
  confirms, when the object has that size, may be written and the value passes the range test; when the dictionary
  refuses the write, it stays as it was and the client gets an abort with the error
  code of the refusal. In both cases the line is free again.\<close>

theorem sdo_download_writes_object:
  assumes ok: "sdo_ok d" "od_disjoint d" and serves: "serves cob c d" and idle: "getSDOlineOnUse c SDO_SERVER d = None"
    and free: "fst (getSDOfreeLine SDO_SERVER d) = Some line" and n: "0 < n" "n \<le> 4" and b: "4 \<le> length bytes"
    and hook: "od_hook d (i, s) \<noteq> Some OnNumberOfErrorsUpdate_cb"
  defines "src \<equiv> put_list (data (tr d line)) 0 (take (unat n) bytes)"
  defines "r \<equiv> proceedSDO (expedited_download cob i s n bytes) d"
  shows "(\<forall>sub. od_obj d (i, s) = Some sub \<and> n = ssize sub \<and> od_accepts d sub src n True \<longrightarrow>
       fst r = 0 \<and> od_view (snd r) = (od_view d)((i, s) \<mapsto> take (unat n) bytes) \<and> state (tr (snd r) line) = SDO_RESET
       \<and> last (sent (snd r)) = sdo_msg (server_cob c (snd r)) ([0x60] @ index_bytes i @ [s]))
    \<and> (od_obj d (i, s) = None \<or> (\<exists>sub. od_obj d (i, s) = Some sub \<and> \<not> od_accepts d sub src n True) \<longrightarrow>
       fst r = 0xFF \<and> od_view (snd r) = od_view d \<and> state (tr (snd r) line) = SDO_RESET
       \<and> (\<exists>code. code = fst (setODentry i s src n True d) \<and> code \<noteq> OD_SUCCESSFUL
            \<and> sent (snd r) = sent d @ [sdo_msg (server_cob c d) ([0x80] @ index_bytes i @ [s] @ bytes32 code)]))"
proof (intro conjI allI impI)
  fix sub assume "od_obj d (i, s) = Some sub \<and> n = ssize sub \<and> od_accepts d sub src n True"
  then have a: "od_obj d (i, s) = Some sub" "n = ssize sub" "od_accepts d sub (put_list (data (tr d line)) 0 (take (unat n) bytes)) n True"
    unfolding src_def by blast+
  from expedited_accepted [OF ok serves idle free n b hook a]
  show "fst r = 0" "od_view (snd r) = (od_view d)((i, s) \<mapsto> take (unat n) bytes)" "state (tr (snd r) line) = SDO_RESET"
    "last (sent (snd r)) = sdo_msg (server_cob c (snd r)) ([0x60] @ index_bytes i @ [s])"
    unfolding r_def by blast+
next
  assume ref: "od_obj d (i, s) = None \<or> (\<exists>sub. od_obj d (i, s) = Some sub \<and> \<not> od_accepts d sub src n True)"
  let ?code = "fst (setODentry i s src n True d)"
  obtain e where res: "r = (let (errorCode, d3) = SDOlineToObjdict line e
       in if errorCode \<noteq> 0 then sdo_fail c SDO_SERVER i s errorCode d3
          else reply SDO_SERVER c ([0x60] @ index_bytes i @ [s]) (resetSDOline line d3))"
    and e: "sdo_frame d e" "sent e = sent d" "getSDOlineOnUse c SDO_SERVER e = Some line"
    and code: "SDOlineToObjdict line e = (?code, e)" "?code \<noteq> OD_SUCCESSFUL"
    by (rule expedited_writes [OF ok serves idle free n b hook, folded r_def src_def]) (use ref that in blast)
  have cm: "cfg e = cfg d" "nodeState e = nodeState d" "mem e = mem d" using e(1) by (simp_all add: sdo_frame_def)
  have r2: "r = sdo_fail c SDO_SERVER i s ?code e" using code unfolding res by simp
  note ab = sent_failed_server [OF serves cm(1,2) e(3), of i s ?code]
  show "od_view (snd r) = od_view d" using ab(3) cm unfolding r2 by (intro od_view_cong) (simp_all add: sdo_frame_def)
  show "fst r = 0xFF" "state (tr (snd r) line) = SDO_RESET" using ab(2) unfolding r2 by (simp_all add: sdo_fail_def)
  show "\<exists>code. code = ?code \<and> code \<noteq> OD_SUCCESSFUL
      \<and> sent (snd r) = sent d @ [sdo_msg (server_cob c d) ([0x80] @ index_bytes i @ [s] @ bytes32 code)]"
    using ab(1) code(2) e(2) serves_frame(2) [OF e(1)] unfolding r2 by simp
qed

end
