(* ===== verification/SdoDownload.thy ===== *)
theory SdoDownload
  imports SdoTransfer
begin

text \<open>
  Segmented downloads and protocol errors, over \<open>proceedSDO\<close> of \<^verbatim>\<open>CanFestival/src/sdo.c\<close>: a client that sends an object in segments
  gets it written, and a segment with the wrong toggle ends the transfer.
\<close>

section \<open>Segmented downloads\<close>

text \<open>A server line in the middle of a segmented download: what has arrived, and the announced size (0 for none).\<close>

definition downloading :: "UNS8 \<Rightarrow> nat \<Rightarrow> UNS8 \<Rightarrow> UNS16 \<Rightarrow> UNS8 \<Rightarrow> UNS8 list \<Rightarrow> UNS32 \<Rightarrow> CO_Data \<Rightarrow> bool" where
  "downloading c line tg i s got ann d \<longleftrightarrow> sdo_ok d \<and> getSDOlineOnUse c SDO_SERVER d = Some line
     \<and> state (tr d line) = SDO_DOWNLOAD_IN_PROGRESS \<and> ttoggle (tr d line) = tg \<and> (tg = 0 \<or> tg = 1)
     \<and> index (tr d line) = i \<and> subIndex (tr d line) = s \<and> count (tr d line) = ann
     \<and> length got \<le> 32 \<and> offset (tr d line) = of_nat (length got) \<and> take (length got) (data (tr d line)) = got"

definition segment_head :: "UNS8 \<Rightarrow> nat \<Rightarrow> bool \<Rightarrow> UNS8" where
  "segment_head tg k fin = push_bit 4 tg OR push_bit 1 (of_nat (7 - k)) OR (if fin then 1 else 0)"

definition download_segment :: "UNS16 \<Rightarrow> UNS8 \<Rightarrow> UNS8 list \<Rightarrow> bool \<Rightarrow> Message" where
  "download_segment cob tg bs fin = sdo_msg cob (segment_head tg (length bs) fin # bs)"

lemma segment_head_fields:
  assumes "tg = 0 \<or> tg = 1" "k \<le> 7"
  shows "getSDOcs (segment_head tg k fin) = 0" "getSDOt (segment_head tg k fin) = tg" "7 - ucast (getSDOn3 (segment_head tg k fin)) = (of_nat k :: UNS32)"
    "getSDOc (segment_head tg k fin) = (if fin then 1 else 0)"
proof -
  have k: "7 - k \<in> {0, 1, 2, 3, 4, 5, 6, 7}" by auto
  have "getSDOcs (segment_head tg k fin) = 0 \<and> getSDOt (segment_head tg k fin) = tg \<and> unat (getSDOn3 (segment_head tg k fin)) = 7 - k
      \<and> getSDOc (segment_head tg k fin) = (if fin then 1 else 0)"
    unfolding segment_head_def getSDOcs_def getSDOt_def getSDOn3_def getSDOc_def
    using k assms(1) by (cases fin) (auto simp del: of_nat_diff)
  moreover have "7 - ucast (getSDOn3 (segment_head tg k fin)) = (of_nat k :: UNS32)"
    if "unat (getSDOn3 (segment_head tg k fin)) = 7 - k"
  proof -
    have "unat (7 - ucast (getSDOn3 (segment_head tg k fin)) :: UNS32) = k" using that assms(2) by (simp add: nb_bytes)
    then show ?thesis by (metis of_nat_unat ucast_id)
  qed
  ultimately show "getSDOcs (segment_head tg k fin) = 0" "getSDOt (segment_head tg k fin) = tg"
    "7 - ucast (getSDOn3 (segment_head tg k fin)) = (of_nat k :: UNS32)" "getSDOc (segment_head tg k fin) = (if fin then 1 else 0)"
    by blast+
qed

lemma downloading_line:
  assumes "downloading c line tg i s got ann d"
  shows "line < length (transfers d)" "unat (count (tr d line)) \<le> 32" "length (data (tr d line)) = 32" "unat (offset (tr d line)) = length got"
proof -
  have u: "sdo_ok d" "getSDOlineOnUse c SDO_SERVER d = Some line" "length got \<le> 32" "offset (tr d line) = of_nat (length got)"
    using assms by (simp_all add: downloading_def)
  note l = getSDOlineOnUse_Some [OF u(2)]
  have ok: "transfer_ok (tr d line)" "line_bounded (tr d line)" using sdo_ok_line [OF u(1) l(1)] by blast+
  show "line < length (transfers d)" "unat (count (tr d line)) \<le> 32" "length (data (tr d line)) = 32" "unat (offset (tr d line)) = length got"
    using l(1,5) ok u(3,4) by (simp_all add: line_bounded_def transfer_ok_def unsigned_of_nat take_bit_nat_eq_self)
qed

text \<open>One segment arrives: it is appended, acknowledged, and the toggle turns.\<close>

definition received :: "UNS8 \<Rightarrow> nat \<Rightarrow> UNS8 \<Rightarrow> UNS8 list \<Rightarrow> CO_Data \<Rightarrow> CO_Data" where
  "received c line tg bs d =
     flip_toggle line (snd (reply SDO_SERVER c [0x20 OR push_bit 4 tg]
       (snd (SDOtoLine line (of_nat (length bs)) (bs @ replicate (7 - length bs) 0) (RestartSDO_TIMER line d)))))"

lemma downloading_Restart:
  assumes u: "downloading c line tg i s got ann d"
  shows "downloading c line tg i s got ann (RestartSDO_TIMER line d)"
proof -
  obtain h where "tr (RestartSDO_TIMER line d) line = (tr d line)\<lparr>timer := h\<rparr>"
    using tr_sdo_timer(3) [OF downloading_line(1) [OF u], of line] by auto
  then show ?thesis using u downloading_line(1) [OF u] by (simp add: downloading_def)
qed

lemma SDOtoLine_downloading:
  assumes u: "downloading c line tg i s got ann d" and bs: "length bs \<le> 7" "length got + length bs \<le> 32"
  shows "SDOtoLine line (of_nat (length bs)) (bs @ replicate (7 - length bs) 0) d =
    (0, upd_line line (\<lambda>t. t\<lparr>data := put_list (data t) (length got) bs, offset := of_nat (length got + length bs)\<rparr>) d)"
proof -
  let ?t = "tr d line" and ?n = "of_nat (length bs) :: UNS32"
  note l = downloading_line [OF u]
  have o: "offset ?t = of_nat (length got)" using u by (simp add: downloading_def)
  have n: "unat ?n = length bs" using bs by (simp add: unsigned_of_nat take_bit_nat_eq_self)
  have "unat (offset ?t + ?n) = length got + length bs" using l(4) n bs by (simp add: unat_word_ariths)
  then have "\<not> 32 < offset ?t + ?n" using bs by (simp add: word_less_nat_alt)
  moreover have "unat (offset ?t) + unat ?n \<le> length (data ?t)" using l n bs by simp
  ultimately show ?thesis
    using l(4) n o by (simp add: SDOtoLine_def Let_def upd_line_def tr_def)
qed

lemma received_downloading:
  assumes u: "downloading c line tg i s got ann d" and bs: "length bs \<le> 7" "length got + length bs \<le> 32"
  shows "downloading c line (1 - tg) i s (got @ bs) ann (received c line tg bs d)" "sdo_frame d (received c line tg bs d)"
proof -
  let ?e = "RestartSDO_TIMER line d" and ?t = "tr (RestartSDO_TIMER line d) line" and ?r = "received c line tg bs d"
  note ue = downloading_Restart [OF u]
  note l = downloading_line [OF ue]
  let ?f = "\<lambda>t :: s_transfer. t\<lparr>data := put_list (data t) (length got) bs, offset := of_nat (length got + length bs)\<rparr>"
  have r: "?r = flip_toggle line (snd (reply SDO_SERVER c [0x20 OR push_bit 4 tg] (upd_line line ?f ?e)))"
    unfolding received_def SDOtoLine_downloading [OF ue bs] by simp
  show "sdo_frame d ?r"
    unfolding r using sdo_frame_line(1) sdo_frame_upd_line sdo_frame_more sdo_frame_trans by meson
  have tr: "tr ?r k = (if k = line then (?f ?t)\<lparr>ttoggle := (if ttoggle ?t = 0 then 1 else 0)\<rparr> else tr ?e k)" for k
    unfolding r flip_toggle_def using l(1) by (simp add: tr_upd_line)
  have ok: "sdo_ok ?e" "sdo_ok (snd (SDOtoLine line (of_nat (length bs)) (bs @ replicate (7 - length bs) 0) ?e))"
    using ue by (simp_all add: downloading_def)
  have "sdo_ok ?r" unfolding received_def using ok(2) by simp
  moreover have "getSDOlineOnUse c SDO_SERVER ?r = getSDOlineOnUse c SDO_SERVER ?e"
    by (rule getSDOlineOnUse_cong) (simp_all add: tr, simp add: r flip_toggle_def)
  moreover have "take (length (got @ bs)) (put_list (data ?t) (length got) bs) = got @ bs"
    using l bs ue by (subst put_list_eq) (auto simp: downloading_def)
  ultimately show "downloading c line (1 - tg) i s (got @ bs) ann ?r"
    using ue bs by (auto simp: downloading_def tr)
qed

lemma sent_received:
  assumes "serves cob c d"
  shows "sent (received c line tg bs d) = sent d @ [sdo_msg (server_cob c d) [0x20 OR push_bit 4 tg]]"
proof -
  let ?e = "snd (SDOtoLine line (of_nat (length bs)) (bs @ replicate (7 - length bs) 0) (RestartSDO_TIMER line d))"
  have fr: "sdo_frame d ?e" by (rule sdo_frame_trans [OF sdo_frame_line(1) sdo_frame_copies(2)])
  show ?thesis
    using sent_reply [of cob c ?e "[0x20 OR push_bit 4 tg]"] assms serves_frame [OF fr] by (simp add: received_def)
qed

lemma download_segment_proceeds:
  assumes serves: "serves cob c d" and u: "downloading c line tg i s got ann d" and bs: "length bs \<le> 7" "length got + length bs \<le> 32"
  shows "proceedSDO (download_segment cob tg bs fin) d =
      (if \<not> fin then (0, received c line tg bs d)
       else let (errorCode, d4) = SDOlineToObjdict line (received c line tg bs d)
            in if errorCode \<noteq> 0 then sdo_fail c SDO_SERVER i s errorCode d4 else (0, resetSDOline line d4))"
proof -
  let ?m = "download_segment cob tg bs fin" and ?e = "RestartSDO_TIMER line d"
  note ue = downloading_Restart [OF u]
  have t: "state (tr d line) = SDO_DOWNLOAD_IN_PROGRESS" "tg = 0 \<or> tg = 1" "ttoggle (tr ?e line) = tg" "index (tr ?e line) = i" "subIndex (tr ?e line) = s"
      "getSDOlineOnUse c SDO_SERVER d = Some line"
    using u ue by (simp_all add: downloading_def)
  note h = segment_head_fields [OF t(2) bs(1), of fin]
  have m: "mdata ?m ! 0 = segment_head tg (length bs) fin" "drop 1 (mdata ?m) = bs @ replicate (7 - length bs) 0" "mlen ?m = 8" "cob_id ?m = cob"
    using bs by (simp_all add: download_segment_def sdo_msg_def)
  have "proceedSDO ?m d = download_segment_server c (Some line) ?m d"
    using serves t(1,6) h(1) m by (simp add: proceedSDO_def serves_def serve_def command_specifier_def Let_def)
  also have "\<dots> = (if \<not> fin then (0, received c line tg bs d)
       else let (errorCode, d4) = SDOlineToObjdict line (received c line tg bs d)
            in if errorCode \<noteq> 0 then sdo_fail c SDO_SERVER i s errorCode d4 else (0, resetSDOline line d4))"
  proof -
    let ?e2 = "upd_line line (\<lambda>t. t\<lparr>data := put_list (data t) (length got) bs, offset := of_nat (length got + length bs)\<rparr>) ?e"
    have tg2: "ttoggle (tr ?e2 line) = tg" using t(3) downloading_line(1) [OF ue] by (simp add: tr_upd_line)
    show ?thesis
      unfolding download_segment_server_def on_line_def option.case Let_def on_toggle_def m(1,2) h(2-4) t(1,3-5) received_def
        SDOtoLine_downloading [OF ue bs] prod.case snd_conv tg2
      by simp
  qed
  finally show ?thesis .
qed

lemma u32_of_bytes32 [simp]: "u32_of (bytes32 v) = v"
  by (simp add: u32_of_def bytes32_def)

lemma download_starts:
  fixes i :: UNS16 and s :: UNS8 and bytes :: "UNS8 list"
  assumes ok: "sdo_ok d" and serves: "serves cob c d" and idle: "getSDOlineOnUse c SDO_SERVER d = None"
    and free: "fst (getSDOfreeLine SDO_SERVER d) = Some line" and n: "4 < n" "n \<le> 32"
  defines "d1 \<equiv> snd (proceedSDO (sdo_msg cob (download_request i s n bytes False)) d)"
  shows "downloading c line 0 i s [] n d1" "sdo_frame d d1"
    "sent d1 = sent d @ [sdo_msg (server_cob c d) ([0x60] @ index_bytes i @ [s])]"
proof -
  let ?m = "sdo_msg cob (download_request i s n bytes False)" and ?bytes = "[0x60] @ index_bytes i @ [s]"
  have n4: "\<not> n \<le> 4" using n(1) by (simp add: not_le)
  have m: "mdata ?m = [0x21] @ index_bytes i @ [s] @ bytes32 n" "mlen ?m = 8" "cob_id ?m = cob"
    using n4 by (simp_all add: sdo_msg_def download_request_def index_bytes_def)
  then have f: "mdata ?m ! 0 = 0x21" "getSDOindex (mdata ?m ! 1) (mdata ?m ! 2) = i" "mdata ?m ! 3 = s" "u32_of (drop 4 (mdata ?m)) = n"
    by (simp_all add: index_bytes_def)
  let ?k = "\<lambda>line e. let (err, d2) = setSDOlineRestBytes line n e
      in if err \<noteq> 0 then sdo_fail c SDO_SERVER i s SDOABT_GENERAL_ERROR d2 else reply SDO_SERVER c ?bytes d2"
  obtain e where o: "opened c i s SDO_DOWNLOAD_IN_PROGRESS line d e"
    and p: "open_server c None i s SDO_DOWNLOAD_IN_PROGRESS ?k d = ?k line e"
    using open_server_opens [OF ok free] by blast
  have e: "(getSDOe 0x21 \<noteq> 0) = False" "(getSDOs 0x21 \<noteq> 0) = True" by (simp_all add: getSDOe_def getSDOs_def)
  have "proceedSDO ?m d = initiate_download_server c None ?m d"
    using serves idle f(1) m(2,3) by (simp add: proceedSDO_def serves_def serve_def command_specifier_def Let_def getSDOcs_def)
  also have "\<dots> = ?k line e"
    unfolding initiate_download_server_def f Let_def e if_True if_False p [unfolded Let_def, symmetric] ..
  also have "\<dots> = reply SDO_SERVER c ?bytes (upd_line line (\<lambda>t. t\<lparr>count := n\<rparr>) e)"
    using n(2) by (auto simp: setSDOlineRestBytes_def)
  finally have d1: "d1 = snd (reply SDO_SERVER c ?bytes (upd_line line (\<lambda>t. t\<lparr>count := n\<rparr>) e))" by (simp add: d1_def)
  have fr: "sdo_frame d (upd_line line (\<lambda>t. t\<lparr>count := n\<rparr>) e)" and line: "line < length (transfers e)" "line < length (transfers d)"
      "length (transfers e) = length (transfers d)"
    using o sdo_frame_trans [OF _ sdo_frame_upd_line] by (auto simp: opened_def sdo_frame_def)
  show "sdo_frame d d1" unfolding d1 by (rule sdo_frame_trans [OF fr sdo_frame_more(2)])
  show "sent d1 = sent d @ [sdo_msg (server_cob c d) ?bytes]"
    unfolding d1 using sent_reply [of cob c "upd_line line (\<lambda>t. t\<lparr>count := n\<rparr>) e" ?bytes] serves serves_frame [OF fr] o
    by (simp add: opened_def index_bytes_def)
  have t: "tr d1 k = (if k = line then (tr e line)\<lparr>count := n\<rparr> else tr e k)" for k unfolding d1 using line by (simp add: tr_upd_line)
  obtain h where h: "tr e line = opened_line c i s SDO_DOWNLOAD_IN_PROGRESS ((tr d line)\<lparr>whoami := SDO_SERVER, timer := h\<rparr>)"
    using o unfolding opened_def by blast
  have "getSDOlineOnUse c SDO_SERVER d1 = Some line"
  proof (rule getSDOlineOnUse_opened [OF idle line(2)])
    show "length (transfers d1) = length (transfers d)" using line by (simp add: d1)
    show "tr d1 k = tr d k" if "k \<noteq> line" for k using that o by (simp add: t opened_def)
  qed (simp_all add: t h, simp_all add: opened_line_def)
  moreover have "sdo_ok d1" unfolding d1_def using ok m(1) by (intro proceedSDO_ok) (simp_all add: index_bytes_def)
  ultimately show "downloading c line 0 i s [] n d1"
    by (simp add: downloading_def t h) (simp add: opened_line_def)
qed

text \<open>The client's side: seven bytes a segment, alternating toggle, the last one marked.\<close>

function send_segments :: "UNS16 \<Rightarrow> UNS8 \<Rightarrow> UNS8 list \<Rightarrow> CO_Data \<Rightarrow> UNS8 \<times> CO_Data" where
  "send_segments cob tg bs d =
     (if length bs \<le> 7 then proceedSDO (download_segment cob tg bs True) d
      else send_segments cob (1 - tg) (drop 7 bs) (snd (proceedSDO (download_segment cob tg (take 7 bs) False) d)))"
  by pat_completeness auto
termination by (relation "measure (\<lambda>(cob, tg, bs, d). length bs)") auto

declare send_segments.simps [simp del]

lemma segments_arrive:
  assumes "serves cob c d" "downloading c line tg i s got ann d" "length got + length bs \<le> 32"
  shows "\<exists>tg' e. downloading c line tg' i s (got @ bs) ann e \<and> sdo_frame d e
    \<and> send_segments cob tg bs d = (let (errorCode, d4) = SDOlineToObjdict line e
         in if errorCode \<noteq> 0 then sdo_fail c SDO_SERVER i s errorCode d4 else (0, resetSDOline line d4))"
  using assms
proof (induction "length bs" arbitrary: bs tg got d rule: less_induct)
  case less
  show ?case
  proof (cases "length bs \<le> 7")
    case True
    then show ?thesis
      using less.prems(3) download_segment_proceeds [OF less.prems(1,2) True, of True] received_downloading [OF less.prems(2) True]
      by (intro exI [of _ "1 - tg"] exI [of _ "received c line tg bs d"]) (simp add: send_segments.simps [of cob tg bs d])
  next
    case False
    let ?d1 = "received c line tg (take 7 bs) d"
    have b: "length (take 7 bs) \<le> 7" "length got + length (take 7 bs) \<le> 32" using False less.prems(3) by simp_all
    note r = received_downloading [OF less.prems(2) b]
    have rec: "send_segments cob tg bs d = send_segments cob (1 - tg) (drop 7 bs) ?d1"
      using False download_segment_proceeds [OF less.prems(1,2) b, of False] by (simp add: send_segments.simps [of cob tg bs d])
    have "serves cob c ?d1" using less.prems(1) serves_frame(1) [OF r(2)] by simp
    moreover have "length (drop 7 bs) < length bs" "length (got @ take 7 bs) + length (drop 7 bs) \<le> 32" using False less.prems(3) by simp_all
    ultimately obtain tg' e where "downloading c line tg' i s ((got @ take 7 bs) @ drop 7 bs) ann e"
      "sdo_frame ?d1 e" "send_segments cob (1 - tg) (drop 7 bs) ?d1 = (let (errorCode, d4) = SDOlineToObjdict line e
         in if errorCode \<noteq> 0 then sdo_fail c SDO_SERVER i s errorCode d4 else (0, resetSDOline line d4))"
      using less.hyps [OF _ _ r(1)] by blast
    then show ?thesis
      unfolding rec using sdo_frame_trans [OF r(2)] by (intro exI [of _ tg'] exI [of _ e]) simp
  qed
qed

text \<open>C5: a segmented download writes the object. A client that announces the size of an object of
  five to 32 bytes and sends it in segments of seven bytes gets the object written with exactly
  these bytes, the rest of the dictionary unchanged and the line free again, when the
  object may be written and the range test accepts the value.\<close>

theorem sdo_segments_write_object:
  assumes ok: "sdo_ok d" "od_disjoint d" and serves: "serves cob c d" and idle: "getSDOlineOnUse c SDO_SERVER d = None"
    and free: "fst (getSDOfreeLine SDO_SERVER d) = Some line" and hook: "od_hook d (i, s) \<noteq> Some OnNumberOfErrorsUpdate_cb"
    and obj: "od_obj d (i, s) = Some sub" and n: "4 < ssize sub" "ssize sub \<le> 32" "length bs = unat (ssize sub)"
    and acc: "\<And>src. take (length bs) src = bs \<Longrightarrow> od_accepts d sub src (ssize sub) True"
  defines "r \<equiv> send_segments cob 0 bs (snd (proceedSDO (sdo_msg cob (download_request i s (ssize sub) bs False)) d))"
  shows "fst r = 0 \<and> od_view (snd r) = (od_view d)((i, s) \<mapsto> bs) \<and> state (tr (snd r) line) = SDO_RESET"
proof -
  let ?d1 = "snd (proceedSDO (sdo_msg cob (download_request i s (ssize sub) bs False)) d)"
  note st = download_starts [OF ok(1) serves idle free n(1,2), of i s bs]
  have "serves cob c ?d1" using serves serves_frame(1) [OF st(2)] by simp
  moreover have "length [] + length bs \<le> 32" using n by (simp add: word_le_nat_alt)
  ultimately obtain e tg where e: "downloading c line tg i s bs (ssize sub) e" "sdo_frame ?d1 e"
    and r: "r = (let (errorCode, d4) = SDOlineToObjdict line e
         in if errorCode \<noteq> 0 then sdo_fail c SDO_SERVER i s errorCode d4 else (0, resetSDOline line d4))"
    using segments_arrive [OF _ st(1), of cob bs] unfolding r_def append_Nil by blast
  have fr: "sdo_frame d e" by (rule sdo_frame_trans [OF st(2) e(2)])
  have cm: "cfg e = cfg d" "mem e = mem d" "callbacks e = callbacks d" using fr by (simp_all add: sdo_frame_def)
  have same: "od_obj e k = od_obj d k" "od_hook e k = od_hook d k" "od_disjoint e = od_disjoint d" "od_view e = od_view d" for k
    using od_obj_cong [OF cm(1)] od_view_cong [OF cm(1,2)] od_hook_cong [OF cm(1,3)] od_disjoint_cong [OF cm(1)] by simp_all
  note l = downloading_line [OF e(1)]
  have t: "sdo_ok e" "index (tr e line) = i" "subIndex (tr e line) = s" "count (tr e line) = ssize sub" "take (length bs) (data (tr e line)) = bs"
    using e(1) by (simp_all add: downloading_def)
  have nz: "ssize sub \<noteq> 0" "unat (ssize sub) \<le> length (data (tr e line))" using n l(3) by (auto simp: word_le_nat_alt)
  have "\<exists>e'. SDOlineToObjdict line e = (OD_SUCCESSFUL, e') \<and> od_view e' = (od_view d)((i, s) \<mapsto> bs) \<and> service_frame e e' \<and> sdo_ok e'"
    using SDOlineToObjdict_writes(1) [OF t(1) _ l(1) t(2,3) refl t(4) nz(1) _ nz(2), of sub] ok(2) hook obj acc [OF t(5)] t(5) n(3)
    unfolding same od_accepts_cong [OF cm(1)] by simp
  then obtain e' where e': "SDOlineToObjdict line e = (OD_SUCCESSFUL, e')" "od_view e' = (od_view d)((i, s) \<mapsto> bs)" "service_frame e e'"
    by blast
  have r2: "r = (0, resetSDOline line e')" unfolding r e'(1) by simp
  have "od_view (resetSDOline line e') = od_view e'" using sdo_frame_line(3) [of e' line] by (intro od_view_cong) (simp_all add: sdo_frame_def)
  moreover have "state (tr (resetSDOline line e') line) = SDO_RESET"
    using tr_resetSDOline [of line e' line] e'(3) l(1) by (auto simp: opened_line_def service_frame_def)
  ultimately show ?thesis using e'(2) unfolding r2 by simp
qed

end
