(* ===== verification/SdoSession.thy ===== *)
theory SdoSession
  imports SdoDownload
begin

text \<open>
  A client and a server node together, and the errors of the SDO protocol of \<^verbatim>\<open>CanFestival/src/sdo.c\<close>: the frame that
  \<open>writeNetworkDict\<close> sends writes the object of the server, and the server's answer completes the transfer of the
  client; a segment with the wrong toggle ends a transfer; what a timeout does, and what it
  does not do on a node without client entries.
\<close>

section \<open>The client\<close>

lemma open_download_line:
  fixes i :: UNS16 and s k ty :: UNS8 and cb :: "sdo_cb option"
  assumes ok: "sdo_ok d" and free: "getSDOfreeLine SDO_CLIENT d = (Some line, d0)" and n: "0 < n" "n \<le> 4" "unat n \<le> length bytes"
  defines "e \<equiv> open_download line k i s n ty bytes cb False d0"
  shows "sdo_frame d e" "sent e = sent d" "\<And>j. j \<noteq> line \<Longrightarrow> tr e j = tr d j"
    "\<exists>h. tr e line = (opened_line k i s SDO_DOWNLOAD_IN_PROGRESS ((tr d line)\<lparr>whoami := SDO_CLIENT, timer := h\<rparr>))
       \<lparr>count := n, dataType := ty, data := put_list (data (tr d line)) 0 (take (unat n) bytes), offset := n, Callback := cb\<rparr>"
proof -
  note f = getSDOfreeLine_Some [OF free]
  have l0: "line < length (transfers d0)" using f by simp
  let ?e1 = "initSDOline line k i s SDO_DOWNLOAD_IN_PROGRESS d0"
  have n4: "unat n \<le> 4" using n(2) by (simp add: word_le_nat_alt)
  have e: "e = upd_line line (\<lambda>t. t\<lparr>Callback := cb\<rparr>) (upd_line line (\<lambda>t. t\<lparr>offset := n\<rparr>)
      (upd_line line (\<lambda>t. t\<lparr>count := n, dataType := ty, data := put_list (data t) 0 (take (unat n) bytes)\<rparr>) ?e1))"
    using n n4 by (simp add: e_def open_download_def)
  have l1: "line < length (transfers ?e1)" using l0 by simp
  have "sdo_frame d d0" unfolding f(3) by simp
  then show "sdo_frame d e"
    unfolding e using sdo_frame_line(2) sdo_frame_upd_line sdo_frame_trans by meson
  show "sent e = sent d" unfolding e f(3) by simp
  show "tr e j = tr d j" if "j \<noteq> line" for j
    using that tr_initSDOline [OF l0, of k i s SDO_DOWNLOAD_IN_PROGRESS j] l1 f unfolding e by (simp add: tr_upd_line)
  obtain h where h: "tr ?e1 line = opened_line k i s SDO_DOWNLOAD_IN_PROGRESS ((tr d0 line)\<lparr>timer := h\<rparr>)"
    using tr_initSDOline [OF l0, of k i s SDO_DOWNLOAD_IN_PROGRESS line] by auto
  have w: "tr d0 line = (tr d line)\<lparr>whoami := SDO_CLIENT\<rparr>" using f by (simp add: tr_upd_line)
  show "\<exists>h. tr e line = (opened_line k i s SDO_DOWNLOAD_IN_PROGRESS ((tr d line)\<lparr>whoami := SDO_CLIENT, timer := h\<rparr>))
       \<lparr>count := n, dataType := ty, data := put_list (data (tr d line)) 0 (take (unat n) bytes), offset := n, Callback := cb\<rparr>"
    unfolding e by (rule exI [of _ h]) (simp add: tr_upd_line l0 h w opened_line_def)
qed

lemma download_started:
  assumes ok: "sdo_ok d" and r: "do_writeNetworkDict nodeId i s n ty bytes cb en False d = (0, d')" and n: "0 < n" "n \<le> 4" "unat n \<le> length bytes"
  defines "k \<equiv> GetSDOClientFromNodeId nodeId d"
  obtains line cob where "getSDOlineOnUse k SDO_CLIENT d' = Some line" "state (tr d' line) = SDO_DOWNLOAD_IN_PROGRESS"
    "count (tr d' line) = n" "offset (tr d' line) = n" "Callback (tr d' line) = cb" "k < 0xFE" "sdo_ok d'" "sdo_frame d d'"
    "sent d' = sent d @ [expedited_download cob i s n (data (tr d' line))]"
    "take (unat n) (data (tr d' line)) = take (unat n) bytes" "length (data (tr d' line)) = 32"
proof -
  have k: "\<not> 0xFE \<le> k" "getSDOlineOnUse k SDO_CLIENT d = None"
    using r by (auto simp: do_writeNetworkDict_def Let_def k_def split: if_splits)
  obtain line d0 where free: "getSDOfreeLine SDO_CLIENT d = (Some line, d0)"
    using r k by (auto simp: do_writeNetworkDict_def Let_def k_def [symmetric] split: if_splits option.splits prod.splits)
  define d1 where "d1 = open_download line k i s n ty bytes cb False d0"
  let ?bs = "download_request i s n (data (tr d1 line)) False"
  have send: "sendSDO SDO_CLIENT k ?bs d1 = (0, d')"
    using r k free by (auto simp: do_writeNetworkDict_def Let_def k_def [symmetric] d1_def [symmetric] split: if_splits prod.splits)
  note f = getSDOfreeLine_Some [OF free]
  note o = open_download_line [OF ok free n, where k = k and i = i and s = s and ty = ty and cb = cb, folded d1_def]
  have ok': "sdo_ok d'" using do_writeNetworkDict_sdo_ok [OF ok, of nodeId i s n ty bytes cb en False] r by simp
  have same: "transfers d' = transfers d1" "tr d' j = tr d1 j" for j
    using send by (auto simp: sendSDO_def canSend_def emit_def Let_def tr_def split: if_splits)
  have fr: "sdo_frame d d'" using sdo_frame_trans [OF o(1) sdo_frame_send(1), of SDO_CLIENT k ?bs] send by simp
  have line: "line < length (transfers d)" "length (transfers d') = length (transfers d)" "line < length (transfers d')"
    using f(1) fr by (simp_all add: sdo_frame_def)
  have len: "length (data (tr d' line)) = 32" using sdo_ok_line [OF ok' line(3)] by (simp add: transfer_ok_def)
  obtain h where t: "tr d' line = (opened_line k i s SDO_DOWNLOAD_IN_PROGRESS ((tr d line)\<lparr>whoami := SDO_CLIENT, timer := h\<rparr>))
       \<lparr>count := n, dataType := ty, data := put_list (data (tr d line)) 0 (take (unat n) bytes), offset := n, Callback := cb\<rparr>"
    using o(4) same(2) by auto
  have use': "getSDOlineOnUse k SDO_CLIENT d' = Some line"
    by (rule getSDOlineOnUse_opened [OF k(2) line(1,2)]) (simp_all add: same(2) o(3), simp_all add: same(2) [symmetric] t opened_line_def)
  have n4: "unat n \<le> 4" using n(2) by (simp add: word_le_nat_alt)
  have "length ?bs = 8" using n(2) len same(2) by (simp add: download_request_def index_bytes_def)
  then obtain cob where "sent d' = sent d1 @ [sdo_msg cob ?bs]"
    using send by (auto simp: sendSDO_def canSend_def Let_def sdo_msg_def split: if_splits)
  then have sent': "sent d' = sent d @ [expedited_download cob i s n (data (tr d' line))]"
    using o(2) same(2) by (simp add: expedited_download_def)
  have "length (data (tr d line)) = 32" using sdo_ok_line [OF ok line(1)] by (simp add: transfer_ok_def)
  then have "take (unat n) (data (tr d' line)) = take (unat n) bytes"
    using n(3) n4 unfolding t by (simp add: opened_line_def put_list_eq)
  from that [OF use' _ _ _ _ _ ok' fr sent' this len] k(1) show thesis by (simp add: t opened_line_def not_le)
qed

lemma download_confirmed:
  fixes i :: UNS16 and s :: UNS8
  assumes line: "getSDOlineOnUse k SDO_CLIENT d = Some line" and t: "state (tr d line) = SDO_DOWNLOAD_IN_PROGRESS" "count (tr d line) = n" "offset (tr d line) = n" "Callback (tr d line) = None"
    and role: "sdo_role_of cob d = SDO_for_client k nodeId"
  defines "d' \<equiv> snd (proceedSDO (sdo_msg cob ([0x60] @ index_bytes i @ [s])) d)"
  shows "getSDOlineOnUse k SDO_CLIENT d' = Some line" "state (tr d' line) = SDO_FINISHED" "sdo_frame d d'"
proof -
  let ?m = "sdo_msg cob ([0x60] @ index_bytes i @ [s])" and ?e = "RestartSDO_TIMER line d"
  note l = getSDOlineOnUse_Some [OF line]
  obtain h where e: "tr ?e line = (tr d line)\<lparr>timer := h\<rparr>" using tr_sdo_timer(3) [OF l(1), of line] by auto
  have le: "line < length (transfers ?e)" using l(1) by simp
  let ?d2 = "upd_line line (\<lambda>t. t\<lparr>state := SDO_FINISHED\<rparr>) (StopSDO_TIMER line ?e)"
  obtain h2 where e2: "tr (StopSDO_TIMER line ?e) line = (tr ?e line)\<lparr>timer := h2\<rparr>" using tr_sdo_timer(1) [OF le, of line] by auto
  have t2: "tr ?d2 line = (tr d line)\<lparr>timer := h2, state := SDO_FINISHED\<rparr>" using le e e2 by (simp add: tr_upd_line)
  have "proceedSDO ?m d = initiate_download_client k nodeId (Some line) ?m d"
    using role line t(1) by (simp add: proceedSDO_def follow_def sdo_msg_def command_specifier_def Let_def getSDOcs_def index_bytes_def)
  also have "\<dots> = (0, ?d2)"
    using t e t2 by (simp add: initiate_download_client_def on_line_def Let_def getSDOlineRestBytes_def end_client_def run_sdo_cb_def)
  finally have d': "d' = ?d2" by (simp add: d'_def)
  show "state (tr d' line) = SDO_FINISHED" unfolding d' t2 by simp
  show "sdo_frame d d'" unfolding d' using sdo_frame_line(1) sdo_frame_timer(1) sdo_frame_upd_line sdo_frame_trans by meson
  have o: "\<exists>h. tr d' j = (tr d j)\<lparr>timer := h\<rparr>" if "j \<noteq> line" for j
    using that tr_sdo_timer(1) [OF le, of j] tr_sdo_timer(3) [OF l(1), of j] le unfolding d'
    by (auto simp: tr_upd_line intro!: exI [of _ "timer (tr d j)"])
  let ?P = "\<lambda>t. state t \<noteq> SDO_RESET \<and> state t \<noteq> SDO_ABORTED_INTERNAL \<and> CliServNbr t = k \<and> whoami t = SDO_CLIENT"
  have pos: "find_pos ?P (transfers d) = line" using line by (auto simp: getSDOlineOnUse_def Let_def split: if_splits)
  have len: "length (transfers d') = length (transfers d)" using d' by simp
  have "find_pos ?P (transfers d') = line"
  proof (rule find_pos_first)
    show "?P (transfers d' ! line)" using t2 l(4,5) unfolding d' by (simp add: tr_def)
    show "\<forall>j < line. \<not> ?P (transfers d' ! j)"
    proof (intro allI impI)
      fix j assume j: "j < line"
      obtain h3 where "tr d' j = (tr d j)\<lparr>timer := h3\<rparr>" using o [of j] j by auto
      moreover have "\<not> ?P (transfers d ! j)" using find_pos_before [of j ?P "transfers d"] j pos by blast
      ultimately show "\<not> ?P (transfers d' ! j)" by (simp add: tr_def)
    qed
  qed (use l(1) len in simp)
  then show "getSDOlineOnUse k SDO_CLIENT d' = Some line" using l(1) len by (simp add: getSDOlineOnUse_def)
qed

lemma GetSDOClientFromNodeId_cong:
  assumes "cfg e = cfg d" "mem e = mem d"
  shows "GetSDOClientFromNodeId n e = GetSDOClientFromNodeId n d"
proof -
  have eq: "od_u8 e i j = od_u8 d i j" "od_entry e i = od_entry d i" for i j
    by (simp_all add: od_u8_def od_sub_def od_entry_def assms)
  have "client_scan n offs k e = client_scan n offs k d" for offs k by (induction offs arbitrary: k) (simp_all add: eq)
  then show ?thesis using assms by (simp add: GetSDOClientFromNodeId_def client_entries_def)
qed

text \<open>C2: a remote write, from the call to its result. A client node calls \<open>writeNetworkDict\<close> with one to four bytes; the frame
  it sends is received by a server node that accepts the value; the server's answer goes back to
  the client. Then the object of the server holds the bytes that the caller passed and no other object has
  changed, and \<open>getWriteResultNetworkDict\<close> reports success to the caller.\<close>

theorem remote_write_completes:
  assumes A: "sdo_ok A" "writeNetworkDict nodeId i s n ty bytes False A = (0, A1)" "0 < n" "n \<le> 4" "unat n \<le> length bytes"
    and B: "sdo_ok B" "od_disjoint B" "serves (cob_id (last (sent A1))) c B" "getSDOlineOnUse c SDO_SERVER B = None"
      "fst (getSDOfreeLine SDO_SERVER B) = Some line" "od_hook B (i, s) \<noteq> Some OnNumberOfErrorsUpdate_cb"
    and obj: "od_obj B (i, s) = Some sub" "ssize sub = n"
      "\<And>src. take (unat n) src = take (unat n) bytes \<Longrightarrow> od_accepts B sub src n True"
  defines "B1 \<equiv> snd (proceedSDO (last (sent A1)) B)"
  assumes ret: "sdo_role_of (server_cob c B1) A1 = SDO_for_client (GetSDOClientFromNodeId nodeId A) nodeId"
  defines "A2 \<equiv> snd (proceedSDO (last (sent B1)) A1)"
  shows "od_view B1 = (od_view B)((i, s) \<mapsto> take (unat n) bytes) \<and> fst (getWriteResultNetworkDict nodeId A2) = SDO_FINISHED"
proof -
  let ?k = "GetSDOClientFromNodeId nodeId A"
  obtain la cob where a: "getSDOlineOnUse ?k SDO_CLIENT A1 = Some la" "state (tr A1 la) = SDO_DOWNLOAD_IN_PROGRESS"
    "count (tr A1 la) = n" "offset (tr A1 la) = n" "Callback (tr A1 la) = None" "?k < 0xFE" "sdo_frame A A1"
    and sent: "sent A1 = sent A @ [expedited_download cob i s n (data (tr A1 la))]"
    and dat: "take (unat n) (data (tr A1 la)) = take (unat n) bytes" "length (data (tr A1 la)) = 32"
    by (rule download_started [OF A(1) A(2) [unfolded writeNetworkDict_def] A(3-5)]) (rule that)
  let ?src = "put_list (data (tr B line)) 0 (take (unat n) (data (tr A1 la)))"
  have m: "last (sent A1) = expedited_download cob i s n (data (tr A1 la))" "cob_id (last (sent A1)) = cob"
    using sent by (simp_all add: expedited_download_def sdo_msg_def)
  have line: "line < length (transfers B)" using getSDOfreeLine_Some(1) B(5) by (metis prod.collapse)
  have "length (data (tr B line)) = 32" using sdo_ok_line [OF B(1) line] by (simp add: transfer_ok_def)
  moreover have "unat n \<le> 4" using A(4) by (simp add: word_le_nat_alt)
  ultimately have "take (unat n) ?src = take (unat n) bytes" using dat A(5) by (subst put_list_eq) simp_all
  then have acc: "od_accepts B sub ?src n True" by (rule obj(3))
  have sv: "serves cob c B" using B(3) m(2) by simp
  have b4: "4 \<le> length (data (tr A1 la))" using dat(2) by simp
  note b = expedited_accepted [OF B(1,2) sv B(4,5) A(3,4) b4 B(6) obj(1) obj(2) [symmetric] acc, folded m(1) B1_def]
  let ?r = "sdo_msg (server_cob c B1) ([0x60] @ index_bytes i @ [s])"
  note c = download_confirmed [OF a(1-5) ret, of i s]
  have A2: "A2 = snd (proceedSDO ?r A1)" unfolding A2_def b(4) ..
  have "sdo_frame A A2" unfolding A2 by (rule sdo_frame_trans [OF a(7) c(3)])
  then have "GetSDOClientFromNodeId nodeId A2 = ?k" by (intro GetSDOClientFromNodeId_cong) (simp_all add: sdo_frame_def)
  then have "fst (getWriteResultNetworkDict nodeId A2) = SDO_FINISHED"
    using c(1,2) a(6) unfolding A2 [symmetric] by (simp add: getWriteResultNetworkDict_def Let_def)
  then show ?thesis using b(2) dat(1) by simp
qed

section \<open>Protocol errors\<close>

text \<open>C30: a repeated or lost segment ends the transfer. When a server line is in a segmented transfer and
  a segment arrives whose toggle bit is not the expected one, the server sends an abort with code 0503 0000h and the index of the transfer,
  frees the line and leaves the dictionary as it was.\<close>

theorem wrong_toggle_aborts:
  assumes serves: "serves cob c d" and line: "getSDOlineOnUse c SDO_SERVER d = Some line"
    and st: "state (tr d line) = SDO_UPLOAD_IN_PROGRESS \<and> getSDOcs (mdata m ! 0) = 3 \<or> state (tr d line) = SDO_DOWNLOAD_IN_PROGRESS \<and> getSDOcs (mdata m ! 0) = 0"
    and m: "cob_id m = cob" "mlen m = 8" and tog: "getSDOt (mdata m ! 0) \<noteq> ttoggle (tr d line)"
  shows "fst (proceedSDO m d) = 0xFF \<and> od_view (snd (proceedSDO m d)) = od_view d \<and> state (tr (snd (proceedSDO m d)) line) = SDO_RESET
    \<and> sent (snd (proceedSDO m d)) = sent d @ [sdo_msg (server_cob c d)
        ([0x80] @ index_bytes (index (tr d line)) @ [subIndex (tr d line)] @ bytes32 SDOABT_TOGGLE_NOT_ALTERNED)]"
proof -
  let ?e = "RestartSDO_TIMER line d" and ?t = "tr d line"
  note l = getSDOlineOnUse_Some [OF line]
  obtain h where e: "tr ?e line = ?t\<lparr>timer := h\<rparr>" using tr_sdo_timer(3) [OF l(1), of line] by auto
  have "proceedSDO m d = serve c m d" using serves m by (simp add: proceedSDO_def serves_def)
  also have "\<dots> = (if state ?t = SDO_UPLOAD_IN_PROGRESS then upload_segment_server c (Some line) m d else download_segment_server c (Some line) m d)"
    using st line by (auto simp: serve_def command_specifier_def Let_def)
  also have "\<dots> = sdo_fail c SDO_SERVER (index ?t) (subIndex ?t) SDOABT_TOGGLE_NOT_ALTERNED ?e"
    using st tog e by (auto simp: upload_segment_server_def download_segment_server_def on_line_def on_toggle_def Let_def)
  finally have r: "proceedSDO m d = sdo_fail c SDO_SERVER (index ?t) (subIndex ?t) SDOABT_TOGGLE_NOT_ALTERNED ?e" .
  have fr: "sdo_frame d ?e" by simp
  have cm: "cfg ?e = cfg d" "nodeState ?e = nodeState d" using fr by (simp_all add: sdo_frame_def)
  have "getSDOlineOnUse c SDO_SERVER ?e = Some line" using line l(1) by simp
  note ab = sent_failed_server [OF serves cm this, of "index ?t" "subIndex ?t" SDOABT_TOGGLE_NOT_ALTERNED]
  have "od_view (snd (proceedSDO m d)) = od_view d"
    using sdo_frame_trans [OF fr ab(3)] unfolding r by (intro od_view_cong) (simp_all add: sdo_frame_def)
  then show ?thesis using ab(1,2) serves_frame(2) [OF fr] unfolding r by (simp add: sdo_fail_def)
qed


text \<open>A node without client entries never gives up a transfer. On a pure server the watchdog
  of a line has no effect at all: the line stays busy although the alarm is gone, and the next request of the client is
  answered with an abort.\<close>

theorem server_ignores_timeout:
  assumes serves: "serves cob c d" and line: "getSDOlineOnUse c SDO_SERVER d = Some line" and no: "SDO_CLT (firstIndex (cfg d)) = 0"
    and st: "state (tr d line) \<noteq> SDO_BLOCK_DOWNLOAD_IN_PROGRESS"
  defines "d1 \<equiv> SDOTimeoutAlarm (of_nat line) d"
  shows "state (tr d1 line) = state (tr d line) \<and> state (tr d1 line) \<noteq> SDO_RESET \<and> fst (proceedSDO (upload_request cob i s) d1) = 0xFF
    \<and> sent (snd (proceedSDO (upload_request cob i s) d1)) =
        sent d @ [sdo_msg (server_cob c d) ([0x80] @ index_bytes i @ [s] @ bytes32 SDOABT_LOCAL_CTRL_ERROR)]"
proof -
  have d1: "d1 = d" using no by (simp add: d1_def SDOTimeoutAlarm_def Let_def)
  have "proceedSDO (upload_request cob i s) d = initiate_upload_server c (Some line) (upload_request cob i s) d"
    using serves line st by (simp add: proceedSDO_def serves_def serve_def upload_request_def sdo_msg_def command_specifier_def Let_def getSDOcs_def)
  also have "\<dots> = sdo_fail c SDO_SERVER i s SDOABT_LOCAL_CTRL_ERROR d"
    unfolding initiate_upload_server_def upload_request_fields Let_def open_server_def by simp
  finally show ?thesis
    using sent_failed_server(1) [OF serves refl refl line] getSDOlineOnUse_Some(2) [OF line] unfolding d1 by (simp add: sdo_fail_def)
qed

text \<open>A stray frame makes the client use an uninitialised line number. When the end of a block download
  is confirmed to a client that has no transfer open, the model's fault flag is raised: the source goes on with a
  line number that it never assigned.\<close>

theorem stray_block_end_faults:
  assumes "sdo_role_of (cob_id m) d = SDO_for_client c nodeId" "mlen m = 8" "mdata m ! 0 = 0xA1" "getSDOlineOnUse c SDO_CLIENT d = None"
  shows "fault (snd (proceedSDO m d))"
  using assms by (simp add: proceedSDO_def follow_def command_specifier_def Let_def getSDOcs_def block_download_client_def getSDOblockSC_def chk_def)

end
