(* ===== verification/Dispatch.thy ===== *)
theory Dispatch
  imports SdoProtocol PdoReceive
begin

text \<open>
  The two entry points of the stack: \<open>canDispatch\<close> of \<^verbatim>\<open>CanFestival/src/states.c\<close>, which hands a received frame to
  the service it belongs to, and \<open>TimeDispatch\<close> of \<^verbatim>\<open>src/timers.c\<close>, closed over the alarm
  functions of all services. Together with the calls of the application they are the steps of a node. Shown
  here: a node never leaves its invariant, the services that run are always those of its state, and a
  stopped node reacts to nothing but NMT and node guarding.
\<close>

section \<open>Operations\<close>

abbreviation (input) fc_NMT :: UNS16 where "fc_NMT \<equiv> 0x0"
abbreviation (input) fc_SYNC :: UNS16 where "fc_SYNC \<equiv> 0x1"
abbreviation (input) fc_PDO1tx :: UNS16 where "fc_PDO1tx \<equiv> 0x3"
abbreviation (input) fc_PDO4rx :: UNS16 where "fc_PDO4rx \<equiv> 0xA"
abbreviation (input) fc_SDOtx :: UNS16 where "fc_SDOtx \<equiv> 0xB"
abbreviation (input) fc_SDOrx :: UNS16 where "fc_SDOrx \<equiv> 0xC"
abbreviation (input) fc_NODE_GUARD :: UNS16 where "fc_NODE_GUARD \<equiv> 0xE"

definition canDispatch :: "Message \<Rightarrow> CO_Data \<Rightarrow> CO_Data" where
  "canDispatch m d =
     (let cob = cob_id m; fc = drop_bit 7 cob; cs = CurrentCommunicationState d
      in if fc = fc_SYNC then
           (if cob = 0x080 then (if csSYNC cs then snd (proceedSYNC d) else d)
            else if csEmergency cs then proceedEMCY m d else d)
         else if fc_PDO1tx \<le> fc \<and> fc \<le> fc_PDO4rx then (if csPDO cs then snd (proceedPDO m d) else d)
         else if fc = fc_SDOtx \<or> fc = fc_SDOrx then (if csSDO cs then snd (proceedSDO m d) else d)
         else if fc = fc_NODE_GUARD then (if csLifeGuard cs then proceedNODE_GUARD m d else d)
         else if fc = fc_NMT then (if iam_a_slave (cfg d) \<noteq> 0 then proceedNMTstateChange m d else d)
         else d)"

text \<open>The function pointers of the alarm table, resolved.\<close>

definition run_timer_cb :: "timer_cb \<Rightarrow> UNS32 \<Rightarrow> CO_Data \<Rightarrow> CO_Data" where
  "run_timer_cb cb i d =
     (case cb of
        ConsumerHeartbeatAlarm_cb \<Rightarrow> ConsumerHeartbeatAlarm i d
      | ProducerHeartbeatAlarm_cb \<Rightarrow> ProducerHeartbeatAlarm d
      | GuardTimeAlarm_cb \<Rightarrow> GuardTimeAlarm d
      | SyncAlarm_cb \<Rightarrow> SyncAlarm d
      | PDOEventTimerAlarm_cb \<Rightarrow> PDOEventTimerAlarm i d
      | PDOInhibitTimerAlarm_cb \<Rightarrow> PDOInhibitTimerAlarm i d
      | RxPDO_EventTimers_Handler_cb \<Rightarrow> RxPDO_EventTimers_Handler d
      | SDOTimeoutAlarm_cb \<Rightarrow> SDOTimeoutAlarm i d)"

definition TimeDispatch :: "CO_Data \<Rightarrow> CO_Data" where
  "TimeDispatch d = TimeDispatch_with run_timer_cb d"

section \<open>What is kept by everything the SDO machine does\<close>

text \<open>
  A property of the node that depends neither on the lines nor on the alarms, the memory, the trace or the
  configuration walk, and that a change of state keeps, is kept by \<open>proceedSDO\<close> and by the timeout.
\<close>

locale node_property =
  fixes P :: "CO_Data \<Rightarrow> bool"
  assumes line: "P (upd_line l f d) = P d" and checked: "P (chk b d) = P d" and memory: "P (d\<lparr>mem := m\<rparr>) = P d"
    and alarm: "P (snd (SetAlarm i cb v p d)) = P d" "P (snd (DelAlarm h d)) = P d"
    and frame_out: "P (snd (canSend msg d)) = P d"
    and table: "P (put_NMTable n s d) = P d"
    and walk: "P (d\<lparr>dcf_odentry := w1\<rparr>) = P d" "P (d\<lparr>dcf_cursor := w2\<rparr>) = P d" "P (d\<lparr>dcf_status := w3\<rparr>) = P d"
      "P (d\<lparr>dcf_entries_count := w4\<rparr>) = P d" "P (d\<lparr>dcf_size := w5\<rparr>) = P d" "P (d\<lparr>dcf_data := w6\<rparr>) = P d"
    and dictionary: "P d \<Longrightarrow> P (snd (snd (setODentry ix sx src sz ca d)))" "P (snd (getODentry ix sx buf sz ty ca d)) = P d"
    and state_change: "P d \<Longrightarrow> P (snd (setState st d))"
begin

lemmas kept = line checked memory alarm frame_out table walk dictionary state_change

lemma timer_kept: "P (StopSDO_TIMER l d) = P d" "P (StartSDO_TIMER l d) = P d" "P (RestartSDO_TIMER l d) = P d"
proof -
  have 1: "P (StopSDO_TIMER l d) = P d" "P (StartSDO_TIMER l d) = P d" for d
    by (simp_all add: StopSDO_TIMER_def StartSDO_TIMER_def Let_def split_beta kept)
  then show "P (StopSDO_TIMER l d) = P d" "P (StartSDO_TIMER l d) = P d" "P (RestartSDO_TIMER l d) = P d"
    by (simp_all add: RestartSDO_TIMER_def)
qed

lemma line_kept: "P (initSDOline l c i s st d) = P d" "P (resetSDOline l d) = P d" "P (snd (getSDOfreeLine w d)) = P d"
  "P (snd (SDOtoLine l n bs d)) = P d" "P (snd (snd (lineToSDO l n d))) = P d" "P (snd (setSDOlineRestBytes l n d)) = P d"
  "P (flip_toggle l d) = P d"
proof -
  show init: "P (initSDOline l c i s st d) = P d" for c i s st by (simp add: initSDOline_def Let_def kept timer_kept)
  show "P (resetSDOline l d) = P d" by (simp add: resetSDOline_def kept init)
qed (simp_all add: getSDOfreeLine_def SDOtoLine_def lineToSDO_def setSDOlineRestBytes_def flip_toggle_def Let_def kept)

lemma send_kept: "P (snd (sendSDO w c bs d)) = P d" "P (snd (failedSDO c w i s a d)) = P d" "P (snd (reply w c bs d)) = P d"
  "P (snd (sdo_fail c w i s a d)) = P d" "P (snd (sendSDOabort w c i s a d)) = P d"
proof -
  show send: "P (snd (sendSDO w c bs d)) = P d" for w c bs d by (simp add: sendSDO_def Let_def kept)
  show ab: "P (snd (sendSDOabort w c i s a d)) = P d" for d by (simp add: sendSDOabort_def send)
  show fail: "P (snd (failedSDO c w i s a d)) = P d"
    by (simp add: failedSDO_def Let_def split_beta ab kept line_kept timer_kept split: option.split)
  show "P (snd (sdo_fail c w i s a d)) = P d" by (simp add: sdo_fail_def fail)
  show "P (snd (reply w c bs d)) = P d" by (simp add: reply_def send)
qed

lemma objdict_kept: "P d \<Longrightarrow> P (snd (SDOlineToObjdict l d))" "P (snd (objdictToSDOline l d)) = P d"
  by (simp_all add: SDOlineToObjdict_def objdictToSDOline_def Let_def split_beta kept)

lemmas sdo_kept = kept timer_kept line_kept send_kept objdict_kept

lemma client_kept:
  assumes "P d"
  shows "P (snd (do_writeNetworkDict n i s c ty bs cb en blk d))" "P (snd (do_readNetworkDict n i s ty cb blk d))"
    "P (snd (writeNetworkDictCallBackAI n i s c ty bs cb en blk d))" "P (snd (readNetworkDictCallbackAI n i s ty cb blk d))"
    "P (snd (getReadResultNetworkDict n sz d))" "P (snd (snd (getWriteResultNetworkDict n d)))"
proof -
  have free: "P d0" if "P e" "getSDOfreeLine w e = (x, d0)" for e w x d0
    using line_kept(3) [of w e] that by simp
  have w: "P (snd (do_writeNetworkDict n i s c ty bs cb en blk d))" if "P d" for d
    using that free by (auto simp: do_writeNetworkDict_def open_download_def Let_def split_beta sdo_kept split: option.split prod.split)
  have r: "P (snd (do_readNetworkDict n i s ty cb blk d))" if "P d" for d
    using that free by (auto simp: do_readNetworkDict_def Let_def split_beta sdo_kept split: option.split prod.split)
  show "P (snd (do_writeNetworkDict n i s c ty bs cb en blk d))" "P (snd (do_readNetworkDict n i s ty cb blk d))"
    using w r assms by blast+
  have with': "P (snd (with_client n req d))" if "\<And>e. P e \<Longrightarrow> P (snd (req e))" for req
    using that [of d] that assms by (auto simp: with_client_def Let_def split_beta assign_client_def kept split: option.split)
  show "P (snd (writeNetworkDictCallBackAI n i s c ty bs cb en blk d))" "P (snd (readNetworkDictCallbackAI n i s ty cb blk d))"
    unfolding writeNetworkDictCallBackAI_def readNetworkDictCallbackAI_def by (rule with', rule w r, assumption)+
  show "P (snd (getReadResultNetworkDict n sz d))" "P (snd (snd (getWriteResultNetworkDict n d)))"
    using assms by (simp_all add: getReadResultNetworkDict_def getWriteResultNetworkDict_def Let_def sdo_kept split: option.split)
qed

lemma dcf_kept:
  assumes "P d"
  shows "P (start_node n d)" "P (dcferror n d)" "P (snd (init_consise_dcf n d))" "P (snd (write_consise_dcf_next_entry n d))"
    "P (snd (read_consise_dcf_next_entry n d))"
proof -
  show "P (start_node n d)" "P (dcferror n d)" using assms by (simp_all add: start_node_def dcferror_def masterSendNMTstateChange_def kept)
  show "P (snd (init_consise_dcf n d))" using assms by (simp add: init_consise_dcf_def Let_def kept split: option.split)
  have next': "P (snd (get_next_DCF_data n d))" using assms by (simp add: get_next_DCF_data_def Let_def kept split: option.split)
  show "P (snd (write_consise_dcf_next_entry n d))" "P (snd (read_consise_dcf_next_entry n d))"
    using next' by (auto simp: write_consise_dcf_next_entry_def read_consise_dcf_next_entry_def Let_def client_kept split: prod.split option.split)
qed

lemma seek_kept: "P d \<Longrightarrow> P (seek_nodes ns d)"
proof (induction ns arbitrary: d)
  case (Cons n ns)
  have "P (snd (check_and_start_node k d))" for k using Cons.prems by (simp add: check_and_start_node_def Let_def split_beta kept dcf_kept)
  then show ?case using Cons by (simp add: Let_def split_beta)
qed (simp add: kept)

lemma callback_kept: "P d \<Longrightarrow> P (run_sdo_cb cb n d)"
  by (simp add: run_sdo_cb_def CheckSDOAndContinue_def start_and_seek_node_def Let_def split_beta masterSendNMTstateChange_def
      seek_kept kept dcf_kept client_kept split: option.split sdo_cb.split)

lemma end_client_kept: "P d \<Longrightarrow> P (snd (end_client l mark n d))"
  by (simp add: end_client_def Let_def callback_kept sdo_kept)

lemma on_line_kept: "P d \<Longrightarrow> (\<And>l. P (snd (k l d))) \<Longrightarrow> P (snd (on_line c w l st k d))"
  by (simp add: on_line_def send_kept split: option.split)

lemma on_toggle_kept: "P d \<Longrightarrow> P (snd (k d)) \<Longrightarrow> P (snd (on_toggle c w l b k d))"
  by (simp add: on_toggle_def send_kept)

lemma open_server_kept: "P d \<Longrightarrow> (\<And>l e. P e \<Longrightarrow> P (snd (k l e))) \<Longrightarrow> P (snd (open_server c l i s st k d))"
  using line_kept(3) [of SDO_SERVER d]
  by (cases "getSDOfreeLine SDO_SERVER d") (simp add: open_server_def sdo_kept split: option.split)

lemma next_segment_kept: "P (snd (snd (next_segment l n d))) = P d"
  by (simp add: next_segment_def Let_def split_beta line_kept)

lemmas case_kept = end_client_kept on_line_kept on_toggle_kept open_server_kept

lemma segments_kept:
  assumes "P d"
  shows "P (snd (download_segment_server c l m d))" "P (snd (upload_segment_client c n l m d))" "P (snd (initiate_download_server c l m d))"
    "P (snd (download_segment_client c n l m d))" "P (snd (initiate_upload_server c l m d))" "P (snd (initiate_upload_client c n l m d))"
    "P (snd (upload_segment_server c l m d))" "P (snd (initiate_download_client c n l m d))" "P (snd (abort_received w n l m d))"
  unfolding download_segment_server_def upload_segment_client_def initiate_download_server_def download_segment_client_def
    initiate_upload_server_def initiate_upload_client_def upload_segment_server_def initiate_download_client_def abort_received_def
  using assms by (auto simp: Let_def split_beta sdo_kept next_segment_kept intro!: case_kept split: option.split)

lemma block_loop_kept: "P d \<Longrightarrow> block_loop fuel c w at l s d = Some r \<Longrightarrow> P (snd r)"
proof (induction fuel arbitrary: s d)
  case (Suc fuel)
  let ?d1 = "upd_line l (\<lambda>t. t\<lparr>seqno := s\<rparr>) d"
  let ?n = "if getSDOlineRestBytes l ?d1 > 7 then 7 else getSDOlineRestBytes l ?d1"
  have d2: "P (snd (snd (lineToSDO l ?n ?d1)))" using Suc.prems(1) by (simp add: line_kept kept)
  then have rep: "P (snd (reply w c bs (snd (snd (lineToSDO l ?n ?d1)))))" for bs by (simp add: send_kept)
  show ?case using Suc.prems d2 Suc.IH [OF rep]
    by (auto simp: Let_def split_beta send_kept kept split: if_splits option.splits)
qed simp

lemma blocks_kept:
  assumes "P d"
  shows "P (snd (block_upload_server c l m d))" "P (snd (block_download_client c n l m d))"
    "P (snd (block_download_server c l m d))" "P (snd (block_upload_client c n l m d))"
proof -
  have send: "P (snd (send_block c w at line e))" if "P e" for w at line e
    using block_loop_kept [of "upd_line line (\<lambda>t. t\<lparr>lastblockoffset := ucast (offset t)\<rparr>) e"] that
    by (auto simp: send_block_def Let_def kept split: option.split)
  have ack: "P (snd (block_acknowledged c w at line m e))" if "P e" for w at line e
    using that send by (simp add: block_acknowledged_def Let_def send_kept kept)
  have ans: "P (snd (block_answer c w line e))" if "P e" for w line e using that by (simp add: block_answer_def sdo_kept)
  have seg: "P (snd (block_segment c w line m e))" if "P e" for w line e
    using that by (simp add: block_segment_def Let_def split_beta sdo_kept ans)
  have fin: "P (snd (block_end c w line m k e))" if "P e" "\<And>x. P x \<Longrightarrow> P (snd (k x))" for w line k e
    using that by (simp add: block_end_def Let_def split_beta sdo_kept)
  show "P (snd (block_upload_server c l m d))" unfolding block_upload_server_def
    using assms send ack by (auto simp: Let_def split_beta sdo_kept intro!: case_kept)
  show "P (snd (block_download_client c n l m d))" unfolding block_download_client_def
    using assms send ack by (auto simp: Let_def split_beta sdo_kept intro!: case_kept split: option.split)
  show "P (snd (block_download_server c l m d))" unfolding block_download_server_def
    using assms seg by (auto simp: Let_def split_beta sdo_kept intro!: case_kept fin split: option.split rxStep_t.split)
  show "P (snd (block_upload_client c n l m d))" unfolding block_upload_client_def
    using assms seg by (auto simp: Let_def split_beta sdo_kept intro!: case_kept fin split: option.split rxStep_t.split)
qed

lemma proceedSDO_kept: "P d \<Longrightarrow> P (snd (proceedSDO m d))"
  by (simp add: proceedSDO_def serve_def follow_def Let_def send_kept segments_kept blocks_kept split: sdo_role.split)

lemma SDOTimeoutAlarm_kept: "P d \<Longrightarrow> P (SDOTimeoutAlarm i d)"
  by (simp add: SDOTimeoutAlarm_def Let_def sdo_kept callback_kept)

end

section \<open>The state of a node and its services\<close>

text \<open>A node that has left Initialisation and runs exactly the services of its state.\<close>

definition running :: "CO_Data \<Rightarrow> bool" where
  "running d \<longleftrightarrow> (\<exists>s. in_state s d)"

lemma running_cong:
  "nodeState e = nodeState d \<Longrightarrow> CurrentCommunicationState e = CurrentCommunicationState d \<Longrightarrow> running e = running d"
  by (simp add: running_def in_state_def)

lemma running_service: "service_frame d e \<Longrightarrow> running e = running d"
  by (rule running_cong) (simp_all add: service_frame_def)

lemma running_setState: "running d \<Longrightarrow> running (snd (setState st d))"
proof -
  assume "running d"
  then obtain s where s: "in_state s d" by (auto simp: running_def)
  show ?thesis
  proof (cases "st \<in> {Initialisation, Pre_operational, Operational, Stopped}")
    case True
    with in_state_setState [OF s] show ?thesis
      using state_byte.simps by (metis insertE running_def singletonD)
  next
    case False
    then show ?thesis using s by (auto simp: setState_def running_def)
  qed
qed

interpretation runs: node_property running
proof unfold_locales
  show "running (snd (snd (setODentry ix sx src sz ca d)))" if "running d" for ix sx src sz ca d
    using that running_service [OF setODentry_frame] by simp
  show "running (snd (setState st d))" if "running d" for st d using that by (rule running_setState)
qed (rule running_cong; simp add: upd_line_def chk_def canSend_def emit_def put_NMTable_def)+

text \<open>The configuration of a node, which holds its dictionary, never changes.\<close>

lemma setState_cfg: "cfg (snd (setState st d)) = cfg d"
proof -
  have "cfg (enter_PreOperational e) = cfg e" for e
    by (simp add: enter_PreOperational_def preOperational_def masterSendNMTstateChange_def canSend_def emit_def)
  then show ?thesis by (simp add: setState_def Let_def initialisation_def emit_def)
qed

interpretation config: node_property "\<lambda>d. cfg d = c" for c
proof unfold_locales
  show "cfg (snd (snd (setODentry ix sx src sz ca d))) = c" if "cfg d = c" for ix sx src sz ca d
    using that setODentry_frame [of d ix sx src sz ca] by (simp add: service_frame_def)
qed (simp_all add: upd_line_def chk_def canSend_def emit_def put_NMTable_def setState_cfg)

lemma proceedNMTstateChange_running: "running d \<Longrightarrow> running (proceedNMTstateChange m d)"
proof -
  assume r: "running d"
  then have "running (setNodeId n (d\<lparr>mem := f\<rparr>))" for n f
    by (intro setNodeId_keeps [where P = running]) (simp_all add: runs.memory)
  with r show ?thesis by (simp add: proceedNMTstateChange_def Let_def running_setState)
qed

section \<open>The entry points keep the invariant\<close>

lemma sdo_ok_service: "sdo_ok d \<Longrightarrow> node_ok e \<Longrightarrow> service_frame d e \<Longrightarrow> sdo_ok e"
  by (erule sdo_ok_same) (simp_all add: service_frame_def)

lemma service_steps:
  "service_frame d (snd (proceedSYNC d))" "service_frame d (proceedEMCY m d)" "service_frame d (proceedNODE_GUARD m d)"
  "service_frame d (ConsumerHeartbeatAlarm i d)" "service_frame d (ProducerHeartbeatAlarm d)" "service_frame d (GuardTimeAlarm d)"
  "service_frame d (SyncAlarm d)" "service_frame d (PDOEventTimerAlarm i d)" "service_frame d (PDOInhibitTimerAlarm i d)"
  "service_frame d (RxPDO_EventTimers_Handler d)"
  by (simp_all add: service_frame_pdo service_frame_guard [OF guard_ops_frame(5)] service_frame_guard [OF guard_ops_frame(6)]
      service_frame_guard [OF guard_ops_frame(7)] service_frame_guard [OF guard_ops_frame(8)] proceedEMCY_def RxPDO_EventTimers_Handler_def)

lemma canDispatch_keeps:
  assumes "P d" and s: "\<And>e. service_frame d e \<Longrightarrow> node_ok e \<Longrightarrow> P e" and "P (snd (proceedSDO m d))" "P (proceedNMTstateChange m d)" and ok: "node_ok d"
  shows "P (canDispatch m d)"
proof -
  have "P (snd (proceedSYNC d))" "P (proceedEMCY m d)" "P (snd (proceedPDO m d))" "P (proceedNODE_GUARD m d)"
    by (rule s; use ok service_steps in simp)+
  with assms show ?thesis by (simp add: canDispatch_def Let_def)
qed

lemma canDispatch_ok: "sdo_ok d \<Longrightarrow> 8 \<le> length (mdata m) \<Longrightarrow> sdo_ok (canDispatch m d)"
  by (rule canDispatch_keeps [where P = sdo_ok]) (auto intro: sdo_ok_service sdo_ok_node proceedSDO_ok)

lemma canDispatch_running: "running d \<Longrightarrow> node_ok d \<Longrightarrow> running (canDispatch m d)"
  by (rule canDispatch_keeps [where P = running])
    (auto simp: running_service runs.proceedSDO_kept proceedNMTstateChange_running)

lemma run_timer_cb_keeps:
  assumes s: "\<And>e. service_frame d e \<Longrightarrow> node_ok e \<Longrightarrow> P e" and "P (SDOTimeoutAlarm i d)" and ok: "node_ok d"
  shows "P (run_timer_cb cb i d)"
proof -
  have "P (ConsumerHeartbeatAlarm i d)" "P (ProducerHeartbeatAlarm d)" "P (GuardTimeAlarm d)" "P (SyncAlarm d)"
    "P (PDOEventTimerAlarm i d)" "P (PDOInhibitTimerAlarm i d)" "P (RxPDO_EventTimers_Handler d)"
    by (rule s; use ok service_steps in \<open>simp add: RxPDO_EventTimers_Handler_def\<close>)+
  with assms show ?thesis by (simp add: run_timer_cb_def split: timer_cb.split)
qed

lemma trig_rows_keeps:
  assumes d: "P d" and row: "\<And>e i. P e \<Longrightarrow> i < MAX_NB_TIMER \<Longrightarrow>
      P (e\<lparr>timers := (timers e)[i := (timers e ! i)\<lparr>tstate := tstate (timers e ! i) AND NOT TIMER_TRIG\<rparr>]\<rparr>)"
    and run: "\<And>e cb k. P e \<Longrightarrow> P (run cb k e)" and rows: "\<forall>i \<in> set rs. i < MAX_NB_TIMER"
  shows "P (trig_rows run rs d)"
  using d rows
proof (induction rs arbitrary: d)
  case (Cons i rs)
  have "P (trig_row run i d)" using Cons.prems row [of d i] run by (auto simp: trig_row_def Let_def split: option.split)
  with Cons show ?case by simp
qed simp

lemma untriggered_ok:
  assumes ok: "sdo_ok d" and i: "i < MAX_NB_TIMER"
  shows "sdo_ok (d\<lparr>timers := (timers d)[i := (timers d ! i)\<lparr>tstate := tstate (timers d ! i) AND NOT TIMER_TRIG\<rparr>]\<rparr>)"
proof (rule sdo_ok_same [OF ok])
  let ?d = "d\<lparr>timers := (timers d)[i := (timers d ! i)\<lparr>tstate := tstate (timers d ! i) AND NOT TIMER_TRIG\<rparr>]\<rparr>"
  have n: "node_ok d" by (rule sdo_ok_node [OF ok])
  have "timers_ok d" using n by (simp add: node_ok_def)
  moreover have "x AND NOT TIMER_TRIG \<le> x" for x :: UNS8 by (rule word_and_le2)
  ultimately have "timers_ok ?d" using i by (auto simp: timers_ok_def nth_list_update intro: order_trans)
  with n od_ok_cong [of ?d d] show "node_ok ?d" by (simp only: node_ok_def) (simp add: handles_ok_def arrays_ok_def)
qed simp

lemma TimeDispatch_first_ok: "sdo_ok d \<Longrightarrow> sdo_ok (TimeDispatch_first d)"
proof -
  assume ok: "sdo_ok d"
  have n: "node_ok d" by (rule sdo_ok_node [OF ok])
  have "node_ok (TimeDispatch_first d)"
    using n od_ok_cong [of "TimeDispatch_first d" d] by (simp only: node_ok_def) (simp add: handles_ok_def arrays_ok_def)
  then show ?thesis using sdo_ok_same [OF ok] by simp
qed

lemma TimeDispatch_ok: "sdo_ok d \<Longrightarrow> sdo_ok (TimeDispatch d)"
  unfolding TimeDispatch_def TimeDispatch_with_def
proof (rule trig_rows_keeps [where P = sdo_ok])
  show "sdo_ok (run_timer_cb cb k e)" if "sdo_ok e" for cb k e
    using that by (intro run_timer_cb_keeps [where P = sdo_ok]) (auto intro: sdo_ok_service sdo_ok_node)
  show "sdo_ok (e\<lparr>timers := (timers e)[i := (timers e ! i)\<lparr>tstate := tstate (timers e ! i) AND NOT TIMER_TRIG\<rparr>]\<rparr>)"
    if "sdo_ok e" "i < MAX_NB_TIMER" for e i using that by (rule untriggered_ok)
qed (simp_all add: TimeDispatch_first_ok)

lemma TimeDispatch_running: "running d \<Longrightarrow> sdo_ok d \<Longrightarrow> running (TimeDispatch d)"
proof -
  assume d: "running d" "sdo_ok d"
  let ?P = "\<lambda>e. running e \<and> sdo_ok e"
  have "?P (trig_rows run_timer_cb [0..<MAX_NB_TIMER] (TimeDispatch_first d))"
  proof (rule trig_rows_keeps [where P = ?P])
    show "?P (TimeDispatch_first d)" using d TimeDispatch_first_ok by (simp add: running_cong [of "TimeDispatch_first d" d])
    show "?P (e\<lparr>timers := (timers e)[i := (timers e ! i)\<lparr>tstate := tstate (timers e ! i) AND NOT TIMER_TRIG\<rparr>]\<rparr>)"
      if "?P e" "i < MAX_NB_TIMER" for e i
    proof (rule conjI)
      show "running (e\<lparr>timers := (timers e)[i := (timers e ! i)\<lparr>tstate := tstate (timers e ! i) AND NOT TIMER_TRIG\<rparr>]\<rparr>)"
        using that running_def by (auto simp: in_state_def)
    qed (rule untriggered_ok; use that in simp)
    show "?P (run_timer_cb cb k e)" if "?P e" for cb k e
      using that by (intro run_timer_cb_keeps [where P = ?P])
        (auto intro: sdo_ok_service sdo_ok_node simp: running_service runs.SDOTimeoutAlarm_kept)
  qed simp
  then show ?thesis by (simp add: TimeDispatch_def TimeDispatch_with_def)
qed

section \<open>The steps of a node\<close>

text \<open>A frame arrives, the timer interrupt occurs, or the application calls the stack.\<close>

inductive node_step :: "CO_Data \<Rightarrow> CO_Data \<Rightarrow> bool" where
  receive: "length (mdata m) = 8 \<Longrightarrow> node_step d (canDispatch m d)"
| timer_interrupt: "node_step d (TimeDispatch d)"
| change_state: "node_step d (snd (setState st d))"
| change_node_id: "node_step d (setNodeId n d)"
| local_write: "node_step d (snd (snd (setODentry ix sx src sz ca d)))"
| local_read: "node_step d (snd (getODentry ix sx buf sz ty ca d))"
| remote_write: "node_step d (snd (writeNetworkDictCallBackAI n ix sx sz ty src cb en blk d))"
| remote_read: "node_step d (snd (readNetworkDictCallbackAI n ix sx ty cb blk d))"
| read_result: "node_step d (snd (getReadResultNetworkDict n sz d))"
| write_result: "node_step d (snd (snd (getWriteResultNetworkDict n d)))"
| close_transfer: "node_step d (snd (closeSDOtransfer n w d))"
| raise_error: "node_step d (snd (EMCY_setError code reg info d))"
| clear_error: "node_step d (EMCY_errorRecovered code d)"
| send_pdos: "node_step d (snd (sendPDOevent d))"
| command_slave: "node_step d (snd (masterSendNMTstateChange n cs d))"
| ask_slave: "node_step d (snd (masterRequestNodeState n d))"

lemma emcy_calls_ok:
  assumes ok: "sdo_ok d"
  shows "sdo_ok (snd (EMCY_setError code reg info d))" "sdo_ok (EMCY_errorRecovered code d)"
proof -
  have len: "length (error_data d) = EMCY_MAX_ERRORS" using sdo_ok_node [OF ok] unfolding node_ok_def arrays_ok_def by blast
  have es: "sdo_ok (d\<lparr>error_data := x\<rparr>)" if "length x = EMCY_MAX_ERRORS" for x
    by (rule sdo_ok_same [OF ok node_ok_error_data_upd [OF sdo_ok_node [OF ok] that]]) simp
  have st: "sdo_ok (e\<lparr>error_state := z\<rparr>)" if "sdo_ok e" for e z
    by (rule sdo_ok_same [OF that]) (use sdo_ok_node [OF that] in simp_all)
  have send: "sdo_ok (snd (sendEMCY a b c n e))" if "sdo_ok e" for a b c n e using that by (simp add: sendEMCY_def Let_def split_beta)
  show "sdo_ok (snd (EMCY_setError code reg info d))"
    using ok len by (auto simp: EMCY_setError_def Let_def intro!: send st es)
  show "sdo_ok (EMCY_errorRecovered code d)"
    using ok len by (auto simp: EMCY_errorRecovered_def Let_def intro!: send st es)
qed

lemma emcy_calls_frame:
  "nodeState (snd (EMCY_setError code reg info d)) = nodeState d" "nodeState (EMCY_errorRecovered code d) = nodeState d"
  "CurrentCommunicationState (snd (EMCY_setError code reg info d)) = CurrentCommunicationState d"
  "CurrentCommunicationState (EMCY_errorRecovered code d) = CurrentCommunicationState d"
  by (simp_all add: EMCY_setError_def EMCY_errorRecovered_def sendEMCY_def Let_def split_beta canSend_def emit_def)

lemma node_step_ok: "node_step d d' \<Longrightarrow> sdo_ok d \<Longrightarrow> sdo_ok d'"
proof (induction rule: node_step.induct)
  case (local_write d ix sx src sz ca)
  then show ?case using sdo_ok_service [OF local_write] sdo_ok_node [OF local_write] by simp
next
  case (local_read d ix sx buf sz ty ca)
  then show ?case using sdo_ok_same [OF local_read, of "snd (getODentry ix sx buf sz ty ca d)"] sdo_ok_node [OF local_read] by simp
next
  case (send_pdos d)
  then show ?case using sdo_ok_node [OF send_pdos] by (intro sdo_ok_service [OF send_pdos]) (simp_all add: sendPDOevent_def service_frame_pdo)
next
  case (ask_slave d n)
  have "transfers (snd (masterRequestNodeState n d)) = transfers d"
    by (simp add: masterRequestNodeState_def masterSendNMTnodeguard_def put_NMTable_def canSend_def emit_def Let_def)
  then show ?case using sdo_ok_same [OF ask_slave] sdo_ok_node [OF ask_slave] by simp
qed (simp_all add: canDispatch_ok TimeDispatch_ok emcy_calls_ok masterSendNMTstateChange_def)

lemma node_step_running: "node_step d d' \<Longrightarrow> running d \<and> sdo_ok d \<Longrightarrow> running d'"
proof (induction rule: node_step.induct)
  case (change_node_id d n)
  then show ?case by (intro setNodeId_keeps [where P = running]) (simp_all add: runs.memory)
next
  case (close_transfer d n w)
  then show ?case by (simp add: closeSDOtransfer_def Let_def runs.line_kept split: option.split)
next
  case (send_pdos d)
  then show ?case by (simp add: running_service [OF service_frame_pdo [OF pdo_frame_ops(2)]])
next
  case (ask_slave d n)
  then show ?case using running_cong [of "snd (masterRequestNodeState n d)" d]
    by (simp add: masterRequestNodeState_def masterSendNMTnodeguard_def put_NMTable_def canSend_def emit_def chk_def Let_def)
next
  case (raise_error d code reg info)
  then show ?case using running_cong [of "snd (EMCY_setError code reg info d)" d] emcy_calls_frame by simp
next
  case (clear_error d code)
  then show ?case using running_cong [of "EMCY_errorRecovered code d" d] emcy_calls_frame by simp
qed (simp_all add: canDispatch_running sdo_ok_node TimeDispatch_running running_setState runs.dictionary runs.client_kept
    masterSendNMTstateChange_def runs.frame_out)

lemma reachable_ok: "node_step\<^sup>*\<^sup>* d0 d \<Longrightarrow> sdo_ok d0 \<Longrightarrow> running d0 \<Longrightarrow> sdo_ok d \<and> running d"
proof (induction rule: rtranclp_induct)
  case (step d d')
  then show ?case using node_step_ok [OF step.hyps(2)] node_step_running [OF step.hyps(2)] by blast
qed simp

section \<open>Properties\<close>


text \<open>C10: the state of the node decides what it reacts to. In every reachable state, a stopped node ignores each
  frame that is neither an NMT command nor node guarding, and a node that is not operational ignores
  process data: the frame leaves no trace at all in the node.\<close>

theorem services_follow_state:
  assumes "sdo_ok d0" "running d0" "node_step\<^sup>*\<^sup>* d0 d"
  shows "(nodeState d = Stopped \<and> drop_bit 7 (cob_id m) \<notin> {fc_NMT, fc_NODE_GUARD} \<longrightarrow> canDispatch m d = d)
    \<and> (nodeState d \<noteq> Operational \<and> fc_PDO1tx \<le> drop_bit 7 (cob_id m) \<and> drop_bit 7 (cob_id m) \<le> fc_PDO4rx \<longrightarrow> canDispatch m d = d)"
proof -
  have "running d" using reachable_ok assms by blast
  then obtain s where "in_state s d" by (auto simp: running_def)
  then have c: "CurrentCommunicationState d = services (nodeState d)" by (simp add: in_state_def)
  have "\<not> (3 :: UNS16) \<le> 1" by (simp add: word_le_nat_alt)
  then show ?thesis by (auto simp: canDispatch_def Let_def c services_def comm_def)
qed

text \<open>C11: a slave can always be brought back. Whatever has happened to a slave, an NMT reset command for all nodes takes it to
  Pre-operational, and a start command after that takes it to Operational with all its services running.\<close>

theorem slave_can_be_restarted:
  assumes "sdo_ok d0" "running d0" "node_step\<^sup>*\<^sup>* d0 d" and slave: "iam_a_slave (cfg d) \<noteq> 0"
    and r: "cob_id reset = 0" "mdata reset ! 0 = NMT_Reset_Node" "mdata reset ! 1 = 0"
    and s: "cob_id start = 0" "mdata start ! 0 = NMT_Start_Node" "mdata start ! 1 = 0"
  shows "in_state S_PreOperational (canDispatch reset d) \<and> in_state S_Operational (canDispatch start (canDispatch reset d))"
proof -
  have "running d" using reachable_ok assms(1-3) by blast
  then obtain st where st: "in_state st d" by (auto simp: running_def)
  have n: "nodeState d \<in> {Pre_operational, Operational, Stopped}" using st state_byte_range(1) by (simp add: in_state_def)
  define e where "e = canDispatch reset d"
  have e: "e = snd (setState Initialisation d)"
    using slave r n by (simp add: e_def canDispatch_def proceedNMTstateChange_def)
  have p: "in_state S_PreOperational e" unfolding e by (rule in_state_setState(2) [OF st])
  have "iam_a_slave (cfg e) \<noteq> 0" "nodeState e = Pre_operational" using slave p by (simp_all add: e setState_cfg in_state_def)
  then have "canDispatch start e = snd (setState Operational e)"
    using s by (simp add: canDispatch_def proceedNMTstateChange_def)
  then show ?thesis using p in_state_setState(1) [OF p, of S_Operational] by (simp add: e_def)
qed

end
