(* ===== verification/NodeSdo.thy ===== *)
theory NodeSdo
  imports NodeExamples SdoSession Dispatch
begin

text \<open>
  The theorems on network states, SDO transfers, the concise configuration and the whole node, at the two
  dictionaries of \<^verbatim>\<open>CanFestival/drive\<close>. The slave is taken after its start, when it has reached
  Pre-operational, or with a transfer open on its SDO line.
\<close>

section \<open>A slave that has been started\<close>

definition slave_up :: CO_Data where
  "slave_up = TestSlave_Data\<lparr>nodeState := Pre_operational, CurrentCommunicationState := services Pre_operational\<rparr>"

lemma slave_up_fields [simp]:
  "cfg slave_up = TestSlave_config" "mem slave_up = mem_of TestSlave_image" "nodeState slave_up = Pre_operational"
  "CurrentCommunicationState slave_up = services Pre_operational" "callbacks slave_up = TestSlave_callbacks"
  "transfers slave_up = [s_transfer_Initializer]" "sent slave_up = []"
  by (simp_all add: slave_up_def TestSlave_Data_def CANOPEN_NODE_DATA_INITIALIZER_def sent_def)

lemma slave_up_in_state: "in_state S_PreOperational slave_up"
  by (simp add: in_state_def)

lemma slave_up_running: "running slave_up"
  unfolding running_def by (rule exI [of _ S_PreOperational]) (rule slave_up_in_state)

lemma slave_up_node_ok: "node_ok slave_up"
  by (simp add: slave_up_def TestSlave_node_ok)

lemma slave_up_ok: "sdo_ok slave_up"
  unfolding sdo_ok_def by (simp add: slave_up_node_ok) (simp add: line_bounded_def s_transfer_Initializer_def)

lemma slave_up_od: "od_disjoint slave_up" "od_obj slave_up k = od_obj TestSlave_Data k" "od_hook slave_up k = od_hook TestSlave_Data k"
proof -
  have c: "cfg slave_up = cfg TestSlave_Data" "callbacks slave_up = callbacks TestSlave_Data" by (simp_all add: TestSlave_Data_def)
  show "od_disjoint slave_up" using TestSlave_disjoint od_disjoint_cong [OF c(1)] by simp
  show "od_obj slave_up k = od_obj TestSlave_Data k" "od_hook slave_up k = od_hook TestSlave_Data k"
    by (rule od_obj_cong od_hook_cong c)+
qed

lemma slave_config_values [simp]: "iam_a_slave TestSlave_config = 1" "bDeviceNodeId TestSlave_config = 358" "error_number TestSlave_config = 21"
  by (simp_all add: TestSlave_config_def)

theorem nmt_slave_refines_witness:
  "\<exists>s'. nmt_step S_PreOperational C_Start s'
     \<and> in_state s' (proceedNMTstateChange \<lparr>cob_id = 0, rtr = 0, mlen = 2, mdata = [1, 0]\<rparr> slave_up)"
proof -
  have "mdata \<lparr>cob_id = 0, rtr = 0, mlen = 2, mdata = [1, 0]\<rparr> ! 0 = command_byte C_Start" by simp
  with nmt_slave_refines [OF slave_up_in_state, of "\<lparr>cob_id = 0, rtr = 0, mlen = 2, mdata = [1, 0]\<rparr>" C_Start] show ?thesis by simp
qed

theorem reset_sends_bootup_witness: "sent (snd (setState Initialisation slave_up)) = [bootup_frame slave_up]"
proof -
  have "iam_a_slave (cfg slave_up) \<noteq> 0" "bDeviceNodeId (cfg slave_up) \<noteq> error_number (cfg slave_up)" by simp_all
  with reset_sends_bootup [OF slave_up_in_state] show ?thesis by simp
qed

section \<open>The whole node\<close>


theorem services_follow_state_witness: "canDispatch pdo_frame_in slave_up = slave_up"
proof -
  have "fc_PDO1tx \<le> drop_bit 7 (cob_id pdo_frame_in)" "drop_bit 7 (cob_id pdo_frame_in) \<le> fc_PDO4rx"
    by (simp_all add: pdo_frame_in_def word_le_nat_alt)
  with services_follow_state [OF slave_up_ok slave_up_running rtranclp.rtrancl_refl, of pdo_frame_in] show ?thesis by simp
qed

definition nmt_frame :: "UNS8 \<Rightarrow> Message" where
  "nmt_frame c = \<lparr>cob_id = 0, rtr = 0, mlen = 2, mdata = [c, 0, 0, 0, 0, 0, 0, 0]\<rparr>"

theorem slave_can_be_restarted_witness:
  "in_state S_Operational (canDispatch (nmt_frame NMT_Start_Node) (canDispatch (nmt_frame NMT_Reset_Node) slave_up))"
proof -
  have "iam_a_slave (cfg slave_up) \<noteq> 0" "cob_id (nmt_frame c) = 0" "mdata (nmt_frame c) ! 0 = c" "mdata (nmt_frame c) ! 1 = 0" for c
    by (simp_all add: nmt_frame_def)
  with slave_can_be_restarted [OF slave_up_ok slave_up_running rtranclp.rtrancl_refl] show ?thesis by blast
qed

section \<open>SDO server\<close>

lemma slave_server_params: "od_u32 slave_up 10 (Suc 0) = 0x600" "od_u32 slave_up 10 2 = 0x580" "bSubCount (od_entry slave_up 10) = 3"
proof -
  have e: "od_entry slave_up 10 = od_row TestSlave_Index1200 0x1200" by (simp add: od_entry_def TestSlave_objdict_def)
  then have a: "pObject (od_sub slave_up 10 (Suc 0)) = 132" "pObject (od_sub slave_up 10 2) = 136"
    by (simp_all add: od_sub_def od_row_def TestSlave_Index1200_def sub_def)
  show "od_u32 slave_up 10 (Suc 0) = 0x600" "od_u32 slave_up 10 2 = 0x580"
    by (simp_all add: od_u32_def a rd32_def) (simp_all add: TestSlave_image_def image_eval)
  show "bSubCount (od_entry slave_up 10) = 3" by (simp add: e od_row_def TestSlave_Index1200_def)
qed

lemma slave_up_serves: "serves 0x600 0 slave_up"
  by (simp add: serves_def sdo_role_of_def server_entries_def TestSlave_firstIndex_def TestSlave_lastIndex_def slave_server_params
      upt_rec word_le_nat_alt)

lemma slave_up_line: "getSDOlineOnUse c w slave_up = None" "fst (getSDOfreeLine w slave_up) = Some 0"
  by (simp_all add: getSDOlineOnUse_def getSDOfreeLine_def Let_def s_transfer_Initializer_def)

lemma slave_up_code: "od_obj slave_up (0x20F0, 2) = Some (sub RW 0x06 2 312)" "od_hook slave_up (0x20F0, 2) \<noteq> Some OnNumberOfErrorsUpdate_cb"
  "od_accepts slave_up (sub RW 0x06 2 312) src 2 True"
  by (simp_all only: slave_up_od slave_code)
    (simp_all add: od_hook_def slave_eval TestSlave_callbacks_def od_accepts_def TestSlave_config_def TestSlave_valueRangeTest_def)

theorem sdo_download_writes_object_witness:
  "od_view (snd (proceedSDO (expedited_download 0x600 0x20F0 2 2 [0x34, 0x12, 0, 0]) slave_up))
     = (od_view slave_up)((0x20F0, 2) \<mapsto> [0x34, 0x12])"
proof -
  have "0 < (2 :: UNS32)" "(2 :: UNS32) \<le> 4" "4 \<le> length [0x34, 0x12, 0, 0 :: UNS8]" by (simp_all add: word_le_nat_alt)
  from sdo_download_writes_object [OF slave_up_ok slave_up_od(1) slave_up_serves slave_up_line this slave_up_code(2)] slave_up_code
  show ?thesis by (simp add: sub_def)
qed

text \<open>A node with an object of twelve bytes, which takes two segments.\<close>

definition domain_config :: od_config where
  "domain_config = TestSlave_config\<lparr>
     objdict := [od_row TestSlave_Index1000 0x1000, od_row TestSlave_Index1200 0x1200, od_row [sub RW 0x0F 12 400] 0x2100],
     scanIndexOD_f := [0x1000 \<mapsto> (0, False), 0x1200 \<mapsto> (1, False), 0x2100 \<mapsto> (2, False)],
     firstIndex := \<lparr>SDO_SVR = 1, SDO_CLT = 0, PDO_RCV = 0, PDO_RCV_MAP = 0, PDO_TRS = 0, PDO_TRS_MAP = 0\<rparr>,
     lastIndex := \<lparr>SDO_SVR = 1, SDO_CLT = 0, PDO_RCV = 0, PDO_RCV_MAP = 0, PDO_TRS = 0, PDO_TRS_MAP = 0\<rparr>\<rparr>"

definition domain_node :: CO_Data where
  "domain_node = (CANOPEN_NODE_DATA_INITIALIZER domain_config
       (mem_of (place 400 [1, 2, 3, 4, 5, 6, 7, 8, 9, 10, 11, 12] @ TestSlave_image)) [[], [], []] [] [])
     \<lparr>nodeState := Pre_operational, CurrentCommunicationState := services Pre_operational\<rparr>"

lemma domain_fields [simp]:
  "cfg domain_node = domain_config" "mem domain_node = mem_of (place 400 [1, 2, 3, 4, 5, 6, 7, 8, 9, 10, 11, 12] @ TestSlave_image)"
  "nodeState domain_node = Pre_operational" "callbacks domain_node = [[], [], []]"
  "transfers domain_node = [s_transfer_Initializer]" "sent domain_node = []"
  by (simp_all add: domain_node_def CANOPEN_NODE_DATA_INITIALIZER_def sent_def)

lemma domain_node_ok: "sdo_ok domain_node" "od_disjoint domain_node"
proof -
  let ?d = "CANOPEN_NODE_DATA_INITIALIZER domain_config
       (mem_of (place 400 [1, 2, 3, 4, 5, 6, 7, 8, 9, 10, 11, 12] @ TestSlave_image)) [[], [], []] [] []"
  have "od_ok ?d"
    by (rule od_ok_table [where hs = "[False, False, False]"])
      (auto simp: domain_config_def od_row_def TestSlave_Index1000_def TestSlave_Index1200_def upt_rec)
  then have "node_ok ?d" by (rule node_ok_initial) (simp_all add: n_tpdo_def domain_config_def)
  then have "node_ok domain_node" by (simp add: domain_node_def)
  then show "sdo_ok domain_node" unfolding sdo_ok_def by simp (simp add: line_bounded_def s_transfer_Initializer_def)
  show "od_disjoint domain_node"
    by (rule ascending_disjoint) (simp add: domain_config_def od_row_def TestSlave_Index1000_def TestSlave_Index1200_def sub_before_def sub_def)
qed

lemma domain_server_params: "od_u32 domain_node 1 (Suc 0) = 0x600" "bSubCount (od_entry domain_node 1) = 3"
proof -
  have e: "od_entry domain_node 1 = od_row TestSlave_Index1200 0x1200" by (simp add: od_entry_def domain_config_def)
  then have a: "pObject (od_sub domain_node 1 (Suc 0)) = 132"
    by (simp add: od_sub_def od_row_def TestSlave_Index1200_def sub_def)
  show "od_u32 domain_node 1 (Suc 0) = 0x600" unfolding od_u32_def a by (simp add: rd32_def TestSlave_image_def image_eval)
  show "bSubCount (od_entry domain_node 1) = 3" unfolding e by (simp add: od_row_def TestSlave_Index1200_def)
qed

lemma domain_serves: "serves 0x600 0 domain_node"
  using domain_server_params [unfolded One_nat_def]
  by (simp add: serves_def sdo_role_of_def server_entries_def domain_config_def upt_rec word_le_nat_alt)

lemma domain_line: "getSDOlineOnUse c w domain_node = None" "fst (getSDOfreeLine w domain_node) = Some 0"
  by (simp_all add: getSDOlineOnUse_def getSDOfreeLine_def Let_def s_transfer_Initializer_def)

lemma domain_object: "od_obj domain_node (0x2100, 0) = Some (sub RW 0x0F 12 400)"
  by (simp add: od_obj_def scanIndexOD_def domain_config_def od_entry_def od_sub_def od_row_def)

lemma domain_size: "bDataType (sub RW 0x0F 12 400) \<noteq> visible_string" "bAccessType (sub RW 0x0F 12 400) AND WO = 0"
  "ssize (sub RW 0x0F 12 400) \<le> 32" "0 < ssize (sub RW 0x0F 12 400)" "4 < ssize (sub RW 0x0F 12 400)"
  by (simp_all add: sub_def word_le_nat_alt word_less_nat_alt)

theorem sdo_upload_delivers_object_witness:
  "\<exists>m ms. sent (request_segments 2 0x600 0 (snd (proceedSDO (upload_request 0x600 0x2100 0) domain_node))) = m # ms
     \<and> concat (map seg_payload ms) = [1, 2, 3, 4, 5, 6, 7, 8, 9, 10, 11, 12]"
proof -
  have v: "od_view domain_node (0x2100, 0) = Some [1, 2, 3, 4, 5, 6, 7, 8, 9, 10, 11, 12]"
    unfolding od_view_def domain_object by (simp add: sub_def rd_bytes_def) (simp add: image_eval)
  have n: "\<not> ssize (sub RW 0x0F 12 400) \<le> 4" "Suc ((unat (ssize (sub RW 0x0F 12 400)) - 1) div 7) = 2"
    by (simp_all add: sub_def word_le_nat_alt)
  show ?thesis
    using sdo_upload_delivers_object [OF domain_node_ok(1) domain_serves domain_line domain_object domain_size(1-4)] v n(1)
    unfolding n(2) by auto
qed

theorem sdo_segments_write_object_witness:
  "\<exists>d'. send_segments 0x600 0 [9, 8, 7, 6, 5, 4, 3, 2, 1, 0, 0, 0]
       (snd (proceedSDO (sdo_msg 0x600 (download_request 0x2100 0 12 [9, 8, 7, 6, 5, 4, 3, 2, 1, 0, 0, 0] False)) domain_node)) = (0, d')
     \<and> od_view d' = (od_view domain_node)((0x2100, 0) \<mapsto> [9, 8, 7, 6, 5, 4, 3, 2, 1, 0, 0, 0])"
proof -
  let ?bs = "[9, 8, 7, 6, 5, 4, 3, 2, 1, 0, 0, 0 :: UNS8]"
  have "od_hook domain_node (0x2100, 0) \<noteq> Some OnNumberOfErrorsUpdate_cb"
    by (simp add: od_hook_def scanIndexOD_def domain_config_def)
  moreover have "length ?bs = unat (ssize (sub RW 0x0F 12 400))" by (simp add: sub_def)
  moreover have "od_accepts domain_node (sub RW 0x0F 12 400) src (ssize (sub RW 0x0F 12 400)) True" for src
    by (simp add: od_accepts_def sub_def domain_config_def TestSlave_config_def TestSlave_valueRangeTest_def)
  moreover have "ssize (sub RW 0x0F 12 400) = 12" by (simp add: sub_def)
  ultimately show ?thesis
    using sdo_segments_write_object [OF domain_node_ok domain_serves domain_line _ domain_object domain_size(5,3)] by (auto simp: prod_eq_iff)
qed

section \<open>Disturbed transfers\<close>

text \<open>The slave in the middle of an upload, with its next toggle 0.\<close>

definition slave_busy :: CO_Data where
  "slave_busy = slave_up\<lparr>transfers := [s_transfer_Initializer\<lparr>state := SDO_UPLOAD_IN_PROGRESS, whoami := SDO_SERVER, count := 12\<rparr>]\<rparr>"

lemma slave_busy_line: "serves 0x600 0 slave_busy" "getSDOlineOnUse 0 SDO_SERVER slave_busy = Some 0"
  "state (tr slave_busy 0) = SDO_UPLOAD_IN_PROGRESS" "ttoggle (tr slave_busy 0) = 0" "sent slave_busy = []"
proof -
  have "sdo_role_of 0x600 slave_busy = sdo_role_of 0x600 slave_up" by (rule role_cong) (simp_all add: slave_busy_def)
  with slave_up_serves show "serves 0x600 0 slave_busy" by (simp add: serves_def slave_busy_def)
  show "getSDOlineOnUse 0 SDO_SERVER slave_busy = Some 0"
    by (simp add: slave_busy_def getSDOlineOnUse_def s_transfer_Initializer_def)
  show "state (tr slave_busy 0) = SDO_UPLOAD_IN_PROGRESS" "ttoggle (tr slave_busy 0) = 0"
    by (simp_all add: slave_busy_def tr_def s_transfer_Initializer_def)
  have "sent slave_busy = sent slave_up" by (simp add: slave_busy_def sent_def)
  then show "sent slave_busy = []" by simp
qed

theorem wrong_toggle_aborts_witness:
  "state (tr (snd (proceedSDO (sdo_msg 0x600 [0x70]) slave_busy)) 0) = SDO_RESET"
proof -
  have "getSDOcs (mdata (sdo_msg 0x600 [0x70]) ! 0) = 3" "cob_id (sdo_msg 0x600 [0x70]) = 0x600" "mlen (sdo_msg 0x600 [0x70]) = 8"
    "getSDOt (mdata (sdo_msg 0x600 [0x70]) ! 0) \<noteq> ttoggle (tr slave_busy 0)"
    by (simp_all add: sdo_msg_def getSDOcs_def getSDOt_def slave_busy_line)
  with wrong_toggle_aborts [OF slave_busy_line(1,2)] slave_busy_line(3) show ?thesis by blast
qed

theorem server_ignores_timeout_witness:
  "fst (proceedSDO (upload_request 0x600 0x1018 4) (SDOTimeoutAlarm 0 slave_busy)) = 0xFF"
proof -
  have "SDO_CLT (firstIndex (cfg slave_busy)) = 0" by (simp add: slave_busy_def TestSlave_firstIndex_def)
  moreover have "state (tr slave_busy 0) \<noteq> SDO_BLOCK_DOWNLOAD_IN_PROGRESS" by (simp add: slave_busy_line)
  ultimately show ?thesis using server_ignores_timeout [OF slave_busy_line(1,2), of "0x1018" 4] by simp
qed

theorem block_loop_ends_witness: "\<exists>r. \<forall>n \<ge> block_fuel. block_loop n 0 SDO_SERVER None 0 1 slave_busy = Some r"
proof -
  have "0 < length (transfers slave_busy)" by (simp add: slave_busy_def)
  then show ?thesis by (rule block_loop_ends)
qed

section \<open>The master\<close>

definition master_up :: CO_Data where
  "master_up = TestMaster_Data\<lparr>nodeState := Operational, CurrentCommunicationState := services Operational\<rparr>"

lemma master_up_fields [simp]:
  "cfg master_up = TestMaster_config" "mem master_up = mem_of TestMaster_image" "nodeState master_up = Operational"
  "transfers master_up = [s_transfer_Initializer]" "sent master_up = []"
  by (simp_all add: master_up_def TestMaster_Data_def CANOPEN_NODE_DATA_INITIALIZER_def sent_def)

lemma master_up_ok: "sdo_ok master_up"
proof -
  have "node_ok master_up" by (simp add: master_up_def TestMaster_node_ok)
  then show ?thesis unfolding sdo_ok_def by simp (simp add: line_bounded_def s_transfer_Initializer_def)
qed

lemma master_client_params:
  "od_u32 master_up 9 (Suc 0) = 0x602" "od_u32 master_up 9 2 = 0x582" "od_u8 master_up 9 3 = 2" "bSubCount (od_entry master_up 9) = 4"
proof -
  have e: "od_entry master_up 9 = od_row TestMaster_Index1280 0x1280" by (simp add: od_entry_def TestMaster_objdict_def)
  then have a: "pObject (od_sub master_up 9 (Suc 0)) = 108" "pObject (od_sub master_up 9 2) = 112" "pObject (od_sub master_up 9 3) = 116"
    by (simp_all add: od_sub_def od_row_def TestMaster_Index1280_def sub_def)
  show "od_u32 master_up 9 (Suc 0) = 0x602" "od_u32 master_up 9 2 = 0x582" "od_u8 master_up 9 3 = 2"
    by (simp_all add: od_u32_def od_u8_def a rd32_def) (simp_all add: TestMaster_image_def image_eval)
  show "bSubCount (od_entry master_up 9) = 4" by (simp add: e od_row_def TestMaster_Index1280_def)
qed

lemma master_client: "GetSDOClientFromNodeId 2 master_up = 0" "sdo_role_of 0x582 master_up = SDO_for_client 0 2"
  by (simp_all add: GetSDOClientFromNodeId_def client_entries_def sdo_role_of_def TestMaster_firstIndex_def TestMaster_lastIndex_def
      master_client_params upt_rec word_le_nat_alt)

definition client_transfer :: "UNS8 \<Rightarrow> CO_Data" where
  "client_transfer st = master_up\<lparr>transfers := [s_transfer_Initializer\<lparr>state := st, whoami := SDO_CLIENT, index := 0x1017, count := 2\<rparr>],
     dcf_status := DCF_STATUS_READ_CHECK\<rparr>"


text \<open>The slave with node id 2, so that its server answers the client entry of the master.\<close>

definition slave_2 :: CO_Data where
  "slave_2 = slave_up\<lparr>mem := mem_of (place 132 (bytes32 0x602) @ place 136 (bytes32 0x582) @ TestSlave_image)\<rparr>"

lemma slave_2_params: "od_u32 slave_2 10 (Suc 0) = 0x602" "od_u32 slave_2 10 2 = 0x582" "bSubCount (od_entry slave_2 10) = 3"
  "od_obj slave_2 (0x1200, 2) = Some (od_sub slave_2 10 2)" "ssize (od_sub slave_2 10 2) = 4"
proof -
  have c: "cfg slave_2 = TestSlave_config" "mem slave_2 = mem_of (place 132 (bytes32 0x602) @ place 136 (bytes32 0x582) @ TestSlave_image)"
    by (simp_all add: slave_2_def)
  have e: "od_entry slave_2 10 = od_row TestSlave_Index1200 0x1200" by (simp add: od_entry_def c TestSlave_objdict_def)
  then have a: "pObject (od_sub slave_2 10 (Suc 0)) = 132" "pObject (od_sub slave_2 10 2) = 136"
    by (simp_all add: od_sub_def od_row_def TestSlave_Index1200_def sub_def)
  show "od_u32 slave_2 10 (Suc 0) = 0x602" "od_u32 slave_2 10 2 = 0x582"
    by (simp_all add: od_u32_def a rd32_def c) (simp_all add: image_eval)
  show "bSubCount (od_entry slave_2 10) = 3" "ssize (od_sub slave_2 10 2) = 4"
    by (simp_all add: od_sub_def e od_row_def TestSlave_Index1200_def sub_def)
  show "od_obj slave_2 (0x1200, 2) = Some (od_sub slave_2 10 2)"
    by (simp add: od_obj_def scanIndexOD_def c TestSlave_scanIndexOD_def e od_row_def TestSlave_Index1200_def)
qed

lemma slave_2_serves: "serves 0x602 0 slave_2"
proof -
  have "nodeState slave_2 = Pre_operational" "cfg slave_2 = TestSlave_config" by (simp_all add: slave_2_def)
  then show ?thesis
    by (simp add: serves_def sdo_role_of_def server_entries_def TestSlave_firstIndex_def TestSlave_lastIndex_def slave_2_params
        upt_rec word_le_nat_alt)
qed

lemma slave_2_ok: "sdo_ok slave_2" "od_disjoint slave_2" "getSDOlineOnUse c w slave_2 = None" "fst (getSDOfreeLine w slave_2) = Some 0"
  "od_hook slave_2 (0x20F0, 2) \<noteq> Some OnNumberOfErrorsUpdate_cb" "od_obj slave_2 (0x20F0, 2) = Some (sub RW 0x06 2 312)"
  "od_accepts slave_2 (sub RW 0x06 2 312) src 2 True"
proof -
  have f: "cfg slave_2 = cfg slave_up" "callbacks slave_2 = callbacks slave_up" "transfers slave_2 = transfers slave_up"
    by (simp_all add: slave_2_def)
  have "node_ok slave_2" unfolding slave_2_def using slave_up_node_ok by simp
  then show "sdo_ok slave_2" by (rule sdo_ok_same [OF slave_up_ok]) (rule f)
  show "od_disjoint slave_2" using slave_up_od(1) od_disjoint_cong [OF f(1)] by simp
  show "od_obj slave_2 (0x20F0, 2) = Some (sub RW 0x06 2 312)" using slave_up_code(1) od_obj_cong [OF f(1)] by simp
  show "od_hook slave_2 (0x20F0, 2) \<noteq> Some OnNumberOfErrorsUpdate_cb" using slave_up_code(2) od_hook_cong [OF f(1,2)] by simp
  show "od_accepts slave_2 (sub RW 0x06 2 312) src 2 True" using slave_up_code(3) od_accepts_cong [OF f(1)] by simp
  show "getSDOlineOnUse c w slave_2 = None" "fst (getSDOfreeLine w slave_2) = Some 0"
    by (simp_all add: f(3) getSDOlineOnUse_def getSDOfreeLine_def Let_def s_transfer_Initializer_def)
qed

lemma slave_2_keeps_cob:
  assumes "od_view d = (od_view slave_2)((0x20F0, 2) \<mapsto> v)" "cfg d = cfg slave_2"
  shows "server_cob 0 d = 0x582"
proof -
  have s: "od_sub d 10 2 = od_sub slave_2 10 2" "od_obj d (0x1200, 2) = Some (od_sub slave_2 10 2)"
    using slave_2_params(4) assms(2) by (simp_all add: od_sub_def od_entry_def od_obj_cong [of d slave_2])
  have "od_view d (0x1200, 2) = od_view slave_2 (0x1200, 2)" using assms(1) by simp
  then have "rd_bytes (mem d) (pObject (od_sub slave_2 10 2)) 4 = rd_bytes (mem slave_2) (pObject (od_sub slave_2 10 2)) 4"
    by (simp add: od_view_def s slave_2_params)
  then have "od_u32 d 10 2 = od_u32 slave_2 10 2" unfolding od_u32_def s(1) by (rule rd32_bytes)
  moreover have "SDO_SVR (firstIndex (cfg d)) = 10" using assms(2) by (simp add: slave_2_def TestSlave_firstIndex_def)
  ultimately show ?thesis by (simp add: server_cob_def slave_2_params)
qed

lemma master_writes:
  defines "r \<equiv> writeNetworkDict 2 0x20F0 2 2 0 [0x34, 0x12] False master_up"
  shows "fst r = 0" "cob_id (last (sent (snd r))) = 0x602"
proof -
  have f1: "getSDOlineOnUse 0 SDO_CLIENT master_up = None" by (simp add: getSDOlineOnUse_def s_transfer_Initializer_def)
  obtain d0 where f2: "getSDOfreeLine SDO_CLIENT master_up = (Some 0, d0)" by (simp add: getSDOfreeLine_def Let_def s_transfer_Initializer_def)
  let ?line = "open_download 0 0 0x20F0 2 2 0 [0x34, 0x12] None False d0"
  have "0 < (2 :: UNS32)" "(2 :: UNS32) \<le> 4" "unat (2 :: UNS32) \<le> length [0x34, 0x12 :: UNS8]" by (simp_all add: word_le_nat_alt)
  from open_download_line(1) [OF master_up_ok f2 this]
  have "sdo_frame master_up ?line" .
  then have fr: "cfg ?line = TestMaster_config" "mem ?line = mem master_up" "nodeState ?line = Operational" by (simp_all add: sdo_frame_def)
  then have cob: "od_u32 ?line 9 (Suc 0) = 0x602"
    using master_client_params(1) by (simp add: od_u32_def od_sub_def od_entry_def)
  have "r = sendSDO SDO_CLIENT 0 (download_request 0x20F0 2 2 (data (tr ?line 0)) False) ?line"
    using f1 f2 fr
    by (simp add: r_def writeNetworkDict_def do_writeNetworkDict_def master_client Let_def split_beta word_le_nat_alt sendSDO_def canSend_def
        TestMaster_firstIndex_def TestMaster_lastIndex_def)
  then show "fst r = 0" "cob_id (last (sent (snd r))) = 0x602"
    using fr cob by (simp_all add: sendSDO_def canSend_def TestMaster_firstIndex_def TestMaster_lastIndex_def)
qed

theorem remote_write_completes_witness:
  "let A1 = snd (writeNetworkDict 2 0x20F0 2 2 0 [0x34, 0x12] False master_up);
       B1 = snd (proceedSDO (last (sent A1)) slave_2)
   in od_view B1 = (od_view slave_2)((0x20F0, 2) \<mapsto> [0x34, 0x12])
      \<and> fst (getWriteResultNetworkDict 2 (snd (proceedSDO (last (sent B1)) A1))) = SDO_FINISHED"
proof -
  obtain A1 where A1: "writeNetworkDict 2 0x20F0 2 2 0 [0x34, 0x12] False master_up = (0, A1)"
    using master_writes(1) by (metis prod.collapse)
  have n: "0 < (2 :: UNS32)" "(2 :: UNS32) \<le> 4" "unat (2 :: UNS32) \<le> length [0x34, 0x12 :: UNS8]" by (simp_all add: word_le_nat_alt)
  have serves: "serves (cob_id (last (sent A1))) 0 slave_2" using master_writes(2) A1 slave_2_serves by simp
  define B1 where "B1 = snd (proceedSDO (last (sent A1)) slave_2)"
  obtain la cob where a: "sdo_frame master_up A1" "sent A1 = sent master_up @ [expedited_download cob 0x20F0 2 2 (data (tr A1 la))]"
    "take (unat (2 :: UNS32)) (data (tr A1 la)) = take (unat (2 :: UNS32)) [0x34, 0x12]" "length (data (tr A1 la)) = 32"
    by (rule download_started [OF master_up_ok A1 [unfolded writeNetworkDict_def] n]) (rule that)
  have l: "last (sent A1) = expedited_download cob 0x20F0 2 2 (data (tr A1 la))" "cob_id (last (sent A1)) = cob"
    using a(2) by (simp_all add: expedited_download_def sdo_msg_def)
  have "od_view B1 = (od_view slave_2)((0x20F0, 2) \<mapsto> take (unat (2 :: UNS32)) (data (tr A1 la)))"
    unfolding B1_def l(1)
    by (rule expedited_accepted(2) [OF slave_2_ok(1,2) serves [unfolded l(2)] slave_2_ok(3,4) n(1,2) _ slave_2_ok(5,6)])
      (use a(4) slave_2_ok(7) in \<open>simp_all add: sub_def\<close>)
  moreover have "cfg B1 = cfg slave_2" unfolding B1_def by (rule config.proceedSDO_kept) simp
  ultimately have "server_cob 0 B1 = 0x582" by (rule slave_2_keeps_cob)
  moreover have "sdo_role_of 0x582 A1 = SDO_for_client 0 2"
    using master_client(2) role_cong(1) [of A1 master_up "0x582"] a(1) by (simp add: sdo_frame_def)
  ultimately have ret: "sdo_role_of (server_cob 0 B1) A1 = SDO_for_client (GetSDOClientFromNodeId 2 master_up) 2"
    by (simp add: master_client)
  have "ssize (sub RW 0x06 2 312) = 2" by (simp add: sub_def)
  from remote_write_completes [OF master_up_ok A1 n slave_2_ok(1,2) serves slave_2_ok(3,4,5,6) this slave_2_ok(7) ret [unfolded B1_def]]
  show ?thesis using A1 by simp
qed

section \<open>Concise configuration\<close>

lemma master_dcf: "scanIndexOD master_up 0x1F22 = Some (18, False)" "pObject (od_sub master_up 18 2) = 256" "ssize (od_sub master_up 18 2) = 13"
  "bSubCount (od_entry master_up 18) = 3" "length (pSubindex (od_entry master_up 18)) = 3" "dcf_table 18 2 master_up = 312"
proof -
  have e: "od_entry master_up 18 = od_row TestMaster_Index1F22 0x1F22" by (simp add: od_entry_def TestMaster_objdict_def)
  show "scanIndexOD master_up 0x1F22 = Some (18, False)" by (simp add: scanIndexOD_def TestMaster_scanIndexOD_def)
  show a: "pObject (od_sub master_up 18 2) = 256" and "ssize (od_sub master_up 18 2) = 13" "bSubCount (od_entry master_up 18) = 3"
    "length (pSubindex (od_entry master_up 18)) = 3"
    by (simp_all add: od_sub_def e od_row_def TestMaster_Index1F22_def sub_def)
  have "rd32 (mem master_up) 256 = 312" by (simp add: rd32_def TestMaster_image_def image_eval)
  then show "dcf_table 18 2 master_up = 312" using a by (simp add: dcf_table_def)
qed

theorem dcf_walk_decodes_witness:
  "fst (init_consise_dcf 2 master_up) = 1 \<and> dcf_walk 2 2 (snd (init_consise_dcf 2 master_up)) = [(0x1017, 0, [0xE8, 0x03])]"
proof -
  let ?es = "[(0x1017, 0, [0xE8, 0x03])] :: (UNS16 \<times> UNS8 \<times> UNS8 list) list"
  have bytes: "dcf_bytes ?es = [1, 0, 0, 0, 0x17, 0x10, 0, 2, 0, 0, 0, 0xE8, 3]"
    by (simp add: dcf_bytes_def bytes32_def bytes16_def)
  have "dcf_at 18 2 312 (312 + length (dcf_bytes ?es)) master_up"
    unfolding bytes by (simp add: dcf_at_def master_dcf word_le_nat_alt)
  moreover have "rd_bytes (mem master_up) 312 (length (dcf_bytes ?es)) = dcf_bytes ?es"
    unfolding bytes by (simp add: rd_bytes_def upt_rec) (simp add: TestMaster_image_def image_eval)
  moreover have "length ?es < 2 ^ 32" "\<forall>(ix, sx, bs) \<in> set ?es. bs \<noteq> [] \<and> length bs < 2 ^ 32" and n: "Suc (length ?es) = 2"
    by simp_all
  ultimately show ?thesis using dcf_walk_decodes [OF master_dcf(1)] unfolding n [symmetric] by blast
qed

lemma client_transfer_client: "GetSDOClientFromNodeId 2 (client_transfer st) = 0"
proof -
  have "GetSDOClientFromNodeId 2 (client_transfer st) = GetSDOClientFromNodeId 2 master_up"
    by (rule GetSDOClientFromNodeId_cong) (simp_all add: client_transfer_def)
  then show ?thesis by (simp add: master_client)
qed

theorem aborted_dcf_blocks_slave_witness:
  "NMTable (CheckSDOAndContinue 2 (client_transfer SDO_ABORTED_RCV)) = (NMTable (client_transfer SDO_ABORTED_RCV))[2 := Unknown_state]"
proof -
  let ?d = "client_transfer SDO_ABORTED_RCV"
  have "GetSDOClientFromNodeId 2 ?d < 0xFE" by (simp add: client_transfer_client)
  moreover have "getSDOlineOnUse (GetSDOClientFromNodeId 2 ?d) SDO_CLIENT ?d = Some 0"
    unfolding client_transfer_client by (simp add: client_transfer_def getSDOlineOnUse_def s_transfer_Initializer_def)
  moreover have "state (tr ?d 0) = SDO_ABORTED_RCV" "dcf_status ?d \<in> {DCF_STATUS_READ_CHECK, DCF_STATUS_WRITE}"
    by (simp_all add: client_transfer_def tr_def)
  ultimately show ?thesis using aborted_dcf_blocks_slave [of 2 ?d 0] by auto
qed

text \<open>The master after it has read back the only object of the configuration of node 2, with the expected value.\<close>

definition read_back :: CO_Data where
  "read_back = master_up\<lparr>transfers := [s_transfer_Initializer\<lparr>state := SDO_FINISHED, whoami := SDO_CLIENT, index := 0x1017, count := 2,
       data := [0xE8, 0x03] @ replicate 30 0\<rparr>],
     dcf_status := DCF_STATUS_READ_CHECK, dcf_odentry := Some 18, dcf_cursor := 325, dcf_entries_count := 1, dcf_size := 2, dcf_data := 323\<rparr>"

lemma alarm_dcf:
  "dcf_size (snd (DelAlarm h e)) = dcf_size e" "dcf_data (snd (DelAlarm h e)) = dcf_data e"
  "dcf_odentry (snd (DelAlarm h e)) = dcf_odentry e" "dcf_cursor (snd (DelAlarm h e)) = dcf_cursor e"
  "dcf_entries_count (snd (DelAlarm h e)) = dcf_entries_count e"
  by (simp_all add: DelAlarm_def Let_def chk_def)

lemma resetSDOline_dcf:
  "dcf_status (resetSDOline l e) = dcf_status e" "dcf_size (resetSDOline l e) = dcf_size e" "dcf_data (resetSDOline l e) = dcf_data e"
  "dcf_odentry (resetSDOline l e) = dcf_odentry e" "dcf_cursor (resetSDOline l e) = dcf_cursor e"
  "dcf_entries_count (resetSDOline l e) = dcf_entries_count e"
  by (simp_all add: resetSDOline_def initSDOline_def Let_def upd_line_def chk_def StartSDO_TIMER_def StopSDO_TIMER_def alarm_dcf split_beta)

theorem correct_slave_ends_search_witness:
  "\<exists>d1 d2. getReadResultNetworkDict 2 4 read_back = (\<lparr>rr_status = SDO_FINISHED, rr_data = [0xE8, 0x03], rr_size = 2, rr_abort = 0\<rparr>, d1)
     \<and> get_next_DCF_data 2 d1 = (None, d2) \<and> CheckSDOAndContinue 2 read_back = snd (setState Operational (start_node 2 d2))"
proof -
  let ?r = "\<lparr>rr_status = SDO_FINISHED, rr_data = [0xE8, 0x03], rr_size = 2, rr_abort = 0\<rparr>" and ?d1 = "resetSDOline 0 read_back"
  have "GetSDOClientFromNodeId 2 read_back = GetSDOClientFromNodeId 2 master_up"
    by (rule GetSDOClientFromNodeId_cong) (simp_all add: read_back_def)
  then have c: "GetSDOClientFromNodeId 2 read_back = 0" by (simp add: master_client)
  have l: "getSDOlineOnUse 0 SDO_CLIENT read_back = Some 0" by (simp add: read_back_def getSDOlineOnUse_def s_transfer_Initializer_def)
  have t: "state (tr read_back 0) = SDO_FINISHED" "count (tr read_back 0) = 2" "take 2 (data (tr read_back 0)) = [0xE8, 0x03]"
    by (simp_all add: read_back_def tr_def)
  have r: "getReadResultNetworkDict 2 4 read_back = (?r, ?d1)"
    using t by (simp add: getReadResultNetworkDict_def c l Let_def word_le_nat_alt word_less_nat_alt)
  have "sdo_frame read_back ?d1" by (rule sdo_frame_line)
  then have same: "cfg ?d1 = cfg master_up" "mem ?d1 = mem master_up" by (simp_all add: sdo_frame_def read_back_def)
  have dcf: "dcf_size ?d1 = 2" "dcf_data ?d1 = 323" "dcf_odentry ?d1 = Some 18" "dcf_cursor ?d1 = 325" "dcf_status read_back = DCF_STATUS_READ_CHECK"
    by (simp_all add: resetSDOline_dcf read_back_def)
  have "rr_data ?r = rd_bytes (mem ?d1) (dcf_data ?d1) (unat (rr_size ?r))"
    unfolding same dcf by (simp add: rd_bytes_def upt_rec) (simp add: TestMaster_image_def image_eval)
  moreover have "dcf_table 18 2 ?d1 = 312" "od_entry ?d1 18 = od_entry master_up 18" "od_sub ?d1 18 2 = od_sub master_up 18 2"
    using master_dcf(6) same by (simp_all add: dcf_table_def od_sub_def od_entry_def)
  then have next': "get_next_DCF_data 2 ?d1 = (None, ?d1)"
    using dcf by (simp add: get_next_DCF_data_def Let_def master_dcf word_less_nat_alt)
  ultimately show ?thesis
    using correct_slave_ends_search [OF dcf(5) r _ _ _ next'] r dcf(1) by simp
qed

end
