(* ===== verification/LcdEvent.thy ===== *)
theory LcdEvent
  imports Prelude
begin

text \<open>
  The event scheduler of the display, \<^verbatim>\<open>TFTLCD/src/tftlcd_event.c\<close>: a queue of events that run once and a
  queue of events that run with a period, both arrays of pointers to objects of the caller. The objects are a map
  from addresses, so that an object in two slots is one object. The functions that the
  events call belong to the application; they are a parameter of the model, a function on the state of the scheduler
  for each of the three kinds of call, and \<open>inert\<close> names the handlers that leave the scheduler alone.

  Shown here: when a periodic event runs, that a one-time event runs once, which slots registration uses, and what the
  priority functions do to the queue.
\<close>

section \<open>Data\<close>

text \<open>In \<^verbatim>\<open>tftlcd_event.h\<close> \<open>UINT16\<close> is \<open>unsigned int\<close>, 32 bits wide on the target.\<close>

abbreviation (input) CYCLE_EVENT_QUEUE_NUM :: nat where "CYCLE_EVENT_QUEUE_NUM \<equiv> 4"
abbreviation (input) ONCE_EVENT_QUEUE_NUM :: nat where "ONCE_EVENT_QUEUE_NUM \<equiv> 5"
abbreviation (input) EVENT_CYCLE_CNT_VALUE :: UNS32 where "EVENT_CYCLE_CNT_VALUE \<equiv> 0xFFFF"
abbreviation (input) EVENT_STATE_INACTIVE :: UNS8 where "EVENT_STATE_INACTIVE \<equiv> 0"
abbreviation (input) EVENT_STATE_ACTIVE :: UNS8 where "EVENT_STATE_ACTIVE \<equiv> 1"
abbreviation (input) EVENT_STATE_LOGOUT :: UNS8 where "EVENT_STATE_LOGOUT \<equiv> 2"

type_synonym event_id = nat
type_synonym handler = nat

record CycleEventType =
  ce_EventNumber :: UNS8
  ce_EventStatus :: UNS8
  ce_EventInitCtn :: UNS32
  ce_EventPeriodCnt :: UNS32
  ce_OnFunc :: handler

record OnceEventType =
  oe_EventNumber :: UNS8
  oe_EventStatus :: UNS8
  oe_OnFunc :: handler
  oe_OnCbFunc :: handler

datatype lcd_call = CycleCall event_id | OnceCall event_id | OnceDone event_id

record lcd_events =
  CycleEventQueue :: "event_id option list"
  OnceEventQueue :: "event_id option list"
  cycle_obj :: "event_id \<Rightarrow> CycleEventType"
  once_obj :: "event_id \<Rightarrow> OnceEventType"
  EventCycleCnt :: UNS32
  calls :: "lcd_call list"
  lcd_fault :: bool

record lcd_handlers =
  on_cycle :: "handler \<Rightarrow> event_id \<Rightarrow> lcd_events \<Rightarrow> lcd_events"
  on_once :: "handler \<Rightarrow> event_id \<Rightarrow> lcd_events \<Rightarrow> lcd_events"
  on_done :: "handler \<Rightarrow> lcd_events \<Rightarrow> lcd_events"

definition lcd_chk :: "bool \<Rightarrow> lcd_events \<Rightarrow> lcd_events" where
  "lcd_chk b s = (if b then s else s\<lparr>lcd_fault := True\<rparr>)"

definition set_cycle :: "event_id \<Rightarrow> (CycleEventType \<Rightarrow> CycleEventType) \<Rightarrow> lcd_events \<Rightarrow> lcd_events" where
  "set_cycle ev f s = s\<lparr>cycle_obj := (cycle_obj s)(ev := f (cycle_obj s ev))\<rparr>"

definition set_once :: "event_id \<Rightarrow> (OnceEventType \<Rightarrow> OnceEventType) \<Rightarrow> lcd_events \<Rightarrow> lcd_events" where
  "set_once ev f s = s\<lparr>once_obj := (once_obj s)(ev := f (once_obj s ev))\<rparr>"

section \<open>Processing\<close>

definition CycleBaseOnFunc :: "lcd_handlers \<Rightarrow> UNS32 \<Rightarrow> event_id \<Rightarrow> lcd_events \<Rightarrow> lcd_events" where
  "CycleBaseOnFunc hs EventCnt ev s =
     (let s1 = (if ce_EventInitCtn (cycle_obj s ev) = 0 then set_cycle ev (\<lambda>e. e\<lparr>ce_EventInitCtn := EventCnt\<rparr>) s else s);
          e = cycle_obj s1 ev;
          s2 = lcd_chk (ce_EventPeriodCnt e \<noteq> 0) s1
      in if ((EVENT_CYCLE_CNT_VALUE + EventCnt - ce_EventInitCtn e) mod EVENT_CYCLE_CNT_VALUE) mod ce_EventPeriodCnt e = 0
         then on_cycle hs (ce_OnFunc e) ev (s2\<lparr>calls := calls s2 @ [CycleCall ev]\<rparr>) else s2)"

definition process_once :: "lcd_handlers \<Rightarrow> nat \<Rightarrow> lcd_events \<Rightarrow> lcd_events" where
  "process_once hs i s =
     (case OnceEventQueue s ! i of
        None \<Rightarrow> s
      | Some ev \<Rightarrow>
          if oe_EventStatus (once_obj s ev) = EVENT_STATE_ACTIVE
          then let s1 = on_once hs (oe_OnFunc (once_obj s ev)) ev (s\<lparr>calls := calls s @ [OnceCall ev]\<rparr>);
                   s2 = set_once ev (\<lambda>e. e\<lparr>oe_EventStatus := EVENT_STATE_INACTIVE\<rparr>) s1
               in on_done hs (oe_OnCbFunc (once_obj s2 ev)) (s2\<lparr>calls := calls s2 @ [OnceDone ev]\<rparr>)
          else s)"

definition process_cycle :: "lcd_handlers \<Rightarrow> nat \<Rightarrow> lcd_events \<Rightarrow> lcd_events" where
  "process_cycle hs i s =
     (case CycleEventQueue s ! i of
        None \<Rightarrow> s
      | Some ev \<Rightarrow>
          if ce_EventStatus (cycle_obj s ev) = EVENT_STATE_ACTIVE then CycleBaseOnFunc hs (EventCycleCnt s) ev s else s)"

definition TFTLCD_EventProcess :: "lcd_handlers \<Rightarrow> lcd_events \<Rightarrow> lcd_events" where
  "TFTLCD_EventProcess hs s =
     (let s1 = fold (process_once hs) [0..<ONCE_EVENT_QUEUE_NUM] s;
          s2 = fold (process_cycle hs) [0..<CYCLE_EVENT_QUEUE_NUM] s1
      in s2\<lparr>EventCycleCnt := EventCycleCnt s2 mod EVENT_CYCLE_CNT_VALUE + 1\<rparr>)"

section \<open>Registration and priorities\<close>

text \<open>The search runs from the last slot down and returns the number of the slot, counted from 1.\<close>

fun eq_number :: "(nat \<Rightarrow> bool) \<Rightarrow> nat \<Rightarrow> UNS8" where
  "eq_number avail 0 = 0"
| "eq_number avail (Suc i) = (if avail i then of_nat (Suc i) else eq_number avail i)"

definition GetCycleEQNumber :: "lcd_events \<Rightarrow> UNS8" where
  "GetCycleEQNumber s = eq_number (\<lambda>i. case CycleEventQueue s ! i of
      None \<Rightarrow> True | Some ev \<Rightarrow> ce_EventNumber (cycle_obj s ev) = EVENT_STATE_LOGOUT) CYCLE_EVENT_QUEUE_NUM"

definition GetOnceEQNumber :: "lcd_events \<Rightarrow> UNS8" where
  "GetOnceEQNumber s = eq_number (\<lambda>i. case OnceEventQueue s ! i of
      None \<Rightarrow> True | Some ev \<Rightarrow> oe_EventNumber (once_obj s ev) = EVENT_STATE_LOGOUT) ONCE_EVENT_QUEUE_NUM"

definition TFTLCD_CycleEventRegister :: "handler \<Rightarrow> UNS32 \<Rightarrow> event_id \<Rightarrow> lcd_events \<Rightarrow> bool \<times> lcd_events" where
  "TFTLCD_CycleEventRegister OnFunc PeriodCnt ev s =
     (let EventNumber = GetCycleEQNumber s
      in if EventNumber = 0 then (False, s)
         else let s1 = s\<lparr>cycle_obj := (cycle_obj s)(ev :=
                    \<lparr>ce_EventNumber = EventNumber, ce_EventStatus = EVENT_STATE_INACTIVE, ce_EventInitCtn = 0,
                     ce_EventPeriodCnt = PeriodCnt, ce_OnFunc = OnFunc\<rparr>)\<rparr>
              in (True, s1\<lparr>CycleEventQueue := (CycleEventQueue s1)[unat EventNumber - 1 := Some ev]\<rparr>))"

definition TFTLCD_OnceEventRegister :: "handler \<Rightarrow> handler \<Rightarrow> event_id \<Rightarrow> lcd_events \<Rightarrow> bool \<times> lcd_events" where
  "TFTLCD_OnceEventRegister OnFunc OnCbFunc ev s =
     (let EventNumber = GetOnceEQNumber s
      in if EventNumber = 0 then (False, s)
         else let s1 = s\<lparr>once_obj := (once_obj s)(ev :=
                    \<lparr>oe_EventNumber = EventNumber, oe_EventStatus = EVENT_STATE_INACTIVE, oe_OnFunc = OnFunc, oe_OnCbFunc = OnCbFunc\<rparr>)\<rparr>
              in (True, s1\<lparr>OnceEventQueue := (OnceEventQueue s1)[unat EventNumber - 1 := Some ev]\<rparr>))"

text \<open>The comparison with the number of slots is made in \<open>int\<close>; a slot index outside the array raises the fault.\<close>

definition TFTLCD_SetOnceEventPriority :: "UNS8 \<Rightarrow> event_id \<Rightarrow> lcd_events \<Rightarrow> lcd_events" where
  "TFTLCD_SetOnceEventPriority GradeNumber ev s =
     (if unat GradeNumber < 1 \<or> unat GradeNumber > ONCE_EVENT_QUEUE_NUM + 1 then s
      else let g = unat GradeNumber; n = unat (oe_EventNumber (once_obj s ev));
               pOnceEvent = OnceEventQueue s ! g;
               s1 = lcd_chk (g < ONCE_EVENT_QUEUE_NUM \<and> n < ONCE_EVENT_QUEUE_NUM) s;
               s2 = s1\<lparr>OnceEventQueue := (OnceEventQueue s1)[g := Some ev, n := pOnceEvent]\<rparr>
           in set_once ev (\<lambda>e. e\<lparr>oe_EventNumber := GradeNumber\<rparr>) s2)"

definition TFTLCD_SetCycleEventPriority :: "UNS8 \<Rightarrow> event_id \<Rightarrow> lcd_events \<Rightarrow> lcd_events" where
  "TFTLCD_SetCycleEventPriority GradeNumber ev s =
     (if unat GradeNumber < 1 \<or> unat GradeNumber > CYCLE_EVENT_QUEUE_NUM + 1 then s
      else let g = unat GradeNumber; n = unat (ce_EventNumber (cycle_obj s ev));
               pCycleEvent = CycleEventQueue s ! g;
               s1 = lcd_chk (g < CYCLE_EVENT_QUEUE_NUM \<and> n < CYCLE_EVENT_QUEUE_NUM) s;
               s2 = s1\<lparr>CycleEventQueue := (CycleEventQueue s1)[g := Some ev, n := pCycleEvent]\<rparr>
           in set_cycle ev (\<lambda>e. e\<lparr>ce_EventNumber := GradeNumber\<rparr>) s2)"

text \<open>The two handlers that the file defines; what they print is not part of the state.\<close>

definition PrintCycleCnt :: "event_id \<Rightarrow> lcd_events \<Rightarrow> lcd_events" where
  "PrintCycleCnt ev s = set_cycle ev (\<lambda>e. e\<lparr>ce_EventStatus := EVENT_STATE_INACTIVE\<rparr>) s"

definition PrintCycleCnt1 :: "event_id \<Rightarrow> lcd_events \<Rightarrow> lcd_events" where
  "PrintCycleCnt1 ev s = set_cycle ev (\<lambda>e. e\<lparr>ce_EventStatus := EVENT_STATE_INACTIVE\<rparr>) s"

section \<open>Handlers\<close>

lemma upt_split_at: "i < n \<Longrightarrow> [0..<n] = [0..<i] @ i # [Suc i..<n]"
  using upt_add_eq_append [of 0 i "n - i"] by (simp add: upt_conv_Cons)

text \<open>What the scheduler relies on: the handler of an event changes no object but its own, and no queue.\<close>

locale event_handlers =
  fixes hs :: lcd_handlers
  assumes own_cycle: "\<exists>f. on_cycle hs h ev s = set_cycle ev f s"
    and own_once: "\<exists>f. on_once hs h ev s = set_once ev f s"
    and own_done: "on_done hs h s = s"
begin

lemma CycleBase_frame:
  "CycleEventQueue (CycleBaseOnFunc hs c ev s) = CycleEventQueue s" "OnceEventQueue (CycleBaseOnFunc hs c ev s) = OnceEventQueue s"
  "once_obj (CycleBaseOnFunc hs c ev s) = once_obj s" "EventCycleCnt (CycleBaseOnFunc hs c ev s) = EventCycleCnt s"
  "count_list (calls (CycleBaseOnFunc hs c ev s)) (OnceCall w) = count_list (calls s) (OnceCall w)"
  "w \<noteq> ev \<Longrightarrow> cycle_obj (CycleBaseOnFunc hs c ev s) w = cycle_obj s w"
  "w \<noteq> ev \<Longrightarrow> count_list (calls (CycleBaseOnFunc hs c ev s)) (CycleCall w) = count_list (calls s) (CycleCall w)"
proof -
  obtain F where F: "\<And>h e t. on_cycle hs h e t = set_cycle e (F h e t) t" using own_cycle by metis
  show "CycleEventQueue (CycleBaseOnFunc hs c ev s) = CycleEventQueue s" "OnceEventQueue (CycleBaseOnFunc hs c ev s) = OnceEventQueue s"
    "once_obj (CycleBaseOnFunc hs c ev s) = once_obj s" "EventCycleCnt (CycleBaseOnFunc hs c ev s) = EventCycleCnt s"
    "count_list (calls (CycleBaseOnFunc hs c ev s)) (OnceCall w) = count_list (calls s) (OnceCall w)"
    "w \<noteq> ev \<Longrightarrow> cycle_obj (CycleBaseOnFunc hs c ev s) w = cycle_obj s w"
    "w \<noteq> ev \<Longrightarrow> count_list (calls (CycleBaseOnFunc hs c ev s)) (CycleCall w) = count_list (calls s) (CycleCall w)"
    by (simp_all add: CycleBaseOnFunc_def Let_def F set_cycle_def lcd_chk_def)
qed

lemma process_once_frame:
  "CycleEventQueue (process_once hs i s) = CycleEventQueue s" "OnceEventQueue (process_once hs i s) = OnceEventQueue s"
  "cycle_obj (process_once hs i s) = cycle_obj s" "EventCycleCnt (process_once hs i s) = EventCycleCnt s"
  "count_list (calls (process_once hs i s)) (CycleCall w) = count_list (calls s) (CycleCall w)"
  "OnceEventQueue s ! i \<noteq> Some w \<Longrightarrow> once_obj (process_once hs i s) w = once_obj s w"
  "OnceEventQueue s ! i \<noteq> Some w \<Longrightarrow> count_list (calls (process_once hs i s)) (OnceCall w) = count_list (calls s) (OnceCall w)"
  "oe_EventStatus (once_obj s w) \<noteq> EVENT_STATE_ACTIVE \<Longrightarrow>
     oe_EventStatus (once_obj (process_once hs i s) w) \<noteq> EVENT_STATE_ACTIVE
     \<and> count_list (calls (process_once hs i s)) (OnceCall w) = count_list (calls s) (OnceCall w)"
proof -
  obtain F where F: "\<And>h e t. on_once hs h e t = set_once e (F h e t) t" using own_once by metis
  show "CycleEventQueue (process_once hs i s) = CycleEventQueue s" "OnceEventQueue (process_once hs i s) = OnceEventQueue s"
    "cycle_obj (process_once hs i s) = cycle_obj s" "EventCycleCnt (process_once hs i s) = EventCycleCnt s"
    "count_list (calls (process_once hs i s)) (CycleCall w) = count_list (calls s) (CycleCall w)"
    "OnceEventQueue s ! i \<noteq> Some w \<Longrightarrow> once_obj (process_once hs i s) w = once_obj s w"
    "OnceEventQueue s ! i \<noteq> Some w \<Longrightarrow> count_list (calls (process_once hs i s)) (OnceCall w) = count_list (calls s) (OnceCall w)"
    "oe_EventStatus (once_obj s w) \<noteq> EVENT_STATE_ACTIVE \<Longrightarrow>
       oe_EventStatus (once_obj (process_once hs i s) w) \<noteq> EVENT_STATE_ACTIVE
       \<and> count_list (calls (process_once hs i s)) (OnceCall w) = count_list (calls s) (OnceCall w)"
    by (auto simp: process_once_def F own_done set_once_def Let_def split: option.split)
qed

lemma process_cycle_frame:
  "CycleEventQueue (process_cycle hs i s) = CycleEventQueue s" "OnceEventQueue (process_cycle hs i s) = OnceEventQueue s"
  "once_obj (process_cycle hs i s) = once_obj s" "EventCycleCnt (process_cycle hs i s) = EventCycleCnt s"
  "count_list (calls (process_cycle hs i s)) (OnceCall w) = count_list (calls s) (OnceCall w)"
  "CycleEventQueue s ! i \<noteq> Some w \<Longrightarrow> cycle_obj (process_cycle hs i s) w = cycle_obj s w"
  "CycleEventQueue s ! i \<noteq> Some w \<Longrightarrow> count_list (calls (process_cycle hs i s)) (CycleCall w) = count_list (calls s) (CycleCall w)"
  by (auto simp: process_cycle_def CycleBase_frame split: option.split)

lemma fold_once_frame:
  "CycleEventQueue (fold (process_once hs) ns s) = CycleEventQueue s" "OnceEventQueue (fold (process_once hs) ns s) = OnceEventQueue s"
  "cycle_obj (fold (process_once hs) ns s) = cycle_obj s" "EventCycleCnt (fold (process_once hs) ns s) = EventCycleCnt s"
  "count_list (calls (fold (process_once hs) ns s)) (CycleCall w) = count_list (calls s) (CycleCall w)"
  "\<forall>i \<in> set ns. OnceEventQueue s ! i \<noteq> Some w \<Longrightarrow> once_obj (fold (process_once hs) ns s) w = once_obj s w
     \<and> count_list (calls (fold (process_once hs) ns s)) (OnceCall w) = count_list (calls s) (OnceCall w)"
  "oe_EventStatus (once_obj s w) \<noteq> EVENT_STATE_ACTIVE \<Longrightarrow>
     oe_EventStatus (once_obj (fold (process_once hs) ns s) w) \<noteq> EVENT_STATE_ACTIVE
     \<and> count_list (calls (fold (process_once hs) ns s)) (OnceCall w) = count_list (calls s) (OnceCall w)"
  by (induction ns arbitrary: s) (simp_all add: process_once_frame)

lemma fold_cycle_frame:
  "CycleEventQueue (fold (process_cycle hs) ns s) = CycleEventQueue s" "OnceEventQueue (fold (process_cycle hs) ns s) = OnceEventQueue s"
  "once_obj (fold (process_cycle hs) ns s) = once_obj s" "EventCycleCnt (fold (process_cycle hs) ns s) = EventCycleCnt s"
  "count_list (calls (fold (process_cycle hs) ns s)) (OnceCall w) = count_list (calls s) (OnceCall w)"
  "\<forall>i \<in> set ns. CycleEventQueue s ! i \<noteq> Some w \<Longrightarrow> cycle_obj (fold (process_cycle hs) ns s) w = cycle_obj s w
     \<and> count_list (calls (fold (process_cycle hs) ns s)) (CycleCall w) = count_list (calls s) (CycleCall w)"
  by (induction ns arbitrary: s) (simp_all add: process_cycle_frame)

lemma cycle_pass:
  assumes i: "i < CYCLE_EVENT_QUEUE_NUM" and others: "\<forall>j < CYCLE_EVENT_QUEUE_NUM. j \<noteq> i \<longrightarrow> CycleEventQueue s ! j \<noteq> Some w"
  obtains t where "CycleEventQueue t = CycleEventQueue s" "EventCycleCnt t = EventCycleCnt s" "cycle_obj t w = cycle_obj s w"
    "count_list (calls t) (CycleCall w) = count_list (calls s) (CycleCall w)"
    "cycle_obj (fold (process_cycle hs) [0..<CYCLE_EVENT_QUEUE_NUM] s) w = cycle_obj (process_cycle hs i t) w"
    "count_list (calls (fold (process_cycle hs) [0..<CYCLE_EVENT_QUEUE_NUM] s)) (CycleCall w) = count_list (calls (process_cycle hs i t)) (CycleCall w)"
proof -
  have split: "[0..<4] = [0..<i] @ i # [Suc i..<4]" using i by (rule upt_split_at)
  let ?t = "fold (process_cycle hs) [0..<i] s"
  note before = fold_cycle_frame [where s = s and ns = "[0..<i]"]
  have b: "\<forall>j \<in> set [0..<i]. CycleEventQueue s ! j \<noteq> Some w" using others i by simp
  have a: "\<forall>j \<in> set [Suc i..<4]. CycleEventQueue (process_cycle hs i ?t) ! j \<noteq> Some w"
    using others by (simp add: process_cycle_frame before)
  show thesis
  proof (rule that [of ?t])
    show "cycle_obj (fold (process_cycle hs) [0..<4] s) w = cycle_obj (process_cycle hs i ?t) w"
      "count_list (calls (fold (process_cycle hs) [0..<4] s)) (CycleCall w) = count_list (calls (process_cycle hs i ?t)) (CycleCall w)"
      unfolding split using fold_cycle_frame(6) [OF a] by simp_all
  qed (use before(6) [OF b] before in simp_all)
qed

lemma once_pass:
  assumes i: "i < ONCE_EVENT_QUEUE_NUM" and w: "OnceEventQueue s ! i = Some w"
    and others: "\<forall>j < ONCE_EVENT_QUEUE_NUM. j \<noteq> i \<longrightarrow> OnceEventQueue s ! j \<noteq> Some w"
    and act: "oe_EventStatus (once_obj s w) = EVENT_STATE_ACTIVE"
  defines "s' \<equiv> fold (process_once hs) [0..<ONCE_EVENT_QUEUE_NUM] s"
  shows "oe_EventStatus (once_obj s' w) = EVENT_STATE_INACTIVE" "count_list (calls s') (OnceCall w) = count_list (calls s) (OnceCall w) + 1"
proof -
  have split: "[0..<5] = [0..<i] @ i # [Suc i..<5]" using i by (rule upt_split_at)
  let ?t = "fold (process_once hs) [0..<i] s"
  note before = fold_once_frame [where s = s and ns = "[0..<i]"]
  have b: "\<forall>j \<in> set [0..<i]. OnceEventQueue s ! j \<noteq> Some w" using others i by simp
  have a: "\<forall>j \<in> set [Suc i..<5]. OnceEventQueue (process_once hs i ?t) ! j \<noteq> Some w"
    using others by (simp add: process_once_frame before)
  obtain F where F: "\<And>h e t. on_once hs h e t = set_once e (F h e t) t" using own_once by metis
  have t: "OnceEventQueue ?t ! i = Some w" "oe_EventStatus (once_obj ?t w) = EVENT_STATE_ACTIVE"
    "count_list (calls ?t) (OnceCall w) = count_list (calls s) (OnceCall w)"
    using before(6) [OF b] before(2) w act by simp_all
  then have "oe_EventStatus (once_obj (process_once hs i ?t) w) = EVENT_STATE_INACTIVE"
    "count_list (calls (process_once hs i ?t)) (OnceCall w) = count_list (calls s) (OnceCall w) + 1"
    by (simp_all add: process_once_def F own_done set_once_def Let_def)
  moreover have "once_obj s' w = once_obj (process_once hs i ?t) w" "count_list (calls s') (OnceCall w) = count_list (calls (process_once hs i ?t)) (OnceCall w)"
    unfolding s'_def split using fold_once_frame(6) [OF a] by simp_all
  ultimately show "oe_EventStatus (once_obj s' w) = EVENT_STATE_INACTIVE" "count_list (calls s') (OnceCall w) = count_list (calls s) (OnceCall w) + 1"
    by simp_all
qed

lemma once_runs:
  assumes "i < ONCE_EVENT_QUEUE_NUM" "OnceEventQueue s ! i = Some w" "\<forall>j < ONCE_EVENT_QUEUE_NUM. j \<noteq> i \<longrightarrow> OnceEventQueue s ! j \<noteq> Some w"
    and act: "oe_EventStatus (once_obj s w) = EVENT_STATE_ACTIVE"
  shows "count_list (calls ((TFTLCD_EventProcess hs ^^ Suc n) s)) (OnceCall w) = count_list (calls s) (OnceCall w) + 1
    \<and> oe_EventStatus (once_obj ((TFTLCD_EventProcess hs ^^ Suc n) s) w) \<noteq> EVENT_STATE_ACTIVE"
proof (induction n)
  case 0
  show ?case using once_pass [OF assms] by (simp add: TFTLCD_EventProcess_def Let_def fold_cycle_frame)
next
  case (Suc n)
  then show ?case using fold_once_frame(7) by (simp add: TFTLCD_EventProcess_def Let_def fold_cycle_frame)
qed

lemma cycle_turn:
  assumes i: "i < CYCLE_EVENT_QUEUE_NUM" and w: "CycleEventQueue s ! i = Some w"
    and others: "\<forall>j < CYCLE_EVENT_QUEUE_NUM. j \<noteq> i \<longrightarrow> CycleEventQueue s ! j \<noteq> Some w"
    and act: "ce_EventStatus (cycle_obj s w) = EVENT_STATE_ACTIVE" and keeps: "\<forall>t. on_cycle hs (ce_OnFunc (cycle_obj s w)) w t = t"
  defines "e \<equiv> (if ce_EventInitCtn (cycle_obj s w) = 0 then (cycle_obj s w)\<lparr>ce_EventInitCtn := EventCycleCnt s\<rparr> else cycle_obj s w)"
  shows "cycle_obj (TFTLCD_EventProcess hs s) w = e"
    "count_list (calls (TFTLCD_EventProcess hs s)) (CycleCall w) = count_list (calls s) (CycleCall w)
       + (if ((EVENT_CYCLE_CNT_VALUE + EventCycleCnt s - ce_EventInitCtn e) mod EVENT_CYCLE_CNT_VALUE) mod ce_EventPeriodCnt e = 0 then 1 else 0)"
    "EventCycleCnt (TFTLCD_EventProcess hs s) = EventCycleCnt s mod EVENT_CYCLE_CNT_VALUE + 1"
    "CycleEventQueue (TFTLCD_EventProcess hs s) = CycleEventQueue s"
proof -
  let ?s = "fold (process_once hs) [0..<ONCE_EVENT_QUEUE_NUM] s"
  have s: "CycleEventQueue ?s = CycleEventQueue s" "EventCycleCnt ?s = EventCycleCnt s" "cycle_obj ?s = cycle_obj s"
    "count_list (calls ?s) (CycleCall w) = count_list (calls s) (CycleCall w)"
    by (simp_all only: fold_once_frame)
  have others': "\<forall>j < CYCLE_EVENT_QUEUE_NUM. j \<noteq> i \<longrightarrow> CycleEventQueue ?s ! j \<noteq> Some w" using others s(1) by simp
  obtain t where t: "CycleEventQueue t = CycleEventQueue s" "EventCycleCnt t = EventCycleCnt s" "cycle_obj t w = cycle_obj s w"
    "count_list (calls t) (CycleCall w) = count_list (calls s) (CycleCall w)"
    and r: "cycle_obj (fold (process_cycle hs) [0..<CYCLE_EVENT_QUEUE_NUM] ?s) w = cycle_obj (process_cycle hs i t) w"
    "count_list (calls (fold (process_cycle hs) [0..<CYCLE_EVENT_QUEUE_NUM] ?s)) (CycleCall w) = count_list (calls (process_cycle hs i t)) (CycleCall w)"
    using cycle_pass [OF i others'] s by metis
  have p: "process_cycle hs i t = CycleBaseOnFunc hs (EventCycleCnt s) w t" using t w act by (simp add: process_cycle_def)
  have "cycle_obj (process_cycle hs i t) w = e" "count_list (calls (process_cycle hs i t)) (CycleCall w) = count_list (calls s) (CycleCall w)
       + (if ((EVENT_CYCLE_CNT_VALUE + EventCycleCnt s - ce_EventInitCtn e) mod EVENT_CYCLE_CNT_VALUE) mod ce_EventPeriodCnt e = 0 then 1 else 0)"
    unfolding p using t keeps by (simp_all add: CycleBaseOnFunc_def Let_def e_def set_cycle_def lcd_chk_def)
  with r show "cycle_obj (TFTLCD_EventProcess hs s) w = e"
    "count_list (calls (TFTLCD_EventProcess hs s)) (CycleCall w) = count_list (calls s) (CycleCall w)
       + (if ((EVENT_CYCLE_CNT_VALUE + EventCycleCnt s - ce_EventInitCtn e) mod EVENT_CYCLE_CNT_VALUE) mod ce_EventPeriodCnt e = 0 then 1 else 0)"
    unfolding TFTLCD_EventProcess_def Let_def by simp_all
  show "EventCycleCnt (TFTLCD_EventProcess hs s) = EventCycleCnt s mod EVENT_CYCLE_CNT_VALUE + 1"
    "CycleEventQueue (TFTLCD_EventProcess hs s) = CycleEventQueue s"
    by (simp_all add: TFTLCD_EventProcess_def Let_def fold_cycle_frame s)
qed

end

section \<open>Periodic events\<close>

text \<open>The counter runs through 1 to 65535; the time since the first turn of an event is taken modulo 65535.\<close>

lemma elapsed_turns:
  assumes "1 \<le> c" "c \<le> 0xFFFF"
  shows "unat ((EVENT_CYCLE_CNT_VALUE + of_nat ((c - 1 + k) mod 65535 + 1) - of_nat c) mod EVENT_CYCLE_CNT_VALUE) = k mod 65535"
proof -
  let ?a = "(c - 1 + k) mod 65535 + 1"
  have a: "?a \<le> 65535" "c \<le> 65535" using assms by (simp_all add: Suc_leI)
  have "(EVENT_CYCLE_CNT_VALUE + of_nat ?a - of_nat c :: UNS32) = of_nat (65535 + ?a - c)" using a by (simp add: of_nat_diff)
  moreover have "65535 + ?a - c < 2 ^ 32" using a by simp
  ultimately have "unat ((EVENT_CYCLE_CNT_VALUE + of_nat ?a - of_nat c :: UNS32) mod EVENT_CYCLE_CNT_VALUE) = (65535 + ?a - c) mod 65535"
    by (simp add: unat_mod unsigned_of_nat take_bit_nat_eq_self)
  also have "\<dots> = (65535 - (c - 1) + (c - 1 + k) mod 65535) mod 65535" using assms by (simp add: algebra_simps)
  also have "\<dots> = (65535 - (c - 1) + (c - 1 + k)) mod 65535" by (rule mod_add_right_eq)
  also have "\<dots> = k mod 65535" using assms by (simp add: algebra_simps)
  finally show ?thesis .
qed

lemma next_count:
  assumes "EventCycleCnt s = of_nat ((c - 1 + k) mod 65535 + 1)"
  shows "EventCycleCnt s mod EVENT_CYCLE_CNT_VALUE + 1 = of_nat ((c - 1 + Suc k) mod 65535 + 1)"
proof -
  let ?a = "(c - 1 + k) mod 65535"
  have a: "?a < 65535" by simp
  have "unat (of_nat (?a + 1) mod EVENT_CYCLE_CNT_VALUE) = (?a + 1) mod 65535"
    using a by (simp add: unat_mod unsigned_of_nat take_bit_nat_eq_self del: of_nat_Suc of_nat_add)
  then have "of_nat (?a + 1) mod EVENT_CYCLE_CNT_VALUE = (of_nat ((?a + 1) mod 65535) :: UNS32)" by (metis of_nat_unat ucast_id)
  moreover have "(?a + 1) mod 65535 = (c - 1 + Suc k) mod 65535" by (simp add: mod_Suc_eq)
  ultimately show ?thesis unfolding assms by simp
qed

context event_handlers
begin

lemma cycle_state:
  assumes i: "i < CYCLE_EVENT_QUEUE_NUM" and w: "CycleEventQueue s ! i = Some w"
    and others: "\<forall>j < CYCLE_EVENT_QUEUE_NUM. j \<noteq> i \<longrightarrow> CycleEventQueue s ! j \<noteq> Some w"
    and act: "ce_EventStatus (cycle_obj s w) = EVENT_STATE_ACTIVE" and keeps: "\<forall>t. on_cycle hs (ce_OnFunc (cycle_obj s w)) w t = t"
    and fresh: "ce_EventInitCtn (cycle_obj s w) = 0" and c: "EventCycleCnt s = of_nat c" "1 \<le> c" "c \<le> 0xFFFF"
  shows "CycleEventQueue ((TFTLCD_EventProcess hs ^^ k) s) = CycleEventQueue s
    \<and> EventCycleCnt ((TFTLCD_EventProcess hs ^^ k) s) = of_nat ((c - 1 + k) mod 65535 + 1)
    \<and> cycle_obj ((TFTLCD_EventProcess hs ^^ k) s) w = (if k = 0 then cycle_obj s w else (cycle_obj s w)\<lparr>ce_EventInitCtn := of_nat c\<rparr>)
    \<and> count_list (calls ((TFTLCD_EventProcess hs ^^ k) s)) (CycleCall w)
        = count_list (calls s) (CycleCall w) + card {j. j < k \<and> (j mod 65535) mod unat (ce_EventPeriodCnt (cycle_obj s w)) = 0}"
proof (induction k)
  case 0
  have "c mod 65535 = (if c = 65535 then 0 else c)" using c(3) by simp
  then show ?case using c by (simp add: Suc_diff_le)
next
  case (Suc k)
  let ?t = "(TFTLCD_EventProcess hs ^^ k) s" and ?p = "ce_EventPeriodCnt (cycle_obj s w)"
  let ?e = "(cycle_obj s w)\<lparr>ce_EventInitCtn := of_nat c\<rparr>"
  have c0: "(of_nat c :: UNS32) \<noteq> 0" using c(2,3) by (simp add: word_unat_eq_iff unsigned_of_nat take_bit_nat_eq_self)
  have cnt: "EventCycleCnt ?t = of_nat ((c - 1 + k) mod 65535 + 1)" and q: "CycleEventQueue ?t = CycleEventQueue s"
    and o: "cycle_obj ?t w = (if k = 0 then cycle_obj s w else ?e)"
    using Suc.IH by blast+
  have e: "(if ce_EventInitCtn (cycle_obj ?t w) = 0 then (cycle_obj ?t w)\<lparr>ce_EventInitCtn := EventCycleCnt ?t\<rparr> else cycle_obj ?t w) = ?e"
    using o c0 fresh c(1) by auto
  have "CycleEventQueue ?t ! i = Some w" "\<forall>j < CYCLE_EVENT_QUEUE_NUM. j \<noteq> i \<longrightarrow> CycleEventQueue ?t ! j \<noteq> Some w"
    "ce_EventStatus (cycle_obj ?t w) = EVENT_STATE_ACTIVE" "\<forall>t. on_cycle hs (ce_OnFunc (cycle_obj ?t w)) w t = t"
    using w others act keeps q o by simp_all
  note turn = cycle_turn [OF i this, unfolded e]
  have "unat (((EVENT_CYCLE_CNT_VALUE + EventCycleCnt ?t - of_nat c) mod EVENT_CYCLE_CNT_VALUE) mod ?p) = (k mod 65535) mod unat ?p"
    unfolding cnt by (subst unat_mod) (simp only: elapsed_turns [OF c(2,3)])
  then have due: "((EVENT_CYCLE_CNT_VALUE + EventCycleCnt ?t - of_nat c) mod EVENT_CYCLE_CNT_VALUE) mod ?p = 0 \<longleftrightarrow> (k mod 65535) mod unat ?p = 0"
    by (metis unat_eq_zero)
  have "{j. j < Suc k \<and> P j} = (if P k then insert k {j. j < k \<and> P j} else {j. j < k \<and> P j})" for P :: "nat \<Rightarrow> bool"
    by (auto simp: less_Suc_eq)
  then have "card {j. j < Suc k \<and> (j mod 65535) mod unat ?p = 0} = card {j. j < k \<and> (j mod 65535) mod unat ?p = 0}
      + (if (k mod 65535) mod unat ?p = 0 then 1 else 0)" by simp
  then show ?case using turn Suc.IH due next_count [OF cnt] by simp
qed

end

text \<open>C35: a periodic event runs exactly on the turns that are a multiple of its period. Take an active event with period
  \<open>p > 0\<close> that has just been registered and stands in one slot; handlers change only their own event, and the handler of this one
  nothing. Then in \<open>n\<close> calls of \<open>TFTLCD_EventProcess\<close> it runs once for every turn \<open>k < n\<close> whose number modulo 65535 is a multiple
  of \<open>p\<close>: its period is kept until the counter of the scheduler starts again, whatever else is in the queues.\<close>

theorem cycle_event_runs_with_period:
  assumes "event_handlers hs" "i < CYCLE_EVENT_QUEUE_NUM" "CycleEventQueue s ! i = Some w"
    and "\<forall>j < CYCLE_EVENT_QUEUE_NUM. j \<noteq> i \<longrightarrow> CycleEventQueue s ! j \<noteq> Some w"
    and "ce_EventStatus (cycle_obj s w) = EVENT_STATE_ACTIVE" "\<forall>t. on_cycle hs (ce_OnFunc (cycle_obj s w)) w t = t"
    and "ce_EventInitCtn (cycle_obj s w) = 0" and c: "1 \<le> unat (EventCycleCnt s)" "unat (EventCycleCnt s) \<le> 0xFFFF"
    and p: "unat (ce_EventPeriodCnt (cycle_obj s w)) = p" "0 < p"
  shows "count_list (calls ((TFTLCD_EventProcess hs ^^ n) s)) (CycleCall w)
    = count_list (calls s) (CycleCall w) + card {k. k < n \<and> p dvd k mod 65535}"
proof -
  have "EventCycleCnt s = of_nat (unat (EventCycleCnt s))" by simp
  from event_handlers.cycle_state [OF assms(1-7) this c, of n] show ?thesis unfolding p(1) dvd_eq_mod_eq_0 by blast
qed

text \<open>A one-time event runs once. When it is active and stands in one slot, the next call of \<open>TFTLCD_EventProcess\<close> runs
  its function and deactivates it, and no later call runs it again.\<close>

theorem once_event_runs_once:
  assumes "event_handlers hs" "i < ONCE_EVENT_QUEUE_NUM" "OnceEventQueue s ! i = Some w"
    and "\<forall>j < ONCE_EVENT_QUEUE_NUM. j \<noteq> i \<longrightarrow> OnceEventQueue s ! j \<noteq> Some w"
    and "oe_EventStatus (once_obj s w) = EVENT_STATE_ACTIVE" "0 < n"
  shows "count_list (calls ((TFTLCD_EventProcess hs ^^ n) s)) (OnceCall w) = count_list (calls s) (OnceCall w) + 1"
  using event_handlers.once_runs [OF assms(1-5), of "n - 1"] assms(6) by simp

section \<open>Registration\<close>

text \<open>The queues and the counter as the C initialisers leave them.\<close>

definition lcd_init :: lcd_events where
  "lcd_init = \<lparr>CycleEventQueue = [None, None, None, None], OnceEventQueue = [None, None, None, None, None],
     cycle_obj = (\<lambda>_. \<lparr>ce_EventNumber = 0, ce_EventStatus = 0, ce_EventInitCtn = 0, ce_EventPeriodCnt = 0, ce_OnFunc = 0\<rparr>),
     once_obj = (\<lambda>_. \<lparr>oe_EventNumber = 0, oe_EventStatus = 0, oe_OnFunc = 0, oe_OnCbFunc = 0\<rparr>),
     EventCycleCnt = 1, calls = [], lcd_fault = False\<rparr>"

definition register_once :: "event_id list \<Rightarrow> lcd_events \<Rightarrow> lcd_events" where
  "register_once evs s = fold (\<lambda>ev s. snd (TFTLCD_OnceEventRegister 0 0 ev s)) evs s"

definition once_full :: "event_id \<Rightarrow> event_id \<Rightarrow> event_id \<Rightarrow> event_id \<Rightarrow> lcd_events \<Rightarrow> bool" where
  "once_full a b c e s \<longleftrightarrow> OnceEventQueue s = [None, Some e, Some c, Some b, Some a]
     \<and> oe_EventNumber (once_obj s a) = 5 \<and> oe_EventNumber (once_obj s b) = 4 \<and> oe_EventNumber (once_obj s c) = 3
     \<and> oe_EventNumber (once_obj s e) = 2"

lemma eq_number_unroll:
  "eq_number f 5 = (if f 4 then 5 else if f 3 then 4 else if f 2 then 3 else if f 1 then 2 else if f 0 then 1 else 0)"
  "eq_number f 4 = (if f 3 then 4 else if f 2 then 3 else if f 1 then 2 else if f 0 then 1 else 0)"
  by (simp_all add: numeral_eq_Suc)

lemmas register_eval = TFTLCD_OnceEventRegister_def GetOnceEQNumber_def Let_def eq_number_unroll

lemma once_full_step:
  assumes "once_full a b c e s" "w \<notin> {a, b, c}"
  shows "fst (TFTLCD_OnceEventRegister f g w s)" "once_full a b c w (snd (TFTLCD_OnceEventRegister f g w s))"
  using assms by (simp_all add: once_full_def register_eval)

lemma once_full_first:
  assumes "distinct [a, b, c, e]"
  shows "once_full a b c e (register_once [a, b, c, e] lcd_init)"
  using assms by (simp add: once_full_def register_once_def lcd_init_def register_eval)

lemma once_full_regs:
  "once_full a b c e s \<Longrightarrow> set evs \<inter> {a, b, c} = {} \<Longrightarrow> once_full a b c (last (e # evs)) (register_once evs s)"
proof (induction evs arbitrary: e s)
  case (Cons w evs)
  then have "once_full a b c w (snd (TFTLCD_OnceEventRegister 0 0 w s))" by (intro once_full_step(2) [OF Cons.prems(1)]) auto
  from Cons.IH [OF this] Cons.prems(2) show ?case by (simp add: register_once_def)
qed (simp add: register_once_def)

text \<open>From the fourth registration on, every new one-time event silently replaces the one before it. The search for a free
  slot takes the slot of an event whose number, and not whose status, equals \<open>EVENT_STATE_LOGOUT\<close>; that is the event in the second
  slot. So registration always reports success, the first slot stays empty, and of any number of different events only the
  first three and the last remain in the queue.\<close>

theorem registration_replaces_events:
  assumes "distinct (a # b # c # evs)" "evs \<noteq> []"
  shows "OnceEventQueue (register_once (a # b # c # evs) lcd_init) = [None, Some (last evs), Some c, Some b, Some a]
    \<and> (\<forall>f g w. w \<notin> {a, b, c} \<longrightarrow> fst (TFTLCD_OnceEventRegister f g w (register_once (a # b # c # evs) lcd_init)))"
proof -
  obtain e es where evs: "evs = e # es" using assms(2) by (cases evs) auto
  have "once_full a b c e (register_once [a, b, c, e] lcd_init)" using assms(1) evs by (intro once_full_first) auto
  moreover have "set es \<inter> {a, b, c} = {}" using assms(1) evs by auto
  ultimately have "once_full a b c (last evs) (register_once es (register_once [a, b, c, e] lcd_init))" using once_full_regs evs by fastforce
  then have "once_full a b c (last evs) (register_once (a # b # c # evs) lcd_init)" by (simp add: register_once_def evs)
  then show ?thesis using once_full_step(1) unfolding once_full_def by blast
qed

section \<open>Priorities\<close>

text \<open>Changing the priority of an event leaves a copy of it behind. An event that registration put in slot \<open>n\<close>
  (index \<open>n - 1\<close>) and that is moved to grade \<open>g\<close> is written to index \<open>g\<close>, while its old slot keeps it: it stands in the queue twice, and
  the event that was at index \<open>g\<close> is written over the one at index \<open>n\<close>. The grades 5 and 6 pass the check and
  write outside the array.\<close>

theorem priority_duplicates_event:
  assumes q: "length (OnceEventQueue s) = ONCE_EVENT_QUEUE_NUM" "\<not> lcd_fault s" and n: "oe_EventNumber (once_obj s w) = n" "1 \<le> unat n"
    and w: "OnceEventQueue s ! (unat n - 1) = Some w" and g: "1 \<le> unat g" "unat g \<le> 6" "g \<noteq> n" "unat g \<noteq> unat n - 1"
  defines "s' \<equiv> TFTLCD_SetOnceEventPriority g w s"
  shows "(unat g < 5 \<and> unat n < 5 \<longrightarrow> OnceEventQueue s' ! unat g = Some w \<and> OnceEventQueue s' ! (unat n - 1) = Some w
      \<and> OnceEventQueue s' ! unat n = OnceEventQueue s ! unat g \<and> \<not> lcd_fault s')
    \<and> (5 \<le> unat g \<longrightarrow> lcd_fault s')"
proof -
  have "unat g \<noteq> unat n" using g(3) by (simp add: word_unat_eq_iff)
  then show ?thesis
    using assms(1-8) g(4) by (auto simp: s'_def TFTLCD_SetOnceEventPriority_def Let_def set_once_def lcd_chk_def nth_list_update)
qed

section \<open>The handlers of the file\<close>

text \<open>Addresses 1 and 2 are the two functions of the file, which deactivate their event; every other function leaves the scheduler alone.\<close>

definition print_handlers :: lcd_handlers where
  "print_handlers = \<lparr>on_cycle = (\<lambda>h ev s. if h = 1 then PrintCycleCnt ev s else if h = 2 then PrintCycleCnt1 ev s else s),
     on_once = (\<lambda>_ _ s. s), on_done = (\<lambda>_ s. s)\<rparr>"

interpretation print: event_handlers print_handlers
proof
  show "\<exists>f. on_cycle print_handlers h ev s = set_cycle ev f s" for h ev s
    by (cases "h = 1 \<or> h = 2") (auto simp: print_handlers_def PrintCycleCnt_def PrintCycleCnt1_def set_cycle_def intro: exI [of _ "\<lambda>e. e"])
  show "\<exists>f. on_once print_handlers h ev s = set_once ev f s" for h ev s
    by (rule exI [of _ "\<lambda>e. e"]) (simp add: print_handlers_def set_once_def)
  show "on_done print_handlers h s = s" for h s by (simp add: print_handlers_def)
qed

definition lcd_demo :: lcd_events where
  "lcd_demo = set_cycle 10 (\<lambda>e. e\<lparr>ce_EventStatus := EVENT_STATE_ACTIVE\<rparr>) (set_once 20 (\<lambda>e. e\<lparr>oe_EventStatus := EVENT_STATE_ACTIVE\<rparr>)
     (snd (TFTLCD_CycleEventRegister 3 5 10 (snd (TFTLCD_OnceEventRegister 0 0 20 lcd_init)))))"

lemma lcd_demo_fields:
  "CycleEventQueue lcd_demo = [None, None, None, Some 10]" "OnceEventQueue lcd_demo = [None, None, None, None, Some 20]"
  "cycle_obj lcd_demo 10 = \<lparr>ce_EventNumber = 4, ce_EventStatus = 1, ce_EventInitCtn = 0, ce_EventPeriodCnt = 5, ce_OnFunc = 3\<rparr>"
  "oe_EventStatus (once_obj lcd_demo 20) = 1" "oe_EventNumber (once_obj lcd_demo 20) = 5" "EventCycleCnt lcd_demo = 1" "calls lcd_demo = []"
  by (simp_all add: lcd_demo_def lcd_init_def set_cycle_def set_once_def TFTLCD_CycleEventRegister_def GetCycleEQNumber_def register_eval)

theorem cycle_event_runs_with_period_witness:
  "count_list (calls ((TFTLCD_EventProcess print_handlers ^^ 11) lcd_demo)) (CycleCall 10) = card {k :: nat. k < 11 \<and> 5 dvd k mod 65535}"
proof -
  have "\<forall>j < CYCLE_EVENT_QUEUE_NUM. j \<noteq> 3 \<longrightarrow> CycleEventQueue lcd_demo ! j \<noteq> Some 10"
    by (simp add: lcd_demo_fields eval_nat_numeral All_less_Suc)
  moreover have "\<forall>t. on_cycle print_handlers (ce_OnFunc (cycle_obj lcd_demo 10)) 10 t = t" by (simp add: lcd_demo_fields print_handlers_def)
  ultimately show ?thesis
    using cycle_event_runs_with_period [OF print.event_handlers_axioms, of 3 lcd_demo 10 5 11] by (simp add: lcd_demo_fields)
qed

theorem once_event_runs_once_witness:
  "count_list (calls ((TFTLCD_EventProcess print_handlers ^^ 7) lcd_demo)) (OnceCall 20) = 1"
proof -
  have "\<forall>j < ONCE_EVENT_QUEUE_NUM. j \<noteq> 4 \<longrightarrow> OnceEventQueue lcd_demo ! j \<noteq> Some 20"
    by (simp add: lcd_demo_fields eval_nat_numeral All_less_Suc)
  then show ?thesis
    using once_event_runs_once [OF print.event_handlers_axioms, of 4 lcd_demo 20 7] by (simp add: lcd_demo_fields)
qed

theorem registration_replaces_events_witness:
  "OnceEventQueue (register_once [1, 2, 3, 4, 5, 6] lcd_init) = [None, Some 6, Some 3, Some 2, Some 1]"
proof -
  have "distinct (1 # 2 # 3 # [4, 5, 6 :: nat])" "[4, 5, 6 :: nat] \<noteq> []" by simp_all
  from registration_replaces_events [OF this] show ?thesis by simp
qed

theorem priority_duplicates_event_witness:
  "OnceEventQueue (TFTLCD_SetOnceEventPriority 1 3 (register_once [1, 2, 3] lcd_init)) ! 2 = Some 3
   \<and> OnceEventQueue (TFTLCD_SetOnceEventPriority 1 3 (register_once [1, 2, 3] lcd_init)) ! 1 = Some 3"
proof -
  let ?s = "register_once [1, 2, 3] lcd_init"
  have f: "OnceEventQueue ?s = [None, None, Some 3, Some 2, Some 1]" "oe_EventNumber (once_obj ?s 3) = 3" "\<not> lcd_fault ?s"
    by (simp_all add: register_once_def lcd_init_def register_eval)
  show ?thesis using priority_duplicates_event [of ?s 3 3 1] f by simp
qed

end
