(* ===== verification/LcdDraw.thy ===== *)
theory LcdDraw
  imports Prelude
begin

text \<open>
  Drawing on the display: \<^verbatim>\<open>TFTLCD/src/tftlcd.c\<close>, \<^verbatim>\<open>tftlcd_element.c\<close>, \<^verbatim>\<open>tftlcd_word.c\<close>, with the colours of
  \<^verbatim>\<open>rgb.c\<close> and the start-up sequence of \<^verbatim>\<open>ILI9341.c\<close>. A drawing function is the list of its writes to the two
  registers of the display controller, \<open>TFTLCD.RWCD_REG\<close> and \<open>TFTLCD.RWCD_RAM\<close>. The function pointers of the drawn
  objects are resolved: \<open>CreateLineObject\<close> stores \<open>DrawLine\<close> in every line.

  What the writes mean is the contract of the controller, the locale \<open>display\<close>; \<open>panel\<close> is the controller of the board as its
  data sheet describes it. Shown here: lines, boxes, characters and blocks put exactly the intended pixels on the screen.
\<close>

section \<open>Registers, configuration and colours\<close>

datatype lcd_io = REG UNS16 | RAM UNS16

record TFTLCD_CMD =
  CMD_Read_ID :: UNS8
  CMD_Write_ScanDir :: UNS8
  CMD_Write_XPos :: UNS8
  CMD_Write_YPos :: UNS8
  CMD_Write_ColorCode :: UNS8
  CMD_Read_ColorCode :: UNS8

record TFTLCD_Config =
  TFTLCD_Width :: UNS16
  TFTLCD_Height :: UNS16
  TFTLCD_Id :: UNS16
  TFTLCD_Dir :: UNS8
  TFTLCD_Cmd :: TFTLCD_CMD

definition TFTLCD_commands :: TFTLCD_CMD where
  "TFTLCD_commands = \<lparr>CMD_Read_ID = 0xD3, CMD_Write_ScanDir = 0x36, CMD_Write_XPos = 0x2A, CMD_Write_YPos = 0x2B,
     CMD_Write_ColorCode = 0x2C, CMD_Read_ColorCode = 0x2E\<rparr>"

unbundle bit_operations_syntax

definition RGB_To_U16 :: "UNS32 \<Rightarrow> UNS16" where
  "RGB_To_U16 Rgb =
     ucast ((31 * drop_bit 16 Rgb div 255) OR push_bit 5 (63 * drop_bit 8 (Rgb AND 0xFFFF) div 255)
       OR push_bit 11 (31 * (Rgb AND 0xFF) div 255))"

section \<open>The display\<close>

definition TFTLCD_REG :: "UNS8 \<Rightarrow> lcd_io" where
  "TFTLCD_REG c = REG (ucast c)"

definition TFTLCD_WriteRAM :: "UNS16 \<Rightarrow> UNS16 \<Rightarrow> lcd_io list" where
  "TFTLCD_WriteRAM REG_Addr Data = [REG REG_Addr, RAM Data]"

definition TFTLCD_SetScanDir :: "TFTLCD_Config \<Rightarrow> UNS16 \<Rightarrow> lcd_io list" where
  "TFTLCD_SetScanDir conf Dir = TFTLCD_WriteRAM (ucast (CMD_Write_ScanDir (TFTLCD_Cmd conf))) Dir"

definition TFTLCD_SetCursor :: "TFTLCD_Config \<Rightarrow> UNS16 \<Rightarrow> UNS16 \<Rightarrow> lcd_io list" where
  "TFTLCD_SetCursor conf XPos YPos =
     [TFTLCD_REG (CMD_Write_XPos (TFTLCD_Cmd conf)), RAM (drop_bit 8 XPos), RAM (XPos AND 0xFF),
      TFTLCD_REG (CMD_Write_YPos (TFTLCD_Cmd conf)), RAM (drop_bit 8 YPos), RAM (YPos AND 0xFF)]"

text \<open>The cursor, the command to write colours, and the colours of one row: the body of every drawing loop.\<close>

definition draw_row :: "TFTLCD_Config \<Rightarrow> UNS16 \<Rightarrow> UNS16 \<Rightarrow> UNS16 list \<Rightarrow> lcd_io list" where
  "draw_row conf X Y vs = TFTLCD_SetCursor conf X Y @ TFTLCD_REG (CMD_Write_ColorCode (TFTLCD_Cmd conf)) # map RAM vs"

definition TFTLCD_DrawPoint :: "TFTLCD_Config \<Rightarrow> UNS16 \<Rightarrow> UNS16 \<Rightarrow> UNS32 \<Rightarrow> lcd_io list" where
  "TFTLCD_DrawPoint conf XPos YPos Color = draw_row conf XPos YPos [RGB_To_U16 Color]"

text \<open>A read behind the end of a buffer has no result.\<close>

definition fetch :: "'a list \<Rightarrow> nat \<Rightarrow> 'a option" where
  "fetch b i = (if i < length b then Some (b ! i) else None)"

definition block_row :: "TFTLCD_Config \<Rightarrow> UNS16 \<Rightarrow> UNS16 \<Rightarrow> UNS32 list \<Rightarrow> nat \<Rightarrow> nat \<Rightarrow> lcd_io list option" where
  "block_row conf X Y ColorBuff width i =
     map_option (\<lambda>vs. draw_row conf X (Y + of_nat i) (map ucast vs)) (those (map (\<lambda>j. fetch ColorBuff (i * width + j)) [0..<width]))"

definition TFTLCD_DrawBlock ::
  "TFTLCD_Config \<Rightarrow> UNS16 \<Rightarrow> UNS16 \<Rightarrow> UNS16 \<Rightarrow> UNS16 \<Rightarrow> UNS32 list \<Rightarrow> lcd_io list option" where
  "TFTLCD_DrawBlock conf StartXPos StartYPos EndXPos EndYPos ColorBuff =
     (let width = unat (EndXPos - StartXPos + 1); height = unat (EndYPos - StartYPos + 1)
      in map_option concat (those (map (block_row conf StartXPos StartYPos ColorBuff width) [0..<height])))"

definition TFTLCD_Clear :: "TFTLCD_Config \<Rightarrow> UNS32 \<Rightarrow> lcd_io list" where
  "TFTLCD_Clear conf Color =
     draw_row conf 0 0 (replicate (unat (TFTLCD_Height conf) * unat (TFTLCD_Width conf)) (RGB_To_U16 Color))"

text \<open>The high bytes are comparisons with 8, not shifts.\<close>

definition gt8 :: "UNS16 \<Rightarrow> UNS16" where
  "gt8 x = (if x > 8 then 1 else 0)"

definition TFTLCD_SetWindow :: "TFTLCD_Config \<Rightarrow> UNS16 \<Rightarrow> UNS16 \<Rightarrow> UNS16 \<Rightarrow> UNS16 \<Rightarrow> lcd_io list" where
  "TFTLCD_SetWindow conf StarXPos EndXPos StarYPos EndYPos =
     [TFTLCD_REG (CMD_Write_XPos (TFTLCD_Cmd conf)), RAM (gt8 StarXPos), RAM (StarXPos AND 0xFF), RAM (gt8 EndXPos), RAM (EndXPos AND 0xFF),
      TFTLCD_REG (CMD_Write_YPos (TFTLCD_Cmd conf)), RAM (gt8 StarYPos), RAM (StarYPos AND 0xFF), RAM (gt8 EndYPos), RAM (EndYPos AND 0xFF)]"

text \<open>The identification is read in four steps; \<open>rd\<close> is what the controller delivers.\<close>

definition TFTLCD_ReadDeviceId :: "(nat \<Rightarrow> UNS16) \<Rightarrow> TFTLCD_Config \<Rightarrow> lcd_io list \<times> TFTLCD_Config" where
  "TFTLCD_ReadDeviceId rd conf =
     ([TFTLCD_REG (CMD_Read_ID (TFTLCD_Cmd conf))], conf\<lparr>TFTLCD_Id := push_bit 8 (rd 2) OR rd 3\<rparr>)"

definition ILI9341_setup :: "(UNS16 \<times> UNS16 list) list" where
  "ILI9341_setup =
    [(0xCF, [0x00, 0xC1, 0x30]), (0xED, [0x64, 0x03, 0x12, 0x81]), (0xE8, [0x85, 0x10, 0x7A]),
     (0xCB, [0x39, 0x2C, 0x00, 0x34, 0x02]), (0xF7, [0x20]), (0xEA, [0x00, 0x00]), (0xC0, [0x1B]), (0xC1, [0x01]),
     (0xC5, [0x30, 0x30]), (0xC7, [0xB7]), (0x36, [0x48]), (0x3A, [0x55]), (0xB1, [0x00, 0x1A]), (0xB6, [0x0A, 0xA2]),
     (0xF2, [0x00]), (0x26, [0x01]),
     (0xE0, [0x0F, 0x2A, 0x28, 0x08, 0x0E, 0x08, 0x54, 0xA9, 0x43, 0x0A, 0x0F, 0x00, 0x00, 0x00, 0x00]),
     (0xE1, [0x00, 0x15, 0x17, 0x07, 0x11, 0x06, 0x2B, 0x56, 0x3C, 0x05, 0x10, 0x0F, 0x3F, 0x3F, 0x0F]),
     (0x2B, [0x00, 0x00, 0x01, 0x3F]), (0x2A, [0x00, 0x00, 0x00, 0xEF]), (0x11, []), (0x29, [])]"

definition setup_io :: "UNS16 \<times> UNS16 list \<Rightarrow> lcd_io list" where
  "setup_io = (\<lambda>(r, ds). REG r # map RAM ds)"

definition ILI9341_Init :: "lcd_io list" where
  "ILI9341_Init = concat (map setup_io ILI9341_setup)"

text \<open>The part of \<open>TFTLCD_Init\<close> behind the set-up of pins and bus.\<close>

definition TFTLCD_Init :: "(nat \<Rightarrow> UNS16) \<Rightarrow> TFTLCD_Config \<Rightarrow> lcd_io list \<times> TFTLCD_Config" where
  "TFTLCD_Init rd conf0 =
     (let conf1 = conf0\<lparr>TFTLCD_Dir := 0, TFTLCD_Height := 320, TFTLCD_Width := 240, TFTLCD_Cmd := TFTLCD_commands\<rparr>;
          (io, conf) = TFTLCD_ReadDeviceId rd conf1
      in (io @ ILI9341_Init @ TFTLCD_SetScanDir conf (ucast (TFTLCD_Dir conf)) @
          TFTLCD_SetWindow conf 0 (TFTLCD_Width conf - 1) 0 (TFTLCD_Height conf - 1) @ TFTLCD_Clear conf 0xFFFFFF, conf))"

section \<open>Lines, boxes and characters\<close>

record Ele_Line_PropType =
  Ele_Line_Width :: UNS16
  Ele_Line_Height :: UNS16
  Ele_Line_Type :: UNS8
  Ele_Line_Color :: UNS32

record Ele_Box_PropType =
  Ele_Box_Width :: UNS16
  Ele_Box_Height :: UNS16
  Ele_Box_Color :: UNS32
  Ele_Box_IsSolid :: UNS8
  Ele_Box_Border :: Ele_Line_PropType

definition DrawLine :: "TFTLCD_Config \<Rightarrow> UNS16 \<Rightarrow> UNS16 \<Rightarrow> Ele_Line_PropType \<Rightarrow> lcd_io list" where
  "DrawLine conf StartXPix StartYPix Obj =
     concat (map (\<lambda>PixYIndex. draw_row conf StartXPix (StartYPix + of_nat PixYIndex)
       (replicate (unat (Ele_Line_Width Obj)) (RGB_To_U16 (Ele_Line_Color Obj)))) [0..<unat (Ele_Line_Height Obj)])"

definition SetLineBd :: "UNS32 \<Rightarrow> UNS16 \<Rightarrow> UNS16 \<Rightarrow> UNS8 \<Rightarrow> Ele_Line_PropType \<Rightarrow> Ele_Line_PropType" where
  "SetLineBd Color Width Height Type Obj =
     Obj\<lparr>Ele_Line_Color := Color, Ele_Line_Height := Height, Ele_Line_Width := Width, Ele_Line_Type := Type\<rparr>"

definition SetBoxBg :: "UNS32 \<Rightarrow> UNS16 \<Rightarrow> UNS16 \<Rightarrow> UNS8 \<Rightarrow> Ele_Box_PropType \<Rightarrow> Ele_Box_PropType" where
  "SetBoxBg Color Width Height IsSolid Obj =
     Obj\<lparr>Ele_Box_IsSolid := IsSolid, Ele_Box_Color := if IsSolid \<noteq> 0 then Color else 0xFFFFFF,
       Ele_Box_Width := Width, Ele_Box_Height := Height\<rparr>"

definition SetBoxBd :: "UNS32 \<Rightarrow> UNS16 \<Rightarrow> UNS16 \<Rightarrow> UNS8 \<Rightarrow> Ele_Box_PropType \<Rightarrow> Ele_Box_PropType" where
  "SetBoxBd Color WidthLR WidthTD Type Obj = Obj\<lparr>Ele_Box_Border := SetLineBd Color WidthLR WidthTD Type (Ele_Box_Border Obj)\<rparr>"

definition DrawBox :: "TFTLCD_Config \<Rightarrow> UNS16 \<Rightarrow> UNS16 \<Rightarrow> Ele_Box_PropType \<Rightarrow> lcd_io list" where
  "DrawBox conf StartXPix StartYPix BoxObj =
     (let LineObj = Ele_Box_Border BoxObj;
          BorderWidth = Ele_Line_Width LineObj;
          BorderHeight = Ele_Line_Height LineObj;
          BoxWidth = Ele_Box_Width BoxObj;
          BoxHeight = Ele_Box_Height BoxObj;
          BoxTotalWidth = BoxWidth + BorderWidth * 2;
          BoxTotalHeight = BoxHeight + BorderHeight * 2;
          Line1 = LineObj\<lparr>Ele_Line_Width := BoxTotalWidth, Ele_Line_Height := BorderHeight\<rparr>;
          Line2 = LineObj\<lparr>Ele_Line_Width := BorderWidth, Ele_Line_Height := BoxHeight\<rparr>;
          Line3 = LineObj\<lparr>Ele_Line_Width := BoxWidth, Ele_Line_Height := BoxHeight, Ele_Line_Color := Ele_Box_Color BoxObj\<rparr>
      in DrawLine conf StartXPix StartYPix Line1 @
         DrawLine conf StartXPix (StartYPix + BoxTotalHeight - BorderHeight) Line1 @
         DrawLine conf (StartXPix + BoxTotalWidth - BorderWidth) (StartYPix + BorderHeight) Line2 @
         DrawLine conf StartXPix (StartYPix + BorderHeight) Line2 @
         (if Ele_Box_IsSolid BoxObj = 0 then []
          else DrawLine conf (StartXPix + BorderWidth) (StartYPix + BorderHeight) Line3))"

record TFTLCD_Word_PropType =
  XPix :: UNS16
  YPix :: UNS16
  FontSize :: UNS8
  FontType :: UNS8
  FontFg :: UNS32
  FontBg :: UNS32
  WordBuff :: "UNS8 list"

fun word_cols :: "nat \<Rightarrow> UNS32 \<Rightarrow> UNS32 \<Rightarrow> UNS16 \<Rightarrow> UNS16 list" where
  "word_cols 0 fg bg RowValue = []"
| "word_cols (Suc n) fg bg RowValue =
     ucast (if RowValue AND 0x8000 \<noteq> 0 then fg else bg) # word_cols n fg bg (push_bit 1 RowValue)"

definition word_row :: "TFTLCD_Config \<Rightarrow> TFTLCD_Word_PropType \<Rightarrow> nat \<Rightarrow> lcd_io list option" where
  "word_row conf W Row =
     (case (fetch (WordBuff W) (2 * Row), fetch (WordBuff W) (2 * Row + 1)) of
        (Some hi, Some lo) \<Rightarrow>
          Some (draw_row conf (XPix W) (YPix W + of_nat Row)
            (word_cols (unat (FontSize W)) (FontFg W) (FontBg W) (push_bit 8 (ucast hi) OR ucast lo)))
      | _ \<Rightarrow> None)"

definition TFTLCD_Word :: "TFTLCD_Config \<Rightarrow> UNS16 \<Rightarrow> UNS16 \<Rightarrow> TFTLCD_Word_PropType \<Rightarrow> (lcd_io list \<times> TFTLCD_Word_PropType) option" where
  "TFTLCD_Word conf X Y W =
     (let W1 = W\<lparr>XPix := X, YPix := Y\<rparr>
      in map_option (\<lambda>ios. (concat ios, W1)) (those (map (word_row conf W1) [0..<unat (FontSize W1)])))"

section \<open>The contract of the controller\<close>

text \<open>
  \<open>pixel s i j\<close> is the colour in column \<open>i\<close> of row \<open>j\<close>, and \<open>ready s\<close> says that the window of the controller ends
  at the last column and row. Colours written after the cursor was set go to the pixels right of it and
  continue in the next row at the column of the cursor.
\<close>

type_synonym picture = "nat \<Rightarrow> nat \<Rightarrow> UNS16"

definition cursor_io :: "UNS16 \<Rightarrow> UNS16 \<Rightarrow> lcd_io list" where
  "cursor_io x y = [REG 0x2A, RAM (drop_bit 8 x), RAM (x AND 0xFF), REG 0x2B, RAM (drop_bit 8 y), RAM (y AND 0xFF), REG 0x2C]"

definition filled :: "nat \<Rightarrow> nat \<Rightarrow> UNS16 list \<Rightarrow> picture \<Rightarrow> picture" where
  "filled x y vs pic i j =
     (if x \<le> i \<and> i < 240 \<and> y \<le> j \<and> (j - y) * (240 - x) + (i - x) < length vs
      then vs ! ((j - y) * (240 - x) + (i - x)) else pic i j)"

locale display =
  fixes step :: "lcd_io \<Rightarrow> 's \<Rightarrow> 's"
    and pixel :: "'s \<Rightarrow> picture"
    and ready :: "'s \<Rightarrow> bool"
  assumes fill: "ready s \<Longrightarrow> unat x < 240 \<Longrightarrow> unat y < 320 \<Longrightarrow> length vs \<le> (240 - unat x) * (320 - unat y) \<Longrightarrow>
      pixel (fold step (cursor_io x y @ map RAM vs) s) = filled (unat x) (unat y) vs (pixel s)"
    and fill_ready: "ready s \<Longrightarrow> unat x < 240 \<Longrightarrow> unat y < 320 \<Longrightarrow> ready (fold step (cursor_io x y @ map RAM vs) s)"

text \<open>A rectangle of \<open>w\<close> columns and \<open>n\<close> rows, painted with the colour \<open>f c r\<close> in its column \<open>c\<close> and row \<open>r\<close>.\<close>

definition paint :: "nat \<Rightarrow> nat \<Rightarrow> nat \<Rightarrow> nat \<Rightarrow> picture \<Rightarrow> picture \<Rightarrow> picture" where
  "paint x y w n f pic i j = (if x \<le> i \<and> i < x + w \<and> y \<le> j \<and> j < y + n then f (i - x) (j - y) else pic i j)"

lemma draw_row_io: "TFTLCD_Cmd conf = TFTLCD_commands \<Longrightarrow> draw_row conf x y vs = cursor_io x y @ map RAM vs"
  by (simp add: draw_row_def cursor_io_def TFTLCD_SetCursor_def TFTLCD_REG_def TFTLCD_commands_def)

lemma filled_row:
  assumes "x + length vs \<le> 240"
  shows "filled x y vs pic = paint x y (length vs) 1 (\<lambda>c r. vs ! c) pic"
proof (intro ext)
  fix i j
  have "(j - y) * (240 - x) + (i - x) < length vs \<longleftrightarrow> j = y \<and> i - x < length vs" if "x \<le> i" "i < 240" "y \<le> j"
  proof (cases "j = y")
    case False
    then have "1 * (240 - x) \<le> (j - y) * (240 - x)" using that by (intro mult_le_mono1) simp
    moreover have "length vs \<le> 1 * (240 - x)" using assms by simp
    ultimately have "length vs \<le> (j - y) * (240 - x)" by (rule order_trans [rotated])
    then show ?thesis using False by simp
  qed simp
  then show "filled x y vs pic i j = paint x y (length vs) 1 (\<lambda>c r. vs ! c) pic i j"
    using assms by (auto simp: filled_def paint_def)
qed

text \<open>What a box looks like: the border around the inside, which is coloured only if the box is solid.\<close>

definition box_picture :: "nat \<Rightarrow> nat \<Rightarrow> Ele_Box_PropType \<Rightarrow> picture \<Rightarrow> picture" where
  "box_picture x y B pic i j =
     (let bw = unat (Ele_Line_Width (Ele_Box_Border B)); bh = unat (Ele_Line_Height (Ele_Box_Border B));
          w = unat (Ele_Box_Width B); h = unat (Ele_Box_Height B)
      in if x + bw \<le> i \<and> i < x + bw + w \<and> y + bh \<le> j \<and> j < y + bh + h
         then (if Ele_Box_IsSolid B \<noteq> 0 then RGB_To_U16 (Ele_Box_Color B) else pic i j)
         else if x \<le> i \<and> i < x + w + 2 * bw \<and> y \<le> j \<and> j < y + h + 2 * bh
         then RGB_To_U16 (Ele_Line_Color (Ele_Box_Border B)) else pic i j)"

context display
begin

lemma draw_row_paints:
  assumes "ready s" "TFTLCD_Cmd conf = TFTLCD_commands" "unat x + length vs \<le> 240" "unat x < 240" "unat y < 320"
  shows "ready (fold step (draw_row conf x y vs) s)"
    "pixel (fold step (draw_row conf x y vs) s) = paint (unat x) (unat y) (length vs) 1 (\<lambda>c r. vs ! c) (pixel s)"
proof -
  have "1 \<le> 320 - unat y" using assms(5) by simp
  then have "length vs * 1 \<le> (240 - unat x) * (320 - unat y)" using assms(3) by (intro mult_le_mono) simp_all
  then show "pixel (fold step (draw_row conf x y vs) s) = paint (unat x) (unat y) (length vs) 1 (\<lambda>c r. vs ! c) (pixel s)"
    unfolding draw_row_io [OF assms(2)] using fill [OF assms(1,4,5)] filled_row [OF assms(3)] by simp
  show "ready (fold step (draw_row conf x y vs) s)"
    unfolding draw_row_io [OF assms(2)] by (rule fill_ready [OF assms(1,4,5)])
qed

text \<open>The rows of a drawing loop paint a rectangle.\<close>

lemma rows_paint:
  assumes "ready s" "TFTLCD_Cmd conf = TFTLCD_commands" "unat x + w \<le> 240" "unat x < 240" "unat y + n \<le> 320"
    and "\<forall>r<n. length (vs r) = w"
  shows "ready (fold step (concat (map (\<lambda>r. draw_row conf x (y + of_nat r) (vs r)) [0..<n])) s) \<and>
    pixel (fold step (concat (map (\<lambda>r. draw_row conf x (y + of_nat r) (vs r)) [0..<n])) s) =
      paint (unat x) (unat y) w n (\<lambda>c r. vs r ! c) (pixel s)"
  using assms(5,6)
proof (induction n)
  case 0
  then show ?case using assms(1) by (auto simp: paint_def fun_eq_iff)
next
  case (Suc n)
  define s1 where "s1 = fold step (concat (map (\<lambda>r. draw_row conf x (y + of_nat r) (vs r)) [0..<n])) s"
  have ih: "ready s1" "pixel s1 = paint (unat x) (unat y) w n (\<lambda>c r. vs r ! c) (pixel s)"
    using Suc by (simp_all add: s1_def)
  have n: "unat (of_nat n :: UNS16) = n" using Suc.prems(1) by (simp add: unsigned_of_nat take_bit_nat_eq_self)
  then have u: "unat (y + of_nat n) = unat y + n" using Suc.prems(1) by (simp add: unat_word_ariths)
  have "fold step (concat (map (\<lambda>r. draw_row conf x (y + of_nat r) (vs r)) [0..<Suc n])) s =
      fold step (draw_row conf x (y + of_nat n) (vs n)) s1"
    by (simp add: s1_def)
  moreover have "ready (fold step (draw_row conf x (y + of_nat n) (vs n)) s1)"
    "pixel (fold step (draw_row conf x (y + of_nat n) (vs n)) s1) = paint (unat x) (unat y + n) w 1 (\<lambda>c r. vs n ! c) (pixel s1)"
    using draw_row_paints [OF ih(1) assms(2), of x "vs n" "y + of_nat n"] assms(3,4) Suc.prems u by simp_all
  moreover have "paint (unat x) (unat y + n) w 1 (\<lambda>c r. vs n ! c) (paint (unat x) (unat y) w n (\<lambda>c r. vs r ! c) (pixel s)) =
      paint (unat x) (unat y) w (Suc n) (\<lambda>c r. vs r ! c) (pixel s)"
    by (auto simp: paint_def fun_eq_iff less_Suc_eq)
  ultimately show ?case using ih(2) by (simp only: simp_thms)
qed

lemma line_paints:
  assumes "ready s" "TFTLCD_Cmd conf = TFTLCD_commands" "unat x + unat (Ele_Line_Width L) \<le> 240" "unat x < 240"
    and "unat y + unat (Ele_Line_Height L) \<le> 320"
  shows "ready (fold step (DrawLine conf x y L) s)"
    "pixel (fold step (DrawLine conf x y L) s) =
       paint (unat x) (unat y) (unat (Ele_Line_Width L)) (unat (Ele_Line_Height L)) (\<lambda>_ _. RGB_To_U16 (Ele_Line_Color L)) (pixel s)"
proof -
  let ?w = "unat (Ele_Line_Width L)"
  have "paint (unat x) (unat y) ?w n (\<lambda>c r. replicate ?w v ! c) pic = paint (unat x) (unat y) ?w n (\<lambda>_ _. v) pic" for n v pic
    by (auto simp: paint_def fun_eq_iff)
  then show "ready (fold step (DrawLine conf x y L) s)"
    "pixel (fold step (DrawLine conf x y L) s) =
       paint (unat x) (unat y) (unat (Ele_Line_Width L)) (unat (Ele_Line_Height L)) (\<lambda>_ _. RGB_To_U16 (Ele_Line_Color L)) (pixel s)"
    using rows_paint [OF assms, of "\<lambda>_. replicate ?w (RGB_To_U16 (Ele_Line_Color L))"] by (simp_all add: DrawLine_def)
qed

lemma box_paints:
  fixes B :: Ele_Box_PropType
  defines "bw \<equiv> Ele_Line_Width (Ele_Box_Border B)" and "bh \<equiv> Ele_Line_Height (Ele_Box_Border B)"
    and "w \<equiv> Ele_Box_Width B" and "h \<equiv> Ele_Box_Height B"
  assumes "ready s" "TFTLCD_Cmd conf = TFTLCD_commands" "0 < unat bw"
    and "unat x + unat w + 2 * unat bw \<le> 240" "unat y + unat h + 2 * unat bh \<le> 320"
  shows "pixel (fold step (DrawBox conf x y B) s) = box_picture (unat x) (unat y) B (pixel s) \<and>
    ready (fold step (DrawBox conf x y B) s)"
proof -
  define tw th where "tw = w + bw * 2" and "th = h + bh * 2"
  define c d where "c = RGB_To_U16 (Ele_Line_Color (Ele_Box_Border B))" and "d = RGB_To_U16 (Ele_Box_Color B)"
  have u: "unat tw = unat w + 2 * unat bw" "unat th = unat h + 2 * unat bh" "unat (y + th - bh) = unat y + unat h + unat bh"
      "unat (x + tw - bw) = unat x + unat w + unat bw" "unat (y + bh) = unat y + unat bh" "unat (x + bw) = unat x + unat bw"
    using assms(8,9) by (simp_all add: tw_def th_def unat_word_ariths)
  let ?L = "Ele_Box_Border B"
  define L1 L2 L3 where "L1 = ?L\<lparr>Ele_Line_Width := tw, Ele_Line_Height := bh\<rparr>"
    and "L2 = ?L\<lparr>Ele_Line_Width := bw, Ele_Line_Height := h\<rparr>"
    and "L3 = ?L\<lparr>Ele_Line_Width := w, Ele_Line_Height := h, Ele_Line_Color := Ele_Box_Color B\<rparr>"
  note L = L1_def L2_def L3_def
  define s1 where "s1 = fold step (DrawLine conf x y L1) s"
  define s2 where "s2 = fold step (DrawLine conf x (y + th - bh) L1) s1"
  define s3 where "s3 = fold step (DrawLine conf (x + tw - bw) (y + bh) L2) s2"
  define s4 where "s4 = fold step (DrawLine conf x (y + bh) L2) s3"
  define s5 where "s5 = fold step (DrawLine conf (x + bw) (y + bh) L3) s4"
  have 1: "ready s1" "pixel s1 = paint (unat x) (unat y) (unat tw) (unat bh) (\<lambda>_ _. c) (pixel s)"
    using line_paints [OF assms(5,6), of x L1 y] assms(7-9) u by (simp_all add: s1_def L c_def)
  have 2: "ready s2" "pixel s2 = paint (unat x) (unat y + unat h + unat bh) (unat tw) (unat bh) (\<lambda>_ _. c) (pixel s1)"
    using line_paints [OF 1(1) assms(6), of x L1 "y + th - bh"] assms(7-9) u by (simp_all add: s2_def L c_def)
  have 3: "ready s3" "pixel s3 = paint (unat x + unat w + unat bw) (unat y + unat bh) (unat bw) (unat h) (\<lambda>_ _. c) (pixel s2)"
    using line_paints [OF 2(1) assms(6), of "x + tw - bw" L2 "y + bh"] assms(7-9) u by (simp_all add: s3_def L c_def)
  have 4: "ready s4" "pixel s4 = paint (unat x) (unat y + unat bh) (unat bw) (unat h) (\<lambda>_ _. c) (pixel s3)"
    using line_paints [OF 3(1) assms(6), of x L2 "y + bh"] assms(7-9) u by (simp_all add: s4_def L c_def)
  have 5: "ready s5" "pixel s5 = paint (unat x + unat bw) (unat y + unat bh) (unat w) (unat h) (\<lambda>_ _. d) (pixel s4)"
    using line_paints [OF 4(1) assms(6), of "x + bw" L3 "y + bh"] assms(7-9) u by (simp_all add: s5_def L d_def)
  have run: "fold step (DrawBox conf x y B) s = (if Ele_Box_IsSolid B = 0 then s4 else s5)"
    by (simp add: DrawBox_def Let_def s1_def s2_def s3_def s4_def s5_def L tw_def th_def bw_def bh_def w_def h_def)
  have "pixel s4 i j = box_picture (unat x) (unat y) (B\<lparr>Ele_Box_IsSolid := 0\<rparr>) (pixel s) i j" for i j
    unfolding 4(2) 3(2) 2(2) 1(2) u by (simp add: box_picture_def Let_def paint_def c_def bw_def bh_def w_def h_def) linarith
  then have p4: "pixel s4 = box_picture (unat x) (unat y) (B\<lparr>Ele_Box_IsSolid := 0\<rparr>) (pixel s)" by blast
  have "pixel (if Ele_Box_IsSolid B = 0 then s4 else s5) i j = box_picture (unat x) (unat y) B (pixel s) i j" for i j
    unfolding if_distrib [of pixel] 5(2) p4 by (simp add: box_picture_def Let_def paint_def d_def bw_def bh_def w_def h_def)
  then have "pixel (if Ele_Box_IsSolid B = 0 then s4 else s5) = box_picture (unat x) (unat y) B (pixel s)" by blast
  then show ?thesis unfolding run using 4(1) 5(1) by simp
qed

end

section \<open>The controller of the board\<close>

text \<open>
  The commands that matter for drawing, as in the data sheet of the ILI9341: 2Ah and 2Bh take the start and the end of the window in
  columns and rows, two bytes each, and leave the end as it is when only the start follows; an end outside the screen is
  ignored. 2Ch moves to the start of the window, and every following value colours a pixel and moves on.
\<close>

record panel =
  sc :: nat
  ec :: nat
  sp :: nat
  ep :: nat
  col :: nat
  row :: nat
  command :: UNS16
  params :: "UNS16 list"
  gram :: picture

fun word_of_bytes :: "UNS16 list \<Rightarrow> nat" where
  "word_of_bytes [hi, lo] = 256 * unat (hi AND 0xFF) + unat (lo AND 0xFF)"
| "word_of_bytes _ = 0"

definition set_window :: "UNS16 \<Rightarrow> UNS16 list \<Rightarrow> panel \<Rightarrow> panel" where
  "set_window c ps p =
     (let v = word_of_bytes (drop (length ps - 2) ps)
      in if c = 0x2A \<and> length ps = 2 then p\<lparr>sc := v\<rparr>
         else if c = 0x2A \<and> length ps = 4 \<and> v < 240 then p\<lparr>ec := v\<rparr>
         else if c = 0x2B \<and> length ps = 2 then p\<lparr>sp := v\<rparr>
         else if c = 0x2B \<and> length ps = 4 \<and> v < 320 then p\<lparr>ep := v\<rparr>
         else p)"

definition write_pixel :: "UNS16 \<Rightarrow> panel \<Rightarrow> panel" where
  "write_pixel v p =
     p\<lparr>gram := (gram p)(col p := (gram p (col p))(row p := v)),
       col := if col p = ec p then sc p else col p + 1,
       row := if col p = ec p then (if row p = ep p then sp p else row p + 1) else row p\<rparr>"

fun panel_step :: "lcd_io \<Rightarrow> panel \<Rightarrow> panel" where
  "panel_step (REG c) p = (if c = 0x2C then p\<lparr>command := c, params := [], col := sc p, row := sp p\<rparr> else p\<lparr>command := c, params := []\<rparr>)"
| "panel_step (RAM v) p =
     (if command p = 0x2C then write_pixel v p
      else set_window (command p) (params p @ [v]) p\<lparr>params := params p @ [v]\<rparr>)"

definition panel_ready :: "panel \<Rightarrow> bool" where
  "panel_ready p \<longleftrightarrow> ec p = 239 \<and> ep p = 319"

lemma and_255: "x AND 0xFF = x mod 256" for x :: UNS16
  using take_bit_eq_mask [of 8 x] by (simp add: take_bit_eq_mod mask_eq_exp_minus_1)

lemma word_of_bytes_split: "unat x < 512 \<Longrightarrow> word_of_bytes [drop_bit 8 x, x AND 0xFF] = unat x" for x :: UNS16
  by (simp add: and_255 drop_bit_eq_div unat_div unat_mod)

lemma cursor_panel:
  assumes "unat x < 240" "unat y < 320"
  shows "fold panel_step (cursor_io x y) p =
    p\<lparr>sc := unat x, sp := unat y, col := unat x, row := unat y, command := 0x2C, params := []\<rparr>"
  using word_of_bytes_split [of x] word_of_bytes_split [of y] assms by (simp add: cursor_io_def set_window_def)

lemma linear_index: "r < w \<Longrightarrow> q * w + r = k \<longleftrightarrow> q = k div w \<and> r = k mod (w :: nat)"
  by auto

text \<open>After \<open>k\<close> colours the controller is at column \<open>k mod w\<close> and row \<open>k div w\<close> of the rest of the window.\<close>

lemma write_pixels:
  assumes "panel_ready p" "command p = 0x2C" "col p = sc p" "row p = sp p" "sc p < 240" "sp p < 320"
    and "length vs \<le> (240 - sc p) * (320 - sp p)"
  shows "fold panel_step (map RAM vs) p =
    p\<lparr>gram := filled (sc p) (sp p) vs (gram p), col := sc p + length vs mod (240 - sc p),
      row := sp p + length vs div (240 - sc p) mod (320 - sp p)\<rparr>"
  using assms(7)
proof (induction vs rule: rev_induct)
  case Nil
  have "filled (sc p) (sp p) [] (gram p) = gram p" by (simp add: filled_def fun_eq_iff)
  then show ?case using assms(3,4) by simp
next
  case (snoc v vs)
  define w h k where "w = 240 - sc p" and "h = 320 - sp p" and "k = length vs"
  have pos: "0 < w" "0 < h" using assms(5,6) by (simp_all add: w_def h_def)
  have kl: "k < w * h" using snoc.prems by (simp add: w_def h_def k_def)
  then have kd: "k div w < h" by (simp add: div_less_iff_less_mult pos mult.commute)
  define q where "q = p\<lparr>gram := filled (sc p) (sp p) vs (gram p), col := sc p + k mod w, row := sp p + k div w\<rparr>"
  have "fold panel_step (map RAM vs) p = q" using snoc kd by (simp add: q_def w_def h_def k_def)
  then have run: "fold panel_step (map RAM (vs @ [v])) p = write_pixel v q" using assms(2) by (simp add: q_def)
  have last_col: "col q = ec q \<longleftrightarrow> Suc (k mod w) = w" using assms(1,5) by (auto simp: q_def panel_ready_def w_def)
  have last_row: "row q = ep q \<longleftrightarrow> Suc (k div w) = h" using assms(1,6) by (auto simp: q_def panel_ready_def h_def)
  have c: "(if col q = ec q then sc q else col q + 1) = sc p + Suc k mod w"
    unfolding last_col by (simp add: q_def mod_Suc)
  have r: "(if col q = ec q then if row q = ep q then sp q else row q + 1 else row q) = sp p + Suc k div w mod h"
    unfolding last_col last_row using kd pos by (auto simp: q_def div_Suc mod_Suc)
  have "((gram q)(col q := (gram q (col q))(row q := v))) i j = filled (sc p) (sp p) (vs @ [v]) (gram p) i j" for i j
  proof (cases "sc p \<le> i \<and> i < 240 \<and> sp p \<le> j")
    case True
    then have "i - sc p < w" by (auto simp: w_def)
    then have "(j - sp p) * w + (i - sc p) = k \<longleftrightarrow> j - sp p = k div w \<and> i - sc p = k mod w"
      by (rule linear_index)
    moreover have "i = col q \<longleftrightarrow> i - sc p = k mod w" "j = row q \<longleftrightarrow> j - sp p = k div w" using True by (auto simp: q_def)
    ultimately have "i = col q \<and> j = row q \<longleftrightarrow> (j - sp p) * w + (i - sc p) = k" by blast
    moreover have "filled (sc p) (sp p) (vs @ [v]) (gram p) i j =
        (if (j - sp p) * w + (i - sc p) = k then v else filled (sc p) (sp p) vs (gram p) i j)"
      using True by (auto simp: filled_def k_def nth_append simp flip: w_def)
    moreover have "gram q = filled (sc p) (sp p) vs (gram p)" by (simp add: q_def)
    ultimately show ?thesis by auto
  next
    case False
    have "k mod w < w" using pos by simp
    then have "\<not> (i = sc p + k mod w \<and> j = sp p + k div w)" using False by (auto simp: w_def)
    with False show ?thesis by (auto simp: q_def filled_def)
  qed
  then have g: "(gram q)(col q := (gram q (col q))(row q := v)) = filled (sc p) (sp p) (vs @ [v]) (gram p)" by blast
  show ?case unfolding run write_pixel_def c r g by (simp add: q_def w_def h_def k_def)
qed

interpretation ili: display panel_step gram panel_ready
proof unfold_locales
  fix s and x y :: UNS16 and vs
  assume a: "panel_ready s" "unat x < 240" "unat y < 320"
  define p where "p = s\<lparr>sc := unat x, sp := unat y, col := unat x, row := unat y, command := 0x2C, params := []\<rparr>"
  have p: "panel_ready p" "fold panel_step (cursor_io x y @ map RAM vs) s = fold panel_step (map RAM vs) p"
    using a cursor_panel [OF a(2,3)] by (simp_all add: p_def panel_ready_def)
  show "gram (fold panel_step (cursor_io x y @ map RAM vs) s) = filled (unat x) (unat y) vs (gram s)"
    if "length vs \<le> (240 - unat x) * (320 - unat y)"
    using write_pixels [OF p(1), of vs] a that unfolding p(2) by (simp add: p_def)
  have "ec (fold panel_step (map RAM vs) q) = ec q \<and> ep (fold panel_step (map RAM vs) q) = ep q" if "command q = 0x2C" for q
    using that by (induction vs arbitrary: q) (simp_all add: write_pixel_def)
  then show "panel_ready (fold panel_step (cursor_io x y @ map RAM vs) s)"
    using p unfolding p(2) by (simp add: panel_ready_def p_def)
qed

section \<open>Colours\<close>

lemma or_fields:
  fixes a b :: nat
  assumes "a < 2 ^ n"
  shows "a OR push_bit n b = a + 2 ^ n * b"
proof -
  have "take_bit n a = a" using assms by (rule take_bit_nat_eq_self)
  then have "\<not> (bit a k \<and> n \<le> k)" for k by (metis bit_take_bit_iff not_less)
  then have "a AND push_bit n b = 0" by (intro bit_eqI) (auto simp: bit_simps)
  then have "a + push_bit n b = a OR push_bit n b" by (rule disjunctive_add_eq_or)
  then show ?thesis by (simp add: push_bit_eq_mult mult.commute)
qed

text \<open>A 24-bit colour becomes a 16-bit one with its red part, scaled to 31, in the five low bits, its green
  part, scaled to 63, in the six bits above and its blue part, scaled to 31, on top: the fields do not overlap.\<close>

theorem RGB_To_U16_fields:
  assumes "r < 256" "g < 256" "b < 256"
  shows "unat (RGB_To_U16 (of_nat (65536 * r + 256 * g + b))) = 31 * r div 255 + 32 * (63 * g div 255) + 2048 * (31 * b div 255)"
proof -
  define v :: UNS32 where "v = of_nat (65536 * r + 256 * g + b)"
  have v: "unat v = 65536 * r + 256 * g + b" unfolding v_def unsigned_of_nat of_nat_id using assms by (intro take_bit_nat_eq_self) simp
  have "(65536 * r + 256 * g + b) div 65536 = r" using div_mult_self3 [of 65536 r "256 * g + b"] assms by (simp add: add.assoc)
  then have R: "unat (31 * drop_bit 16 v div 255) = 31 * r div 255"
    using v assms by (simp add: drop_bit_eq_div unat_div unat_word_ariths)
  have m16: "v AND 0xFFFF = v mod 65536" and m8: "v AND 0xFF = v mod 256"
    using take_bit_eq_mask [of 16 v] take_bit_eq_mask [of 8 v] by (simp_all add: take_bit_eq_mod mask_eq_exp_minus_1)
  have "(65536 * r + 256 * g + b) mod 65536 = 256 * g + b" using assms by (simp add: add.assoc)
  moreover have "(65536 * r + 256 * g + b) mod 256 = b" using assms mod_mult_self2 [of b 256 "256 * r + g"] by (simp add: algebra_simps)
  ultimately have G: "unat (63 * drop_bit 8 (v AND 0xFFFF) div 255) = 63 * g div 255"
    and B: "unat (31 * (v AND 0xFF) div 255) = 31 * b div 255"
    using v assms by (simp_all add: m16 m8 drop_bit_eq_div unat_div unat_mod unat_word_ariths)
  have lt: "31 * r div 255 < 2 ^ 5" "31 * r div 255 + 2 ^ 5 * (63 * g div 255) < 2 ^ 11"
     "31 * r div 255 + 32 * (63 * g div 255) + 2048 * (31 * b div 255) < 65536"
    using assms by simp_all
  have t: "take_bit LENGTH(32) (push_bit 5 (63 * g div 255)) = push_bit 5 (63 * g div 255)"
     "take_bit LENGTH(32) (push_bit 11 (31 * b div 255)) = push_bit 11 (31 * b div 255)"
    using assms by (intro take_bit_nat_eq_self; simp add: push_bit_eq_mult)+
  have "unat (31 * drop_bit 16 v div 255 OR push_bit 5 (63 * drop_bit 8 (v AND 0xFFFF) div 255) OR push_bit 11 (31 * (v AND 0xFF) div 255)) =
      31 * r div 255 OR push_bit 5 (63 * g div 255) OR push_bit 11 (31 * b div 255)"
    unfolding unsigned_or_eq unsigned_push_bit_eq R G B using t by (simp only:)
  also have "\<dots> = 31 * r div 255 + 2 ^ 5 * (63 * g div 255) + 2 ^ 11 * (31 * b div 255)"
    by (simp only: or.assoc [symmetric] or_fields [OF lt(1)] or_fields [OF lt(2)])
  finally have e: "unat (31 * drop_bit 16 v div 255 OR push_bit 5 (63 * drop_bit 8 (v AND 0xFFFF) div 255) OR
      push_bit 11 (31 * (v AND 0xFF) div 255)) = 31 * r div 255 + 32 * (63 * g div 255) + 2048 * (31 * b div 255)"
    by simp
  show ?thesis
    unfolding v_def [symmetric] RGB_To_U16_def unsigned_ucast_eq e using lt(3) by (simp add: take_bit_nat_eq_self)
qed

section \<open>Blocks and characters\<close>

lemma those_map_Some: "\<forall>x\<in>set xs. f x = Some (g x) \<Longrightarrow> those (map f xs) = Some (map g xs)"
  by (induction xs) auto

lemma those_map_None: "x \<in> set xs \<Longrightarrow> f x = None \<Longrightarrow> those (map f xs) = None"
  by (induction xs) (auto split: option.splits)

lemma block_index: "i < h \<Longrightarrow> j < w \<Longrightarrow> i * w + j < h * (w :: nat)"
proof -
  assume "i < h" "j < w"
  then have "i * w + j < (i + 1) * w" by (simp add: algebra_simps)
  also have "\<dots> \<le> h * w" using \<open>i < h\<close> by (intro mult_le_mono1) simp
  finally show ?thesis .
qed

text \<open>The colour of a character in its column \<open>c\<close> and row \<open>r\<close>: the font has two bytes for each row.\<close>

definition glyph :: "TFTLCD_Word_PropType \<Rightarrow> picture" where
  "glyph W c r = ucast (if (if c < 8 then bit (WordBuff W ! (2 * r)) (7 - c) else c < 16 \<and> bit (WordBuff W ! (2 * r + 1)) (15 - c))
     then FontFg W else FontBg W)"

lemma length_word_cols [simp]: "length (word_cols n fg bg v) = n"
  by (induction n arbitrary: v) simp_all

lemma test_top_bit: "v AND 0x8000 \<noteq> 0 \<longleftrightarrow> bit v 15" for v :: UNS16
  using bit_iff_and_push_bit_not_eq_0 [of v 15] by simp

lemma word_cols_nth: "k < n \<Longrightarrow> word_cols n fg bg v ! k = ucast (if k < 16 \<and> bit v (15 - k) then fg else bg)"
proof (induction n arbitrary: k v)
  case (Suc n)
  show ?case
  proof (cases k)
    case (Suc m)
    have "m < 16 \<and> bit (push_bit 1 v) (15 - m) \<longleftrightarrow> k < 16 \<and> bit v (15 - k)"
      unfolding bit_push_bit_iff using Suc by (cases "m < 15") (auto simp: not_less le_Suc_eq)
    then show ?thesis using Suc Suc.IH [of m "push_bit 1 v"] \<open>k < Suc n\<close> by (simp del: push_bit_of_Suc_0 add: test_top_bit)
  qed (simp add: test_top_bit)
qed simp

lemma row_value_bit: "bit (push_bit 8 (ucast hi) OR ucast lo :: UNS16) (15 - c) \<longleftrightarrow> (if c < 8 then bit hi (7 - c) else bit lo (15 - c))"
  if "c < 16" for hi lo :: UNS8
  using that by (auto simp: bit_simps dest: bit_imp_le_length)

lemma word_row_io:
  assumes "2 * r + 1 < length (WordBuff W)"
  shows "\<exists>vs. word_row conf W r = Some (draw_row conf (XPix W) (YPix W + of_nat r) vs) \<and> length vs = unat (FontSize W) \<and>
    (\<forall>c<unat (FontSize W). vs ! c = glyph W c r)"
  using assms row_value_bit
  by (intro exI [of _ "word_cols (unat (FontSize W)) (FontFg W) (FontBg W) (push_bit 8 (ucast (WordBuff W ! (2 * r))) OR ucast (WordBuff W ! (2 * r + 1)))"])
    (auto simp: word_row_def fetch_def word_cols_nth glyph_def simp del: push_bit_numeral)

lemma paint_cong:
  "(\<And>c r. c < w \<Longrightarrow> r < n \<Longrightarrow> f c r = g c r) \<Longrightarrow> paint x y w n f pic = paint x y w n g pic"
  by (auto simp: paint_def fun_eq_iff)

context display
begin

text \<open>A drawing loop that reads a buffer paints a rectangle if no read is out of range.\<close>

lemma read_rows_paint:
  assumes "ready s" "TFTLCD_Cmd conf = TFTLCD_commands" "unat x + w \<le> 240" "unat x < 240" "unat y + n \<le> 320"
    and "\<forall>r<n. \<exists>vs. f r = Some (draw_row conf x (y + of_nat r) vs) \<and> length vs = w \<and> (\<forall>c<w. vs ! c = g c r)"
  shows "\<exists>ios. those (map f [0..<n]) = Some ios \<and> pixel (fold step (concat ios) s) = paint (unat x) (unat y) w n g (pixel s) \<and>
    ready (fold step (concat ios) s)"
proof -
  obtain vs where vs: "\<forall>r<n. f r = Some (draw_row conf x (y + of_nat r) (vs r)) \<and> length (vs r) = w \<and> (\<forall>c<w. vs r ! c = g c r)"
    using assms(6) by metis
  have "those (map f [0..<n]) = Some (map (\<lambda>r. draw_row conf x (y + of_nat r) (vs r)) [0..<n])"
    using vs by (intro those_map_Some) simp
  moreover have "paint (unat x) (unat y) w n (\<lambda>c r. vs r ! c) (pixel s) = paint (unat x) (unat y) w n g (pixel s)"
    using vs by (intro paint_cong) simp
  ultimately show ?thesis using rows_paint [OF assms(1-5), of vs] vs by simp
qed

end

section \<open>What is on the screen\<close>

text \<open>C27: A box inside the screen appears as intended: its border all around, its inside in the colour of the box if
  it is solid and unchanged otherwise, and nothing outside changes.\<close>

theorem DrawBox_shows_box:
  assumes "panel_ready p" "TFTLCD_Cmd conf = TFTLCD_commands" "0 < unat (Ele_Line_Width (Ele_Box_Border B))"
    and "unat x + unat (Ele_Box_Width B) + 2 * unat (Ele_Line_Width (Ele_Box_Border B)) \<le> 240"
    and "unat y + unat (Ele_Box_Height B) + 2 * unat (Ele_Line_Height (Ele_Box_Border B)) \<le> 320"
  shows "gram (fold panel_step (DrawBox conf x y B) p) = box_picture (unat x) (unat y) B (gram p) \<and>
    panel_ready (fold panel_step (DrawBox conf x y B) p)"
  using assms by (rule ili.box_paints)

text \<open>A character appears with the foreground colour where its font has a bit and the background colour elsewhere, in
  the low 16 bits of both; a font has 16 columns, further ones get the background. A buffer with less
  than two bytes for each row is read behind its end.\<close>

theorem TFTLCD_Word_shows_glyph:
  assumes "panel_ready p" "TFTLCD_Cmd conf = TFTLCD_commands" "unat x + unat (FontSize W) \<le> 240" "unat x < 240"
    and "unat y + unat (FontSize W) \<le> 320"
  shows "if 2 * unat (FontSize W) \<le> length (WordBuff W)
    then \<exists>ios. TFTLCD_Word conf x y W = Some (ios, W\<lparr>XPix := x, YPix := y\<rparr>) \<and>
      gram (fold panel_step ios p) = paint (unat x) (unat y) (unat (FontSize W)) (unat (FontSize W)) (glyph W) (gram p)
    else TFTLCD_Word conf x y W = None"
proof (cases "2 * unat (FontSize W) \<le> length (WordBuff W)")
  case True
  let ?W = "W\<lparr>XPix := x, YPix := y\<rparr>"
  have "glyph ?W = glyph W" by (simp add: glyph_def fun_eq_iff)
  then have "\<exists>vs. word_row conf ?W r = Some (draw_row conf x (y + of_nat r) vs) \<and> length vs = unat (FontSize W) \<and>
      (\<forall>c<unat (FontSize W). vs ! c = glyph W c r)" if "r < unat (FontSize W)" for r
    using word_row_io [of r ?W conf] True that by simp
  then show ?thesis
    using True ili.read_rows_paint [OF assms, of "word_row conf ?W" "glyph W"] by (auto simp: TFTLCD_Word_def)
next
  case False
  let ?r = "unat (FontSize W) - 1"
  have "?r \<in> set [0..<unat (FontSize W)]" "word_row conf (W\<lparr>XPix := x, YPix := y\<rparr>) ?r = None"
    using False by (auto simp: word_row_def fetch_def split: option.splits)
  then have "those (map (word_row conf (W\<lparr>XPix := x, YPix := y\<rparr>)) [0..<unat (FontSize W)]) = None" by (rule those_map_None)
  then show ?thesis using False by (simp add: TFTLCD_Word_def)
qed

text \<open>A block of colours is copied row by row into the rectangle from its start to its end, both included.\<close>

theorem TFTLCD_DrawBlock_copies:
  assumes "panel_ready p" "TFTLCD_Cmd conf = TFTLCD_commands" "sx \<le> ex" "unat ex < 240" "sy \<le> ey" "unat ey < 320"
    and "(unat ey - unat sy + 1) * (unat ex - unat sx + 1) \<le> length buff"
  shows "\<exists>ios. TFTLCD_DrawBlock conf sx sy ex ey buff = Some ios \<and>
    gram (fold panel_step ios p) = paint (unat sx) (unat sy) (unat ex - unat sx + 1) (unat ey - unat sy + 1)
      (\<lambda>c r. ucast (buff ! (r * (unat ex - unat sx + 1) + c))) (gram p)"
proof -
  define w h where "w = unat ex - unat sx + 1" and "h = unat ey - unat sy + 1"
  have le: "unat sx \<le> unat ex" "unat sy \<le> unat ey" using assms(3,5) by (simp_all add: word_le_nat_alt)
  have len: "h * w \<le> length buff" using assms(7) by (simp only: w_def h_def)
  have u: "unat (ex - sx + 1) = w" "unat (ey - sy + 1) = h"
    using assms(3-6) le by (simp_all add: w_def h_def unat_word_ariths unat_sub)
  have "\<exists>vs. block_row conf sx sy buff w r = Some (draw_row conf sx (sy + of_nat r) vs) \<and> length vs = w \<and>
      (\<forall>c<w. vs ! c = ucast (buff ! (r * w + c)))" if "r < h" for r
  proof -
    have "those (map (\<lambda>j. fetch buff (r * w + j)) [0..<w]) = Some (map (\<lambda>j. buff ! (r * w + j)) [0..<w])"
      using less_le_trans [OF block_index [OF that] len] by (intro those_map_Some ballI) (simp add: fetch_def)
    then show ?thesis
      by (intro exI [of _ "map (ucast \<circ> (\<lambda>j. buff ! (r * w + j))) [0..<w]"]) (simp add: block_row_def)
  qed
  then show ?thesis
    using ili.read_rows_paint [OF assms(1,2), of sx w sy h "block_row conf sx sy buff w" "\<lambda>c r. ucast (buff ! (r * w + c))"]
      assms(4,6) le by (auto simp: TFTLCD_DrawBlock_def Let_def u w_def h_def)
qed

lemma other_command:
  assumes "c \<noteq> 0x2A" "c \<noteq> 0x2B" "c \<noteq> 0x2C"
  shows "fold panel_step (setup_io (c, ds)) p = p\<lparr>command := c, params := ds\<rparr>"
proof -
  have "fold panel_step (map RAM ds) (p\<lparr>command := c, params := ps\<rparr>) = p\<lparr>command := c, params := ps @ ds\<rparr>" for ps
    using assms by (induction ds arbitrary: ps) (simp_all add: set_window_def)
  from this [of "[]"] assms(3) show ?thesis by (simp add: setup_io_def)
qed

lemma other_commands:
  assumes "\<forall>(c, ds)\<in>set cs. c \<noteq> 0x2A \<and> c \<noteq> 0x2B \<and> c \<noteq> 0x2C"
  shows "panel_ready (fold panel_step (concat (map setup_io cs)) p) = panel_ready p"
  using assms
proof (induction cs arbitrary: p)
  case (Cons a cs)
  then show ?case by (cases a) (simp add: other_command panel_ready_def)
qed simp

lemma ILI9341_Init_ready: "panel_ready (fold panel_step ILI9341_Init p)"
proof -
  define P S where "P = take 18 ILI9341_setup" and "S = drop 20 ILI9341_setup"
  have P: "\<forall>(c, ds)\<in>set P. c \<noteq> 0x2A \<and> c \<noteq> 0x2B \<and> c \<noteq> 0x2C" "\<forall>(c, ds)\<in>set S. c \<noteq> 0x2A \<and> c \<noteq> 0x2B \<and> c \<noteq> 0x2C"
    by (simp_all add: P_def S_def ILI9341_setup_def)
  have w: "panel_ready (fold panel_step (setup_io (0x2A, [0x00, 0x00, 0x00, 0xEF])) (fold panel_step (setup_io (0x2B, [0x00, 0x00, 0x01, 0x3F])) q))" for q
    by (simp add: setup_io_def set_window_def panel_ready_def)
  have parts: "ILI9341_setup = P @ [(0x2B, [0x00, 0x00, 0x01, 0x3F]), (0x2A, [0x00, 0x00, 0x00, 0xEF])] @ S"
    by (simp add: P_def S_def ILI9341_setup_def)
  have "fold panel_step ILI9341_Init p = fold panel_step (concat (map setup_io S))
      (fold panel_step (setup_io (0x2A, [0x00, 0x00, 0x00, 0xEF])) (fold panel_step (setup_io (0x2B, [0x00, 0x00, 0x01, 0x3F]))
        (fold panel_step (concat (map setup_io P)) p)))"
    unfolding ILI9341_Init_def by (subst parts) simp
  then show ?thesis using other_commands [OF P(2)] w by simp
qed

text \<open>The coordinate that the two bytes sent by \<open>TFTLCD_SetWindow\<close> announce.\<close>

definition announced :: "UNS16 \<Rightarrow> nat" where
  "announced v = word_of_bytes [gt8 v, v AND 0xFF]"

lemma SetWindow_panel:
  assumes "TFTLCD_Cmd conf = TFTLCD_commands"
  shows "\<exists>c ps. fold panel_step (TFTLCD_SetWindow conf sx ex sy ey) p =
    p\<lparr>sc := announced sx, sp := announced sy, ec := if announced ex < 240 then announced ex else ec p,
      ep := if announced ey < 320 then announced ey else ep p, command := c, params := ps\<rparr>"
  using assms
  by (intro exI [of _ "0x2B"] exI [of _ "[gt8 sy, sy AND 0xFF, gt8 ey, ey AND 0xFF]"])
    (simp add: TFTLCD_SetWindow_def TFTLCD_REG_def TFTLCD_commands_def set_window_def Let_def announced_def)

lemma announced_value: "unat v < 512 \<Longrightarrow> announced v = unat v + (if 8 < unat v \<and> unat v < 256 then 256 else 0)"
proof -
  assume "unat v < 512"
  then have "unat v mod 256 = (if unat v < 256 then unat v else unat v - 256)" by (simp add: mod_if)
  with \<open>unat v < 512\<close> show ?thesis by (auto simp: gt8_def announced_def and_255 unat_mod word_less_nat_alt)
qed

text \<open>\<open>TFTLCD_SetWindow\<close> compares with 8 where it should shift by 8. It announces 256 too much for every coordinate from 9 to
  255: the start of a window is wrong for all of them, and the controller ignores the end column.\<close>

theorem SetWindow_compares:
  assumes "TFTLCD_Cmd conf = TFTLCD_commands" "unat sx < 240" "unat ex < 240" "unat sy < 320" "unat ey < 320"
  shows "let q = fold panel_step (TFTLCD_SetWindow conf sx ex sy ey) p
    in sc q = unat sx + (if 8 < unat sx then 256 else 0) \<and> ec q = (if 8 < unat ex then ec p else unat ex) \<and>
      sp q = unat sy + (if 8 < unat sy \<and> unat sy < 256 then 256 else 0)"
  using SetWindow_panel [OF assms(1), of sx ex sy ey p] assms(2-5)
  by (auto simp: announced_value Let_def)

lemma white: "RGB_To_U16 0xFFFFFF = 0xFFFF"
  by (simp add: RGB_To_U16_def)

text \<open>Whatever state the controller is in, after \<open>TFTLCD_Init\<close> the whole screen is white and the window ends at the last
  column and row, although the end column that \<open>TFTLCD_SetWindow\<close> announces is 495.\<close>

theorem TFTLCD_Init_clears:
  "let (ios, conf) = TFTLCD_Init rd conf0; q = fold panel_step ios p
   in panel_ready q \<and> (\<forall>i j. i < 240 \<and> j < 320 \<longrightarrow> gram q i j = 0xFFFF) \<and>
     TFTLCD_Cmd conf = TFTLCD_commands \<and> TFTLCD_Id conf = push_bit 8 (rd 2) OR rd 3"
proof -
  define conf where "conf = conf0\<lparr>TFTLCD_Dir := 0, TFTLCD_Height := 320, TFTLCD_Width := 240, TFTLCD_Cmd := TFTLCD_commands,
      TFTLCD_Id := push_bit 8 (rd 2) OR rd 3\<rparr>"
  define n :: nat where "n = 320 * 240"
  define pre where "pre = TFTLCD_REG 0xD3 # ILI9341_Init @ TFTLCD_SetScanDir conf 0 @ TFTLCD_SetWindow conf 0 239 0 319"
  have c: "TFTLCD_Cmd conf = TFTLCD_commands" by (simp add: conf_def)
  have conf: "TFTLCD_Init rd conf0 = (pre @ draw_row conf 0 0 (replicate n 0xFFFF), conf)"
    by (simp add: TFTLCD_Init_def TFTLCD_ReadDeviceId_def Let_def pre_def TFTLCD_Clear_def white TFTLCD_commands_def conf_def n_def)
  have dir: "panel_ready (fold panel_step (TFTLCD_SetScanDir conf 0) x)" if "panel_ready x" for x
    using that c other_command [of "0x36" "[0]" x]
    by (simp add: TFTLCD_SetScanDir_def TFTLCD_WriteRAM_def TFTLCD_commands_def panel_ready_def setup_io_def)
  have win: "panel_ready (fold panel_step (TFTLCD_SetWindow conf 0 239 0 319) x)" if "panel_ready x" for x
    using that SetWindow_panel [OF c, of 0 239 0 319 x] by (auto simp: panel_ready_def announced_value)
  define q where "q = fold panel_step pre p"
  have q: "panel_ready q"
    unfolding q_def pre_def by (simp add: win dir ILI9341_Init_ready)
  have io: "draw_row conf 0 0 (replicate n 0xFFFF) = cursor_io 0 0 @ map RAM (replicate n 0xFFFF)" by (rule draw_row_io [OF c])
  have g: "gram (fold panel_step (draw_row conf 0 0 (replicate n 0xFFFF)) q) = filled 0 0 (replicate n 0xFFFF) (gram q)"
    unfolding io using ili.fill [OF q, of 0 0 "replicate n 0xFFFF"] by (simp add: n_def)
  have r: "panel_ready (fold panel_step (draw_row conf 0 0 (replicate n 0xFFFF)) q)"
    unfolding io using ili.fill_ready [OF q, of 0 0 "replicate n 0xFFFF"] by simp
  have "filled 0 0 (replicate n 0xFFFF) (gram q) i j = 0xFFFF" if "i < 240" "j < 320" for i j
    using that by (simp add: filled_def n_def)
  with g r c show ?thesis by (simp add: conf Let_def q_def conf_def)
qed

section \<open>The properties at a concrete display\<close>

definition blank :: panel where
  "blank = \<lparr>sc = 0, ec = 239, sp = 0, ep = 319, col = 0, row = 0, command = 0, params = [], gram = \<lambda>i j. 0\<rparr>"

definition lcd_conf :: TFTLCD_Config where
  "lcd_conf = \<lparr>TFTLCD_Width = 240, TFTLCD_Height = 320, TFTLCD_Id = 0x9341, TFTLCD_Dir = 0, TFTLCD_Cmd = TFTLCD_commands\<rparr>"

definition red_box :: Ele_Box_PropType where
  "red_box = \<lparr>Ele_Box_Width = 5, Ele_Box_Height = 7, Ele_Box_Color = 0xFF0000, Ele_Box_IsSolid = 1,
     Ele_Box_Border = \<lparr>Ele_Line_Width = 2, Ele_Line_Height = 3, Ele_Line_Type = 0, Ele_Line_Color = 0xFFFFFF\<rparr>\<rparr>"

definition letter :: TFTLCD_Word_PropType where
  "letter = \<lparr>XPix = 0, YPix = 0, FontSize = 2, FontType = 0, FontFg = 0xF800, FontBg = 0xFFFF, WordBuff = [0x40, 0, 0x80, 0]\<rparr>"

lemmas display_demo = blank_def lcd_conf_def panel_ready_def

theorem RGB_To_U16_fields_witness: "unat (RGB_To_U16 0xFF8000) = 31 + 32 * 31"
proof -
  have "RGB_To_U16 (of_nat (65536 * 255 + 256 * 128 + 0)) = RGB_To_U16 0xFF8000" by simp
  then show ?thesis using RGB_To_U16_fields [of 255 128 0] by simp
qed

theorem DrawBox_shows_box_witness:
  "gram (fold panel_step (DrawBox lcd_conf 10 20 red_box) blank) 13 24 = 0x1F \<and>
   gram (fold panel_step (DrawBox lcd_conf 10 20 red_box) blank) 11 24 = 0xFFFF \<and>
   gram (fold panel_step (DrawBox lcd_conf 10 20 red_box) blank) 9 24 = 0"
proof -
  have "gram (fold panel_step (DrawBox lcd_conf 10 20 red_box) blank) = box_picture 10 20 red_box (\<lambda>i j. 0)"
    using DrawBox_shows_box [of blank lcd_conf red_box 10 20] by (simp add: display_demo red_box_def)
  then show ?thesis by (simp add: box_picture_def red_box_def RGB_To_U16_def)
qed

theorem TFTLCD_Word_shows_glyph_witness:
  "\<exists>ios. TFTLCD_Word lcd_conf 100 50 letter = Some (ios, letter\<lparr>XPix := 100, YPix := 50\<rparr>) \<and>
     gram (fold panel_step ios blank) 101 50 = 0xF800 \<and> gram (fold panel_step ios blank) 100 50 = 0xFFFF"
proof -
  obtain ios where ios: "TFTLCD_Word lcd_conf 100 50 letter = Some (ios, letter\<lparr>XPix := 100, YPix := 50\<rparr>)"
      "gram (fold panel_step ios blank) = paint 100 50 2 2 (glyph letter) (\<lambda>i j. 0)"
    using TFTLCD_Word_shows_glyph [of blank lcd_conf 100 letter 50] by (auto simp: display_demo letter_def)
  moreover have "bit (0x40 :: UNS8) 6" "\<not> bit (0x40 :: UNS8) 7" by simp_all
  ultimately show ?thesis by (intro exI [of _ ios]) (simp add: paint_def glyph_def letter_def)
qed

theorem TFTLCD_DrawBlock_copies_witness:
  "\<exists>ios. TFTLCD_DrawBlock lcd_conf 5 6 6 7 [11, 12, 13, 14] = Some ios \<and>
     gram (fold panel_step ios blank) 5 7 = 13 \<and> gram (fold panel_step ios blank) 7 7 = 0"
  using TFTLCD_DrawBlock_copies [of blank lcd_conf 5 6 6 7 "[11, 12, 13, 14]"] by (auto simp: display_demo paint_def)

theorem SetWindow_compares_witness:
  "sc (fold panel_step (TFTLCD_SetWindow lcd_conf 20 100 0 100) blank) = 276 \<and>
   ec (fold panel_step (TFTLCD_SetWindow lcd_conf 20 100 0 100) blank) = 239"
  using SetWindow_compares [of lcd_conf 20 100 0 100 blank] by (simp add: display_demo Let_def)

theorem TFTLCD_Init_clears_witness:
  "gram (fold panel_step (fst (TFTLCD_Init (\<lambda>_. 0) lcd_conf)) blank) 239 319 = 0xFFFF"
  using TFTLCD_Init_clears [of "\<lambda>_. 0" lcd_conf blank] by (simp add: split_beta Let_def)

end
