(* ===== verification/I2cBus.thy ===== *)
theory I2cBus
  imports Prelude "HOL-Library.State_Monad"
begin

text \<open>
  The bit-banged I2C master of \<^verbatim>\<open>Main/src/i2c.c\<close>. What the driver does to its two pins is a list of
  \<open>pin_event\<close>s in the order of the source: the direction of SDA, the levels written to SCL and SDA, and the levels
  read from SDA. The device at the other end is the parameter \<open>slave\<close>: the level it puts on SDA, given everything that
  happened on the wires before. The functions are programs of the state monad over that list; the delays between
  the pin accesses are left out.

  A decoder (\<open>line_step\<close>) reads the events as the I2C specification does: a data bit is
  the level of SDA during one pulse of SCL, a change of SDA while SCL is high is a start or a stop condition. The theorems
  say which symbols each function puts on the bus.
\<close>

section \<open>The pins and the functions of the driver\<close>

datatype pin_event = Mode_Tx | Mode_Rx | Scl bool | Sda bool | Sample bool

type_synonym slave = "pin_event list \<Rightarrow> bool"
type_synonym 'a i2c = "(pin_event list, 'a) state"

definition pin :: "pin_event \<Rightarrow> unit i2c" where
  "pin e = State (\<lambda>w. ((), w @ [e]))"

definition IIC_Mode_Tx :: "unit i2c" where "IIC_Mode_Tx = pin Mode_Tx"
definition IIC_Mode_Rx :: "unit i2c" where "IIC_Mode_Rx = pin Mode_Rx"

text \<open>The pins are bit-band addresses: a write stores bit 0 of the value.\<close>

definition IIC_SCL :: "int \<Rightarrow> unit i2c" where "IIC_SCL v = pin (Scl (odd v))"
definition IIC_SDA_OUT :: "int \<Rightarrow> unit i2c" where "IIC_SDA_OUT v = pin (Sda (odd v))"

definition IIC_SDA_IN :: "slave \<Rightarrow> bool i2c" where
  "IIC_SDA_IN slave = State (\<lambda>w. (slave w, w @ [Sample (slave w)]))"

definition IIC_Start :: "unit i2c" where
  "IIC_Start = do {
     IIC_Mode_Tx;
     IIC_SDA_OUT 1;
     IIC_SCL 1;
     IIC_SDA_OUT 0;
     IIC_SCL 0 }"

definition IIC_Stop :: "unit i2c" where
  "IIC_Stop = do {
     IIC_Mode_Tx;
     IIC_SCL 0;
     IIC_SDA_OUT 0;
     IIC_SCL 1;
     IIC_SDA_OUT 1 }"

definition IIC_TxReply :: "UNS8 \<Rightarrow> unit i2c" where
  "IIC_TxReply Res = do {
     IIC_SCL 0;
     IIC_Mode_Tx;
     IIC_SDA_OUT (1 - uint Res);
     IIC_SCL 1;
     IIC_SCL 0 }"

text \<open>The wait for the acknowledgement: \<open>ReplyTime\<close> is a byte, and the loop gives up when it passes 250.\<close>

function rx_wait :: "slave \<Rightarrow> UNS8 \<Rightarrow> bool i2c" where
  "rx_wait slave ReplyTime = do {
     b \<leftarrow> IIC_SDA_IN slave;
     if \<not> b then do { IIC_SCL 0; State_Monad.return True }
     else if ReplyTime + 1 > 250 then do { IIC_Stop; State_Monad.return False }
     else rx_wait slave (ReplyTime + 1) }"
  by pat_completeness auto

lemma wait_measure: "\<not> (250::UNS8) < r + 1 \<Longrightarrow> unat (250 - (r + 1)) < unat (250 - r)"
proof -
  assume "\<not> (250::UNS8) < r + 1"
  then have "r \<noteq> 250" by auto
  then have "250 - r \<noteq> 0" by simp
  then show ?thesis by (metis add.commute diff_diff_eq2 diff_add_eq_diff_diff_swap measure_unat)
qed

termination rx_wait
  by (relation "measure (\<lambda>(slave, r). unat (250 - r))") (auto dest: wait_measure)

declare rx_wait.simps [simp del]

definition IIC_RxReply :: "slave \<Rightarrow> bool i2c" where
  "IIC_RxReply slave = do {
     IIC_Mode_Rx;
     IIC_SDA_OUT 1;
     IIC_SCL 1;
     rx_wait slave 0 }"

function send_bits :: "nat \<Rightarrow> UNS8 \<Rightarrow> unit i2c" where
  "send_bits Bit Data =
     (if Bit < 8 then do {
        IIC_SDA_OUT (uint (drop_bit 7 (Data AND 0x80)));
        IIC_SCL 1;
        IIC_SCL 0;
        send_bits (Bit + 1) (push_bit 1 Data) }
      else State_Monad.return ())"
  by pat_completeness auto
termination send_bits by (relation "measure (\<lambda>(Bit, Data). 8 - Bit)") auto

declare send_bits.simps [simp del]

definition IIC_Send_Byte :: "slave \<Rightarrow> UNS8 \<Rightarrow> bool i2c" where
  "IIC_Send_Byte slave Data = do {
     IIC_Mode_Tx;
     send_bits 0 Data;
     IIC_RxReply slave }"

text \<open>\<open>RxData\<close> is not initialised in the source; the first parameter of the loop stands for its contents.\<close>

function read_bits :: "slave \<Rightarrow> nat \<Rightarrow> UNS8 \<Rightarrow> UNS8 i2c" where
  "read_bits slave RxIndex RxData =
     (if RxIndex < 8 then do {
        IIC_SCL 0;
        IIC_SCL 1;
        b \<leftarrow> IIC_SDA_IN slave;
        read_bits slave (RxIndex + 1) (push_bit 1 RxData + (if b then 1 else 0)) }
      else State_Monad.return RxData)"
  by pat_completeness auto
termination read_bits by (relation "measure (\<lambda>(slave, RxIndex, RxData). 8 - RxIndex)") auto

declare read_bits.simps [simp del]

definition IIC_Read_Byte :: "slave \<Rightarrow> UNS8 \<Rightarrow> UNS8 \<Rightarrow> UNS8 i2c" where
  "IIC_Read_Byte slave junk IsAck = do {
     IIC_Mode_Rx;
     RxData \<leftarrow> read_bits slave 0 junk;
     IIC_TxReply IsAck;
     State_Monad.return RxData }"

section \<open>What the wires mean\<close>

datatype bus_symbol = B_Start | B_Stop | B_Master bool | B_Slave bool

text \<open>
  The state of the decoder: whether the master drives SDA, the levels it gives SCL and SDA, and the bit of the SCL pulse
  that is under way. While the master does not drive SDA the bit is what it samples there last.
\<close>

record line_state =
  drives :: bool
  scl_high :: bool
  sda_latch :: bool
  slot :: "bus_symbol option"

fun line_step :: "line_state \<times> bus_symbol list \<Rightarrow> pin_event \<Rightarrow> line_state \<times> bus_symbol list" where
  "line_step (l, s) Mode_Tx =
     (if \<not> drives l \<and> scl_high l \<and> \<not> sda_latch l then (l\<lparr>drives := True, slot := None\<rparr>, s @ [B_Start])
      else (l\<lparr>drives := True\<rparr>, s))"
| "line_step (l, s) Mode_Rx =
     (if drives l \<and> scl_high l \<and> \<not> sda_latch l then (l\<lparr>drives := False, slot := None\<rparr>, s @ [B_Stop])
      else (l\<lparr>drives := False\<rparr>, s))"
| "line_step (l, s) (Sda b) =
     (if drives l \<and> scl_high l \<and> sda_latch l \<noteq> b
      then (l\<lparr>sda_latch := b, slot := None\<rparr>, s @ [if b then B_Stop else B_Start])
      else (l\<lparr>sda_latch := b\<rparr>, s))"
| "line_step (l, s) (Scl b) =
     (if b = scl_high l then (l, s)
      else if b then (l\<lparr>scl_high := True, slot := Some (if drives l then B_Master (sda_latch l) else B_Slave True)\<rparr>, s)
      else (l\<lparr>scl_high := False, slot := None\<rparr>, s @ (case slot l of None \<Rightarrow> [] | Some x \<Rightarrow> [x])))"
| "line_step (l, s) (Sample b) =
     (case slot l of Some (B_Slave _) \<Rightarrow> (l\<lparr>slot := Some (B_Slave b)\<rparr>, s) | _ \<Rightarrow> (l, s))"

text \<open>After \<open>IIC_Init\<close> both pins are outputs at high level.\<close>

definition line_init :: line_state where
  "line_init = \<lparr>drives = True, scl_high = True, sda_latch = True, slot = None\<rparr>"

definition decode :: "pin_event list \<Rightarrow> line_state \<times> bus_symbol list" where
  "decode w = foldl line_step (line_init, []) w"

abbreviation symbols_of :: "pin_event list \<Rightarrow> bus_symbol list" where
  "symbols_of w \<equiv> snd (decode w)"

abbreviation line_of :: "pin_event list \<Rightarrow> line_state" where
  "line_of w \<equiv> fst (decode w)"

definition byte_bits :: "UNS8 \<Rightarrow> bool list" where
  "byte_bits b = map (\<lambda>i. bit b (7 - i)) [0..<8]"

definition sent :: "UNS8 \<Rightarrow> bool \<Rightarrow> bus_symbol list" where
  "sent b nack = map B_Master (byte_bits b) @ [B_Slave nack]"

definition received :: "UNS8 \<Rightarrow> bool \<Rightarrow> bus_symbol list" where
  "received b nack = map B_Slave (byte_bits b) @ [B_Master nack]"

text \<open>
  The three states of the line between two calls: idle after a stop, and within a transfer with SCL low.
\<close>

definition idle :: "line_state \<Rightarrow> bool" where
  "idle l \<longleftrightarrow> drives l \<and> scl_high l \<and> sda_latch l \<and> slot l = None"

definition in_transfer :: "line_state \<Rightarrow> bool" where
  "in_transfer l \<longleftrightarrow> \<not> scl_high l \<and> slot l = None"

section \<open>The events of each function\<close>

lemma run_pin [simp]: "run_state (pin e) w = ((), w @ [e])"
  by (simp add: pin_def)

lemma run_SDA_IN [simp]: "run_state (IIC_SDA_IN slave) w = (slave w, w @ [Sample (slave w)])"
  by (simp add: IIC_SDA_IN_def)

lemmas pin_defs = IIC_Mode_Tx_def IIC_Mode_Rx_def IIC_SCL_def IIC_SDA_OUT_def

lemma run_Start: "run_state IIC_Start w = ((), w @ [Mode_Tx, Sda True, Scl True, Sda False, Scl False])"
  by (simp add: IIC_Start_def pin_defs)

lemma run_Stop: "run_state IIC_Stop w = ((), w @ [Mode_Tx, Scl False, Sda False, Scl True, Sda True])"
  by (simp add: IIC_Stop_def pin_defs)

lemma run_TxReply:
  "run_state (IIC_TxReply Res) w = ((), w @ [Scl False, Mode_Tx, Sda (even (uint Res)), Scl True, Scl False])"
  by (simp add: IIC_TxReply_def pin_defs)

definition pulses :: "bool list \<Rightarrow> pin_event list" where
  "pulses bs = concat (map (\<lambda>b. [Sda b, Scl True, Scl False]) bs)"

lemma byte_bits_eq: "byte_bits b = [bit b 7, bit b 6, bit b 5, bit b 4, bit b 3, bit b 2, bit b 1, bit b 0]"
  by (simp add: byte_bits_def upt_rec)

lemma length_byte_bits [simp]: "length (byte_bits b) = 8"
  by (simp add: byte_bits_def)

lemma uint_odd: "odd (uint (x :: 'a::len word)) \<longleftrightarrow> odd x"
  by transfer (simp add: even_take_bit_eq)

lemma top_bit: "odd (uint (drop_bit 7 (x AND (0x80 :: UNS8)))) \<longleftrightarrow> bit x 7"
proof -
  have "bit (0x80 :: UNS8) 7" by simp
  then have "bit (x AND 0x80) 7 = bit x 7" by (simp add: bit_and_iff)
  then show ?thesis by (simp add: bit_iff_odd_drop_bit uint_odd)
qed

lemma send_bits_step:
  "k < 8 \<Longrightarrow> run_state (send_bits k D) w =
     run_state (send_bits (Suc k) (push_bit 1 D)) (w @ [Sda (bit D 7), Scl True, Scl False])"
  by (subst send_bits.simps) (simp add: pin_defs flip: top_bit)

lemma upt_front: "map f [0..<Suc n] = f 0 # map (\<lambda>i. f (Suc i)) [0..<n]"
  by (simp add: upt_conv_Cons map_Suc_upt [symmetric] del: upt_Suc)

lemma run_send_bits_from:
  assumes "n \<le> 8"
  shows "run_state (send_bits (8 - n) D) w = ((), w @ pulses (map (\<lambda>i. bit D (7 - i)) [0..<n]))"
  using assms
proof (induction n arbitrary: D w)
  case 0
  show ?case by (subst send_bits.simps) (simp add: pulses_def)
next
  case (Suc n)
  have sh: "map (\<lambda>i. bit (push_bit 1 D) (7 - i)) [0..<n] = map (\<lambda>i. bit D (7 - Suc i)) [0..<n]"
    using Suc.prems unfolding bit_push_bit_iff by (intro map_cong) auto
  have e: "8 - n = Suc (8 - Suc n)" using Suc.prems by simp
  have "run_state (send_bits (8 - Suc n) D) w =
      run_state (send_bits (8 - n) (push_bit 1 D)) (w @ [Sda (bit D 7), Scl True, Scl False])"
    using send_bits_step [of "8 - Suc n" D w] unfolding e by simp
  moreover have "run_state (send_bits (8 - n) (push_bit 1 D)) w' =
      ((), w' @ pulses (map (\<lambda>i. bit D (7 - Suc i)) [0..<n]))" for w'
    unfolding sh [symmetric] using Suc.prems by (intro Suc.IH) simp
  ultimately show ?case
    unfolding upt_front by (simp only:) (simp add: pulses_def)
qed

lemma run_send_bits: "run_state (send_bits 0 D) w = ((), w @ pulses (byte_bits D))"
  using run_send_bits_from [of 8 D w] by (simp add: byte_bits_def)

text \<open>
  The wait in one formula: the device is asked at most 251 times, and acknowledges when one of the samples is low.
\<close>

definition polls :: "slave \<Rightarrow> pin_event list \<Rightarrow> nat \<Rightarrow> bool" where
  "polls slave w k \<longleftrightarrow> (\<forall>j<k. slave (w @ replicate j (Sample True)))"

lemma polls_Suc: "polls slave w (Suc k) \<longleftrightarrow> slave w \<and> polls slave (w @ [Sample True]) k"
  unfolding polls_def by (auto simp: less_Suc_eq_0_disj)

lemma rx_wait_run:
  assumes "unat r + k = 250"
  shows "(\<exists>j\<le>k. polls slave w j \<and> \<not> slave (w @ replicate j (Sample True)) \<and>
            run_state (rx_wait slave r) w = (True, w @ replicate j (Sample True) @ [Sample False, Scl False])) \<or>
         polls slave w (Suc k) \<and>
            run_state (rx_wait slave r) w =
              (False, w @ replicate (Suc k) (Sample True) @ [Mode_Tx, Scl False, Sda False, Scl True, Sda True])"
  using assms
proof (induction k arbitrary: r w)
  case 0
  then have "r = 250" by (simp add: word_unat_eq_iff)
  then show ?case by (subst (1 2) rx_wait.simps) (simp add: polls_def pin_defs run_Stop)
next
  case (Suc k)
  have r: "unat (r + 1) + k = 250" "\<not> 250 < r + 1"
    using Suc.prems by (simp_all add: unat_word_ariths word_less_nat_alt)
  show ?case
  proof (cases "slave w")
    case False
    then have "run_state (rx_wait slave r) w = (True, w @ [Sample False, Scl False])"
      by (subst rx_wait.simps) (simp add: pin_defs)
    with False show ?thesis by (auto simp: polls_def intro!: exI [of _ 0])
  next
    case True
    have step: "run_state (rx_wait slave r) w = run_state (rx_wait slave (r + 1)) (w @ [Sample True])"
      by (subst rx_wait.simps) (use True r in simp)
    show ?thesis
      using Suc.IH [OF r(1), of "w @ [Sample True]"] True unfolding step polls_Suc [of _ _ "Suc k"]
      by (auto simp: polls_Suc intro: exI [of _ "Suc _"])
  qed
qed

lemma read_bits_step:
  "k < 8 \<Longrightarrow> run_state (read_bits slave k D) w =
     run_state (read_bits slave (Suc k) (push_bit 1 D + (if slave (w @ [Scl False, Scl True]) then 1 else 0)))
       (w @ [Scl False, Scl True, Sample (slave (w @ [Scl False, Scl True]))])"
  by (subst read_bits.simps) (simp add: pin_defs)

definition clocked :: "bool list \<Rightarrow> pin_event list" where
  "clocked bs = concat (map (\<lambda>b. [Scl False, Scl True, Sample b]) bs)"

lemma shift_in: "push_bit 1 (D :: UNS8) + (if b then 1 else 0) = push_bit 1 D OR (if b then 1 else 0)"
proof (cases b)
  case True
  have "push_bit 1 D + 1 = push_bit 1 D OR 1"
    by (rule disjunctive_add) (auto simp only: bit_push_bit_iff bit_1_iff)
  with True show ?thesis by simp
qed simp

lemma bit_shift_in:
  "i < 8 \<Longrightarrow> bit (push_bit 1 (D :: UNS8) + (if b then 1 else 0)) i = (if i = 0 then b else bit D (i - 1))"
  unfolding shift_in bit_or_iff bit_push_bit_iff by (cases b) (auto simp: bit_1_iff)

text \<open>
  Eight rounds shift every bit of the uninitialised variable out and the eight samples in; which samples they are does
  not depend on the variable.
\<close>

fun sampled :: "slave \<Rightarrow> pin_event list \<Rightarrow> nat \<Rightarrow> bool list" where
  "sampled slave w 0 = []"
| "sampled slave w (Suc n) =
     (let b = slave (w @ [Scl False, Scl True]) in b # sampled slave (w @ [Scl False, Scl True, Sample b]) n)"

lemma length_sampled [simp]: "length (sampled slave w n) = n"
  by (induction n arbitrary: w) (auto simp: Let_def)

lemma run_read_bits_from:
  assumes "n \<le> 8"
  shows "\<exists>r. run_state (read_bits slave (8 - n) D) w = (r, w @ clocked (sampled slave w n)) \<and>
     (\<forall>i<8. bit r i = (if i < n then sampled slave w n ! (n - 1 - i) else bit D (i - n)))"
  using assms
proof (induction n arbitrary: D w)
  case 0
  show ?case by (subst read_bits.simps) (simp add: clocked_def)
next
  case (Suc n)
  define b where "b = slave (w @ [Scl False, Scl True])"
  define v where "v = w @ [Scl False, Scl True, Sample b]"
  define D' where "D' = push_bit 1 D + (if b then 1 else 0)"
  have bD': "bit D' i = (if i = 0 then b else bit D (i - 1))" if "i < 8" for i
    unfolding D'_def by (rule bit_shift_in [OF that])
  obtain r where r: "run_state (read_bits slave (8 - n) D') v = (r, v @ clocked (sampled slave v n))"
      "\<forall>i<8. bit r i = (if i < n then sampled slave v n ! (n - 1 - i) else bit D' (i - n))"
    using Suc.IH [of D' v] Suc.prems by auto
  have e: "8 - n = Suc (8 - Suc n)" using Suc.prems by simp
  have s: "sampled slave w (Suc n) = b # sampled slave v n" by (simp add: b_def v_def Let_def)
  have "run_state (read_bits slave (8 - Suc n) D) w = (r, w @ clocked (b # sampled slave v n))"
    using read_bits_step [of "8 - Suc n" slave D w, folded b_def, folded D'_def v_def] r(1)
    unfolding e by (simp add: clocked_def v_def)
  moreover have "bit r i = (if i < Suc n then (b # sampled slave v n) ! (Suc n - 1 - i) else bit D (i - Suc n))"
      if "i < 8" for i
    using that r(2) Suc.prems bD' by (auto simp: nth_Cons' not_less less_Suc_eq)
  ultimately show ?case unfolding s by blast
qed

definition byte_of :: "bool list \<Rightarrow> UNS8" where
  "byte_of bs = horner_sum of_bool 2 (rev bs)"

lemma byte_of_bits [simp]: "byte_of (byte_bits b) = b"
proof -
  have "rev (byte_bits b) = map (bit b) [0..<8]" by (simp add: byte_bits_eq upt_rec numeral_eq_Suc)
  then show ?thesis
    by (simp add: byte_of_def horner_sum_bit_eq_take_bit take_bit_word_eq_self)
qed

lemma byte_bits_inject: "byte_bits a = byte_bits b \<longleftrightarrow> a = b"
  by (metis byte_of_bits)

lemma run_read_bits:
  "run_state (read_bits slave 0 D) w = (byte_of (sampled slave w 8), w @ clocked (sampled slave w 8)) \<and>
   byte_bits (byte_of (sampled slave w 8)) = sampled slave w 8"
proof -
  obtain r where r: "run_state (read_bits slave 0 D) w = (r, w @ clocked (sampled slave w 8))"
      "\<forall>i<8. bit r i = sampled slave w 8 ! (7 - i)"
    using run_read_bits_from [of 8 slave D w] by auto
  have "byte_bits r = sampled slave w 8"
    using r(2) by (auto simp: byte_bits_def intro!: nth_equalityI)
  with r(1) show ?thesis by (metis byte_of_bits)
qed

section \<open>The symbols of each function\<close>

lemma decode_append: "decode (w @ v) = foldl line_step (decode w) v"
  by (simp add: decode_def)

lemma foldl_pulses:
  assumes "in_transfer l" "drives l"
  shows "\<exists>l'. foldl line_step (l, s) (pulses bs) = (l', s @ map B_Master bs) \<and> in_transfer l' \<and> drives l'"
  using assms
proof (induction bs arbitrary: l s)
  case (Cons b bs)
  define l' where "l' = l\<lparr>sda_latch := b\<rparr>"
  have "foldl line_step (l, s) [Sda b, Scl True, Scl False] = (l', s @ [B_Master b])"
    using Cons.prems by (cases l) (auto simp: in_transfer_def l'_def)
  moreover have "in_transfer l'" "drives l'" using Cons.prems by (auto simp: in_transfer_def l'_def)
  ultimately show ?case using Cons.IH [of l' "s @ [B_Master b]"] by (auto simp: pulses_def)
qed (simp add: pulses_def)

lemma foldl_samples:
  "slot l = Some (B_Slave True) \<Longrightarrow> foldl line_step (l, s) (replicate j (Sample True)) = (l, s)"
proof (induction j)
  case (Suc j)
  moreover have "line_step (l, s) (Sample True) = (l, s)" using Suc.prems by (cases l) simp
  ultimately show ?case by (simp only: replicate.simps foldl.simps)
qed simp

lemma foldl_clocked:
  assumes "\<not> drives l" "scl_high l \<longleftrightarrow> slot l \<noteq> None"
  shows "foldl line_step (l, s) (clocked bs @ [Scl False]) =
    (l\<lparr>scl_high := False, slot := None\<rparr>, s @ (case slot l of None \<Rightarrow> [] | Some x \<Rightarrow> [x]) @ map B_Slave bs)"
  using assms
proof (induction bs arbitrary: l s)
  case Nil
  then show ?case by (cases l) (auto simp: clocked_def)
next
  case (Cons b bs)
  define l' where "l' = l\<lparr>scl_high := True, slot := Some (B_Slave b)\<rparr>"
  have "foldl line_step (l, s) [Scl False, Scl True, Sample b] =
      (l', s @ (case slot l of None \<Rightarrow> [] | Some x \<Rightarrow> [x]))"
    using Cons.prems by (cases l) (auto simp: l'_def)
  moreover have "\<not> drives l'" "scl_high l' \<longleftrightarrow> slot l' \<noteq> None" using Cons.prems by (auto simp: l'_def)
  ultimately show ?case using Cons.IH [of l' "s @ (case slot l of None \<Rightarrow> [] | Some x \<Rightarrow> [x])"]
    by (simp add: clocked_def) (simp add: l'_def)
qed

abbreviation result :: "'a i2c \<Rightarrow> pin_event list \<Rightarrow> 'a" where
  "result m w \<equiv> fst (run_state m w)"

abbreviation after :: "'a i2c \<Rightarrow> pin_event list \<Rightarrow> pin_event list" where
  "after m w \<equiv> snd (run_state m w)"

lemma Start_bus:
  assumes "idle (line_of w) \<or> in_transfer (line_of w)"
  shows "symbols_of (after IIC_Start w) = symbols_of w @ [B_Start]"
    "in_transfer (line_of (after IIC_Start w))"
  using assms by (cases "decode w"; cases "line_of w"; auto simp: run_Start decode_append idle_def in_transfer_def)+

lemma Stop_bus:
  assumes "in_transfer (line_of w)"
  shows "symbols_of (after IIC_Stop w) = symbols_of w @ [B_Stop]"
    "idle (line_of (after IIC_Stop w))"
  using assms by (cases "decode w"; cases "line_of w"; auto simp: run_Stop decode_append idle_def in_transfer_def)+

text \<open>The wires when the device is asked for its acknowledgement.\<close>

definition asked :: "UNS8 \<Rightarrow> pin_event list \<Rightarrow> pin_event list" where
  "asked D w = w @ Mode_Tx # pulses (byte_bits D) @ [Mode_Rx, Sda True, Scl True]"

definition acked :: "slave \<Rightarrow> UNS8 \<Rightarrow> pin_event list \<Rightarrow> bool" where
  "acked slave D w \<longleftrightarrow> (\<exists>j\<le>250. \<not> slave (asked D w @ replicate j (Sample True)))"

lemma decode_asked:
  assumes "in_transfer (line_of w)"
  shows "\<exists>l. decode (asked D w) = (l, symbols_of w @ map B_Master (byte_bits D)) \<and>
     \<not> drives l \<and> scl_high l \<and> sda_latch l \<and> slot l = Some (B_Slave True)"
proof -
  obtain l s where l: "decode w = (l, s)" by (cases "decode w")
  have t: "in_transfer (l\<lparr>drives := True\<rparr>)" "\<not> scl_high l" using assms l by (auto simp: in_transfer_def)
  obtain l' where l': "foldl line_step (l\<lparr>drives := True\<rparr>, s) (pulses (byte_bits D)) = (l', s @ map B_Master (byte_bits D))"
      "in_transfer l'" "drives l'"
    using foldl_pulses [OF t(1)] by auto
  show ?thesis using l t l' by (simp add: asked_def decode_append in_transfer_def)
qed

lemma run_Send_Byte:
  "run_state (IIC_Send_Byte slave D) w = run_state (rx_wait slave 0) (asked D w)"
  by (simp add: IIC_Send_Byte_def IIC_RxReply_def pin_defs run_send_bits asked_def)

lemma Send_Byte_cases:
  obtains (ack) j where "acked slave D w" "j \<le> 250"
      "run_state (IIC_Send_Byte slave D) w = (True, asked D w @ replicate j (Sample True) @ [Sample False, Scl False])"
  | (nack) "\<not> acked slave D w"
      "run_state (IIC_Send_Byte slave D) w =
         (False, asked D w @ replicate 251 (Sample True) @ [Mode_Tx, Scl False, Sda False, Scl True, Sda True])"
  using rx_wait_run [of 0 250 slave "asked D w"]
  by (auto simp: run_Send_Byte acked_def polls_def less_Suc_eq_le simp del: replicate.simps replicate_Suc)

lemma Send_Byte_ack:
  assumes "in_transfer (line_of w)" "acked slave D w"
  shows "result (IIC_Send_Byte slave D) w"
    "symbols_of (after (IIC_Send_Byte slave D) w) = symbols_of w @ sent D False"
    "in_transfer (line_of (after (IIC_Send_Byte slave D) w))"
proof -
  obtain l where l: "decode (asked D w) = (l, symbols_of w @ map B_Master (byte_bits D))"
      "\<not> drives l" "scl_high l" "sda_latch l" "slot l = Some (B_Slave True)"
    using decode_asked [OF assms(1)] by blast
  show "result (IIC_Send_Byte slave D) w"
    "symbols_of (after (IIC_Send_Byte slave D) w) = symbols_of w @ sent D False"
    "in_transfer (line_of (after (IIC_Send_Byte slave D) w))"
    using l assms(2)
    by (cases rule: Send_Byte_cases [of slave D w]; simp add: decode_append foldl_samples sent_def in_transfer_def)+
qed

lemma Send_Byte_nack:
  assumes "in_transfer (line_of w)" "\<not> acked slave D w"
  shows "\<not> result (IIC_Send_Byte slave D) w"
    "symbols_of (after (IIC_Send_Byte slave D) w) = symbols_of w @ sent D True @ [B_Stop]"
    "idle (line_of (after (IIC_Send_Byte slave D) w))"
proof -
  obtain l where l: "decode (asked D w) = (l, symbols_of w @ map B_Master (byte_bits D))"
      "\<not> drives l" "scl_high l" "sda_latch l" "slot l = Some (B_Slave True)"
    using decode_asked [OF assms(1)] by blast
  show "\<not> result (IIC_Send_Byte slave D) w"
    "symbols_of (after (IIC_Send_Byte slave D) w) = symbols_of w @ sent D True @ [B_Stop]"
    "idle (line_of (after (IIC_Send_Byte slave D) w))"
    using l assms(2)
    by (cases rule: Send_Byte_cases [of slave D w];
        simp add: decode_append foldl_samples sent_def idle_def del: replicate.simps replicate_Suc)+
qed

lemma Read_Byte_bus:
  fixes slave w
  assumes "in_transfer (line_of w)"
  defines "r \<equiv> byte_of (sampled slave (w @ [Mode_Rx]) 8)"
  shows "result (IIC_Read_Byte slave junk a) w = r"
    "symbols_of (after (IIC_Read_Byte slave junk a) w) = symbols_of w @ received r (even (uint a))"
    "in_transfer (line_of (after (IIC_Read_Byte slave junk a) w))"
proof -
  have run: "run_state (IIC_Read_Byte slave junk a) w =
      (r, (w @ [Mode_Rx]) @ (clocked (byte_bits r) @ [Scl False]) @ [Mode_Tx, Sda (even (uint a)), Scl True, Scl False])"
    using run_read_bits [of slave junk "w @ [Mode_Rx]"]
    by (simp add: IIC_Read_Byte_def IIC_Mode_Rx_def run_TxReply r_def)
  obtain l s where l: "decode w = (l, s)" by (cases "decode w")
  have d: "decode (w @ [Mode_Rx]) = (l\<lparr>drives := False\<rparr>, s)" and t: "\<not> scl_high l" "slot l = None"
    using assms(1) l by (auto simp: decode_append in_transfer_def)
  have "decode ((w @ [Mode_Rx]) @ (clocked (byte_bits r) @ [Scl False])) =
      (l\<lparr>drives := False, scl_high := False, slot := None\<rparr>, s @ map B_Slave (byte_bits r))"
    unfolding decode_append [of "w @ [Mode_Rx]"] d by (subst foldl_clocked) (use t in \<open>auto\<close>)
  with run l show "result (IIC_Read_Byte slave junk a) w = r"
    "symbols_of (after (IIC_Read_Byte slave junk a) w) = symbols_of w @ received r (even (uint a))"
    "in_transfer (line_of (after (IIC_Read_Byte slave junk a) w))"
    unfolding run by (simp_all only: append_assoc [symmetric] decode_append snd_conv fst_conv)
      (simp_all add: received_def in_transfer_def)
qed

section \<open>What a byte transfer does\<close>

text \<open>Within a transfer \<open>IIC_Send_Byte\<close> puts the eight bits of the byte on the bus, most significant first, and leaves
  the ninth bit to the device. It answers \<open>True\<close> exactly if one of at most 251 samples of SDA is low, and the transfer goes
  on; otherwise it has sent a stop condition and the bus is idle.\<close>

theorem send_byte_on_bus:
  assumes "in_transfer (line_of w)"
  shows "if \<exists>j\<le>250. \<not> slave (asked Data w @ replicate j (Sample True))
    then result (IIC_Send_Byte slave Data) w \<and>
      symbols_of (after (IIC_Send_Byte slave Data) w) = symbols_of w @ sent Data False \<and>
      in_transfer (line_of (after (IIC_Send_Byte slave Data) w))
    else \<not> result (IIC_Send_Byte slave Data) w \<and>
      symbols_of (after (IIC_Send_Byte slave Data) w) = symbols_of w @ sent Data True @ [B_Stop] \<and>
      idle (line_of (after (IIC_Send_Byte slave Data) w))"
  using Send_Byte_ack [OF assms] Send_Byte_nack [OF assms] by (simp add: acked_def)

text \<open>Within a transfer \<open>IIC_Read_Byte\<close> returns the byte the device put on the bus, answers it with the
  acknowledgement it was asked for (a one means acknowledge) and leaves the transfer open. The uninitialised variable of
  the source has no effect.\<close>

theorem read_byte_from_bus:
  assumes "in_transfer (line_of w)"
  shows "symbols_of (after (IIC_Read_Byte slave junk IsAck) w) =
      symbols_of w @ received (result (IIC_Read_Byte slave junk IsAck) w) (even (uint IsAck)) \<and>
    in_transfer (line_of (after (IIC_Read_Byte slave junk IsAck) w)) \<and>
    run_state (IIC_Read_Byte slave junk IsAck) w = run_state (IIC_Read_Byte slave junk' IsAck) w"
  using Read_Byte_bus [OF assms, of slave] run_read_bits [of slave _ "w @ [Mode_Rx]"]
  by (simp add: IIC_Read_Byte_def IIC_Mode_Rx_def)

lemma started: "in_transfer (line_of (after IIC_Start []))"
  by (rule Start_bus) (simp add: decode_def line_init_def idle_def)

theorem send_byte_on_bus_witness:
  "result (IIC_Send_Byte (\<lambda>w. False) 0xA0) (after IIC_Start []) \<and>
   symbols_of (after (IIC_Send_Byte (\<lambda>w. False) 0xA0) (after IIC_Start [])) =
     [B_Start, B_Master True, B_Master False, B_Master True, B_Master False, B_Master False,
      B_Master False, B_Master False, B_Master False, B_Slave False]"
proof -
  have "symbols_of (after IIC_Start []) = [B_Start]"
    using Start_bus(1) [of "[]"] by (simp add: decode_def line_init_def idle_def)
  moreover have w: "\<exists>j\<le>250::nat. \<not> False" by blast
  ultimately show ?thesis using send_byte_on_bus [OF started, of "\<lambda>w. False" "0xA0"]
    unfolding if_P [OF w] by (simp add: sent_def byte_bits_eq)
qed

theorem read_byte_from_bus_witness:
  "in_transfer (line_of (after (IIC_Read_Byte (\<lambda>w. True) 7 0) (after IIC_Start []))) \<and>
   run_state (IIC_Read_Byte (\<lambda>w. True) 7 0) (after IIC_Start []) =
     run_state (IIC_Read_Byte (\<lambda>w. True) 0 0) (after IIC_Start [])"
  using read_byte_from_bus [OF started, of "\<lambda>w. True" 7 0 0] by blast

end
