(* ===== verification/I2cDevices.thy ===== *)
theory I2cDevices
  imports I2cBus
begin

text \<open>
  The two devices on the I2C bus of the board: the EEPROM of \<^verbatim>\<open>Main/src/at24c02.c\<close> and the motion sensor
  of \<^verbatim>\<open>Main/src/mpu6050.c\<close>, over the driver of \<open>I2cBus\<close>. A pointer to the data to send is the function of the
  bytes behind it; a receive buffer is the list of the bytes stored in it, from the first cell on.
  \<open>MPU6050_GetTemperature\<close> computes in floating point and is left out.

  What an EEPROM answers is a hypothesis (\<open>eeprom\<close>), after the data sheet of the device: it acknowledges every byte sent
  to it, and a read of an address delivers the byte last written there.
\<close>

section \<open>The EEPROM driver\<close>

abbreviation (input) IIC_DATA_SIZE_MAX :: UNS8 where "IIC_DATA_SIZE_MAX \<equiv> 32"

text \<open>The two address bytes; the sums are \<open>int\<close>s and the argument of \<open>IIC_Send_Byte\<close> is a byte.\<close>

definition at24_device :: "UNS16 \<Rightarrow> UNS8 \<Rightarrow> UNS8" where
  "at24_device Addr Index = word_of_int (0xA0 + push_bit 1 ((uint Addr + uint Index) div 256))"

definition at24_address :: "UNS16 \<Rightarrow> UNS8 \<Rightarrow> UNS8" where
  "at24_address Addr Index = word_of_int ((uint Addr + uint Index) mod 256)"

lemma index_Suc: "Index < (TxLen :: UNS8) \<Longrightarrow> unat (Index + 1) = Suc (unat Index)"
  using unsigned_less [of TxLen, where ?'a = nat] by (simp add: word_less_nat_alt unat_word_ariths)

lemma index_measure: "Index < TxLen \<Longrightarrow> unat TxLen - unat (Index + 1) < unat TxLen - unat (Index :: UNS8)"
  by (simp add: index_Suc) (simp add: word_less_nat_alt)

function at24_tx_loop :: "slave \<Rightarrow> (nat \<Rightarrow> UNS8) \<Rightarrow> UNS16 \<Rightarrow> UNS8 \<Rightarrow> UNS8 \<Rightarrow> bool \<Rightarrow> bool i2c" where
  "at24_tx_loop slave Data Addr TxLen Index Res =
     (if Index < TxLen \<and> Res then do {
        IIC_Start;
        Res1 \<leftarrow> IIC_Send_Byte slave (at24_device Addr Index);
        Res2 \<leftarrow> IIC_Send_Byte slave (at24_address Addr Index);
        Res3 \<leftarrow> IIC_Send_Byte slave (Data (unat Index));
        IIC_Stop;
        at24_tx_loop slave Data Addr TxLen (Index + 1) Res3 }
      else State_Monad.return Res)"
  by pat_completeness auto
termination at24_tx_loop
  by (relation "measure (\<lambda>(slave, Data, Addr, TxLen, Index, Res). unat TxLen - unat Index)") (auto simp: index_measure)

declare at24_tx_loop.simps [simp del]

text \<open>The guard of the source compares \<open>sizeof(Data)\<close>, the size of the pointer.\<close>

definition AT24C02_Tx_Data :: "slave \<Rightarrow> (nat \<Rightarrow> UNS8) \<Rightarrow> UNS16 \<Rightarrow> UNS8 \<Rightarrow> bool i2c" where
  "AT24C02_Tx_Data slave Data Addr TxLen =
     (if (4 :: UNS8) > IIC_DATA_SIZE_MAX then State_Monad.return False
      else at24_tx_loop slave Data Addr TxLen 0 True)"

function at24_rx_loop ::
  "slave \<Rightarrow> UNS8 \<Rightarrow> UNS8 list \<Rightarrow> UNS16 \<Rightarrow> UNS8 \<Rightarrow> UNS8 \<Rightarrow> bool \<Rightarrow> (bool \<times> UNS8 list) i2c" where
  "at24_rx_loop slave junk Buff Addr RxLen Index Res =
     (if Index < RxLen \<and> Res then do {
        IIC_Start;
        Res1 \<leftarrow> IIC_Send_Byte slave (at24_device Addr Index);
        Res2 \<leftarrow> IIC_Send_Byte slave (at24_address Addr Index);
        IIC_Start;
        Res3 \<leftarrow> IIC_Send_Byte slave 0xA1;
        b \<leftarrow> IIC_Read_Byte slave junk 0;
        IIC_Stop;
        at24_rx_loop slave junk (Buff @ [b]) Addr RxLen (Index + 1) Res3 }
      else State_Monad.return (Res, Buff))"
  by pat_completeness auto
termination at24_rx_loop
  by (relation "measure (\<lambda>(slave, junk, Buff, Addr, RxLen, Index, Res). unat RxLen - unat Index)") (auto simp: index_measure)

declare at24_rx_loop.simps [simp del]

definition AT24C02_Rx_Data :: "slave \<Rightarrow> UNS8 \<Rightarrow> UNS16 \<Rightarrow> UNS8 \<Rightarrow> (bool \<times> UNS8 list) i2c" where
  "AT24C02_Rx_Data slave junk Addr RxLen =
     (if RxLen > IIC_DATA_SIZE_MAX then State_Monad.return (False, [])
      else at24_rx_loop slave junk [] Addr RxLen 0 True)"

section \<open>The motion sensor driver\<close>

abbreviation (input) MPU6050_DEV_ADDR :: UNS8 where "MPU6050_DEV_ADDR \<equiv> 0x68"
abbreviation (input) MPU6050_WRITE_CMD :: UNS8 where "MPU6050_WRITE_CMD \<equiv> 0"
abbreviation (input) MPU6050_READ_CMD :: UNS8 where "MPU6050_READ_CMD \<equiv> 1"
abbreviation (input) MPU6050_RESET_CMD :: UNS8 where "MPU6050_RESET_CMD \<equiv> 8"
abbreviation (input) MPU6050_SAMPLE_RATE_REG :: UNS16 where "MPU6050_SAMPLE_RATE_REG \<equiv> 0x19"
abbreviation (input) MPU6050_CFG_REG :: UNS16 where "MPU6050_CFG_REG \<equiv> 0x1A"
abbreviation (input) MPU6050_GYRO_CFG_REG :: UNS16 where "MPU6050_GYRO_CFG_REG \<equiv> 0x1B"
abbreviation (input) MPU6050_ACCEL_CFG_REG :: UNS16 where "MPU6050_ACCEL_CFG_REG \<equiv> 0x1C"
abbreviation (input) MPU6050_ACCEL_XOUTH_REG :: UNS16 where "MPU6050_ACCEL_XOUTH_REG \<equiv> 0x3B"
abbreviation (input) MPU6050_GYRO_XOUTH_REG :: UNS16 where "MPU6050_GYRO_XOUTH_REG \<equiv> 0x43"
abbreviation (input) MPU6050_PWR_MGMT1_REG :: UNS16 where "MPU6050_PWR_MGMT1_REG \<equiv> 0x6B"

text \<open>The byte that addresses the device, with the direction in its last bit.\<close>

definition mpu_address :: "UNS8 \<Rightarrow> UNS8" where
  "mpu_address cmd = push_bit 1 MPU6050_DEV_ADDR OR cmd"

function mpu_tx_loop :: "slave \<Rightarrow> (nat \<Rightarrow> UNS8) \<Rightarrow> UNS8 \<Rightarrow> UNS8 \<Rightarrow> bool \<Rightarrow> bool i2c" where
  "mpu_tx_loop slave Data TxLen Index Res =
     (if Index < TxLen \<and> Res then do {
        Res1 \<leftarrow> IIC_Send_Byte slave (Data (unat Index));
        mpu_tx_loop slave Data TxLen (Index + 1) Res1 }
      else State_Monad.return Res)"
  by pat_completeness auto
termination mpu_tx_loop
  by (relation "measure (\<lambda>(slave, Data, TxLen, Index, Res). unat TxLen - unat Index)") (auto simp: index_measure)

declare mpu_tx_loop.simps [simp del]

text \<open>Both transfer functions start alike; \<open>Addr\<close> is truncated to a byte by the call.\<close>

definition mpu_open :: "slave \<Rightarrow> UNS16 \<Rightarrow> bool i2c" where
  "mpu_open slave Addr = do {
     IIC_Start;
     Res1 \<leftarrow> IIC_Send_Byte slave (mpu_address MPU6050_WRITE_CMD);
     Res2 \<leftarrow> IIC_Send_Byte slave (ucast Addr);
     IIC_Send_Byte slave (mpu_address MPU6050_READ_CMD) }"

definition MPU6050_Tx_Data :: "slave \<Rightarrow> (nat \<Rightarrow> UNS8) \<Rightarrow> UNS16 \<Rightarrow> UNS8 \<Rightarrow> bool i2c" where
  "MPU6050_Tx_Data slave Data Addr TxLen = do {
     Res \<leftarrow> mpu_open slave Addr;
     if \<not> Res then do { IIC_Stop; State_Monad.return False }
     else do {
       Res' \<leftarrow> mpu_tx_loop slave Data TxLen 0 Res;
       IIC_Stop;
       State_Monad.return Res' } }"

function mpu_rx_loop :: "slave \<Rightarrow> UNS8 \<Rightarrow> UNS8 list \<Rightarrow> UNS8 \<Rightarrow> UNS8 \<Rightarrow> UNS8 list i2c" where
  "mpu_rx_loop slave junk Buff RxLen Index =
     (if Index < RxLen then do {
        b \<leftarrow> (if Index \<noteq> 1 then IIC_Read_Byte slave junk 1 else IIC_Read_Byte slave junk 0);
        mpu_rx_loop slave junk (Buff @ [b]) RxLen (Index + 1) }
      else State_Monad.return Buff)"
  by pat_completeness auto
termination mpu_rx_loop
  by (relation "measure (\<lambda>(slave, junk, Buff, RxLen, Index). unat RxLen - unat Index)") (auto simp: index_measure)

declare mpu_rx_loop.simps [simp del]

text \<open>\<open>Res\<close> is not assigned in the receive loop, so its test there is true.\<close>

definition MPU6050_Rx_Data :: "slave \<Rightarrow> UNS8 \<Rightarrow> UNS16 \<Rightarrow> UNS8 \<Rightarrow> (bool \<times> UNS8 list) i2c" where
  "MPU6050_Rx_Data slave junk Addr RxLen = do {
     Res \<leftarrow> mpu_open slave Addr;
     if \<not> Res then do { IIC_Stop; State_Monad.return (False, []) }
     else do {
       Buff \<leftarrow> mpu_rx_loop slave junk [] RxLen 0;
       IIC_Stop;
       State_Monad.return (Res, Buff) } }"

text \<open>
  \<open>PTU8\<close> makes a pointer of a number, so the bytes sent are those of the memory \<open>mcu\<close> of the controller
  from that address on.
\<close>

definition PTU8 :: "(nat \<Rightarrow> UNS8) \<Rightarrow> nat \<Rightarrow> nat \<Rightarrow> UNS8" where
  "PTU8 mcu v = (\<lambda>i. mcu (v + i))"

definition MPU6050_Init :: "slave \<Rightarrow> (nat \<Rightarrow> UNS8) \<Rightarrow> bool i2c" where
  "MPU6050_Init slave mcu = do {
     Res \<leftarrow> MPU6050_Tx_Data slave (PTU8 mcu (unat MPU6050_RESET_CMD)) MPU6050_PWR_MGMT1_REG 1;
     MPU6050_Tx_Data slave (PTU8 mcu (unat MPU6050_RESET_CMD)) MPU6050_PWR_MGMT1_REG 1 }"

definition MPU6050_SetGyroFsr :: "slave \<Rightarrow> (nat \<Rightarrow> UNS8) \<Rightarrow> UNS8 \<Rightarrow> bool i2c" where
  "MPU6050_SetGyroFsr slave mcu Fsr = MPU6050_Tx_Data slave (PTU8 mcu (push_bit 3 (unat Fsr))) MPU6050_GYRO_CFG_REG 1"

definition MPU6050_SetAccelFsr :: "slave \<Rightarrow> (nat \<Rightarrow> UNS8) \<Rightarrow> UNS8 \<Rightarrow> bool i2c" where
  "MPU6050_SetAccelFsr slave mcu Fsr = MPU6050_Tx_Data slave (PTU8 mcu (push_bit 3 (unat Fsr))) MPU6050_ACCEL_CFG_REG 1"

definition lpf_setting :: "UNS16 \<Rightarrow> UNS8" where
  "lpf_setting Lpf =
     (if Lpf \<ge> 188 then 1 else if Lpf \<ge> 98 then 2 else if Lpf \<ge> 42 then 3
      else if Lpf \<ge> 20 then 4 else if Lpf \<ge> 10 then 5 else 6)"

definition MPU6050_SetLPF :: "slave \<Rightarrow> UNS16 \<Rightarrow> bool i2c" where
  "MPU6050_SetLPF slave Lpf = MPU6050_Tx_Data slave (\<lambda>_. lpf_setting Lpf) MPU6050_CFG_REG 1"

definition clamp_rate :: "UNS16 \<Rightarrow> UNS16" where
  "clamp_rate Rate = (let Rate1 = (if Rate > 1000 then 1000 else Rate) in if Rate1 < 4 then 4 else Rate1)"

definition MPU6050_SetRate :: "slave \<Rightarrow> UNS16 \<Rightarrow> bool i2c" where
  "MPU6050_SetRate slave Rate =
     (let Rate' = clamp_rate Rate;
          Data = (ucast (1000 div Rate' - 1) :: UNS8)
      in do {
        Res \<leftarrow> MPU6050_Tx_Data slave (\<lambda>_. Data) MPU6050_SAMPLE_RATE_REG 1;
        MPU6050_SetLPF slave (Rate' div 2) })"

text \<open>Two bytes, the high one first, as a \<open>short\<close>.\<close>

definition axis :: "UNS8 \<Rightarrow> UNS8 \<Rightarrow> int" where
  "axis hi lo = sint (push_bit 8 (ucast hi) OR ucast lo :: UNS16)"

definition axes :: "bool \<times> UNS8 list \<Rightarrow> (int \<times> int \<times> int) option" where
  "axes r = (case r of
     (True, [x1, x0, y1, y0, z1, z0]) \<Rightarrow> Some (axis x1 x0, axis y1 y0, axis z1 z0) | _ \<Rightarrow> None)"

definition MPU6050_GetGyroscope :: "slave \<Rightarrow> UNS8 \<Rightarrow> (int \<times> int \<times> int) option i2c" where
  "MPU6050_GetGyroscope slave junk = do {
     r \<leftarrow> MPU6050_Rx_Data slave junk MPU6050_GYRO_XOUTH_REG 6;
     State_Monad.return (axes r) }"

definition MPU6050_GetAccelerometer :: "slave \<Rightarrow> UNS8 \<Rightarrow> (int \<times> int \<times> int) option i2c" where
  "MPU6050_GetAccelerometer slave junk = do {
     r \<leftarrow> MPU6050_Rx_Data slave junk MPU6050_ACCEL_XOUTH_REG 6;
     State_Monad.return (axes r) }"

section \<open>Transfers with a device that answers\<close>

fun is_bit :: "bus_symbol \<Rightarrow> bool" where
  "is_bit (B_Master b) = True"
| "is_bit (B_Slave b) = True"
| "is_bit x = False"

text \<open>The number of bits since the last start or stop condition; every ninth is an acknowledgement.\<close>

definition open_bits :: "bus_symbol list \<Rightarrow> nat" where
  "open_bits s = length (takeWhile is_bit (rev s))"

definition acknowledges :: "slave \<Rightarrow> bool" where
  "acknowledges slave \<longleftrightarrow> (\<forall>w. open_bits (symbols_of w) mod 9 = 8 \<longrightarrow> \<not> slave w)"

lemma open_bits_start [simp]: "open_bits (s @ [B_Start]) = 0"
  by (simp add: open_bits_def)

lemma open_bits_bits: "\<forall>x\<in>set t. is_bit x \<Longrightarrow> open_bits (s @ t) = open_bits s + length t"
  by (simp add: open_bits_def takeWhile_append)

lemma bits_of_byte [simp]:
  "\<forall>x\<in>set (sent D n). is_bit x" "\<forall>x\<in>set (received D n). is_bit x"
  "length (sent D n) = 9" "length (received D n) = 9"
  by (auto simp: sent_def received_def)

text \<open>Within a transfer, between two bytes.\<close>

definition ready :: "pin_event list \<Rightarrow> bool" where
  "ready w \<longleftrightarrow> in_transfer (line_of w) \<and> open_bits (symbols_of w) mod 9 = 0"

lemma run_bind: "run_state (State_Monad.bind m f) w = run_state (f (result m w)) (after m w)"
  by (simp add: split_beta)

lemma start_ready:
  "idle (line_of w) \<or> ready w \<Longrightarrow>
     ready (after IIC_Start w) \<and> symbols_of (after IIC_Start w) = symbols_of w @ [B_Start]"
  using Start_bus [of w] by (auto simp: ready_def)

lemma stop_idle:
  "ready w \<Longrightarrow> idle (line_of (after IIC_Stop w)) \<and> symbols_of (after IIC_Stop w) = symbols_of w @ [B_Stop]"
  using Stop_bus [of w] by (auto simp: ready_def)

lemma read_ready:
  "ready w \<Longrightarrow> ready (after (IIC_Read_Byte slave junk a) w) \<and>
     symbols_of (after (IIC_Read_Byte slave junk a) w) =
       symbols_of w @ received (result (IIC_Read_Byte slave junk a) w) (even (uint a))"
  using Read_Byte_bus [of w slave junk a] by (auto simp: ready_def open_bits_bits)

lemma send_ready:
  assumes "acknowledges slave" "ready w"
  shows "result (IIC_Send_Byte slave D) w \<and> ready (after (IIC_Send_Byte slave D) w) \<and>
     symbols_of (after (IIC_Send_Byte slave D) w) = symbols_of w @ sent D False"
proof -
  have t: "in_transfer (line_of w)" using assms(2) by (simp add: ready_def)
  have "open_bits (symbols_of (asked D w)) = open_bits (symbols_of w) + 8"
    using decode_asked [OF t, of D] open_bits_bits [of "map B_Master (byte_bits D)"] by auto
  then have "\<not> slave (asked D w @ replicate 0 (Sample True))"
    using assms by (simp add: acknowledges_def ready_def mod_add_left_eq flip: mod_add_left_eq)
  then have "acked slave D w" unfolding acked_def by blast
  from Send_Byte_ack [OF t this] show ?thesis using assms(2) by (simp add: ready_def open_bits_bits)
qed

lemma at24_tx_step:
  assumes "acknowledges slave" "idle (line_of w)" "Index < TxLen"
  shows "\<exists>w'. run_state (at24_tx_loop slave Data Addr TxLen Index True) w =
       run_state (at24_tx_loop slave Data Addr TxLen (Index + 1) True) w' \<and>
     symbols_of w' = symbols_of w @ B_Start # sent (at24_device Addr Index) False @
       sent (at24_address Addr Index) False @ sent (Data (unat Index)) False @ [B_Stop] \<and> idle (line_of w')"
proof -
  define w1 where "w1 = after IIC_Start w"
  define w2 where "w2 = after (IIC_Send_Byte slave (at24_device Addr Index)) w1"
  define w3 where "w3 = after (IIC_Send_Byte slave (at24_address Addr Index)) w2"
  define w4 where "w4 = after (IIC_Send_Byte slave (Data (unat Index))) w3"
  have w1: "ready w1" "symbols_of w1 = symbols_of w @ [B_Start]"
    using start_ready [of w] assms(2) by (auto simp: w1_def)
  note w2 = send_ready [OF assms(1) w1(1), of "at24_device Addr Index", folded w2_def]
  note w3 = send_ready [OF assms(1), of w2 "at24_address Addr Index", folded w3_def]
  note w4 = send_ready [OF assms(1), of w3 "Data (unat Index)", folded w4_def]
  have "run_state (at24_tx_loop slave Data Addr TxLen Index True) w =
       run_state (at24_tx_loop slave Data Addr TxLen (Index + 1) True) (after IIC_Stop w4)"
    by (subst at24_tx_loop.simps)
      (use assms(3) w2 w3 w4 in \<open>simp del: run_state_bind add: run_bind flip: w1_def w2_def w3_def w4_def\<close>)
  with w1 w2 w3 w4 stop_idle [of w4] show ?thesis by auto
qed

definition write_frame :: "UNS8 \<Rightarrow> UNS8 \<Rightarrow> bus_symbol list" where
  "write_frame a d = B_Start # sent 0xA0 False @ sent a False @ sent d False @ [B_Stop]"

definition read_header :: "UNS8 \<Rightarrow> bus_symbol list" where
  "read_header a = B_Start # sent 0xA0 False @ sent a False @ B_Start # sent 0xA1 False"

definition read_frame :: "UNS8 \<Rightarrow> UNS8 \<Rightarrow> bus_symbol list" where
  "read_frame a d = read_header a @ received d True @ [B_Stop]"

text \<open>Within the 256 bytes of the device the device byte is constant and the address byte is the address.\<close>

lemma at24_in_range:
  assumes "unat Addr + unat Index < 256"
  shows "at24_device Addr Index = 0xA0" "at24_address Addr Index = of_nat (unat Addr + unat Index)"
proof -
  define n where "n = unat Addr + unat Index"
  then have n: "uint Addr + uint Index = int n" "unat Addr + unat Index = n" by simp_all
  with assms have "(uint Addr + uint Index) div 256 = 0" "(uint Addr + uint Index) mod 256 = int n"
    unfolding n(1) by simp_all
  then show "at24_device Addr Index = 0xA0" "at24_address Addr Index = of_nat (unat Addr + unat Index)"
    unfolding n(2) by (simp_all add: at24_device_def at24_address_def)
qed

lemma at24_tx_run:
  assumes "acknowledges slave" "idle (line_of w)" "unat Index + n = unat TxLen" "unat Addr + unat TxLen \<le> 256"
  shows "\<exists>w'. run_state (at24_tx_loop slave Data Addr TxLen Index True) w = (True, w') \<and> idle (line_of w') \<and>
     symbols_of w' = symbols_of w @
       concat (map (\<lambda>i. write_frame (of_nat (unat Addr + i)) (Data i)) [unat Index..<unat TxLen])"
  using assms(2,3)
proof (induction n arbitrary: w Index)
  case 0
  then show ?case by (subst at24_tx_loop.simps) (simp add: word_less_nat_alt)
next
  case (Suc n)
  have lt: "Index < TxLen" using Suc.prems by (simp add: word_less_nat_alt)
  then have "unat Addr + unat Index < 256" using assms(4) by (simp add: word_less_nat_alt)
  note ab = at24_in_range [OF this]
  obtain w' where w': "run_state (at24_tx_loop slave Data Addr TxLen Index True) w =
       run_state (at24_tx_loop slave Data Addr TxLen (Index + 1) True) w'" "idle (line_of w')"
     "symbols_of w' = symbols_of w @ write_frame (of_nat (unat Addr + unat Index)) (Data (unat Index))"
    using at24_tx_step [OF assms(1) Suc.prems(1) lt, of Data Addr] by (auto simp: write_frame_def ab)
  have "[unat Index..<unat TxLen] = unat Index # [Suc (unat Index)..<unat TxLen]"
    using lt by (simp add: word_less_nat_alt upt_conv_Cons)
  with Suc.IH [OF w'(2), of "Index + 1"] Suc.prems(2) w' show ?case
    by (auto simp: index_Suc [OF lt])
qed

text \<open>
  The contents of the device as the bus shows them: a complete write of one byte sets its cell, a read changes nothing, and
  any other transfer leaves the contents unknown.
\<close>

fun level :: "bus_symbol \<Rightarrow> bool" where
  "level (B_Master b) = b"
| "level (B_Slave b) = b"
| "level _ = False"

definition commit :: "(UNS8 \<Rightarrow> UNS8 option) \<Rightarrow> bus_symbol list \<Rightarrow> UNS8 \<Rightarrow> UNS8 option" where
  "commit m cur =
     (let a = byte_of (map level (take 8 (drop 9 cur))); d = byte_of (map level (take 8 (drop 18 cur)))
      in if cur = sent 0xA0 False @ sent a False @ sent d False then m(a \<mapsto> d)
         else if take 9 cur = sent 0xA1 False then m else Map.empty)"

fun eeprom_step :: "(UNS8 \<Rightarrow> UNS8 option) \<times> bus_symbol list \<Rightarrow> bus_symbol \<Rightarrow> (UNS8 \<Rightarrow> UNS8 option) \<times> bus_symbol list" where
  "eeprom_step (m, cur) B_Start = (m, [])"
| "eeprom_step (m, cur) B_Stop = (commit m cur, [])"
| "eeprom_step (m, cur) x = (m, cur @ [x])"

definition contents :: "bus_symbol list \<Rightarrow> UNS8 \<Rightarrow> UNS8 option" where
  "contents s = fst (foldl eeprom_step (Map.empty, []) s)"

text \<open>A device that behaves like the data sheet of the EEPROM says.\<close>

definition eeprom :: "slave \<Rightarrow> bool" where
  "eeprom slave \<longleftrightarrow> acknowledges slave \<and>
     (\<forall>w h a d bs. symbols_of w = h @ read_header a @ map B_Slave bs \<and> length bs < 8 \<and> contents h a = Some d
        \<longrightarrow> slave w = bit d (7 - length bs))"

lemma foldl_eeprom_bits: "\<forall>x\<in>set t. is_bit x \<Longrightarrow> foldl eeprom_step (m, cur) t = (m, cur @ t)"
proof (induction t arbitrary: cur)
  case (Cons x t)
  then show ?case by (cases x) auto
qed simp

lemma level_sent: "map level (take 8 (sent b n)) = byte_bits b"
  by (simp add: sent_def comp_def)

lemma contents_write: "contents (h @ write_frame a d) = (contents h)(a \<mapsto> d)"
proof -
  obtain m cur where mc: "foldl eeprom_step (Map.empty, []) h = (m, cur)" by (cases "foldl eeprom_step (Map.empty, []) h")
  have bits: "\<forall>x\<in>set (sent 0xA0 False @ sent a False @ sent d False). is_bit x"
    using bits_of_byte(1) by (auto simp del: bits_of_byte)
  have "commit m (sent 0xA0 False @ sent a False @ sent d False) = m(a \<mapsto> d)"
    by (simp add: commit_def level_sent)
  then show ?thesis
    using mc foldl_eeprom_bits [OF bits, of m "[]"] by (simp add: contents_def write_frame_def)
qed

lemma contents_read: "contents (h @ read_frame a d) = contents h"
proof -
  obtain m cur where mc: "foldl eeprom_step (Map.empty, []) h = (m, cur)" by (cases "foldl eeprom_step (Map.empty, []) h")
  have bits: "\<forall>x\<in>set (sent 0xA0 False @ sent a False). is_bit x" "\<forall>x\<in>set (sent 0xA1 False @ received d True). is_bit x"
    using bits_of_byte(1,2) by (auto simp del: bits_of_byte)
  have ne: "sent 0xA1 False @ received d True \<noteq> sent 0xA0 False @ x" for x
    by (simp add: sent_def byte_bits_eq)
  have "commit m (sent 0xA1 False @ received d True) = m"
    by (simp add: commit_def ne Let_def)
  then show ?thesis
    using mc foldl_eeprom_bits [OF bits(1), of m "[]"] foldl_eeprom_bits [OF bits(2), of m "[]"]
    by (simp add: contents_def read_frame_def read_header_def)
qed

lemma contents_writes:
  "contents (h @ concat (map (\<lambda>i. write_frame (f i) (Data i)) ks)) =
     fold (\<lambda>i m. m(f i \<mapsto> Data i)) ks (contents h)"
  by (induction ks arbitrary: h) (simp_all add: contents_write flip: append_assoc)

lemma sampled_eeprom:
  assumes "eeprom slave" "symbols_of w = h @ read_header a" "in_transfer (line_of w)" "contents h a = Some d" "n \<le> 8"
  shows "sampled slave (w @ Mode_Rx # clocked (take (8 - n) (byte_bits d))) n = drop (8 - n) (byte_bits d)"
  using assms(5)
proof (induction n)
  case 0
  then show ?case by simp
next
  case (Suc n)
  let ?bs = "take (8 - Suc n) (byte_bits d)" and ?b = "bit d (7 - (8 - Suc n))"
  let ?v = "(w @ [Mode_Rx]) @ (clocked ?bs @ [Scl False])"
  obtain l s where l: "decode w = (l, s)" by (cases "decode w")
  have d: "decode (w @ [Mode_Rx]) = (l\<lparr>drives := False\<rparr>, s)" and t: "\<not> scl_high l" "slot l = None"
    using assms(3) l by (auto simp: decode_append in_transfer_def)
  have "decode ?v = (l\<lparr>drives := False, scl_high := False, slot := None\<rparr>, s @ map B_Slave ?bs)"
    unfolding decode_append [of "w @ [Mode_Rx]"] d by (subst foldl_clocked) (use t in auto)
  then have "symbols_of (?v @ [Scl True]) = h @ read_header a @ map B_Slave ?bs"
    using assms(2) l by (simp only: decode_append) simp
  then have "slave (?v @ [Scl True]) = bit d (7 - length ?bs)"
    using assms(1,4) Suc.prems unfolding eeprom_def by fastforce
  then have b: "slave (?v @ [Scl True]) = ?b" using Suc.prems by simp
  have nth: "byte_bits d ! (8 - Suc n) = ?b" unfolding byte_bits_def by (subst nth_map) simp_all
  have e: "8 - n = Suc (8 - Suc n)" using Suc.prems by simp
  have tk: "take (8 - n) (byte_bits d) = ?bs @ [?b]" "drop (8 - Suc n) (byte_bits d) = ?b # drop (8 - n) (byte_bits d)"
    unfolding e using Suc.prems nth by (simp_all add: take_Suc_conv_app_nth flip: Cons_nth_drop_Suc)
  show ?case using Suc.IH Suc.prems b unfolding tk by (simp add: Let_def clocked_def)
qed

lemma at24_rx_step:
  assumes "eeprom slave" "idle (line_of w)" "Index < RxLen" "unat Addr + unat Index < 256"
    and d: "contents (symbols_of w) (of_nat (unat Addr + unat Index)) = Some d"
  shows "\<exists>w'. run_state (at24_rx_loop slave junk Buff Addr RxLen Index True) w =
       run_state (at24_rx_loop slave junk (Buff @ [d]) Addr RxLen (Index + 1) True) w' \<and>
     symbols_of w' = symbols_of w @ read_frame (of_nat (unat Addr + unat Index)) d \<and> idle (line_of w')"
proof -
  let ?a = "of_nat (unat Addr + unat Index) :: UNS8"
  have ack: "acknowledges slave" using assms(1) by (simp add: eeprom_def)
  define w1 where "w1 = after IIC_Start w"
  define w2 where "w2 = after (IIC_Send_Byte slave (at24_device Addr Index)) w1"
  define w3 where "w3 = after (IIC_Send_Byte slave (at24_address Addr Index)) w2"
  define w4 where "w4 = after IIC_Start w3"
  define w5 where "w5 = after (IIC_Send_Byte slave 0xA1) w4"
  define w6 where "w6 = after (IIC_Read_Byte slave junk 0) w5"
  have w1: "ready w1" "symbols_of w1 = symbols_of w @ [B_Start]"
    using start_ready [of w] assms(2) by (auto simp: w1_def)
  note w2 = send_ready [OF ack w1(1), of "at24_device Addr Index", folded w2_def]
  note w3 = send_ready [OF ack, of w2 "at24_address Addr Index", folded w3_def]
  have w4: "ready w4" "symbols_of w4 = symbols_of w3 @ [B_Start]"
    using start_ready [of w3] w2 w3 by (auto simp: w4_def)
  note w5 = send_ready [OF ack w4(1), of "0xA1", folded w5_def]
  have h: "symbols_of w5 = symbols_of w @ read_header ?a" "in_transfer (line_of w5)"
    using w1 w2 w3 w4 w5 at24_in_range [OF assms(4)] by (auto simp: read_header_def ready_def)
  have "sampled slave (w5 @ [Mode_Rx]) 8 = byte_bits d"
    using sampled_eeprom [OF assms(1) h d, of 8] by (simp add: clocked_def)
  then have r: "result (IIC_Read_Byte slave junk 0) w5 = d" using Read_Byte_bus(1) [OF h(2)] by simp
  have w6: "ready w6" "symbols_of w6 = symbols_of w5 @ received d True"
    using read_ready [of w5 slave junk 0] w5 r by (auto simp: w6_def)
  have "run_state (at24_rx_loop slave junk Buff Addr RxLen Index True) w =
       run_state (at24_rx_loop slave junk (Buff @ [d]) Addr RxLen (Index + 1) True) (after IIC_Stop w6)"
    by (subst at24_rx_loop.simps)
      (use assms(3) w5 r in \<open>simp del: run_state_bind add: run_bind flip: w1_def w2_def w3_def w4_def w5_def w6_def\<close>)
  with h(1) w6 stop_idle [of w6] show ?thesis by (auto simp: read_frame_def)
qed

lemma at24_rx_run:
  assumes "eeprom slave" "idle (line_of w)" "unat Index + n = unat RxLen" "unat Addr + unat RxLen \<le> 256"
    and "\<And>i. i < unat RxLen \<Longrightarrow> contents (symbols_of w) (of_nat (unat Addr + i)) = Some (Data i)"
  shows "\<exists>w'. run_state (at24_rx_loop slave junk Buff Addr RxLen Index True) w =
       ((True, Buff @ map Data [unat Index..<unat RxLen]), w')"
  using assms(2,3,5)
proof (induction n arbitrary: w Index Buff)
  case 0
  then show ?case by (subst at24_rx_loop.simps) (simp add: word_less_nat_alt)
next
  case (Suc n)
  have lt: "Index < RxLen" using Suc.prems(2) by (simp add: word_less_nat_alt)
  then have l: "unat Index < unat RxLen" "unat Addr + unat Index < 256"
    using assms(4) by (simp_all add: word_less_nat_alt)
  obtain w' where w': "run_state (at24_rx_loop slave junk Buff Addr RxLen Index True) w =
       run_state (at24_rx_loop slave junk (Buff @ [Data (unat Index)]) Addr RxLen (Index + 1) True) w'" "idle (line_of w')"
     "symbols_of w' = symbols_of w @ read_frame (of_nat (unat Addr + unat Index)) (Data (unat Index))"
    using at24_rx_step [OF assms(1) Suc.prems(1) lt l(2) Suc.prems(3) [OF l(1)]] by blast
  have "[unat Index..<unat RxLen] = unat Index # [Suc (unat Index)..<unat RxLen]"
    using l by (simp add: upt_conv_Cons)
  moreover have "contents (symbols_of w') = contents (symbols_of w)" using w'(3) by (simp add: contents_read)
  ultimately show ?case
    using Suc.IH [OF w'(2), of "Index + 1" "Buff @ [Data (unat Index)]"] Suc.prems(2,3) w'(1)
    by (simp add: index_Suc [OF lt])
qed

section \<open>The EEPROM keeps what is written\<close>

lemma fold_update_other: "x \<notin> f ` set ks \<Longrightarrow> fold (\<lambda>i m. m(f i \<mapsto> D i)) ks m x = m x"
  by (induction ks arbitrary: m) auto

lemma fold_update:
  "inj_on f (set ks) \<Longrightarrow> i \<in> set ks \<Longrightarrow> fold (\<lambda>i m. m(f i \<mapsto> D i)) ks m (f i) = Some (D i)"
proof (induction ks arbitrary: m)
  case (Cons k ks)
  show ?case
  proof (cases "i \<in> set ks")
    case False
    then have "i = k" "f k \<notin> f ` set ks" using Cons.prems by (auto simp: inj_on_def)
    then show ?thesis by (simp add: fold_update_other del: fun_upd_apply) simp
  qed (use Cons in auto)
qed simp

lemma addresses_inj: "unat Addr + n \<le> 256 \<Longrightarrow> inj_on (\<lambda>i. of_nat (unat (Addr :: UNS16) + i) :: UNS8) {0..<n}"
proof (rule inj_onI)
  fix x y assume n: "unat Addr + n \<le> 256" "x \<in> {0..<n}" "y \<in> {0..<n}"
    and e: "(of_nat (unat Addr + x) :: UNS8) = of_nat (unat Addr + y)"
  have u: "unat (of_nat (unat Addr + z) :: UNS8) = unat Addr + z" if "z < n" for z
    using that n(1) by (simp only: unsigned_of_nat) (simp add: take_bit_nat_eq_self)
  show "x = y" using arg_cong [OF e, of unat] n(2,3) by (simp only: u atLeastLessThan_iff)
qed

text \<open>C26: what \<open>AT24C02_Tx_Data\<close> writes to an EEPROM \<open>AT24C02_Rx_Data\<close> reads back, for every block of at most 32
  bytes within the 256 bytes of the device, whatever the buffers held before; the write is one frame per byte.\<close>

theorem eeprom_write_read:
  assumes "eeprom slave" "idle (line_of w)" "unat Addr + unat Len \<le> 256" "Len \<le> 32"
  shows "run_state (AT24C02_Tx_Data slave Data Addr Len) w = (True, after (AT24C02_Tx_Data slave Data Addr Len) w) \<and>
    symbols_of (after (AT24C02_Tx_Data slave Data Addr Len) w) =
      symbols_of w @ concat (map (\<lambda>i. write_frame (of_nat (unat Addr + i)) (Data i)) [0..<unat Len]) \<and>
    result (AT24C02_Rx_Data slave junk Addr Len) (after (AT24C02_Tx_Data slave Data Addr Len) w) =
      (True, map Data [0..<unat Len])"
proof -
  obtain w' where w': "run_state (AT24C02_Tx_Data slave Data Addr Len) w = (True, w')" "idle (line_of w')"
      "symbols_of w' = symbols_of w @ concat (map (\<lambda>i. write_frame (of_nat (unat Addr + i)) (Data i)) [0..<unat Len])"
    using at24_tx_run [of slave w 0 "unat Len" Len Addr Data] assms by (auto simp: AT24C02_Tx_Data_def eeprom_def)
  have "contents (symbols_of w') (of_nat (unat Addr + i)) = Some (Data i)" if "i < unat Len" for i
    unfolding w'(3) contents_writes
    by (rule fold_update [where f = "\<lambda>i. of_nat (unat Addr + i)"]) (use addresses_inj [OF assms(3)] that in auto)
  then have "result (AT24C02_Rx_Data slave junk Addr Len) w' = (True, map Data [0..<unat Len])"
    using at24_rx_run [OF assms(1) w'(2), of 0 "unat Len" Len Addr Data junk "[]"] assms(3,4)
    by (auto simp: AT24C02_Rx_Data_def)
  with w' show ?thesis by simp
qed

text \<open>A device that meets the hypothesis: it keeps the history of the bus.\<close>

definition at24_chip :: slave where
  "at24_chip w =
     (let s = symbols_of w; n = open_bits s; k = n - 9; p = length s - k - 29;
          a = byte_of (map level (take 8 (drop (p + 10) s)))
      in n mod 9 \<noteq> 8 \<and> (case contents (take p s) a of Some d \<Rightarrow> bit d (7 - k) | None \<Rightarrow> True))"

lemma at24_chip_eeprom: "eeprom at24_chip"
  unfolding eeprom_def
proof (rule conjI; (intro allI impI; elim conjE)?)
  show "acknowledges at24_chip" by (simp add: acknowledges_def at24_chip_def Let_def)
next
  fix w h a d bs
  assume s: "symbols_of w = h @ read_header a @ map B_Slave bs" and b: "length bs < 8" and d: "contents h a = Some d"
  define g where "g = h @ B_Start # sent 0xA0 False @ sent a False"
  have g: "symbols_of w = (g @ [B_Start]) @ sent 0xA1 False @ map B_Slave bs"
    using s by (simp add: read_header_def g_def)
  have "\<forall>x\<in>set (sent 0xA1 False @ map B_Slave bs). is_bit x" by (auto simp: sent_def)
  from open_bits_bits [OF this, of "g @ [B_Start]"] have n: "open_bits (symbols_of w) = 9 + length bs"
    unfolding g by simp
  have len: "length (symbols_of w) = length h + 29 + length bs" using s by (simp add: read_header_def)
  have a: "map level (take 8 (drop (length h + 10) (symbols_of w))) = byte_bits a"
    using s by (simp add: read_header_def sent_def drop_Cons' comp_def)
  have th: "take (length h) (symbols_of w) = h" using s by simp
  show "at24_chip w = bit d (7 - length bs)"
    using b d by (simp add: at24_chip_def Let_def n len a th)
qed

theorem eeprom_write_read_witness:
  "result (AT24C02_Rx_Data at24_chip 0x55 0x20 3)
     (after (AT24C02_Tx_Data at24_chip (\<lambda>i. of_nat (7 + i)) 0x20 3) []) = (True, [7, 8, 9])"
proof -
  have "idle (line_of [])" by (simp add: decode_def line_init_def idle_def)
  from eeprom_write_read [OF at24_chip_eeprom this, of "0x20" 3 "\<lambda>i. of_nat (7 + i)" "0x55"] show ?thesis
    by (simp add: upt_rec)
qed

section \<open>Frames of the motion sensor\<close>

definition mpu_header :: "UNS16 \<Rightarrow> bus_symbol list" where
  "mpu_header Addr = B_Start # sent 0xD0 False @ sent (ucast Addr) False @ sent 0xD1 False"

definition mpu_frame :: "UNS16 \<Rightarrow> UNS8 list \<Rightarrow> bus_symbol list" where
  "mpu_frame Addr ds = mpu_header Addr @ concat (map (\<lambda>d. sent d False) ds) @ [B_Stop]"

lemma mpu_addresses: "mpu_address MPU6050_WRITE_CMD = 0xD0" "mpu_address MPU6050_READ_CMD = 0xD1"
  by (simp_all add: mpu_address_def)

lemma mpu_open_run:
  assumes "acknowledges slave" "idle (line_of w)"
  shows "result (mpu_open slave Addr) w \<and> ready (after (mpu_open slave Addr) w) \<and>
     symbols_of (after (mpu_open slave Addr) w) = symbols_of w @ mpu_header Addr"
proof -
  define w1 where "w1 = after IIC_Start w"
  define w2 where "w2 = after (IIC_Send_Byte slave 0xD0) w1"
  define w3 where "w3 = after (IIC_Send_Byte slave (ucast Addr)) w2"
  have w1: "ready w1" "symbols_of w1 = symbols_of w @ [B_Start]"
    using start_ready [of w] assms(2) by (auto simp: w1_def)
  note w2 = send_ready [OF assms(1) w1(1), of "0xD0", folded w2_def]
  note w3 = send_ready [OF assms(1), of w2 "ucast Addr", folded w3_def]
  note w4 = send_ready [OF assms(1), of w3 "0xD1"]
  have "run_state (mpu_open slave Addr) w = run_state (IIC_Send_Byte slave 0xD1) w3"
    by (simp add: mpu_open_def mpu_addresses run_bind del: run_state_bind flip: w1_def w2_def w3_def)
  with w1 w2 w3 w4 show ?thesis by (simp add: mpu_header_def)
qed

lemma mpu_tx_run:
  assumes "acknowledges slave" "ready w" "unat Index + n = unat TxLen"
  shows "\<exists>w'. run_state (mpu_tx_loop slave Data TxLen Index True) w = (True, w') \<and> ready w' \<and>
     symbols_of w' = symbols_of w @ concat (map (\<lambda>i. sent (Data i) False) [unat Index..<unat TxLen])"
  using assms(2,3)
proof (induction n arbitrary: w Index)
  case 0
  then show ?case by (subst mpu_tx_loop.simps) (simp add: word_less_nat_alt)
next
  case (Suc n)
  have lt: "Index < TxLen" using Suc.prems by (simp add: word_less_nat_alt)
  define w' where "w' = after (IIC_Send_Byte slave (Data (unat Index))) w"
  note w' = send_ready [OF assms(1) Suc.prems(1), of "Data (unat Index)", folded w'_def]
  have "run_state (mpu_tx_loop slave Data TxLen Index True) w = run_state (mpu_tx_loop slave Data TxLen (Index + 1) True) w'"
    by (subst mpu_tx_loop.simps) (use lt w' in \<open>simp del: run_state_bind add: run_bind flip: w'_def\<close>)
  moreover have "[unat Index..<unat TxLen] = unat Index # [Suc (unat Index)..<unat TxLen]"
    using lt by (simp add: word_less_nat_alt upt_conv_Cons)
  ultimately show ?case
    using Suc.IH [of w' "Index + 1"] Suc.prems(2) w' by (auto simp: index_Suc [OF lt])
qed

lemma mpu_tx_frame:
  assumes "acknowledges slave" "idle (line_of w)"
  shows "result (MPU6050_Tx_Data slave Data Addr TxLen) w \<and>
     idle (line_of (after (MPU6050_Tx_Data slave Data Addr TxLen) w)) \<and>
     symbols_of (after (MPU6050_Tx_Data slave Data Addr TxLen) w) =
       symbols_of w @ mpu_frame Addr (map Data [0..<unat TxLen])"
proof -
  note o1 = mpu_open_run [OF assms, of Addr]
  obtain w' where w': "run_state (mpu_tx_loop slave Data TxLen 0 True) (after (mpu_open slave Addr) w) = (True, w')" "ready w'"
      "symbols_of w' = symbols_of (after (mpu_open slave Addr) w) @ concat (map (\<lambda>i. sent (Data i) False) [0..<unat TxLen])"
    using mpu_tx_run [OF assms(1), of "after (mpu_open slave Addr) w" 0 "unat TxLen" TxLen Data] o1 by auto
  have "run_state (MPU6050_Tx_Data slave Data Addr TxLen) w = (True, after IIC_Stop w')"
    using o1 w'(1) by (simp add: MPU6050_Tx_Data_def run_bind del: run_state_bind)
  with o1 w' stop_idle [of w'] show ?thesis by (auto simp: mpu_frame_def comp_def)
qed

text \<open>\<open>MPU6050_Tx_Data\<close> sends the write address, the register and then the read address before the data,
  without a new start condition. In the register protocol of the sensor the read address is therefore the first data byte: the
  addressed register gets 0xD1, and the data goes to the registers after it.\<close>

theorem mpu_write_sends_read_address:
  assumes "acknowledges slave" "idle (line_of w)"
  shows "result (MPU6050_Tx_Data slave Data Addr TxLen) w \<and>
    symbols_of (after (MPU6050_Tx_Data slave Data Addr TxLen) w) =
      symbols_of w @ B_Start # sent 0xD0 False @ sent (ucast Addr) False @ sent 0xD1 False @
        concat (map (\<lambda>i. sent (Data i) False) [0..<unat TxLen]) @ [B_Stop]"
  using mpu_tx_frame [OF assms, of Data Addr TxLen] by (simp add: mpu_frame_def mpu_header_def comp_def)

lemma clamp_rate_bounds: "4 \<le> unat (clamp_rate Rate) \<and> unat (clamp_rate Rate) \<le> 1000"
  by (auto simp: clamp_rate_def Let_def word_less_nat_alt word_le_nat_alt)

lemma divider_bounds:
  assumes "4 \<le> r" "r \<le> (1000 :: nat)"
  shows "1 \<le> 1000 div r" "1000 div r \<le> 250" "r * (1000 div r) \<le> 1000" "1000 < r * (1000 div r + 1)"
proof -
  show "1 \<le> 1000 div r" using assms by (simp add: Suc_le_eq div_greater_zero_iff)
  show "1000 div r \<le> 250" using div_le_mono2 [of 4 r 1000] assms by simp
  show "r * (1000 div r) \<le> 1000" by simp
  show "1000 < r * (1000 div r + 1)"
    using assms mod_less_divisor [of r 1000] mult_div_mod_eq [of r 1000] by (simp only: distrib_left mult_1_right) linarith
qed

text \<open>\<open>MPU6050_SetRate\<close> clamps the rate to 4 to 1000 Hz and writes the divider in one byte: the largest
  divider that gives at least the wanted rate. A second frame sets the low-pass filter to half the rate.\<close>

theorem set_rate_divider:
  fixes Rate :: UNS16
  assumes "acknowledges slave" "idle (line_of w)"
  defines "r \<equiv> unat (clamp_rate Rate)"
  shows "result (MPU6050_SetRate slave Rate) w \<and>
    4 \<le> r \<and> r \<le> 1000 \<and> (4 \<le> Rate \<and> Rate \<le> 1000 \<longrightarrow> r = unat Rate) \<and>
    (\<exists>q :: UNS8. symbols_of (after (MPU6050_SetRate slave Rate) w) =
        symbols_of w @ mpu_frame 0x19 [q] @ mpu_frame 0x1A [lpf_setting (clamp_rate Rate div 2)] \<and>
      unat q \<le> 249 \<and> r * (unat q + 1) \<le> 1000 \<and> 1000 < r * (unat q + 2))"
proof -
  let ?q = "ucast (1000 div clamp_rate Rate - 1) :: UNS8"
  have r: "4 \<le> r" "r \<le> 1000" using clamp_rate_bounds by (simp_all add: r_def)
  have u: "unat (1000 div clamp_rate Rate :: UNS16) = 1000 div r" by (simp add: unat_div r_def)
  note b = divider_bounds [OF r]
  have "unat (1000 div clamp_rate Rate - 1 :: UNS16) = 1000 div r - 1"
    using b(1) u by (subst unat_sub) (simp_all add: word_le_nat_alt)
  then have q: "unat ?q = 1000 div r - 1"
    using b by (simp add: unsigned_ucast_eq take_bit_nat_eq_self)
  then have qb: "unat ?q \<le> 249 \<and> r * (unat ?q + 1) \<le> 1000 \<and> 1000 < r * (unat ?q + 2)"
    using b by (auto simp: add.commute)
  let ?w1 = "after (MPU6050_Tx_Data slave (\<lambda>_. ?q) MPU6050_SAMPLE_RATE_REG 1) w"
  note f1 = mpu_tx_frame [OF assms(1,2), of "\<lambda>_. ?q" "0x19" 1]
  note f2 = mpu_tx_frame [OF assms(1), of ?w1 "\<lambda>_. lpf_setting (clamp_rate Rate div 2)" "0x1A" 1]
  have "run_state (MPU6050_SetRate slave Rate) w =
      run_state (MPU6050_Tx_Data slave (\<lambda>_. lpf_setting (clamp_rate Rate div 2)) 0x1A 1) ?w1"
    by (simp add: MPU6050_SetRate_def MPU6050_SetLPF_def Let_def run_bind del: run_state_bind)
  moreover have "4 \<le> Rate \<and> Rate \<le> 1000 \<longrightarrow> r = unat Rate"
    by (auto simp: r_def clamp_rate_def Let_def)
  ultimately show ?thesis using f1 f2 r qb by (auto intro!: exI [of _ ?q])
qed

lemma mpu_rx_run:
  assumes "ready w" "unat Index + n = unat RxLen"
  shows "\<exists>bs w'. run_state (mpu_rx_loop slave junk Buff RxLen Index) w = (Buff @ bs, w') \<and> ready w' \<and> length bs = n \<and>
     symbols_of w' = symbols_of w @ concat (map (\<lambda>i. received (bs ! i) (unat Index + i = 1)) [0..<n])"
  using assms
proof (induction n arbitrary: w Index Buff)
  case 0
  then show ?case by (subst mpu_rx_loop.simps) (simp add: word_less_nat_alt)
next
  case (Suc n)
  have lt: "Index < RxLen" using Suc.prems by (simp add: word_less_nat_alt)
  let ?rd = "if Index \<noteq> 1 then IIC_Read_Byte slave junk 1 else IIC_Read_Byte slave junk 0"
  define b where "b = result ?rd w"
  define v where "v = after ?rd w"
  have v: "ready v" "symbols_of v = symbols_of w @ received b (unat Index = 1)"
    unfolding v_def b_def using read_ready [OF Suc.prems(1), of slave junk "if Index \<noteq> 1 then 1 else 0"]
    by (cases "Index = 1"; simp add: word_unat_eq_iff [of Index 1])+
  have run: "run_state (mpu_rx_loop slave junk Buff RxLen Index) w =
      run_state (mpu_rx_loop slave junk (Buff @ [b]) RxLen (Index + 1)) v"
    by (subst mpu_rx_loop.simps) (use lt in \<open>simp only: if_True run_bind b_def v_def\<close>)
  obtain bs w' where w': "run_state (mpu_rx_loop slave junk (Buff @ [b]) RxLen (Index + 1)) v = ((Buff @ [b]) @ bs, w')"
      "ready w'" "length bs = n"
      "symbols_of w' = symbols_of v @ concat (map (\<lambda>i. received (bs ! i) (unat (Index + 1) + i = 1)) [0..<n])"
    using Suc.IH [OF v(1), of "Index + 1" "Buff @ [b]"] Suc.prems(2) by (auto simp: index_Suc [OF lt])
  have "symbols_of w' = symbols_of w @ concat (map (\<lambda>i. received ((b # bs) ! i) (unat Index + i = 1)) [0..<Suc n])"
    using w'(4) v(2) unfolding upt_front by (simp add: index_Suc [OF lt])
  with w' run show ?case by (intro exI [of _ "b # bs"] exI [of _ w']) simp
qed

lemma mpu_rx_frame:
  assumes "acknowledges slave" "idle (line_of w)"
  shows "\<exists>bs. result (MPU6050_Rx_Data slave junk Addr RxLen) w = (True, bs) \<and> length bs = unat RxLen \<and>
     idle (line_of (after (MPU6050_Rx_Data slave junk Addr RxLen) w)) \<and>
     symbols_of (after (MPU6050_Rx_Data slave junk Addr RxLen) w) = symbols_of w @ mpu_header Addr @
       concat (map (\<lambda>i. received (bs ! i) (i = 1)) [0..<unat RxLen]) @ [B_Stop]"
proof -
  note o1 = mpu_open_run [OF assms, of Addr]
  obtain bs w' where w': "run_state (mpu_rx_loop slave junk [] RxLen 0) (after (mpu_open slave Addr) w) = (bs, w')" "ready w'"
      "length bs = unat RxLen"
      "symbols_of w' = symbols_of (after (mpu_open slave Addr) w) @
         concat (map (\<lambda>i. received (bs ! i) (i = 1)) [0..<unat RxLen])"
    using mpu_rx_run [of "after (mpu_open slave Addr) w" 0 "unat RxLen" RxLen slave junk "[]"] o1 by auto
  have "run_state (MPU6050_Rx_Data slave junk Addr RxLen) w = ((True, bs), after IIC_Stop w')"
    using o1 w'(1) by (simp add: MPU6050_Rx_Data_def run_bind del: run_state_bind)
  with o1 w' stop_idle [of w'] show ?thesis by auto
qed

lemma length_6: "length bs = 6 \<Longrightarrow> \<exists>a b c d e f. bs = [a, b, c, d, e, f]"
  by (auto simp: numeral_eq_Suc length_Suc_conv)

lemma axes_six: "axes (True, [x1, x0, y1, y0, z1, z0]) = Some (axis x1 x0, axis y1 y0, axis z1 z0)"
  by (simp add: axes_def)

lemma axis_range: "- 32768 \<le> axis hi lo \<and> axis hi lo \<le> 32767"
  using sint_range_size [of "push_bit 8 (ucast hi) OR ucast lo :: UNS16"] by (simp add: axis_def word_size)

text \<open>\<open>MPU6050_GetGyroscope\<close> returns the three axes as the sensor puts them on the bus, six bytes with the
  high byte of an axis first, each a 16-bit signed number. The master refuses to acknowledge the second byte and acknowledges
  the last one, where the protocol asks for the opposite.\<close>

theorem gyroscope_reads_axes:
  assumes "acknowledges slave" "idle (line_of w)"
  shows "\<exists>x1 x0 y1 y0 z1 z0.
    result (MPU6050_GetGyroscope slave junk) w = Some (axis x1 x0, axis y1 y0, axis z1 z0) \<and>
    symbols_of (after (MPU6050_GetGyroscope slave junk) w) = symbols_of w @ mpu_header 0x43 @
      received x1 False @ received x0 True @ received y1 False @ received y0 False @
      received z1 False @ received z0 False @ [B_Stop] \<and>
    (\<forall>v\<in>{axis x1 x0, axis y1 y0, axis z1 z0}. - 32768 \<le> v \<and> v \<le> 32767)"
proof -
  have six: "unat (6 :: UNS8) = 6" by simp
  obtain bs where bs: "result (MPU6050_Rx_Data slave junk 0x43 6) w = (True, bs)" "length bs = unat (6 :: UNS8)"
     "symbols_of (after (MPU6050_Rx_Data slave junk 0x43 6) w) = symbols_of w @ mpu_header 0x43 @
       concat (map (\<lambda>i. received (bs ! i) (i = 1)) [0..<unat (6 :: UNS8)]) @ [B_Stop]"
    using mpu_rx_frame [OF assms, of junk "0x43" 6] by blast
  obtain a b c d e f where l: "bs = [a, b, c, d, e, f]" using length_6 [of bs] bs(2) unfolding six by blast
  have "run_state (MPU6050_GetGyroscope slave junk) w =
      (axes (True, bs), after (MPU6050_Rx_Data slave junk 0x43 6) w)"
    using bs(1) by (simp add: MPU6050_GetGyroscope_def run_bind del: run_state_bind)
  then have g: "result (MPU6050_GetGyroscope slave junk) w = Some (axis a b, axis c d, axis e f)"
      "after (MPU6050_GetGyroscope slave junk) w = after (MPU6050_Rx_Data slave junk 0x43 6) w"
    unfolding l axes_six by simp_all
  have s: "concat (map (\<lambda>i. received (bs ! i) (i = 1)) [0..<6]) =
      received a False @ received b True @ received c False @ received d False @ received e False @ received f False"
    unfolding l by (simp add: upt_rec)
  show ?thesis
    using g(1) bs(3) [unfolded six s g(2) [symmetric]] axis_range [of a b] axis_range [of c d] axis_range [of e f]
    by (intro exI [of _ a] exI [of _ b] exI [of _ c] exI [of _ d] exI [of _ e] exI [of _ f])
      (simp only: append_assoc insert_iff empty_iff ball_simps)
qed

lemma idle_init: "idle (line_of [])"
  by (simp add: decode_def line_init_def idle_def)

lemma low_acknowledges: "acknowledges (\<lambda>w. False)"
  by (simp add: acknowledges_def)

theorem mpu_write_sends_read_address_witness:
  "symbols_of (after (MPU6050_Tx_Data (\<lambda>w. False) (\<lambda>i. 0x18) 0x1B 1) []) =
     B_Start # sent 0xD0 False @ sent 0x1B False @ sent 0xD1 False @ sent 0x18 False @ [B_Stop]"
  using mpu_write_sends_read_address [OF low_acknowledges idle_init, of "\<lambda>i. 0x18" "0x1B" 1]
  by (simp add: decode_def)

theorem set_rate_divider_witness:
  "result (MPU6050_SetRate (\<lambda>w. False) 50) [] \<and>
   (\<exists>q :: UNS8. unat q \<le> 249 \<and> 50 * (unat q + 1) \<le> 1000 \<and> 1000 < 50 * (unat q + 2))"
proof -
  have "unat (clamp_rate 50) = 50" by (simp add: clamp_rate_def word_less_nat_alt)
  with set_rate_divider [OF low_acknowledges idle_init, of 50] show ?thesis by (simp only:) blast
qed

theorem gyroscope_reads_axes_witness:
  "\<exists>v. result (MPU6050_GetGyroscope (\<lambda>w. False) 0) [] = Some v"
  using gyroscope_reads_axes [OF low_acknowledges idle_init, of 0] by blast

end
