(* ===== verification/Pbuf.thy ===== *)
theory Pbuf
  imports Prelude "HOL-Library.Monad_Syntax"
begin

text \<open>
  The packet buffers of the TCP/IP stack, \<^verbatim>\<open>LwIP/core/pbuf.c\<close> with the pool of \<^verbatim>\<open>LwIP/core/memp.c\<close>:
  reference-counted buffers linked to chains. A heap maps the addresses of allocated buffers to them and keeps the free
  list of the pool; an address that is not in the map is not allocated. An operation that reaches a
  buffer which is not allocated, or memory behind its end, has the result \<open>None\<close>; so has a walk
  along a chain that never ends. Assertions of the source are not compiled (\<^verbatim>\<open>arch/cc.h\<close> defines \<open>LWIP_NOASSERT\<close>). The payload of a buffer is the list of bytes from its payload pointer to the end of
  its memory.
  Not modelled: buffers with a custom free function, header space, and the debug output.

  Shown here: what a release frees, that copies out of a chain and into it see one sequence of bytes whatever
  the cuts between the buffers, and that allocation from the pool gives a fresh chain of the wanted length or leaves the
  heap as it was.
\<close>

section \<open>Data\<close>

datatype pbuf_type = PBUF_RAM | PBUF_ROM | PBUF_REF | PBUF_POOL

type_synonym pptr = "nat option"

record pbuf =
  p_next :: pptr
  p_payload :: "UNS8 list"
  p_tot_len :: UNS16
  p_len :: UNS16
  p_type :: pbuf_type
  p_ref :: UNS8

record pheap =
  bufs :: "nat \<Rightarrow> pbuf option"
  pool :: "nat list"

definition set_buf :: "nat \<Rightarrow> pbuf \<Rightarrow> pheap \<Rightarrow> pheap" where
  "set_buf a b h = h\<lparr>bufs := (bufs h)(a \<mapsto> b)\<rparr>"

section \<open>The pool\<close>

definition memp_malloc :: "pheap \<Rightarrow> pptr \<times> pheap" where
  "memp_malloc h = (case pool h of [] \<Rightarrow> (None, h) | a # as \<Rightarrow> (Some a, h\<lparr>pool := as\<rparr>))"

definition memp_free :: "nat \<Rightarrow> pheap \<Rightarrow> pheap" where
  "memp_free a h = h\<lparr>pool := a # pool h\<rparr>"

section \<open>Reference counts\<close>

text \<open>
  A released buffer leaves the map. One of the pool goes back to its free list; the memory of the other kinds
  belongs to other allocators.
\<close>

definition dealloc :: "nat \<Rightarrow> pbuf \<Rightarrow> pheap \<Rightarrow> pheap" where
  "dealloc a b h =
     (let h1 = h\<lparr>bufs := (bufs h)(a := None)\<rparr> in if p_type b = PBUF_POOL then memp_free a h1 else h1)"

partial_function (option) pbuf_free_loop :: "pptr \<Rightarrow> UNS8 \<Rightarrow> pheap \<Rightarrow> (UNS8 \<times> pheap) option" where
  "pbuf_free_loop p count h =
     (case p of None \<Rightarrow> Some (count, h) | Some a \<Rightarrow> do {
        b \<leftarrow> bufs h a;
        if p_ref b - 1 = 0 then pbuf_free_loop (p_next b) (count + 1) (dealloc a b h)
        else Some (count, set_buf a (b\<lparr>p_ref := p_ref b - 1\<rparr>) h) })"

definition pbuf_free :: "pptr \<Rightarrow> pheap \<Rightarrow> (UNS8 \<times> pheap) option" where
  "pbuf_free p h = (if p = None then Some (0, h) else pbuf_free_loop p 0 h)"

definition pbuf_ref :: "pptr \<Rightarrow> pheap \<Rightarrow> pheap option" where
  "pbuf_ref p h =
     (case p of None \<Rightarrow> Some h | Some a \<Rightarrow> do { b \<leftarrow> bufs h a; Some (set_buf a (b\<lparr>p_ref := p_ref b + 1\<rparr>) h) })"

partial_function (option) pbuf_clen_loop :: "pheap \<Rightarrow> pptr \<Rightarrow> UNS16 \<Rightarrow> UNS16 option" where
  "pbuf_clen_loop h p n =
     (case p of None \<Rightarrow> Some n | Some a \<Rightarrow> do { b \<leftarrow> bufs h a; pbuf_clen_loop h (p_next b) (n + 1) })"

definition pbuf_clen :: "pheap \<Rightarrow> pptr \<Rightarrow> UNS16 option" where
  "pbuf_clen h p = pbuf_clen_loop h p 0"

section \<open>Chains\<close>

text \<open>The walk of \<open>pbuf_cat\<close> along the first chain; \<open>tl\<close> is the total length of the second, read in every round.\<close>

partial_function (option) pbuf_cat_loop :: "nat \<Rightarrow> nat \<Rightarrow> pheap \<Rightarrow> pheap option" where
  "pbuf_cat_loop p t h = do {
     b \<leftarrow> bufs h p;
     bt \<leftarrow> bufs h t;
     case p_next b of
       Some n \<Rightarrow> pbuf_cat_loop n t (set_buf p (b\<lparr>p_tot_len := p_tot_len b + p_tot_len bt\<rparr>) h)
     | None \<Rightarrow> Some (set_buf p (b\<lparr>p_tot_len := p_tot_len b + p_tot_len bt, p_next := Some t\<rparr>) h) }"

definition pbuf_cat :: "pptr \<Rightarrow> pptr \<Rightarrow> pheap \<Rightarrow> pheap option" where
  "pbuf_cat h t s = (case (h, t) of (Some a, Some b) \<Rightarrow> pbuf_cat_loop a b s | _ \<Rightarrow> Some s)"

definition pbuf_chain :: "pptr \<Rightarrow> pptr \<Rightarrow> pheap \<Rightarrow> pheap option" where
  "pbuf_chain h t s = do { s1 \<leftarrow> pbuf_cat h t s; pbuf_ref t s1 }"

definition pbuf_dechain :: "nat \<Rightarrow> pheap \<Rightarrow> (pptr \<times> pheap) option" where
  "pbuf_dechain p h = do {
     b \<leftarrow> bufs h p;
     case p_next b of
       None \<Rightarrow> Some (None, h)
     | Some q \<Rightarrow> do {
         bq \<leftarrow> bufs h q;
         let h1 = set_buf q (bq\<lparr>p_tot_len := p_tot_len b - p_len b\<rparr>) h;
         b1 \<leftarrow> bufs h1 p;
         (tail_gone, h2) \<leftarrow> pbuf_free (Some q) (set_buf p (b1\<lparr>p_next := None, p_tot_len := p_len b1\<rparr>) h1);
         Some (if tail_gone > 0 then None else Some q, h2) } }"

section \<open>Copies\<close>

text \<open>The bytes \<open>off\<close> to \<open>off + n\<close> of a payload; \<open>None\<close> beyond the end of its memory.\<close>

definition payload_at :: "pbuf \<Rightarrow> nat \<Rightarrow> nat \<Rightarrow> UNS8 list option" where
  "payload_at b off n = (if off + n \<le> length (p_payload b) then Some (take n (drop off (p_payload b))) else None)"

definition payload_put :: "pbuf \<Rightarrow> nat \<Rightarrow> UNS8 list \<Rightarrow> pbuf option" where
  "payload_put b off bs =
     (if off + length bs \<le> length (p_payload b)
      then Some (b\<lparr>p_payload := take off (p_payload b) @ bs @ drop (off + length bs) (p_payload b)\<rparr>) else None)"

text \<open>The bytes that \<open>pbuf_copy_partial\<close> stores from the start of its target on; their number is its result.\<close>

partial_function (option) pbuf_copy_loop :: "pheap \<Rightarrow> pptr \<Rightarrow> UNS16 \<Rightarrow> UNS16 \<Rightarrow> UNS8 list \<Rightarrow> UNS8 list option" where
  "pbuf_copy_loop h p n offset out =
     (case p of None \<Rightarrow> Some out | Some a \<Rightarrow>
        if n = 0 then Some out
        else do {
          b \<leftarrow> bufs h a;
          if offset \<noteq> 0 \<and> offset \<ge> p_len b then pbuf_copy_loop h (p_next b) n (offset - p_len b) out
          else do {
            let k = (if p_len b - offset > n then n else p_len b - offset);
            bs \<leftarrow> payload_at b (unat offset) (unat k);
            pbuf_copy_loop h (p_next b) (n - k) 0 (out @ bs) } })"

definition pbuf_copy_partial :: "pheap \<Rightarrow> pptr \<Rightarrow> UNS16 \<Rightarrow> UNS16 \<Rightarrow> UNS8 list option" where
  "pbuf_copy_partial h buf n offset = pbuf_copy_loop h buf n offset []"

partial_function (option) pbuf_take_loop :: "pptr \<Rightarrow> UNS8 list \<Rightarrow> pheap \<Rightarrow> pheap option" where
  "pbuf_take_loop p bs h =
     (if bs = [] then Some h
      else do {
        a \<leftarrow> p;
        b \<leftarrow> bufs h a;
        let k = (if length bs > unat (p_len b) then unat (p_len b) else length bs);
        b' \<leftarrow> payload_put b 0 (take k bs);
        pbuf_take_loop (p_next b) (drop k bs) (set_buf a b' h) })"

datatype err_t = ERR_OK | ERR_MEM | ERR_ARG | ERR_VAL | ERR_CONN | ERR_ABRT | ERR_OTHER

text \<open>The data of the caller is the list \<open>bs\<close>, of at most 65535 bytes.\<close>

definition pbuf_take :: "pptr \<Rightarrow> UNS8 list \<Rightarrow> pheap \<Rightarrow> (err_t \<times> pheap) option" where
  "pbuf_take buf bs h =
     (case buf of None \<Rightarrow> Some (ERR_ARG, h) | Some a \<Rightarrow> do {
        b \<leftarrow> bufs h a;
        if unat (p_tot_len b) < length bs then Some (ERR_MEM, h)
        else do { h1 \<leftarrow> pbuf_take_loop buf bs h; Some (ERR_OK, h1) } })"

partial_function (option) pbuf_skip :: "pheap \<Rightarrow> pptr \<Rightarrow> UNS16 \<Rightarrow> (pptr \<times> UNS16) option" where
  "pbuf_skip h q offset_left =
     (case q of None \<Rightarrow> Some (None, offset_left) | Some a \<Rightarrow> do {
        b \<leftarrow> bufs h a;
        if p_len b \<le> offset_left then pbuf_skip h (p_next b) (offset_left - p_len b)
        else Some (q, offset_left) })"

text \<open>A negative result of \<open>pbuf_try_get_at\<close> is the inner \<open>None\<close>.\<close>

definition pbuf_try_get_at :: "pheap \<Rightarrow> pptr \<Rightarrow> UNS16 \<Rightarrow> UNS8 option option" where
  "pbuf_try_get_at h p offset = do {
     (q, q_idx) \<leftarrow> pbuf_skip h p offset;
     case q of None \<Rightarrow> Some None
     | Some a \<Rightarrow> do {
         b \<leftarrow> bufs h a;
         if p_len b > q_idx then do { bs \<leftarrow> payload_at b (unat q_idx) 1; Some (Some (hd bs)) } else Some None } }"

definition pbuf_get_at :: "pheap \<Rightarrow> pptr \<Rightarrow> UNS16 \<Rightarrow> UNS8 option" where
  "pbuf_get_at h p offset = map_option (\<lambda>r. case r of Some v \<Rightarrow> v | None \<Rightarrow> 0) (pbuf_try_get_at h p offset)"

definition pbuf_put_at :: "pptr \<Rightarrow> UNS16 \<Rightarrow> UNS8 \<Rightarrow> pheap \<Rightarrow> pheap option" where
  "pbuf_put_at p offset v h = do {
     (q, q_idx) \<leftarrow> pbuf_skip h p offset;
     case q of None \<Rightarrow> Some h
     | Some a \<Rightarrow> do {
         b \<leftarrow> bufs h a;
         if p_len b > q_idx then do { b' \<leftarrow> payload_put b (unat q_idx) [v]; Some (set_buf a b' h) } else Some h } }"

definition pbuf_take_at :: "pptr \<Rightarrow> UNS8 list \<Rightarrow> UNS16 \<Rightarrow> pheap \<Rightarrow> (err_t \<times> pheap) option" where
  "pbuf_take_at buf bs offset h = do {
     (q, target_offset) \<leftarrow> pbuf_skip h buf offset;
     case q of None \<Rightarrow> Some (ERR_MEM, h)
     | Some a \<Rightarrow> do {
         b \<leftarrow> bufs h a;
         if unat (p_tot_len b) \<ge> unat target_offset + length bs then do {
           let k = min (unat (p_len b) - unat target_offset) (length bs);
           b' \<leftarrow> payload_put b (unat target_offset) (take k bs);
           let h1 = set_buf a b' h;
           if drop k bs \<noteq> [] then pbuf_take (p_next b) (drop k bs) h1 else Some (ERR_OK, h1) }
         else Some (ERR_MEM, h) } }"

section \<open>Allocation from the pool\<close>

abbreviation (input) PBUF_POOL_BUFSIZE :: nat where "PBUF_POOL_BUFSIZE \<equiv> 512"

definition mem_align :: "nat \<Rightarrow> nat" where
  "mem_align n = (n + 3) div 4 * 4"

text \<open>
  \<open>junk a\<close> is the memory of the pool element \<open>a\<close>, which allocation leaves as it is. The offset is the
  header space of the layer; it is below the size of an element for all layers.
\<close>

partial_function (option) pbuf_alloc_loop ::
  "(nat \<Rightarrow> UNS8 list) \<Rightarrow> pptr \<Rightarrow> pptr \<Rightarrow> UNS16 \<Rightarrow> UNS16 \<Rightarrow> pheap \<Rightarrow> (pptr \<times> pheap) option" where
  "pbuf_alloc_loop junk p lst rem_len offset h =
     (case memp_malloc h of
        (None, h1) \<Rightarrow> (case p of None \<Rightarrow> Some (None, h1) | Some _ \<Rightarrow> do { (c, h2) \<leftarrow> pbuf_free p h1; Some (None, h2) })
      | (Some q, h1) \<Rightarrow> do {
          let qlen = min rem_len (of_nat (PBUF_POOL_BUFSIZE - mem_align (unat offset)));
          let h2 = set_buf q \<lparr>p_next = None, p_payload = drop (mem_align (unat offset)) (junk q), p_tot_len = rem_len,
                               p_len = qlen, p_type = PBUF_POOL, p_ref = 1\<rparr> h1;
          h3 \<leftarrow> (case p of None \<Rightarrow> Some h2
                 | Some _ \<Rightarrow> do { l \<leftarrow> lst; bl \<leftarrow> bufs h2 l; Some (set_buf l (bl\<lparr>p_next := Some q\<rparr>) h2) });
          let p1 = (if p = None then Some q else p);
          if rem_len - qlen > 0 then pbuf_alloc_loop junk p1 (Some q) (rem_len - qlen) 0 h3
          else Some (p1, h3) })"

definition pbuf_alloc_pool :: "(nat \<Rightarrow> UNS8 list) \<Rightarrow> UNS16 \<Rightarrow> UNS16 \<Rightarrow> pheap \<Rightarrow> (pptr \<times> pheap) option" where
  "pbuf_alloc_pool junk layer n h = pbuf_alloc_loop junk None None n layer h"

section \<open>Chains as lists\<close>

fun chain :: "pheap \<Rightarrow> pptr \<Rightarrow> nat list \<Rightarrow> bool" where
  "chain h p [] = (p = None)"
| "chain h p (a # as) = (p = Some a \<and> (\<exists>b. bufs h a = Some b \<and> chain h (p_next b) as))"

definition buf :: "pheap \<Rightarrow> nat \<Rightarrow> pbuf" where
  "buf h a = the (bufs h a)"

definition pbuf_bytes :: "pbuf \<Rightarrow> UNS8 list" where
  "pbuf_bytes b = take (unat (p_len b)) (p_payload b)"

definition chain_bytes :: "pheap \<Rightarrow> nat list \<Rightarrow> UNS8 list" where
  "chain_bytes h as = concat (map (\<lambda>a. pbuf_bytes (buf h a)) as)"

text \<open>A buffer has at least as many bytes of memory as its length says.\<close>

definition fits :: "pheap \<Rightarrow> nat list \<Rightarrow> bool" where
  "fits h as \<longleftrightarrow> (\<forall>a\<in>set as. unat (p_len (buf h a)) \<le> length (p_payload (buf h a)))"

text \<open>The invariant of \<^verbatim>\<open>pbuf.h\<close>: the total length of a buffer is the sum of the lengths from it on.\<close>

fun totals_ok :: "pheap \<Rightarrow> nat list \<Rightarrow> bool" where
  "totals_ok h [] = True"
| "totals_ok h (a # as) =
     (unat (p_tot_len (buf h a)) = sum_list (map (\<lambda>a. unat (p_len (buf h a))) (a # as)) \<and> totals_ok h as)"

definition packet :: "pheap \<Rightarrow> pptr \<Rightarrow> nat list \<Rightarrow> bool" where
  "packet h p as \<longleftrightarrow> chain h p as \<and> distinct as \<and> fits h as \<and> totals_ok h as"

lemma bufs_set_buf [simp]: "bufs (set_buf a b h) = (bufs h)(a \<mapsto> b)" "pool (set_buf a b h) = pool h"
  by (simp_all add: set_buf_def)

lemma buf_set_buf [simp]: "buf (set_buf a b h) = (buf h)(a := b)"
  by (auto simp: buf_def)

lemma chain_frame:
  "chain h p as \<Longrightarrow> (\<And>a. a \<in> set as \<Longrightarrow> \<exists>b'. bufs h' a = Some b' \<and> p_next b' = p_next (buf h a)) \<Longrightarrow> chain h' p as"
proof (induction as arbitrary: p)
  case (Cons a as)
  then obtain b b' where "p = Some a" "bufs h a = Some b" "chain h (p_next b) as" "bufs h' a = Some b'" "p_next b' = p_next b"
    by (fastforce simp: buf_def)
  with Cons show ?case by auto
qed simp

lemma chain_buf: "chain h p as \<Longrightarrow> a \<in> set as \<Longrightarrow> bufs h a = Some (buf h a)"
  by (induction as arbitrary: p) (auto simp: buf_def)

lemma chain_same: "chain h p as \<Longrightarrow> (\<And>a. a \<in> set as \<Longrightarrow> bufs h' a = bufs h a) \<Longrightarrow> chain h' p as"
proof (induction as arbitrary: p)
  case (Cons a as)
  then obtain b where "p = Some a" "bufs h a = Some b" "chain h' (p_next b) as" by auto
  with Cons.prems(2) [of a] show ?case by simp
qed simp

lemma chain_set_buf: "chain h p as \<Longrightarrow> a \<notin> set as \<Longrightarrow> chain (set_buf a b h) p as"
  by (erule chain_same) auto

lemma length_pbuf_bytes: "unat (p_len b) \<le> length (p_payload b) \<Longrightarrow> length (pbuf_bytes b) = unat (p_len b)"
  by (simp add: pbuf_bytes_def)

lemma length_chain_bytes:
  "fits h as \<Longrightarrow> length (chain_bytes h as) = sum_list (map (\<lambda>a. unat (p_len (buf h a))) as)"
  by (induction as) (auto simp: chain_bytes_def fits_def length_pbuf_bytes)

lemma totals_length: "fits h (a # as) \<Longrightarrow> totals_ok h (a # as) \<Longrightarrow> unat (p_tot_len (buf h a)) = length (chain_bytes h (a # as))"
  by (simp add: length_chain_bytes)

section \<open>Copies see one sequence of bytes\<close>

lemma copy_loop_bytes:
  assumes "chain h p as" "fits h as"
  shows "pbuf_copy_loop h p n off out = Some (out @ take (unat n) (drop (unat off) (chain_bytes h as)))"
  using assms
proof (induction as arbitrary: p n off out)
  case Nil
  then show ?case by (subst pbuf_copy_loop.simps) (simp add: chain_bytes_def)
next
  case (Cons a as)
  then obtain b where b: "p = Some a" "bufs h a = Some b" "chain h (p_next b) as" by auto
  have l: "unat (p_len b) \<le> length (p_payload b)" "fits h as"
    using Cons.prems(2) b(2) by (auto simp: fits_def buf_def)
  have cb: "chain_bytes h (a # as) = pbuf_bytes b @ chain_bytes h as"
    using b(2) by (simp add: chain_bytes_def buf_def)
  note lb = length_pbuf_bytes [OF l(1)]
  show ?case
  proof (cases "n = 0")
    case True
    then show ?thesis using b by (subst pbuf_copy_loop.simps) simp
  next
    case False
    show ?thesis
    proof (cases "off \<noteq> 0 \<and> off \<ge> p_len b")
      case True
      then have "unat (off - p_len b) = unat off - unat (p_len b)" "unat (p_len b) \<le> unat off"
        by (simp_all add: unat_sub word_le_nat_alt)
      with True False b Cons.IH [OF b(3) l(2)] show ?thesis
        by (subst pbuf_copy_loop.simps) (simp add: cb lb)
    next
      case off: False
      then have le: "off \<le> p_len b" by (auto simp: word_le_nat_alt)
      define k where "k = (if p_len b - off > n then n else p_len b - off)"
      have k: "unat k = min (unat n) (unat (p_len b) - unat off)" "unat off \<le> unat (p_len b)"
        using le by (auto simp: k_def unat_sub word_less_nat_alt word_le_nat_alt)
      then have nk: "unat (n - k) = unat n - unat k" by (subst unat_sub) (simp_all add: word_le_nat_alt)
      have pay: "payload_at b (unat off) (unat k) = Some (take (unat n) (drop (unat off) (pbuf_bytes b)))"
        using k l(1) by (auto simp: payload_at_def pbuf_bytes_def drop_take min_def)
      have "pbuf_copy_loop h p n off out =
          pbuf_copy_loop h (p_next b) (n - k) 0 (out @ take (unat n) (drop (unat off) (pbuf_bytes b)))"
        using False off b pay by (subst pbuf_copy_loop.simps) (auto simp: k_def [symmetric] Let_def)
      moreover have "take (unat n - (length (pbuf_bytes b) - unat off)) (chain_bytes h as) =
          take (unat n - unat k) (chain_bytes h as)"
        using k lb by (auto simp: min_def)
      ultimately show ?thesis using Cons.IH [OF b(3) l(2)] k(2) lb nk by (simp add: cb)
    qed
  qed
qed

text \<open>Storing into a chain: everything but the payload of its buffers stays, and the bytes change where they are written.\<close>

definition same_shape :: "pheap \<Rightarrow> pheap \<Rightarrow> nat list \<Rightarrow> bool" where
  "same_shape h h' as \<longleftrightarrow> pool h' = pool h \<and> (\<forall>a. a \<notin> set as \<longrightarrow> bufs h' a = bufs h a) \<and>
     (\<forall>a\<in>set as. \<exists>bs. length bs = length (p_payload (buf h a)) \<and> bufs h' a = Some (buf h a\<lparr>p_payload := bs\<rparr>))"

lemma same_shape_buf:
  "same_shape h h' as \<Longrightarrow> a \<in> set as \<Longrightarrow> \<exists>bs. length bs = length (p_payload (buf h a)) \<and> buf h' a = buf h a\<lparr>p_payload := bs\<rparr>"
  by (fastforce simp: same_shape_def buf_def)

lemma same_shape_lens:
  assumes "same_shape h h' as" "a \<in> set as"
  shows "p_len (buf h' a) = p_len (buf h a)" "p_tot_len (buf h' a) = p_tot_len (buf h a)"
    "length (p_payload (buf h' a)) = length (p_payload (buf h a))" "p_ref (buf h' a) = p_ref (buf h a)"
  using same_shape_buf [OF assms] by auto

lemma totals_cong:
  assumes "\<And>a. a \<in> set as \<Longrightarrow> p_len (buf h' a) = p_len (buf h a)" "\<And>a. a \<in> set as \<Longrightarrow> p_tot_len (buf h' a) = p_tot_len (buf h a)"
  shows "totals_ok h' as = totals_ok h as"
  using assms
proof (induction as)
  case (Cons a as)
  have "sum_list (map (\<lambda>a. unat (p_len (buf h' a))) as) = sum_list (map (\<lambda>a. unat (p_len (buf h a))) as)"
    by (rule arg_cong [of _ _ sum_list]) (use Cons.prems(1) in simp)
  with Cons show ?case by simp
qed simp

lemma same_shape_packet:
  assumes "same_shape h h' as" "packet h p as"
  shows "packet h' p as"
proof -
  have c: "chain h p as" using assms(2) by (simp add: packet_def)
  have "\<exists>b'. bufs h' a = Some b' \<and> p_next b' = p_next (buf h a)" if "a \<in> set as" for a
    using assms(1) that by (fastforce simp: same_shape_def)
  with c have "chain h' p as" by (rule chain_frame)
  moreover have "totals_ok h' as = totals_ok h as"
    by (rule totals_cong) (simp_all add: same_shape_lens(1,2) [OF assms(1)])
  ultimately show ?thesis
    using assms(2) by (simp add: packet_def fits_def same_shape_lens(1,3) [OF assms(1)])
qed

lemma chain_bytes_cong:
  "(\<And>a. a \<in> set as \<Longrightarrow> buf h' a = buf h a) \<Longrightarrow> chain_bytes h' as = chain_bytes h as"
  by (induction as) (auto simp: chain_bytes_def)

lemma take_loop_bytes:
  assumes "chain h p as" "distinct as" "fits h as" "length bs \<le> length (chain_bytes h as)"
  shows "\<exists>h'. pbuf_take_loop p bs h = Some h' \<and> same_shape h h' as \<and>
     chain_bytes h' as = bs @ drop (length bs) (chain_bytes h as)"
  using assms
proof (induction as arbitrary: p bs h)
  case Nil
  then show ?case by (subst pbuf_take_loop.simps) (simp add: chain_bytes_def same_shape_def)
next
  case (Cons a as)
  then obtain b where b: "p = Some a" "bufs h a = Some b" "chain h (p_next b) as" by auto
  have ba: "buf h a = b" using b(2) by (simp add: buf_def)
  have l: "unat (p_len b) \<le> length (p_payload b)" "fits h as" "a \<notin> set as" "distinct as"
    using Cons.prems(2,3) ba by (auto simp: fits_def)
  have cb: "chain_bytes h (a # as) = pbuf_bytes b @ chain_bytes h as" using ba by (simp add: chain_bytes_def)
  show ?case
  proof (cases "bs = []")
    case True
    have "same_shape h h (a # as)"
      using chain_buf [OF Cons.prems(1)] by (auto simp: same_shape_def intro!: exI [of _ "p_payload (buf h _)"])
    with True show ?thesis by (subst pbuf_take_loop.simps) simp
  next
    case False
    define k where "k = min (unat (p_len b)) (length bs)"
    define b' where "b' = b\<lparr>p_payload := take k bs @ drop k (p_payload b)\<rparr>"
    define h1 where "h1 = set_buf a b' h"
    have lk: "length (take k bs) = k" "k \<le> length (p_payload b)" using l(1) by (auto simp: k_def)
    have put: "payload_put b 0 (take k bs) = Some b'" using lk by (simp add: payload_put_def b'_def)
    have step: "pbuf_take_loop p bs h = pbuf_take_loop (p_next b) (drop k bs) h1"
      using False b put by (subst pbuf_take_loop.simps) (auto simp: k_def min_def h1_def not_less)
    have same: "buf h1 c = buf h c" if "c \<in> set as" for c using that l(3) by (auto simp: h1_def)
    have c1: "chain h1 (p_next b) as"
      unfolding h1_def using b(3) l(3) by (rule chain_set_buf)
    have f1: "fits h1 as" "chain_bytes h1 as = chain_bytes h as"
      using l(2) same chain_bytes_cong [of as h1 h] by (auto simp: fits_def)
    have "length (drop k bs) \<le> length (chain_bytes h1 as)"
      using Cons.prems(4) f1(2) length_pbuf_bytes [OF l(1)] by (auto simp: cb k_def min_def)
    from Cons.IH [OF c1 l(4) f1(1) this] obtain h' where h': "pbuf_take_loop (p_next b) (drop k bs) h1 = Some h'"
        "same_shape h1 h' as" "chain_bytes h' as = drop k bs @ drop (length (drop k bs)) (chain_bytes h as)"
      unfolding f1(2) by blast
    have ha: "bufs h' a = Some b'" using h'(2) l(3) by (simp add: same_shape_def h1_def)
    have "same_shape h h' (a # as)"
      using h'(2) ha lk l(3) same by (auto simp: same_shape_def h1_def b'_def ba intro!: exI [of _ "take k bs @ drop k (p_payload b)"])
    moreover have "pbuf_bytes b' = take k bs @ drop k (pbuf_bytes b)"
      using lk by (simp add: b'_def pbuf_bytes_def k_def drop_take)
    then have "chain_bytes h' (a # as) = bs @ drop (length bs) (chain_bytes h (a # as))"
      using ha h'(3) length_pbuf_bytes [OF l(1)] by (auto simp: cb chain_bytes_def [of h' "a # as"] buf_def [of h' a] k_def min_def
        simp flip: chain_bytes_def)
    ultimately show ?thesis using step h'(1) by auto
  qed
qed

lemma skip_bytes:
  assumes "chain h p as" "fits h as"
  shows "\<exists>q i. pbuf_skip h p off = Some (q, i) \<and>
     (case q of None \<Rightarrow> length (chain_bytes h as) \<le> unat off
      | Some a \<Rightarrow> \<exists>xs ys. as = xs @ a # ys \<and> unat i < unat (p_len (buf h a)) \<and> unat off = length (chain_bytes h xs) + unat i)"
  using assms
proof (induction as arbitrary: p off)
  case Nil
  then show ?case by (subst pbuf_skip.simps) (simp add: chain_bytes_def)
next
  case (Cons a as)
  then obtain b where b: "p = Some a" "bufs h a = Some b" "chain h (p_next b) as" by auto
  have ba: "buf h a = b" using b(2) by (simp add: buf_def)
  have l: "length (pbuf_bytes b) = unat (p_len b)" "fits h as"
    using Cons.prems(2) ba by (auto simp: fits_def length_pbuf_bytes)
  have cb: "chain_bytes h (a # xs) = pbuf_bytes b @ chain_bytes h xs" for xs using ba by (simp add: chain_bytes_def)
  show ?case
  proof (cases "p_len b \<le> off")
    case True
    obtain q i where qi: "pbuf_skip h (p_next b) (off - p_len b) = Some (q, i)"
        "case q of None \<Rightarrow> length (chain_bytes h as) \<le> unat (off - p_len b)
         | Some a \<Rightarrow> \<exists>xs ys. as = xs @ a # ys \<and> unat i < unat (p_len (buf h a)) \<and>
             unat (off - p_len b) = length (chain_bytes h xs) + unat i"
      using Cons.IH [OF b(3) l(2), of "off - p_len b"] by blast
    have u: "unat (off - p_len b) = unat off - unat (p_len b)" "unat (p_len b) \<le> unat off"
      using True by (simp_all add: unat_sub word_le_nat_alt)
    have "pbuf_skip h p off = Some (q, i)" using True b qi(1) by (subst pbuf_skip.simps) simp
    moreover have "\<exists>xs ys. a # as = xs @ c # ys \<and> unat i < unat (p_len (buf h c)) \<and> unat off = length (chain_bytes h xs) + unat i"
      if "as = xs @ c # ys" "unat i < unat (p_len (buf h c))" "unat (off - p_len b) = length (chain_bytes h xs) + unat i" for c xs ys
      using that u by (intro exI [of _ "a # xs"] exI [of _ ys]) (simp add: cb l(1))
    ultimately show ?thesis using qi(2) u by (auto simp: cb l(1) split: option.splits)
  next
    case False
    then have "pbuf_skip h p off = Some (p, off)" using b by (subst pbuf_skip.simps) simp
    moreover have "\<exists>xs ys. a # as = xs @ a # ys \<and> unat off < unat (p_len (buf h a)) \<and> unat off = length (chain_bytes h xs) + unat off"
      using False ba by (intro exI [of _ "[]"] exI [of _ as]) (simp add: word_le_nat_alt chain_bytes_def)
    ultimately show ?thesis using b(1) by simp
  qed
qed

lemma get_at_bytes:
  assumes "chain h p as" "fits h as"
  shows "pbuf_get_at h p off = Some (if unat off < length (chain_bytes h as) then chain_bytes h as ! unat off else 0)"
proof -
  obtain q i where q: "pbuf_skip h p off = Some (q, i)"
     "case q of None \<Rightarrow> length (chain_bytes h as) \<le> unat off
      | Some a \<Rightarrow> \<exists>xs ys. as = xs @ a # ys \<and> unat i < unat (p_len (buf h a)) \<and> unat off = length (chain_bytes h xs) + unat i"
    using skip_bytes [OF assms] by blast
  show ?thesis
  proof (cases q)
    case None
    with q show ?thesis by (simp add: pbuf_get_at_def pbuf_try_get_at_def)
  next
    case (Some a)
    then obtain xs ys where as: "as = xs @ a # ys" "unat i < unat (p_len (buf h a))" "unat off = length (chain_bytes h xs) + unat i"
      using q(2) by auto
    have b: "bufs h a = Some (buf h a)" using chain_buf [OF assms(1)] as(1) by simp
    have l: "unat (p_len (buf h a)) \<le> length (p_payload (buf h a))" using assms(2) as(1) by (simp add: fits_def)
    have "payload_at (buf h a) (unat i) 1 = Some [p_payload (buf h a) ! unat i]"
      using as(2) l by (auto simp: payload_at_def take_Suc_conv_app_nth hd_drop_conv_nth take_Suc)
    moreover have "chain_bytes h as = chain_bytes h xs @ pbuf_bytes (buf h a) @ chain_bytes h ys"
      by (simp add: as(1) chain_bytes_def)
    ultimately show ?thesis
      using q(1) Some b as(2,3) l length_pbuf_bytes [OF l]
      by (simp add: pbuf_get_at_def pbuf_try_get_at_def word_less_nat_alt nth_append pbuf_bytes_def)
  qed
qed

section \<open>What a release frees\<close>

definition released :: "pheap \<Rightarrow> nat list \<Rightarrow> nat list" where
  "released h as = takeWhile (\<lambda>a. p_ref (buf h a) = 1) as"

definition retained :: "pheap \<Rightarrow> nat list \<Rightarrow> nat list" where
  "retained h as = dropWhile (\<lambda>a. p_ref (buf h a) = 1) as"

definition freed :: "pheap \<Rightarrow> pheap \<Rightarrow> nat list \<Rightarrow> bool" where
  "freed h h' as \<longleftrightarrow>
     (\<forall>a. bufs h' a =
        (if a \<in> set (released h as) then None
         else if retained h as \<noteq> [] \<and> a = hd (retained h as) then Some (buf h a\<lparr>p_ref := p_ref (buf h a) - 1\<rparr>)
         else bufs h a)) \<and>
     pool h' = rev (filter (\<lambda>a. p_type (buf h a) = PBUF_POOL) (released h as)) @ pool h"

lemma bufs_dealloc [simp]: "bufs (dealloc a b h) = (bufs h)(a := None)"
  "pool (dealloc a b h) = (if p_type b = PBUF_POOL then [a] else []) @ pool h"
  by (simp_all add: dealloc_def memp_free_def Let_def)

lemma set_released: "set (released h as) \<subseteq> set as"
  unfolding released_def by (auto dest: set_takeWhileD)

lemma hd_retained: "retained h as \<noteq> [] \<Longrightarrow> hd (retained h as) \<in> set as"
  unfolding retained_def by (rule set_dropWhileD [OF hd_in_set])

lemma free_loop_chain:
  assumes "chain h p as" "distinct as"
  shows "\<exists>h'. pbuf_free_loop p c h = Some (c + of_nat (length (released h as)), h') \<and> freed h h' as"
  using assms
proof (induction as arbitrary: p c h)
  case Nil
  then show ?case by (subst pbuf_free_loop.simps) (simp add: released_def retained_def freed_def)
next
  case (Cons a as)
  then obtain b where b: "p = Some a" "bufs h a = Some b" "chain h (p_next b) as" by auto
  have ba: "buf h a = b" using b(2) by (simp add: buf_def)
  have ref: "a \<notin> set as" "distinct as" using Cons.prems(2) by auto
  show ?case
  proof (cases "p_ref b = 1")
    case False
    then have "p_ref b - 1 \<noteq> 0" by simp
    with b ref have "pbuf_free_loop p c h = Some (c, set_buf a (b\<lparr>p_ref := p_ref b - 1\<rparr>) h)"
      by (subst pbuf_free_loop.simps) simp
    with False ba show ?thesis by (simp add: released_def retained_def freed_def)
  next
    case True
    define h1 where "h1 = dealloc a b h"
    have same: "buf h1 x = buf h x" if "x \<in> set as" for x using that ref(1) by (auto simp: h1_def buf_def)
    have c1: "chain h1 (p_next b) as"
      using ref(1) by (intro chain_same [OF b(3)]) (auto simp: h1_def)
    have rr: "released h1 as = released h as" "retained h1 as = retained h as"
      unfolding released_def retained_def using same by (auto intro: takeWhile_cong dropWhile_cong)
    obtain h' where h': "pbuf_free_loop (p_next b) (c + 1) h1 = Some (c + 1 + of_nat (length (released h as)), h')" "freed h1 h' as"
      using Cons.IH [OF c1 ref(2)] same unfolding rr by fastforce
    have step: "pbuf_free_loop p c h = pbuf_free_loop (p_next b) (c + 1) h1"
      using True b by (subst pbuf_free_loop.simps) (simp add: h1_def)
    have r: "released h (a # as) = a # released h as" "retained h (a # as) = retained h as"
      using True ba by (simp_all add: released_def retained_def)
    have sub: "set (released h as) \<subseteq> set as" "retained h as \<noteq> [] \<Longrightarrow> hd (retained h as) \<in> set as"
      by (rule set_released, rule hd_retained)
    have fl: "filter (\<lambda>a. p_type (buf h1 a) = PBUF_POOL) (released h as) = filter (\<lambda>a. p_type (buf h a) = PBUF_POOL) (released h as)"
      using sub(1) same by (intro filter_cong) auto
    have "freed h h' (a # as)"
      using h'(2) sub ref(1) ba same unfolding freed_def r rr fl by (auto simp: h1_def)
    with step h'(1) show ?thesis unfolding r by (auto simp: algebra_simps)
  qed
qed

section \<open>Concatenation\<close>

lemma chain_link:
  assumes "chain h p as" "as \<noteq> []" "distinct as" "chain h' q bs"
    and "\<And>x. x \<in> set as \<Longrightarrow> \<exists>b'. bufs h' x = Some b' \<and> p_next b' = (if x = List.last as then q else p_next (buf h x))"
  shows "chain h' p (as @ bs)"
  using assms
proof (induction as arbitrary: p)
  case (Cons a as)
  then obtain b where b: "p = Some a" "bufs h a = Some b" "chain h (p_next b) as" by auto
  have ba: "buf h a = b" using b(2) by (simp add: buf_def)
  obtain b' where b': "bufs h' a = Some b'" "p_next b' = (if a = List.last (a # as) then q else p_next b)"
    using Cons.prems(5) [of a] ba by auto
  show ?case
  proof (cases "as = []")
    case True
    then show ?thesis using b b' Cons.prems(4) by simp
  next
    case False
    have "chain h' (p_next b) (as @ bs)"
    proof (rule Cons.IH [OF b(3) False])
      show "distinct as" "chain h' q bs" using Cons.prems by auto
      fix x assume "x \<in> set as"
      then show "\<exists>b'. bufs h' x = Some b' \<and> p_next b' = (if x = List.last as then q else p_next (buf h x))"
        using Cons.prems(5) [of x] False by auto
    qed
    moreover have "a \<noteq> List.last as" using Cons.prems(3) False last_in_set [of as] by auto
    ultimately show ?thesis using b b' False by simp
  qed
qed simp

lemma cat_loop_chain:
  assumes "chain h (Some p) as" "distinct as" "t \<notin> set as" "bufs h t = Some bt"
  shows "\<exists>h'. pbuf_cat_loop p t h = Some h' \<and> pool h' = pool h \<and> (\<forall>x. x \<notin> set as \<longrightarrow> bufs h' x = bufs h x) \<and>
     (\<forall>x\<in>set as. bufs h' x = Some (buf h x\<lparr>p_tot_len := p_tot_len (buf h x) + p_tot_len bt,
        p_next := (if x = List.last as then Some t else p_next (buf h x))\<rparr>))"
  using assms
proof (induction as arbitrary: p h)
  case (Cons a as)
  then obtain b where b: "p = a" "bufs h a = Some b" "chain h (p_next b) as" by auto
  have ba: "buf h a = b" using b(2) by (simp add: buf_def)
  have na: "a \<notin> set as" "distinct as" "t \<noteq> a" "t \<notin> set as" using Cons.prems by auto
  show ?case
  proof (cases as)
    case Nil
    with b ba Cons.prems(4) have "pbuf_cat_loop p t h =
        Some (set_buf a (b\<lparr>p_tot_len := p_tot_len b + p_tot_len bt, p_next := Some t\<rparr>) h)"
      by (subst pbuf_cat_loop.simps) simp
    with Nil ba show ?thesis by simp
  next
    case (Cons n as')
    then have n: "p_next b = Some n" using b(3) by simp
    define h1 where "h1 = set_buf a (b\<lparr>p_tot_len := p_tot_len b + p_tot_len bt\<rparr>) h"
    have step: "pbuf_cat_loop p t h = pbuf_cat_loop n t h1"
      unfolding h1_def b(1) by (subst pbuf_cat_loop.simps) (simp add: b(2) n Cons.prems(4))
    have same: "buf h1 x = buf h x" if "x \<in> set as" for x using that na by (auto simp: h1_def)
    have c1: "chain h1 (Some n) as"
      unfolding h1_def using b(3) na(1) unfolding n by (rule chain_set_buf)
    have la: "List.last as \<in> set as" "List.last (a # as) = List.last as" "a \<noteq> List.last as"
      using Cons na(1) last_in_set [of as] by auto
    have "bufs h1 t = Some bt" using Cons.prems(4) na by (auto simp: h1_def)
    from Cons.IH [OF c1 na(2,4) this] obtain h' where h': "pbuf_cat_loop n t h1 = Some h'" "pool h' = pool h1"
        "\<forall>x. x \<notin> set as \<longrightarrow> bufs h' x = bufs h1 x"
        "\<forall>x\<in>set as. bufs h' x = Some (buf h1 x\<lparr>p_tot_len := p_tot_len (buf h1 x) + p_tot_len bt,
           p_next := (if x = List.last as then Some t else p_next (buf h1 x))\<rparr>)"
      by blast
    have "bufs h' x = bufs h x" if "x \<notin> set (a # as)" for x
      using h'(3) that by (simp add: h1_def)
    moreover have "bufs h' a = Some (buf h a\<lparr>p_tot_len := p_tot_len (buf h a) + p_tot_len bt, p_next := p_next (buf h a)\<rparr>)"
      using h'(3) na(1) ba by (simp add: h1_def)
    ultimately show ?thesis
      using step h' la same by (intro exI [of _ h']) (simp add: h1_def)
  qed
qed simp

lemma totals_hd: "totals_ok h as \<Longrightarrow> as \<noteq> [] \<Longrightarrow>
    unat (p_tot_len (buf h (hd as))) = sum_list (map (\<lambda>a. unat (p_len (buf h a))) as)"
  by (cases as) auto

lemma totals_append:
  assumes "totals_ok h as" "totals_ok h' bs"
    and "\<And>x. x \<in> set as \<Longrightarrow> p_len (buf h' x) = p_len (buf h x)"
    and "\<And>x. x \<in> set as \<Longrightarrow> p_tot_len (buf h' x) = p_tot_len (buf h x) + k"
    and "unat k = sum_list (map (\<lambda>a. unat (p_len (buf h' a))) bs)"
    and "sum_list (map (\<lambda>a. unat (p_len (buf h a))) as) + unat k < 65536"
  shows "totals_ok h' (as @ bs)"
  using assms
proof (induction as)
  case (Cons a as)
  have s: "sum_list (map (\<lambda>a. unat (p_len (buf h' a))) as) = sum_list (map (\<lambda>a. unat (p_len (buf h a))) as)"
    by (rule arg_cong [of _ _ sum_list]) (use Cons.prems(3) in simp)
  have "unat (p_tot_len (buf h a) + k) = unat (p_tot_len (buf h a)) + unat k"
    using Cons.prems(1,6) by (simp add: unat_word_ariths)
  then show ?case using Cons s by simp
qed simp

lemma cat_packet:
  assumes "packet h (Some p) as" "packet h (Some t) bs" "set as \<inter> set bs = {}"
    and "length (chain_bytes h as) + length (chain_bytes h bs) < 65536"
  shows "\<exists>h'. pbuf_cat (Some p) (Some t) h = Some h' \<and> packet h' (Some p) (as @ bs) \<and>
     chain_bytes h' (as @ bs) = chain_bytes h as @ chain_bytes h bs \<and> pool h' = pool h \<and>
     (\<forall>x. x \<notin> set as \<longrightarrow> bufs h' x = bufs h x) \<and> (\<forall>x\<in>set as. p_ref (buf h' x) = p_ref (buf h x))"
proof -
  have a: "chain h (Some p) as" "distinct as" "fits h as" "totals_ok h as" and b: "chain h (Some t) bs" "distinct bs" "fits h bs" "totals_ok h bs"
    using assms(1,2) by (auto simp: packet_def)
  have ne: "as \<noteq> []" "bs \<noteq> []" "hd bs = t" "t \<in> set bs" using a(1) b(1) by (cases as; cases bs; auto)+
  have t: "t \<notin> set as" "bufs h t = Some (buf h t)" using assms(3) ne(4) chain_buf [OF b(1)] by auto
  obtain h' where h': "pbuf_cat_loop p t h = Some h'" "pool h' = pool h" "\<forall>x. x \<notin> set as \<longrightarrow> bufs h' x = bufs h x"
     "\<forall>x\<in>set as. bufs h' x = Some (buf h x\<lparr>p_tot_len := p_tot_len (buf h x) + p_tot_len (buf h t),
        p_next := (if x = List.last as then Some t else p_next (buf h x))\<rparr>)"
    using cat_loop_chain [OF a(1,2) t] by blast
  have fa: "buf h' x = buf h x\<lparr>p_tot_len := p_tot_len (buf h x) + p_tot_len (buf h t),
        p_next := (if x = List.last as then Some t else p_next (buf h x))\<rparr>" if "x \<in> set as" for x
    using h'(4) that by (simp add: buf_def)
  have fb: "bufs h' x = bufs h x" "buf h' x = buf h x" if "x \<in> set bs" for x
    using h'(3) that assms(3) by (auto simp: buf_def)
  have cb: "chain h' (Some t) bs" using fb(1) by (rule chain_same [OF b(1)])
  have "chain h' (Some p) (as @ bs)" by (rule chain_link [OF a(1) ne(1) a(2) cb]) (use h'(4) in auto)
  moreover have tb: "totals_ok h' bs" using totals_cong [of bs h' h] fb b(4) by simp
  have sb: "sum_list (map (\<lambda>a. unat (p_len (buf h' a))) bs) = sum_list (map (\<lambda>a. unat (p_len (buf h a))) bs)"
    by (rule arg_cong [of _ _ sum_list]) (use fb in simp)
  have "totals_ok h' (as @ bs)"
    by (rule totals_append [OF a(4) tb, where k = "p_tot_len (buf h t)"])
      (use fa sb totals_hd [OF b(4) ne(2)] ne(3) assms(4) length_chain_bytes [OF a(3)] length_chain_bytes [OF b(3)] in auto)
  moreover have "fits h' (as @ bs)" using a(3) b(3) fa fb by (auto simp: fits_def)
  moreover have "chain_bytes h' (as @ bs) = chain_bytes h as @ chain_bytes h bs"
    unfolding chain_bytes_def map_append concat_append
    by (intro arg_cong2 [of _ _ _ _ append] arg_cong [of _ _ concat] map_cong) (auto simp: fa fb pbuf_bytes_def)
  ultimately show ?thesis
    using h' a(2) b(2) assms(3) fa by (intro exI [of _ h']) (auto simp: pbuf_cat_def packet_def)
qed

section \<open>Allocation\<close>

text \<open>A chain under construction: \<open>r\<close> bytes are missing in every total length.\<close>

fun totals_plus :: "pheap \<Rightarrow> nat list \<Rightarrow> nat \<Rightarrow> bool" where
  "totals_plus h [] r = True"
| "totals_plus h (a # as) r =
     (unat (p_tot_len (buf h a)) = sum_list (map (\<lambda>a. unat (p_len (buf h a))) (a # as)) + r \<and> totals_plus h as r)"

definition building :: "pheap \<Rightarrow> pptr \<Rightarrow> nat list \<Rightarrow> nat \<Rightarrow> bool" where
  "building h p as r \<longleftrightarrow> chain h p as \<and> as \<noteq> [] \<and> distinct as \<and> fits h as \<and> totals_plus h as r \<and>
     (\<forall>a\<in>set as. p_ref (buf h a) = 1 \<and> p_type (buf h a) = PBUF_POOL)"

lemma totals_plus_0: "totals_plus h as 0 = totals_ok h as"
  by (induction as) auto

lemma totals_plus_extend:
  assumes "totals_plus h as r" "unat (p_len (buf h' k)) + r' = r" "unat (p_tot_len (buf h' k)) = r"
    and "\<And>a. a \<in> set as \<Longrightarrow> p_len (buf h' a) = p_len (buf h a)"
    and "\<And>a. a \<in> set as \<Longrightarrow> p_tot_len (buf h' a) = p_tot_len (buf h a)"
  shows "totals_plus h' (as @ [k]) r'"
  using assms
proof (induction as)
  case (Cons a as)
  have "sum_list (map (\<lambda>a. unat (p_len (buf h' a))) as) = sum_list (map (\<lambda>a. unat (p_len (buf h a))) as)"
    by (rule arg_cong [of _ _ sum_list]) (use Cons.prems(4) in simp)
  with Cons show ?case by simp
qed simp

lemma building_extend:
  assumes "building h p as r" "k \<notin> set as" "p_next b = None" "p_ref b = 1" "p_type b = PBUF_POOL"
    and "unat (p_len b) \<le> length (p_payload b)" "unat (p_len b) + r' = r" "unat (p_tot_len b) = r"
  shows "building (set_buf (List.last as) (buf h (List.last as)\<lparr>p_next := Some k\<rparr>) (set_buf k b h)) p (as @ [k]) r'"
    (is "building ?h' p (as @ [k]) r'")
proof -
  have c: "chain h p as" "as \<noteq> []" "distinct as" "fits h as" "totals_plus h as r" using assms(1) by (auto simp: building_def)
  have la: "List.last as \<in> set as" "List.last as \<noteq> k" using c(2) assms(2) by auto
  have nk: "bufs ?h' k = Some b" "buf ?h' k = b" using la by (auto simp: buf_def)
  have old: "buf ?h' x = (if x = List.last as then buf h x\<lparr>p_next := Some k\<rparr> else buf h x)" if "x \<in> set as" for x
    using that assms(2) by auto
  have "chain ?h' p (as @ [k])"
  proof (rule chain_link [OF c(1,2,3)])
    show "chain ?h' (Some k) [k]" using nk assms(3) by simp
    fix x assume "x \<in> set as"
    then show "\<exists>b'. bufs ?h' x = Some b' \<and> p_next b' = (if x = List.last as then Some k else p_next (buf h x))"
      using assms(2) chain_buf [OF c(1)] by auto
  qed
  moreover have "totals_plus ?h' (as @ [k]) r'"
    by (rule totals_plus_extend [OF c(5)]) (use nk(2) old assms(7,8) in auto)
  moreover have "fits ?h' (as @ [k])" using c(4) old nk(2) assms(6) by (auto simp: fits_def)
  ultimately show ?thesis using assms(1,2,4,5) old nk(2) by (auto simp: building_def)
qed

lemma free_building:
  assumes "building h p as r"
  shows "\<exists>c h'. pbuf_free p h = Some (c, h') \<and> bufs h' = (\<lambda>x. if x \<in> set as then None else bufs h x) \<and> pool h' = rev as @ pool h"
proof -
  have c: "chain h p as" "distinct as" "as \<noteq> []" "\<forall>a\<in>set as. p_ref (buf h a) = 1 \<and> p_type (buf h a) = PBUF_POOL"
    using assms by (auto simp: building_def)
  then have r: "released h as = as" "retained h as = []" "filter (\<lambda>a. p_type (buf h a) = PBUF_POOL) as = as"
    by (auto simp: released_def retained_def)
  have "p \<noteq> None" using c(1,3) by (cases as) auto
  with free_loop_chain [OF c(1,2), of 0] r show ?thesis
    by (auto simp: pbuf_free_def freed_def fun_eq_iff)
qed

definition blocks :: "nat \<Rightarrow> nat" where
  "blocks n = (n + 511) div 512"

lemma blocks_step: "0 < n \<Longrightarrow> n \<le> 512 \<Longrightarrow> blocks n = 1" "512 < n \<Longrightarrow> blocks n = Suc (blocks (n - 512))"
  by (simp_all add: blocks_def)

lemma buf_pool [simp]: "buf (h\<lparr>pool := x\<rparr>) = buf h"
  by (simp add: buf_def fun_eq_iff)

lemma building_pool [simp]: "building (h\<lparr>pool := x\<rparr>) p as r = building h p as r"
proof -
  have "chain (h\<lparr>pool := x\<rparr>) p as = chain h p as" by (induction as arbitrary: p) auto
  moreover have "totals_plus (h\<lparr>pool := x\<rparr>) as r = totals_plus h as r" by (induction as) auto
  ultimately show ?thesis by (simp add: building_def fits_def)
qed

lemma alloc_step:
  assumes "building h (Some p) as (unat rm)" "0 < rm" "pool h = k # ks" "k \<notin> set as" "length (junk k) = 512"
  defines "q \<equiv> min rm 512"
  shows "\<exists>h3. pbuf_alloc_loop junk (Some p) (Some (List.last as)) rm 0 h =
       (if rm - q > 0 then pbuf_alloc_loop junk (Some p) (Some k) (rm - q) 0 h3 else Some (Some p, h3)) \<and>
     building h3 (Some p) (as @ [k]) (unat (rm - q)) \<and> pool h3 = ks \<and> (\<forall>x. x \<notin> insert k (set as) \<longrightarrow> bufs h3 x = bufs h x) \<and>
     p_tot_len (buf h3 p) = p_tot_len (buf h p)"
proof -
  define b where "b = \<lparr>p_next = None, p_payload = junk k, p_tot_len = rm, p_len = q, p_type = PBUF_POOL, p_ref = 1\<rparr>"
  define h1 where "h1 = h\<lparr>pool := ks\<rparr>"
  define h3 where "h3 = set_buf (List.last as) (buf h1 (List.last as)\<lparr>p_next := Some k\<rparr>) (set_buf k b h1)"
  have c: "chain h (Some p) as" "as \<noteq> []" using assms(1) by (auto simp: building_def)
  then have la: "List.last as \<in> set as" "List.last as \<noteq> k" "bufs h (List.last as) = Some (buf h (List.last as))"
    using assms(4) chain_buf [OF c(1)] by auto
  have "p \<in> set as" using c by (cases as) auto
  then have "p_tot_len (buf h3 p) = p_tot_len (buf h p)" using assms(4) la(2) by (auto simp: h3_def h1_def)
  moreover have q: "unat q = min (unat rm) 512" by (auto simp: q_def min_def word_le_nat_alt)
  have u: "unat q + unat (rm - q) = unat rm" "unat q \<le> 512"
    using q by (auto simp: unat_sub word_le_nat_alt)
  moreover have "building h3 (Some p) (as @ [k]) (unat (rm - q))"
    unfolding h3_def by (rule building_extend [of _ _ _ "unat rm"]) (use assms(1,4,5) u in \<open>auto simp: h1_def b_def\<close>)
  moreover have "pbuf_alloc_loop junk (Some p) (Some (List.last as)) rm 0 h =
       (if rm - q > 0 then pbuf_alloc_loop junk (Some p) (Some k) (rm - q) 0 h3 else Some (Some p, h3))"
    using assms(3) la by (subst pbuf_alloc_loop.simps)
      (simp add: memp_malloc_def mem_align_def b_def h1_def h3_def flip: q_def)
  moreover have "pool h3 = ks" "\<forall>x. x \<notin> insert k (set as) \<longrightarrow> bufs h3 x = bufs h x"
    using la(1) by (auto simp: h3_def h1_def)
  ultimately show ?thesis by blast
qed

lemma alloc_loop_chain:
  assumes "building h (Some p) as (unat rm)" "0 < rm" "pool h = ks" "distinct ks" "set as \<inter> set ks = {}"
    and "\<And>k. k \<in> set ks \<Longrightarrow> length (junk k) = 512"
  shows "if blocks (unat rm) \<le> length ks
    then \<exists>h'. pbuf_alloc_loop junk (Some p) (Some (List.last as)) rm 0 h = Some (Some p, h') \<and>
      building h' (Some p) (as @ take (blocks (unat rm)) ks) 0 \<and> pool h' = drop (blocks (unat rm)) ks \<and>
      (\<forall>x. x \<notin> set as \<union> set (take (blocks (unat rm)) ks) \<longrightarrow> bufs h' x = bufs h x) \<and>
      p_tot_len (buf h' p) = p_tot_len (buf h p)
    else \<exists>h'. pbuf_alloc_loop junk (Some p) (Some (List.last as)) rm 0 h = Some (None, h') \<and>
      (\<forall>x. bufs h' x = (if x \<in> set as \<union> set ks then None else bufs h x)) \<and> pool h' = rev (as @ ks)"
  using assms
proof (induction ks arbitrary: h as rm)
  case Nil
  have "blocks (unat rm) \<noteq> 0" using Nil.prems(2) by (simp add: blocks_def word_less_nat_alt)
  moreover obtain c h' where "pbuf_free (Some p) h = Some (c, h')" "bufs h' = (\<lambda>x. if x \<in> set as then None else bufs h x)"
      "pool h' = rev as @ pool h"
    using free_building [OF Nil.prems(1)] by blast
  ultimately show ?case using Nil.prems(3) by (subst (1 2) pbuf_alloc_loop.simps) (simp add: memp_malloc_def)
next
  case (Cons k ks)
  define q where "q = min rm 512"
  obtain h3 where h3: "pbuf_alloc_loop junk (Some p) (Some (List.last as)) rm 0 h =
       (if rm - q > 0 then pbuf_alloc_loop junk (Some p) (Some k) (rm - q) 0 h3 else Some (Some p, h3))"
     "building h3 (Some p) (as @ [k]) (unat (rm - q))" "pool h3 = ks" "\<forall>x. x \<notin> insert k (set as) \<longrightarrow> bufs h3 x = bufs h x"
     "p_tot_len (buf h3 p) = p_tot_len (buf h p)"
    using alloc_step [OF Cons.prems(1-3), of junk] Cons.prems(5,6) unfolding q_def by auto
  have rm: "0 < unat rm" using Cons.prems(2) by (simp add: word_less_nat_alt)
  show ?case
  proof (cases "unat rm \<le> 512")
    case True
    then have "rm - q = 0" by (simp add: q_def min_def word_le_nat_alt)
    moreover have "blocks (unat rm) = 1" using rm True by (rule blocks_step)
    ultimately show ?thesis using h3 by auto
  next
    case False
    then have "q = 512" "unat (rm - q) = unat rm - 512" by (auto simp: q_def min_def word_le_nat_alt unat_sub)
    then have r: "0 < rm - q" "blocks (unat rm) = Suc (blocks (unat (rm - q)))"
      using False blocks_step(2) [of "unat rm"] by (simp_all add: word_less_nat_alt)
    have "set (as @ [k]) \<inter> set ks = {}" "distinct ks" using Cons.prems(4,5) by auto
    note IH = Cons.IH [OF h3(2) r(1) h3(3) this(2,1)]
    have run: "pbuf_alloc_loop junk (Some p) (Some (List.last as)) rm 0 h =
        pbuf_alloc_loop junk (Some p) (Some (List.last (as @ [k]))) (rm - q) 0 h3"
      using h3(1) r(1) by simp
    show ?thesis
    proof (cases "blocks (unat (rm - q)) \<le> length ks")
      case True
      with IH Cons.prems(6) obtain h' where
        "pbuf_alloc_loop junk (Some p) (Some (List.last (as @ [k]))) (rm - q) 0 h3 = Some (Some p, h')"
        "building h' (Some p) ((as @ [k]) @ take (blocks (unat (rm - q))) ks) 0" "pool h' = drop (blocks (unat (rm - q))) ks"
        "\<forall>x. x \<notin> set (as @ [k]) \<union> set (take (blocks (unat (rm - q))) ks) \<longrightarrow> bufs h' x = bufs h3 x"
        "p_tot_len (buf h' p) = p_tot_len (buf h3 p)"
        by (simp only: if_True) fastforce
      with True h3(4,5) show ?thesis unfolding run r(2) by simp
    next
      case nf: False
      with IH Cons.prems(6) obtain h' where h':
        "pbuf_alloc_loop junk (Some p) (Some (List.last (as @ [k]))) (rm - q) 0 h3 = Some (None, h')"
        "\<forall>x. bufs h' x = (if x \<in> set (as @ [k]) \<union> set ks then None else bufs h3 x)" "pool h' = rev ((as @ [k]) @ ks)"
        by (simp only: if_False) fastforce
      have "bufs h' x = (if x \<in> set as \<union> set (k # ks) then None else bufs h x)" for x
        using h'(2) h3(4) by simp
      with nf h'(1,3) show ?thesis unfolding run r(2) by simp
    qed
  qed
qed

text \<open>The number of pool elements for \<open>n\<close> bytes behind a header of \<open>layer\<close> bytes.\<close>

definition alloc_blocks :: "UNS16 \<Rightarrow> UNS16 \<Rightarrow> nat" where
  "alloc_blocks layer n =
     (let room = 512 - mem_align (unat layer) in if unat n \<le> room then 1 else Suc (blocks (unat n - room)))"

lemma alloc_first:
  fixes n :: UNS16
  assumes "pool h = k # ks" "mem_align (unat layer) < 512" "length (junk k) = 512"
  defines "q \<equiv> min n (of_nat (512 - mem_align (unat layer)))"
  shows "\<exists>h3. pbuf_alloc_pool junk layer n h =
       (if n - q > 0 then pbuf_alloc_loop junk (Some k) (Some k) (n - q) 0 h3 else Some (Some k, h3)) \<and>
     building h3 (Some k) [k] (unat (n - q)) \<and> pool h3 = ks \<and> (\<forall>x. x \<noteq> k \<longrightarrow> bufs h3 x = bufs h x) \<and>
     unat (n - q) = unat n - (512 - mem_align (unat layer)) \<and> p_tot_len (buf h3 k) = n"
proof -
  define b where "b = \<lparr>p_next = None, p_payload = drop (mem_align (unat layer)) (junk k), p_tot_len = n, p_len = q,
    p_type = PBUF_POOL, p_ref = 1\<rparr>"
  define h3 where "h3 = set_buf k b (h\<lparr>pool := ks\<rparr>)"
  have room: "unat (of_nat (512 - mem_align (unat layer)) :: UNS16) = 512 - mem_align (unat layer)"
    by (simp add: unsigned_of_nat take_bit_nat_eq_self)
  then have q: "unat q = min (unat n) (512 - mem_align (unat layer))"
    by (auto simp: q_def min_def word_le_nat_alt)
  then have u: "unat (n - q) = unat n - unat q" by (simp add: unat_sub word_le_nat_alt)
  have "building h3 (Some k) [k] (unat (n - q))"
    using q u assms(3) by (auto simp: building_def h3_def b_def fits_def)
  moreover have "pbuf_alloc_pool junk layer n h =
       (if n - q > 0 then pbuf_alloc_loop junk (Some k) (Some k) (n - q) 0 h3 else Some (Some k, h3))"
    unfolding pbuf_alloc_pool_def using assms(1) by (subst pbuf_alloc_loop.simps)
      (simp add: memp_malloc_def b_def h3_def Let_def flip: q_def)
  moreover have "unat (n - q) = unat n - (512 - mem_align (unat layer))" using q u by (simp add: min_def)
  ultimately show ?thesis by (intro exI [of _ h3]) (simp add: h3_def b_def)
qed

lemma alloc_pool_chain:
  assumes "distinct (pool h)" "mem_align (unat layer) < 512" "\<And>k. k \<in> set (pool h) \<Longrightarrow> length (junk k) = 512"
  shows "if alloc_blocks layer n \<le> length (pool h)
    then \<exists>h'. pbuf_alloc_pool junk layer n h = Some (Some (hd (pool h)), h') \<and>
      building h' (Some (hd (pool h))) (take (alloc_blocks layer n) (pool h)) 0 \<and>
      pool h' = drop (alloc_blocks layer n) (pool h) \<and> p_tot_len (buf h' (hd (pool h))) = n \<and>
      (\<forall>x. x \<notin> set (take (alloc_blocks layer n) (pool h)) \<longrightarrow> bufs h' x = bufs h x)
    else \<exists>h'. pbuf_alloc_pool junk layer n h = Some (None, h') \<and>
      (\<forall>x. bufs h' x = (if x \<in> set (pool h) then None else bufs h x)) \<and>
      pool h' = rev (pool h)"
proof (cases "pool h")
  case Nil
  then show ?thesis
    by (simp add: alloc_blocks_def Let_def pbuf_alloc_pool_def pbuf_alloc_loop.simps [of junk None] memp_malloc_def)
next
  case (Cons k ks)
  define q where "q = min n (of_nat (512 - mem_align (unat layer)))"
  obtain h3 where h3: "pbuf_alloc_pool junk layer n h =
       (if n - q > 0 then pbuf_alloc_loop junk (Some k) (Some k) (n - q) 0 h3 else Some (Some k, h3))"
     "building h3 (Some k) [k] (unat (n - q))" "pool h3 = ks" "\<forall>x. x \<noteq> k \<longrightarrow> bufs h3 x = bufs h x"
     "unat (n - q) = unat n - (512 - mem_align (unat layer))" "p_tot_len (buf h3 k) = n"
    using alloc_first [OF Cons assms(2), of junk n] assms(3) Cons unfolding q_def by auto
  show ?thesis
  proof (cases "n - q > 0")
    case False
    then have "unat (n - q) = 0" by (simp add: word_less_nat_alt)
    then have "n - q = 0" "alloc_blocks layer n = 1"
      using h3(5) by (auto simp: alloc_blocks_def simp flip: unat_eq_zero)
    with h3 Cons show ?thesis by auto
  next
    case True
    then have ab: "alloc_blocks layer n = Suc (blocks (unat (n - q)))"
      using h3(5) by (auto simp: alloc_blocks_def word_less_nat_alt Let_def)
    have l: "Some k = Some (List.last [k])" by simp
    have "distinct ks" "set [k] \<inter> set ks = {}" using assms(1) Cons by auto
    note loop = alloc_loop_chain [OF h3(2) True h3(3) this, of junk, folded l]
    have run: "pbuf_alloc_pool junk layer n h = pbuf_alloc_loop junk (Some k) (Some k) (n - q) 0 h3" using h3(1) True by simp
    show ?thesis
    proof (cases "blocks (unat (n - q)) \<le> length ks")
      case True
      with loop assms(3) Cons obtain h' where "pbuf_alloc_loop junk (Some k) (Some k) (n - q) 0 h3 = Some (Some k, h')"
        "building h' (Some k) ([k] @ take (blocks (unat (n - q))) ks) 0" "pool h' = drop (blocks (unat (n - q))) ks"
        "\<forall>x. x \<notin> set [k] \<union> set (take (blocks (unat (n - q))) ks) \<longrightarrow> bufs h' x = bufs h3 x"
        "p_tot_len (buf h' k) = p_tot_len (buf h3 k)"
        by (simp only: if_True) fastforce
      with True h3(4,6) Cons show ?thesis unfolding run ab by simp
    next
      case nf: False
      with loop assms(3) Cons obtain h' where h': "pbuf_alloc_loop junk (Some k) (Some k) (n - q) 0 h3 = Some (None, h')"
        "\<forall>x. bufs h' x = (if x \<in> set [k] \<union> set ks then None else bufs h3 x)" "pool h' = rev ([k] @ ks)"
        by (simp only: if_False) fastforce
      have "bufs h' x = (if x \<in> set (pool h) then None else bufs h x)" for x
        using h'(2) h3(4) Cons by simp
      with nf h'(1,3) Cons show ?thesis unfolding run ab by simp
    qed
  qed
qed

section \<open>Properties of packet buffers\<close>

text \<open>C18: \<open>pbuf_free\<close> takes one reference away from a chain. It releases exactly the leading buffers that nobody
  else refers to, takes one reference from the buffer after them and leaves everything else alone; released
  buffers of the pool are in the free list again, and the result counts the released ones (in a byte).\<close>

theorem pbuf_free_releases:
  assumes "chain h p as" "distinct as"
  shows "\<exists>h'. pbuf_free p h = Some (of_nat (length (released h as)), h') \<and>
    (\<forall>a. bufs h' a =
       (if a \<in> set (released h as) then None
        else if retained h as \<noteq> [] \<and> a = hd (retained h as) then Some (buf h a\<lparr>p_ref := p_ref (buf h a) - 1\<rparr>)
        else bufs h a)) \<and>
    pool h' = rev (filter (\<lambda>a. p_type (buf h a) = PBUF_POOL) (released h as)) @ pool h"
proof (cases p)
  case None
  then have "as = []" using assms(1) by (cases as) auto
  then show ?thesis using None by (simp add: pbuf_free_def released_def retained_def)
next
  case (Some a)
  with free_loop_chain [OF assms, of 0] show ?thesis by (simp add: pbuf_free_def freed_def)
qed

text \<open>C19: what \<open>pbuf_take\<close> stores in a packet \<open>pbuf_copy_partial\<close> and \<open>pbuf_get_at\<close> read back from it, whatever
  buffers it is cut into; the bytes behind the stored ones stay, and data longer than the packet is refused.\<close>

theorem pbuf_take_copy:
  assumes "packet h (Some a) as"
  shows "if length bs \<le> length (chain_bytes h as)
    then \<exists>h'. pbuf_take (Some a) bs h = Some (ERR_OK, h') \<and> packet h' (Some a) as \<and>
      (\<forall>n off. pbuf_copy_partial h' (Some a) n off =
         Some (take (unat n) (drop (unat off) (bs @ drop (length bs) (chain_bytes h as))))) \<and>
      (\<forall>off. pbuf_get_at h' (Some a) off =
         Some (if unat off < length (chain_bytes h as) then (bs @ drop (length bs) (chain_bytes h as)) ! unat off else 0))
    else pbuf_take (Some a) bs h = Some (ERR_MEM, h)"
proof -
  have p: "chain h (Some a) as" "distinct as" "fits h as" "totals_ok h as" using assms by (auto simp: packet_def)
  then obtain as' where as: "as = a # as'" "bufs h a = Some (buf h a)" using chain_buf [OF p(1)] by (cases as) auto
  have tot: "unat (p_tot_len (buf h a)) = length (chain_bytes h as)" using totals_length p(3,4) unfolding as(1) by blast
  show ?thesis
  proof (cases "length bs \<le> length (chain_bytes h as)")
    case True
    obtain h' where h': "pbuf_take_loop (Some a) bs h = Some h'" "same_shape h h' as"
        "chain_bytes h' as = bs @ drop (length bs) (chain_bytes h as)"
      using take_loop_bytes [OF p(1-3) True] by blast
    have pk: "packet h' (Some a) as" by (rule same_shape_packet [OF h'(2) assms])
    then have c: "chain h' (Some a) as" "fits h' as" by (auto simp: packet_def)
    have "pbuf_take (Some a) bs h = Some (ERR_OK, h')" using True tot h'(1) as(2) by (simp add: pbuf_take_def)
    moreover have "length (chain_bytes h' as) = length (chain_bytes h as)" using h'(3) True by simp
    ultimately show ?thesis
      using True pk copy_loop_bytes [OF c, of _ _ "[]"] get_at_bytes [OF c] h'(3) by (auto simp: pbuf_copy_partial_def)
  next
    case False
    then show ?thesis using tot as(2) by (simp add: pbuf_take_def)
  qed
qed

text \<open>C20: \<open>pbuf_alloc\<close> from the pool gives a packet of the wanted length of buffers that were free, with one reference
  each, or fails when the pool has too few elements. A failure leaks nothing: the pool holds the same elements as
  before, and so it does after the packet has been released.\<close>

theorem pbuf_alloc_pool_fresh:
  assumes "distinct (pool h)" "mem_align (unat layer) < 512" "\<forall>k\<in>set (pool h). length (junk k) = 512 \<and> bufs h k = None"
  shows "if alloc_blocks layer n \<le> length (pool h)
    then \<exists>a as h1 c h2. pbuf_alloc_pool junk layer n h = Some (Some a, h1) \<and> packet h1 (Some a) as \<and>
      length (chain_bytes h1 as) = unat n \<and> set as \<subseteq> set (pool h) \<and> (\<forall>x\<in>set as. p_ref (buf h1 x) = 1) \<and>
      pbuf_free (Some a) h1 = Some (c, h2) \<and> bufs h2 = bufs h \<and> set (pool h2) = set (pool h) \<and>
      length (pool h2) = length (pool h)
    else \<exists>h1. pbuf_alloc_pool junk layer n h = Some (None, h1) \<and> bufs h1 = bufs h \<and> pool h1 = rev (pool h)"
proof (cases "alloc_blocks layer n \<le> length (pool h)")
  case False
  then obtain h1 where h1: "pbuf_alloc_pool junk layer n h = Some (None, h1)"
      "\<forall>x. bufs h1 x = (if x \<in> set (pool h) then None else bufs h x)" "pool h1 = rev (pool h)"
    using alloc_pool_chain [OF assms(1,2), of junk n] assms(3) by auto
  have "bufs h1 = bufs h" using h1(2) assms(3) by (auto simp: fun_eq_iff)
  with False h1 show ?thesis by simp
next
  case True
  define m where "m = alloc_blocks layer n"
  define as where "as = take m (pool h)"
  obtain h1 where h1: "pbuf_alloc_pool junk layer n h = Some (Some (hd (pool h)), h1)" "building h1 (Some (hd (pool h))) as 0"
      "pool h1 = drop m (pool h)" "p_tot_len (buf h1 (hd (pool h))) = n" "\<forall>x. x \<notin> set as \<longrightarrow> bufs h1 x = bufs h x"
    using alloc_pool_chain [OF assms(1,2), of junk n] assms(3) True unfolding as_def m_def by auto
  then have p: "packet h1 (Some (hd (pool h))) as" "as \<noteq> []" "\<forall>x\<in>set as. p_ref (buf h1 x) = 1"
    by (auto simp: building_def packet_def totals_plus_0)
  have sub: "set as \<subseteq> set (pool h)" unfolding as_def by (rule set_take_subset)
  have "hd as = hd (pool h)" using p(2) by (simp add: as_def)
  then have len: "length (chain_bytes h1 as) = unat n"
    using p(1,2) h1(4) totals_hd [of h1 as] length_chain_bytes [of h1 as] by (simp add: packet_def)
  obtain c h2 where h2: "pbuf_free (Some (hd (pool h))) h1 = Some (c, h2)"
      "bufs h2 = (\<lambda>x. if x \<in> set as then None else bufs h1 x)" "pool h2 = rev as @ pool h1"
    using free_building [OF h1(2)] by blast
  have "bufs h2 = bufs h" unfolding h2(2) using h1(5) sub assms(3) by (auto simp: fun_eq_iff)
  moreover have "set (pool h2) = set (as @ drop m (pool h))" "length (pool h2) = length (as @ drop m (pool h))"
    unfolding h2(3) h1(3) by auto
  then have "set (pool h2) = set (pool h)" "length (pool h2) = length (pool h)"
    unfolding as_def by (simp_all only: append_take_drop_id)
  ultimately show ?thesis
    using True h1(1) p len sub h2(1) by (simp only: if_True) blast
qed

text \<open>\<open>pbuf_chain\<close> makes one packet of two: its bytes are those of the first followed by those of the second, the total
  lengths are right as long as the sum fits in 16 bits, and only the head of the second has one more reference.\<close>

theorem pbuf_chain_concatenates:
  assumes "packet h (Some p) as" "packet h (Some t) bs" "set as \<inter> set bs = {}"
    and "length (chain_bytes h as) + length (chain_bytes h bs) < 65536"
  shows "\<exists>h'. pbuf_chain (Some p) (Some t) h = Some h' \<and> packet h' (Some p) (as @ bs) \<and>
    chain_bytes h' (as @ bs) = chain_bytes h as @ chain_bytes h bs \<and> p_ref (buf h' t) = p_ref (buf h t) + 1 \<and>
    (\<forall>x\<in>set as \<union> set bs. x \<noteq> t \<longrightarrow> p_ref (buf h' x) = p_ref (buf h x)) \<and>
    (\<forall>x. x \<notin> set as \<union> set bs \<longrightarrow> bufs h' x = bufs h x)"
proof -
  obtain h1 where h1: "pbuf_cat (Some p) (Some t) h = Some h1" "packet h1 (Some p) (as @ bs)"
     "chain_bytes h1 (as @ bs) = chain_bytes h as @ chain_bytes h bs"
     "\<forall>x. x \<notin> set as \<longrightarrow> bufs h1 x = bufs h x" "\<forall>x\<in>set as. p_ref (buf h1 x) = p_ref (buf h x)"
    using cat_packet [OF assms] by blast
  have t: "t \<in> set bs" "t \<notin> set as" using assms(2,3) by (cases bs; auto simp: packet_def)+
  have bt: "bufs h t = Some (buf h t)" using chain_buf [of h "Some t" bs t] assms(2) t(1) by (simp add: packet_def)
  then have b1: "bufs h1 t = Some (buf h t)" "buf h1 t = buf h t" using h1(4) t(2) by (simp_all add: buf_def)
  define h' where "h' = set_buf t (buf h t\<lparr>p_ref := p_ref (buf h t) + 1\<rparr>) h1"
  have run: "pbuf_chain (Some p) (Some t) h = Some h'"
    using h1(1) b1 by (simp add: pbuf_chain_def pbuf_ref_def h'_def)
  have f: "p_len (buf h' x) = p_len (buf h1 x)" "p_tot_len (buf h' x) = p_tot_len (buf h1 x)"
    "p_payload (buf h' x) = p_payload (buf h1 x)" "p_next (buf h' x) = p_next (buf h1 x)" for x
    using b1(2) by (auto simp: h'_def)
  have c1: "chain h1 (Some p) (as @ bs)" using h1(2) by (simp add: packet_def)
  have "bufs h' x = Some (buf h' x)" if "x \<in> set (as @ bs)" for x
    using chain_buf [OF c1 that] by (simp add: h'_def)
  then have "chain h' (Some p) (as @ bs)" using f(4) by (intro chain_frame [OF c1]) blast
  moreover have "totals_ok h' (as @ bs)" using totals_cong [of "as @ bs" h' h1] f h1(2) by (simp add: packet_def)
  ultimately have "packet h' (Some p) (as @ bs)" using h1(2) f by (simp add: packet_def fits_def)
  moreover have "chain_bytes h' (as @ bs) = chain_bytes h1 (as @ bs)" using f by (simp add: chain_bytes_def pbuf_bytes_def)
  moreover have "p_ref (buf h' x) = p_ref (buf h x)" if "x \<in> set as \<union> set bs" "x \<noteq> t" for x
    using that h1(4,5) assms(3) by (cases "x \<in> set as") (auto simp: h'_def buf_def)
  moreover have "p_ref (buf h' t) = p_ref (buf h t) + 1" by (simp add: h'_def)
  moreover have "bufs h' x = bufs h x" if "x \<notin> set as \<union> set bs" for x using that h1(4) t(1) by (auto simp: h'_def)
  ultimately show ?thesis using run h1(3) by auto
qed

section \<open>The properties at a concrete heap\<close>

definition pbuf_of :: "pptr \<Rightarrow> UNS16 \<Rightarrow> UNS8 list \<Rightarrow> UNS8 \<Rightarrow> pbuf" where
  "pbuf_of nxt tot bs ref = \<lparr>p_next = nxt, p_payload = bs, p_tot_len = tot, p_len = of_nat (length bs), p_type = PBUF_POOL, p_ref = ref\<rparr>"

definition two_packets :: pheap where
  "two_packets = \<lparr>bufs = [4 \<mapsto> pbuf_of (Some 5) 5 [10, 11] 1, 5 \<mapsto> pbuf_of None 3 [12, 13, 14] 2, 6 \<mapsto> pbuf_of None 1 [15] 1], pool = [7]\<rparr>"

lemma two_packets_buf:
  "buf two_packets 4 = pbuf_of (Some 5) 5 [10, 11] 1" "buf two_packets 5 = pbuf_of None 3 [12, 13, 14] 2"
  "buf two_packets 6 = pbuf_of None 1 [15] 1"
  by (simp_all add: two_packets_def buf_def)

lemma two_packets_packet: "packet two_packets (Some 4) [4, 5]" "packet two_packets (Some 6) [6]"
  by (simp_all add: packet_def fits_def two_packets_buf) (simp_all add: two_packets_def pbuf_of_def)

lemma two_packets_bytes: "chain_bytes two_packets [4, 5] = [10, 11, 12, 13, 14]" "chain_bytes two_packets [6] = [15]"
  by (simp_all add: chain_bytes_def two_packets_buf pbuf_of_def pbuf_bytes_def)

theorem pbuf_free_releases_witness:
  "\<exists>h'. pbuf_free (Some 4) two_packets = Some (1, h') \<and> bufs h' 4 = None \<and>
     bufs h' 5 = Some (pbuf_of None 3 [12, 13, 14] 1) \<and> pool h' = [4, 7]"
proof -
  have "chain two_packets (Some 4) [4, 5]" using two_packets_packet by (simp add: packet_def)
  moreover have "released two_packets [4, 5] = [4]" "retained two_packets [4, 5] = [5]"
    by (simp_all add: released_def retained_def two_packets_buf pbuf_of_def)
  ultimately show ?thesis
    using pbuf_free_releases [of two_packets "Some 4" "[4, 5]"]
    by (auto simp: two_packets_buf pbuf_of_def) (auto simp: two_packets_def)
qed

theorem pbuf_take_copy_witness:
  "\<exists>h'. pbuf_take (Some 4) [1, 2, 3] two_packets = Some (ERR_OK, h') \<and>
     pbuf_copy_partial h' (Some 4) 3 1 = Some [2, 3, 13] \<and> pbuf_get_at h' (Some 4) 2 = Some 3"
proof -
  have "length [1, 2, 3 :: UNS8] \<le> length (chain_bytes two_packets [4, 5])" by (simp add: two_packets_bytes)
  from pbuf_take_copy [OF two_packets_packet(1), of "[1, 2, 3]", unfolded if_P [OF this]]
  obtain h' where "pbuf_take (Some 4) [1, 2, 3] two_packets = Some (ERR_OK, h')"
    "\<forall>n off. pbuf_copy_partial h' (Some 4) n off = Some (take (unat n) (drop (unat off) [1, 2, 3, 13, 14]))"
    "\<forall>off. pbuf_get_at h' (Some 4) off = Some (if unat off < 5 then [1, 2, 3, 13, 14] ! unat off else 0)"
    by (auto simp: two_packets_bytes)
  then show ?thesis by (intro exI [of _ h']) simp
qed

theorem pbuf_alloc_pool_fresh_witness:
  "\<exists>a as h1. pbuf_alloc_pool (\<lambda>k. replicate 512 0) 54 600 (two_packets\<lparr>pool := [7, 8]\<rparr>) = Some (Some a, h1) \<and>
     packet h1 (Some a) as \<and> length (chain_bytes h1 as) = 600"
proof -
  let ?h = "two_packets\<lparr>pool := [7, 8]\<rparr>"
  have "alloc_blocks 54 600 \<le> length (pool ?h)" by (simp add: alloc_blocks_def mem_align_def blocks_def)
  moreover have "distinct (pool ?h)" "mem_align (unat (54 :: UNS16)) < 512"
    "\<forall>k\<in>set (pool ?h). length (replicate 512 (0 :: UNS8)) = 512 \<and> bufs ?h k = None"
    by (simp_all add: mem_align_def two_packets_def)
  ultimately show ?thesis
    using pbuf_alloc_pool_fresh [of ?h 54 "\<lambda>k. replicate 512 0" 600] by (simp only: if_True) force
qed

theorem pbuf_chain_concatenates_witness:
  "\<exists>h'. pbuf_chain (Some 4) (Some 6) two_packets = Some h' \<and> chain_bytes h' [4, 5, 6] = [10, 11, 12, 13, 14, 15]"
  using pbuf_chain_concatenates [OF two_packets_packet] by (auto simp: two_packets_bytes)

end
