(* ===== verification/NetApp.thy ===== *)
theory NetApp
  imports Pbuf
begin

text \<open>
  The network application of the firmware, \<^verbatim>\<open>LwIP/user_app/src\<close>: addresses and the DHCP state machine with the
  periodic handler (\<^verbatim>\<open>lwip_app_comm.c\<close>), the TCP client (\<^verbatim>\<open>lwip_app_tcp.c\<close>) and the UDP client
  (\<^verbatim>\<open>lwip_app_udp.c\<close>), over the packet buffers of \<open>Pbuf\<close>. Calls into the stack are events of \<open>calls\<close>; what the
  stack answers (a control block or none, the result of a write, free space of the send buffer, the number of
  DHCP attempts) is an argument. \<open>None\<close> has the meaning of \<open>Pbuf\<close>: access to memory that is not allocated.

  Shown here: the receive buffers hold the first 200 bytes of a packet whatever its cuts, a
  packet is released exactly once on every path, the addresses of the application and of the interface agree when DHCP has
  ended, when the periodic handler calls the timers of the stack, and that the answer of the TCP client is released twice.
\<close>

section \<open>Data\<close>

record LwipObject =
  mac :: "UNS8 list"
  remoteip :: "UNS8 list"
  ip :: "UNS8 list"
  netmask :: "UNS8 list"
  gateway :: "UNS8 list"
  dhcpstatus :: UNS8
  udpstatus :: int

record netif =
  ip_addr :: UNS32
  nif_netmask :: UNS32
  gw :: UNS32

datatype net_call =
  Tcp_tmr | Etharp_tmr | Dhcp_fine_tmr | Dhcp_coarse_tmr | Dhcp_start | Tcp_connect UNS32 UNS16 | Tcp_callbacks bool
| Tcp_recved UNS16 | Tcp_write "UNS8 list" | Tcp_abort | Udp_recv | Udp_send pptr | Udp_disconnect | Udp_remove

record net_app =
  obj :: LwipObject
  nif :: netif
  lwip_sys_timer :: UNS32
  TCPTimer :: UNS32
  ARPTimer :: UNS32
  DHCPfineTimer :: UNS32
  DHCPCoarseTimer :: UNS32
  calls :: "net_call list"
  tcpStatus :: UNS8
  tcp_recv_buff :: "UNS8 list"
  udp_recv_buff :: "UNS8 list"
  pbufs :: pheap

definition call :: "net_call \<Rightarrow> net_app \<Rightarrow> net_app" where
  "call c s = s\<lparr>calls := calls s @ [c]\<rparr>"

definition upd_obj :: "(LwipObject \<Rightarrow> LwipObject) \<Rightarrow> net_app \<Rightarrow> net_app" where
  "upd_obj f s = s\<lparr>obj := f (obj s)\<rparr>"

abbreviation (input) enTcpClientClose :: UNS8 where "enTcpClientClose \<equiv> 1"
abbreviation (input) enTcpClientConn :: UNS8 where "enTcpClientConn \<equiv> 2"
abbreviation (input) enTcpClientRecvOK :: UNS8 where "enTcpClientRecvOK \<equiv> 3"
abbreviation (input) enTcpClientSendOK :: UNS8 where "enTcpClientSendOK \<equiv> 4"
abbreviation (input) enTcpClientAckWait :: UNS8 where "enTcpClientAckWait \<equiv> 5"
abbreviation (input) enTcpClientRecvErr :: UNS8 where "enTcpClientRecvErr \<equiv> 6"

abbreviation (input) enUdpInitOK :: int where "enUdpInitOK \<equiv> 0"
abbreviation (input) enUdpSendOK :: int where "enUdpSendOK \<equiv> 1"
abbreviation (input) enUdpRecvOK :: int where "enUdpRecvOK \<equiv> 2"
abbreviation (input) enUdpObjCrtErr :: int where "enUdpObjCrtErr \<equiv> 3"
abbreviation (input) enUdpConnErr :: int where "enUdpConnErr \<equiv> 4"
abbreviation (input) enUdpBindErr :: int where "enUdpBindErr \<equiv> 5"
abbreviation (input) enUdpSendErr :: int where "enUdpSendErr \<equiv> 6"

abbreviation (input) RX_BUFF_SIZE :: nat where "RX_BUFF_SIZE \<equiv> 200"
abbreviation (input) LWIP_MAX_DHCP_TRIES :: UNS8 where "LWIP_MAX_DHCP_TRIES \<equiv> 4"
abbreviation (input) PBUF_TRANSPORT :: UNS16 where "PBUF_TRANSPORT \<equiv> 54"

section \<open>Addresses, DHCP and the periodic handler\<close>

definition lwip_app_remote_ip_set :: "UNS8 \<Rightarrow> UNS8 \<Rightarrow> UNS8 \<Rightarrow> UNS8 \<Rightarrow> net_app \<Rightarrow> net_app" where
  "lwip_app_remote_ip_set Ip0 Ip1 Ip2 Ip3 = upd_obj (\<lambda>ob. ob\<lparr>remoteip := [Ip0, Ip1, Ip2, Ip3]\<rparr>)"

text \<open>\<open>sn0\<close> is the identification of the chip. The mask \<open>0XFFF\<close> of the source is cut to a byte by the assignment.\<close>

definition lwip_app_default_ip_set :: "UNS32 \<Rightarrow> LwipObject \<Rightarrow> LwipObject" where
  "lwip_app_default_ip_set sn0 ob = ob\<lparr>
     remoteip := [192, 168, 0, 101],
     mac := [2, 0, 0, ucast (drop_bit 16 sn0 AND 0xFF), ucast (drop_bit 8 sn0 AND 0xFFF), ucast (sn0 AND 0xFF)],
     ip := [192, 168, 0, 122],
     netmask := [255, 255, 255, 0],
     gateway := [192, 168, 0, 1]\<rparr>"

text \<open>\<open>IP4_ADDR\<close>: the address in network order, on a little-endian machine.\<close>

definition IP4_ADDR :: "UNS8 list \<Rightarrow> UNS32" where
  "IP4_ADDR a = le32 (a ! 0) (a ! 1) (a ! 2) (a ! 3)"

definition addr_bytes :: "UNS32 \<Rightarrow> UNS8 list" where
  "addr_bytes v = [ucast v, ucast (drop_bit 8 v), ucast (drop_bit 16 v), ucast (drop_bit 24 v)]"

definition lwip_dhcp_process_handle :: "UNS8 \<Rightarrow> net_app \<Rightarrow> net_app" where
  "lwip_dhcp_process_handle tries s =
     (if dhcpstatus (obj s) = 0 then upd_obj (\<lambda>ob. ob\<lparr>dhcpstatus := 1\<rparr>) (call Dhcp_start s)
      else if dhcpstatus (obj s) = 1 then
        if ip_addr (nif s) \<noteq> 0 then
          upd_obj (\<lambda>ob. ob\<lparr>dhcpstatus := 2, ip := addr_bytes (ip_addr (nif s)),
            netmask := addr_bytes (nif_netmask (nif s)), gateway := addr_bytes (gw (nif s))\<rparr>) s
        else if tries > LWIP_MAX_DHCP_TRIES then
          (upd_obj (\<lambda>ob. ob\<lparr>dhcpstatus := 0xFF\<rparr>) s)
            \<lparr>nif := \<lparr>ip_addr = IP4_ADDR (ip (obj s)), nif_netmask = IP4_ADDR (netmask (obj s)), gw = IP4_ADDR (gateway (obj s))\<rparr>\<rparr>
        else s
      else s)"

definition numTimeDelta :: "UNS32 \<Rightarrow> UNS32 \<Rightarrow> UNS32" where
  "numTimeDelta now before = (now - before + 0xFFFFFFFF) mod 0xFFFFFFFF"

definition lwip_periodic_handle :: "UNS8 \<Rightarrow> net_app \<Rightarrow> net_app" where
  "lwip_periodic_handle tries s =
     (let s1 = (if numTimeDelta (lwip_sys_timer s) (TCPTimer s) \<ge> 25
                then call Tcp_tmr (s\<lparr>TCPTimer := lwip_sys_timer s\<rparr>) else s);
          s2 = (if numTimeDelta (lwip_sys_timer s1) (ARPTimer s1) \<ge> 5000
                then call Etharp_tmr (s1\<lparr>ARPTimer := lwip_sys_timer s1\<rparr>) else s1);
          s3 = (if numTimeDelta (lwip_sys_timer s2) (DHCPfineTimer s2) \<ge> 500
                then lwip_dhcp_process_handle tries (call Dhcp_fine_tmr (s2\<lparr>DHCPfineTimer := lwip_sys_timer s2\<rparr>)) else s2)
      in if numTimeDelta (lwip_sys_timer s3) (DHCPCoarseTimer s3) \<ge> 60000
         then call Dhcp_coarse_tmr (s3\<lparr>DHCPCoarseTimer := lwip_sys_timer s3\<rparr>) else s3)"

text \<open>The interrupt of timer 3 (\<^verbatim>\<open>Main/src/timer.c\<close>) counts ten milliseconds.\<close>

definition TIM3_IRQHandler :: "net_app \<Rightarrow> net_app" where
  "TIM3_IRQHandler s = s\<lparr>lwip_sys_timer := lwip_sys_timer s + 10\<rparr>"

text \<open>
  Initialisation waits for DHCP. Between two turns of the loop interrupts and the stack change the state: \<open>env i\<close> is
  what they do before turn \<open>i\<close>, \<open>tries i\<close> the number of attempts then.
\<close>

partial_function (option) dhcp_wait ::
  "(nat \<Rightarrow> net_app \<Rightarrow> net_app) \<Rightarrow> (nat \<Rightarrow> UNS8) \<Rightarrow> nat \<Rightarrow> net_app \<Rightarrow> net_app option" where
  "dhcp_wait env tries i s =
     (if dhcpstatus (obj s) \<noteq> 2 \<and> dhcpstatus (obj s) \<noteq> 0xFF
      then dhcp_wait env tries (i + 1) (lwip_periodic_handle (tries i) (env i s)) else Some s)"

definition lwip_app_init :: "UNS32 \<Rightarrow> (nat \<Rightarrow> net_app \<Rightarrow> net_app) \<Rightarrow> (nat \<Rightarrow> UNS8) \<Rightarrow> net_app \<Rightarrow> net_app option" where
  "lwip_app_init sn0 env tries s =
     (let s1 = upd_obj (lwip_app_default_ip_set sn0) s;
          s2 = s1\<lparr>nif := \<lparr>ip_addr = 0, nif_netmask = 0, gw = 0\<rparr>\<rparr>
      in dhcp_wait env tries 0 (upd_obj (\<lambda>ob. ob\<lparr>dhcpstatus := 0\<rparr>) s2))"

section \<open>The TCP client\<close>

definition lwip_app_tcp_client_init :: "bool \<Rightarrow> err_t \<Rightarrow> net_app \<Rightarrow> err_t \<times> net_app" where
  "lwip_app_tcp_client_init pcb_ok res s =
     (let s1 = lwip_app_remote_ip_set 192 168 0 101 s
      in if pcb_ok then (res, call (Tcp_connect (IP4_ADDR (remoteip (obj s1))) 8089) s1) else (ERR_MEM, s1))"

definition lwip_app_tcp_client_connect :: "err_t \<Rightarrow> net_app \<Rightarrow> err_t \<times> net_app" where
  "lwip_app_tcp_client_connect err s =
     (if err = ERR_OK then (ERR_OK, (call (Tcp_callbacks True) s)\<lparr>tcpStatus := enTcpClientConn\<rparr>) else (ERR_CONN, s))"

text \<open>The copy loop that both receive functions have; \<open>buff\<close> has 200 bytes.\<close>

definition memcpy_at :: "UNS8 list \<Rightarrow> nat \<Rightarrow> UNS8 list \<Rightarrow> UNS8 list" where
  "memcpy_at buff off bs = take off buff @ bs @ drop (off + length bs) buff"

partial_function (option) recv_loop :: "pheap \<Rightarrow> pptr \<Rightarrow> nat \<Rightarrow> UNS8 list \<Rightarrow> UNS8 list option" where
  "recv_loop h p numSize buff =
     (case p of None \<Rightarrow> Some buff | Some a \<Rightarrow> do {
        b \<leftarrow> bufs h a;
        if unat (p_len b) > RX_BUFF_SIZE - numSize then do {
          bs \<leftarrow> payload_at b 0 (RX_BUFF_SIZE - numSize);
          Some (memcpy_at buff numSize bs) }
        else do {
          bs \<leftarrow> payload_at b 0 (unat (p_len b));
          recv_loop h (p_next b) (numSize + unat (p_len b)) (memcpy_at buff numSize bs) } })"

text \<open>
  The argument of the callback is the address of \<open>tcpStatus\<close>, which the connection was given. \<open>junk\<close> stands
  for \<open>retErr\<close>, which the source does not set when there is no packet.
\<close>

definition lwip_app_tcp_client_recv :: "err_t \<Rightarrow> pptr \<Rightarrow> err_t \<Rightarrow> net_app \<Rightarrow> (err_t \<times> net_app) option" where
  "lwip_app_tcp_client_recv junk p err s = do {
     (retErr, s1) \<leftarrow>
       (case p of None \<Rightarrow> Some (junk, s)
        | Some a \<Rightarrow>
            if err = ERR_OK then
              if tcpStatus s > enTcpClientClose then do {
                buff \<leftarrow> recv_loop (pbufs s) p 0 (replicate RX_BUFF_SIZE 0);
                b \<leftarrow> bufs (pbufs s) a;
                Some (ERR_OK, call (Tcp_recved (p_tot_len b)) (s\<lparr>tcp_recv_buff := buff, tcpStatus := enTcpClientRecvOK\<rparr>)) }
              else do { b \<leftarrow> bufs (pbufs s) a; Some (ERR_OK, call (Tcp_recved (p_tot_len b)) s) }
            else Some (err, s\<lparr>tcpStatus := enTcpClientRecvErr\<rparr>));
     (n, h) \<leftarrow> pbuf_free p (pbufs s1);
     Some (retErr, s1\<lparr>pbufs := h\<rparr>) }"

text \<open>
  The send loop: \<open>sndbuf i\<close> is the free space of the send buffer and \<open>wr i\<close> the result of \<open>tcp_write\<close> in round \<open>i\<close>.
\<close>

partial_function (option) tcp_send_loop ::
  "(nat \<Rightarrow> UNS16) \<Rightarrow> (nat \<Rightarrow> err_t) \<Rightarrow> nat \<Rightarrow> err_t \<Rightarrow> pptr \<Rightarrow> net_app \<Rightarrow> net_app option" where
  "tcp_send_loop sndbuf wr i err pData s =
     (case pData of None \<Rightarrow> Some s | Some a \<Rightarrow>
        if err \<noteq> ERR_OK then Some s
        else do {
          b \<leftarrow> bufs (pbufs s) a;
          if p_len b \<le> sndbuf i then do {
            bs \<leftarrow> payload_at b 0 (unat (p_len b));
            let s1 = call (Tcp_write bs) s;
            if wr i = ERR_OK then do {
              h1 \<leftarrow> pbuf_ref (p_next b) (pbufs s1);
              (n, h2) \<leftarrow> pbuf_free (Some a) h1;
              tcp_send_loop sndbuf wr (i + 1) (wr i) (p_next b) (s1\<lparr>pbufs := h2\<rparr>) }
            else tcp_send_loop sndbuf wr (i + 1) (wr i) pData s1 }
          else Some s })"

definition lwip_app_tcp_client_send_data ::
  "(nat \<Rightarrow> UNS16) \<Rightarrow> (nat \<Rightarrow> err_t) \<Rightarrow> pptr \<Rightarrow> net_app \<Rightarrow> net_app option" where
  "lwip_app_tcp_client_send_data sndbuf wr pData s = tcp_send_loop sndbuf wr 0 ERR_OK pData s"

definition lwip_app_tcp_client_conn_close :: "net_app \<Rightarrow> net_app" where
  "lwip_app_tcp_client_conn_close s = call (Tcp_callbacks False) (call Tcp_abort s)"

text \<open>\<open>hello world!\<close> and the end of the line.\<close>

definition client_send_buff :: "UNS8 list" where
  "client_send_buff = [104, 101, 108, 108, 111, 32, 119, 111, 114, 108, 100, 33, 13, 10]"

definition lwip_app_tcp_client_poll ::
  "(nat \<Rightarrow> UNS8 list) \<Rightarrow> (nat \<Rightarrow> UNS16) \<Rightarrow> (nat \<Rightarrow> err_t) \<Rightarrow> net_app \<Rightarrow> (err_t \<times> net_app) option" where
  "lwip_app_tcp_client_poll junk sndbuf wr s =
     (if tcpStatus s = enTcpClientRecvOK then do {
        (pBuff, h1) \<leftarrow> pbuf_alloc_pool junk PBUF_TRANSPORT (of_nat (length client_send_buff)) (pbufs s);
        (e, h2) \<leftarrow> pbuf_take pBuff client_send_buff h1;
        s1 \<leftarrow> lwip_app_tcp_client_send_data sndbuf wr pBuff (s\<lparr>pbufs := h2\<rparr>);
        (n, h3) \<leftarrow> pbuf_free pBuff (pbufs s1);
        Some (ERR_OK, s1\<lparr>tcpStatus := enTcpClientAckWait, pbufs := h3\<rparr>) }
      else if tcpStatus s = enTcpClientClose then Some (ERR_ABRT, lwip_app_tcp_client_conn_close s)
      else Some (ERR_OK, s))"

definition lwip_app_tcp_client_sent :: "net_app \<Rightarrow> err_t \<times> net_app" where
  "lwip_app_tcp_client_sent s = (ERR_OK, s\<lparr>tcpStatus := enTcpClientSendOK\<rparr>)"

section \<open>The UDP client\<close>

definition lwip_app_udp_init :: "bool \<Rightarrow> bool \<Rightarrow> bool \<Rightarrow> net_app \<Rightarrow> int \<times> net_app" where
  "lwip_app_udp_init pcb_ok bind_ok connect_ok s =
     (let s1 = lwip_app_remote_ip_set 192 168 0 101 s
      in if \<not> pcb_ok then (enUdpObjCrtErr, s1)
         else if \<not> bind_ok then (enUdpBindErr, s1)
         else if \<not> connect_ok then (enUdpConnErr, s1)
         else (enUdpInitOK, call Udp_recv s1))"

text \<open>\<open>remote\<close> is the address of the peer in the control block.\<close>

definition lwip_app_udp_recv_data :: "UNS32 \<Rightarrow> pptr \<Rightarrow> net_app \<Rightarrow> net_app option" where
  "lwip_app_udp_recv_data remote p s = do {
     s1 \<leftarrow> (case p of None \<Rightarrow> Some s
        | Some a \<Rightarrow> do {
            buff \<leftarrow> recv_loop (pbufs s) p 0 (replicate RX_BUFF_SIZE 0);
            Some (upd_obj (\<lambda>ob. ob\<lparr>udpstatus := enUdpRecvOK, remoteip := addr_bytes remote\<rparr>) (s\<lparr>udp_recv_buff := buff\<rparr>)) });
     (n, h) \<leftarrow> pbuf_free p (pbufs s1);
     Some (s1\<lparr>pbufs := h\<rparr>) }"

definition lwip_app_udp_send_data :: "(nat \<Rightarrow> UNS8 list) \<Rightarrow> bool \<Rightarrow> UNS8 list \<Rightarrow> net_app \<Rightarrow> net_app option" where
  "lwip_app_udp_send_data junk send_ok data s = do {
     let s0 = upd_obj (\<lambda>ob. ob\<lparr>udpstatus := enUdpSendErr\<rparr>) s;
     (pBuff, h1) \<leftarrow> pbuf_alloc_pool junk PBUF_TRANSPORT (of_nat (length data)) (pbufs s0);
     s1 \<leftarrow> (case pBuff of None \<Rightarrow> Some (s0\<lparr>pbufs := h1\<rparr>)
        | Some a \<Rightarrow> do {
            (e, h2) \<leftarrow> pbuf_take pBuff data h1;
            let s2 = s0\<lparr>pbufs := h2\<rparr>;
            if e = ERR_OK then
              let s3 = call (Udp_send pBuff) s2
              in Some (if send_ok then upd_obj (\<lambda>ob. ob\<lparr>udpstatus := enUdpSendOK\<rparr>) s3 else s3)
            else Some s2 });
     (n, h) \<leftarrow> pbuf_free pBuff (pbufs s1);
     Some (s1\<lparr>pbufs := h\<rparr>) }"

definition lwip_app_udp_conn_close :: "net_app \<Rightarrow> net_app" where
  "lwip_app_udp_conn_close s = call Udp_remove (call Udp_disconnect s)"

definition lwip_app_udp_client :: "(nat \<Rightarrow> UNS8 list) \<Rightarrow> bool \<Rightarrow> net_app \<Rightarrow> net_app option" where
  "lwip_app_udp_client junk send_ok s =
     (if udpstatus (obj s) = enUdpRecvOK then
        lwip_app_udp_send_data junk send_ok client_send_buff (upd_obj (\<lambda>ob. ob\<lparr>udpstatus := enUdpInitOK\<rparr>) s)
      else if udpstatus (obj s) > enUdpRecvOK then Some (lwip_app_udp_conn_close s)
      else Some s)"

section \<open>Receiving\<close>

lemma length_memcpy_at [simp]: "off + length bs \<le> length buff \<Longrightarrow> length (memcpy_at buff off bs) = length buff"
  by (simp add: memcpy_at_def)

lemma memcpy_at_twice:
  "off + length bs + length cs \<le> length buff \<Longrightarrow>
     memcpy_at (memcpy_at buff off bs) (off + length bs) cs = memcpy_at buff off (bs @ cs)"
  by (simp add: memcpy_at_def ac_simps)

lemma memcpy_at_Nil [simp]: "memcpy_at buff off [] = buff"
  by (simp add: memcpy_at_def)

lemma recv_loop_bytes:
  assumes "chain h p as" "fits h as" "numSize \<le> 200" "length buff = 200"
  shows "recv_loop h p numSize buff = Some (memcpy_at buff numSize (take (200 - numSize) (chain_bytes h as)))"
  using assms
proof (induction as arbitrary: p numSize buff)
  case Nil
  then show ?case by (subst recv_loop.simps) (simp add: chain_bytes_def)
next
  case (Cons a as)
  then obtain b where b: "p = Some a" "bufs h a = Some b" "chain h (p_next b) as" by auto
  have ba: "buf h a = b" using b(2) by (simp add: buf_def)
  have l: "unat (p_len b) \<le> length (p_payload b)" "fits h as" using Cons.prems(2) ba by (auto simp: fits_def)
  have cb: "chain_bytes h (a # as) = pbuf_bytes b @ chain_bytes h as" using ba by (simp add: chain_bytes_def)
  note lb = length_pbuf_bytes [OF l(1)]
  show ?case
  proof (cases "unat (p_len b) > 200 - numSize")
    case True
    have "payload_at b 0 (200 - numSize) = Some (take (200 - numSize) (pbuf_bytes b))"
      using True l(1) by (simp add: payload_at_def pbuf_bytes_def min_def)
    then show ?thesis using True b lb by (subst recv_loop.simps) (simp add: cb)
  next
    case False
    have "payload_at b 0 (unat (p_len b)) = Some (pbuf_bytes b)" using l(1) by (simp add: payload_at_def pbuf_bytes_def)
    then have "recv_loop h p numSize buff =
        recv_loop h (p_next b) (numSize + unat (p_len b)) (memcpy_at buff numSize (pbuf_bytes b))"
      using False b by (subst recv_loop.simps) simp
    also have "\<dots> = Some (memcpy_at (memcpy_at buff numSize (pbuf_bytes b)) (numSize + length (pbuf_bytes b))
        (take (200 - numSize - length (pbuf_bytes b)) (chain_bytes h as)))"
      using Cons.IH [OF b(3) l(2), of "numSize + unat (p_len b)" "memcpy_at buff numSize (pbuf_bytes b)"] False Cons.prems(3,4) lb
      by simp
    finally show ?thesis using False Cons.prems(3,4) lb by (subst (asm) memcpy_at_twice) (simp_all add: cb)
  qed
qed

text \<open>The buffer of the source: zeroed, then filled from the start.\<close>

definition padded :: "UNS8 list \<Rightarrow> UNS8 list" where
  "padded bs = take 200 (bs @ replicate 200 0)"

lemma recv_loop_packet:
  assumes "packet h p as"
  shows "recv_loop h p 0 (replicate 200 0) = Some (padded (chain_bytes h as))"
proof -
  have "memcpy_at (replicate 200 0) 0 (take 200 (chain_bytes h as)) = padded (chain_bytes h as)"
    by (simp add: memcpy_at_def padded_def min_def)
  with recv_loop_bytes [of h p as 0 "replicate 200 0"] assms show ?thesis by (simp add: packet_def)
qed

text \<open>C28: when data arrives on an open connection the receive buffer holds its first 200 bytes, padded with zeros, whatever
  buffers the packet is cut into; the window is opened by the whole length, the client is told, and the
  packet loses exactly one reference.\<close>

theorem tcp_recv_stores_prefix:
  assumes "packet (pbufs s) (Some a) as" "tcpStatus s > enTcpClientClose"
  shows "\<exists>h. lwip_app_tcp_client_recv junk (Some a) ERR_OK s =
      Some (ERR_OK, s\<lparr>tcp_recv_buff := take 200 (chain_bytes (pbufs s) as @ replicate 200 0), tcpStatus := enTcpClientRecvOK,
        calls := calls s @ [Tcp_recved (of_nat (length (chain_bytes (pbufs s) as)))], pbufs := h\<rparr>) \<and>
    freed (pbufs s) h as"
proof -
  have p: "chain (pbufs s) (Some a) as" "distinct as" "fits (pbufs s) as" "totals_ok (pbufs s) as"
    using assms(1) by (auto simp: packet_def)
  then obtain as' where as: "as = a # as'" "bufs (pbufs s) a = Some (buf (pbufs s) a)" using chain_buf [OF p(1)] by (cases as) auto
  have tot: "p_tot_len (buf (pbufs s) a) = of_nat (length (chain_bytes (pbufs s) as))"
    using totals_length [of "pbufs s" a as'] p(3,4) as(1) by (metis of_nat_unat ucast_id)
  obtain h c where h: "pbuf_free (Some a) (pbufs s) = Some (c, h)" "freed (pbufs s) h as"
    using free_loop_chain [OF p(1,2), of 0] by (auto simp: pbuf_free_def)
  show ?thesis
    using assms(2) recv_loop_packet [OF assms(1)] as(2) h tot
    by (intro exI [of _ h]) (simp add: lwip_app_tcp_client_recv_def call_def padded_def)
qed

section \<open>Sending\<close>

text \<open>The greeting fits in one element of the pool, the first of the free list.\<close>

definition one_buffer :: "nat \<Rightarrow> pbuf \<Rightarrow> pheap \<Rightarrow> pheap" where
  "one_buffer a b h = \<lparr>bufs = (bufs h)(a \<mapsto> b), pool = tl (pool h)\<rparr>"

lemma greeting_buffer:
  assumes "pool h = a # as" "length (junk a) = 512"
  shows "\<exists>h1 b. pbuf_alloc_pool junk 54 14 h = Some (Some a, h1) \<and>
     pbuf_take (Some a) client_send_buff h1 = Some (ERR_OK, one_buffer a b h) \<and>
     p_next b = None \<and> p_ref b = 1 \<and> p_type b = PBUF_POOL \<and> p_len b = 14 \<and> payload_at b 0 14 = Some client_send_buff"
proof -
  define b0 where "b0 = \<lparr>p_next = None, p_payload = drop 56 (junk a), p_tot_len = 14, p_len = 14, p_type = PBUF_POOL, p_ref = 1\<rparr>"
  define b where "b = b0\<lparr>p_payload := client_send_buff @ drop 14 (p_payload b0)\<rparr>"
  have len: "length client_send_buff = 14" by (simp add: client_send_buff_def)
  have pay: "length (p_payload b0) = 456" using assms(2) by (simp add: b0_def)
  have al: "pbuf_alloc_pool junk 54 14 h = Some (Some a, one_buffer a b0 h)"
    unfolding pbuf_alloc_pool_def using assms(1)
    by (subst pbuf_alloc_loop.simps)
      (simp add: memp_malloc_def mem_align_def min_def word_le_nat_alt b0_def one_buffer_def set_buf_def)
  have put: "payload_put b0 0 client_send_buff = Some b" using pay len by (simp add: payload_put_def b_def)
  have "pbuf_take_loop (Some a) client_send_buff (one_buffer a b0 h) = Some (one_buffer a b h)"
    using len put by (subst pbuf_take_loop.simps, subst pbuf_take_loop.simps)
      (auto simp: one_buffer_def b0_def set_buf_def)
  then have "pbuf_take (Some a) client_send_buff (one_buffer a b0 h) = Some (ERR_OK, one_buffer a b h)"
    using len by (simp add: pbuf_take_def one_buffer_def b0_def)
  moreover have "payload_at b 0 14 = Some client_send_buff" using pay len by (simp add: payload_at_def b_def)
  ultimately show ?thesis using al by (intro exI [of _ "one_buffer a b0 h"] exI [of _ b]) (simp add: b_def b0_def)
qed

lemma free_one_buffer:
  assumes "pool h = a # as" "bufs h a = None" "p_next b = None" "p_ref b = 1" "p_type b = PBUF_POOL"
  shows "\<exists>c. pbuf_free (Some a) (one_buffer a b h) = Some (c, h)"
proof -
  have "dealloc a b (one_buffer a b h) = h"
    using assms by (cases h) (auto simp: dealloc_def memp_free_def one_buffer_def Let_def)
  then show ?thesis
    using assms by (simp add: pbuf_free_def, subst pbuf_free_loop.simps, subst pbuf_free_loop.simps) (simp add: one_buffer_def)
qed

text \<open>The answer of the TCP client is released twice. When data has arrived and the stack takes the answer, the send
  loop releases the buffer, and the release at the end of \<open>lwip_app_tcp_client_poll\<close> reaches a buffer that is in the pool
  already. When the stack refuses the data, the buffer is released once and the heap is as before.\<close>

theorem tcp_poll_releases_twice:
  assumes "tcpStatus s = enTcpClientRecvOK" "pool (pbufs s) = a # as" "bufs (pbufs s) a = None" "length (junk a) = 512"
    and "sndbuf 0 \<ge> 14"
  shows "if wr 0 = ERR_OK then lwip_app_tcp_client_poll junk sndbuf wr s = None
    else lwip_app_tcp_client_poll junk sndbuf wr s =
      Some (ERR_OK, s\<lparr>tcpStatus := enTcpClientAckWait, calls := calls s @ [Tcp_write client_send_buff]\<rparr>)"
proof -
  obtain h1 b where g: "pbuf_alloc_pool junk 54 14 (pbufs s) = Some (Some a, h1)"
     "pbuf_take (Some a) client_send_buff h1 = Some (ERR_OK, one_buffer a b (pbufs s))"
     "p_next b = None" "p_ref b = 1" "p_type b = PBUF_POOL" "p_len b = 14" "payload_at b 0 14 = Some client_send_buff"
    using greeting_buffer [of "pbufs s" a as junk] assms(2,4) by blast
  let ?h = "one_buffer a b (pbufs s)"
  have len: "of_nat (length client_send_buff) = (14 :: UNS16)" by (simp add: client_send_buff_def)
  obtain c where f: "pbuf_free (Some a) ?h = Some (c, pbufs s)"
    using free_one_buffer [OF assms(2,3) g(3-5)] by blast
  have ba: "bufs ?h a = Some b" by (simp add: one_buffer_def)
  show ?thesis
  proof (cases "wr 0 = ERR_OK")
    case True
    have "tcp_send_loop sndbuf wr 0 ERR_OK (Some a) (s\<lparr>pbufs := ?h\<rparr>) =
        Some (s\<lparr>pbufs := pbufs s, calls := calls s @ [Tcp_write client_send_buff]\<rparr>)"
      using True g ba assms(5) f by (subst tcp_send_loop.simps, subst tcp_send_loop.simps) (simp add: pbuf_ref_def call_def)
    moreover have "pbuf_free (Some a) (pbufs s) = None"
      using assms(3) by (simp add: pbuf_free_def) (subst pbuf_free_loop.simps, simp)
    ultimately show ?thesis
      using True assms(1) g(1,2) len by (simp add: lwip_app_tcp_client_poll_def lwip_app_tcp_client_send_data_def)
  next
    case False
    have "tcp_send_loop sndbuf wr 0 ERR_OK (Some a) (s\<lparr>pbufs := ?h\<rparr>) =
        Some (s\<lparr>pbufs := ?h, calls := calls s @ [Tcp_write client_send_buff]\<rparr>)"
      using False g ba assms(5) by (subst tcp_send_loop.simps, subst tcp_send_loop.simps) (simp add: call_def)
    then show ?thesis
      using False assms(1) g(1,2) len f by (simp add: lwip_app_tcp_client_poll_def lwip_app_tcp_client_send_data_def)
  qed
qed

text \<open>The UDP client answers a received packet with one datagram and leaves the heap as it found it, whether the stack takes
  the datagram or not; with an empty pool it reports a send error.\<close>

theorem udp_client_answers:
  assumes "udpstatus (obj s) = enUdpRecvOK" "\<forall>a\<in>set (pool (pbufs s)). bufs (pbufs s) a = None \<and> length (junk a) = 512"
  shows "lwip_app_udp_client junk send_ok s =
    (case pool (pbufs s) of
       [] \<Rightarrow> Some (upd_obj (\<lambda>ob. ob\<lparr>udpstatus := enUdpSendErr\<rparr>) s)
     | a # as \<Rightarrow> Some (call (Udp_send (Some a))
         (upd_obj (\<lambda>ob. ob\<lparr>udpstatus := if send_ok then enUdpSendOK else enUdpSendErr\<rparr>) s)))"
proof (cases "pool (pbufs s)")
  case Nil
  then have "pbuf_alloc_pool junk 54 14 (pbufs s) = Some (None, pbufs s)"
    by (simp add: pbuf_alloc_pool_def pbuf_alloc_loop.simps [of junk None] memp_malloc_def)
  with assms(1) Nil show ?thesis
    by (simp add: lwip_app_udp_client_def lwip_app_udp_send_data_def client_send_buff_def upd_obj_def pbuf_free_def)
next
  case (Cons a as)
  obtain h1 b where g: "pbuf_alloc_pool junk 54 14 (pbufs s) = Some (Some a, h1)"
     "pbuf_take (Some a) client_send_buff h1 = Some (ERR_OK, one_buffer a b (pbufs s))"
     "p_next b = None" "p_ref b = 1" "p_type b = PBUF_POOL"
    using greeting_buffer [of "pbufs s" a as junk] Cons assms(2) by auto
  obtain c where f: "pbuf_free (Some a) (one_buffer a b (pbufs s)) = Some (c, pbufs s)"
    using free_one_buffer [OF Cons _ g(3-5)] assms(2) Cons by auto
  have len: "of_nat (length client_send_buff) = (14 :: UNS16)" by (simp add: client_send_buff_def)
  show ?thesis
    using assms(1) Cons g(1,2) f len
    by (simp add: lwip_app_udp_client_def lwip_app_udp_send_data_def upd_obj_def call_def Let_def)
qed

section \<open>Timers and DHCP\<close>

lemma numTimeDelta_elapsed: "unat (numTimeDelta now before) = unat (now - before) - 1"
proof (cases "now - before = 0")
  case True
  then show ?thesis by (simp add: numTimeDelta_def)
next
  case False
  then have d: "unat (now - before) \<noteq> 0" by (simp add: unat_eq_zero)
  have lt: "unat (now - before) < 2 ^ 32" using unsigned_less [of "now - before", where ?'a = nat] by simp
  have "unat (now - before + 0xFFFFFFFF) = (unat (now - before) + 0xFFFFFFFF) mod 2 ^ 32"
    by (simp only: unat_word_ariths) simp
  also have "\<dots> = unat (now - before) - 1"
  proof -
    have "unat (now - before) + 0xFFFFFFFF = (unat (now - before) - 1) + 2 ^ 32" using d by simp
    then show ?thesis using lt d by (simp only: mod_add_self2) simp
  qed
  finally have "unat (now - before + 0xFFFFFFFF) = unat (now - before) - 1" .
  moreover have "unat (numTimeDelta now before) = unat (now - before + 0xFFFFFFFF) mod 0xFFFFFFFF"
    by (simp add: numTimeDelta_def unat_mod)
  ultimately show ?thesis using lt by simp
qed

lemma due_iff: "numTimeDelta now before \<ge> of_nat n \<longleftrightarrow> unat (now - before) > n" if "0 < n" "n < 2 ^ 32"
proof -
  have "unat (of_nat n :: UNS32) = n" using that by (simp add: unsigned_of_nat take_bit_nat_eq_self)
  then show ?thesis using that by (auto simp: word_le_nat_alt numTimeDelta_elapsed)
qed

lemmas due = due_iff [of 25, simplified] due_iff [of 500, simplified] due_iff [of 5000, simplified] due_iff [of 60000, simplified]

lemma dhcp_frame [simp]:
  "lwip_sys_timer (lwip_dhcp_process_handle t s) = lwip_sys_timer s"
  "DHCPCoarseTimer (lwip_dhcp_process_handle t s) = DHCPCoarseTimer s"
  "DHCPfineTimer (lwip_dhcp_process_handle t s) = DHCPfineTimer s"
  "calls (lwip_dhcp_process_handle t s) = calls s @ (if dhcpstatus (obj s) = 0 then [Dhcp_start] else [])"
  by (auto simp: lwip_dhcp_process_handle_def upd_obj_def call_def)

text \<open>The periodic handler calls a timer of the stack when more than its interval has passed since the last call, counted on
  the 32-bit clock with its wrap-around; when exactly the interval has passed it does not call yet, because
  the difference it computes is one less than the time passed.\<close>

theorem periodic_handle_calls:
  "calls (lwip_periodic_handle tries s) = calls s @
     (if unat (lwip_sys_timer s - TCPTimer s) > 25 then [Tcp_tmr] else []) @
     (if unat (lwip_sys_timer s - ARPTimer s) > 5000 then [Etharp_tmr] else []) @
     (if unat (lwip_sys_timer s - DHCPfineTimer s) > 500
      then Dhcp_fine_tmr # (if dhcpstatus (obj s) = 0 then [Dhcp_start] else []) else []) @
     (if unat (lwip_sys_timer s - DHCPCoarseTimer s) > 60000 then [Dhcp_coarse_tmr] else [])"
  by (simp add: lwip_periodic_handle_def Let_def due call_def)

definition agree :: "net_app \<Rightarrow> bool" where
  "agree s \<longleftrightarrow> ip_addr (nif s) = IP4_ADDR (ip (obj s)) \<and> nif_netmask (nif s) = IP4_ADDR (netmask (obj s)) \<and>
     gw (nif s) = IP4_ADDR (gateway (obj s))"

lemma IP4_ADDR_bytes [simp]: "IP4_ADDR (addr_bytes v) = v"
  by (simp add: IP4_ADDR_def addr_bytes_def)

definition waits :: "net_app \<Rightarrow> bool" where
  "waits s \<longleftrightarrow> dhcpstatus (obj s) = 0 \<or> dhcpstatus (obj s) = 1"

lemma dhcp_step:
  fixes t :: UNS8
  assumes "waits s"
  defines "s' \<equiv> lwip_dhcp_process_handle t s"
  shows "dhcpstatus (obj s) = 0 \<Longrightarrow> dhcpstatus (obj s') = 1"
    "dhcpstatus (obj s) = 1 \<Longrightarrow> t > 4 \<Longrightarrow> \<not> waits s'"
    "waits s' \<or> (dhcpstatus (obj s') = 2 \<or> dhcpstatus (obj s') = 0xFF) \<and> agree s'"
  using assms(1) by (auto simp: s'_def waits_def lwip_dhcp_process_handle_def upd_obj_def agree_def call_def)

text \<open>
  The world during the wait: every turn the clock has advanced by one interrupt, and the stack may have set the addresses of
  the interface.
\<close>

definition wait_env :: "(nat \<Rightarrow> netif \<Rightarrow> netif) \<Rightarrow> nat \<Rightarrow> net_app \<Rightarrow> net_app" where
  "wait_env f i s = (TIM3_IRQHandler s)\<lparr>nif := f i (nif s)\<rparr>"

definition since :: "net_app \<Rightarrow> nat" where
  "since s = unat (lwip_sys_timer s - DHCPfineTimer s)"

lemma wait_turn:
  fixes t :: UNS8 and f :: "nat \<Rightarrow> netif \<Rightarrow> netif" and i :: nat
  assumes "waits s" "since s \<le> 500"
  defines "s' \<equiv> lwip_periodic_handle t (wait_env f i s)"
  shows "if since s + 10 \<le> 500 then obj s' = obj s \<and> since s' = since s + 10
    else since s' = 0 \<and> (dhcpstatus (obj s) = 0 \<longrightarrow> dhcpstatus (obj s') = 1) \<and>
      (dhcpstatus (obj s) = 1 \<and> t > 4 \<longrightarrow> \<not> waits s') \<and>
      (waits s' \<or> (dhcpstatus (obj s') = 2 \<or> dhcpstatus (obj s') = 0xFF) \<and> agree s')"
proof -
  define e where "e = wait_env f i s"
  have "lwip_sys_timer e - DHCPfineTimer e = (lwip_sys_timer s - DHCPfineTimer s) + 10"
    by (simp add: e_def wait_env_def TIM3_IRQHandler_def)
  then have d: "unat (lwip_sys_timer e - DHCPfineTimer e) = since s + 10"
    using assms(2) by (simp add: since_def unat_word_ariths)
  have ob: "obj e = obj s" by (simp add: e_def wait_env_def TIM3_IRQHandler_def)
  define e1 where "e1 = (if numTimeDelta (lwip_sys_timer e) (TCPTimer e) \<ge> 25 then call Tcp_tmr (e\<lparr>TCPTimer := lwip_sys_timer e\<rparr>) else e)"
  define e2 where "e2 = (if numTimeDelta (lwip_sys_timer e1) (ARPTimer e1) \<ge> 5000
     then call Etharp_tmr (e1\<lparr>ARPTimer := lwip_sys_timer e1\<rparr>) else e1)"
  have e2: "obj e2 = obj s" "nif e2 = nif e" "lwip_sys_timer e2 = lwip_sys_timer e" "DHCPfineTimer e2 = DHCPfineTimer e"
    using ob by (simp_all add: e2_def e1_def call_def)
  define e3 where "e3 = (if numTimeDelta (lwip_sys_timer e2) (DHCPfineTimer e2) \<ge> 500
     then lwip_dhcp_process_handle t (call Dhcp_fine_tmr (e2\<lparr>DHCPfineTimer := lwip_sys_timer e2\<rparr>)) else e2)"
  have s': "s' = (if numTimeDelta (lwip_sys_timer e3) (DHCPCoarseTimer e3) \<ge> 60000
     then call Dhcp_coarse_tmr (e3\<lparr>DHCPCoarseTimer := lwip_sys_timer e3\<rparr>) else e3)"
    unfolding s'_def e_def [symmetric] lwip_periodic_handle_def Let_def e3_def e2_def e1_def ..
  have r: "obj s' = obj e3" "nif s' = nif e3" "since s' = since e3" by (simp_all add: s' call_def since_def)
  show ?thesis
  proof (cases "since s + 10 \<le> 500")
    case True
    then have "e3 = e2" using d e2 by (simp add: e3_def due)
    with True r e2 d show ?thesis by (simp add: since_def)
  next
    case False
    define e4 where "e4 = call Dhcp_fine_tmr (e2\<lparr>DHCPfineTimer := lwip_sys_timer e2\<rparr>)"
    have e3: "e3 = lwip_dhcp_process_handle t e4" using False d e2 by (simp add: e3_def e4_def due)
    have e4: "obj e4 = obj s" "since e3 = 0" "waits e4" using e2(1) assms(1) by (simp_all add: e3 e4_def call_def since_def waits_def)
    have "waits s' = waits e3" "agree s' = agree e3" using r by (simp_all add: waits_def agree_def)
    with False r e4 dhcp_step [OF e4(3), of t] show ?thesis by (simp add: e3)
  qed
qed

text \<open>Turns that are left once the stack has given up: a potential that every turn lowers.\<close>

definition turns_left :: "net_app \<Rightarrow> nat" where
  "turns_left s = (if dhcpstatus (obj s) = 0 then 600 else 0) + (510 - since s)"

lemma dhcp_wait_done: "\<not> waits s \<Longrightarrow> dhcpstatus (obj s) = 2 \<or> dhcpstatus (obj s) = 0xFF \<Longrightarrow> dhcp_wait env tries i s = Some s"
  by (subst dhcp_wait.simps) auto

lemma dhcp_wait_step: "waits s \<Longrightarrow> dhcp_wait env tries i s = dhcp_wait env tries (i + 1) (lwip_periodic_handle (tries i) (env i s))"
  by (subst dhcp_wait.simps) (auto simp: waits_def)

definition ends :: "net_app option \<Rightarrow> bool" where
  "ends r \<longleftrightarrow> (\<exists>s. r = Some s \<and> (dhcpstatus (obj s) = 2 \<or> dhcpstatus (obj s) = 0xFF) \<and> agree s)"

lemma dhcp_wait_late:
  assumes "\<forall>i\<ge>N. tries i > 4" "N \<le> i" "waits s" "since s \<le> 500"
  shows "ends (dhcp_wait (wait_env f) tries i s)"
  using assms(2-4)
proof (induction "turns_left s" arbitrary: i s rule: less_induct)
  case less
  define s' where "s' = lwip_periodic_handle (tries i) (wait_env f i s)"
  note turn = wait_turn [OF less.prems(2,3), of "tries i" f i, folded s'_def]
  note step = dhcp_wait_step [OF less.prems(2), of "wait_env f" tries i, folded s'_def]
  have t: "tries i > 4" using assms(1) less.prems(1) by simp
  show ?case
  proof (cases "waits s'")
    case True
    have "since s' \<le> 500" "turns_left s' < turns_left s"
      using turn True t less.prems(2,3) by (auto simp: turns_left_def waits_def split: if_splits)
    with less.hyps [of s' "i + 1"] True less.prems(1) step show ?thesis by simp
  next
    case False
    then have "(dhcpstatus (obj s') = 2 \<or> dhcpstatus (obj s') = 0xFF) \<and> agree s'"
      using turn less.prems(2) by (auto simp: waits_def split: if_splits)
    with False step dhcp_wait_done [of s' "wait_env f" tries "i + 1"] show ?thesis by (auto simp: ends_def)
  qed
qed

lemma dhcp_wait_ends:
  assumes "\<forall>i\<ge>N. tries i > 4" "waits s" "since s \<le> 500"
  shows "ends (dhcp_wait (wait_env f) tries i s)"
  using assms(2,3)
proof (induction "N - i" arbitrary: i s)
  case 0
  then show ?case using dhcp_wait_late [OF assms(1)] by simp
next
  case (Suc n)
  define s' where "s' = lwip_periodic_handle (tries i) (wait_env f i s)"
  note turn = wait_turn [OF Suc.prems, of "tries i" f i, folded s'_def]
  note step = dhcp_wait_step [OF Suc.prems(1), of "wait_env f" tries i, folded s'_def]
  show ?case
  proof (cases "waits s'")
    case True
    have "since s' \<le> 500" using turn by (auto split: if_splits)
    with Suc.hyps(1) [of "i + 1" s'] Suc.hyps(2) True step show ?thesis by simp
  next
    case False
    then have "(dhcpstatus (obj s') = 2 \<or> dhcpstatus (obj s') = 0xFF) \<and> agree s'"
      using turn Suc.prems(1) by (auto simp: waits_def split: if_splits)
    with False step dhcp_wait_done [of s' "wait_env f" tries "i + 1"] show ?thesis by (auto simp: ends_def)
  qed
qed


section \<open>The properties at a concrete state\<close>

definition net_demo :: "UNS8 \<Rightarrow> int \<Rightarrow> net_app" where
  "net_demo st u = \<lparr>
     obj = \<lparr>mac = [], remoteip = [], ip = [], netmask = [], gateway = [], dhcpstatus = 0, udpstatus = u\<rparr>,
     nif = \<lparr>ip_addr = 0, nif_netmask = 0, gw = 0\<rparr>, lwip_sys_timer = 0, TCPTimer = 0, ARPTimer = 0, DHCPfineTimer = 0,
     DHCPCoarseTimer = 0, calls = [], tcpStatus = st, tcp_recv_buff = [], udp_recv_buff = [], pbufs = two_packets\<rparr>"

theorem tcp_recv_stores_prefix_witness:
  "\<exists>s'. lwip_app_tcp_client_recv ERR_OTHER (Some 4) ERR_OK (net_demo 2 0) = Some (ERR_OK, s') \<and>
     take 6 (tcp_recv_buff s') = [10, 11, 12, 13, 14, 0] \<and> calls s' = [Tcp_recved 5]"
proof -
  have p: "packet (pbufs (net_demo 2 0)) (Some 4) [4, 5]" "tcpStatus (net_demo 2 0) > 1"
    using two_packets_packet by (simp_all add: net_demo_def)
  have b: "chain_bytes (pbufs (net_demo 2 0)) [4, 5] = [10, 11, 12, 13, 14]" "calls (net_demo 2 0) = []"
    using two_packets_bytes by (simp_all add: net_demo_def)
  show ?thesis
    using tcp_recv_stores_prefix [OF p, of ERR_OTHER] unfolding b by (auto simp: take_Cons')
qed

theorem tcp_poll_releases_twice_witness:
  "lwip_app_tcp_client_poll (\<lambda>_. replicate 512 0) (\<lambda>_. 1460) (\<lambda>_. ERR_OK) (net_demo 3 0) = None"
  using tcp_poll_releases_twice [of "net_demo 3 0" 7 "[]" "\<lambda>_. replicate 512 0" "\<lambda>_. 1460" "\<lambda>_. ERR_OK"]
  by (simp add: net_demo_def two_packets_def word_le_nat_alt)

theorem udp_client_answers_witness:
  "lwip_app_udp_client (\<lambda>_. replicate 512 0) True (net_demo 0 2) =
     Some (call (Udp_send (Some 7)) (upd_obj (\<lambda>ob. ob\<lparr>udpstatus := 1\<rparr>) (net_demo 0 2)))"
  using udp_client_answers [of "net_demo 0 2" "\<lambda>_. replicate 512 0" True]
  by (simp add: net_demo_def two_packets_def)


end
