(* ===== verification/EthDriver.thy ===== *)
theory EthDriver
  imports Pbuf Malloc
begin

text \<open>
  The Ethernet driver: \<^verbatim>\<open>Main/src/lan8720.c\<close> and \<^verbatim>\<open>LwIP/arch/ethernetif.c\<close>, with the ring initialisation of
  \<^verbatim>\<open>stm32f4xx_eth.c\<close>. Controller and driver share two rings of descriptors. The bit \<open>OWN\<close> of a descriptor says that it belongs
  to the controller. A pointer to a descriptor is its index in the table, the address of a buffer is its offset in the memory
  of all buffers. The status register clears the bits that are written as ones.

  Shown here: the initial rings are in order; the receive interrupt takes the waiting frames in the order of the ring, gives
  their descriptors back and returns; a frame becomes a packet with the same bytes or is dropped without a leak; a packet
  is sent as one frame. The memory of the rings comes from the allocator of \<open>Malloc\<close>.
\<close>

unbundle bit_operations_syntax

section \<open>Descriptors\<close>

record dma_desc =
  Status :: UNS32
  ControlBufferSize :: UNS32
  Buffer1Addr :: nat
  Buffer2NextDescAddr :: nat

datatype eth_poll = DMARPDR | DMATPDR

record eth =
  rx_tab :: "dma_desc list"
  tx_tab :: "dma_desc list"
  DMARxDescToGet :: nat
  DMATxDescToSet :: nat
  rx_mem :: "UNS8 list"
  tx_mem :: "UNS8 list"
  DMASR :: UNS32
  resumes :: "eth_poll list"

abbreviation (input) DESC_OWN :: UNS32 where "DESC_OWN \<equiv> 0x80000000"
abbreviation (input) ETH_BUF_SIZE :: nat where "ETH_BUF_SIZE \<equiv> 1524"

definition ETH_DMARxDescChainInit :: "nat \<Rightarrow> eth \<Rightarrow> eth" where
  "ETH_DMARxDescChainInit RxBuffCount e =
     e\<lparr>DMARxDescToGet := 0,
       rx_tab := map (\<lambda>i. \<lparr>Status = DESC_OWN, ControlBufferSize = 0x4000 OR of_nat ETH_BUF_SIZE, Buffer1Addr = i * ETH_BUF_SIZE,
         Buffer2NextDescAddr = if i < RxBuffCount - 1 then i + 1 else 0\<rparr>) [0..<RxBuffCount]\<rparr>"

text \<open>The size of a transmit buffer is not set here; \<open>junk\<close> is what the memory held.\<close>

definition ETH_DMATxDescChainInit :: "(nat \<Rightarrow> UNS32) \<Rightarrow> nat \<Rightarrow> eth \<Rightarrow> eth" where
  "ETH_DMATxDescChainInit junk TxBuffCount e =
     e\<lparr>DMATxDescToSet := 0,
       tx_tab := map (\<lambda>i. \<lparr>Status = 0x100000, ControlBufferSize = junk i, Buffer1Addr = i * ETH_BUF_SIZE,
         Buffer2NextDescAddr = if i < TxBuffCount - 1 then i + 1 else 0\<rparr>) [0..<TxBuffCount]\<rparr>"

definition ETH_DMATxDescChecksumInsertionConfig :: "UNS32 \<Rightarrow> dma_desc \<Rightarrow> dma_desc" where
  "ETH_DMATxDescChecksumInsertionConfig c d = d\<lparr>Status := Status d OR c\<rparr>"

record eth_netif =
  hwaddr_len :: UNS8
  hwaddr :: "UNS8 list"
  mtu :: UNS16
  if_flags :: UNS8

definition low_level_init :: "(nat \<Rightarrow> UNS32) \<Rightarrow> UNS8 list \<Rightarrow> eth \<Rightarrow> eth_netif \<times> eth" where
  "low_level_init junk mac e =
     (let e1 = ETH_DMATxDescChainInit junk 5 e;
          e2 = ETH_DMARxDescChainInit 5 e1
      in (\<lparr>hwaddr_len = 6, hwaddr = take 6 mac, mtu = 1500, if_flags = 0x02 OR 0x08 OR 0x04\<rparr>,
          e2\<lparr>tx_tab := map (ETH_DMATxDescChecksumInsertionConfig 0xC00000) (tx_tab e2)\<rparr>))"

section \<open>Reception\<close>

definition resume_rx :: "eth \<Rightarrow> eth" where
  "resume_rx e = (if DMASR e AND 0x80 \<noteq> 0 then e\<lparr>DMASR := DMASR e AND NOT 0x80, resumes := resumes e @ [DMARPDR]\<rparr> else e)"

text \<open>A frame with an error has length 0, and then its buffer address, 0, is not used.\<close>

record frame =
  f_length :: UNS32
  f_buffer :: nat
  f_descriptor :: "nat option"

definition ETH_GetDMARxDescFrameLength :: "dma_desc \<Rightarrow> UNS32" where
  "ETH_GetDMARxDescFrameLength d = drop_bit 16 (Status d AND 0x3FFF0000)"

definition ETH_Rx_Packet :: "eth \<Rightarrow> frame \<times> eth" where
  "ETH_Rx_Packet e =
     (let d = rx_tab e ! DMARxDescToGet e
      in if Status d AND DESC_OWN \<noteq> 0 then (\<lparr>f_length = 0, f_buffer = 0, f_descriptor = None\<rparr>, resume_rx e)
         else let good = (Status d AND 0x8000 = 0 \<and> Status d AND 0x100 \<noteq> 0 \<and> Status d AND 0x200 \<noteq> 0)
              in (\<lparr>f_length = if good then ETH_GetDMARxDescFrameLength d - 4 else 0,
                   f_buffer = if good then Buffer1Addr d else 0, f_descriptor = Some (DMARxDescToGet e)\<rparr>,
                  e\<lparr>DMARxDescToGet := Buffer2NextDescAddr d\<rparr>))"

text \<open>The copy of a frame into the chain \<open>q\<close>; \<open>l\<close> bytes have been copied.\<close>

partial_function (option) input_loop :: "UNS8 list \<Rightarrow> nat \<Rightarrow> pptr \<Rightarrow> nat \<Rightarrow> pheap \<Rightarrow> pheap option" where
  "input_loop mem buffer q l h =
     (case q of None \<Rightarrow> Some h | Some a \<Rightarrow> do {
        b \<leftarrow> bufs h a;
        if buffer + l + unat (p_len b) \<le> length mem then do {
          b' \<leftarrow> payload_put b 0 (take (unat (p_len b)) (drop (buffer + l) mem));
          input_loop mem buffer (p_next b) (l + unat (p_len b)) (set_buf a b' h) }
        else None })"

text \<open>The descriptor of the frame is written without a test for \<open>NULL\<close>.\<close>

definition low_level_input :: "(nat \<Rightarrow> UNS8 list) \<Rightarrow> eth \<Rightarrow> pheap \<Rightarrow> (pptr \<times> eth \<times> pheap) option" where
  "low_level_input junk e h = do {
     let (frame, e1) = ETH_Rx_Packet e;
     (p, h1) \<leftarrow> pbuf_alloc_pool junk 0 (ucast (f_length frame)) h;
     h2 \<leftarrow> (if p \<noteq> None then input_loop (rx_mem e1) (f_buffer frame) p 0 h1 else Some h1);
     d \<leftarrow> f_descriptor frame;
     Some (p, resume_rx (e1\<lparr>rx_tab := (rx_tab e1)[d := (rx_tab e1 ! d)\<lparr>Status := DESC_OWN\<rparr>]\<rparr>), h2) }"

text \<open>\<open>input\<close> is the function of the protocol stack that the interface was given; \<open>'s\<close> is the state of the stack.\<close>

type_synonym 's stack_input = "nat \<Rightarrow> pheap \<Rightarrow> 's \<Rightarrow> err_t \<times> pheap \<times> 's"

definition ethernetif_input ::
  "'s stack_input \<Rightarrow> (nat \<Rightarrow> UNS8 list) \<Rightarrow> eth \<Rightarrow> pheap \<Rightarrow> 's \<Rightarrow> (err_t \<times> eth \<times> pheap \<times> 's) option" where
  "ethernetif_input input junk e h s = do {
     (p, e1, h1) \<leftarrow> low_level_input junk e h;
     case p of None \<Rightarrow> Some (ERR_MEM, e1, h1, s)
     | Some a \<Rightarrow> do {
         let (err, h2, s2) = input a h1 s;
         if err \<noteq> ERR_OK then do { (c, h3) \<leftarrow> pbuf_free p h2; Some (err, e1, h3, s2) }
         else Some (err, e1, h2, s2) } }"

definition ETH_GetRxPktSize :: "dma_desc \<Rightarrow> UNS32" where
  "ETH_GetRxPktSize d =
     (if Status d AND DESC_OWN = 0 \<and> Status d AND 0x8000 = 0 \<and> Status d AND 0x100 \<noteq> 0
      then ETH_GetDMARxDescFrameLength d else 0)"

partial_function (option) eth_irq_loop ::
  "'s stack_input \<Rightarrow> (nat \<Rightarrow> UNS8 list) \<Rightarrow> eth \<Rightarrow> pheap \<Rightarrow> 's \<Rightarrow> (eth \<times> pheap \<times> 's) option" where
  "eth_irq_loop input junk e h s =
     (if ETH_GetRxPktSize (rx_tab e ! DMARxDescToGet e) \<noteq> 0 then do {
        (err, e1, h1, s1) \<leftarrow> ethernetif_input input junk e h s;
        eth_irq_loop input junk e1 h1 s1 }
      else Some (e, h, s))"

definition ETH_IRQHandler ::
  "'s stack_input \<Rightarrow> (nat \<Rightarrow> UNS8 list) \<Rightarrow> eth \<Rightarrow> pheap \<Rightarrow> 's \<Rightarrow> (eth \<times> pheap \<times> 's) option" where
  "ETH_IRQHandler input junk e h s = do {
     (e1, h1, s1) \<leftarrow> eth_irq_loop input junk e h s;
     Some (e1\<lparr>DMASR := DMASR e1 AND NOT 0x40 AND NOT 0x10000\<rparr>, h1, s1) }"

section \<open>Transmission\<close>

definition ETH_GetCurrentTxBuffer :: "eth \<Rightarrow> nat" where
  "ETH_GetCurrentTxBuffer e = Buffer1Addr (tx_tab e ! DMATxDescToSet e)"

definition resume_tx :: "eth \<Rightarrow> eth" where
  "resume_tx e = (if DMASR e AND 0x4 \<noteq> 0 then e\<lparr>DMASR := DMASR e AND NOT 0x4, resumes := resumes e @ [DMATPDR]\<rparr> else e)"

definition ETH_Tx_Packet :: "UNS16 \<Rightarrow> eth \<Rightarrow> UNS8 \<times> eth" where
  "ETH_Tx_Packet FrameLength e =
     (let i = DMATxDescToSet e; d = tx_tab e ! i
      in if Status d AND DESC_OWN \<noteq> 0 then (0, e)
         else let d1 = d\<lparr>ControlBufferSize := ucast FrameLength AND 0x1FFF, Status := Status d OR 0x20000000 OR 0x10000000 OR DESC_OWN\<rparr>;
                  e1 = resume_tx (e\<lparr>tx_tab := (tx_tab e)[i := d1]\<rparr>)
              in (1, e1\<lparr>DMATxDescToSet := Buffer2NextDescAddr (tx_tab e1 ! i)\<rparr>))"

partial_function (option) output_loop :: "pheap \<Rightarrow> nat \<Rightarrow> pptr \<Rightarrow> nat \<Rightarrow> UNS8 list \<Rightarrow> (nat \<times> UNS8 list) option" where
  "output_loop h buffer q l mem =
     (case q of None \<Rightarrow> Some (l, mem) | Some a \<Rightarrow> do {
        b \<leftarrow> bufs h a;
        bs \<leftarrow> payload_at b 0 (unat (p_len b));
        if buffer + l + unat (p_len b) \<le> length mem
        then output_loop h buffer (p_next b) (l + unat (p_len b)) (put_list mem (buffer + l) bs)
        else None })"

definition low_level_output :: "pheap \<Rightarrow> pptr \<Rightarrow> eth \<Rightarrow> (err_t \<times> eth) option" where
  "low_level_output h p e = do {
     (l, mem) \<leftarrow> output_loop h (ETH_GetCurrentTxBuffer e) p 0 (tx_mem e);
     let (res, e1) = ETH_Tx_Packet (of_nat l) (e\<lparr>tx_mem := mem\<rparr>);
     Some (if res = 0 then ERR_MEM else ERR_OK, e1) }"

section \<open>The rings as queues\<close>

text \<open>
  A ring in order: every descriptor points to the next one and has a buffer of 1524 bytes of the memory. The queue
  of a ring starts with the descriptor that the driver looks at next.
\<close>

definition ring :: "dma_desc list \<Rightarrow> nat \<Rightarrow> nat \<Rightarrow> bool" where
  "ring tab cur m \<longleftrightarrow> cur < length tab \<and>
     (\<forall>i<length tab. Buffer2NextDescAddr (tab ! i) = Suc i mod length tab \<and> Buffer1Addr (tab ! i) + ETH_BUF_SIZE \<le> m)"

definition queue :: "dma_desc list \<Rightarrow> nat \<Rightarrow> dma_desc list" where
  "queue tab cur = rotate cur tab"

lemma queue_head: "cur < length tab \<Longrightarrow> queue tab cur = tab ! cur # tl (queue tab cur)"
  unfolding queue_def by (simp add: rotate_drop_take) (metis Cons_nth_drop_Suc append_Cons list.sel(3))

lemma queue_advance:
  assumes "cur < length tab"
  shows "queue (tab[cur := d]) (Suc cur mod length tab) = tl (queue tab cur) @ [d]"
proof -
  have "rotate (Suc cur mod length tab) (tab[cur := d]) = rotate1 (rotate cur (tab[cur := d]))"
    using rotate_conv_mod [of "Suc cur" "tab[cur := d]"] by simp
  also have "rotate cur (tab[cur := d]) = d # tl (rotate cur tab)"
    using assms by (simp add: rotate_drop_take drop_update_cancel upd_conv_take_nth_drop drop_Suc tl_drop)
  finally show ?thesis by (simp add: queue_def)
qed

lemma ring_update:
  assumes "ring tab cur m" "Buffer2NextDescAddr d = Buffer2NextDescAddr (tab ! cur)" "Buffer1Addr d = Buffer1Addr (tab ! cur)"
  shows "ring (tab[cur := d]) (Suc cur mod length tab) m"
proof -
  have "0 < length tab" using assms(1) by (auto simp: ring_def)
  then show ?thesis using assms by (auto simp: ring_def nth_list_update)
qed

section \<open>Reception as steps of the queue\<close>

text \<open>A complete frame that waits for the driver; its length counts the four bytes of the checksum.\<close>

definition waiting :: "dma_desc \<Rightarrow> bool" where
  "waiting d \<longleftrightarrow> ETH_GetRxPktSize d \<noteq> 0"

definition frame_len :: "dma_desc \<Rightarrow> nat" where
  "frame_len d = unat (ETH_GetDMARxDescFrameLength d)"

definition frame_bytes :: "UNS8 list \<Rightarrow> dma_desc \<Rightarrow> UNS8 list" where
  "frame_bytes mem d = (if Status d AND 0x200 \<noteq> 0 then take (frame_len d - 4) (drop (Buffer1Addr d) mem) else [])"

definition give_back :: "dma_desc \<Rightarrow> dma_desc" where
  "give_back d = d\<lparr>Status := DESC_OWN\<rparr>"

text \<open>What the controller keeps to: a frame has a checksum and fits into the buffer of its descriptor.\<close>

definition rx_ok :: "eth \<Rightarrow> bool" where
  "rx_ok e \<longleftrightarrow> ring (rx_tab e) (DMARxDescToGet e) (length (rx_mem e)) \<and>
     (\<forall>d\<in>set (rx_tab e). waiting d \<longrightarrow> 4 \<le> frame_len d \<and> frame_len d \<le> ETH_BUF_SIZE)"

definition rx_queue :: "eth \<Rightarrow> dma_desc list" where
  "rx_queue e = queue (rx_tab e) (DMARxDescToGet e)"

definition pool_ok :: "pheap \<Rightarrow> bool" where
  "pool_ok h \<longleftrightarrow> distinct (pool h) \<and> (\<forall>k\<in>set (pool h). bufs h k = None)"

lemma not_waiting_give_back [simp]: "\<not> waiting (give_back d)"
  by (simp add: waiting_def ETH_GetRxPktSize_def give_back_def)

lemma resume_rx_simps [simp]: "rx_tab (resume_rx e) = rx_tab e" "DMARxDescToGet (resume_rx e) = DMARxDescToGet e"
  "rx_mem (resume_rx e) = rx_mem e" "tx_tab (resume_rx e) = tx_tab e" "tx_mem (resume_rx e) = tx_mem e"
  by (simp_all add: resume_rx_def)

lemma set_buf_same: "bufs h a = Some b \<Longrightarrow> set_buf a b h = h"
  by (simp add: set_buf_def fun_upd_idem)

lemma chain_bytes_set_buf: "a \<notin> set as \<Longrightarrow> chain_bytes (set_buf a b h) as = chain_bytes h as"
  by (rule chain_bytes_cong) auto

text \<open>The copy loop of the driver does what \<open>pbuf_take\<close> does with the bytes of the frame.\<close>

lemma input_loop_take:
  assumes "chain h q as" "distinct as" "fits h as" "buffer + l + length (chain_bytes h as) \<le> length mem"
  shows "input_loop mem buffer q l h = pbuf_take_loop q (take (length (chain_bytes h as)) (drop (buffer + l) mem)) h"
  using assms
proof (induction as arbitrary: q l h)
  case Nil
  then show ?case by (simp add: chain_bytes_def input_loop.simps [of _ _ None] pbuf_take_loop.simps [of None])
next
  case (Cons a as)
  then obtain b where b: "q = Some a" "bufs h a = Some b" "chain h (p_next b) as" by auto
  have ba: "buf h a = b" using b(2) by (simp add: buf_def)
  have l: "unat (p_len b) \<le> length (p_payload b)" "fits h as" "a \<notin> set as" "distinct as"
    using Cons.prems(2,3) ba by (auto simp: fits_def)
  define n r where "n = unat (p_len b)" and "r = length (chain_bytes h as)"
  have len: "length (chain_bytes h (a # as)) = n + r"
    using length_pbuf_bytes [OF l(1)] by (simp add: chain_bytes_def ba n_def r_def)
  define bs where "bs = take (n + r) (drop (buffer + l) mem)"
  have lb: "length bs = n + r" using Cons.prems(4) len by (simp add: bs_def)
  define b' where "b' = b\<lparr>p_payload := take n bs @ drop n (p_payload b)\<rparr>"
  have tk: "take n (drop (buffer + l) mem) = take n bs" "drop n bs = take r (drop (buffer + (l + n)) mem)"
    by (simp_all add: bs_def drop_take ac_simps)
  have put: "payload_put b 0 (take n bs) = Some b'" using l(1) lb by (simp add: payload_put_def b'_def n_def)
  have h1: "chain (set_buf a b' h) (p_next b) as" "fits (set_buf a b' h) as" "chain_bytes (set_buf a b' h) as = chain_bytes h as"
    using b(3) l by (auto simp: fits_def chain_bytes_set_buf intro: chain_set_buf)
  have "input_loop mem buffer q l h = input_loop mem buffer (p_next b) (l + n) (set_buf a b' h)"
    using b put tk Cons.prems(4) len by (subst input_loop.simps) (simp flip: n_def)
  also have "\<dots> = pbuf_take_loop (p_next b) (drop n bs) (set_buf a b' h)"
    using Cons.IH [OF h1(1) l(4) h1(2), of "l + n"] Cons.prems(4) len unfolding h1(3) tk by (simp add: r_def add.assoc)
  also have "\<dots> = pbuf_take_loop q bs h"
  proof (cases "bs = []")
    case True
    then have "n = 0" using lb by simp
    then have "b' = b" using True by (simp add: b'_def)
    then show ?thesis using True b(2) by (simp add: set_buf_same pbuf_take_loop.simps [of _ "[]"])
  next
    case False
    have "\<not> n < length bs \<Longrightarrow> payload_put b 0 bs = Some b'" using put lb by simp
    then show ?thesis unfolding pbuf_take_loop.simps [of q bs h] using False b put by (simp add: Let_def flip: n_def)
  qed
  finally show ?case by (simp add: len bs_def)
qed

lemma building_same_shape:
  assumes "building h p as 0" "same_shape h h' as"
  shows "building h' p as 0"
proof -
  have "packet h p as" using assms(1) by (simp add: building_def packet_def totals_plus_0)
  then have "packet h' p as" by (rule same_shape_packet [OF assms(2)])
  moreover have "p_ref (buf h' a) = p_ref (buf h a) \<and> p_type (buf h' a) = p_type (buf h a)" if "a \<in> set as" for a
    using same_shape_buf [OF assms(2) that] by auto
  ultimately show ?thesis using assms(1) by (simp add: building_def packet_def totals_plus_0)
qed

text \<open>A packet from the pool, filled with bytes: what the driver hands to the stack.\<close>

definition filled_packet :: "pheap \<Rightarrow> pheap \<Rightarrow> nat \<Rightarrow> UNS8 list \<Rightarrow> bool" where
  "filled_packet h h' a bs \<longleftrightarrow> (\<exists>as. building h' (Some a) as 0 \<and> chain_bytes h' as = bs \<and> pool h = as @ pool h' \<and>
     (\<forall>x. x \<notin> set as \<longrightarrow> bufs h' x = bufs h x))"

lemma alloc_and_fill:
  assumes "pool_ok h" "\<forall>k. length (junk k) = 512" "buffer + unat n \<le> length mem"
  shows "if alloc_blocks 0 n \<le> length (pool h)
    then \<exists>a h1 h2. pbuf_alloc_pool junk 0 n h = Some (Some a, h1) \<and> input_loop mem buffer (Some a) 0 h1 = Some h2 \<and>
      filled_packet h h2 a (take (unat n) (drop buffer mem))
    else \<exists>h1. pbuf_alloc_pool junk 0 n h = Some (None, h1) \<and> bufs h1 = bufs h \<and> pool h1 = rev (pool h)"
proof (cases "alloc_blocks 0 n \<le> length (pool h)")
  case False
  then obtain h1 where h1: "pbuf_alloc_pool junk 0 n h = Some (None, h1)" "pool h1 = rev (pool h)"
      "\<forall>x. bufs h1 x = (if x \<in> set (pool h) then None else bufs h x)"
    using alloc_pool_chain [of h 0 junk n] assms(1,2) by (auto simp: pool_ok_def mem_align_def)
  moreover have "bufs h1 = bufs h" using h1(3) assms(1) by (auto simp: pool_ok_def fun_eq_iff)
  ultimately show ?thesis using False by auto
next
  case True
  define m where "m = alloc_blocks 0 n"
  define a as where "a = hd (pool h)" and "as = take m (pool h)"
  obtain h1 where h1: "pbuf_alloc_pool junk 0 n h = Some (Some a, h1)" "building h1 (Some a) as 0"
      "pool h1 = drop m (pool h)" "p_tot_len (buf h1 a) = n" "\<forall>x. x \<notin> set as \<longrightarrow> bufs h1 x = bufs h x"
    using alloc_pool_chain [of h 0 junk n] assms(1,2) True unfolding a_def as_def m_def by (auto simp: pool_ok_def mem_align_def)
  have c: "chain h1 (Some a) as" "distinct as" "fits h1 as" "totals_ok h1 as" "as \<noteq> []"
    using h1(2) by (auto simp: building_def totals_plus_0)
  then obtain as' where as': "as = a # as'" by (cases as) auto
  then have len: "length (chain_bytes h1 as) = unat n" using totals_length [of h1 a as'] c h1(4) by simp
  define bs where "bs = take (unat n) (drop buffer mem)"
  have lb: "length bs = length (chain_bytes h1 as)" using len assms(3) by (simp add: bs_def)
  obtain h2 where h2: "pbuf_take_loop (Some a) bs h1 = Some h2" "same_shape h1 h2 as"
      "chain_bytes h2 as = bs @ drop (length bs) (chain_bytes h1 as)"
    using take_loop_bytes [OF c(1-3), of bs] lb by auto
  have "input_loop mem buffer (Some a) 0 h1 = Some h2"
    using input_loop_take [OF c(1-3), of buffer 0 mem] len assms(3) h2(1) by (simp add: bs_def)
  moreover have "pool h = as @ pool h2" using h2(2) h1(3) by (simp add: same_shape_def as_def)
  moreover have "\<forall>x. x \<notin> set as \<longrightarrow> bufs h2 x = bufs h x" using h2(2) h1(5) by (simp add: same_shape_def)
  moreover have "chain_bytes h2 as = bs" using h2(3) lb by simp
  ultimately have "filled_packet h h2 a bs"
    unfolding filled_packet_def using building_same_shape [OF h1(2) h2(2)] by blast
  with True h1(1) \<open>input_loop mem buffer (Some a) 0 h1 = Some h2\<close> show ?thesis by (auto simp: bs_def)
qed

lemma rx_packet_waiting:
  assumes "rx_ok e" "waiting (rx_tab e ! DMARxDescToGet e)"
  defines "d \<equiv> rx_tab e ! DMARxDescToGet e"
  shows "\<exists>f. ETH_Rx_Packet e = (f, e\<lparr>DMARxDescToGet := Buffer2NextDescAddr d\<rparr>) \<and> f_descriptor f = Some (DMARxDescToGet e) \<and>
    f_buffer f + unat (ucast (f_length f) :: UNS16) \<le> length (rx_mem e) \<and>
    take (unat (ucast (f_length f) :: UNS16)) (drop (f_buffer f) (rx_mem e)) = frame_bytes (rx_mem e) d"
proof -
  have r: "DMARxDescToGet e < length (rx_tab e)" "Buffer1Addr d + 1524 \<le> length (rx_mem e)"
    using assms(1) by (auto simp: rx_ok_def ring_def d_def)
  then have fl: "4 \<le> frame_len d" "frame_len d \<le> 1524" using assms(1,2) by (auto simp: rx_ok_def d_def)
  have st: "Status d AND 0x80000000 = 0" "Status d AND 0x8000 = 0" "Status d AND 0x100 \<noteq> 0"
    using assms(2) by (auto simp: waiting_def ETH_GetRxPktSize_def d_def split: if_splits)
  define v where "v = ETH_GetDMARxDescFrameLength d"
  have "unat (v - 4) = frame_len d - 4" using fl(1) by (simp add: v_def frame_len_def unat_sub word_le_nat_alt)
  then have u: "unat (ucast (v - 4) :: UNS16) = frame_len d - 4" using fl(2) by (simp add: unsigned_ucast_eq take_bit_nat_eq_self)
  show ?thesis
  proof (cases "Status d AND 0x200 \<noteq> 0")
    case True
    then show ?thesis using st u r(2) fl by (simp add: ETH_Rx_Packet_def Let_def frame_bytes_def flip: d_def v_def)
  next
    case False
    then show ?thesis using st r(2) by (simp add: ETH_Rx_Packet_def Let_def frame_bytes_def flip: d_def)
  qed
qed

text \<open>One step: the first frame of the queue becomes a packet, or is dropped when the pool is exhausted; its descriptor goes
  back to the controller and to the end of the queue.\<close>

lemma low_level_input_step:
  assumes "rx_ok e" "pool_ok h" "\<forall>k. length (junk k) = 512" "waiting (hd (rx_queue e))"
  shows "\<exists>p e' h'. low_level_input junk e h = Some (p, e', h') \<and> rx_ok e' \<and> rx_mem e' = rx_mem e \<and>
    rx_queue e' = tl (rx_queue e) @ [give_back (hd (rx_queue e))] \<and>
    (case p of None \<Rightarrow> bufs h' = bufs h \<and> pool h' = rev (pool h) \<and> length (pool h) < alloc_blocks 0 (of_nat (length (frame_bytes (rx_mem e) (hd (rx_queue e)))))
     | Some a \<Rightarrow> filled_packet h h' a (frame_bytes (rx_mem e) (hd (rx_queue e))))"
proof -
  define g d where "g = DMARxDescToGet e" and "d = rx_tab e ! g"
  have r: "g < length (rx_tab e)" "ring (rx_tab e) g (length (rx_mem e))" using assms(1) by (auto simp: rx_ok_def ring_def g_def)
  have q: "rx_queue e = d # tl (rx_queue e)" unfolding rx_queue_def d_def g_def [symmetric] by (rule queue_head [OF r(1)])
  then have hd: "hd (rx_queue e) = d" by (metis list.sel(1))
  have nx: "Buffer2NextDescAddr d = Suc g mod length (rx_tab e)" using r by (simp add: ring_def d_def)
  have w: "waiting d" using assms(4) hd by simp
  obtain f where f: "ETH_Rx_Packet e = (f, e\<lparr>DMARxDescToGet := Buffer2NextDescAddr d\<rparr>)" "f_descriptor f = Some g"
      "f_buffer f + unat (ucast (f_length f) :: UNS16) \<le> length (rx_mem e)"
      "take (unat (ucast (f_length f) :: UNS16)) (drop (f_buffer f) (rx_mem e)) = frame_bytes (rx_mem e) d"
    using rx_packet_waiting [OF assms(1)] w unfolding g_def d_def by blast
  define n :: UNS16 where "n = ucast (f_length f)"
  define e' where "e' = resume_rx (e\<lparr>DMARxDescToGet := Buffer2NextDescAddr d, rx_tab := (rx_tab e)[g := give_back d]\<rparr>)"
  have "length (frame_bytes (rx_mem e) d) = unat n" using f(3) unfolding f(4) [symmetric] n_def by simp
  then have n: "of_nat (length (frame_bytes (rx_mem e) d)) = n" by simp
  have "ring (rx_tab e') (DMARxDescToGet e') (length (rx_mem e'))"
    using ring_update [OF r(2), of "give_back d"] nx by (simp add: e'_def give_back_def d_def)
  then have ok: "rx_ok e'" using assms(1) by (auto simp: rx_ok_def e'_def dest!: set_update_subset_insert [THEN subsetD])
  have qu: "rx_queue e' = tl (rx_queue e) @ [give_back d]"
    using queue_advance [OF r(1)] by (simp add: rx_queue_def e'_def nx g_def)
  have run: "low_level_input junk e h = do {
      (p, h1) \<leftarrow> pbuf_alloc_pool junk 0 n h;
      h2 \<leftarrow> (if p \<noteq> None then input_loop (rx_mem e) (f_buffer f) p 0 h1 else Some h1);
      Some (p, e', h2) }"
    by (simp add: low_level_input_def f(1,2) Let_def n_def e'_def give_back_def d_def cong: if_cong)
  show ?thesis
  proof (cases "alloc_blocks 0 n \<le> length (pool h)")
    case True
    then obtain a h1 h2 where "pbuf_alloc_pool junk 0 n h = Some (Some a, h1)"
        "input_loop (rx_mem e) (f_buffer f) (Some a) 0 h1 = Some h2" "filled_packet h h2 a (frame_bytes (rx_mem e) d)"
      using alloc_and_fill [OF assms(2,3) f(3)] unfolding f(4) n_def by auto
    then show ?thesis using run ok qu by (intro exI [of _ "Some a"] exI [of _ e'] exI [of _ h2]) (simp add: hd e'_def)
  next
    case False
    then obtain h1 where "pbuf_alloc_pool junk 0 n h = Some (None, h1)" "bufs h1 = bufs h" "pool h1 = rev (pool h)"
      using alloc_and_fill [OF assms(2,3) f(3)] unfolding n_def by auto
    then show ?thesis using run ok qu False by (intro exI [of _ None] exI [of _ e'] exI [of _ h1]) (simp add: hd e'_def n)
  qed
qed

section \<open>The interrupt drains the queue\<close>

text \<open>
  What the driver relies on when it calls the stack: the stack returns buffers to the pool only as the buffer functions do, and
  it leaves a packet that it refuses as it is.
\<close>

definition stack_ok :: "'s stack_input \<Rightarrow> bool" where
  "stack_ok input \<longleftrightarrow> (\<forall>a h s err h' s'. input a h s = (err, h', s') \<longrightarrow> pool_ok h \<longrightarrow>
     pool_ok h' \<and> (err \<noteq> ERR_OK \<longrightarrow> h' = h))"

lemma filled_packet_pool: "filled_packet h h' a bs \<Longrightarrow> pool_ok h \<Longrightarrow> pool_ok h'"
  by (auto simp: filled_packet_def pool_ok_def) (metis UnI2 disjoint_iff)

lemma filled_packet_free:
  assumes "filled_packet h h' a bs" "pool_ok h"
  shows "\<exists>c h''. pbuf_free (Some a) h' = Some (c, h'') \<and> pool_ok h''"
proof -
  obtain as where as: "building h' (Some a) as 0" "pool h = as @ pool h'" "\<forall>x. x \<notin> set as \<longrightarrow> bufs h' x = bufs h x"
    using assms(1) by (auto simp: filled_packet_def)
  from free_building [OF as(1)] obtain c h'' where f: "pbuf_free (Some a) h' = Some (c, h'')"
      "bufs h'' = (\<lambda>x. if x \<in> set as then None else bufs h' x)" "pool h'' = rev as @ pool h'"
    by blast
  then have "pool_ok h''" using assms(2) as by (auto simp: pool_ok_def)
  with f(1) show ?thesis by blast
qed

lemma ethernetif_input_step:
  assumes "rx_ok e" "pool_ok h" "\<forall>k. length (junk k) = 512" "waiting (hd (rx_queue e))" "stack_ok input"
  shows "\<exists>err e' h' s'. ethernetif_input input junk e h s = Some (err, e', h', s') \<and> rx_ok e' \<and> pool_ok h' \<and>
    rx_queue e' = tl (rx_queue e) @ [give_back (hd (rx_queue e))]"
proof -
  obtain p e' h1 where 1: "low_level_input junk e h = Some (p, e', h1)" "rx_ok e'"
      "rx_queue e' = tl (rx_queue e) @ [give_back (hd (rx_queue e))]"
      "case p of None \<Rightarrow> bufs h1 = bufs h \<and> pool h1 = rev (pool h) | Some a \<Rightarrow> \<exists>bs. filled_packet h h1 a bs"
    using low_level_input_step [OF assms(1-4)] by (fastforce split: option.splits)
  show ?thesis
  proof (cases p)
    case None
    then have "pool_ok h1" using 1(4) assms(2) by (simp add: pool_ok_def)
    with None 1 show ?thesis by (simp add: ethernetif_input_def)
  next
    case (Some a)
    then obtain bs where f: "filled_packet h h1 a bs" using 1(4) by auto
    obtain err h2 s2 where i: "input a h1 s = (err, h2, s2)" by (metis prod_cases3)
    then have h2: "pool_ok h2" "err \<noteq> ERR_OK \<Longrightarrow> h2 = h1"
      using assms(5) filled_packet_pool [OF f assms(2)] unfolding stack_ok_def by blast+
    obtain c h3 where "pbuf_free (Some a) h1 = Some (c, h3)" "pool_ok h3" using filled_packet_free [OF f assms(2)] by blast
    then show ?thesis using Some 1 i h2 by (cases "err = ERR_OK") (simp_all add: ethernetif_input_def)
  qed
qed

lemma rx_head: "rx_ok e \<Longrightarrow> rx_tab e ! DMARxDescToGet e = hd (rx_queue e) \<and> rx_queue e \<noteq> []"
  using queue_head [of "DMARxDescToGet e" "rx_tab e"] unfolding rx_ok_def ring_def rx_queue_def by (metis list.discI list.sel(1))

lemma irq_loop_drains:
  assumes "rx_ok e" "pool_ok h" "\<forall>k. length (junk k) = 512" "stack_ok input"
    and "rx_queue e = ds @ rest" "\<forall>d\<in>set ds. waiting d" "rest \<noteq> [] \<Longrightarrow> \<not> waiting (hd rest)"
  shows "\<exists>e' h' s'. eth_irq_loop input junk e h s = Some (e', h', s') \<and> rx_ok e' \<and> pool_ok h' \<and>
    rx_queue e' = rest @ map give_back ds"
  using assms(1,2,5-)
proof (induction ds arbitrary: e h s rest)
  case Nil
  then have "\<not> waiting (rx_tab e ! DMARxDescToGet e)" using rx_head [OF Nil.prems(1)] by simp
  then show ?case using Nil.prems by (subst eth_irq_loop.simps) (simp add: waiting_def)
next
  case (Cons d ds)
  have w: "waiting (hd (rx_queue e))" "waiting (rx_tab e ! DMARxDescToGet e)"
    using Cons.prems rx_head [OF Cons.prems(1)] by simp_all
  obtain err e1 h1 s1 where 1: "ethernetif_input input junk e h s = Some (err, e1, h1, s1)" "rx_ok e1" "pool_ok h1"
      "rx_queue e1 = ds @ (rest @ [give_back d])"
    using ethernetif_input_step [OF Cons.prems(1,2) assms(3) w(1) assms(4), of s] Cons.prems(3) by auto
  have "\<not> waiting (hd (rest @ [give_back d]))" using Cons.prems(5) by (cases rest) simp_all
  with Cons.IH [OF 1(2,3,4)] Cons.prems(4) obtain e' h' s' where
      "eth_irq_loop input junk e1 h1 s1 = Some (e', h', s')" "rx_ok e'" "pool_ok h'"
      "rx_queue e' = (rest @ [give_back d]) @ map give_back ds"
    by fastforce
  then show ?case using 1(1) w(2) by (subst eth_irq_loop.simps) (simp add: waiting_def)
qed

text \<open>C21: The receive interrupt returns. It takes the waiting frames from the front of the ring, in their order and whether
  or not there is memory for them, and gives their descriptors back to the controller; it stops at the first
  descriptor that does not hold a complete frame without error, which then stays the first one.\<close>

theorem eth_irq_drains_ring:
  assumes "rx_ok e" "pool_ok h" "\<forall>k. length (junk k) = 512" "stack_ok input"
  shows "\<exists>e' h' s'. ETH_IRQHandler input junk e h s = Some (e', h', s') \<and> rx_ok e' \<and> pool_ok h' \<and>
    rx_queue e' = dropWhile waiting (rx_queue e) @ map give_back (takeWhile waiting (rx_queue e))"
proof -
  have "rx_queue e = takeWhile waiting (rx_queue e) @ dropWhile waiting (rx_queue e)" by simp
  from irq_loop_drains [OF assms this, of s] obtain e1 h' s' where
      1: "eth_irq_loop input junk e h s = Some (e1, h', s')" "rx_ok e1" "pool_ok h'"
        "rx_queue e1 = dropWhile waiting (rx_queue e) @ map give_back (takeWhile waiting (rx_queue e))"
    using hd_dropWhile [of waiting "rx_queue e"] by (auto dest: set_takeWhileD)
  then show ?thesis
    by (simp add: ETH_IRQHandler_def rx_ok_def rx_queue_def)
qed

text \<open>C22: A waiting frame becomes a packet of buffers from the pool that holds its bytes without the checksum; if the pool has
  too few buffers the frame is dropped and the pool keeps all of its buffers. The descriptor goes back to the controller
  either way.\<close>

theorem low_level_input_delivers:
  assumes "rx_ok e" "pool_ok h" "\<forall>k. length (junk k) = 512" "waiting (hd (rx_queue e))"
  shows "\<exists>p e' h'. low_level_input junk e h = Some (p, e', h') \<and>
    rx_queue e' = tl (rx_queue e) @ [give_back (hd (rx_queue e))] \<and>
    (case p of None \<Rightarrow> bufs h' = bufs h \<and> set (pool h') = set (pool h) \<and>
         length (pool h) < alloc_blocks 0 (of_nat (length (frame_bytes (rx_mem e) (hd (rx_queue e)))))
     | Some a \<Rightarrow> \<exists>as. packet h' (Some a) as \<and> chain_bytes h' as = frame_bytes (rx_mem e) (hd (rx_queue e)) \<and> pool h = as @ pool h')"
proof -
  obtain p e' h' where "low_level_input junk e h = Some (p, e', h')" "rx_queue e' = tl (rx_queue e) @ [give_back (hd (rx_queue e))]"
     "case p of None \<Rightarrow> bufs h' = bufs h \<and> pool h' = rev (pool h) \<and>
         length (pool h) < alloc_blocks 0 (of_nat (length (frame_bytes (rx_mem e) (hd (rx_queue e)))))
       | Some a \<Rightarrow> filled_packet h h' a (frame_bytes (rx_mem e) (hd (rx_queue e)))"
    using low_level_input_step [OF assms] by blast
  then show ?thesis
    by (intro exI [of _ p] exI [of _ e'] exI [of _ h'])
      (auto simp: filled_packet_def building_def packet_def totals_plus_0 split: option.splits)
qed

section \<open>A packet is sent as one frame\<close>

lemma output_loop_bytes:
  assumes "chain h q as" "fits h as" "buffer + l + length (chain_bytes h as) \<le> length mem"
  shows "output_loop h buffer q l mem = Some (l + length (chain_bytes h as), put_list mem (buffer + l) (chain_bytes h as))"
  using assms
proof (induction as arbitrary: q l mem)
  case Nil
  then show ?case by (simp add: chain_bytes_def output_loop.simps [of _ _ None])
next
  case (Cons a as)
  then obtain b where b: "q = Some a" "bufs h a = Some b" "chain h (p_next b) as" by auto
  have l: "unat (p_len b) \<le> length (p_payload b)" "fits h as" using Cons.prems(2) b(2) by (auto simp: fits_def buf_def)
  have cb: "chain_bytes h (a # as) = pbuf_bytes b @ chain_bytes h as" using b(2) by (simp add: chain_bytes_def buf_def)
  note lb = length_pbuf_bytes [OF l(1)]
  have "payload_at b 0 (unat (p_len b)) = Some (pbuf_bytes b)" using l(1) by (simp add: payload_at_def pbuf_bytes_def)
  then have "output_loop h buffer q l mem =
      output_loop h buffer (p_next b) (l + unat (p_len b)) (put_list mem (buffer + l) (pbuf_bytes b))"
    using b Cons.prems(3) lb cb by (subst output_loop.simps) simp
  then show ?case
    using Cons.IH [OF b(3) l(2), of "l + unat (p_len b)" "put_list mem (buffer + l) (pbuf_bytes b)"] Cons.prems(3) lb cb
      put_list_append [of mem "buffer + l" "pbuf_bytes b" "chain_bytes h as"]
    by (simp add: add.assoc)
qed

definition tx_queue :: "eth \<Rightarrow> dma_desc list" where
  "tx_queue e = queue (tx_tab e) (DMATxDescToSet e)"

lemma resume_tx_simps [simp]: "tx_tab (resume_tx e) = tx_tab e" "DMATxDescToSet (resume_tx e) = DMATxDescToSet e"
  "tx_mem (resume_tx e) = tx_mem e" "rx_tab (resume_tx e) = rx_tab e"
  by (simp_all add: resume_tx_def)

text \<open>C23: A packet of at most 1524 bytes is copied into the buffer of the next free descriptor, which is handed to the
  controller as one frame of that length and moves to the end of the ring. If the controller still owns the descriptor, the
  caller gets an error, but the frame that waits in its buffer has been overwritten: the copy comes before the test.\<close>

theorem low_level_output_sends:
  assumes "packet h (Some a) as" "ring (tx_tab e) (DMATxDescToSet e) (length (tx_mem e))" "length (chain_bytes h as) \<le> 1524"
  defines "d \<equiv> hd (tx_queue e)"
  shows "if Status d AND DESC_OWN = 0
    then \<exists>e'. low_level_output h (Some a) e = Some (ERR_OK, e') \<and>
      tx_queue e' = tl (tx_queue e) @
        [d\<lparr>ControlBufferSize := of_nat (length (chain_bytes h as)), Status := Status d OR 0x20000000 OR 0x10000000 OR DESC_OWN\<rparr>] \<and>
      tx_mem e' = put_list (tx_mem e) (Buffer1Addr d) (chain_bytes h as) \<and> ring (tx_tab e') (DMATxDescToSet e') (length (tx_mem e'))
    else low_level_output h (Some a) e =
      Some (ERR_MEM, e\<lparr>tx_mem := put_list (tx_mem e) (Buffer1Addr d) (chain_bytes h as)\<rparr>)"
proof -
  define i n where "i = DMATxDescToSet e" and "n = length (chain_bytes h as)"
  have r: "i < length (tx_tab e)" "ring (tx_tab e) i (length (tx_mem e))" using assms(2) by (auto simp: ring_def i_def)
  have d: "d = tx_tab e ! i" using queue_head [OF r(1)] unfolding d_def tx_queue_def i_def by (metis list.sel(1))
  have nx: "Buffer2NextDescAddr (tx_tab e ! i) = Suc i mod length (tx_tab e)" and room: "Buffer1Addr d + 1524 \<le> length (tx_mem e)"
    using r by (auto simp: ring_def d)
  have out: "output_loop h (Buffer1Addr d) (Some a) 0 (tx_mem e) = Some (n, put_list (tx_mem e) (Buffer1Addr d) (chain_bytes h as))"
    using output_loop_bytes [of h "Some a" as "Buffer1Addr d" 0 "tx_mem e"] assms(1,3) room by (simp add: packet_def n_def)
  have "(of_nat n :: UNS32) AND 0x1FFF = of_nat n"
  proof -
    have "(of_nat n :: UNS32) AND 0x1FFF = take_bit 13 (of_nat n)" by (simp add: take_bit_eq_mask mask_eq_exp_minus_1)
    also have "\<dots> = of_nat n" using assms(3) by (simp add: n_def take_bit_of_nat take_bit_nat_eq_self)
    finally show ?thesis .
  qed
  moreover have "ucast (of_nat n :: UNS16) = (of_nat n :: UNS32)"
    using assms(3) by (simp add: n_def unsigned_of_nat take_bit_nat_eq_self)
  ultimately have len: "ucast (of_nat n :: UNS16) AND 0x1FFF = (of_nat n :: UNS32)" by simp
  show ?thesis
  proof (cases "Status d AND DESC_OWN = 0")
    case True
    define d1 where "d1 = d\<lparr>ControlBufferSize := of_nat n, Status := Status d OR 0x20000000 OR 0x10000000 OR DESC_OWN\<rparr>"
    define e1 where "e1 = resume_tx (e\<lparr>tx_mem := put_list (tx_mem e) (Buffer1Addr d) (chain_bytes h as), tx_tab := (tx_tab e)[i := d1]\<rparr>)"
    define e' where "e' = e1\<lparr>DMATxDescToSet := Buffer2NextDescAddr d\<rparr>"
    have "low_level_output h (Some a) e = Some (ERR_OK, e')"
      using True out len r(1) d
      by (simp add: low_level_output_def ETH_GetCurrentTxBuffer_def ETH_Tx_Packet_def Let_def e'_def e1_def d1_def i_def)
    moreover have "tx_queue e' = tl (tx_queue e) @ [d1]"
      using queue_advance [OF r(1), of d1] nx by (simp add: tx_queue_def e'_def e1_def d i_def)
    moreover have "ring (tx_tab e') (DMATxDescToSet e') (length (tx_mem e'))"
      using ring_update [OF r(2), of d1] nx by (simp add: e'_def e1_def d1_def d)
    moreover have "tx_mem e' = put_list (tx_mem e) (Buffer1Addr d) (chain_bytes h as)" by (simp add: e'_def e1_def)
    ultimately show ?thesis using True by (auto simp: d1_def n_def)
  next
    case False
    then show ?thesis
      using out d by (simp add: low_level_output_def ETH_GetCurrentTxBuffer_def ETH_Tx_Packet_def Let_def i_def)
  qed
qed

text \<open>The initialisation makes two rings in order: the controller owns all descriptors of the receive ring and none of the
  transmit ring.\<close>

theorem low_level_init_rings:
  assumes "length (rx_mem e) = 5 * 1524" "length (tx_mem e) = 5 * 1524"
  shows "let e' = snd (low_level_init junk mac e)
    in rx_ok e' \<and> ring (tx_tab e') (DMATxDescToSet e') (length (tx_mem e')) \<and>
      (\<forall>d\<in>set (rx_queue e'). Status d = DESC_OWN) \<and> (\<forall>d\<in>set (tx_queue e'). Status d AND DESC_OWN = 0)"
proof -
  define e' where "e' = snd (low_level_init junk mac e)"
  have m: "length (rx_mem e') = 5 * 1524" "length (tx_mem e') = 5 * 1524" "DMARxDescToGet e' = 0" "DMATxDescToSet e' = 0"
    and l: "length (rx_tab e') = 5" "length (tx_tab e') = 5"
    and n: "i < 5 \<Longrightarrow> Buffer2NextDescAddr (rx_tab e' ! i) = (if i < 4 then i + 1 else 0)"
      "i < 5 \<Longrightarrow> Buffer2NextDescAddr (tx_tab e' ! i) = (if i < 4 then i + 1 else 0)"
      "i < 5 \<Longrightarrow> Buffer1Addr (rx_tab e' ! i) = i * 1524" "i < 5 \<Longrightarrow> Buffer1Addr (tx_tab e' ! i) = i * 1524"
      "i < 5 \<Longrightarrow> Status (rx_tab e' ! i) = DESC_OWN" "i < 5 \<Longrightarrow> Status (tx_tab e' ! i) = 0xD00000" for i
    using assms by (auto simp: e'_def low_level_init_def Let_def ETH_DMARxDescChainInit_def ETH_DMATxDescChainInit_def
        ETH_DMATxDescChecksumInsertionConfig_def)
  have s: "\<forall>d\<in>set (rx_tab e'). Status d = DESC_OWN" "\<forall>d\<in>set (tx_tab e'). Status d = 0xD00000"
    using n(5,6) l by (auto simp: in_set_conv_nth)
  have nxt: "(if i < 4 then i + 1 else 0) = Suc i mod 5" if "i < 5" for i using that by (simp add: mod_Suc)
  have "ring (rx_tab e') 0 (5 * 1524)" "ring (tx_tab e') 0 (5 * 1524)"
    unfolding ring_def l using n(1-4) nxt by simp_all
  then have "rx_ok e'" "ring (tx_tab e') (DMATxDescToSet e') (length (tx_mem e'))"
    using m s(1) by (auto simp: rx_ok_def waiting_def ETH_GetRxPktSize_def)
  then show ?thesis using s m(3,4) unfolding e'_def [symmetric] by (simp add: Let_def rx_queue_def tx_queue_def queue_def)
qed

section \<open>The memory of the rings\<close>

text \<open>A descriptor has 32 bytes (\<open>USE_ENHANCED_DMA_DESCRIPTORS\<close>); there are five descriptors and buffers in each direction.\<close>

record eth_mem =
  DMARxDscrTab :: UNS32
  DMATxDscrTab :: UNS32
  Rx_Buff :: UNS32
  Tx_Buff :: UNS32

definition ETH_Mem_Free :: "eth_mem \<Rightarrow> mallco_dev \<Rightarrow> mallco_dev" where
  "ETH_Mem_Free m s = myfree 0 (Tx_Buff m) (myfree 0 (Rx_Buff m) (myfree 0 (DMATxDscrTab m) (myfree 0 (DMARxDscrTab m) s)))"

definition ETH_Mem_Malloc :: "mallco_dev \<Rightarrow> UNS8 \<times> eth_mem \<times> mallco_dev" where
  "ETH_Mem_Malloc s =
     (let (a, s1) = mymalloc 0 (5 * 32) s;
          (b, s2) = mymalloc 0 (5 * 32) s1;
          (c, s3) = mymalloc 0 (1524 * 5) s2;
          (d, s4) = mymalloc 0 (1524 * 5) s3;
          m = \<lparr>DMARxDscrTab = a, DMATxDscrTab = b, Rx_Buff = c, Tx_Buff = d\<rparr>
      in if a = 0 \<or> b = 0 \<or> c = 0 \<or> d = 0 then (1, m, ETH_Mem_Free m s4) else (0, m, s4))"

text \<open>The end of \<open>LAN8720_Init\<close>; \<open>cfg\<close> is the result of \<open>ETH_MACDMA_Config\<close>, which is overwritten.\<close>

definition LAN8720_Init :: "UNS8 \<Rightarrow> mallco_dev \<Rightarrow> UNS8 \<times> eth_mem \<times> mallco_dev" where
  "LAN8720_Init cfg s =
     (let rval = cfg;
          (rval, m, s1) = ETH_Mem_Malloc s
      in (if rval = 0 then 1 else 0, m, s1))"

text \<open>A sequence of requests, each of which may fail, and the release of those that did not.\<close>

fun alloc_all :: "('b \<Rightarrow> 's \<Rightarrow> (nat \<times> 's) option) \<Rightarrow> 'b list \<Rightarrow> 's \<Rightarrow> nat option list \<times> 's" where
  "alloc_all alloc [] s = ([], s)"
| "alloc_all alloc (b # bs) s =
     (case alloc b s of
        None \<Rightarrow> (let (rs, s') = alloc_all alloc bs s in (None # rs, s'))
      | Some (i, s1) \<Rightarrow> (let (rs, s') = alloc_all alloc bs s1 in (Some i # rs, s')))"

fun release_all :: "(nat \<Rightarrow> 's \<Rightarrow> 's) \<Rightarrow> nat option list \<Rightarrow> 's \<Rightarrow> 's" where
  "release_all release [] s = s"
| "release_all release (None # rs) s = release_all release rs s"
| "release_all release (Some i # rs) s = release_all release rs (release i s)"

definition successes :: "nat option list \<Rightarrow> nat list" where
  "successes rs = map the (filter (\<lambda>r. r \<noteq> None) rs)"

lemma successes_simps [simp]: "successes [] = []" "successes (None # rs) = successes rs" "successes (Some i # rs) = i # successes rs"
  by (simp_all add: successes_def)

context interval_heap
begin

lemma alloc_all_live:
  assumes "inv s" "alloc_all alloc bs s = (rs, s')"
  shows "inv s' \<and> distinct (successes rs) \<and> set (successes rs) \<inter> dom (live s) = {} \<and>
    dom (live s') = dom (live s) \<union> set (successes rs) \<and> (\<forall>j. j \<notin> set (successes rs) \<longrightarrow> live s' j = live s j)"
  using assms
proof (induction bs arbitrary: s rs)
  case (Cons b bs)
  show ?case
  proof (cases "alloc b s")
    case None
    then obtain rs' where rs': "alloc_all alloc bs s = (rs', s')" "rs = None # rs'" using Cons.prems(2) by (auto split: prod.splits)
    show ?thesis using Cons.IH [OF Cons.prems(1) rs'(1)] by (simp add: rs'(2))
  next
    case (Some r)
    then obtain i s1 where i: "alloc b s = Some (i, s1)" by (cases r) auto
    obtain rs' where rs': "alloc_all alloc bs s1 = (rs', s')" "rs = Some i # rs'" using Cons.prems(2) i by (auto split: prod.splits)
    have l: "live s1 = (live s)(i \<mapsto> need b)" "live s i = None" using alloc_live [OF Cons.prems(1) i] alloc_fresh [OF Cons.prems(1) i] .
    have "dom (live s1) = insert i (dom (live s))" using l by auto
    with Cons.IH [OF alloc_inv [OF Cons.prems(1) i] rs'(1)] l show ?thesis by (auto simp: rs'(2))
  qed
qed simp

lemma release_all_live:
  assumes "inv s" "distinct (successes rs)" "set (successes rs) \<subseteq> dom (live s)"
  shows "inv (release_all release rs s) \<and> live (release_all release rs s) = (live s) |` (- set (successes rs))"
  using assms
proof (induction rs arbitrary: s)
  case (Cons r rs)
  show ?case
  proof (cases r)
    case (Some i)
    obtain m where m: "live s i = Some m" using Cons.prems(3) Some by auto
    note rl = release_live [OF Cons.prems(1) m]
    have "set (successes rs) \<subseteq> dom (live (release i s))" unfolding rl using Cons.prems(2,3) Some by auto
    moreover have "distinct (successes rs)" using Cons.prems(2) Some by simp
    ultimately have "inv (release_all release rs (release i s)) \<and>
        live (release_all release rs (release i s)) = live (release i s) |` (- set (successes rs))"
      using Cons.IH [OF release_inv [OF Cons.prems(1) m]] by blast
    moreover have "live (release i s) |` (- set (successes rs)) = live s |` (- set (successes (Some i # rs)))"
      unfolding rl by (auto simp: restrict_map_def fun_eq_iff)
    ultimately show ?thesis unfolding Some release_all.simps by argo
  qed (use Cons in auto)
qed (simp add: restrict_map_def)

lemma alloc_all_success:
  assumes "inv s" "alloc_all alloc bs s = (map Some is, s')"
  shows "live s' = live s ++ map_of (zip is (map need bs))"
  using assms
proof (induction bs arbitrary: s "is")
  case (Cons b bs)
  then obtain i s1 is' where i: "alloc b s = Some (i, s1)" "is = i # is'" "alloc_all alloc bs s1 = (map Some is', s')"
    by (cases "is") (auto split: option.splits prod.splits)
  have s1: "inv s1" "live s1 = (live s)(i \<mapsto> need b)" using alloc_inv [OF Cons.prems(1) i(1)] alloc_live [OF Cons.prems(1) i(1)] .
  have "successes (map Some is') = is'" by (simp add: successes_def comp_def)
  then have "i \<notin> set is'" using alloc_all_live [OF s1(1) i(3)] s1(2) by auto
  then have "i \<notin> dom (map_of (zip is' (map need bs)))" by (auto dest: map_of_SomeD set_zip_leftD)
  from Cons.IH [OF s1(1) i(3)] map_add_upd_left [OF this, of "live s" "need b"] show ?case
    by (simp only: i(2) s1(2) list.map zip_Cons_Cons map_of.simps fst_conv snd_conv map_add_upd)
qed simp

lemma alloc_all_release_all:
  assumes "inv s" "alloc_all alloc bs s = (rs, s')"
  shows "inv (release_all release rs s') \<and> live (release_all release rs s') = live s"
proof -
  note a = alloc_all_live [OF assms]
  then have "inv (release_all release rs s') \<and> live (release_all release rs s') = (live s') |` (- set (successes rs))"
    by (intro release_all_live) auto
  moreover have "(live s') |` (- set (successes rs)) = live s"
  proof
    fix j
    have "j \<in> set (successes rs) \<Longrightarrow> live s j = None" using a by blast
    then show "((live s') |` (- set (successes rs))) j = live s j"
      using a by (cases "j \<in> set (successes rs)") (auto simp: restrict_map_def)
  qed
  ultimately show ?thesis by simp
qed

end

text \<open>The pointers of the source behind the interface: \<open>NULL\<close> is a failed request.\<close>

definition ptr_of :: "mallco_dev \<Rightarrow> nat option \<Rightarrow> UNS32" where
  "ptr_of s r = (case r of None \<Rightarrow> 0 | Some i \<Rightarrow> membase s ! 0 + of_nat (32 * i))"

definition base_ok :: "mallco_dev \<Rightarrow> bool" where
  "base_ok s \<longleftrightarrow> 0 < unat (membase s ! 0) \<and> unat (membase s ! 0) + 30720 < 2 ^ 32"

lemma mymalloc_bank:
  assumes "ready 0 s" "sz \<noteq> 0"
  shows "mymalloc 0 sz s = (case bank_alloc 0 sz s of None \<Rightarrow> (0, s) | Some (i, s') \<Rightarrow> (ptr_of s (Some i), s'))"
  using assms
proof (cases rule: my_mem_malloc_cases)
  case fail
  then show ?thesis by (simp add: mymalloc_def bank_alloc_def)
next
  case (found i)
  obtain off s' where m: "my_mem_malloc 0 sz s = (off, s')" by fastforce
  show ?thesis
  proof (cases "off = 0xFFFFFFFF")
    case True
    have "off = of_nat i * 32" using found(4) m by simp
    then show ?thesis using offset_word(2) [OF found(3)] assms(1) True by (simp add: ready_def bank_ok_def)
  next
    case False
    note al = bank_alloc_iff [OF m False]
    show ?thesis
      using False m al malloc_offset(1) [OF assms(1) m False] bank_alloc_frame(1) [OF assms(1) al]
      by (simp add: mymalloc_def ptr_of_def)
  qed
qed

definition attempt :: "UNS32 \<Rightarrow> mallco_dev \<Rightarrow> nat option \<times> mallco_dev" where
  "attempt sz s = (case bank_alloc 0 sz s of None \<Rightarrow> (None, s) | Some (i, s') \<Rightarrow> (Some i, s'))"

lemma alloc_all_attempt:
  "alloc_all (bank_alloc 0) (sz # szs) s =
     (let (rs, s') = alloc_all (bank_alloc 0) szs (snd (attempt sz s)) in (fst (attempt sz s) # rs, s'))"
  by (auto simp: attempt_def split: option.splits)

lemma attempt_step:
  assumes "ready 0 s" "base_ok s" "sz \<noteq> 0" "attempt sz s = (r, s')"
  shows "ready 0 s'" "membase s' = membase s" "mymalloc 0 sz s = (ptr_of s r, s')" "ptr_of s r = 0 \<longleftrightarrow> r = None"
proof -
  have "ready 0 s' \<and> membase s' = membase s \<and> mymalloc 0 sz s = (ptr_of s r, s') \<and> (ptr_of s r = 0 \<longleftrightarrow> r = None)"
  proof (cases "bank_alloc 0 sz s")
    case None
    then show ?thesis using assms(1,4) mymalloc_bank [OF assms(1,3)] by (auto simp: attempt_def ptr_of_def)
  next
    case (Some p)
    then obtain i where i: "bank_alloc 0 sz s = Some (i, s')" "r = Some i" using assms(4) by (cases p) (auto simp: attempt_def)
    have "i < memtblsize ! 0" using bank_alloc_Some [OF assms(1) i(1)] by metis
    then have "i < 960" by (simp add: memtblsize_def)
    then have "unat (membase s ! 0 + of_nat (32 * i)) = unat (membase s ! 0) + 32 * i"
      using assms(2) by (simp add: base_ok_def unat_word_ariths unsigned_of_nat take_bit_nat_eq_self)
    then have "membase s ! 0 + of_nat (32 * i) \<noteq> 0" using assms(2) by (auto simp: base_ok_def simp del: of_nat_mult)
    then show ?thesis
      using i bank.alloc_inv [OF assms(1) i(1)] bank_alloc_frame(1) [OF assms(1) i(1)] mymalloc_bank [OF assms(1,3)]
      by (simp add: ptr_of_def)
  qed
  then show "ready 0 s'" "membase s' = membase s" "mymalloc 0 sz s = (ptr_of s r, s')" "ptr_of s r = 0 \<longleftrightarrow> r = None" by auto
qed

lemma myfree_release:
  assumes "membase t = membase s" "ptr_of s r = 0 \<longleftrightarrow> r = None"
  shows "myfree 0 (ptr_of s r) t = release_all (bank_release 0) [r] t"
  using assms by (auto simp: myfree_def ptr_of_def bank_release_def split: option.splits)

lemma release_all_membase: "membase (release_all (bank_release 0) rs t) = membase t"
  by (induction "bank_release 0" rs t rule: release_all.induct)
    (simp_all add: bank_release_def my_mem_free_def my_mem_init_def mymemset_def Let_def)

lemma release_all_append: "release_all f (xs @ ys) s = release_all f ys (release_all f xs s)"
  by (induction f xs s rule: release_all.induct) simp_all

lemma ETH_Mem_Malloc_attempts:
  assumes "ready 0 s" "base_ok s"
  obtains rs s' m where "alloc_all (bank_alloc 0) [160, 160, 7620, 7620] s = (rs, s')" "ready 0 s'"
    "ETH_Mem_Malloc s = (if None \<in> set rs then (1, m, release_all (bank_release 0) rs s') else (0, m, s'))"
    "[DMARxDscrTab m, DMATxDscrTab m, Rx_Buff m, Tx_Buff m] = map (ptr_of s) rs"
proof -
  obtain a s1 where 1: "attempt 160 s = (a, s1)" by fastforce
  note A = attempt_step [OF assms _ 1, simplified]
  have b1: "base_ok s1" using A(2) assms(2) by (simp add: base_ok_def)
  obtain b s2 where 2: "attempt 160 s1 = (b, s2)" by fastforce
  note B = attempt_step [OF A(1) b1 _ 2, simplified]
  have b2: "base_ok s2" using B(2) b1 by (simp add: base_ok_def)
  obtain c s3 where 3: "attempt 7620 s2 = (c, s3)" by fastforce
  note C = attempt_step [OF B(1) b2 _ 3, simplified]
  have b3: "base_ok s3" using C(2) b2 by (simp add: base_ok_def)
  obtain d s4 where 4: "attempt 7620 s3 = (d, s4)" by fastforce
  note D = attempt_step [OF C(1) b3 _ 4, simplified]
  have p: "ptr_of s1 = ptr_of s" "ptr_of s2 = ptr_of s" "ptr_of s3 = ptr_of s" "membase s4 = membase s"
    using A(2) B(2) C(2) D(2) by (simp_all add: ptr_of_def fun_eq_iff split: option.split)
  define m where "m = \<lparr>DMARxDscrTab = ptr_of s a, DMATxDscrTab = ptr_of s b, Rx_Buff = ptr_of s c, Tx_Buff = ptr_of s d\<rparr>"
  have rs: "alloc_all (bank_alloc 0) [160, 160, 7620, 7620] s = ([a, b, c, d], s4)"
    by (simp add: alloc_all_attempt 1 2 3 4 del: alloc_all.simps(2))
  have "ETH_Mem_Free m s4 = release_all (bank_release 0) ([a] @ [b] @ [c] @ [d]) s4"
    unfolding release_all_append
    using A(4) B(4) C(4) D(4) p by (simp add: ETH_Mem_Free_def m_def myfree_release [of _ s] release_all_membase del: release_all.simps)
  then have "ETH_Mem_Malloc s = (if None \<in> set [a, b, c, d] then (1, m, release_all (bank_release 0) [a, b, c, d] s4) else (0, m, s4))"
    using A(3,4) B(3,4) C(3,4) D(3,4) p by (auto simp: ETH_Mem_Malloc_def m_def Let_def)
  with rs D(1) show ?thesis by (rule that) (simp add: m_def)
qed


section \<open>The properties at a concrete driver\<close>

text \<open>A ring of one descriptor that holds a frame of 64 bytes, and a pool of one buffer.\<close>

definition full_desc :: dma_desc where
  "full_desc = \<lparr>Status = 0x400300, ControlBufferSize = 0, Buffer1Addr = 0, Buffer2NextDescAddr = 0\<rparr>"

definition eth_demo :: eth where
  "eth_demo = \<lparr>rx_tab = [full_desc], tx_tab = [full_desc], DMARxDescToGet = 0, DMATxDescToSet = 0, rx_mem = replicate 1524 7,
     tx_mem = replicate 1524 0, DMASR = 0, resumes = []\<rparr>"

definition pool_demo :: pheap where
  "pool_demo = \<lparr>bufs = \<lambda>_. None, pool = [5]\<rparr>"

definition packet_demo :: pheap where
  "packet_demo = \<lparr>bufs = [5 \<mapsto> pbuf_of None 3 [1, 2, 3] 1], pool = []\<rparr>"

lemma eth_demo_facts:
  "rx_queue eth_demo = [full_desc]" "tx_queue eth_demo = [full_desc]" "waiting full_desc" "frame_len full_desc = 64"
  "frame_bytes (rx_mem eth_demo) full_desc = replicate 60 7" "pool_ok pool_demo" "rx_ok eth_demo"
  "ring (tx_tab eth_demo) (DMATxDescToSet eth_demo) (length (tx_mem eth_demo))"
proof -
  show q: "rx_queue eth_demo = [full_desc]" "tx_queue eth_demo = [full_desc]"
    by (simp_all add: rx_queue_def tx_queue_def queue_def eth_demo_def)
  show w: "waiting full_desc" and l: "frame_len full_desc = 64"
    by (simp_all add: waiting_def frame_len_def ETH_GetRxPktSize_def ETH_GetDMARxDescFrameLength_def full_desc_def)
  show "frame_bytes (rx_mem eth_demo) full_desc = replicate 60 7"
    unfolding frame_bytes_def l by (simp add: full_desc_def eth_demo_def)
  show "pool_ok pool_demo" by (simp add: pool_ok_def pool_demo_def)
  show "rx_ok eth_demo" using l by (simp add: rx_ok_def ring_def eth_demo_def full_desc_def)
  show "ring (tx_tab eth_demo) (DMATxDescToSet eth_demo) (length (tx_mem eth_demo))"
    by (simp add: ring_def eth_demo_def full_desc_def)
qed

theorem eth_irq_drains_ring_witness:
  "\<exists>e' h' s'. ETH_IRQHandler (\<lambda>a h s. (ERR_OK, h, s)) (\<lambda>_. replicate 512 0) eth_demo pool_demo () = Some (e', h', s') \<and>
     rx_queue e' = [give_back full_desc]"
proof -
  have "stack_ok (\<lambda>a h s. (ERR_OK, h, s :: unit))" by (simp add: stack_ok_def)
  then show ?thesis
    using eth_irq_drains_ring [of eth_demo pool_demo "\<lambda>_. replicate 512 0" "\<lambda>a h s. (ERR_OK, h, s)" "()"] eth_demo_facts by auto
qed

theorem low_level_input_delivers_witness:
  "\<exists>a e' h' as. low_level_input (\<lambda>_. replicate 512 0) eth_demo pool_demo = Some (Some a, e', h') \<and>
     packet h' (Some a) as \<and> chain_bytes h' as = replicate 60 7"
proof -
  have "\<not> length (pool pool_demo) < alloc_blocks 0 60" by (simp add: pool_demo_def alloc_blocks_def mem_align_def)
  then show ?thesis
    using low_level_input_delivers [of eth_demo pool_demo "\<lambda>_. replicate 512 0"] eth_demo_facts by (fastforce split: option.splits)
qed

theorem low_level_output_sends_witness:
  "\<exists>e'. low_level_output packet_demo (Some 5) eth_demo = Some (ERR_OK, e') \<and> take 3 (tx_mem e') = [1, 2, 3]"
proof -
  have "packet packet_demo (Some 5) [5]" "chain_bytes packet_demo [5] = [1, 2, 3]"
    by (simp_all add: packet_def packet_demo_def pbuf_of_def fits_def buf_def chain_bytes_def pbuf_bytes_def)
  moreover have "Status full_desc AND DESC_OWN = 0" "Buffer1Addr full_desc = 0" by (simp_all add: full_desc_def)
  moreover have "take 3 (put_list (tx_mem eth_demo) 0 [1, 2, 3]) = [1, 2, 3]" by (subst put_list_eq) (simp_all add: eth_demo_def)
  ultimately show ?thesis
    using low_level_output_sends [of packet_demo 5 "[5]" eth_demo] eth_demo_facts by auto
qed

theorem low_level_init_rings_witness:
  "rx_ok (snd (low_level_init (\<lambda>_. 0) [2, 0, 0, 1, 2, 3] (eth_demo\<lparr>rx_mem := replicate 7620 0, tx_mem := replicate 7620 0\<rparr>)))"
  using low_level_init_rings [of "eth_demo\<lparr>rx_mem := replicate 7620 0, tx_mem := replicate 7620 0\<rparr>" "\<lambda>_. 0" "[2, 0, 0, 1, 2, 3]"]
  by (simp add: Let_def)


end
