(* ===== verification/UsbMsc.thy ===== *)
theory UsbMsc
  imports Prelude
begin

text \<open>
  The host side of USB mass storage: the bulk-only transport (\<^verbatim>\<open>usbh_msc_bot.c\<close>), its SCSI commands
  (\<^verbatim>\<open>usbh_msc_scsi.c\<close>), the class machine (\<^verbatim>\<open>usbh_msc_core.c\<close>), the requests they issue
  (\<^verbatim>\<open>usbh_ioreq.c\<close>, \<^verbatim>\<open>usbh_stdreq.c\<close>, \<^verbatim>\<open>usb_hcd.c\<close>), the application callback (\<^verbatim>\<open>usbh_usr.c\<close>), and
  above them the disk functions of the file system (\<^verbatim>\<open>FATFS/src/disk_api.c\<close>, \<^verbatim>\<open>FATFS/src/diskio.c\<close>).

  What the interrupts share with the program, the channels and the buffers, is the record \<open>otg\<close>. Controller and
  device are an argument \<open>env\<close> that may change it at every access of the program to a variable of an interrupt.
\<close>

unbundle bit_operations_syntax

section \<open>What program and interrupts share\<close>

datatype region = UserBuf | CBWArray | CSWArray | USBH_DataInBuffer | MSC_buff

type_synonym uptr = "region \<times> nat"

abbreviation (input) ptr_plus :: "uptr \<Rightarrow> nat \<Rightarrow> uptr" where "ptr_plus p n \<equiv> (fst p, snd p + n)"
abbreviation (input) ptr_minus :: "uptr \<Rightarrow> nat \<Rightarrow> uptr" where "ptr_minus p n \<equiv> (fst p, snd p - n)"

datatype URB_STATE = URB_IDLE | URB_DONE | URB_NOTREADY | URB_ERROR | URB_STALL

text \<open>\<open>hc_num_in\<close> and \<open>hc_num_out\<close> are the two channels of the class; \<open>chena\<close> is the enable bit that
  \<open>USB_OTG_HC_StartXfer\<close> sets and the controller clears.\<close>

datatype channel = hc_num_in | hc_num_out

record USB_OTG_HC =
  ep_is_in :: bool
  data_pid :: UNS8
  xfer_buff :: uptr
  xfer_len :: UNS32
  xfer_count :: UNS32
  toggle_in :: UNS8
  toggle_out :: UNS8
  URB_State :: URB_STATE
  XferCnt :: UNS32
  chena :: bool

record otg =
  ConnSts :: bool
  hc :: "channel \<Rightarrow> USB_OTG_HC"
  ram :: "region \<Rightarrow> UNS8 list"

section \<open>Variables of the program\<close>

datatype USBH_MSC_Status = USBH_MSC_OK | USBH_MSC_FAIL | USBH_MSC_PHASE_ERROR | USBH_MSC_BUSY

datatype CMD_STATES = CMD_UNINITIALIZED_STATE | CMD_SEND_STATE | CMD_WAIT_STATUS

datatype BOT_STATES = USBH_MSC_BOT_UNSET | USBH_MSC_SEND_CBW | USBH_MSC_SENT_CBW | USBH_MSC_BOT_DATAIN_STATE |
  USBH_MSC_BOT_DATAOUT_STATE | USBH_MSC_RECEIVE_CSW_STATE | USBH_MSC_DECODE_CSW | USBH_MSC_BOT_ERROR_IN | USBH_MSC_BOT_ERROR_OUT

datatype MSC_STATES = USBH_MSC_BOT_INIT_STATE | USBH_MSC_BOT_RESET | USBH_MSC_GET_MAX_LUN | USBH_MSC_TEST_UNIT_READY |
  USBH_MSC_READ_CAPACITY10 | USBH_MSC_MODE_SENSE6 | USBH_MSC_REQUEST_SENSE | USBH_MSC_BOT_USB_TRANSFERS |
  USBH_MSC_DEFAULT_APPLI_STATE | USBH_MSC_CTRL_ERROR_STATE | USBH_MSC_UNRECOVERED_STATE

datatype USBH_Status = USBH_OK | USBH_BUSY | USBH_FAIL | USBH_NOT_SUPPORTED | USBH_UNRECOVERED_ERROR | USBH_ERROR_SPEED_UNKNOWN |
  USBH_APPLY_DEINIT

datatype CTRL_State = CTRL_IDLE | CTRL_SETUP | CTRL_SETUP_WAIT | CTRL_DATA_IN | CTRL_DATA_IN_WAIT | CTRL_DATA_OUT | CTRL_DATA_OUT_WAIT |
  CTRL_STATUS_IN | CTRL_STATUS_IN_WAIT | CTRL_STATUS_OUT | CTRL_STATUS_OUT_WAIT | CTRL_ERROR | CTRL_STALLED | CTRL_COMPLETE

datatype HOST_State = HOST_IDLE | HOST_WAIT_PRT_ENABLED | HOST_DEV_ATTACHED | HOST_DEV_DISCONNECTED | HOST_DETECT_DEVICE_SPEED |
  HOST_ENUMERATION | HOST_CLASS_REQUEST | HOST_CLASS | HOST_CTRL_XFER | HOST_USR_INPUT | HOST_SUSPENDED | HOST_WAKEUP | HOST_ERROR_STATE

datatype CMD_State = CMD_IDLE | CMD_SEND | CMD_WAIT

record USB_Setup =
  bmRequestType :: UNS8
  bRequest :: UNS8
  wValue :: UNS16
  wIndex :: UNS16
  wLength :: UNS16

record USBH_HOST =
  gState :: HOST_State
  gStateBkp :: HOST_State
  RequestState :: CMD_State
  ctl_setup :: USB_Setup
  ctl_state :: CTRL_State
  ctl_buff :: "uptr option"
  ctl_length :: UNS16

datatype APP_State = USH_USR_FS_INIT | USH_USR_FS_WAIT_OPERATION | USH_USR_FS_OK_OPERATION | USH_USR_FS_ERR_OPERATION

record 'd usb =
  dev :: 'd
  bus :: otg
  host :: USBH_HOST
  MSCState :: MSC_STATES
  MSCStateBkp :: MSC_STATES
  MSCStateCurrent :: MSC_STATES
  CmdStateMachine :: CMD_STATES
  BOTState :: BOT_STATES
  BOTStateBkp :: BOT_STATES
  pRxTxBuff :: uptr
  DataLength :: UNS16
  BOTXferStatus :: USBH_MSC_Status
  BOTStallErrorCount :: UNS32
  xfer_error_count :: UNS8
  MSCErrorCount :: UNS8
  remainingDataLength :: UNS32
  datapointer :: uptr
  datapointer_prev :: uptr
  error_direction :: UNS8
  maxLunExceed :: bool
  MSBulkInEp :: UNS8
  MSBulkOutEp :: UNS8
  MSBulkInEpSize :: UNS16
  MSBulkOutEpSize :: UNS16
  maxLun :: UNS8
  MSCapacity :: UNS32
  MSSenseKey :: UNS32
  MSPageLength :: UNS16
  MSWriteProtect :: UNS8
  AppState :: APP_State
  USB_Manage_State :: UNS8

section \<open>The host controller driver\<close>

type_synonym 'd env = "'d \<Rightarrow> otg \<Rightarrow> 'd \<times> otg"

definition tick :: "'d env \<Rightarrow> 'd usb \<Rightarrow> 'd usb" where
  "tick env s = (let (d, b) = env (dev s) (bus s) in s\<lparr>dev := d, bus := b\<rparr>)"

definition HCD_IsDeviceConnected :: "'d env \<Rightarrow> 'd usb \<Rightarrow> bool \<times> 'd usb" where
  "HCD_IsDeviceConnected env s = (let s = tick env s in (ConnSts (bus s), s))"

definition HCD_GetURB_State :: "'d env \<Rightarrow> channel \<Rightarrow> 'd usb \<Rightarrow> URB_STATE \<times> 'd usb" where
  "HCD_GetURB_State env ch s = (let s = tick env s in (URB_State (hc (bus s) ch), s))"

definition HCD_GetXferCnt :: "'d env \<Rightarrow> channel \<Rightarrow> 'd usb \<Rightarrow> UNS32 \<times> 'd usb" where
  "HCD_GetXferCnt env ch s = (let s = tick env s in (XferCnt (hc (bus s) ch), s))"

definition upd_hc :: "channel \<Rightarrow> (USB_OTG_HC \<Rightarrow> USB_OTG_HC) \<Rightarrow> 'd usb \<Rightarrow> 'd usb" where
  "upd_hc ch f s = s\<lparr>bus := (bus s)\<lparr>hc := (hc (bus s))(ch := f (hc (bus s) ch))\<rparr>\<rparr>"

definition set_ram :: "region \<Rightarrow> UNS8 list \<Rightarrow> 'd usb \<Rightarrow> 'd usb" where
  "set_ram r bs s = s\<lparr>bus := (bus s)\<lparr>ram := (ram (bus s))(r := bs)\<rparr>\<rparr>"

definition HCD_SubmitRequest :: "channel \<Rightarrow> 'd usb \<Rightarrow> 'd usb" where
  "HCD_SubmitRequest ch s = upd_hc ch (\<lambda>c. c\<lparr>URB_State := URB_IDLE, xfer_count := 0, chena := True\<rparr>) s"

definition USBH_BulkSendData :: "uptr \<Rightarrow> UNS16 \<Rightarrow> channel \<Rightarrow> 'd usb \<Rightarrow> 'd usb" where
  "USBH_BulkSendData buff len ch s =
     HCD_SubmitRequest ch (upd_hc ch (\<lambda>c. c\<lparr>ep_is_in := False, xfer_buff := buff, xfer_len := ucast len,
       data_pid := if toggle_out c = 0 then 0 else 2\<rparr>) s)"

definition USBH_BulkReceiveData :: "uptr \<Rightarrow> UNS16 \<Rightarrow> channel \<Rightarrow> 'd usb \<Rightarrow> 'd usb" where
  "USBH_BulkReceiveData buff len ch s =
     HCD_SubmitRequest ch (upd_hc ch (\<lambda>c. c\<lparr>ep_is_in := True, xfer_buff := buff, xfer_len := ucast len,
       data_pid := if toggle_in c = 0 then 0 else 2\<rparr>) s)"

section \<open>Control requests\<close>

definition USBH_SubmitSetupRequest :: "uptr option \<Rightarrow> UNS16 \<Rightarrow> USBH_HOST \<Rightarrow> USBH_HOST" where
  "USBH_SubmitSetupRequest buff len h =
     h\<lparr>gStateBkp := gState h, gState := HOST_CTRL_XFER, ctl_buff := buff, ctl_length := len, ctl_state := CTRL_SETUP\<rparr>"

definition USBH_CtlReq :: "uptr option \<Rightarrow> UNS16 \<Rightarrow> USBH_HOST \<Rightarrow> USBH_Status \<times> USBH_HOST" where
  "USBH_CtlReq buff len h =
     (case RequestState h of
        CMD_SEND \<Rightarrow> (USBH_BUSY, (USBH_SubmitSetupRequest buff len h)\<lparr>RequestState := CMD_WAIT\<rparr>)
      | CMD_WAIT \<Rightarrow>
          if ctl_state h = CTRL_COMPLETE then (USBH_OK, h\<lparr>RequestState := CMD_SEND, ctl_state := CTRL_IDLE\<rparr>)
          else if ctl_state h = CTRL_ERROR then (USBH_FAIL, h\<lparr>RequestState := CMD_SEND\<rparr>)
          else if ctl_state h = CTRL_STALLED then (USBH_NOT_SUPPORTED, h\<lparr>RequestState := CMD_SEND\<rparr>)
          else (USBH_BUSY, h)
      | CMD_IDLE \<Rightarrow> (USBH_BUSY, h))"

text \<open>\<open>hc_num\<close> is \<open>None\<close> for the channel of the control endpoint, which the class machine passes for endpoint 0.\<close>

definition USBH_ClrFeature :: "UNS8 \<Rightarrow> channel option \<Rightarrow> 'd usb \<Rightarrow> USBH_Status \<times> 'd usb" where
  "USBH_ClrFeature ep_num hc_num s =
     (let h = (host s)\<lparr>ctl_setup := \<lparr>bmRequestType = 0x02, bRequest = 0x01, wValue = 0, wIndex = ucast ep_num, wLength = 0\<rparr>\<rparr>;
          s1 = (case hc_num of None \<Rightarrow> s
                | Some ch \<Rightarrow> upd_hc ch (\<lambda>c. if ep_num AND 0x80 = 0x80 then c\<lparr>toggle_in := 0\<rparr> else c\<lparr>toggle_out := 0\<rparr>) s);
          (status, h1) = USBH_CtlReq None 0 h
      in (status, s1\<lparr>host := h1\<rparr>))"

definition USBH_MSC_GETMaxLUN :: "'d usb \<Rightarrow> USBH_Status \<times> 'd usb" where
  "USBH_MSC_GETMaxLUN s =
     (let h = (host s)\<lparr>ctl_setup := \<lparr>bmRequestType = 0xA1, bRequest = 0xFE, wValue = 0, wIndex = 0, wLength = 1\<rparr>\<rparr>;
          (status, h1) = USBH_CtlReq (Some (MSC_buff, 0)) 1 h
      in (status, s\<lparr>host := h1\<rparr>))"

section \<open>Bulk-only transport\<close>

text \<open>The command block wrapper is a union of its fields with 31 bytes: a field is written at its offset.\<close>

definition cbw :: "'d usb \<Rightarrow> UNS8 list" where
  "cbw s = ram (bus s) CBWArray"

definition put_cbw :: "nat \<Rightarrow> UNS8 list \<Rightarrow> 'd usb \<Rightarrow> 'd usb" where
  "put_cbw off bs s = set_ram CBWArray (put_list (cbw s) off bs) s"

definition field32 :: "UNS8 list \<Rightarrow> nat \<Rightarrow> UNS32" where
  "field32 bs off = le32 (bs ! off) (bs ! (off + 1)) (bs ! (off + 2)) (bs ! (off + 3))"

definition USBH_MSC_Init :: "'d env \<Rightarrow> 'd usb \<Rightarrow> 'd usb" where
  "USBH_MSC_Init env s =
     (let (c, s) = HCD_IsDeviceConnected env s;
          s1 = (if c then (put_cbw 13 [0] (put_cbw 4 (bytes32 0x20304050) (put_cbw 0 (bytes32 0x43425355) s)))\<lparr>CmdStateMachine := CMD_SEND_STATE\<rparr>
                else s)
      in s1\<lparr>BOTStallErrorCount := 0, MSCErrorCount := 0\<rparr>)"

definition USBH_MSC_BOT_Abort :: "bool \<Rightarrow> 'd usb \<Rightarrow> USBH_Status \<times> 'd usb" where
  "USBH_MSC_BOT_Abort dir_in s =
     (let (status, s1) = (if dir_in then USBH_ClrFeature (MSBulkInEp s) (Some hc_num_in) s
                          else USBH_ClrFeature (MSBulkOutEp s) (Some hc_num_out) s);
          s2 = s1\<lparr>BOTStallErrorCount := BOTStallErrorCount s1 + 1\<rparr>
      in (if BOTStallErrorCount s2 > 4 then USBH_UNRECOVERED_ERROR else status, s2))"

definition csw_status :: "UNS32 \<Rightarrow> UNS8 list \<Rightarrow> UNS8 list \<Rightarrow> USBH_MSC_Status" where
  "csw_status dataXferCount csw c =
     (if dataXferCount \<noteq> 13 then USBH_MSC_PHASE_ERROR
      else if field32 csw 0 \<noteq> 0x53425355 then USBH_MSC_PHASE_ERROR
      else if field32 csw 4 \<noteq> field32 c 4 then USBH_MSC_FAIL
      else if csw ! 12 = 0 then USBH_MSC_OK
      else if csw ! 12 = 1 then USBH_MSC_FAIL
      else if csw ! 12 = 2 then USBH_MSC_PHASE_ERROR else USBH_MSC_FAIL)"

definition USBH_MSC_DecodeCSW :: "'d env \<Rightarrow> 'd usb \<Rightarrow> USBH_MSC_Status \<times> 'd usb" where
  "USBH_MSC_DecodeCSW env s =
     (let (c, s) = HCD_IsDeviceConnected env s
      in if \<not> c then (USBH_MSC_FAIL, s\<lparr>BOTXferStatus := USBH_MSC_FAIL\<rparr>)
         else let (n, s) = HCD_GetXferCnt env hc_num_in s;
                  status = csw_status n (ram (bus s) CSWArray) (cbw s)
              in (status, s\<lparr>BOTXferStatus := status\<rparr>))"

text \<open>The reaction to \<open>URB_ERROR\<close> that four states share: the third error in a row ends the transfer.\<close>

definition urb_error :: "'d usb \<Rightarrow> 'd usb" where
  "urb_error s =
     (let s1 = s\<lparr>xfer_error_count := xfer_error_count s + 1\<rparr>
      in if xfer_error_count s1 < 3 then s1\<lparr>BOTState := BOTStateBkp s1\<rparr> else s1\<lparr>BOTXferStatus := USBH_MSC_PHASE_ERROR\<rparr>)"

definition bot_send_cbw :: "'d usb \<Rightarrow> 'd usb" where
  "bot_send_cbw s = (USBH_BulkSendData (CBWArray, 0) 31 hc_num_out s)
     \<lparr>BOTStateBkp := USBH_MSC_SEND_CBW, BOTState := USBH_MSC_SENT_CBW, xfer_error_count := 0\<rparr>"

definition bot_sent_cbw :: "'d env \<Rightarrow> 'd usb \<Rightarrow> 'd usb" where
  "bot_sent_cbw env s =
     (let (u, s) = HCD_GetURB_State env hc_num_out s
      in case u of
           URB_DONE \<Rightarrow>
             (let s1 = s\<lparr>BOTStallErrorCount := 0, BOTStateBkp := USBH_MSC_SENT_CBW\<rparr>
              in if field32 (cbw s1) 8 \<noteq> 0
                 then s1\<lparr>remainingDataLength := field32 (cbw s1) 8, datapointer := pRxTxBuff s1, datapointer_prev := pRxTxBuff s1,
                        BOTState := if cbw s1 ! 12 AND 0x80 = 0x80 then USBH_MSC_BOT_DATAIN_STATE else USBH_MSC_BOT_DATAOUT_STATE\<rparr>
                 else s1\<lparr>BOTState := USBH_MSC_RECEIVE_CSW_STATE\<rparr>)
         | URB_NOTREADY \<Rightarrow> s\<lparr>BOTState := BOTStateBkp s\<rparr>
         | URB_STALL \<Rightarrow> s\<lparr>error_direction := 1, BOTState := USBH_MSC_BOT_ERROR_OUT\<rparr>
         | URB_ERROR \<Rightarrow> urb_error s
         | URB_IDLE \<Rightarrow> s)"

definition bot_data_in :: "'d env \<Rightarrow> 'd usb \<Rightarrow> 'd usb" where
  "bot_data_in env s =
     (let (u, s) = HCD_GetURB_State env hc_num_in s
      in if u = URB_DONE \<or> BOTStateBkp s \<noteq> USBH_MSC_BOT_DATAIN_STATE
         then let s1 = s\<lparr>BOTStallErrorCount := 0, BOTStateBkp := USBH_MSC_BOT_DATAIN_STATE\<rparr>; e = MSBulkInEpSize s1
              in if remainingDataLength s1 > ucast e
                 then (USBH_BulkReceiveData (datapointer s1) e hc_num_in s1)
                   \<lparr>remainingDataLength := remainingDataLength s1 - ucast e, datapointer := ptr_plus (datapointer s1) (unat e)\<rparr>
                 else if remainingDataLength s1 = 0 then s1\<lparr>BOTState := USBH_MSC_RECEIVE_CSW_STATE\<rparr>
                 else (USBH_BulkReceiveData (datapointer s1) (ucast (remainingDataLength s1)) hc_num_in s1)\<lparr>remainingDataLength := 0\<rparr>
         else if u = URB_STALL
         then s\<lparr>error_direction := 0, BOTState := USBH_MSC_BOT_ERROR_IN, BOTStateBkp := USBH_MSC_RECEIVE_CSW_STATE\<rparr>
         else if u = URB_ERROR then urb_error s
         else s)"

definition bot_data_out :: "'d env \<Rightarrow> 'd usb \<Rightarrow> 'd usb" where
  "bot_data_out env s =
     (let (u, s) = HCD_GetURB_State env hc_num_out s; e = MSBulkOutEpSize s
      in case u of
           URB_DONE \<Rightarrow>
             (let s1 = s\<lparr>BOTStallErrorCount := 0, BOTStateBkp := USBH_MSC_BOT_DATAOUT_STATE\<rparr>
              in if remainingDataLength s1 > ucast e
                 then (USBH_BulkSendData (datapointer s1) e hc_num_out s1)
                   \<lparr>datapointer_prev := datapointer s1, datapointer := ptr_plus (datapointer s1) (unat e),
                    remainingDataLength := remainingDataLength s1 - ucast e, xfer_error_count := 0\<rparr>
                 else if remainingDataLength s1 = 0 then s1\<lparr>BOTState := USBH_MSC_RECEIVE_CSW_STATE\<rparr>
                 else (USBH_BulkSendData (datapointer s1) (ucast (remainingDataLength s1)) hc_num_out s1)\<lparr>remainingDataLength := 0\<rparr>)
         | URB_NOTREADY \<Rightarrow>
             if datapointer s \<noteq> datapointer_prev s
             then USBH_BulkSendData (ptr_minus (datapointer s) (unat e)) e hc_num_out s
             else USBH_BulkSendData (datapointer s) e hc_num_out s
         | URB_STALL \<Rightarrow> s\<lparr>error_direction := 1, BOTState := USBH_MSC_BOT_ERROR_OUT, BOTStateBkp := USBH_MSC_RECEIVE_CSW_STATE\<rparr>
         | URB_ERROR \<Rightarrow> urb_error s
         | URB_IDLE \<Rightarrow> s)"

definition bot_receive_csw :: "'d usb \<Rightarrow> 'd usb" where
  "bot_receive_csw s =
     (USBH_BulkReceiveData (CSWArray, 0) 63 hc_num_in
        (set_ram CSWArray (replicate 13 0) (s\<lparr>BOTStateBkp := USBH_MSC_RECEIVE_CSW_STATE, pRxTxBuff := (CSWArray, 0), DataLength := 63\<rparr>)))
     \<lparr>BOTState := USBH_MSC_DECODE_CSW, xfer_error_count := 0\<rparr>"

definition bot_decode_csw :: "'d env \<Rightarrow> 'd usb \<Rightarrow> 'd usb" where
  "bot_decode_csw env s =
     (let (u, s) = HCD_GetURB_State env hc_num_in s
      in case u of
           URB_DONE \<Rightarrow>
             (let s1 = s\<lparr>BOTStallErrorCount := 0, BOTStateBkp := USBH_MSC_RECEIVE_CSW_STATE, MSCState := MSCStateCurrent s\<rparr>;
                  (status, s2) = USBH_MSC_DecodeCSW env s1
              in s2\<lparr>BOTXferStatus := status\<rparr>)
         | URB_STALL \<Rightarrow> s\<lparr>error_direction := 0, BOTState := USBH_MSC_BOT_ERROR_IN\<rparr>
         | URB_ERROR \<Rightarrow> urb_error s
         | _ \<Rightarrow> s)"

definition bot_error_in :: "'d usb \<Rightarrow> 'd usb" where
  "bot_error_in s =
     (let (status, s1) = USBH_MSC_BOT_Abort True s
      in if status = USBH_OK
         then s1\<lparr>BOTState := if error_direction s1 = 2 then USBH_MSC_BOT_ERROR_OUT else BOTStateBkp s1\<rparr>
         else if status = USBH_UNRECOVERED_ERROR then s1\<lparr>BOTXferStatus := USBH_MSC_PHASE_ERROR\<rparr>
         else s1)"

definition bot_error_out :: "'d usb \<Rightarrow> 'd usb" where
  "bot_error_out s =
     (let (status, s1) = USBH_MSC_BOT_Abort False s
      in if status = USBH_OK then s1\<lparr>BOTState := BOTStateBkp s1\<rparr>
         else if status = USBH_UNRECOVERED_ERROR then s1\<lparr>BOTXferStatus := USBH_MSC_PHASE_ERROR\<rparr>
         else s1)"

definition USBH_MSC_HandleBOTXfer :: "'d env \<Rightarrow> 'd usb \<Rightarrow> 'd usb" where
  "USBH_MSC_HandleBOTXfer env s =
     (let (c, s) = HCD_IsDeviceConnected env s
      in if \<not> c then s
         else case BOTState s of
                USBH_MSC_SEND_CBW \<Rightarrow> bot_send_cbw s
              | USBH_MSC_SENT_CBW \<Rightarrow> bot_sent_cbw env s
              | USBH_MSC_BOT_DATAIN_STATE \<Rightarrow> bot_data_in env s
              | USBH_MSC_BOT_DATAOUT_STATE \<Rightarrow> bot_data_out env s
              | USBH_MSC_RECEIVE_CSW_STATE \<Rightarrow> bot_receive_csw s
              | USBH_MSC_DECODE_CSW \<Rightarrow> bot_decode_csw env s
              | USBH_MSC_BOT_ERROR_IN \<Rightarrow> bot_error_in s
              | USBH_MSC_BOT_ERROR_OUT \<Rightarrow> bot_error_out s
              | USBH_MSC_BOT_UNSET \<Rightarrow> s)"

section \<open>SCSI commands\<close>

text \<open>A command is prepared in the wrapper and started; the transport machine then runs it.\<close>

definition prepare_cbw :: "UNS32 \<Rightarrow> UNS8 \<Rightarrow> UNS8 \<Rightarrow> uptr \<Rightarrow> UNS8 list \<Rightarrow> 'd usb \<Rightarrow> 'd usb" where
  "prepare_cbw len flags cblen buff cb s =
     (put_cbw 15 (cb @ replicate (16 - length cb) 0) (put_cbw 14 [cblen] (put_cbw 12 [flags] (put_cbw 8 (bytes32 len) s))))
     \<lparr>pRxTxBuff := buff\<rparr>"

definition start_cmd :: "'d usb \<Rightarrow> 'd usb" where
  "start_cmd s = s\<lparr>BOTState := USBH_MSC_SEND_CBW, MSCState := USBH_MSC_BOT_USB_TRANSFERS, BOTXferStatus := USBH_MSC_BUSY,
     CmdStateMachine := CMD_WAIT_STATUS\<rparr>"

text \<open>The result of a command; \<open>on_ok\<close> stores what the command has read, \<open>on_fail\<close> is the status of a failed command.\<close>

definition cmd_result :: "USBH_MSC_Status \<Rightarrow> ('d usb \<Rightarrow> 'd usb) \<Rightarrow> 'd usb \<Rightarrow> USBH_MSC_Status \<times> 'd usb" where
  "cmd_result on_fail on_ok s =
     (case BOTXferStatus s of
        USBH_MSC_OK \<Rightarrow> (USBH_MSC_OK, (on_ok s)\<lparr>CmdStateMachine := CMD_SEND_STATE\<rparr>)
      | USBH_MSC_FAIL \<Rightarrow> (on_fail, s\<lparr>CmdStateMachine := CMD_SEND_STATE\<rparr>)
      | USBH_MSC_PHASE_ERROR \<Rightarrow> (USBH_MSC_PHASE_ERROR, s\<lparr>CmdStateMachine := CMD_SEND_STATE\<rparr>)
      | USBH_MSC_BUSY \<Rightarrow> (USBH_MSC_BUSY, s))"

definition USBH_MSC_TestUnitReady :: "'d env \<Rightarrow> 'd usb \<Rightarrow> USBH_MSC_Status \<times> 'd usb" where
  "USBH_MSC_TestUnitReady env s =
     (let (c, s) = HCD_IsDeviceConnected env s
      in if \<not> c then (USBH_MSC_BUSY, s)
         else case CmdStateMachine s of
                CMD_SEND_STATE \<Rightarrow> (USBH_MSC_BUSY, start_cmd ((prepare_cbw 0 0 6 (CSWArray, 0) [0x00] s)
                  \<lparr>DataLength := 63, MSCStateCurrent := USBH_MSC_TEST_UNIT_READY\<rparr>))
              | CMD_WAIT_STATUS \<Rightarrow> cmd_result USBH_MSC_FAIL (\<lambda>s. s) s
              | CMD_UNINITIALIZED_STATE \<Rightarrow> (USBH_MSC_BUSY, s))"

definition USBH_MSC_ReadCapacity10 :: "'d env \<Rightarrow> 'd usb \<Rightarrow> USBH_MSC_Status \<times> 'd usb" where
  "USBH_MSC_ReadCapacity10 env s =
     (let (c, s) = HCD_IsDeviceConnected env s
      in if \<not> c then (USBH_MSC_BUSY, s)
         else case CmdStateMachine s of
                CMD_SEND_STATE \<Rightarrow> (USBH_MSC_BUSY, start_cmd ((prepare_cbw 8 0x80 10 (USBH_DataInBuffer, 0) [0x25] s)
                  \<lparr>MSCStateCurrent := USBH_MSC_READ_CAPACITY10\<rparr>))
              | CMD_WAIT_STATUS \<Rightarrow> cmd_result USBH_MSC_FAIL
                  (\<lambda>s. let b = ram (bus s) USBH_DataInBuffer
                       in s\<lparr>MSCapacity := le32 (b ! 3) (b ! 2) (b ! 1) (b ! 0), MSPageLength := le16 (b ! 7) (b ! 6)\<rparr>) s
              | CMD_UNINITIALIZED_STATE \<Rightarrow> (USBH_MSC_BUSY, s))"

definition USBH_MSC_ModeSense6 :: "'d env \<Rightarrow> 'd usb \<Rightarrow> USBH_MSC_Status \<times> 'd usb" where
  "USBH_MSC_ModeSense6 env s =
     (let (c, s) = HCD_IsDeviceConnected env s
      in if \<not> c then (USBH_MSC_BUSY, s)
         else case CmdStateMachine s of
                CMD_SEND_STATE \<Rightarrow> (USBH_MSC_BUSY, start_cmd ((prepare_cbw 63 0x80 10 (USBH_DataInBuffer, 0) [0x1A, 0, 0x00 OR 0x3F, 0, 63] s)
                  \<lparr>MSCStateCurrent := USBH_MSC_MODE_SENSE6\<rparr>))
              | CMD_WAIT_STATUS \<Rightarrow> cmd_result USBH_MSC_FAIL
                  (\<lambda>s. s\<lparr>MSWriteProtect := if ram (bus s) USBH_DataInBuffer ! 2 AND 0x80 \<noteq> 0 then 1 else 0\<rparr>) s
              | CMD_UNINITIALIZED_STATE \<Rightarrow> (USBH_MSC_BUSY, s))"

definition USBH_MSC_RequestSense :: "'d env \<Rightarrow> 'd usb \<Rightarrow> USBH_MSC_Status \<times> 'd usb" where
  "USBH_MSC_RequestSense env s =
     (let (c, s) = HCD_IsDeviceConnected env s
      in if \<not> c then (USBH_MSC_BUSY, s)
         else case CmdStateMachine s of
                CMD_SEND_STATE \<Rightarrow> (USBH_MSC_BUSY, start_cmd ((prepare_cbw 63 0x80 10 (USBH_DataInBuffer, 0) [0x03, 0x00, 0, 0, 63] s)
                  \<lparr>MSCStateBkp := MSCStateCurrent s, MSCStateCurrent := USBH_MSC_REQUEST_SENSE\<rparr>))
              | CMD_WAIT_STATUS \<Rightarrow> cmd_result USBH_MSC_FAIL
                  (\<lambda>s. let b = ram (bus s) USBH_DataInBuffer in s\<lparr>MSSenseKey := le32 (b ! 3) (b ! 2) (b ! 1) (b ! 0)\<rparr>) s
              | CMD_UNINITIALIZED_STATE \<Rightarrow> (USBH_MSC_BUSY, s))"

text \<open>The command block of \<open>READ(10)\<close> and \<open>WRITE(10)\<close>: address and number of blocks, the most significant byte first. The
  number of blocks is cut to 16 bits.\<close>

definition rw10_block :: "UNS8 \<Rightarrow> UNS32 \<Rightarrow> UNS32 \<Rightarrow> UNS8 list" where
  "rw10_block opcode address nbOfbytes =
     (let nbOfPages = ucast (nbOfbytes div 512) :: UNS16
      in [opcode, 0] @ rev (bytes32 address) @ [0] @ rev (bytes16 nbOfPages))"

definition USBH_MSC_Write10 :: "'d env \<Rightarrow> uptr \<Rightarrow> UNS32 \<Rightarrow> UNS32 \<Rightarrow> 'd usb \<Rightarrow> USBH_MSC_Status \<times> 'd usb" where
  "USBH_MSC_Write10 env dataBuffer address nbOfbytes s =
     (let (c, s) = HCD_IsDeviceConnected env s
      in if \<not> c then (USBH_MSC_BUSY, s)
         else case CmdStateMachine s of
                CMD_SEND_STATE \<Rightarrow>
                  (USBH_MSC_BUSY, start_cmd (prepare_cbw nbOfbytes 0 10 dataBuffer (rw10_block 0x2A address nbOfbytes) s))
              | CMD_WAIT_STATUS \<Rightarrow> cmd_result USBH_MSC_BUSY (\<lambda>s. s) s
              | CMD_UNINITIALIZED_STATE \<Rightarrow> (USBH_MSC_BUSY, s))"

definition USBH_MSC_Read10 :: "'d env \<Rightarrow> uptr \<Rightarrow> UNS32 \<Rightarrow> UNS32 \<Rightarrow> 'd usb \<Rightarrow> USBH_MSC_Status \<times> 'd usb" where
  "USBH_MSC_Read10 env dataBuffer address nbOfbytes s =
     (let (c, s) = HCD_IsDeviceConnected env s
      in if \<not> c then (USBH_MSC_BUSY, s)
         else case CmdStateMachine s of
                CMD_SEND_STATE \<Rightarrow>
                  (USBH_MSC_BUSY, start_cmd (prepare_cbw nbOfbytes 0x80 10 dataBuffer (rw10_block 0x28 address nbOfbytes) s))
              | CMD_WAIT_STATUS \<Rightarrow>
                  if BOTXferStatus s = USBH_MSC_OK \<or> BOTXferStatus s = USBH_MSC_FAIL
                  then let (c, s) = HCD_IsDeviceConnected env s
                       in if c then cmd_result USBH_MSC_BUSY (\<lambda>s. s) s else (USBH_MSC_BUSY, s)
                  else cmd_result USBH_MSC_BUSY (\<lambda>s. s) s
              | CMD_UNINITIALIZED_STATE \<Rightarrow> (USBH_MSC_BUSY, s))"

section \<open>The class machine\<close>

definition USBH_MSC_ErrorHandle :: "USBH_MSC_Status \<Rightarrow> 'd usb \<Rightarrow> 'd usb" where
  "USBH_MSC_ErrorHandle status s =
     (if status = USBH_MSC_FAIL
      then let s1 = s\<lparr>MSCErrorCount := MSCErrorCount s + 1\<rparr>
           in if MSCErrorCount s1 < 10
              then s1\<lparr>MSCState := USBH_MSC_REQUEST_SENSE, CmdStateMachine := CMD_SEND_STATE\<rparr>
              else s1\<lparr>MSCState := USBH_MSC_UNRECOVERED_STATE\<rparr>
      else if status = USBH_MSC_PHASE_ERROR then s\<lparr>MSCState := USBH_MSC_UNRECOVERED_STATE\<rparr>
      else s)"

definition USBH_USR_MSC_Application :: "'d env \<Rightarrow> 'd usb \<Rightarrow> 'd usb" where
  "USBH_USR_MSC_Application env s =
     (let (c, s) = HCD_IsDeviceConnected env s
      in case AppState s of
           USH_USR_FS_INIT \<Rightarrow> s\<lparr>AppState := USH_USR_FS_WAIT_OPERATION\<rparr>
         | USH_USR_FS_WAIT_OPERATION \<Rightarrow> if c then s\<lparr>USB_Manage_State := 1\<rparr> else s\<lparr>AppState := USH_USR_FS_INIT\<rparr>
         | _ \<Rightarrow> s)"

definition class_command :: "(USBH_MSC_Status \<times> 'd usb) \<Rightarrow> ('d usb \<Rightarrow> MSC_STATES) \<Rightarrow> bool \<Rightarrow> USBH_Status \<times> 'd usb" where
  "class_command r goal reset =
     (case r of (mscStatus, s) \<Rightarrow>
        if mscStatus = USBH_MSC_OK
        then (USBH_OK, let s1 = s\<lparr>MSCState := goal s\<rparr> in if reset then s1\<lparr>MSCErrorCount := 0\<rparr> else s1)
        else (USBH_BUSY, USBH_MSC_ErrorHandle mscStatus s))"

definition USBH_MSC_Handle :: "'d env \<Rightarrow> 'd usb \<Rightarrow> USBH_Status \<times> 'd usb" where
  "USBH_MSC_Handle env s =
     (let (c, s) = HCD_IsDeviceConnected env s
      in if \<not> c then (USBH_BUSY, s)
         else case MSCState s of
                USBH_MSC_BOT_INIT_STATE \<Rightarrow> (USBH_BUSY, (USBH_MSC_Init env s)\<lparr>MSCState := USBH_MSC_GET_MAX_LUN\<rparr>)
              | USBH_MSC_GET_MAX_LUN \<Rightarrow>
                  (let (status, s) = USBH_MSC_GETMaxLUN s
                   in if status = USBH_OK
                      then let s1 = s\<lparr>maxLun := ram (bus s) MSC_buff ! 0\<rparr>
                           in if maxLun s1 > 0 \<and> \<not> maxLunExceed s1 then (status, s1\<lparr>maxLunExceed := True\<rparr>)
                              else (status, s1\<lparr>MSCState := USBH_MSC_TEST_UNIT_READY\<rparr>)
                      else if status = USBH_NOT_SUPPORTED
                      then (status, s\<lparr>MSCStateBkp := USBH_MSC_TEST_UNIT_READY, MSCState := USBH_MSC_CTRL_ERROR_STATE\<rparr>)
                      else (status, s))
              | USBH_MSC_CTRL_ERROR_STATE \<Rightarrow>
                  (let (status, s) = USBH_ClrFeature 0 None s
                   in (status, if status = USBH_OK then s\<lparr>maxLun := 0, MSCState := MSCStateBkp s\<rparr> else s))
              | USBH_MSC_TEST_UNIT_READY \<Rightarrow> class_command (USBH_MSC_TestUnitReady env s) (\<lambda>_. USBH_MSC_READ_CAPACITY10) True
              | USBH_MSC_READ_CAPACITY10 \<Rightarrow> class_command (USBH_MSC_ReadCapacity10 env s) (\<lambda>_. USBH_MSC_MODE_SENSE6) True
              | USBH_MSC_MODE_SENSE6 \<Rightarrow> class_command (USBH_MSC_ModeSense6 env s) (\<lambda>_. USBH_MSC_DEFAULT_APPLI_STATE) True
              | USBH_MSC_BOT_USB_TRANSFERS \<Rightarrow> (USBH_BUSY, USBH_MSC_HandleBOTXfer env s)
              | USBH_MSC_DEFAULT_APPLI_STATE \<Rightarrow>
                  (USBH_BUSY, (USBH_USR_MSC_Application env s)\<lparr>MSCState := USBH_MSC_DEFAULT_APPLI_STATE\<rparr>)
              | USBH_MSC_UNRECOVERED_STATE \<Rightarrow> (USBH_UNRECOVERED_ERROR, s)
              | USBH_MSC_REQUEST_SENSE \<Rightarrow> class_command (USBH_MSC_RequestSense env s) MSCStateBkp False
              | USBH_MSC_BOT_RESET \<Rightarrow> (USBH_BUSY, s))"

section \<open>The disk functions\<close>

datatype DRESULT = RES_OK | RES_ERROR | RES_WRPRT | RES_NOTRDY | RES_PARERR

definition dresult :: "USBH_MSC_Status \<Rightarrow> DRESULT" where
  "dresult r = (case r of USBH_MSC_OK \<Rightarrow> RES_OK | USBH_MSC_FAIL \<Rightarrow> RES_ERROR | USBH_MSC_PHASE_ERROR \<Rightarrow> RES_WRPRT | USBH_MSC_BUSY \<Rightarrow> RES_NOTRDY)"

definition USB_disk_status :: "'d env \<Rightarrow> 'd usb \<Rightarrow> bool \<times> 'd usb" where
  "USB_disk_status env s = HCD_IsDeviceConnected env s"

text \<open>The loop of \<open>USB_disk_read\<close> and \<open>USB_disk_write\<close>; \<open>cmd\<close> is the command they repeat.\<close>

partial_function (option) disk_loop ::
  "'d env \<Rightarrow> ('d usb \<Rightarrow> USBH_MSC_Status \<times> 'd usb) \<Rightarrow> 'd usb \<Rightarrow> (USBH_MSC_Status \<times> 'd usb) option" where
  "disk_loop env cmd s =
     (let (Result, s) = cmd s;
          s = USBH_MSC_HandleBOTXfer env s;
          (c, s) = USB_disk_status env s
      in if \<not> c then Some (USBH_MSC_FAIL, s)
         else if Result = USBH_MSC_BUSY then disk_loop env cmd s
         else Some (Result, s))"

definition USB_disk_read :: "'d env \<Rightarrow> uptr \<Rightarrow> UNS32 \<Rightarrow> UNS32 \<Rightarrow> 'd usb \<Rightarrow> (USBH_MSC_Status \<times> 'd usb) option" where
  "USB_disk_read env buff sector count s =
     (let (State, s) = USB_disk_status env s
      in if State \<and> USB_Manage_State s = 1 then disk_loop env (USBH_MSC_Read10 env buff sector (512 * count)) s
         else Some (USBH_MSC_FAIL, s))"

definition USB_disk_write :: "'d env \<Rightarrow> uptr \<Rightarrow> UNS32 \<Rightarrow> UNS32 \<Rightarrow> 'd usb \<Rightarrow> (USBH_MSC_Status \<times> 'd usb) option" where
  "USB_disk_write env buff sector count s =
     (let (State, s) = USB_disk_status env s
      in if State \<and> USB_Manage_State s = 1 then disk_loop env (USBH_MSC_Write10 env buff sector (512 * count)) s
         else Some (USBH_MSC_FAIL, s))"

text \<open>Drive 0 is the SD card, 1 the flash memory, 2 the USB device. \<open>junk\<close> is the value of a variable that is never set.\<close>

definition disk_status :: "'d env \<Rightarrow> UNS8 \<Rightarrow> 'd usb \<Rightarrow> UNS8 \<times> 'd usb" where
  "disk_status env pdrv s =
     (if pdrv = 0 \<or> pdrv = 1 then (0, s)
      else if pdrv = 2 then let (c, s) = USB_disk_status env s in (1 - c_bool c, s)
      else (1, s))"

definition disk_initialize :: "'d env \<Rightarrow> UNS8 \<Rightarrow> 'd usb \<Rightarrow> UNS8 \<times> 'd usb" where
  "disk_initialize env pdrv s =
     (if pdrv = 0 \<or> pdrv = 1 then (0, s)
      else if pdrv = 2 then let (c, s) = HCD_IsDeviceConnected env s in (1 - c_bool c, s)
      else (1, s))"

definition disk_read :: "'d env \<Rightarrow> DRESULT \<Rightarrow> UNS8 \<Rightarrow> uptr \<Rightarrow> UNS32 \<Rightarrow> UNS32 \<Rightarrow> 'd usb \<Rightarrow> (DRESULT \<times> 'd usb) option" where
  "disk_read env junk pdrv buff sector count s =
     (if pdrv = 0 \<or> pdrv = 1 then Some (junk, s)
      else if pdrv = 2 then map_option (\<lambda>(r, s). (dresult r, s)) (USB_disk_read env buff sector count s)
      else Some (RES_PARERR, s))"

definition disk_write :: "'d env \<Rightarrow> UNS8 \<Rightarrow> uptr \<Rightarrow> UNS32 \<Rightarrow> UNS32 \<Rightarrow> 'd usb \<Rightarrow> (DRESULT \<times> 'd usb) option" where
  "disk_write env pdrv buff sector count s =
     (if pdrv = 0 \<or> pdrv = 1 then Some (RES_OK, s)
      else if pdrv = 2 then map_option (\<lambda>(r, s). (dresult r, s)) (USB_disk_write env buff sector count s)
      else Some (RES_PARERR, s))"

definition poke :: "uptr \<Rightarrow> UNS8 list \<Rightarrow> 'd usb \<Rightarrow> 'd usb" where
  "poke p bs s = set_ram (fst p) (put_list (ram (bus s) (fst p)) (snd p) bs) s"

definition SD_disk_ioctl :: "UNS8 \<Rightarrow> uptr \<Rightarrow> 'd usb \<Rightarrow> DRESULT \<times> 'd usb" where
  "SD_disk_ioctl cmd buff s =
     (if cmd = 0 then (RES_OK, s) else if cmd = 1 then (RES_OK, poke buff (bytes32 512) s)
      else if cmd = 2 then (RES_OK, poke buff (bytes16 8) s) else if cmd = 3 then (RES_OK, poke buff (bytes32 (512 * 12)) s)
      else (RES_PARERR, s))"

definition FLASH_disk_ioctl :: "UNS8 \<Rightarrow> uptr \<Rightarrow> 'd usb \<Rightarrow> DRESULT \<times> 'd usb" where
  "FLASH_disk_ioctl cmd buff s =
     (if cmd = 0 then (RES_OK, s) else if cmd = 1 then (RES_OK, poke buff (bytes16 512) s)
      else if cmd = 2 then (RES_OK, poke buff (bytes16 8) s) else if cmd = 3 then (RES_OK, poke buff (bytes32 (2048 * 12)) s)
      else (RES_PARERR, s))"

definition USB_disk_ioctl :: "UNS8 \<Rightarrow> uptr \<Rightarrow> 'd usb \<Rightarrow> DRESULT \<times> 'd usb" where
  "USB_disk_ioctl cmd buff s =
     (if cmd = 0 then (RES_OK, s) else if cmd = 1 then (RES_OK, poke buff (bytes16 512) s)
      else if cmd = 2 then (RES_OK, poke buff (bytes16 512) s) else if cmd = 3 then (RES_OK, poke buff (bytes32 (MSCapacity s)) s)
      else (RES_PARERR, s))"

definition disk_ioctl :: "UNS8 \<Rightarrow> UNS8 \<Rightarrow> uptr \<Rightarrow> 'd usb \<Rightarrow> DRESULT \<times> 'd usb" where
  "disk_ioctl pdrv cmd buff s =
     (if pdrv = 0 then SD_disk_ioctl cmd buff s else if pdrv = 1 then FLASH_disk_ioctl cmd buff s
      else if pdrv = 2 then USB_disk_ioctl cmd buff s else (RES_PARERR, s))"

end
