(* ===== verification/UsbDisk.thy ===== *)
theory UsbDisk
  imports UsbMsc
begin

text \<open>
  Transfers with a mass storage device. A device and its controller, as the standard of the bulk-only transport describes them,
  are a contract on \<open>env\<close>: a packet that is under way is finished after finitely many accesses of the program, with the effect of
  \<open>bus_step\<close>, and nothing else happens. A transfer passes through stages that are stable under the steps
  of the environment. Shown here: a read returns the sectors and a write stores them, both return, and so a write followed by a read
  gives back the data; a write that the device refuses is repeated for ever; a stalled transfer ends in a phase error.
\<close>

unbundle bit_operations_syntax

section \<open>A device\<close>

datatype bot_phase = Idle | DataIn UNS32 "UNS8 list" | DataOut UNS32 nat nat "UNS8 list" | Csw UNS32 UNS8

record stick =
  medium :: "UNS8 list"
  protected :: bool
  phase :: bot_phase

definition csw_bytes :: "UNS32 \<Rightarrow> UNS8 \<Rightarrow> UNS8 list" where
  "csw_bytes tag status = bytes32 0x53425355 @ bytes32 tag @ bytes32 0 @ [status]"

text \<open>The device accepts reads and writes of whole sectors within its medium.\<close>

definition stick_command :: "UNS8 list \<Rightarrow> stick \<Rightarrow> stick option" where
  "stick_command c v =
     (let tag = field32 c 4; lba = unat (le32 (c ! 20) (c ! 19) (c ! 18) (c ! 17)); n = unat (le16 (c ! 23) (c ! 22))
      in if length c \<noteq> 31 \<or> field32 c 0 \<noteq> 0x43425355 \<or> unat (field32 c 8) \<noteq> 512 * n \<or> n = 0 \<or> length (medium v) < 512 * (lba + n)
         then None
         else if c ! 15 = 0x28 \<and> c ! 12 = 0x80
         then Some (v\<lparr>phase := DataIn tag (take (512 * n) (drop (512 * lba) (medium v)))\<rparr>)
         else if c ! 15 = 0x2A \<and> c ! 12 = 0 then Some (v\<lparr>phase := DataOut tag (512 * lba) (512 * n) []\<rparr>)
         else None)"

definition stick_out :: "UNS8 list \<Rightarrow> stick \<Rightarrow> stick option" where
  "stick_out bs v =
     (case phase v of
        Idle \<Rightarrow> stick_command bs v
      | DataOut tag a n acc \<Rightarrow>
          if length (acc @ bs) < n then Some (v\<lparr>phase := DataOut tag a n (acc @ bs)\<rparr>)
          else if length (acc @ bs) = n
          then Some (if protected v then v\<lparr>phase := Csw tag 1\<rparr> else v\<lparr>medium := put_list (medium v) a (acc @ bs), phase := Csw tag 0\<rparr>)
          else None
      | _ \<Rightarrow> None)"

definition stick_in :: "nat \<Rightarrow> stick \<Rightarrow> (UNS8 list \<times> stick) option" where
  "stick_in n v =
     (case phase v of
        DataIn tag bs \<Rightarrow> Some (take n bs, v\<lparr>phase := if length bs \<le> n then Csw tag 0 else DataIn tag (drop n bs)\<rparr>)
      | Csw tag status \<Rightarrow> if 13 \<le> n then Some (csw_bytes tag status, v\<lparr>phase := Idle\<rparr>) else None
      | _ \<Rightarrow> None)"

text \<open>A packet that is under way is finished.\<close>

definition out_bytes :: "otg \<Rightarrow> UNS8 list" where
  "out_bytes b = (let c = hc b hc_num_out in take (unat (xfer_len c)) (drop (snd (xfer_buff c)) (ram b (fst (xfer_buff c)))))"

definition out_done :: "otg \<Rightarrow> otg" where
  "out_done b = b\<lparr>hc := (hc b)(hc_num_out := (hc b hc_num_out)\<lparr>URB_State := URB_DONE, chena := False,
     toggle_out := toggle_out (hc b hc_num_out) XOR 1\<rparr>)\<rparr>"

definition in_done :: "UNS8 list \<Rightarrow> otg \<Rightarrow> otg" where
  "in_done bs b =
     (let p = xfer_buff (hc b hc_num_in)
      in b\<lparr>hc := (hc b)(hc_num_in := (hc b hc_num_in)\<lparr>URB_State := URB_DONE, XferCnt := of_nat (length bs), chena := False,
             toggle_in := toggle_in (hc b hc_num_in) XOR 1\<rparr>),
           ram := (ram b)(fst p := put_list (ram b (fst p)) (snd p) bs)\<rparr>)"

definition bus_step :: "stick \<Rightarrow> otg \<Rightarrow> (stick \<times> otg) option" where
  "bus_step v b =
     (if chena (hc b hc_num_out) then map_option (\<lambda>v'. (v', out_done b)) (stick_out (out_bytes b) v)
      else if chena (hc b hc_num_in) then map_option (\<lambda>(bs, v'). (v', in_done bs b)) (stick_in (unat (xfer_len (hc b hc_num_in))) v)
      else None)"

definition quiet :: "otg \<Rightarrow> bool" where
  "quiet b \<longleftrightarrow> \<not> chena (hc b hc_num_in) \<and> \<not> chena (hc b hc_num_out)"

lemma field32_at: "length as = k \<Longrightarrow> field32 (as @ bytes32 v @ bs) k = v"
  by (simp add: field32_def bytes32_def nth_append)

section \<open>A transfer\<close>

text \<open>
  A transfer of \<open>x_data\<close> between the device and the buffer at offset \<open>x_at\<close>; \<open>x_traj k\<close> is the device after \<open>k\<close> bytes.
\<close>

record xact =
  x_in :: bool
  x_data :: "UNS8 list"
  x_at :: nat
  x_user :: "UNS8 list"
  x_cbw :: "UNS8 list"
  x_before :: stick
  x_traj :: "nat \<Rightarrow> stick"
  x_status :: UNS8

abbreviation x_n :: "xact \<Rightarrow> nat" where "x_n x \<equiv> length (x_data x)"

definition x_done :: "xact \<Rightarrow> nat \<Rightarrow> UNS8 list" where
  "x_done x k = (if x_in x then put_list (x_user x) (x_at x) (take k (x_data x)) else x_user x)"

definition x_after :: "xact \<Rightarrow> stick" where
  "x_after x = (x_traj x (x_n x))\<lparr>phase := Idle\<rparr>"

definition xact_ok :: "xact \<Rightarrow> bool" where
  "xact_ok x \<longleftrightarrow> length (x_cbw x) = 31 \<and> stick_out (x_cbw x) (x_before x) = Some (x_traj x 0) \<and>
     field32 (x_cbw x) 8 = of_nat (x_n x) \<and> x_n x < 2 ^ 32 \<and> 0 < x_n x \<and> (x_cbw x ! 12 AND 0x80 = 0x80) = x_in x \<and>
     phase (x_traj x (x_n x)) = Csw (field32 (x_cbw x) 4) (x_status x) \<and> x_status x \<in> {0, 1} \<and>
     (\<forall>j k. j < k \<longrightarrow> k \<le> x_n x \<longrightarrow>
        (if x_in x then stick_in (k - j) (x_traj x j) = Some (take (k - j) (drop j (x_data x)), x_traj x k)
         else stick_out (take (k - j) (drop (x_at x + j) (x_user x))) (x_traj x j) = Some (x_traj x k)))"

lemma xact_okI:
  assumes "length (x_cbw x) = 31" "stick_out (x_cbw x) (x_before x) = Some (x_traj x 0)" "field32 (x_cbw x) 8 = of_nat (x_n x)"
    "x_n x < 2 ^ 32" "x_data x \<noteq> []" "(x_cbw x ! 12 AND 0x80 = 0x80) = x_in x"
    "phase (x_traj x (x_n x)) = Csw (field32 (x_cbw x) 4) (x_status x)" "x_status x = 0 \<or> x_status x = 1"
    "\<And>j k. j < k \<Longrightarrow> k \<le> x_n x \<Longrightarrow>
        (if x_in x then stick_in (k - j) (x_traj x j) = Some (take (k - j) (drop j (x_data x)), x_traj x k)
         else stick_out (take (k - j) (drop (x_at x + j) (x_user x))) (x_traj x j) = Some (x_traj x k))"
  shows "xact_ok x"
  using assms by (simp add: xact_ok_def)

datatype stage = Send | Sent | Data nat | Recv | Dec | Fin

definition flight :: "channel \<Rightarrow> uptr \<Rightarrow> nat \<Rightarrow> otg \<Rightarrow> bool" where
  "flight ch p n b \<longleftrightarrow> (\<forall>c. chena (hc b c) = (c = ch)) \<and> URB_State (hc b ch) = URB_IDLE \<and> xfer_buff (hc b ch) = p \<and>
     unat (xfer_len (hc b ch)) = n"

definition arrived :: "channel \<Rightarrow> otg \<Rightarrow> bool" where
  "arrived ch b \<longleftrightarrow> quiet b \<and> URB_State (hc b ch) = URB_DONE"

definition x_chan :: "xact \<Rightarrow> channel" where
  "x_chan x = (if x_in x then hc_num_in else hc_num_out)"

definition csw_in :: "xact \<Rightarrow> stick \<Rightarrow> otg \<Rightarrow> bool" where
  "csw_in x v b \<longleftrightarrow> arrived hc_num_in b \<and> XferCnt (hc b hc_num_in) = 13 \<and>
     ram b CSWArray = csw_bytes (field32 (x_cbw x) 4) (x_status x) \<and> v = x_after x"

fun bus_at :: "xact \<Rightarrow> stage \<Rightarrow> stick \<Rightarrow> otg \<Rightarrow> bool" where
  "bus_at x Send v b = (quiet b \<and> v = x_before x \<and> ram b UserBuf = x_done x 0)"
| "bus_at x Sent v b = (ram b UserBuf = x_done x 0 \<and>
     (flight hc_num_out (CBWArray, 0) 31 b \<and> v = x_before x \<or> arrived hc_num_out b \<and> v = x_traj x 0))"
| "bus_at x (Data k) v b =
     (k = 0 \<and> x_in x \<and> quiet b \<and> v = x_traj x 0 \<and> ram b UserBuf = x_done x 0 \<or>
      arrived (x_chan x) b \<and> v = x_traj x k \<and> ram b UserBuf = x_done x k \<or>
      (\<exists>j<k. flight (x_chan x) (UserBuf, x_at x + j) (k - j) b \<and> v = x_traj x j \<and> ram b UserBuf = x_done x j))"
| "bus_at x Recv v b = (quiet b \<and> v = x_traj x (x_n x) \<and> ram b UserBuf = x_done x (x_n x))"
| "bus_at x Dec v b = (ram b UserBuf = x_done x (x_n x) \<and>
     (flight hc_num_in (CSWArray, 0) 63 b \<and> v = x_traj x (x_n x) \<or> csw_in x v b))"
| "bus_at x Fin v b = (ram b UserBuf = x_done x (x_n x) \<and> csw_in x v b)"

definition bus_base :: "xact \<Rightarrow> otg \<Rightarrow> bool" where
  "bus_base x b \<longleftrightarrow> ConnSts b \<and> ram b CBWArray = x_cbw x \<and> length (ram b CSWArray) = 13"

definition prog_base :: "'d usb \<Rightarrow> bool" where
  "prog_base s \<longleftrightarrow> 0 < MSBulkInEpSize s \<and> 0 < MSBulkOutEpSize s \<and> USB_Manage_State s = 1"

fun prog_at :: "xact \<Rightarrow> stage \<Rightarrow> 'd usb \<Rightarrow> bool" where
  "prog_at x Send s = (BOTXferStatus s = USBH_MSC_BUSY \<and> BOTState s = USBH_MSC_SEND_CBW \<and> pRxTxBuff s = (UserBuf, x_at x))"
| "prog_at x Sent s = (BOTXferStatus s = USBH_MSC_BUSY \<and> BOTState s = USBH_MSC_SENT_CBW \<and> pRxTxBuff s = (UserBuf, x_at x))"
| "prog_at x (Data k) s = (BOTXferStatus s = USBH_MSC_BUSY \<and>
     BOTState s = (if x_in x then USBH_MSC_BOT_DATAIN_STATE else USBH_MSC_BOT_DATAOUT_STATE) \<and>
     (x_in x \<longrightarrow> (BOTStateBkp s = USBH_MSC_BOT_DATAIN_STATE) = (k \<noteq> 0)) \<and>
     k \<le> x_n x \<and> remainingDataLength s = of_nat (x_n x - k) \<and> (k < x_n x \<longrightarrow> datapointer s = (UserBuf, x_at x + k)))"
| "prog_at x Recv s = (BOTXferStatus s = USBH_MSC_BUSY \<and> BOTState s = USBH_MSC_RECEIVE_CSW_STATE)"
| "prog_at x Dec s = (BOTXferStatus s = USBH_MSC_BUSY \<and> BOTState s = USBH_MSC_DECODE_CSW)"
| "prog_at x Fin s = (BOTXferStatus s = (if x_status x = 0 then USBH_MSC_OK else USBH_MSC_FAIL) \<and> BOTState s = USBH_MSC_DECODE_CSW)"

fun stage_rank :: "xact \<Rightarrow> stage \<Rightarrow> nat" where
  "stage_rank x Send = x_n x + 5"
| "stage_rank x Sent = x_n x + 4"
| "stage_rank x (Data k) = x_n x - k + 3"
| "stage_rank x Recv = 2"
| "stage_rank x Dec = 1"
| "stage_rank x Fin = 0"

lemma channel_all: "(\<forall>c. P c) \<longleftrightarrow> P hc_num_in \<and> P hc_num_out"
  by (metis channel.exhaust)

lemma x_done_step:
  assumes "j < k" "k \<le> x_n x" "x_in x"
  shows "put_list (x_done x j) (x_at x + j) (take (k - j) (drop j (x_data x))) = x_done x k"
proof -
  have "take k (x_data x) = take j (x_data x) @ take (k - j) (drop j (x_data x))"
    using assms(1) by (metis le_add_diff_inverse less_imp_le take_add)
  then show ?thesis using assms by (simp add: x_done_def flip: put_list_append)
qed

lemma flight_simps:
  assumes "flight ch p n b"
  shows "\<not> quiet b" "chena (hc b c) = (c = ch)" "URB_State (hc b ch) = URB_IDLE" "xfer_buff (hc b ch) = p" "unat (xfer_len (hc b ch)) = n"
  using assms by (cases ch, auto simp: flight_def quiet_def)

lemma arrived_quiet: "arrived ch b \<Longrightarrow> quiet b"
  by (simp add: arrived_def)

lemma flight_out_step:
  assumes "flight hc_num_out p n b" "stick_out (take n (drop (snd p) (ram b (fst p)))) v = Some v'"
  shows "\<exists>b'. bus_step v b = Some (v', b') \<and> arrived hc_num_out b' \<and> ram b' = ram b \<and> ConnSts b' = ConnSts b"
  using assms(2) flight_simps [OF assms(1)]
  by (simp add: bus_step_def out_bytes_def out_done_def arrived_def quiet_def)

lemma flight_in_step:
  assumes "flight hc_num_in p n b" "stick_in n v = Some (bs, v')"
  shows "\<exists>b'. bus_step v b = Some (v', b') \<and> arrived hc_num_in b' \<and> ram b' = (ram b)(fst p := put_list (ram b (fst p)) (snd p) bs) \<and>
    ConnSts b' = ConnSts b \<and> XferCnt (hc b' hc_num_in) = of_nat (length bs)"
  using assms(2) flight_simps [OF assms(1)]
  by (simp add: bus_step_def in_done_def arrived_def quiet_def)

lemma csw_arrives:
  assumes "xact_ok x" "flight hc_num_in (CSWArray, 0) 63 b" "length (ram b CSWArray) = 13"
  shows "\<exists>v' b'. bus_step (x_traj x (x_n x)) b = Some (v', b') \<and> csw_in x v' b' \<and> ram b' UserBuf = ram b UserBuf \<and>
    ram b' CBWArray = ram b CBWArray \<and> length (ram b' CSWArray) = 13 \<and> ConnSts b' = ConnSts b"
proof -
  let ?c = "csw_bytes (field32 (x_cbw x) 4) (x_status x)"
  have len: "length ?c = 13" by (simp add: csw_bytes_def)
  have "stick_in 63 (x_traj x (x_n x)) = Some (?c, x_after x)"
    using assms(1) by (simp add: xact_ok_def stick_in_def x_after_def)
  from flight_in_step [OF assms(2) this] obtain b' where b': "bus_step (x_traj x (x_n x)) b = Some (x_after x, b')" "arrived hc_num_in b'"
      "ram b' = (ram b)(CSWArray := put_list (ram b CSWArray) 0 ?c)" "ConnSts b' = ConnSts b" "XferCnt (hc b' hc_num_in) = 13"
    using len by auto
  moreover have "put_list (ram b CSWArray) 0 ?c = ?c" using assms(3) len by (subst put_list_eq) simp_all
  ultimately show ?thesis using len by (simp add: csw_in_def)
qed

lemma data_moves:
  assumes "xact_ok x" "flight (x_chan x) (UserBuf, x_at x + j) (k - j) b" "j < k" "k \<le> x_n x" "ram b UserBuf = x_done x j"
  shows "\<exists>b'. bus_step (x_traj x j) b = Some (x_traj x k, b') \<and> arrived (x_chan x) b' \<and> ram b' UserBuf = x_done x k \<and>
    ram b' CBWArray = ram b CBWArray \<and> ram b' CSWArray = ram b CSWArray \<and> ConnSts b' = ConnSts b"
proof (cases "x_in x")
  case True
  then have "stick_in (k - j) (x_traj x j) = Some (take (k - j) (drop j (x_data x)), x_traj x k)" using assms(1,3,4) by (simp add: xact_ok_def)
  with True flight_in_step assms(2) show ?thesis using x_done_step [OF assms(3,4) True] assms(5) by (fastforce simp: x_chan_def)
next
  case False
  then have "stick_out (take (k - j) (drop (x_at x + j) (x_user x))) (x_traj x j) = Some (x_traj x k)"
    using assms(1,3,4) by (simp add: xact_ok_def)
  with False flight_out_step assms(2) show ?thesis using assms(5) by (fastforce simp: x_chan_def x_done_def)
qed

text \<open>A packet under way can be finished, and then the stage still holds.\<close>

lemma bus_step_moves:
  assumes x: "xact_ok x" and b: "bus_base x b" "bus_at x stg v b" "\<not> quiet b" and p: "prog_at x stg s"
  shows "\<exists>v' b'. bus_step v b = Some (v', b') \<and> bus_base x b' \<and> bus_at x stg v' b' \<and> quiet b'"
proof (cases stg)
  case Sent
  then have f: "flight hc_num_out (CBWArray, 0) 31 b" "v = x_before x" "ram b UserBuf = x_done x 0"
    using b(2,3) by (auto simp: arrived_def)
  have "stick_out (take 31 (drop 0 (ram b CBWArray))) v = Some (x_traj x 0)" using x b(1) f(2) by (simp add: xact_ok_def bus_base_def)
  with flight_out_step [OF f(1)] obtain b' where "bus_step v b = Some (x_traj x 0, b')" "arrived hc_num_out b'" "ram b' = ram b"
      "ConnSts b' = ConnSts b" by auto
  then show ?thesis using Sent b(1) f(3) by (auto simp: bus_base_def arrived_quiet)
next
  case (Data k)
  then obtain j where j: "j < k" "flight (x_chan x) (UserBuf, x_at x + j) (k - j) b" "v = x_traj x j" "ram b UserBuf = x_done x j"
    using b(2,3) by (auto simp: arrived_def)
  moreover have "k \<le> x_n x" using p Data by simp
  ultimately obtain b' where "bus_step v b = Some (x_traj x k, b')" "arrived (x_chan x) b'" "ram b' UserBuf = x_done x k"
      "ram b' CBWArray = ram b CBWArray" "ram b' CSWArray = ram b CSWArray" "ConnSts b' = ConnSts b"
    using data_moves [OF x j(2,1)] by blast
  then show ?thesis using Data b(1) by (auto simp: bus_base_def arrived_quiet)
next
  case Dec
  then have f: "flight hc_num_in (CSWArray, 0) 63 b" "v = x_traj x (x_n x)" "ram b UserBuf = x_done x (x_n x)"
    using b(2,3) by (auto simp: csw_in_def arrived_def)
  with csw_arrives [OF x f(1)] b(1) show ?thesis using Dec by (fastforce simp: bus_base_def csw_in_def arrived_quiet)
qed (use b in \<open>auto simp: csw_in_def arrived_def\<close>)

section \<open>Reading and writing sectors\<close>

definition filled_cbw :: "UNS8 list \<Rightarrow> UNS32 \<Rightarrow> UNS8 \<Rightarrow> UNS8 list \<Rightarrow> UNS8 list" where
  "filled_cbw c n flags cb =
     put_list (put_list (put_list (put_list c 8 (bytes32 n)) 12 [flags]) 14 [10]) 15 (cb @ replicate (16 - length cb) 0)"

lemma prepared_cbw [simp]:
  "cbw (prepare_cbw n flags 10 p cb s) = filled_cbw (cbw s) n flags cb"
  by (simp add: prepare_cbw_def put_cbw_def set_ram_def cbw_def filled_cbw_def)

lemma filled_cbw_fields:
  assumes "length c = 31" "length cb \<le> 16"
  shows "length (filled_cbw c n flags cb) = 31" "field32 (filled_cbw c n flags cb) 0 = field32 c 0"
    "field32 (filled_cbw c n flags cb) 4 = field32 c 4" "field32 (filled_cbw c n flags cb) 8 = n" "filled_cbw c n flags cb ! 12 = flags"
    "i < length cb \<Longrightarrow> filled_cbw c n flags cb ! (15 + i) = cb ! i"
  using assms by (simp_all add: filled_cbw_def field32_def nth_put_list nth_append bytes32_def)

definition read_xact :: "stick \<Rightarrow> otg \<Rightarrow> nat \<Rightarrow> UNS32 \<Rightarrow> UNS32 \<Rightarrow> xact" where
  "read_xact v b at sector n =
     (let data = take (unat n) (drop (512 * unat sector) (medium v));
          c = filled_cbw (ram b CBWArray) n 0x80 (rw10_block 0x28 sector n)
      in \<lparr>x_in = True, x_data = data, x_at = at, x_user = ram b UserBuf, x_cbw = c, x_before = v,
          x_traj = \<lambda>k. v\<lparr>phase := if length data \<le> k then Csw (field32 c 4) 0 else DataIn (field32 c 4) (drop k data)\<rparr>, x_status = 0\<rparr>)"

definition write_xact :: "stick \<Rightarrow> otg \<Rightarrow> nat \<Rightarrow> UNS32 \<Rightarrow> UNS32 \<Rightarrow> xact" where
  "write_xact v b at sector n =
     (let data = take (unat n) (drop at (ram b UserBuf));
          c = filled_cbw (ram b CBWArray) n 0 (rw10_block 0x2A sector n)
      in \<lparr>x_in = False, x_data = data, x_at = at, x_user = ram b UserBuf, x_cbw = c, x_before = v,
          x_traj = \<lambda>k. if k < length data then v\<lparr>phase := DataOut (field32 c 4) (512 * unat sector) (length data) (take k data)\<rparr>
             else if protected v then v\<lparr>phase := Csw (field32 c 4) 1\<rparr>
             else v\<lparr>medium := put_list (medium v) (512 * unat sector) data, phase := Csw (field32 c 4) 0\<rparr>,
          x_status = if protected v then 1 else 0\<rparr>)"

text \<open>The device understands the command block.\<close>

lemma rw10_parse:
  fixes sector n :: UNS32
  assumes c: "length c = 31" and k: "unat n = 512 * k" "k < 65536" and w: "w = filled_cbw c n flags (rw10_block opcode sector n)"
  shows "le32 (w ! 20) (w ! 19) (w ! 18) (w ! 17) = sector" "unat (le16 (w ! 23) (w ! 22)) = k" "w ! 15 = opcode"
proof -
  have len: "length (rw10_block opcode sector n) = 9" by (simp add: rw10_block_def Let_def)
  have at: "w ! (15 + i) = rw10_block opcode sector n ! i" if "i < 9" for i
    using filled_cbw_fields(6) [OF c, of "rw10_block opcode sector n" i] that len by (simp add: w)
  have b: "w ! 15 = rw10_block opcode sector n ! 0" "w ! 17 = rw10_block opcode sector n ! 2" "w ! 18 = rw10_block opcode sector n ! 3"
    "w ! 19 = rw10_block opcode sector n ! 4" "w ! 20 = rw10_block opcode sector n ! 5" "w ! 22 = rw10_block opcode sector n ! 7"
    "w ! 23 = rw10_block opcode sector n ! 8"
    using at [of 0] at [of 2] at [of 3] at [of 4] at [of 5] at [of 7] at [of 8] by simp_all
  have e: "rw10_block opcode sector n ! 0 = opcode" "rw10_block opcode sector n ! 2 = ucast (drop_bit 24 sector)"
    "rw10_block opcode sector n ! 3 = ucast (drop_bit 16 sector)" "rw10_block opcode sector n ! 4 = ucast (drop_bit 8 sector)"
    "rw10_block opcode sector n ! 5 = ucast sector" "rw10_block opcode sector n ! 7 = ucast (drop_bit 8 (ucast (n div 512) :: UNS16))"
    "rw10_block opcode sector n ! 8 = ucast (ucast (n div 512) :: UNS16)"
    by (simp_all add: rw10_block_def bytes32_def bytes16_def Let_def)
  show "le32 (w ! 20) (w ! 19) (w ! 18) (w ! 17) = sector" unfolding b e by (rule le32_bytes32)
  show "w ! 15 = opcode" unfolding b e ..
  have "unat (n div 512) = k" using k(1) by (simp add: unat_div)
  then have "unat (ucast (n div 512) :: UNS16) = k" using k(2) by (simp add: unsigned_ucast_eq take_bit_nat_eq_self)
  then show "unat (le16 (w ! 23) (w ! 22)) = k" unfolding b e le16_bytes16 .
qed

lemma stick_takes_command:
  fixes n :: UNS32
  assumes c: "length c = 31" "field32 c 0 = 0x43425355" and v: "phase v = Idle"
    and k: "unat n = 512 * k" "0 < k" "k < 65536" "512 * (unat sector + k) \<le> length (medium v)"
  shows "stick_out (filled_cbw c n 0x80 (rw10_block 0x28 sector n)) v =
      Some (v\<lparr>phase := DataIn (field32 c 4) (take (unat n) (drop (512 * unat sector) (medium v)))\<rparr>)"
    "stick_out (filled_cbw c n 0 (rw10_block 0x2A sector n)) v = Some (v\<lparr>phase := DataOut (field32 c 4) (512 * unat sector) (unat n) []\<rparr>)"
proof -
  have len: "length (rw10_block opcode sector n) \<le> 16" for opcode by (simp add: rw10_block_def Let_def)
  note f = filled_cbw_fields [OF c(1) len]
  note p = rw10_parse [OF c(1) k(1,3) refl]
  show "stick_out (filled_cbw c n 0x80 (rw10_block 0x28 sector n)) v =
      Some (v\<lparr>phase := DataIn (field32 c 4) (take (unat n) (drop (512 * unat sector) (medium v)))\<rparr>)"
    using v c k by (simp add: stick_out_def stick_command_def f p Let_def)
  show "stick_out (filled_cbw c n 0 (rw10_block 0x2A sector n)) v = Some (v\<lparr>phase := DataOut (field32 c 4) (512 * unat sector) (unat n) []\<rparr>)"
    using v c k by (simp add: stick_out_def stick_command_def f p Let_def)
qed

lemma stick_in_data:
  assumes "j < k" "k \<le> length data"
  shows "stick_in (k - j) (v\<lparr>phase := if length data \<le> j then Csw g 0 else DataIn g (drop j data)\<rparr>) =
    Some (take (k - j) (drop j data), v\<lparr>phase := if length data \<le> k then Csw g 0 else DataIn g (drop k data)\<rparr>)"
  using assms by (auto simp: stick_in_def)

lemma read_xact_ok:
  fixes n :: UNS32
  assumes c: "length (ram b CBWArray) = 31" "field32 (ram b CBWArray) 0 = 0x43425355" and v: "phase v = Idle"
    and k: "unat n = 512 * k" "0 < k" "k < 65536" "512 * (unat sector + k) \<le> length (medium v)"
  shows "xact_ok (read_xact v b at sector n)"
proof -
  have len: "length (rw10_block opcode sector n) \<le> 16" for opcode by (simp add: rw10_block_def Let_def)
  note f = filled_cbw_fields [OF c(1) len]
  define data where "data = take (unat n) (drop (512 * unat sector) (medium v))"
  have n: "length data = unat n" "data \<noteq> []" using k by (auto simp: data_def)
  have "unat n < 2 ^ 32" using unsigned_less [of n] by simp
  define tag where "tag = field32 (ram b CBWArray) 4"
  define w where "w = filled_cbw (ram b CBWArray) n 0x80 (rw10_block 0x28 sector n)"
  have w: "length w = 31" "field32 w 8 = n" "field32 w 4 = tag" "w ! 12 = 0x80" by (simp_all add: w_def f tag_def)
  have x: "read_xact v b at sector n = \<lparr>x_in = True, x_data = data, x_at = at, x_user = ram b UserBuf, x_cbw = w, x_before = v,
      x_traj = \<lambda>k. v\<lparr>phase := if length data \<le> k then Csw tag 0 else DataIn tag (drop k data)\<rparr>, x_status = 0\<rparr>"
    unfolding w(3) [symmetric] by (simp only: read_xact_def w_def data_def Let_def)
  have "stick_out w v = Some (v\<lparr>phase := DataIn tag data\<rparr>)"
    using stick_takes_command(1) [OF c v k] by (simp add: w_def data_def tag_def)
  then show ?thesis unfolding x using w n \<open>unat n < 2 ^ 32\<close>
  proof (intro xact_okI, goal_cases)
    case (9 j k)
    then show ?case using stick_in_data [of j k data] by (simp only: xact.simps if_True)
  qed auto
qed

lemma stick_out_data:
  assumes "j < k" "k \<le> length data" "take (length data) (drop a u) = data" "a + length data \<le> length u"
  shows "stick_out (take (k - j) (drop (a + j) u))
      (if j < length data then v\<lparr>phase := DataOut g p (length data) (take j data)\<rparr>
       else if protected v then v\<lparr>phase := Csw g 1\<rparr> else v\<lparr>medium := put_list (medium v) p data, phase := Csw g 0\<rparr>) =
    Some (if k < length data then v\<lparr>phase := DataOut g p (length data) (take k data)\<rparr>
       else if protected v then v\<lparr>phase := Csw g 1\<rparr> else v\<lparr>medium := put_list (medium v) p data, phase := Csw g 0\<rparr>)"
proof -
  have "take (k - j) (drop (a + j) u) = take (k - j) (drop j (take (length data) (drop a u)))"
    using assms(1,2) by (simp add: drop_take min_absorb1 add.commute)
  also have "\<dots> = take (k - j) (drop j data)" by (simp only: assms(3))
  finally have t: "take (k - j) (drop (a + j) u) = take (k - j) (drop j data)" .
  have "take j data @ take (k - j) (drop j data) = take k data"
    using assms(1) by (metis le_add_diff_inverse less_imp_le take_add)
  then show ?thesis using assms(1,2) by (auto simp: t stick_out_def)
qed

lemma write_xact_ok:
  fixes n :: UNS32
  assumes c: "length (ram b CBWArray) = 31" "field32 (ram b CBWArray) 0 = 0x43425355" and v: "phase v = Idle"
    and k: "unat n = 512 * k" "0 < k" "k < 65536" "512 * (unat sector + k) \<le> length (medium v)" and u: "at + unat n \<le> length (ram b UserBuf)"
  shows "xact_ok (write_xact v b at sector n)"
proof -
  have len: "length (rw10_block opcode sector n) \<le> 16" for opcode by (simp add: rw10_block_def Let_def)
  note f = filled_cbw_fields [OF c(1) len]
  define data where "data = take (unat n) (drop at (ram b UserBuf))"
  have n: "length data = unat n" "take (length data) (drop at (ram b UserBuf)) = data" using u by (simp_all add: data_def)
  have "unat n < 2 ^ 32" "data \<noteq> []" using unsigned_less [of n] n k by auto
  define tag where "tag = field32 (ram b CBWArray) 4"
  define w where "w = filled_cbw (ram b CBWArray) n 0 (rw10_block 0x2A sector n)"
  have w: "length w = 31" "field32 w 8 = n" "field32 w 4 = tag" "w ! 12 = 0" by (simp_all add: w_def f tag_def)
  have x: "write_xact v b at sector n = \<lparr>x_in = False, x_data = data, x_at = at, x_user = ram b UserBuf, x_cbw = w, x_before = v,
      x_traj = \<lambda>k. if k < length data then v\<lparr>phase := DataOut tag (512 * unat sector) (length data) (take k data)\<rparr>
        else if protected v then v\<lparr>phase := Csw tag 1\<rparr>
        else v\<lparr>medium := put_list (medium v) (512 * unat sector) data, phase := Csw tag 0\<rparr>,
      x_status = if protected v then 1 else 0\<rparr>"
    unfolding w(3) [symmetric] by (simp only: write_xact_def w_def data_def Let_def)
  have "stick_out w v = Some (v\<lparr>phase := DataOut tag (512 * unat sector) (length data) []\<rparr>)"
    using stick_takes_command(2) [OF c v k] n by (simp add: w_def tag_def)
  moreover have "at + length data \<le> length (ram b UserBuf)" using u n by simp
  ultimately show ?thesis unfolding x using w n \<open>unat n < 2 ^ 32\<close> \<open>data \<noteq> []\<close>
  proof (intro xact_okI, goal_cases)
    case (9 j k)
    then show ?case using stick_out_data [of j k data at "ram b UserBuf"] n(2) by (simp only: xact.simps if_False)
  qed auto
qed

text \<open>The arithmetic of the remaining length.\<close>

lemma rest_words:
  assumes "m < 2 ^ 32"
  shows "(ucast (e :: UNS16) < (of_nat m :: UNS32)) = (unat e < m)" "((of_nat m :: UNS32) = 0) = (m = 0)"
    "unat e \<le> m \<Longrightarrow> (of_nat m - ucast e :: UNS32) = of_nat (m - unat e)"
    "m \<le> unat e \<Longrightarrow> unat (ucast (ucast (of_nat m :: UNS32) :: UNS16) :: UNS32) = m"
proof -
  have m: "unat (of_nat m :: UNS32) = m" using assms by (simp add: unsigned_of_nat take_bit_nat_eq_self)
  show "(ucast e < (of_nat m :: UNS32)) = (unat e < m)" by (simp add: word_less_nat_alt m unat_ucast_16_32)
  show "((of_nat m :: UNS32) = 0) = (m = 0)"
  proof
    assume "(of_nat m :: UNS32) = 0"
    from arg_cong [OF this, of unat] show "m = 0" unfolding m by simp
  qed simp
  show "(of_nat m - ucast e :: UNS32) = of_nat (m - unat e)" if "unat e \<le> m"
  proof -
    have "(ucast e :: UNS32) = of_nat (unat e)" by simp
    then show ?thesis using that by (simp only: of_nat_diff)
  qed
  show "unat (ucast (ucast (of_nat m :: UNS32) :: UNS16) :: UNS32) = m" if "m \<le> unat e"
  proof -
    have "unat e < 2 ^ 16" using unsigned_less [of e] by simp
    with that have "m < 2 ^ 16" by simp
    then show ?thesis unfolding unat_ucast_16_32 by (simp add: unsigned_ucast_eq take_bit_nat_eq_self unsigned_of_nat)
  qed
qed

section \<open>The contract of controller and device\<close>

definition at_stage :: "('d \<Rightarrow> stick) \<Rightarrow> CMD_STATES \<Rightarrow> xact \<Rightarrow> stage \<Rightarrow> 'd usb \<Rightarrow> bool" where
  "at_stage view m x stg s \<longleftrightarrow> CmdStateMachine s = m \<and> prog_base s \<and> prog_at x stg s \<and> bus_base x (bus s) \<and>
     bus_at x stg (view (dev s)) (bus s)"

definition wait :: "('d \<Rightarrow> nat) \<Rightarrow> 'd usb \<Rightarrow> nat" where
  "wait delay s = (if quiet (bus s) then 0 else Suc (delay (dev s)))"

text \<open>The stage moves on, or the packet under way comes closer to its end.\<close>

definition advances :: "('d \<Rightarrow> stick) \<Rightarrow> ('d \<Rightarrow> nat) \<Rightarrow> CMD_STATES \<Rightarrow> xact \<Rightarrow> stage \<Rightarrow> 'd usb \<Rightarrow> 'd usb \<Rightarrow> bool" where
  "advances view delay m x stg s s' \<longleftrightarrow> (\<exists>stg'. at_stage view m x stg' s' \<and>
     (stage_rank x stg' < stage_rank x stg \<or> stg' = stg \<and> wait delay s' < wait delay s))"

lemma advancesI:
  "at_stage view m x stg' s' \<Longrightarrow> stage_rank x stg' < stage_rank x stg \<Longrightarrow> advances view delay m x stg s s'"
  "at_stage view m x stg s' \<Longrightarrow> wait delay s' < wait delay s \<Longrightarrow> advances view delay m x stg s s'"
  by (auto simp: advances_def)

text \<open>A device has been enumerated and no command is under way.\<close>

definition bus_ready :: "otg \<Rightarrow> bool" where
  "bus_ready b \<longleftrightarrow> ConnSts b \<and> quiet b \<and> length (ram b CBWArray) = 31 \<and> field32 (ram b CBWArray) 0 = 0x43425355 \<and>
     length (ram b CSWArray) = 13"

definition usb_ready :: "('d \<Rightarrow> stick) \<Rightarrow> 'd usb \<Rightarrow> bool" where
  "usb_ready view s \<longleftrightarrow> prog_base s \<and> CmdStateMachine s = CMD_SEND_STATE \<and> bus_ready (bus s) \<and> phase (view (dev s)) = Idle"

definition in_range :: "stick \<Rightarrow> UNS32 \<Rightarrow> UNS32 \<Rightarrow> bool" where
  "in_range v sector count \<longleftrightarrow> 0 < count \<and> count < 65536 \<and> 512 * (unat sector + unat count) \<le> length (medium v)"

definition sectors :: "stick \<Rightarrow> UNS32 \<Rightarrow> UNS32 \<Rightarrow> UNS8 list" where
  "sectors v sector count = take (512 * unat count) (drop (512 * unat sector) (medium v))"

lemma in_range_bytes:
  assumes "in_range v sector count"
  shows "unat (512 * count) = 512 * unat count" "0 < unat count" "unat count < 65536"
proof -
  show c: "0 < unat count" "unat count < 65536" using assms by (simp_all add: in_range_def word_less_nat_alt)
  then show "unat (512 * count) = 512 * unat count" by (simp add: unat_word_ariths(2))
qed

lemma rw10_length: "length (rw10_block opcode sector n) \<le> 16"
  by (simp add: rw10_block_def Let_def)

text \<open>A medium that is write protected: the transfer fails and is started again.\<close>

definition retrying :: "nat \<Rightarrow> UNS32 \<Rightarrow> UNS32 \<Rightarrow> stick \<Rightarrow> otg \<Rightarrow> bool" where
  "retrying at sector count v b \<longleftrightarrow> protected v \<and> phase v = Idle \<and> in_range v sector count \<and> length (ram b CBWArray) = 31 \<and>
     field32 (ram b CBWArray) 0 = 0x43425355 \<and> at + 512 * unat count \<le> length (ram b UserBuf)"

lemma retry_xact:
  assumes "retrying at sector count v b"
  shows "xact_ok (write_xact v b at sector (512 * count))" "x_status (write_xact v b at sector (512 * count)) = 1"
    "x_after (write_xact v b at sector (512 * count)) = v" "x_user (write_xact v b at sector (512 * count)) = ram b UserBuf"
    "\<not> x_in (write_xact v b at sector (512 * count))"
    "length (x_cbw (write_xact v b at sector (512 * count))) = 31" "field32 (x_cbw (write_xact v b at sector (512 * count))) 0 = 0x43425355"
proof -
  have r: "protected v" "phase v = Idle" "in_range v sector count" "length (ram b CBWArray) = 31" "field32 (ram b CBWArray) 0 = 0x43425355"
    "at + 512 * unat count \<le> length (ram b UserBuf)" using assms by (simp_all add: retrying_def)
  note n = in_range_bytes [OF r(3)]
  show "xact_ok (write_xact v b at sector (512 * count))"
    by (rule write_xact_ok [OF r(4,5,2) n]) (use r(3,6) n in \<open>simp_all add: in_range_def\<close>)
  show "x_status (write_xact v b at sector (512 * count)) = 1" "x_after (write_xact v b at sector (512 * count)) = v"
      "x_user (write_xact v b at sector (512 * count)) = ram b UserBuf" "\<not> x_in (write_xact v b at sector (512 * count))"
    using r(1,2,6) n by (simp_all add: write_xact_def x_after_def min_absorb2 Let_def)
  show "length (x_cbw (write_xact v b at sector (512 * count))) = 31" "field32 (x_cbw (write_xact v b at sector (512 * count))) 0 = 0x43425355"
    using filled_cbw_fields(1,2) [OF r(4) rw10_length] r(5) by (simp_all add: write_xact_def Let_def)
qed

definition retry_inv :: "('d \<Rightarrow> stick) \<Rightarrow> nat \<Rightarrow> UNS32 \<Rightarrow> UNS32 \<Rightarrow> 'd usb \<Rightarrow> bool" where
  "retry_inv view at sector count s \<longleftrightarrow> usb_ready view s \<and> retrying at sector count (view (dev s)) (bus s) \<or>
     (\<exists>v b stg. retrying at sector count v b \<and> at_stage view CMD_WAIT_STATUS (write_xact v b at sector (512 * count)) stg s)"

text \<open>What the loop relies on: a command waits while its transfer runs, and takes the result of a finished one. A failed transfer gives
  \<open>USBH_MSC_BUSY\<close>.\<close>

definition disk_cmd :: "'d env \<Rightarrow> ('d \<Rightarrow> stick) \<Rightarrow> ('d usb \<Rightarrow> USBH_MSC_Status \<times> 'd usb) \<Rightarrow> bool" where
  "disk_cmd env view cmd \<longleftrightarrow>
     (\<forall>s. ConnSts (bus (tick env s)) \<longrightarrow> CmdStateMachine (tick env s) = CMD_WAIT_STATUS \<longrightarrow> BOTXferStatus (tick env s) = USBH_MSC_BUSY \<longrightarrow>
        cmd s = (USBH_MSC_BUSY, tick env s)) \<and>
     (\<forall>x s. xact_ok x \<longrightarrow> at_stage view CMD_WAIT_STATUS x Fin s \<longrightarrow>
        (\<exists>s'. cmd s = (if x_status x = 0 then USBH_MSC_OK else USBH_MSC_BUSY, s') \<and> at_stage view CMD_SEND_STATE x Fin s'))"

lemma prog_at_env [simp]:
  "prog_base (s\<lparr>dev := d\<rparr>) = prog_base s" "prog_at x stg (s\<lparr>dev := d\<rparr>) = prog_at x stg s"
  "prog_base (s\<lparr>bus := b\<rparr>) = prog_base s" "prog_at x stg (s\<lparr>bus := b\<rparr>) = prog_at x stg s"
  by (simp add: prog_base_def, cases stg, simp_all, simp add: prog_base_def, cases stg, simp_all)

locale mass_storage =
  fixes env :: "'d env" and view :: "'d \<Rightarrow> stick" and delay :: "'d \<Rightarrow> nat"
  assumes env_quiet: "quiet b \<Longrightarrow> env d b = (d', b') \<Longrightarrow> b' = b \<and> view d' = view d"
    and env_busy: "bus_step (view d) b = Some (v, b1) \<Longrightarrow> env d b = (d', b') \<Longrightarrow>
      view d' = v \<and> b' = b1 \<or> view d' = view d \<and> b' = b \<and> delay d' < delay d"
begin

text \<open>A stage is stable under the environment, which makes progress.\<close>

lemma tick_stage:
  assumes "xact_ok x" "at_stage view m x stg s"
  shows "at_stage view m x stg (tick env s) \<and> (wait delay (tick env s) < wait delay s \<or> quiet (bus s) \<and> quiet (bus (tick env s)))"
proof -
  obtain d b where e: "env (dev s) (bus s) = (d, b)" by force
  then have t: "tick env s = s\<lparr>dev := d, bus := b\<rparr>" by (simp add: tick_def)
  show ?thesis
  proof (cases "quiet (bus s)")
    case True
    with env_quiet [OF True e] assms(2) show ?thesis by (simp add: t at_stage_def)
  next
    case False
    then obtain v' b' where "bus_step (view (dev s)) (bus s) = Some (v', b')" "bus_base x b'" "bus_at x stg v' b'" "quiet b'"
      using bus_step_moves [OF assms(1), of "bus s"] assms(2) unfolding at_stage_def by metis
    with env_busy [OF this(1) e] assms(2) False show ?thesis by (auto simp: t at_stage_def wait_def)
  qed
qed

text \<open>The handlers of the states, from stage to stage.\<close>

lemma stage_connected: "at_stage view m x stg s \<Longrightarrow> ConnSts (bus s)"
  by (simp add: at_stage_def bus_base_def)

lemma send_step:
  assumes "at_stage view m x Send s"
  shows "advances view delay m x Send s (bot_send_cbw s)"
  by (rule advancesI(1) [of _ _ _ Sent])
    (use assms in \<open>auto simp: at_stage_def bot_send_cbw_def USBH_BulkSendData_def HCD_SubmitRequest_def upd_hc_def flight_def quiet_def
       bus_base_def prog_base_def channel_all\<close>)

lemma recv_step:
  assumes "at_stage view m x Recv s"
  shows "advances view delay m x Recv s (bot_receive_csw s)"
  by (rule advancesI(1) [of _ _ _ Dec])
    (use assms in \<open>auto simp: at_stage_def bot_receive_csw_def USBH_BulkReceiveData_def HCD_SubmitRequest_def upd_hc_def set_ram_def
       flight_def quiet_def bus_base_def prog_base_def channel_all\<close>)

text \<open>A read of the state of a request: the stage still holds, and a request that is not done comes closer to its end.\<close>

lemma urb_read:
  assumes "xact_ok x" "at_stage view m x stg s"
  obtains t where "\<forall>ch. HCD_GetURB_State env ch s = (URB_State (hc (bus t) ch), t)" "at_stage view m x stg t"
    "wait delay t < wait delay s \<or> quiet (bus t)"
proof (rule that [of "tick env s"])
  show "\<forall>ch. HCD_GetURB_State env ch s = (URB_State (hc (bus (tick env s)) ch), tick env s)"
    by (simp add: HCD_GetURB_State_def Let_def)
qed (use tick_stage [OF assms] in auto)

lemma sent_step:
  assumes x: "xact_ok x" and s: "at_stage view m x Sent s"
  shows "advances view delay m x Sent s (bot_sent_cbw env s)"
proof -
  obtain t where t: "\<forall>ch. HCD_GetURB_State env ch s = (URB_State (hc (bus t) ch), t)" "at_stage view m x Sent t"
    "wait delay t < wait delay s \<or> quiet (bus t)" by (rule urb_read [OF x s])
  show ?thesis
  proof (cases "quiet (bus t)")
    case True
    then have a: "arrived hc_num_out (bus t)" "view (dev t) = x_traj x 0" using t(2) by (auto simp: at_stage_def flight_simps)
    have "unat (of_nat (x_n x) :: UNS32) = x_n x" using x by (simp add: xact_ok_def unsigned_of_nat take_bit_nat_eq_self)
    then have n: "field32 (x_cbw x) 8 = of_nat (x_n x)" "(of_nat (x_n x) :: UNS32) \<noteq> 0" "(x_cbw x ! 12 AND 0x80 = 0x80) = x_in x"
      using x by (auto simp: xact_ok_def)
    have "at_stage view m x (Data 0) (bot_sent_cbw env s)"
      using a t(1,2) n by (simp add: bot_sent_cbw_def arrived_def at_stage_def bus_base_def prog_base_def x_chan_def cbw_def Let_def)
    then show ?thesis by (rule advancesI(1)) simp
  next
    case False
    then have "URB_State (hc (bus t) hc_num_out) = URB_IDLE" using t(2) by (auto simp: at_stage_def flight_def arrived_def)
    then show ?thesis using t False by (simp add: bot_sent_cbw_def advancesI(2))
  qed
qed

text \<open>The data stages. When the packet under way has arrived the next one is issued, at most as long as the endpoint allows.\<close>

lemma data_in_step:
  assumes x: "xact_ok x" and s: "at_stage view m x (Data k) s" and dir: "x_in x"
  shows "advances view delay m x (Data k) s (bot_data_in env s)"
proof -
  obtain t where t: "\<forall>ch. HCD_GetURB_State env ch s = (URB_State (hc (bus t) ch), t)" "at_stage view m x (Data k) t"
    "wait delay t < wait delay s \<or> quiet (bus t)" by (rule urb_read [OF x s])
  have k: "k \<le> x_n x" "x_n x - k < 2 ^ 32" and e: "0 < unat (MSBulkInEpSize t)"
    using t(2) x by (auto simp: at_stage_def xact_ok_def prog_base_def word_less_nat_alt)
  note w = rest_words(1,3,4) [OF k(2), where e = "MSBulkInEpSize t"] rest_words(2) [OF k(2)]
  show ?thesis
  proof (cases "quiet (bus t)")
    case True
    then have a: "view (dev t) = x_traj x k" "ram (bus t) UserBuf = x_done x k"
      "URB_State (hc (bus t) hc_num_in) = URB_DONE \<or> BOTStateBkp t \<noteq> USBH_MSC_BOT_DATAIN_STATE"
      using t(2) dir by (auto simp: at_stage_def flight_simps arrived_def x_chan_def)
    note d = bot_data_in_def at_stage_def prog_base_def bus_base_def USBH_BulkReceiveData_def HCD_SubmitRequest_def upd_hc_def
      flight_def channel_all x_chan_def Let_def
    consider "unat (MSBulkInEpSize t) < x_n x - k" | "k = x_n x" | "k < x_n x" "x_n x - k \<le> unat (MSBulkInEpSize t)" using k by linarith
    then show ?thesis
    proof cases
      case 1
      then have "at_stage view m x (Data (k + unat (MSBulkInEpSize t))) (bot_data_in env s)"
        using a t(1,2) dir True w e by (auto simp: d quiet_def unat_ucast_16_32)
      then show ?thesis by (rule advancesI(1)) (use 1 e in simp)
    next
      case 2
      then have "at_stage view m x Recv (bot_data_in env s)" using a t(1,2) dir True w e by (auto simp: d)
      then show ?thesis by (rule advancesI(1)) simp
    next
      case 3
      then have "at_stage view m x (Data (x_n x)) (bot_data_in env s)"
        using a t(1,2) dir True w e by (auto simp: d quiet_def)
      then show ?thesis by (rule advancesI(1)) (use 3 in simp)
    qed
  next
    case False
    then have "URB_State (hc (bus t) hc_num_in) = URB_IDLE" "BOTStateBkp t = USBH_MSC_BOT_DATAIN_STATE"
      using t(2) dir by (auto simp: at_stage_def flight_simps arrived_def x_chan_def)
    then show ?thesis using t False by (simp add: bot_data_in_def advancesI(2))
  qed
qed

lemma data_out_step:
  assumes x: "xact_ok x" and s: "at_stage view m x (Data k) s" and dir: "\<not> x_in x"
  shows "advances view delay m x (Data k) s (bot_data_out env s)"
proof -
  obtain t where t: "\<forall>ch. HCD_GetURB_State env ch s = (URB_State (hc (bus t) ch), t)" "at_stage view m x (Data k) t"
    "wait delay t < wait delay s \<or> quiet (bus t)" by (rule urb_read [OF x s])
  have k: "k \<le> x_n x" "x_n x - k < 2 ^ 32" and e: "0 < unat (MSBulkOutEpSize t)"
    using t(2) x by (auto simp: at_stage_def xact_ok_def prog_base_def word_less_nat_alt)
  note w = rest_words(1,3,4) [OF k(2), where e = "MSBulkOutEpSize t"] rest_words(2) [OF k(2)]
  show ?thesis
  proof (cases "quiet (bus t)")
    case True
    then have a: "view (dev t) = x_traj x k" "ram (bus t) UserBuf = x_done x k" "URB_State (hc (bus t) hc_num_out) = URB_DONE"
      using t(2) dir by (auto simp: at_stage_def flight_simps arrived_def x_chan_def)
    note d = bot_data_out_def at_stage_def prog_base_def bus_base_def USBH_BulkSendData_def HCD_SubmitRequest_def upd_hc_def
      flight_def channel_all x_chan_def Let_def
    consider "unat (MSBulkOutEpSize t) < x_n x - k" | "k = x_n x" | "k < x_n x" "x_n x - k \<le> unat (MSBulkOutEpSize t)" using k by linarith
    then show ?thesis
    proof cases
      case 1
      then have "at_stage view m x (Data (k + unat (MSBulkOutEpSize t))) (bot_data_out env s)"
        using a t(1,2) dir True w e by (auto simp: d quiet_def unat_ucast_16_32)
      then show ?thesis by (rule advancesI(1)) (use 1 e in simp)
    next
      case 2
      then have "at_stage view m x Recv (bot_data_out env s)" using a t(1,2) dir True w e by (auto simp: d)
      then show ?thesis by (rule advancesI(1)) simp
    next
      case 3
      then have "at_stage view m x (Data (x_n x)) (bot_data_out env s)"
        using a t(1,2) dir True w e by (auto simp: d quiet_def)
      then show ?thesis by (rule advancesI(1)) (use 3 in simp)
    qed
  next
    case False
    then have "URB_State (hc (bus t) hc_num_out) = URB_IDLE"
      using t(2) dir by (auto simp: at_stage_def flight_simps arrived_def x_chan_def)
    then show ?thesis using t False by (simp add: bot_data_out_def advancesI(2))
  qed
qed

text \<open>The status wrapper is decoded.\<close>

lemma tick_quiet:
  assumes "quiet (bus s)"
  shows "bus (tick env s) = bus s \<and> view (dev (tick env s)) = view (dev s) \<and> (\<exists>d. tick env s = s\<lparr>dev := d\<rparr>)"
proof -
  obtain d b where e: "env (dev s) (bus s) = (d, b)" by force
  with env_quiet [OF assms e] show ?thesis by (auto simp: tick_def)
qed

lemma csw_status_decoded:
  assumes "u = 0 \<or> u = 1"
  shows "csw_status 13 (csw_bytes (field32 c 4) u) c = (if u = 0 then USBH_MSC_OK else USBH_MSC_FAIL)"
proof -
  have csw: "field32 (csw_bytes g u) 0 = 0x53425355" "field32 (csw_bytes g u) 4 = g" "csw_bytes g u ! 12 = u" for g
    unfolding csw_bytes_def using field32_at [of "[]" 0 "0x53425355"] field32_at [of "bytes32 0x53425355" 4 g "bytes32 0 @ [u]"]
    by (simp_all only: append_Nil append_assoc length_bytes32 list.size) (simp add: nth_append)
  show ?thesis using assms by (auto simp: csw_status_def csw)
qed

lemma decode_result:
  assumes x: "xact_ok x" and s: "bus_base x (bus s)" "csw_in x (view (dev s)) (bus s)"
  defines "r \<equiv> if x_status x = 0 then USBH_MSC_OK else USBH_MSC_FAIL"
  shows "\<exists>d. view d = view (dev s) \<and> USBH_MSC_DecodeCSW env s = (r, s\<lparr>dev := d, BOTXferStatus := r\<rparr>)"
proof -
  define t where "t = tick env (tick env s)"
  have q: "quiet (bus s)" using s(2) by (simp add: csw_in_def arrived_def)
  obtain d where t: "t = s\<lparr>dev := d\<rparr>" "bus (tick env s) = bus s" "view d = view (dev s)"
    using tick_quiet [OF q] tick_quiet [of "tick env s"] q by (auto simp: t_def)
  have "x_status x = 0 \<or> x_status x = 1" using x by (simp add: xact_ok_def)
  note c = csw_status_decoded [OF this]
  have "USBH_MSC_DecodeCSW env s = (r, t\<lparr>BOTXferStatus := r\<rparr>)"
    using s t(2) unfolding USBH_MSC_DecodeCSW_def HCD_IsDeviceConnected_def HCD_GetXferCnt_def
    by (simp add: t_def [symmetric] t(1) bus_base_def csw_in_def cbw_def c r_def Let_def)
  with t(1,3) show ?thesis by auto
qed

lemma dec_step:
  assumes x: "xact_ok x" and s: "at_stage view m x stg s" "stg = Dec \<or> stg = Fin"
  shows "at_stage view m x Fin (bot_decode_csw env s) \<or>
    stg = Dec \<and> at_stage view m x Dec (bot_decode_csw env s) \<and> wait delay (bot_decode_csw env s) < wait delay s"
proof -
  obtain t where t: "\<forall>ch. HCD_GetURB_State env ch s = (URB_State (hc (bus t) ch), t)" "at_stage view m x stg t"
    "wait delay t < wait delay s \<or> quiet (bus t)" by (rule urb_read [OF x s(1)])
  show ?thesis
  proof (cases "quiet (bus t)")
    case True
    then have a: "csw_in x (view (dev t)) (bus t)" "ram (bus t) UserBuf = x_done x (x_n x)" "bus_base x (bus t)"
      using t(2) s(2) by (auto simp: at_stage_def flight_simps)
    define t1 where "t1 = t\<lparr>BOTStallErrorCount := 0, BOTStateBkp := USBH_MSC_RECEIVE_CSW_STATE, MSCState := MSCStateCurrent t\<rparr>"
    have "csw_in x (view (dev t1)) (bus t1)" "bus_base x (bus t1)" using a by (simp_all add: t1_def)
    from decode_result [OF x this(2,1)] obtain d where d: "view d = view (dev t1)"
      "USBH_MSC_DecodeCSW env t1 = (if x_status x = 0 then USBH_MSC_OK else USBH_MSC_FAIL,
         t1\<lparr>dev := d, BOTXferStatus := if x_status x = 0 then USBH_MSC_OK else USBH_MSC_FAIL\<rparr>)" by auto
    have "URB_State (hc (bus t) hc_num_in) = URB_DONE" using a by (simp add: csw_in_def arrived_def)
    then have "bot_decode_csw env s = t1\<lparr>dev := d, BOTXferStatus := if x_status x = 0 then USBH_MSC_OK else USBH_MSC_FAIL\<rparr>"
      using t(1) d(2) by (simp add: bot_decode_csw_def Let_def t1_def)
    then show ?thesis using a t(2) d(1) s(2) by (auto simp: at_stage_def t1_def prog_base_def)
  next
    case False
    then have "URB_State (hc (bus t) hc_num_in) = URB_IDLE" "stg = Dec"
      using t(2) s(2) by (auto simp: at_stage_def flight_simps csw_in_def arrived_def)
    then show ?thesis using t False by (simp add: bot_decode_csw_def)
  qed
qed

text \<open>One call of the transport machine.\<close>

lemma wait_tick: "xact_ok x \<Longrightarrow> at_stage view m x stg s \<Longrightarrow> wait delay (tick env s) \<le> wait delay s"
  using tick_stage [of x m stg s] by (auto simp: wait_def)

lemma handle_step:
  assumes x: "xact_ok x" and s: "at_stage view m x stg s" and "stg \<noteq> Fin"
  shows "advances view delay m x stg s (USBH_MSC_HandleBOTXfer env s)"
proof -
  define t where "t = tick env s"
  have t: "at_stage view m x stg t" "wait delay t \<le> wait delay s" using tick_stage [OF x s] wait_tick [OF x s] by (auto simp: t_def)
  have mono: "advances view delay m x stg t u \<Longrightarrow> advances view delay m x stg s u" for u using t(2) by (auto simp: advances_def)
  have c: "HCD_IsDeviceConnected env s = (True, t)"
    using stage_connected [OF t(1)] by (simp add: HCD_IsDeviceConnected_def t_def [symmetric])
  have "advances view delay m x stg t (USBH_MSC_HandleBOTXfer env s)"
  proof (cases stg)
    case (Data k)
    then show ?thesis using t(1) c data_in_step [OF x, of m k t] data_out_step [OF x, of m k t]
      by (cases "x_in x") (auto simp: USBH_MSC_HandleBOTXfer_def at_stage_def)
  next
    case Dec
    then show ?thesis using t(1) c dec_step [OF x, of m Dec t]
      by (auto simp: USBH_MSC_HandleBOTXfer_def at_stage_def [of _ _ _ Dec] intro: advancesI)
  qed (use t(1) c send_step [of m x t] sent_step [OF x, of m t] recv_step [of m x t] assms(3) in
      \<open>auto simp: USBH_MSC_HandleBOTXfer_def at_stage_def\<close>)
  then show ?thesis by (rule mono)
qed

lemma tick_at: "xact_ok x \<Longrightarrow> at_stage view m x stg s \<Longrightarrow> at_stage view m x stg (tick env s)"
  using tick_stage [of x m stg s] by simp

lemma fin_result:
  assumes "at_stage view m x Fin s"
  shows "\<exists>s'. cmd_result USBH_MSC_BUSY (\<lambda>s. s) s = (if x_status x = 0 then USBH_MSC_OK else USBH_MSC_BUSY, s') \<and>
    at_stage view CMD_SEND_STATE x Fin s'"
  using assms by (auto simp: cmd_result_def at_stage_def prog_base_def)

lemma disk_cmd_read: "disk_cmd env view (USBH_MSC_Read10 env p a n)"
  unfolding disk_cmd_def
proof (intro conjI allI impI)
  fix s assume "ConnSts (bus (tick env s))" "CmdStateMachine (tick env s) = CMD_WAIT_STATUS" "BOTXferStatus (tick env s) = USBH_MSC_BUSY"
  then show "USBH_MSC_Read10 env p a n s = (USBH_MSC_BUSY, tick env s)"
    by (simp add: USBH_MSC_Read10_def HCD_IsDeviceConnected_def cmd_result_def Let_def)
next
  fix x s assume x: "xact_ok x" and s: "at_stage view CMD_WAIT_STATUS x Fin s"
  note t = tick_at [OF x s] tick_at [OF x tick_at [OF x s]]
  then have "USBH_MSC_Read10 env p a n s = cmd_result USBH_MSC_BUSY (\<lambda>s. s) (tick env (tick env s))"
    by (auto simp: USBH_MSC_Read10_def HCD_IsDeviceConnected_def Let_def at_stage_def bus_base_def)
  with fin_result [OF t(2)] show "\<exists>s'. USBH_MSC_Read10 env p a n s = (if x_status x = 0 then USBH_MSC_OK else USBH_MSC_BUSY, s') \<and>
      at_stage view CMD_SEND_STATE x Fin s'" by simp
qed

lemma disk_cmd_write: "disk_cmd env view (USBH_MSC_Write10 env p a n)"
  unfolding disk_cmd_def
proof (intro conjI allI impI)
  fix s assume "ConnSts (bus (tick env s))" "CmdStateMachine (tick env s) = CMD_WAIT_STATUS" "BOTXferStatus (tick env s) = USBH_MSC_BUSY"
  then show "USBH_MSC_Write10 env p a n s = (USBH_MSC_BUSY, tick env s)"
    by (simp add: USBH_MSC_Write10_def HCD_IsDeviceConnected_def cmd_result_def Let_def)
next
  fix x s assume x: "xact_ok x" and s: "at_stage view CMD_WAIT_STATUS x Fin s"
  note t = tick_at [OF x s]
  then have "USBH_MSC_Write10 env p a n s = cmd_result USBH_MSC_BUSY (\<lambda>s. s) (tick env s)"
    by (auto simp: USBH_MSC_Write10_def HCD_IsDeviceConnected_def Let_def at_stage_def bus_base_def)
  with fin_result [OF t] show "\<exists>s'. USBH_MSC_Write10 env p a n s = (if x_status x = 0 then USBH_MSC_OK else USBH_MSC_BUSY, s') \<and>
      at_stage view CMD_SEND_STATE x Fin s'" by simp
qed

text \<open>The loop of the disk functions runs the transfer to its end.\<close>

lemma loop_body:
  assumes x: "xact_ok x" and t: "cmd s = (r, t)" and h: "at_stage view m x stg (USBH_MSC_HandleBOTXfer env t)"
  shows "disk_loop env cmd s = (if r = USBH_MSC_BUSY then disk_loop env cmd (tick env (USBH_MSC_HandleBOTXfer env t))
    else Some (r, tick env (USBH_MSC_HandleBOTXfer env t)))"
  using stage_connected [OF tick_at [OF x h]] t
  by (subst disk_loop.simps) (simp add: USB_disk_status_def HCD_IsDeviceConnected_def Let_def)

lemma loop_step:
  assumes x: "xact_ok x" and c: "disk_cmd env view cmd" and s: "at_stage view CMD_WAIT_STATUS x stg s" and "stg \<noteq> Fin"
  shows "\<exists>s'. disk_loop env cmd s = disk_loop env cmd s' \<and> advances view delay CMD_WAIT_STATUS x stg s s'"
proof -
  note t = tick_at [OF x s] wait_tick [OF x s]
  have "BOTXferStatus (tick env s) = USBH_MSC_BUSY" using t(1) assms(4) by (cases stg) (auto simp: at_stage_def)
  then have cmd: "cmd s = (USBH_MSC_BUSY, tick env s)" using c t(1) unfolding disk_cmd_def by (auto simp: at_stage_def bus_base_def)
  obtain stg' where h: "at_stage view CMD_WAIT_STATUS x stg' (USBH_MSC_HandleBOTXfer env (tick env s))"
    "stage_rank x stg' < stage_rank x stg \<or> stg' = stg \<and> wait delay (USBH_MSC_HandleBOTXfer env (tick env s)) < wait delay (tick env s)"
    using handle_step [OF x t(1) assms(4)] by (auto simp: advances_def)
  have "disk_loop env cmd s = disk_loop env cmd (tick env (USBH_MSC_HandleBOTXfer env (tick env s)))"
    using loop_body [where cmd = cmd and s = s, OF x cmd h(1)] by simp
  moreover have "advances view delay CMD_WAIT_STATUS x stg s (tick env (USBH_MSC_HandleBOTXfer env (tick env s)))"
    using tick_at [OF x h(1)] wait_tick [OF x h(1)] h(2) t(2) unfolding advances_def by (intro exI [of _ stg']) auto
  ultimately show ?thesis by blast
qed

lemma loop_finishes:
  assumes x: "xact_ok x" and c: "disk_cmd env view cmd"
  shows "at_stage view CMD_WAIT_STATUS x stg s \<Longrightarrow> \<exists>s'. disk_loop env cmd s = disk_loop env cmd s' \<and> at_stage view CMD_WAIT_STATUS x Fin s'"
proof (induction "(stage_rank x stg, wait delay s)" arbitrary: stg s rule: wf_induct_rule [OF wf_lex_prod [OF wf_less_than wf_less_than]])
  case less: (1 stg s)
  show ?case
  proof (cases "stg = Fin")
    case False
    then obtain s' where s': "disk_loop env cmd s = disk_loop env cmd s'" "advances view delay CMD_WAIT_STATUS x stg s s'"
      using loop_step [OF x c less.prems] by blast
    then show ?thesis using less.hyps by (auto simp: advances_def)
  qed (use less.prems in blast)
qed

lemma loop_fin:
  assumes x: "xact_ok x" and c: "disk_cmd env view cmd" and s: "at_stage view CMD_WAIT_STATUS x Fin s"
  shows "\<exists>s'. disk_loop env cmd s = (if x_status x = 0 then Some (USBH_MSC_OK, s') else disk_loop env cmd s') \<and>
    at_stage view CMD_SEND_STATE x Fin s'"
proof -
  obtain t where t: "cmd s = (if x_status x = 0 then USBH_MSC_OK else USBH_MSC_BUSY, t)" "at_stage view CMD_SEND_STATE x Fin t"
    using c x s unfolding disk_cmd_def by blast
  note u = tick_at [OF x t(2)]
  have "USBH_MSC_HandleBOTXfer env t = bot_decode_csw env (tick env t)"
    using u by (simp add: USBH_MSC_HandleBOTXfer_def HCD_IsDeviceConnected_def Let_def at_stage_def bus_base_def)
  with dec_step [OF x u] have h: "at_stage view CMD_SEND_STATE x Fin (USBH_MSC_HandleBOTXfer env t)" by simp
  from loop_body [where cmd = cmd and s = s, OF x t(1) h] tick_at [OF x h] show ?thesis by auto
qed

text \<open>A command from the beginning to the end.\<close>

lemma ready_tick:
  assumes "usb_ready view s"
  shows "usb_ready view (tick env s)" "bus (tick env s) = bus s" "view (dev (tick env s)) = view (dev s)"
    "USB_Manage_State (tick env s) = USB_Manage_State s"
proof -
  have "quiet (bus s)" using assms by (simp add: usb_ready_def bus_ready_def)
  with tick_quiet [of s] assms show "usb_ready view (tick env s)" "bus (tick env s) = bus s" "view (dev (tick env s)) = view (dev s)"
      "USB_Manage_State (tick env s) = USB_Manage_State s"
    by (auto simp: usb_ready_def)
qed

lemma prepared_stage:
  assumes "usb_ready view s" "x_cbw x = filled_cbw (ram (bus s) CBWArray) n flags cb" "x_before x = view (dev s)" "x_user x = ram (bus s) UserBuf"
    "length cb \<le> 16"
  shows "at_stage view CMD_WAIT_STATUS x Send (start_cmd (prepare_cbw n flags 10 (UserBuf, x_at x) cb s))"
  using assms prepared_cbw [of n flags _ cb s] filled_cbw_fields(1) [of "cbw s" cb n flags]
  by (simp add: at_stage_def start_cmd_def usb_ready_def bus_ready_def bus_base_def prog_base_def prepare_cbw_def put_cbw_def set_ram_def
      cbw_def quiet_def x_done_def)

lemma start_read:
  assumes "usb_ready view s"
  shows "\<exists>t. USBH_MSC_Read10 env (UserBuf, at) sector n s = (USBH_MSC_BUSY, t) \<and>
    at_stage view CMD_WAIT_STATUS (read_xact (view (dev s)) (bus s) at sector n) Send t"
proof -
  note r = ready_tick [OF assms]
  have "USBH_MSC_Read10 env (UserBuf, at) sector n s =
      (USBH_MSC_BUSY, start_cmd (prepare_cbw n 0x80 10 (UserBuf, at) (rw10_block 0x28 sector n) (tick env s)))"
    using r(1) by (simp add: USBH_MSC_Read10_def HCD_IsDeviceConnected_def usb_ready_def bus_ready_def Let_def)
  moreover have "at_stage view CMD_WAIT_STATUS (read_xact (view (dev s)) (bus s) at sector n) Send
      (start_cmd (prepare_cbw n 0x80 10 (UserBuf, x_at (read_xact (view (dev s)) (bus s) at sector n)) (rw10_block 0x28 sector n) (tick env s)))"
    by (rule prepared_stage [OF r(1)]) (simp_all add: read_xact_def r(2,3) rw10_block_def Let_def)
  ultimately show ?thesis by (simp add: read_xact_def Let_def)
qed

lemma start_write:
  assumes "usb_ready view s"
  shows "\<exists>t. USBH_MSC_Write10 env (UserBuf, at) sector n s = (USBH_MSC_BUSY, t) \<and>
    at_stage view CMD_WAIT_STATUS (write_xact (view (dev s)) (bus s) at sector n) Send t"
proof -
  note r = ready_tick [OF assms]
  have "USBH_MSC_Write10 env (UserBuf, at) sector n s =
      (USBH_MSC_BUSY, start_cmd (prepare_cbw n 0 10 (UserBuf, at) (rw10_block 0x2A sector n) (tick env s)))"
    using r(1) by (simp add: USBH_MSC_Write10_def HCD_IsDeviceConnected_def usb_ready_def bus_ready_def Let_def)
  moreover have "at_stage view CMD_WAIT_STATUS (write_xact (view (dev s)) (bus s) at sector n) Send
      (start_cmd (prepare_cbw n 0 10 (UserBuf, x_at (write_xact (view (dev s)) (bus s) at sector n)) (rw10_block 0x2A sector n) (tick env s)))"
    by (rule prepared_stage [OF r(1)]) (simp_all add: write_xact_def r(2,3) rw10_block_def Let_def)
  ultimately show ?thesis by (simp add: write_xact_def Let_def)
qed

lemma loop_runs:
  assumes x: "xact_ok x" "x_status x = 0" and c: "disk_cmd env view cmd" and t: "cmd s = (USBH_MSC_BUSY, t)" "at_stage view CMD_WAIT_STATUS x Send t"
  shows "\<exists>s'. disk_loop env cmd s = Some (USBH_MSC_OK, s') \<and> at_stage view CMD_SEND_STATE x Fin s'"
proof -
  obtain stg where h: "at_stage view CMD_WAIT_STATUS x stg (USBH_MSC_HandleBOTXfer env t)"
    using handle_step [OF x(1) t(2)] by (auto simp: advances_def)
  have l: "disk_loop env cmd s = disk_loop env cmd (tick env (USBH_MSC_HandleBOTXfer env t))"
    using loop_body [where cmd = cmd and s = s, OF x(1) t(1) h] by simp
  obtain u where u: "disk_loop env cmd (tick env (USBH_MSC_HandleBOTXfer env t)) = disk_loop env cmd u" "at_stage view CMD_WAIT_STATUS x Fin u"
    using loop_finishes [OF x(1) c tick_at [OF x(1) h]] by blast
  from loop_fin [OF x(1) c u(2)] x(2) show ?thesis unfolding l u(1) by auto
qed

lemma fin_ready:
  assumes "at_stage view CMD_SEND_STATE x Fin s" "length (x_cbw x) = 31" "field32 (x_cbw x) 0 = 0x43425355"
  shows "usb_ready view s" "view (dev s) = x_after x" "ram (bus s) UserBuf = x_done x (x_n x)"
  using assms by (auto simp: at_stage_def usb_ready_def bus_ready_def bus_base_def csw_in_def arrived_def x_after_def)

lemma read_returns:
  assumes s: "usb_ready view s" and r: "in_range (view (dev s)) sector count"
  shows "\<exists>s'. USB_disk_read env (UserBuf, at) sector count s = Some (USBH_MSC_OK, s') \<and> usb_ready view s' \<and> view (dev s') = view (dev s) \<and>
    ram (bus s') UserBuf = put_list (ram (bus s) UserBuf) at (sectors (view (dev s)) sector count)"
proof -
  let ?n = "512 * count" and ?v = "view (dev s)" and ?t = "tick env s"
  note t = ready_tick [OF s]
  let ?x = "read_xact ?v (bus s) at sector ?n"
  have b: "length (ram (bus s) CBWArray) = 31" "field32 (ram (bus s) CBWArray) 0 = 0x43425355" "phase ?v = Idle"
    using s by (simp_all add: usb_ready_def bus_ready_def)
  note n = in_range_bytes [OF r]
  have x: "xact_ok ?x" by (rule read_xact_ok [OF b n]) (use r in \<open>simp add: in_range_def\<close>)
  obtain u where u: "USBH_MSC_Read10 env (UserBuf, at) sector ?n ?t = (USBH_MSC_BUSY, u)" "at_stage view CMD_WAIT_STATUS ?x Send u"
    using start_read [OF t(1), of at sector ?n] t(2,3) by auto
  obtain s' where s': "disk_loop env (USBH_MSC_Read10 env (UserBuf, at) sector ?n) ?t = Some (USBH_MSC_OK, s')"
    "at_stage view CMD_SEND_STATE ?x Fin s'"
    using loop_runs [OF x _ disk_cmd_read u] by (auto simp: read_xact_def Let_def)
  have "USB_disk_read env (UserBuf, at) sector count s = Some (USBH_MSC_OK, s')"
    using s'(1) s t(1) by (simp add: USB_disk_read_def USB_disk_status_def HCD_IsDeviceConnected_def usb_ready_def bus_ready_def prog_base_def Let_def)
  moreover have "length (x_cbw ?x) = 31" "field32 (x_cbw ?x) 0 = 0x43425355"
    using filled_cbw_fields(1,2) [OF b(1) rw10_length] b(2) by (simp_all add: read_xact_def Let_def)
  note f = fin_ready [OF s'(2) this]
  have m: "512 * unat count \<le> length (medium ?v) - 512 * unat sector" using r by (auto simp: in_range_def)
  have "x_after ?x = ?v" using b(3) by (simp add: x_after_def read_xact_def Let_def)
  moreover have "x_done ?x (x_n ?x) = put_list (ram (bus s) UserBuf) at (sectors ?v sector count)"
    using m by (simp add: x_done_def read_xact_def sectors_def n(1) Let_def min_absorb2)
  ultimately show ?thesis using f by auto
qed

lemma write_returns:
  assumes s: "usb_ready view s" and r: "in_range (view (dev s)) sector count" and p: "\<not> protected (view (dev s))"
    and u: "at + 512 * unat count \<le> length (ram (bus s) UserBuf)"
  shows "\<exists>s'. USB_disk_write env (UserBuf, at) sector count s = Some (USBH_MSC_OK, s') \<and> usb_ready view s' \<and>
    view (dev s') = (view (dev s))\<lparr>medium := put_list (medium (view (dev s))) (512 * unat sector)
      (take (512 * unat count) (drop at (ram (bus s) UserBuf)))\<rparr> \<and> ram (bus s') UserBuf = ram (bus s) UserBuf"
proof -
  let ?n = "512 * count" and ?v = "view (dev s)" and ?t = "tick env s"
  note t = ready_tick [OF s]
  let ?x = "write_xact ?v (bus s) at sector ?n"
  have b: "length (ram (bus s) CBWArray) = 31" "field32 (ram (bus s) CBWArray) 0 = 0x43425355" "phase ?v = Idle"
    using s by (simp_all add: usb_ready_def bus_ready_def)
  note n = in_range_bytes [OF r]
  have x: "xact_ok ?x" by (rule write_xact_ok [OF b n]) (use r u n in \<open>simp_all add: in_range_def\<close>)
  obtain w where w: "USBH_MSC_Write10 env (UserBuf, at) sector ?n ?t = (USBH_MSC_BUSY, w)" "at_stage view CMD_WAIT_STATUS ?x Send w"
    using start_write [OF t(1), of at sector ?n] t(2,3) by auto
  obtain s' where s': "disk_loop env (USBH_MSC_Write10 env (UserBuf, at) sector ?n) ?t = Some (USBH_MSC_OK, s')"
    "at_stage view CMD_SEND_STATE ?x Fin s'"
    using loop_runs [OF x _ disk_cmd_write w] p by (auto simp: write_xact_def Let_def)
  have "USB_disk_write env (UserBuf, at) sector count s = Some (USBH_MSC_OK, s')"
    using s'(1) s t(1) by (simp add: USB_disk_write_def USB_disk_status_def HCD_IsDeviceConnected_def usb_ready_def bus_ready_def prog_base_def Let_def)
  moreover have "length (x_cbw ?x) = 31" "field32 (x_cbw ?x) 0 = 0x43425355"
    using filled_cbw_fields(1,2) [OF b(1) rw10_length] b(2) by (simp_all add: write_xact_def Let_def)
  note f = fin_ready [OF s'(2) this]
  have "x_after ?x = ?v\<lparr>medium := put_list (medium ?v) (512 * unat sector) (take (512 * unat count) (drop at (ram (bus s) UserBuf)))\<rparr>"
    using b(3) p n u by (simp add: x_after_def write_xact_def Let_def min_absorb2)
  moreover have "x_done ?x (x_n ?x) = ram (bus s) UserBuf" by (simp add: x_done_def write_xact_def Let_def)
  ultimately show ?thesis using f by auto
qed

lemma retry_handled:
  assumes "retrying at sector count v b" "at_stage view CMD_WAIT_STATUS (write_xact v b at sector (512 * count)) stg s" "stg \<noteq> Fin"
  shows "retry_inv view at sector count (tick env (USBH_MSC_HandleBOTXfer env s))"
proof -
  note x = retry_xact(1) [OF assms(1)]
  obtain stg' where "at_stage view CMD_WAIT_STATUS (write_xact v b at sector (512 * count)) stg' (USBH_MSC_HandleBOTXfer env s)"
    using handle_step [OF x assms(2,3)] by (auto simp: advances_def)
  from tick_at [OF x this] show ?thesis using assms(1) unfolding retry_inv_def by blast
qed

lemma retry_connected: "retry_inv view at sector count s \<Longrightarrow> ConnSts (bus s)"
  by (auto simp: retry_inv_def usb_ready_def bus_ready_def dest: stage_connected)

lemma retry_step:
  assumes "retry_inv view at sector count s"
  shows "\<exists>t. USBH_MSC_Write10 env (UserBuf, at) sector (512 * count) s = (USBH_MSC_BUSY, t) \<and>
    retry_inv view at sector count (tick env (USBH_MSC_HandleBOTXfer env t))"
proof -
  consider (ready) "usb_ready view s" "retrying at sector count (view (dev s)) (bus s)"
    | (stage) v b stg where "retrying at sector count v b" "at_stage view CMD_WAIT_STATUS (write_xact v b at sector (512 * count)) stg s"
    using assms unfolding retry_inv_def by blast
  then show ?thesis
  proof cases
    case ready
    from start_write [OF ready(1)] retry_handled [OF ready(2)] show ?thesis by blast
  next
    case stage
    note x = retry_xact [OF stage(1)]
    note c = disk_cmd_write [of "(UserBuf, at)" sector "512 * count", unfolded disk_cmd_def]
    show ?thesis
    proof (cases "stg = Fin")
      case False
      note t = tick_at [OF x(1) stage(2)]
      have "BOTXferStatus (tick env s) = USBH_MSC_BUSY" using t False by (cases stg) (auto simp: at_stage_def)
      then have "USBH_MSC_Write10 env (UserBuf, at) sector (512 * count) s = (USBH_MSC_BUSY, tick env s)"
        using c t by (auto simp: at_stage_def bus_base_def)
      then show ?thesis using retry_handled [OF stage(1) t False] by blast
    next
      case True
      then obtain t where t: "USBH_MSC_Write10 env (UserBuf, at) sector (512 * count) s = (USBH_MSC_BUSY, t)"
          "at_stage view CMD_SEND_STATE (write_xact v b at sector (512 * count)) Fin t"
        using c x(1,2) stage(2) by fastforce
      note u = tick_at [OF x(1) t(2)]
      have "USBH_MSC_HandleBOTXfer env t = bot_decode_csw env (tick env t)"
        using u by (simp add: USBH_MSC_HandleBOTXfer_def HCD_IsDeviceConnected_def Let_def at_stage_def bus_base_def)
      with dec_step [OF x(1) u]
      have h: "at_stage view CMD_SEND_STATE (write_xact v b at sector (512 * count)) Fin (USBH_MSC_HandleBOTXfer env t)" by simp
      note w = tick_at [OF x(1) h]
      have "retrying at sector count v (bus (tick env (USBH_MSC_HandleBOTXfer env t)))"
        using w stage(1) x by (auto simp: retrying_def at_stage_def bus_base_def x_done_def)
      then show ?thesis using t(1) fin_ready [OF w x(6,7)] x(3) by (auto simp: retry_inv_def)
    qed
  qed
qed

lemma retry_never_ends:
  assumes "retry_inv view at sector count s"
  shows "disk_loop env (USBH_MSC_Write10 env (UserBuf, at) sector (512 * count)) s = None"
proof -
  have "cmd = USBH_MSC_Write10 env (UserBuf, at) sector (512 * count) \<longrightarrow> \<not> retry_inv view at sector count s"
    if "disk_loop env cmd s = Some r" for cmd r s
  proof (rule disk_loop.raw_induct [rotated, OF that, where P = "\<lambda>e cmd s r. e = env \<longrightarrow> cmd = USBH_MSC_Write10 env (UserBuf, at) sector (512 * count) \<longrightarrow>
      \<not> retry_inv view at sector count s", THEN mp, OF _ refl], intro impI notI)
    fix loop e cmd s y
    assume ih: "\<And>e cmd s r. loop e cmd s = Some r \<Longrightarrow> e = env \<longrightarrow> cmd = USBH_MSC_Write10 env (UserBuf, at) sector (512 * count) \<longrightarrow> \<not> retry_inv view at sector count s"
      and b: "(let (Result, s) = cmd s; s = USBH_MSC_HandleBOTXfer e s; (c, s) = USB_disk_status e s
         in if \<not> c then Some (USBH_MSC_FAIL, s) else if Result = USBH_MSC_BUSY then loop e cmd s else Some (Result, s)) = Some y"
      and e: "e = env" and cmd: "cmd = USBH_MSC_Write10 env (UserBuf, at) sector (512 * count)" and inv: "retry_inv view at sector count s"
    from retry_step [OF inv] obtain t where t: "cmd s = (USBH_MSC_BUSY, t)" "retry_inv view at sector count (tick env (USBH_MSC_HandleBOTXfer env t))"
      unfolding cmd by blast
    then have "loop env cmd (tick env (USBH_MSC_HandleBOTXfer env t)) = Some y"
      using b e retry_connected [OF t(2)] by (simp add: USB_disk_status_def HCD_IsDeviceConnected_def Let_def)
    with ih t(2) cmd show False by blast
  qed
  with assms show ?thesis by (cases "disk_loop env (USBH_MSC_Write10 env (UserBuf, at) sector (512 * count)) s") auto
qed

end

section \<open>A concrete device\<close>

text \<open>A stick with a list of delays: how many accesses each packet takes.\<close>

definition stick_env :: "(stick \<times> nat list) env" where
  "stick_env d b =
     (case bus_step (fst d) b of
        None \<Rightarrow> (d, b)
      | Some (v, b') \<Rightarrow> (case snd d of Suc k # ks \<Rightarrow> ((fst d, k # ks), b) | ks \<Rightarrow> ((v, tl ks), b')))"

definition stick_delay :: "stick \<times> nat list \<Rightarrow> nat" where
  "stick_delay d = (case snd d of [] \<Rightarrow> 0 | k # ks \<Rightarrow> k)"

interpretation usb_stick: mass_storage stick_env fst stick_delay
  by unfold_locales (auto simp: stick_env_def stick_delay_def quiet_def bus_step_def split: list.splits nat.splits option.splits)

section \<open>The disk functions\<close>

text \<open>C24: \<open>disk_read\<close> of the USB drive returns, with success, and the buffer holds the sectors, for every conforming device and controller;
  the device is ready for the next command.\<close>

theorem disk_read_returns_sectors:
  assumes "mass_storage env view delay" "usb_ready view s" "in_range (view (dev s)) sector count"
    "at + 512 * unat count \<le> length (ram (bus s) UserBuf)"
  shows "\<exists>s'. disk_read env junk 2 (UserBuf, at) sector count s = Some (RES_OK, s') \<and> usb_ready view s' \<and>
    view (dev s') = view (dev s) \<and>
    ram (bus s') UserBuf = take at (ram (bus s) UserBuf) @ sectors (view (dev s)) sector count @
      drop (at + 512 * unat count) (ram (bus s) UserBuf)"
proof -
  have l: "length (sectors (view (dev s)) sector count) = 512 * unat count" using assms(3) by (auto simp: sectors_def in_range_def)
  obtain s' where "USB_disk_read env (UserBuf, at) sector count s = Some (USBH_MSC_OK, s')" "usb_ready view s'"
      "view (dev s') = view (dev s)" "ram (bus s') UserBuf = put_list (ram (bus s) UserBuf) at (sectors (view (dev s)) sector count)"
    using mass_storage.read_returns [OF assms(1-3), of at] by blast
  then show ?thesis using assms(4) by (simp add: disk_read_def dresult_def put_list_eq l)
qed


text \<open>C38: A write to a device that reports the command as failed, because its medium is write protected, is started again and again:
  \<open>disk_write\<close> does not return.\<close>

theorem protected_write_never_returns:
  assumes "mass_storage env view delay" "usb_ready view s" "in_range (view (dev s)) sector count" "protected (view (dev s))"
    "at + 512 * unat count \<le> length (ram (bus s) UserBuf)"
  shows "disk_write env 2 (UserBuf, at) sector count s = None"
proof -
  note t = mass_storage.ready_tick [OF assms(1,2)]
  have "retry_inv view at sector count (tick env s)"
    using assms(2-5) t by (auto simp: retry_inv_def retrying_def usb_ready_def bus_ready_def)
  from mass_storage.retry_never_ends [OF assms(1) this] show ?thesis
    using t(1) by (simp add: disk_write_def USB_disk_write_def USB_disk_status_def HCD_IsDeviceConnected_def usb_ready_def bus_ready_def
        prog_base_def Let_def)
qed

section \<open>A failed request for sense data\<close>

text \<open>The states from which the class machine does not get back to the command that failed.\<close>

definition sense_trap :: "'d usb \<Rightarrow> bool" where
  "sense_trap s \<longleftrightarrow> MSCStateCurrent s = USBH_MSC_REQUEST_SENSE \<and>
     (CmdStateMachine s = CMD_WAIT_STATUS \<longrightarrow> MSCStateBkp s = USBH_MSC_REQUEST_SENSE) \<and>
     MSCState s \<in> {USBH_MSC_REQUEST_SENSE, USBH_MSC_BOT_USB_TRANSFERS, USBH_MSC_UNRECOVERED_STATE}"

lemma tick_fields [simp]:
  "MSCState (tick env s) = MSCState s" "MSCStateBkp (tick env s) = MSCStateBkp s" "MSCStateCurrent (tick env s) = MSCStateCurrent s"
  "CmdStateMachine (tick env s) = CmdStateMachine s" "BOTXferStatus (tick env s) = BOTXferStatus s" "BOTState (tick env s) = BOTState s"
  "host (tick env s) = host s" "BOTStallErrorCount (tick env s) = BOTStallErrorCount s"
  by (simp_all add: tick_def split_beta)

definition same_class :: "'d usb \<Rightarrow> 'd usb \<Rightarrow> bool" where
  "same_class s s' \<longleftrightarrow> MSCStateCurrent s' = MSCStateCurrent s \<and> MSCStateBkp s' = MSCStateBkp s \<and> CmdStateMachine s' = CmdStateMachine s \<and>
     MSCState s' \<in> {MSCState s, MSCStateCurrent s}"

lemmas urb_defs = HCD_GetURB_State_def HCD_IsDeviceConnected_def HCD_GetXferCnt_def USBH_BulkSendData_def USBH_BulkReceiveData_def
  HCD_SubmitRequest_def upd_hc_def set_ram_def urb_error_def Let_def

text \<open>The transport machine touches the state of the class only when a status wrapper arrives.\<close>

lemma handle_same_class:
  fixes s :: "'d usb"
  shows "same_class s (USBH_MSC_HandleBOTXfer env s)"
proof -
  have a: "same_class s (bot_send_cbw s)" "same_class s (bot_receive_csw s)" for s :: "'d usb"
    by (simp_all add: same_class_def bot_send_cbw_def bot_receive_csw_def urb_defs)
  have b: "same_class s (bot_sent_cbw env s)" "same_class s (bot_data_in env s)" "same_class s (bot_data_out env s)" for s
    by (simp_all add: same_class_def bot_sent_cbw_def bot_data_in_def bot_data_out_def urb_defs split: URB_STATE.splits)
  have c: "same_class s (bot_decode_csw env s)" for s
    by (simp add: same_class_def bot_decode_csw_def USBH_MSC_DecodeCSW_def urb_defs split: URB_STATE.splits)
  have d: "same_class s (bot_error_in s)" "same_class s (bot_error_out s)" for s :: "'d usb"
    by (simp_all add: same_class_def bot_error_in_def bot_error_out_def USBH_MSC_BOT_Abort_def USBH_ClrFeature_def upd_hc_def split_beta Let_def)
  have "same_class (tick env s) (tick env s)" by (simp add: same_class_def)
  then have "same_class (tick env s) (USBH_MSC_HandleBOTXfer env s)"
    using a b c d by (simp add: USBH_MSC_HandleBOTXfer_def HCD_IsDeviceConnected_def Let_def split: BOT_STATES.splits)
  then show ?thesis by (simp add: same_class_def)
qed

lemma sense_trap_step:
  assumes "sense_trap s"
  shows "sense_trap (snd (USBH_MSC_Handle env s))"
proof -
  have t: "sense_trap (tick env s)" using assms by (simp add: sense_trap_def)
  have h: "sense_trap (USBH_MSC_HandleBOTXfer env (tick env s))"
    using t handle_same_class [of "tick env s" env] by (auto simp: sense_trap_def same_class_def)
  obtain r u where ru: "USBH_MSC_RequestSense env (tick env s) = (r, u)" by force
  have u: "MSCStateCurrent u = USBH_MSC_REQUEST_SENSE \<and> (r = USBH_MSC_OK \<longrightarrow> MSCStateBkp u = USBH_MSC_REQUEST_SENSE) \<and>
      (CmdStateMachine u = CMD_WAIT_STATUS \<longrightarrow> MSCStateBkp u = USBH_MSC_REQUEST_SENSE) \<and>
      MSCState u \<in> {MSCState s, USBH_MSC_BOT_USB_TRANSFERS}"
    using t ru by (auto simp: sense_trap_def USBH_MSC_RequestSense_def cmd_result_def start_cmd_def prepare_cbw_def put_cbw_def
        set_ram_def HCD_IsDeviceConnected_def Let_def split: CMD_STATES.splits USBH_MSC_Status.splits if_splits)
  then have r: "sense_trap (snd (class_command (USBH_MSC_RequestSense env (tick env s)) MSCStateBkp False))"
    using t by (auto simp: sense_trap_def class_command_def USBH_MSC_ErrorHandle_def ru Let_def)
  have n: "\<not> ConnSts (bus (tick env s)) \<Longrightarrow> snd (USBH_MSC_Handle env s) = tick env s"
    "ConnSts (bus (tick env s)) \<Longrightarrow> MSCState s = USBH_MSC_REQUEST_SENSE \<Longrightarrow>
       snd (USBH_MSC_Handle env s) = snd (class_command (USBH_MSC_RequestSense env (tick env s)) MSCStateBkp False)"
    "ConnSts (bus (tick env s)) \<Longrightarrow> MSCState s = USBH_MSC_BOT_USB_TRANSFERS \<Longrightarrow> snd (USBH_MSC_Handle env s) = USBH_MSC_HandleBOTXfer env (tick env s)"
    "ConnSts (bus (tick env s)) \<Longrightarrow> MSCState s = USBH_MSC_UNRECOVERED_STATE \<Longrightarrow> snd (USBH_MSC_Handle env s) = tick env s"
    by (simp_all add: USBH_MSC_Handle_def HCD_IsDeviceConnected_def Let_def)
  have "MSCState s \<in> {USBH_MSC_REQUEST_SENSE, USBH_MSC_BOT_USB_TRANSFERS, USBH_MSC_UNRECOVERED_STATE}" using assms by (simp add: sense_trap_def)
  then show ?thesis using n t h r by (cases "ConnSts (bus (tick env s))") auto
qed

text \<open>C40: When the request for the sense data of a failed command fails itself, the class machine never gets out of asking for sense data
  or the state for unrecovered errors, whatever the device does: the state to return to has been overwritten. The application is not
  called again.\<close>

theorem sense_failure_traps:
  assumes "MSCState s = USBH_MSC_REQUEST_SENSE" "MSCStateCurrent s = USBH_MSC_REQUEST_SENSE" "CmdStateMachine s = CMD_WAIT_STATUS"
    "BOTXferStatus s = USBH_MSC_FAIL" "ConnSts (bus (tick env s))" "ConnSts (bus (tick env (tick env s)))"
  shows "MSCState (((snd \<circ> USBH_MSC_Handle env) ^^ Suc n) s) \<in> {USBH_MSC_REQUEST_SENSE, USBH_MSC_BOT_USB_TRANSFERS, USBH_MSC_UNRECOVERED_STATE}"
proof -
  have "sense_trap ((snd \<circ> USBH_MSC_Handle env) s)"
    using assms by (auto simp: sense_trap_def USBH_MSC_Handle_def class_command_def USBH_MSC_RequestSense_def cmd_result_def
        USBH_MSC_ErrorHandle_def HCD_IsDeviceConnected_def Let_def)
  then have "sense_trap (((snd \<circ> USBH_MSC_Handle env) ^^ Suc n) s)"
    by (induction n) (auto intro: sense_trap_step)
  then show ?thesis by (simp add: sense_trap_def)
qed

section \<open>A stalled endpoint\<close>

text \<open>The transfer waits for the endpoint to be cleared; \<open>k\<close> calls have been made. The request is submitted in the first one and
  then waits for the main loop.\<close>

definition request_pending :: "'d usb \<Rightarrow> bool" where
  "request_pending s \<longleftrightarrow> RequestState (host s) = CMD_WAIT \<and> ctl_state (host s) = CTRL_SETUP \<and> gState (host s) = HOST_CTRL_XFER"

definition stalled :: "nat \<Rightarrow> 'd usb \<Rightarrow> bool" where
  "stalled k s \<longleftrightarrow> CmdStateMachine s = CMD_WAIT_STATUS \<and> BOTXferStatus s = USBH_MSC_BUSY \<and> BOTState s = USBH_MSC_BOT_ERROR_IN \<and>
     BOTStallErrorCount s = of_nat k \<and> (if k = 0 then RequestState (host s) = CMD_SEND else request_pending s)"

lemma stalled_tick [simp]: "stalled k (tick env s) = stalled k s" "request_pending (tick env s) = request_pending s"
  by (simp_all add: stalled_def request_pending_def)

lemma stall_limit:
  assumes "k \<le> 4"
  shows "(4 < (of_nat k + 1 :: UNS32)) = (k = 4)"
proof -
  have "unat (of_nat (Suc k) :: UNS32) = Suc k" using assms by (simp add: unsigned_of_nat take_bit_nat_eq_self del: of_nat_Suc)
  then have "(4 < (of_nat (Suc k) :: UNS32)) = (4 < Suc k)" by (simp add: word_less_nat_alt del: of_nat_Suc)
  then show ?thesis using assms by (auto simp: add.commute)
qed

lemma abort_busy:
  assumes "RequestState (host s) = CMD_SEND \<or> request_pending s"
  shows "\<exists>s'. USBH_ClrFeature ep (Some ch) s = (USBH_BUSY, s') \<and> request_pending s' \<and> BOTStallErrorCount s' = BOTStallErrorCount s \<and>
    CmdStateMachine s' = CmdStateMachine s \<and> BOTXferStatus s' = BOTXferStatus s \<and> BOTState s' = BOTState s \<and> ConnSts (bus s') = ConnSts (bus s)"
  using assms
  by (auto simp: request_pending_def USBH_ClrFeature_def USBH_CtlReq_def USBH_SubmitSetupRequest_def upd_hc_def)

lemma stalled_step:
  assumes "stalled k s" "k \<le> 4"
  shows "if k < 4 then stalled (Suc k) (bot_error_in s)
    else request_pending (bot_error_in s) \<and> BOTXferStatus (bot_error_in s) = USBH_MSC_PHASE_ERROR \<and>
      CmdStateMachine (bot_error_in s) = CMD_WAIT_STATUS \<and> BOTState (bot_error_in s) = USBH_MSC_BOT_ERROR_IN"
    and "ConnSts (bus (bot_error_in s)) = ConnSts (bus s)"
proof -
  have "RequestState (host s) = CMD_SEND \<or> request_pending s" using assms(1) by (auto simp: stalled_def split: if_splits)
  from abort_busy [OF this, of "MSBulkInEp s" hc_num_in] obtain t where
    t: "USBH_ClrFeature (MSBulkInEp s) (Some hc_num_in) s = (USBH_BUSY, t)" "request_pending t" "BOTStallErrorCount t = BOTStallErrorCount s"
      "CmdStateMachine t = CmdStateMachine s" "BOTXferStatus t = BOTXferStatus s" "BOTState t = BOTState s" "ConnSts (bus t) = ConnSts (bus s)"
    by blast
  then have "bot_error_in s = (if k = 4 then t\<lparr>BOTStallErrorCount := of_nat k + 1, BOTXferStatus := USBH_MSC_PHASE_ERROR\<rparr>
      else t\<lparr>BOTStallErrorCount := of_nat k + 1\<rparr>)"
    using assms stall_limit [OF assms(2)] by (simp add: bot_error_in_def USBH_MSC_BOT_Abort_def stalled_def)
  then show "if k < 4 then stalled (Suc k) (bot_error_in s)
    else request_pending (bot_error_in s) \<and> BOTXferStatus (bot_error_in s) = USBH_MSC_PHASE_ERROR \<and>
      CmdStateMachine (bot_error_in s) = CMD_WAIT_STATUS \<and> BOTState (bot_error_in s) = USBH_MSC_BOT_ERROR_IN"
    and "ConnSts (bus (bot_error_in s)) = ConnSts (bus s)"
    using t assms by (auto simp: stalled_def request_pending_def add.commute)
qed

lemma error_in_pending:
  assumes "request_pending s"
  shows "request_pending (bot_error_in s)"
proof -
  obtain t where "USBH_ClrFeature (MSBulkInEp s) (Some hc_num_in) s = (USBH_BUSY, t)" "request_pending t"
    using abort_busy [of s "MSBulkInEp s" hc_num_in] assms by blast
  then show ?thesis by (simp add: bot_error_in_def USBH_MSC_BOT_Abort_def request_pending_def)
qed

lemma error_in_connected [simp]: "ConnSts (bus (bot_error_in s)) = ConnSts (bus s)"
  by (simp add: bot_error_in_def USBH_MSC_BOT_Abort_def USBH_ClrFeature_def upd_hc_def split_beta Let_def)

lemma tick_connected:
  assumes "\<forall>d b. ConnSts b \<longrightarrow> ConnSts (snd (env d b))" "ConnSts (bus s)"
  shows "ConnSts (bus (tick env s))"
  using assms by (simp add: tick_def split_beta)

text \<open>One iteration of the loop with a stalled endpoint.\<close>

lemma stall_body:
  assumes env: "\<forall>d b. ConnSts b \<longrightarrow> ConnSts (snd (env d b))" and t: "cmd s = (r, t)" "BOTState t = USBH_MSC_BOT_ERROR_IN" "ConnSts (bus t)"
  defines "u \<equiv> tick env (bot_error_in (tick env t))"
  shows "disk_loop env cmd s = (if r = USBH_MSC_BUSY then disk_loop env cmd u else Some (r, u))" "ConnSts (bus u)"
proof -
  have c: "ConnSts (bus (tick env t))" "ConnSts (bus u)"
    using tick_connected [OF env t(3)] tick_connected [OF env, of "bot_error_in (tick env t)"] by (simp_all add: u_def)
  have "USBH_MSC_HandleBOTXfer env t = bot_error_in (tick env t)"
    using c(1) t(2) by (simp add: USBH_MSC_HandleBOTXfer_def HCD_IsDeviceConnected_def Let_def)
  then show "disk_loop env cmd s = (if r = USBH_MSC_BUSY then disk_loop env cmd u else Some (r, u))"
    using t(1) c(2) by (subst disk_loop.simps) (simp add: USB_disk_status_def HCD_IsDeviceConnected_def u_def Let_def)
  show "ConnSts (bus u)" by (rule c(2))
qed

lemma stalled_loop:
  assumes env: "\<forall>d b. ConnSts b \<longrightarrow> ConnSts (snd (env d b))"
  shows "stalled k s \<Longrightarrow> k \<le> 4 \<Longrightarrow> ConnSts (bus s) \<Longrightarrow>
    \<exists>s'. disk_loop env (USBH_MSC_Read10 env p a n) s = Some (USBH_MSC_PHASE_ERROR, s') \<and> request_pending s'"
proof (induction "4 - k" arbitrary: k s)
  case (Suc j)
  note c = tick_connected [OF env Suc.prems(3)]
  have "USBH_MSC_Read10 env p a n s = (USBH_MSC_BUSY, tick env s)"
    using Suc.prems(1) c by (simp add: USBH_MSC_Read10_def HCD_IsDeviceConnected_def cmd_result_def stalled_def Let_def)
  note b = stall_body [where cmd = "USBH_MSC_Read10 env p a n", OF env this _ c]
  have "stalled (Suc k) (tick env (bot_error_in (tick env (tick env s))))"
    using stalled_step(1) [of k "tick env (tick env s)"] Suc.prems(1,2) Suc.hyps(2) by simp
  from Suc.hyps(1) [OF _ this] b show ?case using Suc.hyps(2) Suc.prems(1) by (simp add: stalled_def)
next
  case 0
  then have k: "k = 4" by simp
  note c = tick_connected [OF env 0(4)]
  have "USBH_MSC_Read10 env p a n s = (USBH_MSC_BUSY, tick env s)"
    using 0(2) c by (simp add: USBH_MSC_Read10_def HCD_IsDeviceConnected_def cmd_result_def stalled_def Let_def)
  note b = stall_body [where cmd = "USBH_MSC_Read10 env p a n", OF env this _ c]
  define t where "t = tick env (bot_error_in (tick env (tick env s)))"
  have t: "request_pending t" "BOTXferStatus t = USBH_MSC_PHASE_ERROR" "CmdStateMachine t = CMD_WAIT_STATUS" "BOTState t = USBH_MSC_BOT_ERROR_IN"
    using stalled_step(1) [of 4 "tick env (tick env s)"] 0(2) k by (simp_all add: t_def)
  have l: "disk_loop env (USBH_MSC_Read10 env p a n) s = disk_loop env (USBH_MSC_Read10 env p a n) t" "ConnSts (bus t)"
    using b 0(2) by (simp_all add: t_def stalled_def)
  note d = tick_connected [OF env l(2)]
  have r: "USBH_MSC_Read10 env p a n t = (USBH_MSC_PHASE_ERROR, (tick env t)\<lparr>CmdStateMachine := CMD_SEND_STATE\<rparr>)"
    using t d by (simp add: USBH_MSC_Read10_def HCD_IsDeviceConnected_def cmd_result_def Let_def)
  have "request_pending (tick env ((tick env t)\<lparr>CmdStateMachine := CMD_SEND_STATE\<rparr>))" using t(1) by (simp add: request_pending_def)
  then show ?case unfolding l(1)
    using stall_body(1) [where cmd = "USBH_MSC_Read10 env p a n", OF env r] d t(4) error_in_pending by fastforce
qed

text \<open>C39: A read whose endpoint stalls in the data stage ends after a few calls with a phase error, which \<open>disk_read\<close> reports as a
  write protection. The request that clears the endpoint is submitted and never sent, since only the main loop sends control requests: it is
  still pending afterwards.\<close>

theorem stall_ends_in_phase_error:
  assumes env: "\<forall>d b. ConnSts b \<longrightarrow> ConnSts (snd (env d b))"
    "\<forall>d b. URB_State (hc b hc_num_in) = URB_STALL \<longrightarrow> URB_State (hc (snd (env d b)) hc_num_in) = URB_STALL"
    and s: "ConnSts (bus s)" "URB_State (hc (bus s) hc_num_in) = URB_STALL" "CmdStateMachine s = CMD_WAIT_STATUS" "BOTXferStatus s = USBH_MSC_BUSY"
      "BOTState s = USBH_MSC_BOT_DATAIN_STATE" "BOTStateBkp s = USBH_MSC_BOT_DATAIN_STATE" "BOTStallErrorCount s = 0"
      "RequestState (host s) = CMD_SEND"
  shows "\<exists>r s'. disk_loop env (USBH_MSC_Read10 env p sector n) s = Some (r, s') \<and> r = USBH_MSC_PHASE_ERROR \<and> dresult r = RES_WRPRT \<and>
    gState (host s') = HOST_CTRL_XFER \<and> ctl_state (host s') = CTRL_SETUP"
proof -
  define t where "t = tick env (tick env (tick env s))"
  define u where "u = tick env (t\<lparr>error_direction := 0, BOTState := USBH_MSC_BOT_ERROR_IN, BOTStateBkp := USBH_MSC_RECEIVE_CSW_STATE\<rparr>)"
  have c: "ConnSts (bus (tick env s))" "ConnSts (bus (tick env (tick env s)))" "ConnSts (bus t)" "ConnSts (bus u)"
    using s(1) tick_connected [OF env(1)] by (simp_all add: t_def u_def)
  have stall: "URB_State (hc (bus (tick env v)) hc_num_in) = URB_STALL" if "URB_State (hc (bus v) hc_num_in) = URB_STALL" for v
    using env(2) that by (simp add: tick_def split_beta)
  have t: "URB_State (hc (bus t) hc_num_in) = URB_STALL" "BOTStateBkp t = USBH_MSC_BOT_DATAIN_STATE"
    using stall s(2,6) by (simp_all add: t_def) (simp add: tick_def split_beta)
  have "USBH_MSC_Read10 env p sector n s = (USBH_MSC_BUSY, tick env s)"
    using s(3,4) c by (simp add: USBH_MSC_Read10_def HCD_IsDeviceConnected_def cmd_result_def Let_def)
  moreover have "tick env (USBH_MSC_HandleBOTXfer env (tick env s)) = u"
    using s(5) t c by (simp add: USBH_MSC_HandleBOTXfer_def bot_data_in_def HCD_IsDeviceConnected_def HCD_GetURB_State_def u_def
        t_def [symmetric] Let_def)
  ultimately have l: "disk_loop env (USBH_MSC_Read10 env p sector n) s = disk_loop env (USBH_MSC_Read10 env p sector n) u"
    using c(4) by (subst disk_loop.simps) (simp add: USB_disk_status_def HCD_IsDeviceConnected_def Let_def)
  have "stalled 0 u" using s by (simp add: u_def t_def stalled_def)
  from stalled_loop [OF env(1) this _ c(4)] show ?thesis unfolding l by (fastforce simp: dresult_def request_pending_def)
qed

section \<open>The properties at a concrete device\<close>

text \<open>A stick of two sectors and a host that has enumerated it.\<close>

definition stick_demo :: "bool \<Rightarrow> stick" where
  "stick_demo p = \<lparr>medium = replicate 1024 5, protected = p, phase = Idle\<rparr>"

definition hc_demo :: "URB_STATE \<Rightarrow> USB_OTG_HC" where
  "hc_demo u = \<lparr>ep_is_in = False, data_pid = 0, xfer_buff = (UserBuf, 0), xfer_len = 0, xfer_count = 0, toggle_in = 0, toggle_out = 0,
     URB_State = u, XferCnt = 0, chena = False\<rparr>"

definition ram_demo :: "region \<Rightarrow> UNS8 list" where
  "ram_demo r = (case r of UserBuf \<Rightarrow> replicate 512 7 @ replicate 512 0 | CBWArray \<Rightarrow> bytes32 0x43425355 @ replicate 27 0
     | CSWArray \<Rightarrow> replicate 13 0 | USBH_DataInBuffer \<Rightarrow> replicate 512 0 | MSC_buff \<Rightarrow> replicate 64 0)"

definition host_demo :: USBH_HOST where
  "host_demo = \<lparr>gState = HOST_CLASS, gStateBkp = HOST_CLASS, RequestState = CMD_SEND,
     ctl_setup = \<lparr>bmRequestType = 0, bRequest = 0, wValue = 0, wIndex = 0, wLength = 0\<rparr>, ctl_state = CTRL_IDLE, ctl_buff = None, ctl_length = 0\<rparr>"

definition usb_demo :: "'d \<Rightarrow> URB_STATE \<Rightarrow> 'd usb" where
  "usb_demo d u = \<lparr>dev = d, bus = \<lparr>ConnSts = True, hc = \<lambda>_. hc_demo u, ram = ram_demo\<rparr>, host = host_demo,
     MSCState = USBH_MSC_DEFAULT_APPLI_STATE, MSCStateBkp = USBH_MSC_BOT_INIT_STATE, MSCStateCurrent = USBH_MSC_MODE_SENSE6,
     CmdStateMachine = CMD_SEND_STATE, BOTState = USBH_MSC_DECODE_CSW, BOTStateBkp = USBH_MSC_RECEIVE_CSW_STATE, pRxTxBuff = (CSWArray, 0),
     DataLength = 63, BOTXferStatus = USBH_MSC_OK, BOTStallErrorCount = 0, xfer_error_count = 0, MSCErrorCount = 0, remainingDataLength = 0,
     datapointer = (UserBuf, 0), datapointer_prev = (UserBuf, 0), error_direction = 0, maxLunExceed = False, MSBulkInEp = 0x81, MSBulkOutEp = 2,
     MSBulkInEpSize = 64, MSBulkOutEpSize = 64, maxLun = 0, MSCapacity = 1, MSSenseKey = 0, MSPageLength = 512, MSWriteProtect = 0,
     AppState = USH_USR_FS_WAIT_OPERATION, USB_Manage_State = 1\<rparr>"

lemma usb_demo_dev [simp]: "dev (usb_demo d u) = d" "protected (stick_demo p) = p"
  by (simp_all add: usb_demo_def stick_demo_def)

lemma usb_demo_facts:
  "usb_ready fst (usb_demo (stick_demo p, ks) URB_DONE)" "in_range (stick_demo p) 1 1"
  "length (ram (bus (usb_demo d u)) UserBuf) = 1024" "take 512 (drop 0 (ram (bus (usb_demo d u)) UserBuf)) = replicate 512 7"
proof -
  have f: "field32 (bytes32 0x43425355 @ replicate 27 0) 0 = 0x43425355" using field32_at [of "[]" 0] by simp
  show "usb_ready fst (usb_demo (stick_demo p, ks) URB_DONE)"
    by (simp add: usb_ready_def bus_ready_def usb_demo_def stick_demo_def prog_base_def quiet_def hc_demo_def ram_demo_def f)
  show "in_range (stick_demo p) 1 1" by (simp add: in_range_def stick_demo_def)
  show "length (ram (bus (usb_demo d u)) UserBuf) = 1024" "take 512 (drop 0 (ram (bus (usb_demo d u)) UserBuf)) = replicate 512 7"
    by (simp_all add: usb_demo_def ram_demo_def)
qed

theorem disk_read_returns_sectors_witness:
  "\<exists>s'. disk_read stick_env RES_ERROR 2 (UserBuf, 512) 1 1 (usb_demo (stick_demo False, [2, 0, 3]) URB_DONE) = Some (RES_OK, s') \<and>
     usb_ready fst s'"
  using disk_read_returns_sectors [OF usb_stick.mass_storage_axioms usb_demo_facts(1) [of False "[2, 0, 3]"],
      where sector = 1 and count = 1 and at = 512 and junk = RES_ERROR] usb_demo_facts(2) [of False]
  by (auto simp: usb_demo_facts(3))


theorem protected_write_never_returns_witness:
  "disk_write stick_env 2 (UserBuf, 0) 1 1 (usb_demo (stick_demo True, [2, 0, 3]) URB_DONE) = None"
  using protected_write_never_returns [OF usb_stick.mass_storage_axioms usb_demo_facts(1) [of True "[2, 0, 3]"],
      where sector = 1 and count = 1 and at = 0] usb_demo_facts(2) [of True]
  by (simp add: usb_demo_facts(3))

theorem sense_failure_traps_witness:
  "MSCState (((snd \<circ> USBH_MSC_Handle (\<lambda>d b. (d, b))) ^^ Suc 9)
     ((usb_demo () URB_DONE)\<lparr>MSCState := USBH_MSC_REQUEST_SENSE, MSCStateCurrent := USBH_MSC_REQUEST_SENSE, CmdStateMachine := CMD_WAIT_STATUS,
        BOTXferStatus := USBH_MSC_FAIL\<rparr>)) \<in> {USBH_MSC_REQUEST_SENSE, USBH_MSC_BOT_USB_TRANSFERS, USBH_MSC_UNRECOVERED_STATE}"
  by (rule sense_failure_traps) (simp_all add: tick_def usb_demo_def)

theorem stall_ends_in_phase_error_witness:
  "\<exists>r s'. disk_loop (\<lambda>d b. (d, b)) (USBH_MSC_Read10 (\<lambda>d b. (d, b)) (UserBuf, 0) 1 512)
     ((usb_demo () URB_STALL)\<lparr>CmdStateMachine := CMD_WAIT_STATUS, BOTXferStatus := USBH_MSC_BUSY, BOTState := USBH_MSC_BOT_DATAIN_STATE,
        BOTStateBkp := USBH_MSC_BOT_DATAIN_STATE\<rparr>) = Some (r, s') \<and> r = USBH_MSC_PHASE_ERROR \<and> dresult r = RES_WRPRT \<and>
     gState (host s') = HOST_CTRL_XFER \<and> ctl_state (host s') = CTRL_SETUP"
  by (rule stall_ends_in_phase_error) (simp_all add: usb_demo_def hc_demo_def host_demo_def)

end
