(* ===== verification/BoardInput.thy ===== *)
theory BoardInput
  imports Prelude "HOL-Library.Monad_Syntax"
begin

text \<open>
  The inputs of the board: the keys (\<^verbatim>\<open>Main/src/key.c\<close>), the receive interrupts and send functions of UART 1, SPI 1 and
  CAN 1 (\<^verbatim>\<open>uart.c\<close>, \<^verbatim>\<open>spi.c\<close>, \<^verbatim>\<open>can.c\<close>). What the hardware delivers is an argument: the levels of
  the pins, the received byte or frame, the state of a status flag at each time it is polled. The \<open>fault\<close> of a receiver
  is raised when its handler writes outside its buffer.

  Shown here: a key is reported once for each press, the toggling of key 0, which lines the UART handler stores, the write
  before the buffer of the SPI handler, and when the send functions return.
\<close>

section \<open>Keys\<close>

datatype key = KEY0 | KEY1 | KEY2 | WK_UP

text \<open>
  \<open>rd n k\<close> is the level of key \<open>k\<close> at read \<open>n\<close> of a scan. The keys are low when pressed, the wake-up key is high.
  The chain of tests reads the keys in turn until one is pressed: the code of that key, 0 for none, and the
  number of the next read.
\<close>

type_synonym reads = "nat \<Rightarrow> key \<Rightarrow> bool"

definition first_down :: "reads \<Rightarrow> nat \<Rightarrow> UNS8 \<times> nat" where
  "first_down rd n =
     (if \<not> rd n KEY0 then (1, n + 1)
      else if \<not> rd (n + 1) KEY1 then (2, n + 2)
      else if \<not> rd (n + 2) KEY2 then (3, n + 3)
      else if rd (n + 3) WK_UP then (4, n + 4)
      else (0, n + 4))"

definition all_up :: "reads \<Rightarrow> nat \<Rightarrow> bool" where
  "all_up rd n \<longleftrightarrow> rd n KEY0 \<and> rd (n + 1) KEY1 \<and> rd (n + 2) KEY2 \<and> \<not> rd (n + 3) WK_UP"

definition Key_Scan :: "reads \<Rightarrow> UNS8 \<Rightarrow> UNS8 \<Rightarrow> UNS8 \<times> UNS8" where
  "Key_Scan rd mode key_up =
     (let ku = (if mode \<noteq> 0 then 1 else key_up);
          (c, n) = (if ku \<noteq> 0 then first_down rd 0 else (0, 0))
      in if ku \<noteq> 0 \<and> c \<noteq> 0 then (fst (first_down rd n), 0)
         else if all_up rd n then (0, 1)
         else (0, ku))"

definition Key0_Scan :: "reads \<Rightarrow> UNS8 \<times> UNS8 \<Rightarrow> UNS8 \<times> UNS8" where
  "Key0_Scan rd st =
     (case st of (KeyUp, KeyCode) \<Rightarrow>
        if KeyUp \<noteq> 0 \<and> \<not> rd 0 KEY0 then
          if \<not> rd 1 KEY0 then (0, (KeyCode + 1) mod 2) else (KeyUp, KeyCode)
        else if rd (if KeyUp \<noteq> 0 then 1 else 0) KEY0 then (1, KeyCode)
        else (KeyUp, KeyCode))"

section \<open>Receivers\<close>

record receiver =
  rx_buff :: "UNS8 list"
  rx_index :: int
  rx_fault :: bool

definition store :: "int \<Rightarrow> UNS8 \<Rightarrow> receiver \<Rightarrow> receiver" where
  "store i v r =
     (if 0 \<le> i \<and> i < int (length (rx_buff r)) then r\<lparr>rx_buff := (rx_buff r)[nat i := v]\<rparr> else r\<lparr>rx_fault := True\<rparr>)"

text \<open>One received byte; \<open>DataBit\<close> is an \<open>int\<close>, and line feed is 10.\<close>

definition USART1_IRQHandler :: "UNS8 \<Rightarrow> receiver \<Rightarrow> receiver" where
  "USART1_IRQHandler RxData r =
     (let r1 = (store (rx_index r) RxData r)\<lparr>rx_index := rx_index r + 1\<rparr>
      in if RxData = 10 then (store (rx_index r1) 0 r1)\<lparr>rx_index := 0\<rparr> else r1)"

text \<open>\<open>RxIndex\<close> is a byte here; the index of the second store is \<open>RxIndex-1\<close>, computed as an \<open>int\<close> after the reset.\<close>

definition SPI1_IRQHandler :: "UNS8 \<Rightarrow> receiver \<Rightarrow> receiver" where
  "SPI1_IRQHandler RxData r =
     (let r1 = (store (rx_index r) RxData r)\<lparr>rx_index := (rx_index r + 1) mod 256\<rparr>
      in if RxData = 10 then (let r2 = r1\<lparr>rx_index := 0\<rparr> in store (rx_index r2 - 1) 0 r2) else r1)"

text \<open>
  A received frame: its length code, a number below 16, and the eight data bytes of the mailbox. The loop copies as many
  bytes as the length code says; a read behind the data bytes is a fault.
\<close>

function can_copy :: "UNS8 \<Rightarrow> UNS8 list \<Rightarrow> UNS8 \<Rightarrow> receiver \<Rightarrow> receiver" where
  "can_copy DLC data RxIndex r =
     (if RxIndex < DLC then
        can_copy DLC data (RxIndex + 1)
          (if unat RxIndex < length data then store (uint RxIndex) (data ! unat RxIndex) r else r\<lparr>rx_fault := True\<rparr>)
      else r)"
  by pat_completeness auto
termination can_copy
proof (relation "measure (\<lambda>(DLC, data, i, r). unat DLC - unat i)")
  fix i DLC :: UNS8
  assume "i < DLC"
  moreover from this have "unat (i + 1) = Suc (unat i)"
    using unsigned_less [of DLC, where ?'a = nat] by (simp add: word_less_nat_alt unat_word_ariths)
  ultimately show "((DLC, data, i + 1, s), (DLC, data, i, r)) \<in> measure (\<lambda>(DLC, data, i, r). unat DLC - unat i)" for data s r
    by (simp add: word_less_nat_alt)
qed simp

declare can_copy.simps [simp del]

definition CAN1_RX0_IRQHandler :: "UNS8 \<Rightarrow> UNS8 list \<Rightarrow> receiver \<Rightarrow> receiver" where
  "CAN1_RX0_IRQHandler DLC data r = can_copy DLC data 0 r"

section \<open>Senders\<close>

text \<open>
  \<open>flag t\<close> is the status flag at poll \<open>t\<close>. A wait for a flag may last for ever, which is the result \<open>None\<close>, as is
  reading behind the end of the memory that holds the string.
\<close>

partial_function (option) wait_flag :: "(nat \<Rightarrow> bool) \<Rightarrow> nat \<Rightarrow> nat option" where
  "wait_flag flag t = (if flag t then Some (t + 1) else wait_flag flag (t + 1))"

fun send_string :: "(nat \<Rightarrow> bool) \<Rightarrow> nat \<Rightarrow> UNS8 list \<Rightarrow> UNS8 list option" where
  "send_string flag t [] = None"
| "send_string flag t (c # cs) =
     (if c = 0 then Some []
      else do { t1 \<leftarrow> wait_flag flag t; out \<leftarrow> send_string flag t1 cs; Some (c # out) })"

definition Uart1_Send :: "(nat \<Rightarrow> bool) \<Rightarrow> UNS8 list \<Rightarrow> UNS8 list option" where
  "Uart1_Send flag mem = send_string flag 0 mem"

definition SPI1_Send :: "(nat \<Rightarrow> bool) \<Rightarrow> UNS8 list \<Rightarrow> (bool \<times> UNS8 list) option" where
  "SPI1_Send flag mem = do { out \<leftarrow> send_string flag 0 mem; Some (True, out) }"

text \<open>The wait for the mailbox: \<open>status t\<close> tells whether the transmission has succeeded at poll \<open>t\<close>.\<close>

function can_wait :: "(nat \<Rightarrow> bool) \<Rightarrow> UNS16 \<Rightarrow> UNS8" where
  "can_wait status TxIndex =
     (if status (unat TxIndex) then 0
      else if TxIndex + 1 \<ge> 0xFFF then 1
      else can_wait status (TxIndex + 1))"
  by pat_completeness auto
termination can_wait
proof (relation "measure (\<lambda>(status, i). unat (0xFFF - i))")
  fix i :: UNS16
  assume "\<not> 0xFFF \<le> i + 1"
  then have "0xFFF - i \<noteq> 0" by auto
  then have "unat (0xFFF - i - 1) < unat (0xFFF - i)" by (rule measure_unat)
  then show "((status, i + 1), (status, i)) \<in> measure (\<lambda>(status, i). unat (0xFFF - i))" for status :: "nat \<Rightarrow> bool"
    by (simp add: diff_diff_eq)
qed simp

declare can_wait.simps [simp del]

definition CAN1_Send_Msg :: "(nat \<Rightarrow> bool) \<Rightarrow> UNS8" where
  "CAN1_Send_Msg status = can_wait status 0"

section \<open>Keys are reported once for each press\<close>

text \<open>The code of the pressed key of highest priority at fixed levels.\<close>

definition pressed :: "(key \<Rightarrow> bool) \<Rightarrow> UNS8" where
  "pressed L = fst (first_down (\<lambda>_. L) 0)"

lemma pressed_eq: "fst (first_down (\<lambda>_. L) n) = pressed L" "all_up (\<lambda>_. L) n \<longleftrightarrow> pressed L = 0"
  by (auto simp: pressed_def first_down_def all_up_def)

lemma Key_Scan_stable:
  "Key_Scan (\<lambda>_. L) mode ku =
     (if mode = 0 \<and> ku = 0 then (0, if pressed L = 0 then 1 else 0)
      else if pressed L = 0 then (0, 1) else (pressed L, 0))"
  by (auto simp: Key_Scan_def Let_def pressed_eq split_beta)

text \<open>The results of a sequence of scans, each at levels that do not change during the scan.\<close>

fun scans :: "UNS8 \<Rightarrow> (key \<Rightarrow> bool) list \<Rightarrow> UNS8 \<Rightarrow> UNS8 list" where
  "scans mode [] ku = []"
| "scans mode (L # Ls) ku = (let (c, ku') = Key_Scan (\<lambda>_. L) mode ku in c # scans mode Ls ku')"

lemma scans_edges:
  "i < length Ls \<Longrightarrow> scans 0 Ls ku ! i =
     (if i = 0 then if ku = 0 then 0 else pressed (Ls ! 0)
      else if pressed (Ls ! (i - 1)) = 0 then pressed (Ls ! i) else 0)"
proof (induction Ls arbitrary: i ku)
  case (Cons L Ls)
  show ?case
  proof (cases i)
    case (Suc j)
    have "snd (Key_Scan (\<lambda>_. L) 0 ku) = 0 \<longleftrightarrow> pressed L \<noteq> 0" by (simp add: Key_Scan_stable)
    with Suc Cons.IH [of j "snd (Key_Scan (\<lambda>_. L) 0 ku)"] Cons.prems show ?thesis
      by (cases j) (simp_all add: split_beta Let_def)
  qed (simp add: Key_Scan_stable Let_def split_beta)
qed simp

text \<open>With mode 0 a sequence of scans reports a key exactly when it finds one pressed and the scan before found none: one
  report for each press, however long the key is held. With another mode every scan reports.\<close>

theorem key_reported_once:
  assumes "i < length Ls"
  shows "scans 0 Ls 1 ! i = (if i = 0 \<or> pressed (Ls ! (i - 1)) = 0 then pressed (Ls ! i) else 0) \<and>
    fst (Key_Scan (\<lambda>_. Ls ! i) 1 ku) = pressed (Ls ! i)"
  using scans_edges [OF assms, of 1] by (auto simp: Key_Scan_stable)

theorem key_reported_once_witness:
  "scans 0 [\<lambda>k. k \<noteq> WK_UP, \<lambda>k. k = KEY0, \<lambda>k. k = KEY0] 1 ! 2 = 0 \<and>
   fst (Key_Scan (\<lambda>_ k. k = KEY0) 1 0) = 2"
  using key_reported_once [of 2 "[\<lambda>k. k \<noteq> WK_UP, \<lambda>k. k = KEY0, \<lambda>k. k = KEY0]" 0]
  by (simp add: pressed_def first_down_def)

fun scans0 :: "(key \<Rightarrow> bool) list \<Rightarrow> UNS8 \<times> UNS8 \<Rightarrow> UNS8 \<times> UNS8" where
  "scans0 [] st = st"
| "scans0 (L # Ls) st = scans0 Ls (Key0_Scan (\<lambda>_. L) st)"

text \<open>The number of times key 0 goes down in a sequence of levels; \<open>up\<close> tells whether it was up before.\<close>

fun presses :: "bool \<Rightarrow> (key \<Rightarrow> bool) list \<Rightarrow> nat" where
  "presses up [] = 0"
| "presses up (L # Ls) = (if up \<and> \<not> L KEY0 then 1 else 0) + presses (L KEY0) Ls"

lemma scans0_parity:
  assumes "ku \<le> 1" "kc \<le> 1"
  shows "snd (scans0 Ls (ku, kc)) = of_nat ((unat kc + presses (ku \<noteq> 0) Ls) mod 2)"
  using assms
proof (induction Ls arbitrary: ku kc)
  case Nil
  then have "unat kc \<le> 1" by (simp add: word_le_nat_alt)
  then show ?case by simp
next
  case (Cons L Ls)
  have kc: "unat kc \<le> 1" "unat kc + 1 < 256" using Cons.prems(2) by (simp_all add: word_le_nat_alt)
  have m: "unat ((kc + 1) mod 2) = (unat kc + 1) mod 2" using kc by (simp add: unat_mod unat_word_ariths)
  then have m1: "(kc + 1) mod 2 \<le> 1" by (simp add: word_le_nat_alt)
  have ku: "ku = 0 \<or> ku = 1" using Cons.prems(1) by (auto simp: word_le_nat_alt word_unat_eq_iff)
  show ?case
  proof (cases "ku \<noteq> 0 \<and> \<not> L KEY0")
    case True
    then have "Key0_Scan (\<lambda>_. L) (ku, kc) = (0, (kc + 1) mod 2)" by (simp add: Key0_Scan_def)
    moreover have "((unat kc + 1) mod 2 + presses False Ls) mod 2 = (unat kc + (1 + presses False Ls)) mod 2"
      by presburger
    ultimately show ?thesis using Cons.IH [of 0 "(kc + 1) mod 2"] m m1 True by simp
  next
    case False
    then have "Key0_Scan (\<lambda>_. L) (ku, kc) = (if L KEY0 then 1 else 0, kc)" using ku by (auto simp: Key0_Scan_def)
    then show ?thesis using Cons.IH [of "if L KEY0 then 1 else 0" kc] Cons.prems(2) False by auto
  qed
qed

text \<open>\<open>Key0_Scan\<close> toggles: after any sequence of scans its result is the parity of the number of times key 0 went down.\<close>

theorem key0_toggles:
  "snd (scans0 Ls (1, 0)) = of_nat (presses True Ls mod 2)"
  using scans0_parity [of 1 0 Ls] by simp

section \<open>Receivers\<close>

lemma store_in: "i < length (rx_buff r) \<Longrightarrow> store (int i) v r = r\<lparr>rx_buff := (rx_buff r)[i := v]\<rparr>"
  by (simp add: store_def)

lemma store_out: "length (rx_buff r) \<le> i \<Longrightarrow> store (int i) v r = r\<lparr>rx_fault := True\<rparr>"
  by (simp add: store_def)

lemma length_store [simp]: "length (rx_buff (store i v r)) = length (rx_buff r)"
  by (simp add: store_def)

lemma fault_store [simp]: "rx_fault r \<Longrightarrow> rx_fault (store i v r)"
  by (simp add: store_def)

lemma usart_fault_stays: "rx_fault r \<Longrightarrow> rx_fault (USART1_IRQHandler b r)"
  by (simp add: USART1_IRQHandler_def Let_def)

text \<open>The bytes of a line before its end, stored from index \<open>k\<close> on.\<close>

lemma usart_bytes:
  assumes "10 \<notin> set bs" "k + length bs \<le> length (rx_buff r)" "rx_index r = int k"
  shows "fold USART1_IRQHandler bs r =
    r\<lparr>rx_buff := take k (rx_buff r) @ bs @ drop (k + length bs) (rx_buff r), rx_index := int (k + length bs)\<rparr>"
  using assms
proof (induction bs arbitrary: k r)
  case Nil
  then show ?case by simp
next
  case (Cons b bs)
  define r1 where "r1 = r\<lparr>rx_buff := (rx_buff r)[k := b], rx_index := int (Suc k)\<rparr>"
  have "USART1_IRQHandler b r = r1"
    using Cons.prems by (auto simp: USART1_IRQHandler_def Let_def store_in r1_def)
  then have "fold USART1_IRQHandler (b # bs) r = fold USART1_IRQHandler bs r1" by simp
  also have "\<dots> = r1\<lparr>rx_buff := take (Suc k) (rx_buff r1) @ bs @ drop (Suc k + length bs) (rx_buff r1),
      rx_index := int (Suc k + length bs)\<rparr>"
    using Cons.prems by (intro Cons.IH) (auto simp: r1_def)
  finally show ?case
    using Cons.prems(2) by (simp add: r1_def take_Suc_conv_app_nth drop_update_cancel)
qed

lemma usart_overrun:
  assumes "10 \<notin> set bs" "rx_index r = int k" "length (rx_buff r) < k + length bs" "k \<le> length (rx_buff r)"
  shows "rx_fault (fold USART1_IRQHandler bs r)"
proof -
  let ?n = "length (rx_buff r) - k"
  define r1 where "r1 = fold USART1_IRQHandler (take ?n bs) r"
  have "10 \<notin> set (take ?n bs)" using assms(1) by (meson in_set_takeD)
  then have r1: "rx_index r1 = int (length (rx_buff r))" "length (rx_buff r1) = length (rx_buff r)"
    using usart_bytes [of "take ?n bs" k r] assms(2-4) by (simp_all add: r1_def)
  obtain b cs where d: "drop ?n bs = b # cs" using assms(3,4) by (cases "drop ?n bs") auto
  have "rx_fault (USART1_IRQHandler b r1)"
    using r1 by (simp add: USART1_IRQHandler_def Let_def store_out)
  moreover have "rx_fault x \<Longrightarrow> rx_fault (fold USART1_IRQHandler cs x)" for x
    by (induction cs arbitrary: x) (simp_all add: usart_fault_stays)
  moreover have "fold USART1_IRQHandler bs r = fold USART1_IRQHandler (drop ?n bs) r1"
    unfolding r1_def by (metis append_take_drop_id fold_append comp_apply)
  ultimately show ?thesis by (simp add: d)
qed

text \<open>C36: the UART handler stores a line of up to 48 characters with its line feed and a zero behind it and is ready for
  the next line. It does not look at the size of its buffer: a longer line is written behind its end.\<close>

theorem usart_stores_lines:
  assumes "length (rx_buff r) = 50" "rx_index r = 0" "\<not> rx_fault r" "10 \<notin> set bs"
  shows "if length bs \<le> 48
    then fold USART1_IRQHandler (bs @ [10]) r =
      r\<lparr>rx_buff := bs @ [10, 0] @ drop (length bs + 2) (rx_buff r), rx_index := 0\<rparr>
    else rx_fault (fold USART1_IRQHandler (bs @ [10]) r)"
proof (cases "length bs \<le> 48")
  case True
  define r1 where "r1 = r\<lparr>rx_buff := bs @ drop (length bs) (rx_buff r), rx_index := int (length bs)\<rparr>"
  have "fold USART1_IRQHandler bs r = r1"
    using usart_bytes [of bs 0 r] assms True by (simp add: r1_def)
  moreover have "drop (length bs) (rx_buff r) = rx_buff r ! length bs # rx_buff r ! Suc (length bs) # drop (length bs + 2) (rx_buff r)"
    using True assms(1) by (simp add: Cons_nth_drop_Suc)
  ultimately show ?thesis
    using True assms(1) by (simp add: USART1_IRQHandler_def Let_def store_def r1_def nat_add_distrib list_update_append)
next
  case False
  have "rx_fault (USART1_IRQHandler 10 (fold USART1_IRQHandler bs r))"
  proof (cases "length bs > 50")
    case True
    then show ?thesis using usart_overrun [of bs r 0] assms by (intro usart_fault_stays) simp
  next
    case le: False
    then have "fold USART1_IRQHandler bs r = r\<lparr>rx_buff := bs @ drop (length bs) (rx_buff r), rx_index := int (length bs)\<rparr>"
      using usart_bytes [of bs 0 r] assms by simp
    then show ?thesis using False le assms(1) by (simp add: USART1_IRQHandler_def Let_def store_def)
  qed
  with False show ?thesis by simp
qed

theorem usart_stores_lines_witness:
  "fold USART1_IRQHandler [72, 105, 10] \<lparr>rx_buff = replicate 50 7, rx_index = 0, rx_fault = False\<rparr> =
     \<lparr>rx_buff = [72, 105, 10, 0] @ replicate 46 7, rx_index = 0, rx_fault = False\<rparr>"
  using usart_stores_lines [of "\<lparr>rx_buff = replicate 50 7, rx_index = 0, rx_fault = False\<rparr>" "[72, 105]"]
  by simp

text \<open>The SPI handler writes before its buffer at the end of every line: it resets its index and then stores the
  terminating zero at index minus one. So no line is ever terminated.\<close>

theorem spi_line_end_out_of_bounds:
  "rx_fault (SPI1_IRQHandler 10 r) \<and>
   rx_buff (SPI1_IRQHandler 10 r) =
     (if 0 \<le> rx_index r \<and> rx_index r < int (length (rx_buff r)) then (rx_buff r)[nat (rx_index r) := 10] else rx_buff r)"
  by (simp add: SPI1_IRQHandler_def Let_def store_def)

lemma can_copy_fault: "rx_fault r \<Longrightarrow> rx_fault (can_copy DLC data i r)"
  by (induction DLC data i r rule: can_copy.induct) (subst can_copy.simps, simp)

lemma can_copy_bytes:
  assumes "length data = 8" "DLC \<le> 8" "unat i + n = unat DLC" "8 \<le> length (rx_buff r)"
  shows "can_copy DLC data i r =
    r\<lparr>rx_buff := take (unat i) (rx_buff r) @ take n (drop (unat i) data) @ drop (unat DLC) (rx_buff r)\<rparr>"
  using assms(3,4)
proof (induction n arbitrary: i r)
  case 0
  then show ?case by (subst can_copy.simps) (simp add: word_less_nat_alt)
next
  case (Suc n)
  have d: "unat DLC \<le> 8" using assms(2) by (simp add: word_le_nat_alt)
  have lt: "i < DLC" "unat i < 8" using Suc.prems(1) d by (simp_all add: word_less_nat_alt)
  have u: "unat (i + 1) = Suc (unat i)" using lt(2) by (simp add: unat_word_ariths)
  define r1 where "r1 = r\<lparr>rx_buff := (rx_buff r)[unat i := data ! unat i]\<rparr>"
  have "store (uint i) (data ! unat i) r = r1"
    using store_in [of "unat i" r] lt(2) Suc.prems(2) by (simp add: r1_def)
  then have "can_copy DLC data i r = can_copy DLC data (i + 1) r1"
    using lt assms(1) by (subst can_copy.simps) simp
  also have "\<dots> = r1\<lparr>rx_buff := take (unat (i + 1)) (rx_buff r1) @ take n (drop (unat (i + 1)) data) @ drop (unat DLC) (rx_buff r1)\<rparr>"
    using Suc.prems u by (intro Suc.IH) (simp_all add: r1_def)
  finally show ?case
    using lt u assms(1) Suc.prems
    by (simp add: r1_def take_Suc_conv_app_nth drop_update_cancel flip: Cons_nth_drop_Suc)
qed

text \<open>The CAN handler copies the data bytes of a frame to the start of its buffer when the length code is at most
  eight. It takes the length code for a number of bytes: for the codes above eight, which also mean eight bytes, it reads behind
  the mailbox.\<close>

theorem can_rx_copies_frame:
  assumes "length data = 8" "length (rx_buff r) = 50" "\<not> rx_fault r"
  shows "if DLC \<le> 8
    then CAN1_RX0_IRQHandler DLC data r = r\<lparr>rx_buff := take (unat DLC) data @ drop (unat DLC) (rx_buff r)\<rparr>
    else rx_fault (CAN1_RX0_IRQHandler DLC data r)"
proof (cases "DLC \<le> 8")
  case True
  then show ?thesis using can_copy_bytes [OF assms(1) True, of 0 "unat DLC" r] assms(2) by (simp add: CAN1_RX0_IRQHandler_def)
next
  case False
  have copied: "\<exists>r'. can_copy DLC data i r = can_copy DLC data 8 r'" if "unat i + n = 8" for n i r
    using that
  proof (induction n arbitrary: i r)
    case 0
    then have "i = 8" by (simp add: word_unat_eq_iff)
    then show ?case by blast
  next
    case (Suc n)
    have "i < DLC" using False Suc.prems by (simp add: word_less_nat_alt word_le_nat_alt)
    moreover have "unat (i + 1) + n = 8" using Suc.prems by (simp add: unat_word_ariths)
    ultimately show ?case using Suc.IH [of "i + 1"] by (subst can_copy.simps) simp
  qed
  have "rx_fault (can_copy DLC data 8 x)" for x
    using False assms(1) by (subst can_copy.simps) (simp add: word_less_nat_alt word_le_nat_alt can_copy_fault)
  with copied [of 0 8 r] False show ?thesis by (auto simp: CAN1_RX0_IRQHandler_def)
qed

theorem can_rx_copies_frame_witness:
  "rx_fault (CAN1_RX0_IRQHandler 9 [1, 2, 3, 4, 5, 6, 7, 8] \<lparr>rx_buff = replicate 50 0, rx_index = 0, rx_fault = False\<rparr>)"
  using can_rx_copies_frame [of "[1, 2, 3, 4, 5, 6, 7, 8]" "\<lparr>rx_buff = replicate 50 0, rx_index = 0, rx_fault = False\<rparr>" 9]
  by simp

section \<open>Senders\<close>

lemma wait_flag_returns: "\<exists>t'\<ge>t. flag t' \<Longrightarrow> \<exists>t1. wait_flag flag t = Some t1"
proof -
  assume "\<exists>t'\<ge>t. flag t'"
  then obtain n where "flag (t + n)" by (metis le_Suc_ex)
  then show ?thesis
  proof (induction n arbitrary: t)
    case 0
    then show ?case by (subst wait_flag.simps) simp
  next
    case (Suc n)
    then show ?case using Suc.IH [of "t + 1"] by (subst wait_flag.simps) simp
  qed
qed

lemma send_string_returns:
  assumes "\<forall>t. \<exists>t'\<ge>t. flag t'" "0 \<in> set mem"
  shows "send_string flag t mem = Some (takeWhile (\<lambda>c. c \<noteq> 0) mem)"
  using assms(2)
proof (induction mem arbitrary: t)
  case (Cons c cs)
  obtain t1 where "wait_flag flag t = Some t1" using wait_flag_returns [of t flag] assms(1) by auto
  with Cons show ?case by auto
qed simp

lemma wait_flag_set: "wait_flag flag t = Some t1 \<Longrightarrow> \<exists>t'. flag t'"
  by (erule wait_flag.raw_induct [rotated, where P = "\<lambda>flag t t1. \<exists>t'. flag t'"]) (auto split: if_splits)

text \<open>The send functions return and have sent the string up to its terminating zero, provided the status flag is
  set again and again. If the flag is never set, they do not return.\<close>

theorem uart_send_returns:
  assumes "0 \<in> set mem" "\<forall>t. \<exists>t'\<ge>t. flag t'"
  shows "Uart1_Send flag mem = Some (takeWhile (\<lambda>c. c \<noteq> 0) mem) \<and>
    SPI1_Send flag mem = Some (True, takeWhile (\<lambda>c. c \<noteq> 0) mem) \<and>
    (\<forall>c cs. c \<noteq> 0 \<longrightarrow> Uart1_Send (\<lambda>t. False) (c # cs) = None)"
proof -
  have "wait_flag (\<lambda>t. False) 0 = None" using wait_flag_set [of "\<lambda>t. False" 0] by (cases "wait_flag (\<lambda>t. False) 0") auto
  then show ?thesis using send_string_returns [OF assms(2,1), of 0] by (simp add: Uart1_Send_def SPI1_Send_def)
qed

theorem uart_send_returns_witness:
  "Uart1_Send (\<lambda>t. t mod 2 = 1) [72, 105, 0, 9] = Some [72, 105]"
proof -
  have "\<forall>t. \<exists>t'\<ge>t. t' mod 2 = (1::nat)" by presburger
  then show ?thesis using uart_send_returns [of "[72, 105, 0, 9]" "\<lambda>t. t mod 2 = 1"] by simp
qed

lemma least_or_later:
  fixes k m :: nat
  assumes "k \<le> m"
  shows "(\<exists>j. k \<le> j \<and> j \<le> m \<and> P j) \<longleftrightarrow> P k \<or> (\<exists>j. Suc k \<le> j \<and> j \<le> m \<and> P j)"
  using assms by (metis Suc_leD not_less_eq_eq order_antisym order_refl)

lemma can_wait_result:
  assumes "unat i + n = 0xFFE"
  shows "can_wait status i = (if \<exists>j. unat i \<le> j \<and> j \<le> 0xFFE \<and> status j then 0 else 1)"
  using assms
proof (induction n arbitrary: i)
  case 0
  then have i: "unat i = 0xFFE" by simp
  then have "i + 1 \<ge> 0xFFF" by (simp add: word_le_nat_alt unat_word_ariths)
  moreover have "(\<exists>j. unat i \<le> j \<and> j \<le> 0xFFE \<and> status j) = status (unat i)" unfolding i by (metis order_antisym order_refl)
  ultimately show ?case by (subst can_wait.simps) simp
next
  case (Suc n)
  have u: "unat (i + 1) = Suc (unat i)" using Suc.prems by (simp add: unat_word_ariths)
  then have "\<not> i + 1 \<ge> 0xFFF" using Suc.prems by (simp add: word_le_nat_alt)
  then have "can_wait status i = (if status (unat i) then 0 else can_wait status (i + 1))"
    by (subst can_wait.simps) simp
  moreover have "(\<exists>j. unat i \<le> j \<and> j \<le> 0xFFE \<and> status j) = (status (unat i) \<or> (\<exists>j. Suc (unat i) \<le> j \<and> j \<le> 0xFFE \<and> status j))"
    using Suc.prems by (intro least_or_later) simp
  moreover have "can_wait status (i + 1) = (if \<exists>j. Suc (unat i) \<le> j \<and> j \<le> 0xFFE \<and> status j then 0 else 1)"
    unfolding u [symmetric] using Suc.prems u by (intro Suc.IH) simp
  ultimately show ?case by (cases "status (unat i)") (simp_all only: if_True if_False simp_thms)
qed

text \<open>\<open>CAN1_Send_Msg\<close> always returns: 0 if the mailbox reports success at one of the first 4095 polls, otherwise 1.\<close>

theorem can_send_bounded:
  "CAN1_Send_Msg status = (if \<exists>j<4095. status j then 0 else 1)"
proof -
  have "(\<exists>j. 0 \<le> j \<and> j \<le> 0xFFE \<and> status j) = (\<exists>j<4095. status j)" by (auto simp: less_Suc_eq_le [of _ 4094, simplified])
  then show ?thesis using can_wait_result [of 0 "0xFFE" status] by (simp add: CAN1_Send_Msg_def)
qed

end
